(* ===== verification/Prelude.thy ===== *)
theory Prelude
  imports Main "HOL-Library.Word" "HOL-Library.Code_Target_Nat"
begin

text \<open>
  Shared vocabulary of the MailSwiftSync development.

  A Rust \<^verbatim>\<open>&str\<close>/\<^verbatim>\<open>String\<close> is its UTF-8 byte sequence, a list of \<open>char\<close> (one
  \<open>char\<close> is one byte); \<open>length\<close> is Rust's \<^verbatim>\<open>str::len\<close>. The functions below are the
  methods of \<^verbatim>\<open>str\<close> the program uses, on bytes: \<open>starts_with\<close>, \<open>strip_prefix\<close>, \<open>contains\<close>,
  \<open>split_once\<close>, \<open>rsplit_once\<close>, \<open>split\<close>, \<open>trim\<close>, \<open>to_ascii_lowercase\<close> and the integer parsers.
  A separator that is an ASCII character never occurs inside a multi-byte character, so byte
  and character splitting agree.

  A Rust \<^verbatim>\<open>Result<T, E>\<close> is the sum \<open>'e + 't\<close> with \<open>Inl\<close> the error, \<^verbatim>\<open>Option\<close> is \<open>option\<close>.
  \<^verbatim>\<open>Duration\<close> and \<^verbatim>\<open>Instant\<close> count nanoseconds as \<open>nat\<close>; an instant is read on the monotonic
  clock of the process.
\<close>

section \<open>Types and collections\<close>

type_synonym str = string
type_synonym duration = nat
type_synonym instant = nat

named_theorems str_simps \<open>evaluation of the string operations\<close>
named_theorems wire_simps \<open>wire labels and parsers of the durable enums\<close>

definition secs :: "nat \<Rightarrow> duration" where
  "secs n = n * 1000000000"

definition millis :: "nat \<Rightarrow> duration" where
  "millis n = n * 1000000"

text \<open>\<^verbatim>\<open>Duration::MAX\<close>: \<open>2 ^ 64 - 1\<close> seconds and 999,999,999 nanoseconds.\<close>

definition duration_max :: duration where
  "duration_max = (2 ^ 64 - 1) * 1000000000 + 999999999"

definition duration_saturating_mul :: "duration \<Rightarrow> nat \<Rightarrow> duration" where
  "duration_saturating_mul d n = min (d * n) duration_max"

definition u64_max :: nat where
  "u64_max = 2 ^ 64 - 1"

definition u32_max :: nat where
  "u32_max = 2 ^ 32 - 1"

definition saturating_mul_u64 :: "nat \<Rightarrow> nat \<Rightarrow> nat" where
  "saturating_mul_u64 a b = min (a * b) u64_max"

definition saturating_add_u64 :: "nat \<Rightarrow> nat \<Rightarrow> nat" where
  "saturating_add_u64 a b = min (a + b) u64_max"

definition saturating_add_u8 :: "8 word \<Rightarrow> 8 word" where
  "saturating_add_u8 w = (if w = 255 then 255 else w + 1)"

lemma secs_mono [simp]: "secs a \<le> secs b \<longleftrightarrow> a \<le> b"
  by (simp add: secs_def)

lemma secs_zero [simp]: "secs 0 = 0"
  by (simp add: secs_def)

lemma unat_saturating_add_u8: "unat (saturating_add_u8 w) = min 255 (Suc (unat w))"
proof (cases "w = 255")
  case True
  then show ?thesis by (simp add: saturating_add_u8_def)
next
  case False
  then have "unat w \<noteq> 255"
    by (simp add: word_unat_eq_iff)
  moreover have "unat w < 2 ^ LENGTH(8)"
    by (rule unsigned_less)
  then have "unat w < 256" by simp
  ultimately have "Suc (unat w) < 256" by simp
  then show ?thesis
    using False by (simp add: saturating_add_u8_def unat_word_ariths)
qed

section \<open>Strings\<close>

fun starts_with :: "str \<Rightarrow> str \<Rightarrow> bool" where
  "starts_with [] s = True"
| "starts_with (p # ps) [] = False"
| "starts_with (p # ps) (c # cs) = (if p = c then starts_with ps cs else False)"

definition strip_prefix :: "str \<Rightarrow> str \<Rightarrow> str option" where
  "strip_prefix p s = (if starts_with p s then Some (drop (length p) s) else None)"

fun contains :: "str \<Rightarrow> str \<Rightarrow> bool" where
  "contains n [] = (n = [])"
| "contains n (c # cs) = (if starts_with n (c # cs) then True else contains n cs)"

text \<open>\<open>split_once sep s\<close>: the first occurrence of a non-empty separator.\<close>

fun split_once :: "str \<Rightarrow> str \<Rightarrow> (str \<times> str) option" where
  "split_once sep [] = (if sep = [] then Some ([], []) else None)"
| "split_once sep (c # cs) =
     (if starts_with sep (c # cs) then Some ([], drop (length sep) (c # cs))
      else map_option (\<lambda>(a, b). (c # a, b)) (split_once sep cs))"

text \<open>\<open>rsplit_once sep s\<close>: the last occurrence.\<close>

fun rsplit_once :: "str \<Rightarrow> str \<Rightarrow> (str \<times> str) option" where
  "rsplit_once sep [] = (if sep = [] then Some ([], []) else None)"
| "rsplit_once sep (c # cs) =
     (case rsplit_once sep cs of
        Some (a, b) \<Rightarrow> Some (c # a, b)
      | None \<Rightarrow> (if starts_with sep (c # cs) then Some ([], drop (length sep) (c # cs)) else None))"

text \<open>\<open>split_char c s\<close>: \<^verbatim>\<open>str::split\<close> with a character; it always yields a piece.\<close>

fun split_char :: "char \<Rightarrow> str \<Rightarrow> str list" where
  "split_char sep [] = [[]]"
| "split_char sep (c # cs) =
     (if c = sep then [] # split_char sep cs
      else (case split_char sep cs of [] \<Rightarrow> [[c]] | p # ps \<Rightarrow> (c # p) # ps))"

text \<open>\<^verbatim>\<open>to_ascii_lowercase\<close> maps \<open>A\<close>..\<open>Z\<close> only and leaves every other byte.\<close>

definition char_code :: "char \<Rightarrow> nat" where
  "char_code c = of_char c"

definition is_ascii_uppercase :: "char \<Rightarrow> bool" where
  "is_ascii_uppercase c \<longleftrightarrow> 65 \<le> char_code c \<and> char_code c \<le> 90"

definition ascii_lower :: "char \<Rightarrow> char" where
  "ascii_lower c = (if is_ascii_uppercase c then char_of (char_code c + 32) else c)"

definition to_ascii_lowercase :: "str \<Rightarrow> str" where
  "to_ascii_lowercase = map ascii_lower"

definition eq_ignore_ascii_case :: "str \<Rightarrow> str \<Rightarrow> bool" where
  "eq_ignore_ascii_case a b \<longleftrightarrow> to_ascii_lowercase a = to_ascii_lowercase b"

definition is_ascii_digit :: "char \<Rightarrow> bool" where
  "is_ascii_digit c \<longleftrightarrow> 48 \<le> char_code c \<and> char_code c \<le> 57"

definition is_ascii_alphabetic :: "char \<Rightarrow> bool" where
  "is_ascii_alphabetic c \<longleftrightarrow>
     (65 \<le> char_code c \<and> char_code c \<le> 90) \<or> (97 \<le> char_code c \<and> char_code c \<le> 122)"

definition is_ascii_alphanumeric :: "char \<Rightarrow> bool" where
  "is_ascii_alphanumeric c \<longleftrightarrow> is_ascii_alphabetic c \<or> is_ascii_digit c"

definition is_ascii_hexdigit :: "char \<Rightarrow> bool" where
  "is_ascii_hexdigit c \<longleftrightarrow> is_ascii_digit c \<or>
     (65 \<le> char_code c \<and> char_code c \<le> 70) \<or> (97 \<le> char_code c \<and> char_code c \<le> 102)"

text \<open>Tab, line feed, form feed, carriage return and space.\<close>

definition is_ascii_whitespace :: "char \<Rightarrow> bool" where
  "is_ascii_whitespace c \<longleftrightarrow> char_code c \<in> {9, 10, 12, 13, 32}"

text \<open>
  \<^verbatim>\<open>char::is_whitespace\<close> (Unicode \<open>White_Space\<close>) in UTF-8: the number of leading bytes that
  encode one white-space character, 0 when there is none. One byte: U+0009 to U+000D and U+0020;
  two: U+0085, U+00A0; three: U+1680, U+2000 to U+200A, U+2028, U+2029, U+202F, U+205F, U+3000.
\<close>

definition ws_one :: "char \<Rightarrow> bool" where
  "ws_one a \<longleftrightarrow>
     a = CHR 0x20 \<or> a = CHR 0x09 \<or> a = CHR 0x0A \<or> a = CHR 0x0B \<or> a = CHR 0x0C \<or> a = CHR 0x0D"

definition ws_two :: "char \<Rightarrow> char \<Rightarrow> bool" where
  "ws_two a b \<longleftrightarrow> a = CHR 0xC2 \<and> (b = CHR 0x85 \<or> b = CHR 0xA0)"

definition ws_three :: "char \<Rightarrow> char \<Rightarrow> char \<Rightarrow> bool" where
  "ws_three a b c \<longleftrightarrow>
     (a = CHR 0xE1 \<and> b = CHR 0x9A \<and> c = CHR 0x80) \<or>
     (a = CHR 0xE3 \<and> b = CHR 0x80 \<and> c = CHR 0x80) \<or>
     (a = CHR 0xE2 \<and> b = CHR 0x81 \<and> c = CHR 0x9F) \<or>
     (a = CHR 0xE2 \<and> b = CHR 0x80 \<and>
      ((128 \<le> char_code c \<and> char_code c \<le> 138) \<or> char_code c \<in> {168, 169, 175}))"

definition ws_width :: "str \<Rightarrow> nat" where
  "ws_width s =
     (case s of [] \<Rightarrow> 0
      | a # r \<Rightarrow> if ws_one a then 1 else
          (case r of [] \<Rightarrow> 0
           | b # r' \<Rightarrow> if ws_two a b then 2 else
               (case r' of [] \<Rightarrow> 0 | c # _ \<Rightarrow> if ws_three a b c then 3 else 0)))"

fun trim_start_fuel :: "nat \<Rightarrow> str \<Rightarrow> str" where
  "trim_start_fuel 0 s = s"
| "trim_start_fuel (Suc n) s =
     (let w = ws_width s in if w = 0 then s else trim_start_fuel n (drop w s))"

definition trim_start :: "str \<Rightarrow> str" where
  "trim_start s = trim_start_fuel (length s) s"

text \<open>The trailing width reads the same encodings at the end of the string.\<close>

definition ws_width_end :: "str \<Rightarrow> nat" where
  "ws_width_end s =
     (case rev s of [] \<Rightarrow> 0
      | c # r \<Rightarrow> if ws_one c then 1 else
          (case r of [] \<Rightarrow> 0
           | b # r' \<Rightarrow> if ws_two b c then 2 else
               (case r' of [] \<Rightarrow> 0 | a # _ \<Rightarrow> if ws_three a b c then 3 else 0)))"

fun trim_end_fuel :: "nat \<Rightarrow> str \<Rightarrow> str" where
  "trim_end_fuel 0 s = s"
| "trim_end_fuel (Suc n) s =
     (let w = ws_width_end s in
      if w = 0 then s else trim_end_fuel n (take (length s - w) s))"

definition trim_end :: "str \<Rightarrow> str" where
  "trim_end s = trim_end_fuel (length s) s"

definition trim :: "str \<Rightarrow> str" where
  "trim s = trim_end (trim_start s)"

text \<open>
  \<^verbatim>\<open>str::parse::<u64>\<close> and its kin: an optional leading plus sign, at least one digit, no
  other byte, and a value that fits.
\<close>

definition digit_value :: "char \<Rightarrow> nat" where
  "digit_value c = char_code c - 48"

fun parse_digits :: "nat \<Rightarrow> str \<Rightarrow> nat option" where
  "parse_digits acc [] = Some acc"
| "parse_digits acc (c # cs) =
     (if is_ascii_digit c then parse_digits (10 * acc + digit_value c) cs else None)"

definition parse_unsigned :: "nat \<Rightarrow> str \<Rightarrow> nat option" where
  "parse_unsigned bound s =
     (let body = (case s of [] \<Rightarrow> [] | c # cs \<Rightarrow> if c = CHR ''+'' then cs else s)
      in if body = [] then None
         else case parse_digits 0 body of
                None \<Rightarrow> None
              | Some n \<Rightarrow> if n \<le> bound then Some n else None)"

definition parse_u64 :: "str \<Rightarrow> nat option" where
  "parse_u64 = parse_unsigned u64_max"

definition parse_u32 :: "str \<Rightarrow> nat option" where
  "parse_u32 = parse_unsigned u32_max"

text \<open>\<^verbatim>\<open>to_string\<close> of an unsigned integer: decimal digits without leading zeros.\<close>

fun nat_to_string :: "nat \<Rightarrow> str" where
  "nat_to_string n =
     (if n < 10 then [char_of (48 + n)] else nat_to_string (n div 10) @ [char_of (48 + n mod 10)])"

declare nat_to_string.simps [simp del]

section \<open>Bit-level evaluation of the character classes\<close>

text \<open>
  Code equations on the eight bits of a character, so that closed terms evaluate without decimal
  arithmetic on character codes.
\<close>

lemma char_code_Char:
  "char_code (Char b0 b1 b2 b3 b4 b5 b6 b7) =
     of_bool b0 + 2 * of_bool b1 + 4 * of_bool b2 + 8 * of_bool b3 + 16 * of_bool b4 +
     32 * of_bool b5 + 64 * of_bool b6 + 128 * of_bool b7"
  by (simp add: char_code_def)

lemma is_ascii_uppercase_Char [code]:
  "is_ascii_uppercase (Char b0 b1 b2 b3 b4 b5 b6 b7) \<longleftrightarrow>
     (if b7 then False else if b6 then if b5 then False
      else if b4 then (if b3 then (if b2 then False else \<not> (b1 \<and> b0)) else True)
      else b0 \<or> b1 \<or> b2 \<or> b3 else False)"
  by (cases b7; cases b6; cases b5; cases b4; cases b3; cases b2; cases b1; cases b0)
     (simp_all add: is_ascii_uppercase_def char_code_Char)

lemma is_ascii_digit_Char [code]:
  "is_ascii_digit (Char b0 b1 b2 b3 b4 b5 b6 b7) \<longleftrightarrow>
     (if b7 then False else if b6 then False else if b5 then
        (if b4 then (if b3 then \<not> (b2 \<or> b1) else True) else False) else False)"
  by (cases b7; cases b6; cases b5; cases b4; cases b3; cases b2; cases b1; cases b0)
     (simp_all add: is_ascii_digit_def char_code_Char)

lemma char_code_inject: "char_code a = char_code b \<Longrightarrow> a = b"
  by (simp add: char_code_def)

lemma ascii_lower_Char [code]:
  "ascii_lower (Char b0 b1 b2 b3 b4 b5 b6 b7) =
     Char b0 b1 b2 b3 b4 (b5 \<or> is_ascii_uppercase (Char b0 b1 b2 b3 b4 b5 b6 b7)) b6 b7"
proof (cases "is_ascii_uppercase (Char b0 b1 b2 b3 b4 b5 b6 b7)")
  case True
  then have b5: "\<not> b5" by (auto simp: is_ascii_uppercase_Char split: if_splits)
  have "char_code (char_of (char_code (Char b0 b1 b2 b3 b4 b5 b6 b7) + 32)) =
        char_code (Char b0 b1 b2 b3 b4 True b6 b7)"
    using True b5 by (simp add: char_code_def is_ascii_uppercase_def)
  then show ?thesis
    using True b5 char_code_inject by (simp add: ascii_lower_def)
next
  case False
  then show ?thesis by (simp add: ascii_lower_def)
qed

section \<open>Lemmas on strings\<close>

lemma starts_with_take: "starts_with p s \<longleftrightarrow> take (length p) s = p"
  by (induction p s rule: starts_with.induct) auto

lemma starts_with_append [simp]: "starts_with p (p @ s)"
  by (simp add: starts_with_take)

lemma strip_prefix_append [simp]: "strip_prefix p (p @ s) = Some s"
  by (simp add: strip_prefix_def)

lemma strip_prefix_SomeD: "strip_prefix p s = Some r \<Longrightarrow> s = p @ r"
  by (auto simp: strip_prefix_def starts_with_take split: if_splits)
     (metis append_take_drop_id)

lemma starts_with_singleton: "starts_with [c] s \<longleftrightarrow> s \<noteq> [] \<and> hd s = c"
  by (cases s) (auto simp: starts_with_take)

lemma split_once_SomeD: "split_once sep s = Some (a, b) \<Longrightarrow> s = a @ sep @ b"
proof (induction s arbitrary: a b)
  case Nil
  then show ?case by (simp split: if_splits)
next
  case (Cons c cs)
  then show ?case
    by (auto simp: starts_with_take split: if_splits)
       (metis append_take_drop_id append_eq_conv_conj)
qed

lemma split_once_char:
  "c \<notin> set a \<Longrightarrow> split_once [c] (a @ c # b) = Some (a, b)"
  by (induction a) (auto simp: starts_with_take)

lemma split_once_char_None: "split_once [c] s = None \<longleftrightarrow> c \<notin> set s"
  by (induction s) (auto simp: starts_with_take)

lemma split_once_char_not_in: "split_once [c] s = Some (a, b) \<Longrightarrow> c \<notin> set a"
  by (induction s arbitrary: a) (auto simp: starts_with_take split: if_splits)

lemma split_once_length: "split_once sep s = Some (a, b) \<Longrightarrow> length sep \<le> length s"
  by (drule split_once_SomeD) simp

lemma starts_with_append_iff: "length p \<le> length s \<Longrightarrow> starts_with p (s @ t) \<longleftrightarrow> starts_with p s"
  by (simp add: starts_with_take)

lemma split_once_append_right:
  "split_once sep s = Some (a, b) \<Longrightarrow> split_once sep (s @ t) = Some (a, b @ t)"
proof (induction s arbitrary: a)
  case Nil
  then have "sep = []" "a = []" "b = []" by (auto split: if_splits)
  then show ?case by (cases t) simp_all
next
  case (Cons c cs)
  then have len: "length sep \<le> length (c # cs)" using split_once_length by blast
  show ?case
  proof (cases "starts_with sep (c # cs)")
    case True
    with Cons.prems have "a = []" "b = drop (length sep) (c # cs)" by auto
    moreover have "drop (length sep) ((c # cs) @ t) = drop (length sep) (c # cs) @ t"
      using len by (simp only: drop_append) simp
    ultimately show ?thesis using True starts_with_append_iff [OF len, of t] by simp
  next
    case False
    with Cons.prems obtain a' where "split_once sep cs = Some (a', b)" "a = c # a'" by auto
    with Cons.IH [of a'] False starts_with_append_iff [OF len, of t] show ?thesis by auto
  qed
qed

lemma split_once_append_left:
  assumes "sep \<noteq> []" and "hd sep \<notin> set pre"
  shows "split_once sep (pre @ s) = map_option (\<lambda>(a, b). (pre @ a, b)) (split_once sep s)"
  using assms(2)
proof (induction pre)
  case Nil
  then show ?case by (simp add: option.map_ident_strong prod.case_eq_if)
next
  case (Cons c cs)
  with assms(1) have "\<not> starts_with sep (c # cs @ s)"
    by (cases sep) (auto simp: starts_with_take)
  with Cons show ?case by (cases "split_once sep s") auto
qed

lemma rsplit_once_char_None: "rsplit_once [c] s = None \<longleftrightarrow> c \<notin> set s"
  by (induction s) (auto simp: starts_with_take split: option.splits)

lemma rsplit_once_char:
  "c \<notin> set b \<Longrightarrow> rsplit_once [c] (a @ c # b) = Some (a, b)"
proof (induction a)
  case Nil
  then have "rsplit_once [c] b = None" by (simp add: rsplit_once_char_None)
  then show ?case by (simp add: starts_with_take)
next
  case (Cons x xs)
  then show ?case by simp
qed

lemma contains_append: "contains n (a @ n @ b)"
proof (induction a)
  case Nil
  then show ?case by (cases "n @ b") (auto simp: starts_with_take, metis append_eq_conv_conj)
next
  case (Cons x xs)
  then show ?case by simp
qed

lemma contains_iff: "contains n s \<longleftrightarrow> (\<exists>a b. s = a @ n @ b)"
proof
  show "contains n s \<Longrightarrow> \<exists>a b. s = a @ n @ b"
  proof (induction s)
    case Nil
    then show ?case by simp
  next
    case (Cons c cs)
    show ?case
    proof (cases "starts_with n (c # cs)")
      case True
      then have "c # cs = [] @ n @ drop (length n) (c # cs)"
        by (metis append_Nil append_take_drop_id starts_with_take)
      then show ?thesis by blast
    next
      case False
      with Cons obtain a b where "cs = a @ n @ b" by auto
      then have "c # cs = (c # a) @ n @ b" by simp
      then show ?thesis by blast
    qed
  qed
next
  assume "\<exists>a b. s = a @ n @ b"
  then show "contains n s" using contains_append by blast
qed

lemma contains_appendI1: "contains n a \<Longrightarrow> contains n (a @ b)"
  by (metis append_assoc contains_iff)

lemma contains_appendI2: "contains n b \<Longrightarrow> contains n (a @ b)"
  by (metis append_assoc contains_iff)

lemma to_ascii_lowercase_append [simp]:
  "to_ascii_lowercase (a @ b) = to_ascii_lowercase a @ to_ascii_lowercase b"
  by (simp add: to_ascii_lowercase_def)

lemma length_to_ascii_lowercase [simp]: "length (to_ascii_lowercase s) = length s"
  by (simp add: to_ascii_lowercase_def)

lemma ascii_lower_idem [simp]: "ascii_lower (ascii_lower c) = ascii_lower c"
  by (auto simp: ascii_lower_def is_ascii_uppercase_def char_code_def)

lemma to_ascii_lowercase_idem [simp]: "to_ascii_lowercase (to_ascii_lowercase s) = to_ascii_lowercase s"
  by (simp add: to_ascii_lowercase_def)

lemma split_char_nonempty [simp]: "split_char c s \<noteq> []"
  by (induction s) (auto split: list.splits)

lemma trim_Nil [simp]: "trim [] = []"
  by (simp add: trim_def trim_start_def trim_end_def)

section \<open>Decimal printing and parsing\<close>

lemma char_code_digit: "(n::nat) < 10 \<Longrightarrow> char_code (char_of (48 + n)) = 48 + n"
  by (simp add: char_code_def)

lemma is_ascii_digit_char_of [simp]: "(n::nat) < 10 \<Longrightarrow> is_ascii_digit (char_of (48 + n))"
  by (simp add: is_ascii_digit_def char_code_digit)

lemma digit_value_char_of [simp]: "(n::nat) < 10 \<Longrightarrow> digit_value (char_of (48 + n)) = n"
  by (simp add: digit_value_def char_code_digit)

lemma nat_to_string_nonempty [simp]: "nat_to_string n \<noteq> []"
  by (subst nat_to_string.simps) simp

lemma nat_to_string_digits: "c \<in> set (nat_to_string n) \<Longrightarrow> is_ascii_digit c"
proof (induction n rule: nat_to_string.induct)
  case (1 n)
  then show ?case
    by (subst (asm) (2) nat_to_string.simps) (auto split: if_splits)
qed

lemma parse_digits_append:
  "parse_digits acc (a @ b) = Option.bind (parse_digits acc a) (\<lambda>n. parse_digits n b)"
  by (induction a arbitrary: acc) auto

lemma parse_digits_nat_to_string: "parse_digits 0 (nat_to_string n) = Some n"
proof (induction n rule: nat_to_string.induct)
  case (1 n)
  show ?case
  proof (cases "n < 10")
    case True
    then show ?thesis by (subst nat_to_string.simps) simp
  next
    case False
    with 1 have "parse_digits 0 (nat_to_string (n div 10)) = Some (n div 10)" by simp
    with False show ?thesis
      by (subst nat_to_string.simps) (simp add: parse_digits_append)
  qed
qed

lemma is_ascii_digit_not_plus: "is_ascii_digit c \<Longrightarrow> c \<noteq> CHR ''+''"
  by (auto simp: is_ascii_digit_def char_code_def)

lemma parse_unsigned_nat_to_string: "n \<le> bound \<Longrightarrow> parse_unsigned bound (nat_to_string n) = Some n"
proof -
  assume le: "n \<le> bound"
  obtain c cs where s: "nat_to_string n = c # cs"
    by (meson nat_to_string_nonempty neq_Nil_conv)
  then have "c \<noteq> CHR ''+''"
    using nat_to_string_digits [of c n] is_ascii_digit_not_plus by simp
  with s le parse_digits_nat_to_string [of n] show ?thesis
    by (simp add: parse_unsigned_def Let_def)
qed

lemma parse_unsigned_bound: "parse_unsigned bound s = Some n \<Longrightarrow> n \<le> bound"
  by (auto simp: parse_unsigned_def Let_def split: option.splits if_splits)

section \<open>Association lists as hash maps\<close>

lemma find_SomeD: "find P xs = Some x \<Longrightarrow> x \<in> set xs \<and> P x"
  by (auto simp: find_Some_iff)

lemma map_of_filter_distinct:
  "distinct (map fst ds) \<Longrightarrow>
   map_of (filter (\<lambda>(k, d). P k d) ds) k =
     (case map_of ds k of None \<Rightarrow> None | Some d \<Rightarrow> if P k d then Some d else None)"
proof (induction ds)
  case Nil
  then show ?case by simp
next
  case (Cons x xs)
  obtain k' d' where x: "x = (k', d')" by force
  have "map_of xs k' = None" using Cons.prems by (simp add: x map_of_eq_None_iff)
  then show ?case using Cons by (auto simp: x split: option.splits)
qed

lemma distinct_fst_filter: "distinct (map fst ds) \<Longrightarrow> distinct (map fst (filter P ds))"
  by (induction ds) auto

section \<open>The wire-label interface\<close>

text \<open>
  Every durable enum has a printer \<open>enc\<close> (\<^verbatim>\<open>as_str\<close>, \<^verbatim>\<open>label\<close>) and a parser \<open>dec\<close>; the ledger and
  the reports rely on the two being inverse. The clients' facts are proved once from these laws.
\<close>

locale wire_codec =
  fixes enc :: "'a \<Rightarrow> str"
    and dec :: "str \<Rightarrow> 'a option"
  assumes dec_enc: "dec (enc x) = Some x"
    and dec_sound: "dec s = Some x \<Longrightarrow> s = enc x"
begin

lemma dec_Some_iff: "dec s = Some x \<longleftrightarrow> s = enc x"
  using dec_enc dec_sound by blast

lemma enc_inj: "enc x = enc y \<longleftrightarrow> x = y"
  by (metis dec_enc option.inject)

lemma dec_None_iff: "dec s = None \<longleftrightarrow> s \<notin> range enc"
  by (metis dec_enc dec_sound not_Some_eq option.distinct(1) rangeE rangeI)

end

end
