(* ===== verification/Provider_Intelligence.thy ===== *)
theory Provider_Intelligence
  imports Prelude
begin

text \<open>
  Provider and IMAP error recognition, \<^verbatim>\<open>src/src/core/provider_intelligence.rs\<close>: the signature and
  response-code tables, \<^verbatim>\<open>provider_signal_for_provider\<close>, the ordered text classifier
  \<^verbatim>\<open>ProviderErrorClassifier::classify\<close>, HTTP status lines and the endpoint-to-provider mapping.

  \<^verbatim>\<open>str::to_lowercase\<close> applies the Unicode case tables; it is the argument \<open>lower\<close> of the functions
  that call it.
\<close>

section \<open>Error types and signals\<close>

datatype provider_error_type =
    TransportError
  | TlsError
  | DnsError
  | ImapTaggedNo
  | ImapBad
  | AuthenticationExpired
  | EngineExit
  | VerificationError
  | RateLimited
  | ConnectionCapacity
  | MailboxQuotaExceeded
  | StorageQuotaExceeded
  | Authentication
  | TemporaryProviderFailure
  | PermanentProviderFailure
  | Network

definition is_retryable :: "provider_error_type \<Rightarrow> bool" where
  "is_retryable e \<longleftrightarrow>
     e = TransportError \<or> e = RateLimited \<or> e = ConnectionCapacity \<or>
     e = TemporaryProviderFailure \<or> e = Network"

definition suggested_retry_delay :: "provider_error_type \<Rightarrow> duration option" where
  "suggested_retry_delay e =
     (case e of
        TransportError \<Rightarrow> Some (secs 10)
      | RateLimited \<Rightarrow> Some (secs 60)
      | ConnectionCapacity \<Rightarrow> Some (secs 30)
      | TemporaryProviderFailure \<Rightarrow> Some (secs 5)
      | Network \<Rightarrow> Some (secs 10)
      | _ \<Rightarrow> None)"

record provider_signal =
  sig_source :: str
  sig_name :: str
  sig_error :: provider_error_type
  sig_retry_after :: "duration option"
  sig_remediation :: str

definition MAX_SERVER_RETRY_AFTER :: duration where
  "MAX_SERVER_RETRY_AFTER = secs (30 * 60)"

definition UNATTRIBUTED_PROVIDER :: str where
  "UNATTRIBUTED_PROVIDER = ''unattributed''"

definition PROVIDER_SIGNATURES :: "(str \<times> str \<times> str \<times> provider_error_type \<times> str) list" where
  "PROVIDER_SIGNATURES =
     [(''microsoft365'', ''throttled'', ''request is throttled'', RateLimited, []),
      (''microsoft365'', ''authenticated_not_connected'', ''user is authenticated but not connected'', Authentication, ''Enable IMAP for the mailbox in Exchange Online and confirm the application has the IMAP.AccessAsUser.All permission with consent''),
      (''microsoft365'', ''server_unavailable'', ''server unavailable.'', TemporaryProviderFailure, []),
      (''gmail'', ''too_many_connections'', ''too many simultaneous connections'', ConnectionCapacity, []),
      (''gmail'', ''bandwidth_exceeded'', ''account exceeded command or bandwidth limits'', RateLimited, []),
      (''gmail'', ''web_login_required'', ''web login required'', Authentication, ''Sign in to the Google account in a browser and resolve the security prompt, then use OAuth or an app password''),
      (''gmail'', ''app_password_required'', ''application-specific password required'', Authentication, ''Use OAuth or an application-specific password for this Google account''),
      (''dovecot'', ''too_many_connections'', ''maximum number of connections from user+ip exceeded'', ConnectionCapacity, [])]"

definition IMAP_RESPONSE_CODES :: "(str \<times> str \<times> provider_error_type \<times> str) list" where
  "IMAP_RESPONSE_CODES =
     [(''[unavailable]'', ''unavailable'', TemporaryProviderFailure, []),
      (''[inuse]'', ''in_use'', TemporaryProviderFailure, []),
      (''[expungeissued]'', ''expunge_issued'', TemporaryProviderFailure, []),
      (''[serverbug]'', ''server_bug'', TemporaryProviderFailure, []),
      (''[authenticationfailed]'', ''authentication_failed'', Authentication, ''Verify the credential or refresh token for this mailbox''),
      (''[authorizationfailed]'', ''authorization_failed'', Authentication, ''Confirm the authenticated identity may access this mailbox''),
      (''[expired]'', ''expired'', AuthenticationExpired, ''Renew the expired credential''),
      (''[privacyrequired]'', ''privacy_required'', PermanentProviderFailure, ''The server requires an encrypted connection; use implicit TLS or STARTTLS''),
      (''[contactadmin]'', ''contact_admin'', PermanentProviderFailure, ''The server asks for its administrator; contact the mail provider''),
      (''[noperm]'', ''no_permission'', PermanentProviderFailure, ''The account lacks permission for this mailbox or folder''),
      (''[overquota]'', ''over_quota'', MailboxQuotaExceeded, ''Free or raise the destination quota before retrying''),
      (''[limit]'', ''limit'', PermanentProviderFailure, ''A server-side limit rejected the operation; review the server's limits''),
      (''[cannot]'', ''cannot'', PermanentProviderFailure, ''The server cannot perform this operation''),
      (''[corruption]'', ''corruption'', PermanentProviderFailure, ''The server reports mailbox corruption; contact the mail provider'')]"

definition suggested_backoff :: "str \<Rightarrow> duration option" where
  "suggested_backoff lower =
     (case split_once ''suggested backoff time:'' lower of
        None \<Rightarrow> None
      | Some (_, rest) \<Rightarrow>
          (case parse_u64 (takeWhile is_ascii_digit (trim_start rest)) of
             None \<Rightarrow> None
           | Some ms \<Rightarrow> Some (min (millis ms) MAX_SERVER_RETRY_AFTER)))"

definition provider_matches :: "str \<Rightarrow> str \<Rightarrow> bool" where
  "provider_matches provider source \<longleftrightarrow>
     \<not> eq_ignore_ascii_case provider UNATTRIBUTED_PROVIDER \<and>
     (eq_ignore_ascii_case provider ''generic'' \<or> eq_ignore_ascii_case provider source \<or>
      (eq_ignore_ascii_case provider ''o365'' \<and> eq_ignore_ascii_case source ''microsoft365''))"

definition provider_signal_for_provider :: "(str \<Rightarrow> str) \<Rightarrow> str \<Rightarrow> str \<Rightarrow> provider_signal option" where
  "provider_signal_for_provider to_lowercase provider error_msg =
     (let lower = to_lowercase error_msg in
      case find (\<lambda>(source, name, pattern, err, remediation).
                   provider_matches provider source \<and> contains pattern lower) PROVIDER_SIGNATURES of
        Some (source, name, pattern, err, remediation) \<Rightarrow>
          Some \<lparr>sig_source = source, sig_name = name, sig_error = err,
                sig_retry_after =
                  (if name = ''throttled'' \<and> source = ''microsoft365''
                   then suggested_backoff lower else None),
                sig_remediation = remediation\<rparr>
      | None \<Rightarrow>
          map_option (\<lambda>(code, name, err, remediation).
              \<lparr>sig_source = ''imap'', sig_name = name, sig_error = err,
               sig_retry_after = None, sig_remediation = remediation\<rparr>)
            (find (\<lambda>(code, _). contains code lower) IMAP_RESPONSE_CODES))"

section \<open>Endpoints to providers\<close>

definition ends_with :: "str \<Rightarrow> str \<Rightarrow> bool" where
  "ends_with suffix s \<longleftrightarrow> starts_with (rev suffix) (rev s)"

definition strip_suffix :: "str \<Rightarrow> str \<Rightarrow> str option" where
  "strip_suffix suffix s =
     (if ends_with suffix s then Some (take (length s - length suffix) s) else None)"

definition trim_end_matches :: "char \<Rightarrow> str \<Rightarrow> str" where
  "trim_end_matches c s = rev (dropWhile (\<lambda>x. x = c) (rev s))"

definition PROVIDER_DOMAINS :: "(str \<times> str list) list" where
  "PROVIDER_DOMAINS =
     [(''gmail'', [''gmail.com'', ''googlemail.com'']),
      (''microsoft365'', [''office365.com'', ''outlook.com'', ''exchange.microsoft.com''])]"

definition domain_matches :: "str \<Rightarrow> str \<Rightarrow> bool" where
  "domain_matches host domain \<longleftrightarrow>
     host = domain \<or>
     (case strip_suffix domain host of None \<Rightarrow> False | Some prefix \<Rightarrow> ends_with ''.'' prefix)"

definition canonical_host :: "str \<Rightarrow> str" where
  "canonical_host host =
     (let h = to_ascii_lowercase (trim_end_matches (CHR ''.'') host) in
      if h = [] then ''generic''
      else (case find (\<lambda>(_, domains). list_ex (domain_matches h) domains) PROVIDER_DOMAINS of
              None \<Rightarrow> ''generic'' | Some (provider, _) \<Rightarrow> provider))"

definition canonical_provider :: "str \<Rightarrow> str" where
  "canonical_provider endpoint0 =
     (let endpoint = trim endpoint0 in
      if starts_with ''['' endpoint then ''generic''
      else case split_once '':'' endpoint of
             Some (host, port) \<Rightarrow>
               (if \<not> contains '':'' port \<and> list_all is_ascii_digit port
                then canonical_host host else ''generic'')
           | None \<Rightarrow> canonical_host endpoint)"

section \<open>HTTP status lines\<close>

text \<open>\<^verbatim>\<open>str::lines\<close>: pieces between line feeds, a trailing carriage return removed, no empty last piece.\<close>

definition strip_cr :: "str \<Rightarrow> str" where
  "strip_cr l = (if l \<noteq> [] \<and> last l = CHR 0x0D then butlast l else l)"

definition str_lines :: "str \<Rightarrow> str list" where
  "str_lines s =
     (let ps = split_char (CHR 0x0A) s
      in map strip_cr (butlast ps) @ (if last ps = [] then [] else [last ps]))"

fun find_whitespace :: "str \<Rightarrow> nat option" where
  "find_whitespace [] = None"
| "find_whitespace (c # cs) =
     (if ws_width (c # cs) \<noteq> 0 then Some 0
      else map_option Suc (find_whitespace cs))"

definition take_protocol_token :: "str \<Rightarrow> (str \<times> str) option" where
  "take_protocol_token value0 =
     (let v = trim_start value0 in
      case find_whitespace v of
        Some n \<Rightarrow> Some (take n v, trim_start (drop n v))
      | None \<Rightarrow> if v \<noteq> [] then Some (v, []) else None)"

definition http_reason :: "nat \<Rightarrow> str option" where
  "http_reason n =
     (if n = 401 then Some ''unauthorized''
      else if n = 403 then Some ''forbidden''
      else if n = 404 then Some ''not found''
      else if n = 429 then Some ''too many requests''
      else if n = 502 then Some ''bad gateway''
      else if n = 503 then Some ''service unavailable''
      else None)"

definition http_status_line :: "nat \<Rightarrow> str \<Rightarrow> str \<Rightarrow> bool" where
  "http_status_line expected reason line0 =
     (let line = trim line0;
          versioned = (5 \<le> length line \<and> eq_ignore_ascii_case (take 5 line) ''HTTP/'');
          rest = (if versioned then map_option snd (take_protocol_token (drop 5 line)) else Some line)
      in case rest of
           None \<Rightarrow> False
         | Some status_and_reason \<Rightarrow>
             (case take_protocol_token status_and_reason of
                None \<Rightarrow> False
              | Some (status, trailing) \<Rightarrow>
                  parse_unsigned 65535 status = Some expected \<and>
                  (versioned \<or>
                   (length reason \<le> length trailing \<and>
                    eq_ignore_ascii_case (take (length reason) trailing) reason \<and>
                    (drop (length reason) trailing = [] \<or>
                     ws_width (drop (length reason) trailing) \<noteq> 0)))))"

definition has_http_status_line :: "str \<Rightarrow> nat \<Rightarrow> bool" where
  "has_http_status_line error expected =
     (case http_reason expected of
        None \<Rightarrow> False
      | Some reason \<Rightarrow> list_ex (http_status_line expected reason) (str_lines error))"

section \<open>The classifier\<close>

fun contains_any :: "str list \<Rightarrow> str \<Rightarrow> bool" where
  "contains_any [] s = False"
| "contains_any (p # ps) s = (if contains p s then True else contains_any ps s)"

definition classify_tag :: "str \<Rightarrow> provider_error_type option" where
  "classify_tag lower =
     (if contains ''[error=tls]'' lower then Some TlsError
      else if contains ''[error=dns]'' lower then Some DnsError
      else if contains ''[error=transport]'' lower then Some TransportError
      else if contains ''[imap=tagged-no]'' lower then Some ImapTaggedNo
      else if contains ''[imap=bad]'' lower then Some ImapBad
      else if contains ''[auth=expired]'' lower then Some AuthenticationExpired
      else if contains ''[error=engine-exit]'' lower then Some EngineExit
      else if contains ''[error=verification]'' lower then Some VerificationError
      else None)"

definition classify_wording :: "str \<Rightarrow> str \<Rightarrow> provider_error_type" where
  "classify_wording error_msg lower =
     (if contains_any [''too many connections'', ''connection limit'', ''maximum connections''] lower
      then ConnectionCapacity
      else if contains_any [''rate limit'', ''too many requests'', ''throttled'', ''slow down''] lower \<or>
              has_http_status_line error_msg 429
      then RateLimited
      else if contains_any [''storage quota'', ''disk quota'', ''storage full'', ''disk full''] lower
      then StorageQuotaExceeded
      else if contains_any [''mailbox quota'', ''mailbox full'', ''over quota'', ''quota exceeded''] lower
      then MailboxQuotaExceeded
      else if has_http_status_line error_msg 401 \<or>
              contains_any [''unauthorized'', ''invalid credentials'', ''authentication failed''] lower
      then Authentication
      else if has_http_status_line error_msg 403 \<or>
              contains_any [''forbidden'', ''permission denied'', ''insufficient privileges''] lower
      then PermanentProviderFailure
      else if has_http_status_line error_msg 404 \<or>
              contains_any [''not found'', ''no such'', ''does not exist''] lower
      then PermanentProviderFailure
      else if has_http_status_line error_msg 502 \<or> has_http_status_line error_msg 503 \<or>
              contains_any [''temporarily unavailable'', ''service unavailable'', ''bad gateway'',
                            ''server busy'', ''try again later''] lower
      then TemporaryProviderFailure
      else if contains_any [''connection refused'', ''connection timeout'', ''connection reset'',
                            ''network unreachable'', ''connection closed'', ''server bye''] lower \<or>
              lower = ''bye''
      then Network
      else PermanentProviderFailure)"

text \<open>
  \<^verbatim>\<open>ProviderErrorClassifier::classify\<close>. The provider-specific patterns at its end all return
  \<^verbatim>\<open>PermanentProviderFailure\<close>, as the fall-through does, so \<open>classify_wording\<close> ends there.
\<close>

definition provider_classify :: "(str \<Rightarrow> str) \<Rightarrow> str \<Rightarrow> str \<Rightarrow> provider_error_type" where
  "provider_classify to_lowercase provider error_msg =
     (let lower = to_lowercase error_msg in
      case classify_tag lower of
        Some e \<Rightarrow> e
      | None \<Rightarrow>
          (case provider_signal_for_provider to_lowercase provider error_msg of
             Some signal \<Rightarrow> sig_error signal
           | None \<Rightarrow> classify_wording error_msg lower))"

section \<open>Properties\<close>

lemma provider_matches_unattributed [simp]: "\<not> provider_matches UNATTRIBUTED_PROVIDER source"
  by (simp add: provider_matches_def eq_ignore_ascii_case_def)

lemma suggested_backoff_bound: "suggested_backoff lower = Some d \<Longrightarrow> d \<le> MAX_SERVER_RETRY_AFTER"
  by (auto simp: suggested_backoff_def split: option.splits)

lemma signal_retry_after_bound:
  assumes "provider_signal_for_provider lower provider msg = Some sg"
    and "sig_retry_after sg = Some d"
  shows "d \<le> MAX_SERVER_RETRY_AFTER"
  using assms suggested_backoff_bound
  by (auto simp: provider_signal_for_provider_def Let_def split: option.splits if_splits prod.splits)

lemma unattributed_signal_imap:
  assumes "provider_signal_for_provider lower UNATTRIBUTED_PROVIDER msg = Some sg"
  shows "sig_source sg = ''imap'' \<and> sig_retry_after sg = None"
proof -
  have "find (\<lambda>(source, name, pattern, err, remediation).
           provider_matches UNATTRIBUTED_PROVIDER source \<and> contains pattern (lower msg))
         PROVIDER_SIGNATURES = None"
    by (auto simp: find_None_iff)
  with assms show ?thesis
    by (auto simp: provider_signal_for_provider_def)
qed

lemma ends_with_iff: "ends_with suffix s \<longleftrightarrow> (\<exists>p. s = p @ suffix)"
proof
  assume "ends_with suffix s"
  then have "rev s = rev suffix @ drop (length suffix) (rev s)"
    by (metis append_take_drop_id ends_with_def length_rev starts_with_take)
  then have "s = rev (drop (length suffix) (rev s)) @ suffix"
    by (metis rev_append rev_rev_ident)
  then show "\<exists>p. s = p @ suffix" by blast
next
  assume "\<exists>p. s = p @ suffix"
  then show "ends_with suffix s" by (auto simp: ends_with_def)
qed

lemma domain_matches_iff:
  "domain_matches host domain \<longleftrightarrow> host = domain \<or> (\<exists>p. host = p @ ''.'' @ domain)"
proof -
  have "(case strip_suffix domain host of None \<Rightarrow> False | Some prefix \<Rightarrow> ends_with ''.'' prefix)
        \<longleftrightarrow> (\<exists>p. host = p @ ''.'' @ domain)"
    by (auto simp: strip_suffix_def ends_with_iff)
  then show ?thesis by (simp add: domain_matches_def)
qed

lemma canonical_host_provider:
  assumes "canonical_host host = pr" and "pr \<noteq> ''generic''"
  shows "\<exists>domains d. (pr, domains) \<in> set PROVIDER_DOMAINS \<and> d \<in> set domains \<and>
           domain_matches (to_ascii_lowercase (trim_end_matches (CHR ''.'') host)) d"
  using assms
  by (auto simp: canonical_host_def Let_def list_ex_iff split: if_splits option.splits
      dest!: find_SomeD) blast

text \<open>
  An endpoint is mapped to a hosted provider only on a whole-label match: its host part, lower
  case and without trailing dots, is one of the provider's documented domains or ends in a dot
  followed by one. Look-alike names and address literals stay \<^verbatim>\<open>generic\<close>.
\<close>

theorem canonical_provider_whole_label:
  assumes "canonical_provider endpoint = pr" and "pr \<noteq> ''generic''"
  shows "\<exists>host domains d h.
           (trim endpoint = host \<or> (\<exists>port. trim endpoint = host @ '':'' @ port)) \<and>
           h = to_ascii_lowercase (trim_end_matches (CHR ''.'') host) \<and>
           (pr, domains) \<in> set PROVIDER_DOMAINS \<and> d \<in> set domains \<and>
           (h = d \<or> (\<exists>label. h = label @ ''.'' @ d))"
proof -
  from assms obtain host where host: "canonical_host host = pr"
      and "trim endpoint = host \<or> (\<exists>port. trim endpoint = host @ '':'' @ port)"
    by (auto simp: canonical_provider_def Let_def split: if_splits option.splits
        dest: split_once_SomeD)
  with canonical_host_provider [OF host assms(2)] show ?thesis
    unfolding domain_matches_iff by metis
qed

theorem canonical_provider_whole_label_witness:
  "canonical_provider ''imap.gmail.com:993'' = ''gmail'' \<and>
   canonical_provider ''notgmail.com:993'' = ''generic'' \<and>
   (\<exists>host domains d h.
      (trim ''imap.gmail.com:993'' = host \<or> (\<exists>port. trim ''imap.gmail.com:993'' = host @ '':'' @ port)) \<and>
      h = to_ascii_lowercase (trim_end_matches (CHR ''.'') host) \<and>
      (''gmail'', domains) \<in> set PROVIDER_DOMAINS \<and> d \<in> set domains \<and>
      (h = d \<or> (\<exists>label. h = label @ ''.'' @ d)))"
proof -
  have p: "canonical_provider ''imap.gmail.com:993'' = ''gmail''" by code_simp
  have g: "canonical_provider ''notgmail.com:993'' = ''generic''" by code_simp
  show ?thesis using p g canonical_provider_whole_label [OF p] by simp
qed

end
