(* ===== verification/Lifecycle.thy ===== *)
theory Lifecycle
  imports Prelude
begin

text \<open>
  The durable lifecycle types of \<^verbatim>\<open>src/src/core/state.rs\<close>: operational states, attention
  reasons, mailbox states and project phases, their wire labels and parsers, and the policy
  \<open>valid_mailbox_transition\<close> that says which mailbox-state edges may be written to the ledger.
  Constructors that several Rust enums share carry the enum's prefix here (\<open>Op_\<close>, \<open>Reason_\<close>,
  \<open>Phase_\<close>); mailbox states keep their bare names.
\<close>

section \<open>Operational states and attention reasons\<close>

datatype operational_state =
    Op_Ready
  | Op_ReadyWithWarnings
  | Op_Blocked
  | Op_Migrated
  | Op_Verified
  | Op_VerifiedWithExceptions
  | Op_CutoverReady
  | Op_NeedsAttention

fun operational_state_as_str :: "operational_state \<Rightarrow> str" where
  "operational_state_as_str Op_Ready = ''READY''"
| "operational_state_as_str Op_ReadyWithWarnings = ''READY WITH WARNINGS''"
| "operational_state_as_str Op_Blocked = ''BLOCKED''"
| "operational_state_as_str Op_Migrated = ''MIGRATED''"
| "operational_state_as_str Op_Verified = ''VERIFIED''"
| "operational_state_as_str Op_VerifiedWithExceptions = ''VERIFIED WITH EXCEPTIONS''"
| "operational_state_as_str Op_CutoverReady = ''CUTOVER READY''"
| "operational_state_as_str Op_NeedsAttention = ''NEEDS ATTENTION''"

datatype attention_reason =
    Reason_Interrupted
  | Reason_VerificationIncomplete
  | Reason_VerificationLimitExceeded
  | Reason_VerificationDifference
  | Reason_ProcessIdentityUnverified
  | Reason_AuthenticationFailed
  | Reason_TransportFailed
  | Reason_PolicyBlocked
  | Reason_ConfigurationInvalid
  | Reason_CapacityLimited
  | Reason_MessageRejected
  | Reason_Unknown

fun reason_as_str :: "attention_reason \<Rightarrow> str" where
  "reason_as_str Reason_Interrupted = ''interrupted''"
| "reason_as_str Reason_VerificationIncomplete = ''verification_incomplete''"
| "reason_as_str Reason_VerificationLimitExceeded = ''verification_limit_exceeded''"
| "reason_as_str Reason_VerificationDifference = ''verification_difference''"
| "reason_as_str Reason_ProcessIdentityUnverified = ''process_identity_unverified''"
| "reason_as_str Reason_AuthenticationFailed = ''authentication_failed''"
| "reason_as_str Reason_TransportFailed = ''transport_failed''"
| "reason_as_str Reason_PolicyBlocked = ''policy_blocked''"
| "reason_as_str Reason_ConfigurationInvalid = ''configuration_invalid''"
| "reason_as_str Reason_CapacityLimited = ''capacity_limited''"
| "reason_as_str Reason_MessageRejected = ''message_rejected''"
| "reason_as_str Reason_Unknown = ''unknown''"

definition reason_parse :: "str \<Rightarrow> attention_reason option" where
  "reason_parse value =
     (if value = ''interrupted'' then Some Reason_Interrupted
      else if value = ''verification_incomplete'' then Some Reason_VerificationIncomplete
      else if value = ''verification_limit_exceeded'' then Some Reason_VerificationLimitExceeded
      else if value = ''verification_difference'' then Some Reason_VerificationDifference
      else if value = ''process_identity_unverified'' then Some Reason_ProcessIdentityUnverified
      else if value = ''authentication_failed'' then Some Reason_AuthenticationFailed
      else if value = ''transport_failed'' then Some Reason_TransportFailed
      else if value = ''policy_blocked'' then Some Reason_PolicyBlocked
      else if value = ''configuration_invalid'' then Some Reason_ConfigurationInvalid
      else if value = ''capacity_limited'' then Some Reason_CapacityLimited
      else if value = ''message_rejected'' then Some Reason_MessageRejected
      else if value = ''unknown'' then Some Reason_Unknown
      else None)"

fun reason_label :: "attention_reason \<Rightarrow> str" where
  "reason_label Reason_Interrupted = ''Interrupted; recovery review required''"
| "reason_label Reason_VerificationIncomplete = ''Verification evidence is incomplete''"
| "reason_label Reason_VerificationLimitExceeded = ''Transfer completed; verification exceeded a safety limit''"
| "reason_label Reason_VerificationDifference = ''Verification found differences''"
| "reason_label Reason_ProcessIdentityUnverified = ''Process ownership could not be verified''"
| "reason_label Reason_AuthenticationFailed = ''Authentication failed''"
| "reason_label Reason_TransportFailed = ''Network or remote-service failure''"
| "reason_label Reason_PolicyBlocked = ''Blocked by migration policy''"
| "reason_label Reason_ConfigurationInvalid = ''Configuration is invalid''"
| "reason_label Reason_CapacityLimited = ''Capacity or rate limit reached''"
| "reason_label Reason_MessageRejected = ''A message was rejected by the destination''"
| "reason_label Reason_Unknown = ''Operator review required''"

fun recommended_action :: "attention_reason \<Rightarrow> str" where
  "recommended_action Reason_Interrupted = ''Confirm no migration process remains, then retry''"
| "recommended_action Reason_VerificationIncomplete = ''Review the evidence and reconcile before retrying or completing''"
| "recommended_action Reason_VerificationLimitExceeded = ''Follow the limit guidance in the run detail, then rerun to obtain evidence''"
| "recommended_action Reason_VerificationDifference = ''Review the evidence and reconcile before retrying or completing''"
| "recommended_action Reason_ProcessIdentityUnverified = ''Confirm no migration process remains, then retry''"
| "recommended_action Reason_AuthenticationFailed = ''Verify credentials and endpoint permissions before retrying''"
| "recommended_action Reason_TransportFailed = ''Check endpoint health and retry with bounded backoff''"
| "recommended_action Reason_PolicyBlocked = ''Correct the migration configuration or policy, then rerun preflight''"
| "recommended_action Reason_ConfigurationInvalid = ''Correct the migration configuration or policy, then rerun preflight''"
| "recommended_action Reason_CapacityLimited = ''Reduce concurrency or rate and retry after capacity recovers''"
| "recommended_action Reason_MessageRejected = ''Review rejected-message detail and destination policy before retrying''"
| "recommended_action Reason_Unknown = ''Inspect the durable run detail before choosing an action''"

section \<open>Mailbox states\<close>

datatype mailbox_state =
    Queued
  | Preflight
  | Ready
  | Running
  | Completed
  | Verified
  | VerifiedWithExceptions
  | Failed
  | Cancelled
  | Attention
  | DeltaRequired
  | VerificationDifference

fun mailbox_state_as_str :: "mailbox_state \<Rightarrow> str" where
  "mailbox_state_as_str Queued = ''queued''"
| "mailbox_state_as_str Preflight = ''preflight''"
| "mailbox_state_as_str Ready = ''ready''"
| "mailbox_state_as_str Running = ''running''"
| "mailbox_state_as_str Completed = ''completed''"
| "mailbox_state_as_str Verified = ''verified''"
| "mailbox_state_as_str VerifiedWithExceptions = ''verified_with_exceptions''"
| "mailbox_state_as_str Failed = ''failed''"
| "mailbox_state_as_str Cancelled = ''cancelled''"
| "mailbox_state_as_str Attention = ''attention''"
| "mailbox_state_as_str DeltaRequired = ''delta_required''"
| "mailbox_state_as_str VerificationDifference = ''verification_difference''"

definition mailbox_state_parse :: "str \<Rightarrow> mailbox_state option" where
  "mailbox_state_parse value =
     (if value = ''queued'' then Some Queued
      else if value = ''preflight'' then Some Preflight
      else if value = ''ready'' then Some Ready
      else if value = ''running'' then Some Running
      else if value = ''completed'' then Some Completed
      else if value = ''verified'' then Some Verified
      else if value = ''verified_with_exceptions'' then Some VerifiedWithExceptions
      else if value = ''failed'' then Some Failed
      else if value = ''cancelled'' then Some Cancelled
      else if value = ''attention'' then Some Attention
      else if value = ''delta_required'' then Some DeltaRequired
      else if value = ''verification_difference'' then Some VerificationDifference
      else None)"

text \<open>The table of \<^verbatim>\<open>parse_ascii_case_insensitive\<close>, searched in order by \<^verbatim>\<open>find_map\<close>.\<close>

definition mailbox_wire_table :: "(str \<times> mailbox_state) list" where
  "mailbox_wire_table =
     [(''queued'', Queued),
      (''preflight'', Preflight),
      (''ready'', Ready),
      (''running'', Running),
      (''completed'', Completed),
      (''verified'', Verified),
      (''verified_with_exceptions'', VerifiedWithExceptions),
      (''failed'', Failed),
      (''cancelled'', Cancelled),
      (''attention'', Attention),
      (''delta_required'', DeltaRequired),
      (''verification_difference'', VerificationDifference)]"

definition parse_ascii_case_insensitive :: "str \<Rightarrow> mailbox_state option" where
  "parse_ascii_case_insensitive value =
     map_option snd (find (\<lambda>(wire, state). eq_ignore_ascii_case value wire) mailbox_wire_table)"

definition is_verified :: "mailbox_state \<Rightarrow> bool" where
  "is_verified s \<longleftrightarrow> s = Verified \<or> s = VerifiedWithExceptions"

definition needs_operator_review :: "mailbox_state \<Rightarrow> bool" where
  "needs_operator_review s \<longleftrightarrow>
     s = Attention \<or> s = Failed \<or> s = Cancelled \<or> s = VerificationDifference"

text \<open>The edges of \<^verbatim>\<open>valid_mailbox_transition\<close>, by the current state.\<close>

fun mailbox_successors :: "mailbox_state \<Rightarrow> mailbox_state list" where
  "mailbox_successors Queued = [Preflight, Ready, Running, Failed, Cancelled, Attention]"
| "mailbox_successors Preflight = [Ready, Running, Failed, Cancelled]"
| "mailbox_successors Ready = [Running, Failed, Cancelled]"
| "mailbox_successors Running =
     [Ready, Completed, DeltaRequired, VerificationDifference, Failed, Cancelled, Attention]"
| "mailbox_successors DeltaRequired =
     [Running, Failed, Cancelled, Attention, VerifiedWithExceptions]"
| "mailbox_successors VerificationDifference =
     [Running, Failed, Cancelled, Attention, VerifiedWithExceptions]"
| "mailbox_successors Completed =
     [Verified, DeltaRequired, VerificationDifference, Running, Attention]"
| "mailbox_successors Failed = [Running, Attention]"
| "mailbox_successors Cancelled = [Running, Attention]"
| "mailbox_successors Verified = [Ready, DeltaRequired, Running, Attention]"
| "mailbox_successors VerifiedWithExceptions = [Ready, DeltaRequired, Running, Attention]"
| "mailbox_successors Attention = [Running]"

definition valid_mailbox_transition :: "str \<Rightarrow> str \<Rightarrow> bool" where
  "valid_mailbox_transition current nxt =
     (case (mailbox_state_parse current, mailbox_state_parse nxt) of
        (Some c, Some n) \<Rightarrow> n \<in> set (mailbox_successors c)
      | _ \<Rightarrow> False)"

section \<open>Project phases\<close>

datatype phase =
    Phase_Discovery
  | Phase_Preflight
  | Phase_Pilot
  | Phase_Seed
  | Phase_CatchUp
  | Phase_FinalDelta
  | Phase_Verification
  | Phase_Complete
  | Phase_Attention

fun phase_as_str :: "phase \<Rightarrow> str" where
  "phase_as_str Phase_Discovery = ''discovery''"
| "phase_as_str Phase_Preflight = ''preflight''"
| "phase_as_str Phase_Pilot = ''pilot''"
| "phase_as_str Phase_Seed = ''seed''"
| "phase_as_str Phase_CatchUp = ''catch_up''"
| "phase_as_str Phase_FinalDelta = ''final_delta''"
| "phase_as_str Phase_Verification = ''verification''"
| "phase_as_str Phase_Complete = ''complete''"
| "phase_as_str Phase_Attention = ''attention''"

text \<open>\<open>phase_parse\<close> fails with \<^verbatim>\<open>rusqlite::Error::InvalidQuery\<close>, here \<open>None\<close>.\<close>

definition phase_parse :: "str \<Rightarrow> phase option" where
  "phase_parse value =
     (if value = ''discovery'' then Some Phase_Discovery
      else if value = ''preflight'' then Some Phase_Preflight
      else if value = ''pilot'' then Some Phase_Pilot
      else if value = ''seed'' then Some Phase_Seed
      else if value = ''catch_up'' then Some Phase_CatchUp
      else if value = ''final_delta'' then Some Phase_FinalDelta
      else if value = ''verification'' then Some Phase_Verification
      else if value = ''complete'' then Some Phase_Complete
      else if value = ''attention'' then Some Phase_Attention
      else None)"

fun phase_rank :: "phase \<Rightarrow> 8 word" where
  "phase_rank Phase_Discovery = 0"
| "phase_rank Phase_Preflight = 1"
| "phase_rank Phase_Pilot = 2"
| "phase_rank Phase_Seed = 3"
| "phase_rank Phase_CatchUp = 4"
| "phase_rank Phase_FinalDelta = 5"
| "phase_rank Phase_Verification = 6"
| "phase_rank Phase_Complete = 7"
| "phase_rank Phase_Attention = 255"

section \<open>The labels are faithful\<close>

interpretation reason_wire: wire_codec reason_as_str reason_parse
proof
  show "reason_parse (reason_as_str x) = Some x" for x
    by (cases x) (simp_all add: reason_parse_def)
  show "reason_parse s = Some x \<Longrightarrow> s = reason_as_str x" for s x
    unfolding reason_parse_def by (auto split: if_splits)
qed

interpretation mailbox_wire: wire_codec mailbox_state_as_str mailbox_state_parse
proof
  show "mailbox_state_parse (mailbox_state_as_str x) = Some x" for x
    by (cases x) (simp_all add: mailbox_state_parse_def)
  show "mailbox_state_parse s = Some x \<Longrightarrow> s = mailbox_state_as_str x" for s x
    unfolding mailbox_state_parse_def by (auto split: if_splits)
qed

interpretation phase_wire: wire_codec phase_as_str phase_parse
proof
  show "phase_parse (phase_as_str x) = Some x" for x
    by (cases x) (simp_all add: phase_parse_def)
  show "phase_parse s = Some x \<Longrightarrow> s = phase_as_str x" for s x
    unfolding phase_parse_def by (auto split: if_splits)
qed

declare reason_wire.dec_enc [wire_simps] mailbox_wire.dec_enc [wire_simps]
  phase_wire.dec_enc [wire_simps]

section \<open>Transitions\<close>

lemma valid_transition_as_str [wire_simps]:
  "valid_mailbox_transition (mailbox_state_as_str a) (mailbox_state_as_str b) \<longleftrightarrow>
     b \<in> set (mailbox_successors a)"
  by (simp add: valid_mailbox_transition_def wire_simps)

lemma valid_transitionE:
  assumes "valid_mailbox_transition c n"
  obtains a b where "c = mailbox_state_as_str a" "n = mailbox_state_as_str b"
    "b \<in> set (mailbox_successors a)"
proof -
  from assms obtain a b where "mailbox_state_parse c = Some a" "mailbox_state_parse n = Some b"
    "b \<in> set (mailbox_successors a)"
    by (auto simp: valid_mailbox_transition_def split: option.splits)
  with that show thesis by (blast dest: mailbox_wire.dec_sound)
qed

lemma successors_irreflexive: "a \<notin> set (mailbox_successors a)"
  by (cases a) simp_all

lemma running_successor_iff: "Running \<in> set (mailbox_successors a) \<longleftrightarrow> a \<noteq> Running"
  by (cases a) simp_all

lemma verified_predecessor: "Verified \<in> set (mailbox_successors a) \<longleftrightarrow> a = Completed"
  by (cases a) simp_all

lemma completed_predecessor: "Completed \<in> set (mailbox_successors a) \<longleftrightarrow> a = Running"
  by (cases a) simp_all

lemma exception_predecessor:
  "VerifiedWithExceptions \<in> set (mailbox_successors a) \<longleftrightarrow>
     a = DeltaRequired \<or> a = VerificationDifference"
  by (cases a) simp_all

text \<open>
  A durable history, newest state first: the values the state column of one mailbox takes when
  every write follows a legal edge from the initial \<^verbatim>\<open>queued\<close>.
\<close>

inductive mailbox_history :: "str list \<Rightarrow> bool" where
  start: "mailbox_history [''queued'']"
| step: "mailbox_history (s # h) \<Longrightarrow> valid_mailbox_transition s t \<Longrightarrow> mailbox_history (t # s # h)"

inductive_cases mailbox_history_ConsE: "mailbox_history (t # s # h)"
inductive_cases mailbox_history_singleE: "mailbox_history [t]"

lemma mailbox_history_stepE:
  assumes "mailbox_history (mailbox_state_as_str b # h)" and "b \<noteq> Queued"
  obtains a h' where "h = mailbox_state_as_str a # h'" "mailbox_history h"
    "b \<in> set (mailbox_successors a)"
  using assms
proof (cases rule: mailbox_history.cases)
  case start
  with assms(2) show ?thesis by (cases b) simp_all
next
  case (step s h')
  then obtain a b' where "s = mailbox_state_as_str a" "mailbox_state_as_str b = mailbox_state_as_str b'"
    "b' \<in> set (mailbox_successors a)"
    by (auto elim: valid_transitionE)
  with step that show ?thesis by (simp add: mailbox_wire.enc_inj)
qed

text \<open>The states a mailbox can be in before any transfer ran.\<close>

definition pre_transfer :: "mailbox_state \<Rightarrow> bool" where
  "pre_transfer s \<longleftrightarrow> s \<in> {Queued, Preflight, Ready, Failed, Cancelled, Attention}"

lemma pre_transfer_step:
  "pre_transfer a \<Longrightarrow> b \<in> set (mailbox_successors a) \<Longrightarrow> b \<noteq> Running \<Longrightarrow> pre_transfer b"
  by (cases a) (auto simp: pre_transfer_def)

lemma history_without_running:
  "mailbox_history hs \<Longrightarrow> ''running'' \<notin> set hs \<Longrightarrow>
     \<exists>a h. hs = mailbox_state_as_str a # h \<and> pre_transfer a"
proof (induction rule: mailbox_history.induct)
  case start
  have "[''queued''] = mailbox_state_as_str Queued # [] \<and> pre_transfer Queued"
    by (simp add: pre_transfer_def)
  then show ?case by blast
next
  case (step s h t)
  then obtain a where a: "s = mailbox_state_as_str a" "pre_transfer a" by auto
  from step.hyps(2) obtain a' b where "s = mailbox_state_as_str a'" and t: "t = mailbox_state_as_str b"
    and e: "b \<in> set (mailbox_successors a')" by (rule valid_transitionE)
  with a have "a' = a" by (simp add: mailbox_wire.enc_inj)
  moreover from step.prems t have "b \<noteq> Running" by auto
  ultimately show ?case using a e t pre_transfer_step by blast
qed

section \<open>Properties\<close>

text \<open>
  A mailbox is recorded as \<^verbatim>\<open>verified\<close> only straight after \<^verbatim>\<open>completed\<close>, which is recorded
  only straight after \<^verbatim>\<open>running\<close>: no history of legal transitions from \<^verbatim>\<open>queued\<close> claims a
  verification without a transfer that ran and completed immediately before it.
\<close>

theorem verified_follows_completed_transfer:
  assumes "mailbox_history (''verified'' # h)"
  shows "\<exists>h'. h = ''completed'' # ''running'' # h'"
proof -
  from assms have "mailbox_history (mailbox_state_as_str Verified # h)" by simp
  then obtain a h1 where 1: "h = mailbox_state_as_str a # h1" "mailbox_history h"
      "Verified \<in> set (mailbox_successors a)"
    by (rule mailbox_history_stepE) simp
  then have a: "a = Completed" by (simp add: verified_predecessor)
  from 1(1,2) a have "mailbox_history (mailbox_state_as_str Completed # h1)" by simp
  then obtain b h2 where 2: "h1 = mailbox_state_as_str b # h2" "Completed \<in> set (mailbox_successors b)"
    by (rule mailbox_history_stepE) simp
  then have "b = Running" by (simp add: completed_predecessor)
  with 1 2 a show ?thesis by simp
qed

theorem verified_follows_completed_transfer_witness:
  "mailbox_history [''verified'', ''completed'', ''running'', ''queued''] \<and>
   (\<exists>h'. [''completed'', ''running'', ''queued''] = ''completed'' # ''running'' # h')"
proof -
  have h: "mailbox_history [''verified'', ''completed'', ''running'', ''queued'']"
    by (intro mailbox_history.intros)
       (simp_all add: valid_mailbox_transition_def mailbox_state_parse_def)
  from h verified_follows_completed_transfer [OF h] show ?thesis by simp
qed

text \<open>
  Every mailbox state that claims transfer results (completed, delta required, verification
  difference, verified, verified with exceptions) is recorded only after the mailbox has been
  \<^verbatim>\<open>running\<close>: no legal history reaches it by shortcuts through failure or attention states.
\<close>

theorem results_need_a_transfer:
  assumes "mailbox_history (s # h)"
    and "s \<in> {''completed'', ''delta_required'', ''verification_difference'', ''verified'',
              ''verified_with_exceptions''}"
  shows "''running'' \<in> set h"
proof (rule ccontr)
  assume "''running'' \<notin> set h"
  with assms(2) have "''running'' \<notin> set (s # h)" by auto
  with assms(1) obtain a where "s = mailbox_state_as_str a" "pre_transfer a"
    using history_without_running by blast
  with assms(2) show False by (cases a) (auto simp: pre_transfer_def)
qed

theorem results_need_a_transfer_witness:
  "mailbox_history [''delta_required'', ''running'', ''failed'', ''queued''] \<and>
   ''running'' \<in> set [''running'', ''failed'', ''queued'']"
proof -
  have h: "mailbox_history [''delta_required'', ''running'', ''failed'', ''queued'']"
    by (intro mailbox_history.intros)
       (simp_all add: valid_mailbox_transition_def mailbox_state_parse_def)
  from h results_need_a_transfer [OF h] show ?thesis by simp
qed

text \<open>
  A mailbox can be claimed for a run (the edge to \<^verbatim>\<open>running\<close> is legal) exactly when its
  recorded state is a known state other than \<^verbatim>\<open>running\<close>: no state is a dead end for a retry, no
  mailbox is claimed twice, and an unknown label is never claimed.
\<close>

theorem run_claimable_iff:
  "valid_mailbox_transition s ''running'' \<longleftrightarrow>
     (\<exists>st. mailbox_state_parse s = Some st \<and> st \<noteq> Running)"
proof -
  have "mailbox_state_parse ''running'' = Some Running"
    by (simp add: mailbox_state_parse_def)
  then show ?thesis
    by (auto simp: valid_mailbox_transition_def running_successor_iff split: option.splits)
qed

lemma find_map_wire:
  "distinct (map fst tab) \<Longrightarrow>
   map_option snd (find (\<lambda>(w, st). v = w) tab) = map_of tab v"
  by (induction tab) auto

lemma wire_table_lowercase:
  "(w, st) \<in> set mailbox_wire_table \<Longrightarrow> to_ascii_lowercase w = w"
  by (auto simp: mailbox_wire_table_def to_ascii_lowercase_def ascii_lower_def is_ascii_uppercase_def char_code_def)

lemma wire_table_find:
  "find (\<lambda>(wire, state). eq_ignore_ascii_case value wire) mailbox_wire_table =
   find (\<lambda>(wire, state). to_ascii_lowercase value = wire) mailbox_wire_table"
  by (rule find_cong) (auto simp: eq_ignore_ascii_case_def dest: wire_table_lowercase)

lemma wire_table_map_of: "map_of mailbox_wire_table v = mailbox_state_parse v"
  by (simp add: mailbox_wire_table_def mailbox_state_parse_def)

text \<open>
  The allocation-free \<^verbatim>\<open>parse_ascii_case_insensitive\<close> classifies exactly as parsing the
  lower-cased label does.
\<close>

theorem parse_ascii_case_insensitive_eq:
  "parse_ascii_case_insensitive value = mailbox_state_parse (to_ascii_lowercase value)"
proof -
  have "distinct (map fst mailbox_wire_table)"
    by (simp add: mailbox_wire_table_def)
  then show ?thesis
    unfolding parse_ascii_case_insensitive_def wire_table_find
    by (simp add: find_map_wire wire_table_map_of)
qed

end
