(* ===== verification/Verification_Limit.thy ===== *)
theory Verification_Limit
  imports Lifecycle
begin

text \<open>
  Verifier safety limits, \<^verbatim>\<open>src/src/core/verification_limit.rs\<close>: the stable codes, the tag a limit
  site puts in front of its error, and how the controller reads the tag back from a wrapped error.
\<close>

datatype verification_limit =
    Limit_FolderInventory
  | Limit_ResponseSize
  | Limit_FetchedState
  | Limit_MessageCount
  | Limit_BodyHashMessageCount
  | Limit_BodyHashMessageSize
  | Limit_BodyHashTotalSize
  | Limit_ReconciliationState
  | Limit_StagingDiskSpace
  | Limit_Deadline

definition ALL_LIMITS :: "verification_limit list" where
  "ALL_LIMITS =
     [Limit_FolderInventory,
      Limit_ResponseSize,
      Limit_FetchedState,
      Limit_MessageCount,
      Limit_BodyHashMessageCount,
      Limit_BodyHashMessageSize,
      Limit_BodyHashTotalSize,
      Limit_ReconciliationState,
      Limit_StagingDiskSpace,
      Limit_Deadline]"

definition MARKER_PREFIX :: str where
  "MARKER_PREFIX = ''[verification_limit=''"

fun limit_code :: "verification_limit \<Rightarrow> str" where
  "limit_code Limit_FolderInventory = ''folder_inventory''"
| "limit_code Limit_ResponseSize = ''response_size''"
| "limit_code Limit_FetchedState = ''fetched_state''"
| "limit_code Limit_MessageCount = ''message_count''"
| "limit_code Limit_BodyHashMessageCount = ''body_hash_message_count''"
| "limit_code Limit_BodyHashMessageSize = ''body_hash_message_size''"
| "limit_code Limit_BodyHashTotalSize = ''body_hash_total_size''"
| "limit_code Limit_ReconciliationState = ''reconciliation_state''"
| "limit_code Limit_StagingDiskSpace = ''staging_disk_space''"
| "limit_code Limit_Deadline = ''deadline''"

definition limit_parse :: "str \<Rightarrow> verification_limit option" where
  "limit_parse code = find (\<lambda>limit. limit_code limit = code) ALL_LIMITS"

definition limit_marker :: "verification_limit \<Rightarrow> str" where
  "limit_marker limit = MARKER_PREFIX @ limit_code limit @ '']''"

definition limit_tag :: "verification_limit \<Rightarrow> str \<Rightarrow> str" where
  "limit_tag limit error = limit_marker limit @ '' '' @ error"

definition limit_from_detail :: "str \<Rightarrow> verification_limit option" where
  "limit_from_detail detail =
     (case split_once MARKER_PREFIX detail of
        None \<Rightarrow> None
      | Some (_, rest) \<Rightarrow>
          (case split_once '']'' rest of
             None \<Rightarrow> None
           | Some (code, _) \<Rightarrow> limit_parse code))"

definition resumable :: "verification_limit \<Rightarrow> bool" where
  "resumable limit \<longleftrightarrow> limit = Limit_Deadline \<or> limit = Limit_FetchedState"

fun guidance :: "verification_limit \<Rightarrow> str" where
  "guidance Limit_FolderInventory = ''The account's folder list exceeds the verifier's inventory bound (32 MiB or 100,000 folders). Exclude folders from the plan or split the account, then rerun to obtain evidence.''"
| "guidance Limit_ResponseSize = ''A server response exceeded the verifier's 64 MiB bound, usually a very large message during body-hash verification. Lower the body-hash per-message bound or use metadata verification, then rerun.''"
| "guidance Limit_FetchedState = ''Verification exceeded its transient memory budget. Rerun to perform a fresh folder scan; if it recurs, use metadata verification.''"
| "guidance Limit_MessageCount = ''An endpoint holds more than the 1,000,000 messages metadata verification admits. Split the account into smaller folder scopes, or obtain evidence another way and accept the difference explicitly.''"
| "guidance Limit_BodyHashMessageCount = ''Ephemeral body-hash verification is limited to 100,000 messages per endpoint; use a durable SQLite-backed run for body proof up to the general 1,000,000-message limit, or use metadata-only verification.''"
| "guidance Limit_BodyHashMessageSize = ''A message exceeded the body-hash per-message bound. Raise the bound (up to 64 MiB) or disable body-hash verification, then rerun.''"
| "guidance Limit_BodyHashTotalSize = ''Hashed bodies exceeded the body-hash total bound. Raise the total bound (up to 8 GiB) or disable body-hash verification, then rerun.''"
| "guidance Limit_ReconciliationState = ''Reconciliation found more differences than it can record, which usually means the destination differs substantially. Inspect the transfer, run another delta pass, then rerun.''"
| "guidance Limit_StagingDiskSpace = ''Verification stopped before another staging write because free space could not be confirmed or fell below the 512 MiB reserve. Free space on the stage filesystem, then retry; this reserve does not estimate total verification capacity.''"
| "guidance Limit_Deadline = ''Verification ran past the migration timeout. Rerun for a fresh folder scan, or raise the migration timeout.''"

definition attention_detail :: "verification_limit \<Rightarrow> str \<Rightarrow> str" where
  "attention_detail limit error0 =
     (let error1 = trim error0;
          error = (if limit_from_detail error1 = Some limit then error1 else limit_tag limit error1)
      in ''[attention_reason='' @ reason_as_str Reason_VerificationLimitExceeded @
         ''] transfer completed; verification exceeded a safety limit: '' @ error @
         '' Next step: '' @ guidance limit)"

section \<open>The tag survives wrapping\<close>

interpretation limit_wire: wire_codec limit_code limit_parse
proof
  show "limit_parse (limit_code x) = Some x" for x
    by (cases x) (simp_all add: limit_parse_def ALL_LIMITS_def)
  show "limit_parse s = Some x \<Longrightarrow> s = limit_code x" for s x
    by (auto simp: limit_parse_def find_Some_iff)
qed

lemma limit_code_no_bracket: "CHR '']'' \<notin> set (limit_code limit)"
  by (cases limit) simp_all

lemma limit_from_marker: "limit_from_detail (limit_marker limit @ rest) = Some limit"
proof -
  have "split_once MARKER_PREFIX (MARKER_PREFIX @ s) = Some ([], s)" for s
    by (simp add: MARKER_PREFIX_def starts_with_take)
  then show ?thesis
    by (simp add: limit_from_detail_def limit_marker_def split_once_char limit_code_no_bracket
        limit_wire.dec_enc)
qed

lemma limit_from_tag [simp]: "limit_from_detail (limit_tag limit error) = Some limit"
  by (simp add: limit_tag_def limit_from_marker)

lemma limit_from_detail_append:
  "limit_from_detail error = Some limit \<Longrightarrow> limit_from_detail (error @ rest) = Some limit"
  by (auto simp: limit_from_detail_def split_once_append_right split: option.splits
      dest: split_once_append_right [of _ _ _ _ rest])

lemma limit_from_detail_wrap:
  assumes "CHR ''['' \<notin> set pre"
  shows "limit_from_detail (pre @ error) = limit_from_detail error"
  using assms
  by (auto simp: limit_from_detail_def split_once_append_left MARKER_PREFIX_def
      split: option.splits)

lemma limit_from_detail_bracket:
  assumes "c \<noteq> CHR ''v''"
  shows "limit_from_detail (CHR ''['' # c # s) = limit_from_detail (c # s)"
proof -
  have "\<not> starts_with MARKER_PREFIX (CHR ''['' # c # s)"
    using assms by (simp add: MARKER_PREFIX_def starts_with_take)
  then show ?thesis
    by (auto simp: limit_from_detail_def split: option.splits)
qed

text \<open>The fixed text between the attention tag and the error of \<open>attention_detail\<close>.\<close>

abbreviation limit_intro :: str where
  "limit_intro \<equiv> ''ttention_reason=verification_limit_exceeded] transfer completed; verification exceeded a safety limit: ''"

lemma attention_detail_limit: "limit_from_detail (attention_detail limit error) = Some limit"
proof -
  define err where "err = (if limit_from_detail (trim error) = Some limit then trim error
                           else limit_tag limit (trim error))"
  define intro post where "intro = CHR ''a'' # limit_intro" and "post = '' Next step: '' @ guidance limit"
  have err: "limit_from_detail err = Some limit"
    by (simp add: err_def)
  have noreopen: "CHR ''['' \<notin> set intro"
    by (simp add: intro_def)
  have e: "attention_detail limit error = CHR ''['' # CHR ''a'' # (tl intro @ err @ post)"
    by (simp add: attention_detail_def err_def Let_def intro_def post_def)
  have "limit_from_detail (attention_detail limit error) = limit_from_detail (CHR ''a'' # (tl intro @ err @ post))"
    unfolding e by (rule limit_from_detail_bracket) simp
  also have "CHR ''a'' # (tl intro @ err @ post) = intro @ (err @ post)"
    by (simp add: intro_def)
  also have "limit_from_detail (intro @ (err @ post)) = limit_from_detail (err @ post)"
    using noreopen by (rule limit_from_detail_wrap)
  also have "\<dots> = Some limit"
    using err by (rule limit_from_detail_append)
  finally show ?thesis .
qed

end
