(* ===== verification/Failure.thy ===== *)
theory Failure
  imports Provider_Intelligence Verification_Limit
begin

text \<open>
  Failure taxonomy and retry policy, \<^verbatim>\<open>src/src/controller/failure.rs\<close>. A diagnostic is classified
  once (\<open>classified_failure\<close>); retry eligibility, backoff, rate-domain cooldown and the durable run
  detail read that value. \<open>attention_reason_for\<close> of \<^verbatim>\<open>src/src/core/policy.rs\<close>, which the ledger uses
  to read the durable detail back, is here as well. Random jitter is an argument: the 64-bit draw of
  the OS random source, \<open>None\<close> when the source fails.
\<close>

section \<open>Classes\<close>

datatype side = Source | Destination

datatype failure_class =
    Class_Cancellation
  | Class_Authentication
  | Class_Quota
  | Class_Capacity
  | Class_Transport
  | Class_Configuration
  | Class_Message
  | Class_Verification
  | Class_Unknown

fun class_label :: "failure_class \<Rightarrow> str" where
  "class_label Class_Cancellation = ''cancelled''"
| "class_label Class_Authentication = ''authentication''"
| "class_label Class_Quota = ''quota''"
| "class_label Class_Capacity = ''capacity''"
| "class_label Class_Transport = ''transport''"
| "class_label Class_Configuration = ''configuration''"
| "class_label Class_Message = ''message''"
| "class_label Class_Verification = ''verification''"
| "class_label Class_Unknown = ''unknown''"

fun class_attention_reason :: "failure_class \<Rightarrow> attention_reason" where
  "class_attention_reason Class_Cancellation = Reason_Interrupted"
| "class_attention_reason Class_Authentication = Reason_AuthenticationFailed"
| "class_attention_reason Class_Quota = Reason_CapacityLimited"
| "class_attention_reason Class_Capacity = Reason_CapacityLimited"
| "class_attention_reason Class_Transport = Reason_TransportFailed"
| "class_attention_reason Class_Configuration = Reason_ConfigurationInvalid"
| "class_attention_reason Class_Message = Reason_MessageRejected"
| "class_attention_reason Class_Verification = Reason_VerificationIncomplete"
| "class_attention_reason Class_Unknown = Reason_Unknown"

definition class_parse_label :: "str \<Rightarrow> failure_class option" where
  "class_parse_label label =
     (if label = ''cancelled'' then Some Class_Cancellation
      else if label = ''authentication'' then Some Class_Authentication
      else if label = ''quota'' then Some Class_Quota
      else if label = ''capacity'' then Some Class_Capacity
      else if label = ''transport'' then Some Class_Transport
      else if label = ''configuration'' then Some Class_Configuration
      else if label = ''message'' then Some Class_Message
      else if label = ''verification'' then Some Class_Verification
      else if label = ''unknown'' then Some Class_Unknown
      else None)"

datatype migration_error =
    Err_Cancellation str
  | Err_Authentication str
  | Err_Quota str
  | Err_Capacity str "duration option"
  | Err_Transport str
  | Err_Configuration str
  | Err_Message str
  | Err_Verification str
  | Err_Unknown str

fun migration_error_class :: "migration_error \<Rightarrow> failure_class" where
  "migration_error_class (Err_Cancellation _) = Class_Cancellation"
| "migration_error_class (Err_Authentication _) = Class_Authentication"
| "migration_error_class (Err_Quota _) = Class_Quota"
| "migration_error_class (Err_Capacity _ _) = Class_Capacity"
| "migration_error_class (Err_Transport _) = Class_Transport"
| "migration_error_class (Err_Configuration _) = Class_Configuration"
| "migration_error_class (Err_Message _) = Class_Message"
| "migration_error_class (Err_Verification _) = Class_Verification"
| "migration_error_class (Err_Unknown _) = Class_Unknown"

definition migration_error_retry_after :: "migration_error \<Rightarrow> duration option" where
  "migration_error_retry_after e = (case e of Err_Capacity _ ra \<Rightarrow> ra | _ \<Rightarrow> None)"

definition terminal_phase_advance_allowed :: "bool \<Rightarrow> bool \<Rightarrow> bool \<Rightarrow> bool" where
  "terminal_phase_advance_allowed external_succeeded terminal_write_ok durability_error \<longleftrightarrow>
     external_succeeded \<and> terminal_write_ok \<and> \<not> durability_error"

section \<open>Classification\<close>

definition control_error_text :: "str \<Rightarrow> str" where
  "control_error_text error =
     (case split_once ''; recent output:'' error of None \<Rightarrow> error | Some (primary, _) \<Rightarrow> primary)"

definition controller_failure_class :: "str \<Rightarrow> failure_class option" where
  "controller_failure_class error =
     Option.bind (strip_prefix ''[attention_reason='' error) (\<lambda>value.
     Option.bind (split_once ''] [class='' value) (\<lambda>(_, value).
     Option.bind (split_once '']'' value) (\<lambda>(label, _). class_parse_label label)))"

text \<open>The wording heuristics at the end of \<^verbatim>\<open>classify_failure_text\<close>, on the lower-cased text.\<close>

definition classify_text_heuristics :: "str \<Rightarrow> failure_class" where
  "classify_text_heuristics error =
     (if contains_any [''cancelled'', ''canceled'', ''operator cancellation''] error
      then Class_Cancellation
      else if contains_any [''rate limit'', ''rate-limit'', ''throttl'', ''too many connections'',
         ''too many requests'', ''server busy'', ''temporarily overloaded''] error
      then Class_Capacity
      else if contains_any [''overquota'', ''over quota'', ''quota exceeded'', ''quota'',
         ''mailbox is full'', ''insufficient storage''] error
      then Class_Quota
      else if contains_any [''message too large'', ''too large'', ''append failed'', ''invalid message'',
         ''message rejected'', ''msg rejected''] error
      then Class_Message
      else if contains_any [''verification'', ''evidence incomplete'', ''evidence unavailable''] error
      then Class_Verification
      else if contains_any [''invalid peer certificate'', ''certificate verify failed'',
         ''certificate validation'', ''certificate expired'',
         ''certificate sha-256 pin mismatch'', ''unknown issuer'',
         ''not valid for name''] error
      then Class_Configuration
      else if contains_any [''timed out'', ''timeout'', ''operation would block'', ''connection reset'',
         ''connection refused'', ''connection closed'', ''peer closed connection'',
         ''connection aborted'', ''network is unreachable'', ''host is unreachable'',
         ''broken pipe'', ''unexpected eof'', ''failed to lookup address'',
         ''name or service not known'', ''nodename nor servname provided'',
         ''temporary failure in name resolution'', ''no address found'',
         ''tls handshake eof'', ''handshake timed out'',
         ''list response exceeded the 60-second processing limit'',
         ''temporarily unavailable'', ''try again'', ''throttl'', ''rate limit''] error
      then Class_Transport
      else if contains_any [''authentication'', ''auth failed'', ''authentification'',
         ''invalid credentials'', ''login denied'', ''login failed'',
         ''authenticationfailed'', ''permission denied'', ''not authorized'',
         ''authorization failed'', ''access denied''] error
      then Class_Authentication
      else if contains_any [''invalid option'', ''unknown option'', ''could not start'', ''not found'',
         ''no such file'', ''configuration'', ''invalid endpoint'', ''missing''] error
      then Class_Configuration
      else Class_Unknown)"

definition class_of_provider_error :: "provider_error_type \<Rightarrow> bool \<Rightarrow> failure_class option" where
  "class_of_provider_error e server_busy =
     (case e of
        AuthenticationExpired \<Rightarrow> Some Class_Authentication
      | TlsError \<Rightarrow> Some Class_Transport
      | DnsError \<Rightarrow> Some Class_Transport
      | TransportError \<Rightarrow> Some Class_Transport
      | ImapTaggedNo \<Rightarrow> Some Class_Transport
      | ImapBad \<Rightarrow> Some Class_Transport
      | EngineExit \<Rightarrow> Some Class_Transport
      | VerificationError \<Rightarrow> Some Class_Verification
      | RateLimited \<Rightarrow> Some Class_Capacity
      | ConnectionCapacity \<Rightarrow> Some Class_Capacity
      | MailboxQuotaExceeded \<Rightarrow> Some Class_Quota
      | StorageQuotaExceeded \<Rightarrow> Some Class_Quota
      | Authentication \<Rightarrow> Some Class_Authentication
      | TemporaryProviderFailure \<Rightarrow> Some (if server_busy then Class_Capacity else Class_Transport)
      | Network \<Rightarrow> Some Class_Transport
      | PermanentProviderFailure \<Rightarrow> None)"

definition classify_failure_text :: "(str \<Rightarrow> str) \<Rightarrow> str \<Rightarrow> str \<Rightarrow> failure_class" where
  "classify_failure_text lower provider error0 =
     (case controller_failure_class error0 of
        Some cl \<Rightarrow> cl
      | None \<Rightarrow>
          if contains ''could not remove sensitive temporary files'' (to_ascii_lowercase error0)
          then Class_Unknown
          else if limit_from_detail error0 \<noteq> None then Class_Verification
          else
            let error = control_error_text error0;
                normalized_error = to_ascii_lowercase error;
                server_busy = contains ''server busy'' normalized_error
            in if server_busy then Class_Capacity
               else case class_of_provider_error (provider_classify lower provider error) server_busy of
                      Some cl \<Rightarrow> cl
                    | None \<Rightarrow> classify_text_heuristics (to_ascii_lowercase error))"

definition classify_error_for_provider :: "(str \<Rightarrow> str) \<Rightarrow> str \<Rightarrow> str \<Rightarrow> migration_error" where
  "classify_error_for_provider lower provider error =
     (let detail = control_error_text error;
          retry_after = Option.bind (provider_signal_for_provider lower provider detail) sig_retry_after
      in case classify_failure_text lower provider error of
           Class_Cancellation \<Rightarrow> Err_Cancellation detail
         | Class_Authentication \<Rightarrow> Err_Authentication detail
         | Class_Quota \<Rightarrow> Err_Quota detail
         | Class_Capacity \<Rightarrow> Err_Capacity detail retry_after
         | Class_Transport \<Rightarrow> Err_Transport detail
         | Class_Configuration \<Rightarrow> Err_Configuration detail
         | Class_Message \<Rightarrow> Err_Message detail
         | Class_Verification \<Rightarrow> Err_Verification detail
         | Class_Unknown \<Rightarrow> Err_Unknown detail)"

definition attributed_provider :: "side list \<Rightarrow> (side \<Rightarrow> str) \<Rightarrow> str" where
  "attributed_provider sides provider_of =
     (case sides of [s] \<Rightarrow> provider_of s | _ \<Rightarrow> UNATTRIBUTED_PROVIDER)"

text \<open>\<^verbatim>\<open>rate_domains::failure_sides\<close>: which endpoint the diagnostic names.\<close>

definition failure_sides :: "str \<Rightarrow> side list" where
  "failure_sides error =
     (let text = control_error_text error;
          host1 = contains ''Host1'' text;
          host2 = contains ''Host2'' text
      in if host1 \<and> \<not> host2 then [Source]
         else if \<not> host1 \<and> host2 then [Destination]
         else [Source, Destination])"

record classified_failure =
  cf_provider :: str
  cf_sides :: "side list"
  cf_error :: migration_error
  cf_provider_error :: provider_error_type
  cf_signal :: "provider_signal option"
  cf_controller_marked :: bool
  cf_verification_limit :: bool

definition classify :: "(str \<Rightarrow> str) \<Rightarrow> str \<Rightarrow> side list \<Rightarrow> str \<Rightarrow> classified_failure" where
  "classify lower provider sides error =
     (let text = control_error_text error in
      \<lparr>cf_provider = provider, cf_sides = sides,
       cf_error = classify_error_for_provider lower provider error,
       cf_provider_error = provider_classify lower provider text,
       cf_signal = provider_signal_for_provider lower provider text,
       cf_controller_marked = (controller_failure_class error \<noteq> None),
       cf_verification_limit = (limit_from_detail error \<noteq> None)\<rparr>)"

definition attributed :: "(str \<Rightarrow> str) \<Rightarrow> str \<Rightarrow> side list \<Rightarrow> (side \<Rightarrow> str) \<Rightarrow> classified_failure" where
  "attributed lower error sides provider_of =
     classify lower (attributed_provider sides provider_of) sides error"

definition for_endpoints :: "(str \<Rightarrow> str) \<Rightarrow> str \<Rightarrow> str \<Rightarrow> str \<Rightarrow> classified_failure" where
  "for_endpoints lower error source_provider destination_provider =
     attributed lower error (failure_sides error)
       (\<lambda>s. case s of Source \<Rightarrow> source_provider | Destination \<Rightarrow> destination_provider)"

definition cf_class :: "classified_failure \<Rightarrow> failure_class" where
  "cf_class f = migration_error_class (cf_error f)"

definition cf_retry_after :: "classified_failure \<Rightarrow> duration option" where
  "cf_retry_after f = migration_error_retry_after (cf_error f)"

definition cf_suggested_delay :: "classified_failure \<Rightarrow> duration option" where
  "cf_suggested_delay f = suggested_retry_delay (cf_provider_error f)"

section \<open>Retry policy\<close>

definition is_transient :: "classified_failure \<Rightarrow> bool" where
  "is_transient f =
     (let cl = cf_class f in
      if cl \<noteq> Class_Transport \<or> cf_controller_marked f
      then cl = Class_Capacity \<or> cl = Class_Transport
      else if cf_provider_error f = PermanentProviderFailure then True
      else is_retryable (cf_provider_error f))"

definition should_retry :: "classified_failure \<Rightarrow> nat \<Rightarrow> nat \<Rightarrow> bool" where
  "should_retry f attempt retry_count \<longleftrightarrow>
     cf_class f \<noteq> Class_Cancellation \<and> attempt < retry_count \<and> is_transient f"

definition RETRY_CEILING_MILLIS :: nat where
  "RETRY_CEILING_MILLIS = 120000"

definition uniform_millis :: "nat option \<Rightarrow> nat \<Rightarrow> nat \<Rightarrow> nat" where
  "uniform_millis draw low high =
     (if high \<le> low then low
      else case draw of None \<Rightarrow> high | Some r \<Rightarrow> low + r mod (high - low + 1))"

definition as_millis_u64 :: "duration \<Rightarrow> nat" where
  "as_millis_u64 d = min (d div 1000000) u64_max"

definition retry_base_millis :: "classified_failure \<Rightarrow> nat" where
  "retry_base_millis f =
     (case (case cf_retry_after f of Some d \<Rightarrow> Some d | None \<Rightarrow> cf_suggested_delay f) of
        None \<Rightarrow> (if cf_class f = Class_Capacity then 5000 else 1000)
      | Some d \<Rightarrow> as_millis_u64 d)"

definition retry_ceiling_millis :: "nat \<Rightarrow> nat \<Rightarrow> nat" where
  "retry_ceiling_millis base_millis attempt =
     max (min (saturating_mul_u64 base_millis (2 ^ min attempt 5)) RETRY_CEILING_MILLIS)
         (saturating_add_u64 base_millis (base_millis div 2))"

definition retry_delay :: "nat option \<Rightarrow> classified_failure \<Rightarrow> nat \<Rightarrow> duration" where
  "retry_delay draw f attempt =
     (let base_millis = retry_base_millis f;
          ceiling = retry_ceiling_millis base_millis attempt
      in max (millis (uniform_millis draw base_millis ceiling))
             (case cf_retry_after f of None \<Rightarrow> 0 | Some d \<Rightarrow> d))"

section \<open>Durable details\<close>

definition cf_attention_reason :: "classified_failure \<Rightarrow> attention_reason" where
  "cf_attention_reason f =
     (if cf_class f = Class_Verification \<and> cf_verification_limit f
      then Reason_VerificationLimitExceeded
      else class_attention_reason (cf_class f))"

definition render_detail :: "classified_failure \<Rightarrow> str \<Rightarrow> bool \<Rightarrow> str" where
  "render_detail f presented include_provider_context =
     (let signal = (case cf_signal f of None \<Rightarrow> []
                    | Some sg \<Rightarrow> ''[signal='' @ sig_source sg @ '':'' @ sig_name sg @ ''] '');
          remediation = (case cf_signal f of None \<Rightarrow> []
                         | Some sg \<Rightarrow> if sig_remediation sg = [] then []
                                     else '' Next step: '' @ sig_remediation sg @ ''.'');
          provider_context = (if include_provider_context \<and> cf_provider f \<noteq> UNATTRIBUTED_PROVIDER
                              then ''[provider='' @ cf_provider f @ ''] '' else [])
      in ''[attention_reason='' @ reason_as_str (cf_attention_reason f) @ ''] [class='' @
         class_label (cf_class f) @ ''] '' @ provider_context @ signal @ presented @ remediation)"

definition durable_detail :: "classified_failure \<Rightarrow> str \<Rightarrow> str" where
  "durable_detail f presented = render_detail f presented True"

definition incomplete_verification_detail :: "str \<Rightarrow> str" where
  "incomplete_verification_detail error =
     (case limit_from_detail error of
        Some limit \<Rightarrow> attention_detail limit error
      | None \<Rightarrow> ''[attention_reason='' @ reason_as_str Reason_VerificationIncomplete @
                ''] message-level verification incomplete: '' @ error)"

definition completed_without_verification_detail :: "str option \<Rightarrow> str" where
  "completed_without_verification_detail error =
     incomplete_verification_detail
       (case error of
          Some e \<Rightarrow> if trim e \<noteq> [] then e
                   else ''verification produced neither evidence nor a failure detail''
        | None \<Rightarrow> ''verification produced neither evidence nor a failure detail'')"

text \<open>\<^verbatim>\<open>chars().take(n)\<close> on UTF-8: a byte with the high bits 10 continues the previous character.\<close>

definition is_continuation :: "char \<Rightarrow> bool" where
  "is_continuation c \<longleftrightarrow> 128 \<le> char_code c \<and> char_code c < 192"

fun take_chars :: "nat \<Rightarrow> str \<Rightarrow> str" where
  "take_chars n [] = []"
| "take_chars n (c # cs) =
     (if is_continuation c then c # take_chars n cs
      else (case n of 0 \<Rightarrow> [] | Suc m \<Rightarrow> c # take_chars m cs))"

definition bounded_verification_error :: "str \<Rightarrow> nat \<Rightarrow> str" where
  "bounded_verification_error error max_chars =
     take_chars max_chars
       (case limit_from_detail error of
          Some limit \<Rightarrow> if starts_with (limit_marker limit) error then error else limit_tag limit error
        | None \<Rightarrow> error)"

text \<open>\<^verbatim>\<open>policy::attention_reason_for\<close>.\<close>

definition attention_reason_from_text :: "str \<Rightarrow> str \<Rightarrow> attention_reason" where
  "attention_reason_from_text mailbox_state detail =
     (if contains_any [''identity'', ''ownership'', ''unverified''] detail
      then Reason_ProcessIdentityUnverified
      else if contains_any [''restart'', ''interrupt''] detail then Reason_Interrupted
      else if contains_any [''verification'', ''evidence''] detail then Reason_VerificationIncomplete
      else if contains_any [''auth'', ''credential'', ''password''] detail then Reason_AuthenticationFailed
      else if contains_any [''rate'', ''quota'', ''capacity''] detail then Reason_CapacityLimited
      else if contains ''policy'' detail then Reason_PolicyBlocked
      else if contains_any [''config'', ''invalid''] detail then Reason_ConfigurationInvalid
      else if contains_any [''network'', ''timeout'', ''connection''] detail then Reason_TransportFailed
      else if mailbox_state = ''cancelled'' then Reason_Interrupted
      else Reason_Unknown)"

definition attention_reason_for :: "str \<Rightarrow> str \<Rightarrow> attention_reason option" where
  "attention_reason_for mailbox_state detail =
     (if mailbox_state = ''verification_difference'' then Some Reason_VerificationDifference
      else if mailbox_state \<notin> {''attention'', ''failed'', ''cancelled''} then None
      else case Option.bind (strip_prefix ''[attention_reason='' detail) (\<lambda>value.
                Option.bind (split_once '']'' value) (\<lambda>(v, _). reason_parse v)) of
             Some reason \<Rightarrow> Some reason
           | None \<Rightarrow> Some (attention_reason_from_text mailbox_state (to_ascii_lowercase detail)))"

section \<open>Durable details read back as written\<close>

interpretation class_wire: wire_codec class_label class_parse_label
proof
  show "class_parse_label (class_label x) = Some x" for x
    by (cases x) (simp_all add: class_parse_label_def)
  show "class_parse_label s = Some x \<Longrightarrow> s = class_label x" for s x
    unfolding class_parse_label_def by (auto split: if_splits)
qed

lemma reason_as_str_no_bracket: "CHR '']'' \<notin> set (reason_as_str r)"
  by (cases r) simp_all

lemma class_label_no_bracket: "CHR '']'' \<notin> set (class_label c)"
  by (cases c) simp_all

lemma split_once_class_tag:
  "split_once ''] [class='' (reason_as_str r @ ''] [class='' @ rest) = Some (reason_as_str r, rest)"
proof -
  have "split_once ''] [class='' (''] [class='' @ rest) = Some ([], rest)"
    by (simp add: starts_with_take)
  then show ?thesis
    by (subst split_once_append_left) (simp_all add: reason_as_str_no_bracket)
qed

lemma durable_detail_shape:
  "\<exists>rest. durable_detail f presented =
     ''[attention_reason='' @ reason_as_str (cf_attention_reason f) @ ''] [class='' @
     class_label (cf_class f) @ CHR '']'' # rest"
  by (simp add: durable_detail_def render_detail_def Let_def)

lemma durable_detail_class: "controller_failure_class (durable_detail f presented) = Some (cf_class f)"
proof -
  obtain rest where d: "durable_detail f presented =
     ''[attention_reason='' @ reason_as_str (cf_attention_reason f) @ ''] [class='' @
     class_label (cf_class f) @ CHR '']'' # rest"
    using durable_detail_shape by blast
  show ?thesis
    unfolding controller_failure_class_def d strip_prefix_append Option.bind.simps
      split_once_class_tag prod.case
    by (simp add: split_once_char class_label_no_bracket class_wire.dec_enc)
qed

lemma durable_detail_reason:
  assumes "st \<in> {''attention'', ''failed'', ''cancelled''}"
  shows "attention_reason_for st (durable_detail f presented) = Some (cf_attention_reason f)"
proof -
  obtain rest where d: "durable_detail f presented =
     ''[attention_reason='' @ reason_as_str (cf_attention_reason f) @ CHR '']'' # rest"
    using durable_detail_shape [of f presented] by auto
  have "Option.bind (strip_prefix ''[attention_reason='' (durable_detail f presented)) (\<lambda>value.
          Option.bind (split_once '']'' value) (\<lambda>(v, _). reason_parse v)) = Some (cf_attention_reason f)"
    unfolding d strip_prefix_append Option.bind.simps
    by (simp add: split_once_char reason_as_str_no_bracket reason_wire.dec_enc)
  with assms show ?thesis
    unfolding attention_reason_for_def by auto
qed

lemma classify_class [simp]: "cf_class (classify lower provider sides error) = classify_failure_text lower provider error"
  by (simp add: cf_class_def classify_def classify_error_for_provider_def Let_def
      split: failure_class.splits)

lemma controller_class_wins:
  "controller_failure_class error = Some cl \<Longrightarrow> classify_failure_text lower provider error = cl"
  by (simp add: classify_failure_text_def)

lemma class_of_reason:
  "cf_attention_reason f = r \<Longrightarrow>
   r = Reason_VerificationLimitExceeded \<or> r = class_attention_reason (cf_class f)"
  by (auto simp: cf_attention_reason_def)

section \<open>Backoff bounds\<close>

lemma uniform_millis_bounds:
  "low \<le> uniform_millis draw low high \<and> uniform_millis draw low high \<le> max low high"
proof (cases "high \<le> low")
  case True
  then show ?thesis by (simp add: uniform_millis_def)
next
  case False
  show ?thesis
  proof (cases draw)
    case None
    with False show ?thesis by (simp add: uniform_millis_def)
  next
    case (Some r)
    have "r mod (high - low + 1) < high - low + 1" by (rule mod_less_divisor) simp
    with False Some show ?thesis by (simp add: uniform_millis_def del: mod_less_divisor)
  qed
qed

lemma retry_ceiling_ge: "base \<le> u64_max \<Longrightarrow> base \<le> retry_ceiling_millis base attempt"
  by (simp add: retry_ceiling_millis_def saturating_add_u64_def)

lemma retry_ceiling_le:
  "retry_ceiling_millis base attempt \<le> max RETRY_CEILING_MILLIS (base + base div 2)"
  by (auto simp: retry_ceiling_millis_def saturating_add_u64_def)

lemma retry_base_le_u64: "retry_base_millis f \<le> u64_max"
  by (auto simp: retry_base_millis_def as_millis_u64_def u64_max_def split: option.splits)

lemma suggested_retry_delay_le: "suggested_retry_delay e = Some d \<Longrightarrow> d \<le> secs 60"
  by (auto simp: suggested_retry_delay_def split: provider_error_type.splits)

lemma classify_retry_after_le:
  "cf_retry_after (classify lower provider sides error) = Some d \<Longrightarrow> d \<le> MAX_SERVER_RETRY_AFTER"
  using signal_retry_after_bound
  by (auto simp: cf_retry_after_def classify_def classify_error_for_provider_def
      migration_error_retry_after_def Let_def split: failure_class.splits bind_splits)

lemma retry_base_le:
  "retry_base_millis (classify lower provider sides error) \<le> 1800000"
proof -
  let ?f = "classify lower provider sides error"
  have as_millis: "as_millis_u64 d \<le> 1800000" if "d \<le> MAX_SERVER_RETRY_AFTER" for d
  proof -
    have "d div 1000000 \<le> 1800000"
      using that by (simp add: MAX_SERVER_RETRY_AFTER_def secs_def)
    then show ?thesis by (simp add: as_millis_u64_def)
  qed
  show ?thesis
  proof (cases "cf_retry_after ?f")
    case (Some d)
    then show ?thesis
      using as_millis [OF classify_retry_after_le [OF Some]] by (simp add: retry_base_millis_def)
  next
    case None
    show ?thesis
    proof (cases "cf_suggested_delay ?f")
      case (Some d)
      then have "d \<le> secs 60" by (simp add: cf_suggested_delay_def suggested_retry_delay_le)
      then have "d \<le> MAX_SERVER_RETRY_AFTER"
        by (simp add: MAX_SERVER_RETRY_AFTER_def secs_def)
      with None Some as_millis show ?thesis by (simp add: retry_base_millis_def)
    qed (use None in \<open>simp add: retry_base_millis_def\<close>)
  qed
qed

section \<open>Properties\<close>

text \<open>
  C30: The durable run detail is read back as written: from \<^verbatim>\<open>durable_detail\<close> of any classified
  failure, with any presented text, the ledger recovers the attention reason and the controller
  recovers the class, so re-classifying the stored detail for any provider gives the same class.
\<close>

theorem durable_detail_roundtrip:
  assumes "st \<in> {''attention'', ''failed'', ''cancelled''}"
  shows "attention_reason_for st (durable_detail f presented) = Some (cf_attention_reason f) \<and>
         controller_failure_class (durable_detail f presented) = Some (cf_class f) \<and>
         cf_class (classify lower provider sides (durable_detail f presented)) = cf_class f"
  using durable_detail_reason [OF assms] durable_detail_class controller_class_wins by simp

theorem durable_detail_roundtrip_witness:
  "attention_reason_for ''failed''
     (durable_detail (classify to_ascii_lowercase ''gmail'' [Source] ''connection reset'') ''quota exceeded'') =
   Some Reason_TransportFailed"
proof -
  let ?f = "classify to_ascii_lowercase ''gmail'' [Source] ''connection reset''"
  have m: "''failed'' \<in> {''attention'', ''failed'', ''cancelled''}" by simp
  have r: "cf_attention_reason ?f = Reason_TransportFailed" by code_simp
  show ?thesis
    using durable_detail_roundtrip [OF m, of ?f "''quota exceeded''" id "''gmail''" "[]"] r by simp
qed

text \<open>
  A retry delay is never shorter than the wait the server requested nor than the documented
  base delay, whatever the random draw, and it never exceeds 45 minutes.
\<close>

theorem retry_delay_bounds:
  fixes lower provider sides error
  defines "f \<equiv> classify lower provider sides error"
  shows "millis (retry_base_millis f) \<le> retry_delay draw f attempt \<and>
         (case cf_retry_after f of None \<Rightarrow> 0 | Some d \<Rightarrow> d) \<le> retry_delay draw f attempt \<and>
         retry_delay draw f attempt \<le> secs 2700"
proof -
  let ?b = "retry_base_millis f" and ?u = "uniform_millis draw (retry_base_millis f)
      (retry_ceiling_millis (retry_base_millis f) attempt)"
  have b: "?b \<le> 1800000" unfolding f_def by (rule retry_base_le)
  have lo: "?b \<le> ?u" using uniform_millis_bounds by blast
  have "?u \<le> max ?b (retry_ceiling_millis ?b attempt)" using uniform_millis_bounds by blast
  also have "\<dots> \<le> max RETRY_CEILING_MILLIS (?b + ?b div 2)"
    using retry_ceiling_le [of ?b attempt] by auto
  also have "\<dots> \<le> 2700000" using b by (simp add: RETRY_CEILING_MILLIS_def)
  finally have hi: "?u \<le> 2700000" .
  have "(case cf_retry_after f of None \<Rightarrow> 0 | Some d \<Rightarrow> d) \<le> secs 2700"
    using classify_retry_after_le [of lower provider sides error]
    by (auto simp: f_def MAX_SERVER_RETRY_AFTER_def secs_def split: option.splits)
  with lo hi show ?thesis
    by (auto simp: retry_delay_def Let_def millis_def secs_def)
qed

text \<open>
  Only capacity and transport failures are ever retried, within the retry budget; a transport
  failure the controller did not mark itself is retried only when the provider classifier calls its
  verdict retryable or recognised nothing.
\<close>

theorem should_retry_only_transient:
  assumes "should_retry f attempt retry_count"
  shows "attempt < retry_count \<and>
         (cf_class f = Class_Capacity \<or>
          (cf_class f = Class_Transport \<and>
           (cf_controller_marked f \<or> cf_provider_error f = PermanentProviderFailure \<or>
            is_retryable (cf_provider_error f))))"
  using assms by (auto simp: should_retry_def is_transient_def Let_def split: if_splits)

theorem should_retry_only_transient_witness:
  "should_retry (classify to_ascii_lowercase ''gmail'' [Source] ''connection reset'') 0 3 \<and>
   cf_class (classify to_ascii_lowercase ''gmail'' [Source] ''connection reset'') = Class_Transport"
proof -
  have h: "should_retry (classify to_ascii_lowercase ''gmail'' [Source] ''connection reset'') 0 3"
    by code_simp
  have c: "cf_class (classify to_ascii_lowercase ''gmail'' [Source] ''connection reset'') \<noteq> Class_Capacity"
    by code_simp
  show ?thesis using h c should_retry_only_transient [OF h] by blast
qed

text \<open>
  A failure whose diagnostic does not name exactly one endpoint is classified without any
  provider's vocabulary: it carries no server-requested delay and its signal, if any, is an RFC 5530
  response code.
\<close>

theorem ambiguous_failure_is_provider_neutral:
  assumes "failure_sides error = [Source, Destination]"
  shows "cf_provider (for_endpoints lower error sp dp) = UNATTRIBUTED_PROVIDER \<and>
         cf_retry_after (for_endpoints lower error sp dp) = None \<and>
         (\<forall>sg. cf_signal (for_endpoints lower error sp dp) = Some sg \<longrightarrow> sig_source sg = ''imap'')"
proof -
  have f: "for_endpoints lower error sp dp =
           classify lower UNATTRIBUTED_PROVIDER [Source, Destination] error"
    by (simp add: for_endpoints_def attributed_def attributed_provider_def assms)
  show ?thesis
    unfolding f using unattributed_signal_imap [of lower "control_error_text error"]
    by (auto simp: classify_def cf_retry_after_def classify_error_for_provider_def Let_def
        migration_error_retry_after_def split: failure_class.splits bind_splits)
qed

theorem ambiguous_failure_is_provider_neutral_witness:
  "cf_retry_after (for_endpoints to_ascii_lowercase
      ''Request is throttled. Suggested Backoff Time: 9000 milliseconds'' ''microsoft365'' ''gmail'') = None \<and>
   cf_retry_after (for_endpoints to_ascii_lowercase
      ''Host1: Request is throttled. Suggested Backoff Time: 9000 milliseconds'' ''microsoft365'' ''gmail'')
     = Some (secs 9)"
proof -
  have h: "failure_sides ''Request is throttled. Suggested Backoff Time: 9000 milliseconds''
             = [Source, Destination]" by code_simp
  have s: "cf_retry_after (for_endpoints to_ascii_lowercase
      ''Host1: Request is throttled. Suggested Backoff Time: 9000 milliseconds'' ''microsoft365'' ''gmail'')
     = Some (secs 9)" by code_simp
  show ?thesis
    using ambiguous_failure_is_provider_neutral [OF h, of to_ascii_lowercase "''microsoft365''" "''gmail''"] s
    by simp
qed


end
