(* ===== verification/Rate_Domains.thy ===== *)
theory Rate_Domains
  imports Complex_Main Failure "HOL-Library.Multiset"
begin

text \<open>
  Hierarchical batch admission, \<^verbatim>\<open>src/src/controller/rate_domains.rs\<close>: every job is admitted through
  a path of rate domains (global, then provider, tenant, credential and mailbox on each side), each
  with an AIMD concurrency limit and an escalating cooldown.

  The limiter's \<^verbatim>\<open>HashMap\<close> is an association list with distinct keys, its length the map's \<^verbatim>\<open>len\<close>.
  \<^verbatim>\<open>Instant::now()\<close> is the argument \<open>now\<close>. The \<^verbatim>\<open>f64\<close> limit is the rational it denotes: halving a value
  of at least 1 is exact in binary floating point, and the additive increase rounds to 53 significant
  bits, half to even (\<open>f64_round\<close>). A poisoned mutex is the flag \<open>poisoned\<close>; \<^verbatim>\<open>str::to_lowercase\<close> is
  the argument \<open>lower\<close>.
\<close>

section \<open>Floating-point values of at least one\<close>

fun floor_log2 :: "nat \<Rightarrow> nat" where
  "floor_log2 n = (if n < 2 then 0 else Suc (floor_log2 (n div 2)))"

declare floor_log2.simps [simp del]

definition round_half_even :: "rat \<Rightarrow> int" where
  "round_half_even y =
     (let k = \<lfloor>y\<rfloor>; r = y - of_int k in
      if r < 1 / 2 \<or> (r = 1 / 2 \<and> even k) then k else k + 1)"

definition f64_round :: "rat \<Rightarrow> rat" where
  "f64_round x =
     (let s = 2 ^ 52 / 2 ^ floor_log2 (nat \<lfloor>x\<rfloor>) in of_int (round_half_even (x * s)) / s)"

section \<open>Domains and paths\<close>

definition MAX_RATE_DOMAINS :: nat where "MAX_RATE_DOMAINS = 4096"
definition ESCALATION_RESET_AFTER :: duration where "ESCALATION_RESET_AFTER = secs 300"
definition ESCALATION_WINDOW :: duration where "ESCALATION_WINDOW = secs 120"
definition ESCALATION_DISTINCT_CHILDREN :: nat where "ESCALATION_DISTINCT_CHILDREN = 2"
definition MAX_COOLDOWN :: duration where "MAX_COOLDOWN = secs 120"
definition DEFAULT_CAPACITY_DELAY :: duration where "DEFAULT_CAPACITY_DELAY = secs 5"

fun side_label :: "side \<Rightarrow> str" where
  "side_label Source = ''source''"
| "side_label Destination = ''destination''"

datatype domain_level = Global | Provider | Tenant | Credential | Mailbox

fun level_label :: "domain_level \<Rightarrow> str" where
  "level_label Global = ''global''"
| "level_label Provider = ''provider''"
| "level_label Tenant = ''tenant''"
| "level_label Credential = ''credential''"
| "level_label Mailbox = ''mailbox''"

record domain_key =
  key_side :: "side option"
  key_level :: domain_level
  key_scope :: str
  key_provider :: str

definition domain_label :: "domain_key \<Rightarrow> str" where
  "domain_label k =
     (case key_side k of
        None \<Rightarrow> ''all providers (global)''
      | Some s \<Rightarrow> side_label s @ '' '' @ level_label (key_level k) @ '' '' @ key_scope k)"

definition domain_endpoint :: "domain_key \<Rightarrow> str option" where
  "domain_endpoint k =
     (case key_level k of
        Global \<Rightarrow> None
      | Provider \<Rightarrow> Some (key_scope k)
      | _ \<Rightarrow> map_option snd (rsplit_once '' @ '' (key_scope k)))"

record rate_path =
  path_global :: domain_key
  path_source :: "domain_key list"
  path_destination :: "domain_key list"

record side_identity =
  id_endpoint :: str
  id_user :: str
  id_tenant :: str
  id_principal :: str

definition side_chain :: "(str \<Rightarrow> str) \<Rightarrow> side \<Rightarrow> side_identity \<Rightarrow> domain_key list" where
  "side_chain lower sd i =
     (let endpoint = id_endpoint i;
          prov = canonical_provider endpoint;
          user = lower (trim (id_user i));
          tenant = (if trim (id_tenant i) = []
                    then (case rsplit_once ''@'' user of
                            None \<Rightarrow> [] | Some (_, domain) \<Rightarrow> trim_end_matches (CHR ''.'') domain)
                    else to_ascii_lowercase (trim (id_tenant i)));
          principal = (if trim (id_principal i) = [] then user else trim (id_principal i));
          key = (\<lambda>lv sc. \<lparr>key_side = Some sd, key_level = lv, key_scope = sc, key_provider = prov\<rparr>);
          tenant_scope = (if tenant = [] then ''(no domain) @ '' @ endpoint
                          else tenant @ '' @ '' @ endpoint)
      in [key Provider endpoint, key Tenant tenant_scope,
          key Credential (principal @ '' in '' @ tenant_scope),
          key Mailbox (user @ '' @ '' @ endpoint)])"

definition path_new :: "(str \<Rightarrow> str) \<Rightarrow> side_identity \<Rightarrow> side_identity \<Rightarrow> rate_path" where
  "path_new lower source destination =
     \<lparr>path_global = \<lparr>key_side = None, key_level = Global, key_scope = [], key_provider = ''global''\<rparr>,
      path_source = side_chain lower Source source,
      path_destination = side_chain lower Destination destination\<rparr>"

definition fairness_key :: "rate_path \<Rightarrow> str" where
  "fairness_key p = key_scope (path_source p ! 1)"

definition path_all :: "rate_path \<Rightarrow> domain_key list" where
  "path_all p = path_global p # path_source p @ path_destination p"

definition path_chain :: "rate_path \<Rightarrow> side \<Rightarrow> domain_key list" where
  "path_chain p s = (case s of Source \<Rightarrow> path_source p | Destination \<Rightarrow> path_destination p)"

section \<open>Domain state\<close>

record domain_state =
  limit :: rat
  in_flight :: nat
  blocked_until :: instant
  last_capacity_failure :: "instant option"
  consecutive_capacity_failures :: "8 word"
  child_failures :: "(domain_key \<times> instant) list"

definition domain_new :: "rat \<Rightarrow> instant \<Rightarrow> domain_state" where
  "domain_new ceil now =
     \<lparr>limit = ceil, in_flight = 0, blocked_until = now, last_capacity_failure = None,
      consecutive_capacity_failures = 0, child_failures = []\<rparr>"

definition slot_limit :: "domain_state \<Rightarrow> int" where
  "slot_limit d = max \<lfloor>limit d\<rfloor> 1"

definition admits :: "domain_state \<Rightarrow> instant \<Rightarrow> bool" where
  "admits d now \<longleftrightarrow> blocked_until d \<le> now \<and> int (in_flight d) < slot_limit d"

definition forgettable :: "domain_state \<Rightarrow> rat \<Rightarrow> instant \<Rightarrow> bool" where
  "forgettable d ceil now \<longleftrightarrow>
     in_flight d = 0 \<and> ceil \<le> limit d \<and>
     (last_capacity_failure d \<noteq> None \<longrightarrow> blocked_until d + ESCALATION_RESET_AFTER \<le> now) \<and>
     list_all (\<lambda>(_, t). t + ESCALATION_WINDOW \<le> now) (child_failures d)"

type_synonym domains = "(domain_key \<times> domain_state) list"

record provider_rate_ceilings =
  provider_ceiling :: "str \<Rightarrow> nat option"
  tenant_ceiling :: "str \<Rightarrow> nat option"
  credential_ceiling :: "str \<Rightarrow> nat option"

text \<open>\<open>notifier\<close>: the bounded(1) release channel, \<open>Some True\<close> when a signal is pending.\<close>

record limiter =
  lim_ceiling :: rat
  provider_ceilings :: provider_rate_ceilings
  domains :: domains
  poisoned :: bool
  notifier :: "bool option"

datatype blocked = Until instant | Slot | Unavailable

record admission =
  adm_path :: rate_path
  admitted_at :: instant

definition new_with_provider_ceilings :: "nat \<Rightarrow> provider_rate_ceilings \<Rightarrow> limiter" where
  "new_with_provider_ceilings ceil pc =
     \<lparr>lim_ceiling = of_nat (max ceil 1), provider_ceilings = pc, domains = [],
      poisoned = False, notifier = None\<rparr>"

definition domain_ceiling :: "limiter \<Rightarrow> domain_key \<Rightarrow> rat" where
  "domain_ceiling L k =
     (let configured =
        (case key_level k of
           Provider \<Rightarrow> provider_ceiling (provider_ceilings L) (key_provider k)
         | Tenant \<Rightarrow> tenant_ceiling (provider_ceilings L) (key_provider k)
         | Credential \<Rightarrow> credential_ceiling (provider_ceilings L) (key_provider k)
         | _ \<Rightarrow> None)
      in case configured of
           None \<Rightarrow> lim_ceiling L
         | Some l \<Rightarrow> min (lim_ceiling L) (of_nat (max l 1)))"

text \<open>\<open>get_mut\<close> and a write through the reference.\<close>

definition modify :: "domain_key \<Rightarrow> (domain_state \<Rightarrow> domain_state) \<Rightarrow> domains \<Rightarrow> domains" where
  "modify k f ds = map (\<lambda>(k', d). (k', if k' = k then f d else d)) ds"

text \<open>\<^verbatim>\<open>entry\<close> returns the table and whether it holds the key afterwards.\<close>

definition entry :: "limiter \<Rightarrow> domains \<Rightarrow> domain_key \<Rightarrow> instant \<Rightarrow> domains \<times> bool" where
  "entry L ds k now =
     (if map_of ds k \<noteq> None then (ds, True)
      else
        let ds1 = (if MAX_RATE_DOMAINS \<le> length ds
                   then filter (\<lambda>(k', d). \<not> forgettable d (domain_ceiling L k') now) ds else ds)
        in if MAX_RATE_DOMAINS \<le> length ds1 then (ds1, False)
           else ((k, domain_new (domain_ceiling L k) now) # ds1, True))"

section \<open>Admission and release\<close>

fun admission_scan :: "domains \<Rightarrow> instant \<Rightarrow> domain_key list \<Rightarrow> instant option \<Rightarrow> bool \<Rightarrow> instant option \<times> bool" where
  "admission_scan ds now [] cooling slot_limited = (cooling, slot_limited)"
| "admission_scan ds now (k # ks) cooling slot_limited =
     (case map_of ds k of
        None \<Rightarrow> admission_scan ds now ks cooling slot_limited
      | Some d \<Rightarrow>
          if now < blocked_until d
          then admission_scan ds now ks
                 (Some (case cooling of None \<Rightarrow> blocked_until d | Some u \<Rightarrow> max u (blocked_until d)))
                 slot_limited
          else admission_scan ds now ks cooling (if \<not> admits d now then True else slot_limited))"

fun take_slots :: "limiter \<Rightarrow> instant \<Rightarrow> domain_key list \<Rightarrow> domains \<Rightarrow> domains" where
  "take_slots L now [] ds = ds"
| "take_slots L now (k # ks) ds =
     (let (ds1, ok) = entry L ds k now in
      take_slots L now ks
        (if ok then modify k (\<lambda>d. d\<lparr>in_flight := in_flight d + 1\<rparr>) ds1 else ds1))"

definition try_admit :: "limiter \<Rightarrow> rate_path \<Rightarrow> instant \<Rightarrow> (blocked + admission) \<times> limiter" where
  "try_admit L p now =
     (if poisoned L then (Inl Unavailable, L)
      else case admission_scan (domains L) now (path_all p) None False of
             (Some until, _) \<Rightarrow> (Inl (Until until), L)
           | (None, True) \<Rightarrow> (Inl Slot, L)
           | (None, False) \<Rightarrow>
               (Inr \<lparr>adm_path = p, admitted_at = now\<rparr>,
                L\<lparr>domains := take_slots L now (path_all p) (domains L)\<rparr>))"

fun release_slots :: "limiter \<Rightarrow> instant \<Rightarrow> domain_key list \<Rightarrow> domains \<Rightarrow> domains" where
  "release_slots L now [] ds = ds"
| "release_slots L now (k # ks) ds =
     (case map_of ds k of
        None \<Rightarrow> release_slots L now ks ds
      | Some d \<Rightarrow>
          let d' = d\<lparr>in_flight := in_flight d - 1\<rparr> in
          release_slots L now ks
            (if forgettable d' (domain_ceiling L k) now
             then filter (\<lambda>(k', _). k' \<noteq> k) ds
             else modify k (\<lambda>_. d') ds))"

definition set_release_notifier :: "limiter \<Rightarrow> bool option \<Rightarrow> limiter" where
  "set_release_notifier L n = L\<lparr>notifier := n\<rparr>"

definition release :: "limiter \<Rightarrow> rate_path \<Rightarrow> instant \<Rightarrow> limiter" where
  "release L p now =
     (let L1 = (if poisoned L then L
                else L\<lparr>domains := release_slots L now (path_all p) (domains L)\<rparr>)
      in L1\<lparr>notifier := map_option (\<lambda>_. True) (notifier L1)\<rparr>)"

section \<open>Observations\<close>

definition raise_limit :: "limiter \<Rightarrow> admission \<Rightarrow> instant \<Rightarrow> domain_key \<Rightarrow> domain_state \<Rightarrow> domain_state" where
  "raise_limit L a now k d =
     (if (case last_capacity_failure d of None \<Rightarrow> True | Some failed \<Rightarrow> failed \<le> admitted_at a)
      then (let d1 = d\<lparr>limit := min (f64_round (limit d + 1)) (domain_ceiling L k)\<rparr>
            in if blocked_until d \<le> now then d1\<lparr>consecutive_capacity_failures := 0\<rparr> else d1)
      else d)"

definition observe_success :: "limiter \<Rightarrow> admission \<Rightarrow> instant \<Rightarrow> limiter" where
  "observe_success L a now =
     (if poisoned L then L
      else L\<lparr>domains := fold (\<lambda>k. modify k (raise_limit L a now k)) (path_all (adm_path a)) (domains L)\<rparr>)"

definition penalty_cooldown :: "duration \<Rightarrow> duration \<Rightarrow> 8 word \<Rightarrow> duration" where
  "penalty_cooldown base flr n =
     max (min (duration_saturating_mul base (2 ^ min (unat n) 5)) MAX_COOLDOWN) flr"

definition penalize_domain ::
    "duration \<times> duration \<Rightarrow> instant \<Rightarrow> instant \<Rightarrow> domain_state \<Rightarrow> domain_state" where
  "penalize_domain bf admitted now d =
     (let n = (if blocked_until d + ESCALATION_RESET_AFTER \<le> now then 0
               else consecutive_capacity_failures d);
          lim = (if (case last_capacity_failure d of None \<Rightarrow> True | Some previous \<Rightarrow> previous \<le> admitted)
                 then max (limit d / 2) 1 else limit d);
          cooldown = penalty_cooldown (fst bf) (snd bf) n
      in d\<lparr>limit := lim,
           blocked_until := max (blocked_until d) (now + cooldown),
           consecutive_capacity_failures := saturating_add_u8 n,
           last_capacity_failure := Some now\<rparr>)"

definition penalize ::
    "limiter \<Rightarrow> domains \<Rightarrow> domain_key \<Rightarrow> duration \<times> duration \<Rightarrow> instant \<Rightarrow> instant \<Rightarrow> domains \<times> bool" where
  "penalize L ds k bf admitted now =
     (let (ds1, ok) = entry L ds k now in
      if ok then (modify k (penalize_domain bf admitted now) ds1, True) else (ds1, False))"

text \<open>The throttled child an ancestor at \<open>index\<close> of the lineage remembers.\<close>

definition child_of :: "rate_path \<Rightarrow> domain_key list \<Rightarrow> nat \<Rightarrow> domain_key" where
  "child_of p lineage index =
     (if index = 0
      then \<lparr>key_side = None, key_level = Provider,
            key_scope = key_scope (path_source p ! 0) @
                        [CHR '' '', CHR 0xE2, CHR 0x86, CHR 0x92, CHR '' ''] @
                        key_scope (path_destination p ! 0),
            key_provider = ''global''\<rparr>
      else lineage ! (index + 1))"

definition remember_child :: "domain_key \<Rightarrow> instant \<Rightarrow> domain_state \<Rightarrow> domain_state" where
  "remember_child child now d =
     d\<lparr>child_failures :=
         filter (\<lambda>(k, t). k \<noteq> child \<and> now < t + ESCALATION_WINDOW) (child_failures d) @ [(child, now)]\<rparr>"

definition escalate_ancestor ::
    "limiter \<Rightarrow> admission \<Rightarrow> duration \<times> duration \<Rightarrow> instant \<Rightarrow> domain_key list \<Rightarrow> nat \<Rightarrow>
     domains \<times> domain_key list \<Rightarrow> domains \<times> domain_key list" where
  "escalate_ancestor L a bf now lineage index acc =
     (let (ds, penalized) = acc;
          key = lineage ! index;
          child = child_of (adm_path a) lineage index;
          (ds1, ok) = entry L ds key now
      in if \<not> ok then (ds1, penalized)
         else
           let ds2 = modify key (remember_child child now) ds1;
               n = (case map_of ds2 key of None \<Rightarrow> 0 | Some d \<Rightarrow> length (child_failures d))
           in if ESCALATION_DISTINCT_CHILDREN \<le> n
              then let (ds3, hit) = penalize L ds2 key bf (admitted_at a) now
                   in (ds3, if hit \<and> key \<notin> set penalized then penalized @ [key] else penalized)
              else (ds2, penalized))"

definition observe_side ::
    "limiter \<Rightarrow> admission \<Rightarrow> duration \<times> duration \<Rightarrow> instant \<Rightarrow> side \<Rightarrow>
     domains \<times> domain_key list \<Rightarrow> domains \<times> domain_key list" where
  "observe_side L a bf now s acc =
     (let p = adm_path a;
          lineage = path_global p # path_chain p s;
          mailbox = length lineage - 1;
          (ds1, hit) = penalize L (fst acc) (lineage ! mailbox) bf (admitted_at a) now
      in fold (escalate_ancestor L a bf now lineage) (rev [0..<mailbox])
           (ds1, if hit then snd acc @ [lineage ! mailbox] else snd acc))"

text \<open>The escalation base and the delay the server itself requested.\<close>

definition capacity_delays :: "classified_failure \<Rightarrow> duration \<times> duration" where
  "capacity_delays f =
     (let server_requested = cf_retry_after f in
      (case server_requested of
         Some d \<Rightarrow> d
       | None \<Rightarrow> (case cf_suggested_delay f of Some d \<Rightarrow> d | None \<Rightarrow> DEFAULT_CAPACITY_DELAY),
       case server_requested of Some d \<Rightarrow> d | None \<Rightarrow> 0))"

definition observe_classified_at ::
    "limiter \<Rightarrow> admission \<Rightarrow> classified_failure \<Rightarrow> instant \<Rightarrow> (domain_key \<times> instant) list \<times> limiter" where
  "observe_classified_at L a f now =
     (if cf_sides f = [] \<or> cf_class f \<noteq> Class_Capacity then ([], L)
      else if poisoned L then ([], L)
      else
        let (ds, penalized) =
              fold (observe_side L a (capacity_delays f) now) (cf_sides f) (domains L, [])
        in (List.map_filter (\<lambda>k. map_option (\<lambda>d. (k, blocked_until d)) (map_of ds k)) penalized,
            L\<lparr>domains := ds\<rparr>))"

definition telemetry_snapshot :: "limiter \<Rightarrow> domain_key \<Rightarrow> (nat \<times> nat \<times> 8 word) option" where
  "telemetry_snapshot L k =
     (if poisoned L then None
      else map_option (\<lambda>d. (nat (slot_limit d), nat (max \<lfloor>domain_ceiling L k\<rfloor> 1),
                            consecutive_capacity_failures d)) (map_of (domains L) k))"

section \<open>Rounding\<close>

lemma round_half_even_ge: "of_int n \<le> y \<Longrightarrow> n \<le> round_half_even y"
proof -
  assume "of_int n \<le> y"
  then have "n \<le> \<lfloor>y\<rfloor>" by (simp add: le_floor_iff)
  then show ?thesis by (simp add: round_half_even_def Let_def)
qed

lemma floor_log2_le: "1 \<le> n \<Longrightarrow> 2 ^ floor_log2 n \<le> n"
proof (induction n rule: floor_log2.induct)
  case (1 n)
  show ?case
  proof (cases "n < 2")
    case True
    with 1 show ?thesis by (simp add: floor_log2.simps [of n])
  next
    case False
    with 1 have "2 ^ floor_log2 (n div 2) \<le> n div 2" by simp
    with False show ?thesis by (simp add: floor_log2.simps [of n])
  qed
qed

lemma f64_round_ge_1: "1 \<le> x \<Longrightarrow> 1 \<le> f64_round x"
proof -
  assume x: "1 \<le> x"
  define e where "e = floor_log2 (nat \<lfloor>x\<rfloor>)"
  define s :: rat where "s = 2 ^ 52 / 2 ^ e"
  have s: "0 < s" by (simp add: s_def)
  have "1 \<le> nat \<lfloor>x\<rfloor>" using x by (simp add: le_nat_iff)
  then have "2 ^ e \<le> nat \<lfloor>x\<rfloor>" unfolding e_def by (rule floor_log2_le)
  then have "(2::int) ^ e \<le> \<lfloor>x\<rfloor>" using x by (simp add: le_nat_iff)
  then have ex: "(2::rat) ^ e \<le> x" by (simp add: le_floor_iff)
  have "of_int (2 ^ 52) \<le> x * s"
    using mult_right_mono [OF ex, of s] s by (simp add: s_def)
  then have "(2::int) ^ 52 \<le> round_half_even (x * s)" by (rule round_half_even_ge)
  then have "(of_int (2 ^ 52) :: rat) \<le> of_int (round_half_even (x * s))"
    by (simp only: of_int_le_iff)
  then have "(2::rat) ^ 52 \<le> of_int (round_half_even (x * s))" by simp
  moreover have "s \<le> 2 ^ 52"
    by (simp add: s_def divide_le_eq)
  ultimately have "s \<le> of_int (round_half_even (x * s))" by linarith
  moreover have "f64_round x = of_int (round_half_even (x * s)) / s"
    by (simp add: f64_round_def Let_def s_def e_def)
  ultimately show ?thesis
    using s by (simp add: le_divide_eq)
qed

section \<open>The domain table\<close>

abbreviation limiter_ok :: "limiter \<Rightarrow> bool" where
  "limiter_ok L \<equiv> (\<exists>n::nat. 1 \<le> n \<and> lim_ceiling L = of_nat n)"

definition domain_ok :: "limiter \<Rightarrow> domain_key \<Rightarrow> domain_state \<Rightarrow> bool" where
  "domain_ok L k d \<longleftrightarrow>
     1 \<le> limit d \<and> limit d \<le> domain_ceiling L k \<and> of_nat (in_flight d) \<le> domain_ceiling L k"

definition domains_ok :: "limiter \<Rightarrow> domains \<Rightarrow> bool" where
  "domains_ok L ds \<longleftrightarrow>
     distinct (map fst ds) \<and> length ds \<le> MAX_RATE_DOMAINS \<and>
     (\<forall>k d. map_of ds k = Some d \<longrightarrow> domain_ok L k d)"

definition inflight :: "domains \<Rightarrow> domain_key \<Rightarrow> nat" where
  "inflight ds k = (case map_of ds k of None \<Rightarrow> 0 | Some d \<Rightarrow> in_flight d)"

lemma domain_ceiling_nat:
  "limiter_ok L \<Longrightarrow> \<exists>n::nat. 1 \<le> n \<and> domain_ceiling L k = of_nat n"
proof -
  assume "limiter_ok L"
  then obtain n :: nat where n: "1 \<le> n" "lim_ceiling L = of_nat n" by blast
  obtain c where c: "domain_ceiling L k =
      (case c of None \<Rightarrow> lim_ceiling L | Some l \<Rightarrow> min (lim_ceiling L) (of_nat (max l 1)))"
    by (simp add: domain_ceiling_def Let_def)
  show ?thesis
  proof (cases c)
    case None
    with c n show ?thesis by auto
  next
    case (Some l)
    then have "domain_ceiling L k = of_nat (min n (max l 1))"
      using c n(2) by (simp add: of_nat_min)
    then show ?thesis using n(1) by (intro exI [of _ "min n (max l 1)"]) simp
  qed
qed

lemma domain_ceiling_ge_1: "limiter_ok L \<Longrightarrow> 1 \<le> domain_ceiling L k"
  using domain_ceiling_nat [of L k] by (metis of_nat_1 of_nat_le_iff)

lemma domain_ceiling_cong:
  "lim_ceiling L = lim_ceiling L' \<Longrightarrow> provider_ceilings L = provider_ceilings L' \<Longrightarrow>
   domain_ceiling L = domain_ceiling L'"
  by (rule ext) (auto simp: domain_ceiling_def Let_def split: domain_level.splits option.splits)

lemma domain_ceiling_update [simp]:
  "domain_ceiling (L\<lparr>domains := ds\<rparr>) = domain_ceiling L"
  "domain_ceiling (L\<lparr>notifier := nt\<rparr>) = domain_ceiling L"
  by (rule domain_ceiling_cong; simp)+

lemma domains_ok_update [simp]:
  "domains_ok (L\<lparr>domains := ds\<rparr>) = domains_ok L"
  "domains_ok (L\<lparr>notifier := nt\<rparr>) = domains_ok L"
  by (simp_all add: fun_eq_iff domains_ok_def domain_ok_def)

lemma modify_keys [simp]: "map fst (modify k f ds) = map fst ds"
  by (induction ds) (auto simp: modify_def)

lemma modify_length [simp]: "length (modify k f ds) = length ds"
  by (simp add: modify_def)

lemma map_of_modify:
  "map_of (modify k f ds) k' = (if k' = k then map_option f (map_of ds k) else map_of ds k')"
  by (induction ds) (auto simp: modify_def)

lemma domains_ok_modify:
  assumes "domains_ok L ds" and "\<And>d. map_of ds k = Some d \<Longrightarrow> domain_ok L k d \<Longrightarrow> domain_ok L k (f d)"
  shows "domains_ok L (modify k f ds)"
  using assms by (auto simp: domains_ok_def map_of_modify split: if_splits)

lemma domains_ok_filter:
  "domains_ok L ds \<Longrightarrow> domains_ok L (filter (\<lambda>(k, d). P k d) ds)"
  by (auto simp: domains_ok_def map_of_filter_distinct distinct_fst_filter
      split: option.splits if_splits intro: le_trans [OF length_filter_le])

lemma domain_new_ok: "limiter_ok L \<Longrightarrow> domain_ok L k (domain_new (domain_ceiling L k) now)"
  using domain_ceiling_ge_1 [of L k] by (auto simp: domain_ok_def domain_new_def intro: order_trans)

text \<open>What \<open>entry\<close> does to the table, in one lemma: the key itself, the other keys, the counters.\<close>

lemma entry_key:
  assumes "distinct (map fst ds)" and "entry L ds k now = (ds1, ok)"
  shows "map_of ds1 k = (case map_of ds k of
           Some d \<Rightarrow> Some d | None \<Rightarrow> if ok then Some (domain_new (domain_ceiling L k) now) else None)"
    and "map_of ds k \<noteq> None \<Longrightarrow> ok"
  using assms
  by (auto simp: entry_def Let_def map_of_filter_distinct split: if_splits option.splits)

lemma entry_other:
  assumes "distinct (map fst ds)" and "entry L ds k now = (ds1, ok)" and "k' \<noteq> k"
  shows "map_of ds1 k' = map_of ds k' \<or>
         (map_of ds1 k' = None \<and> (\<exists>d. map_of ds k' = Some d \<and> forgettable d (domain_ceiling L k') now))"
proof -
  let ?f = "filter (\<lambda>(k', d). \<not> forgettable d (domain_ceiling L k') now) ds"
  have "map_of ds1 k' = map_of ds k' \<or> map_of ds1 k' = map_of ?f k'"
    using assms(2,3) by (auto simp: entry_def Let_def split: if_splits)
  then show ?thesis
    using map_of_filter_distinct [OF assms(1), of "\<lambda>k' d. \<not> forgettable d (domain_ceiling L k') now" k']
    by (cases "map_of ds k'") (auto split: if_splits)
qed

lemma entry_inflight:
  assumes "distinct (map fst ds)" and "entry L ds k now = (ds1, ok)"
  shows "inflight ds1 k' = inflight ds k'"
proof (cases "k' = k")
  case True
  then show ?thesis
    using entry_key [OF assms] by (auto simp: inflight_def domain_new_def split: option.splits if_splits)
next
  case False
  then show ?thesis
    using entry_other [OF assms False] by (auto simp: inflight_def forgettable_def)
qed

lemma entry_ok:
  assumes "domains_ok L ds" and "limiter_ok L" and "entry L ds k now = (ds1, ok)"
  shows "domains_ok L ds1"
proof -
  let ?ds1 = "if MAX_RATE_DOMAINS \<le> length ds
              then filter (\<lambda>(k', d). \<not> forgettable d (domain_ceiling L k') now) ds else ds"
  have f: "domains_ok L ?ds1" using domains_ok_filter [OF assms(1)] assms(1) by simp
  show ?thesis
  proof (cases "map_of ds k \<noteq> None \<or> MAX_RATE_DOMAINS \<le> length ?ds1")
    case True
    with assms(1,3) f show ?thesis by (auto simp: entry_def Let_def split: if_splits)
  next
    case False
    then have e: "ds1 = (k, domain_new (domain_ceiling L k) now) # ?ds1"
      using assms(3) by (simp add: entry_def Let_def)
    have "k \<notin> fst ` set ds" using False by (simp add: map_of_eq_None_iff)
    then have "k \<notin> fst ` set ?ds1" by auto
    with False f domain_new_ok [OF assms(2)] show ?thesis
      unfolding e domains_ok_def by auto
  qed
qed

lemma entry_no_prune:
  assumes "length ds < MAX_RATE_DOMAINS" and "entry L ds k now = (ds1, ok)"
  shows "ok \<and> length ds1 \<le> Suc (length ds)"
  using assms by (auto simp: entry_def Let_def split: if_splits)

section \<open>Admission\<close>

fun cooling_ends :: "domains \<Rightarrow> instant \<Rightarrow> domain_key list \<Rightarrow> instant list" where
  "cooling_ends ds now [] = []"
| "cooling_ends ds now (k # ks) =
     (case map_of ds k of
        None \<Rightarrow> cooling_ends ds now ks
      | Some d \<Rightarrow> if now < blocked_until d then blocked_until d # cooling_ends ds now ks
                  else cooling_ends ds now ks)"

lemma set_cooling_ends:
  "set (cooling_ends ds now ks) =
     {blocked_until d | d. \<exists>k \<in> set ks. map_of ds k = Some d \<and> now < blocked_until d}"
proof (induction ks)
  case Nil
  then show ?case by simp
next
  case (Cons k ks)
  then show ?case by (cases "map_of ds k") auto
qed

lemma scan_from_Some:
  "fst (admission_scan ds now ks (Some c) sl) = Some (fold max (cooling_ends ds now ks) c)"
proof (induction ks arbitrary: c sl)
  case Nil
  then show ?case by simp
next
  case (Cons k ks)
  then show ?case by (cases "map_of ds k") (simp_all add: max.commute)
qed

lemma scan_from_None:
  "fst (admission_scan ds now ks None sl) =
     (case cooling_ends ds now ks of [] \<Rightarrow> None | b # bs \<Rightarrow> Some (fold max bs b))"
proof (induction ks arbitrary: sl)
  case Nil
  then show ?case by simp
next
  case (Cons k ks)
  then show ?case by (cases "map_of ds k") (simp_all add: scan_from_Some)
qed

lemma scan_open:
  "admission_scan ds now ks None sl = (None, False) \<Longrightarrow>
     \<not> sl \<and> (\<forall>k \<in> set ks. \<forall>d. map_of ds k = Some d \<longrightarrow> admits d now)"
proof (induction ks arbitrary: sl)
  case Nil
  then show ?case by simp
next
  case (Cons k ks)
  show ?case
  proof (cases "map_of ds k")
    case None
    then have "admission_scan ds now ks None sl = (None, False)" using Cons.prems by simp
    from Cons.IH [OF this] None show ?thesis by simp
  next
    case (Some d)
    have nb: "\<not> now < blocked_until d"
    proof
      assume "now < blocked_until d"
      then have "fst (admission_scan ds now ks (Some (blocked_until d)) sl) = None"
        using Cons.prems Some by simp
      then show False by (simp add: scan_from_Some)
    qed
    then have "admission_scan ds now ks None (if \<not> admits d now then True else sl) = (None, False)"
      using Cons.prems Some by simp
    from Cons.IH [OF this] Some show ?thesis by (auto split: if_splits)
  qed
qed

lemma scan_until:
  assumes "admission_scan ds now ks None sl = (Some u, sl')"
  shows "cooling_ends ds now ks \<noteq> [] \<and> u = Max (set (cooling_ends ds now ks))"
proof -
  have "fst (admission_scan ds now ks None sl) = Some u" using assms by simp
  then obtain b bs where e: "cooling_ends ds now ks = b # bs" "u = fold max bs b"
    unfolding scan_from_None by (auto split: list.splits)
  then show ?thesis by (metis Max.set_eq_fold list.distinct(1))
qed

definition free_slot :: "domains \<Rightarrow> domain_key \<Rightarrow> bool" where
  "free_slot ds k \<longleftrightarrow> (\<forall>d. map_of ds k = Some d \<longrightarrow> int (in_flight d) < slot_limit d)"

lemma slot_limit_le_ceiling:
  assumes "domain_ok L k d" and "limiter_ok L" and "int (in_flight d) < slot_limit d"
  shows "of_nat (in_flight d + 1) \<le> domain_ceiling L k"
proof -
  have "int (in_flight d + 1) \<le> max \<lfloor>limit d\<rfloor> 1" using assms(3) by (simp add: slot_limit_def)
  then have "of_int (int (in_flight d + 1)) \<le> max (of_int \<lfloor>limit d\<rfloor>) (1::rat)"
    by (metis of_int_1 of_int_le_iff of_int_max)
  also have "\<dots> \<le> domain_ceiling L k"
    using assms(1) domain_ceiling_ge_1 [OF assms(2), of k]
    by (auto simp: domain_ok_def intro: order_trans [OF of_int_floor_le])
  finally show ?thesis by simp
qed

lemma take_slots_ok:
  assumes "limiter_ok L"
  shows "domains_ok L ds \<Longrightarrow> distinct ks \<Longrightarrow> (\<forall>k \<in> set ks. free_slot ds k) \<Longrightarrow>
    domains_ok L (take_slots L now ks ds)"
proof (induction ks arbitrary: ds)
  case Nil
  then show ?case by simp
next
  case (Cons k ks)
  obtain ds1 ok where e: "entry L ds k now = (ds1, ok)" by force
  have dst: "distinct (map fst ds)" using Cons.prems by (simp add: domains_ok_def)
  have ok1: "domains_ok L ds1" using entry_ok [OF Cons.prems(1) assms e] .
  have fk: "free_slot ds1 k"
    using Cons.prems(3) entry_key [OF dst e]
    by (auto simp: free_slot_def domain_new_def slot_limit_def split: option.splits if_splits)
  have fo: "free_slot ds1 k'" if "k' \<in> set ks" for k'
  proof -
    have "k' \<noteq> k" using that Cons.prems(2) by auto
    from entry_other [OF dst e this] that Cons.prems(3) show ?thesis by (auto simp: free_slot_def)
  qed
  let ?ds2 = "if ok then modify k (\<lambda>d. d\<lparr>in_flight := in_flight d + 1\<rparr>) ds1 else ds1"
  have "domains_ok L ?ds2"
    using ok1 fk slot_limit_le_ceiling [OF _ assms]
    by (auto intro!: domains_ok_modify simp: free_slot_def domain_ok_def)
  moreover have "\<forall>k' \<in> set ks. free_slot ?ds2 k'"
    using fo Cons.prems(2) by (auto simp: free_slot_def map_of_modify)
  ultimately show ?case
    using Cons.IH Cons.prems(2) by (simp add: e)
qed

lemma take_slots_inflight:
  "distinct (map fst ds) \<Longrightarrow> distinct ks \<Longrightarrow> length ds + length ks \<le> MAX_RATE_DOMAINS \<Longrightarrow>
   inflight (take_slots L now ks ds) k = inflight ds k + (if k \<in> set ks then 1 else 0)"
proof (induction ks arbitrary: ds)
  case Nil
  then show ?case by simp
next
  case (Cons k1 ks)
  obtain ds1 ok where e: "entry L ds k1 now = (ds1, ok)" by force
  have ok: "ok" "length ds1 \<le> Suc (length ds)"
    using entry_no_prune [OF _ e] Cons.prems(3) by auto
  have d1: "distinct (map fst ds1)"
    using e Cons.prems(1) by (auto simp: entry_def Let_def map_of_eq_None_iff distinct_fst_filter split: if_splits)
  let ?ds2 = "modify k1 (\<lambda>d. d\<lparr>in_flight := in_flight d + 1\<rparr>) ds1"
  have "\<exists>d. map_of ds1 k1 = Some d"
    using entry_key [OF Cons.prems(1) e] ok by (auto split: option.splits)
  then have "inflight ?ds2 k = inflight ds1 k + (if k = k1 then 1 else 0)"
    by (auto simp: inflight_def map_of_modify)
  moreover have "inflight (take_slots L now ks ?ds2) k = inflight ?ds2 k + (if k \<in> set ks then 1 else 0)"
    using Cons.IH [of ?ds2] Cons.prems d1 ok by simp
  ultimately show ?case
    using Cons.prems(2) e ok entry_inflight [OF Cons.prems(1) e] by auto
qed

section \<open>Release\<close>

lemma release_slots_ok:
  "domains_ok L ds \<Longrightarrow> domains_ok L (release_slots L now ks ds)"
proof (induction L now ks ds rule: release_slots.induct)
  case (2 L now k ks ds)
  show ?case
  proof (cases "map_of ds k")
    case None
    with 2 show ?thesis by simp
  next
    case (Some d)
    let ?d' = "d\<lparr>in_flight := in_flight d - 1\<rparr>"
    have "domain_ok L k d" using 2(3) Some by (simp add: domains_ok_def)
    moreover have "rat_of_nat (in_flight d - 1) \<le> of_nat (in_flight d)" by simp
    ultimately have "domain_ok L k ?d'"
      unfolding domain_ok_def by (auto intro: order_trans)
    then have m: "domains_ok L (modify k (\<lambda>_. ?d') ds)"
      using 2(3) by (auto intro!: domains_ok_modify)
    have f: "domains_ok L (filter (\<lambda>(k', _). k' \<noteq> k) ds)"
      using domains_ok_filter [OF 2(3), of "\<lambda>k' _. k' \<noteq> k"] by simp
    show ?thesis
    proof (cases "forgettable ?d' (domain_ceiling L k) now")
      case True
      with 2(2) [OF Some refl] f show ?thesis by (simp add: Some Let_def)
    next
      case False
      with 2(2) [OF Some refl] m show ?thesis by (simp add: Some Let_def)
    qed
  qed
qed simp

lemma release_slots_inflight:
  "distinct (map fst ds) \<Longrightarrow> distinct ks \<Longrightarrow>
   inflight (release_slots L now ks ds) k = inflight ds k - (if k \<in> set ks then 1 else 0)"
proof (induction ks arbitrary: ds)
  case Nil
  then show ?case by simp
next
  case (Cons k1 ks)
  show ?case
  proof (cases "map_of ds k1")
    case None
    with Cons show ?thesis by (auto simp: inflight_def)
  next
    case (Some d)
    let ?d' = "d\<lparr>in_flight := in_flight d - 1\<rparr>"
    let ?ds' = "if forgettable ?d' (domain_ceiling L k1) now
                then filter (\<lambda>(k', _). k' \<noteq> k1) ds else modify k1 (\<lambda>_. ?d') ds"
    have "inflight ?ds' k = inflight ds k - (if k = k1 then 1 else 0)"
      using Some Cons.prems(1) map_of_filter_distinct [of ds "\<lambda>k' _. k' \<noteq> k1" k]
      by (auto simp: inflight_def forgettable_def map_of_modify split: option.splits)
    moreover have "distinct (map fst ?ds')"
      using Cons.prems(1) by (simp add: distinct_fst_filter)
    ultimately show ?thesis
      using Cons.IH [of ?ds'] Cons.prems(2) Some by (auto simp: Let_def)
  qed
qed

section \<open>Observations keep the table well formed and the slots counted\<close>

text \<open>A quiet step keeps every limit within its ceiling and changes no in-flight count.\<close>

definition quiet :: "limiter \<Rightarrow> domains \<Rightarrow> domains \<Rightarrow> bool" where
  "quiet L ds ds' \<longleftrightarrow> domains_ok L ds' \<and> inflight ds' = inflight ds"

lemma quiet_trans: "quiet L ds ds1 \<Longrightarrow> quiet L ds1 ds2 \<Longrightarrow> quiet L ds ds2"
  by (simp add: quiet_def)

lemma quiet_entry:
  assumes "domains_ok L ds" and "limiter_ok L" and "entry L ds k now = (ds1, ok)"
  shows "quiet L ds ds1"
  using entry_ok [OF assms] entry_inflight [OF _ assms(3)] assms(1)
  by (auto simp: quiet_def domains_ok_def fun_eq_iff)

lemma quiet_modify:
  assumes "domains_ok L ds" and "\<And>d. domain_ok L k d \<Longrightarrow> domain_ok L k (f d)"
    and "\<And>d. in_flight (f d) = in_flight d"
  shows "quiet L ds (modify k f ds)"
  using assms by (auto simp: quiet_def inflight_def map_of_modify fun_eq_iff
      intro!: domains_ok_modify split: option.splits)

lemma raise_limit_ok:
  assumes "limiter_ok L" and "domain_ok L k d"
  shows "domain_ok L k (raise_limit L a now k d)" "in_flight (raise_limit L a now k d) = in_flight d"
proof -
  have "1 \<le> f64_round (limit d + 1)"
    using assms(2) by (intro f64_round_ge_1) (simp add: domain_ok_def)
  then show "domain_ok L k (raise_limit L a now k d)"
    using assms domain_ceiling_ge_1 [OF assms(1), of k]
    by (auto simp: raise_limit_def domain_ok_def Let_def split: option.splits)
qed (simp add: raise_limit_def Let_def split: option.splits)

lemma raise_limit_in_flight: "in_flight (raise_limit L a now k d) = in_flight d"
  by (simp add: raise_limit_def Let_def split: option.splits)

lemma penalize_domain_ok:
  assumes "domain_ok L k d"
  shows "domain_ok L k (penalize_domain bf adm now d)"
  using assms by (auto simp: penalize_domain_def domain_ok_def Let_def split: option.splits)

lemma penalize_domain_in_flight [simp]: "in_flight (penalize_domain bf adm now d) = in_flight d"
  by (simp add: penalize_domain_def Let_def)

lemma remember_child_in_flight [simp]: "in_flight (remember_child c now d) = in_flight d"
  by (simp add: remember_child_def)

lemma remember_child_ok: "domain_ok L k d \<Longrightarrow> domain_ok L k (remember_child c now d)"
  by (simp add: remember_child_def domain_ok_def)

lemma quiet_penalize:
  assumes "domains_ok L ds" and "limiter_ok L"
  shows "quiet L ds (fst (penalize L ds k bf adm now))"
proof -
  obtain ds1 ok where e: "entry L ds k now = (ds1, ok)" by force
  have q: "quiet L ds ds1" using assms e by (rule quiet_entry)
  then have "quiet L ds1 (modify k (penalize_domain bf adm now) ds1)"
    by (intro quiet_modify) (auto simp: quiet_def penalize_domain_ok)
  with q show ?thesis by (auto simp: penalize_def e intro: quiet_trans)
qed

lemma quiet_escalate:
  assumes "domains_ok L ds" and "limiter_ok L"
  shows "quiet L ds (fst (escalate_ancestor L a bf now lineage i (ds, pen)))"
proof -
  let ?k = "lineage ! i"
  obtain ds1 ok where e: "entry L ds ?k now = (ds1, ok)" by force
  have q1: "quiet L ds ds1" using assms e by (rule quiet_entry)
  let ?ds2 = "modify ?k (remember_child (child_of (adm_path a) lineage i) now) ds1"
  have q2: "quiet L ds1 ?ds2"
    using q1 by (intro quiet_modify) (auto simp: quiet_def remember_child_ok)
  have q3: "quiet L ?ds2 (fst (penalize L ?ds2 ?k bf (admitted_at a) now))"
    using q2 assms(2) by (intro quiet_penalize) (auto simp: quiet_def)
  show ?thesis
    using q1 q2 q3 by (auto simp: escalate_ancestor_def e Let_def split: prod.splits if_splits
        intro: quiet_trans)
qed

lemma quiet_escalate_fold:
  assumes "limiter_ok L"
  shows "domains_ok L (fst acc) \<Longrightarrow>
    quiet L (fst acc) (fst (fold (escalate_ancestor L a bf now lineage) idxs acc))"
proof (induction idxs arbitrary: acc)
  case Nil
  then show ?case by (simp add: quiet_def)
next
  case (Cons i idxs)
  have q: "quiet L (fst acc) (fst (escalate_ancestor L a bf now lineage i acc))"
    using quiet_escalate [OF Cons.prems assms, of a bf now lineage i "snd acc"] by simp
  then have "domains_ok L (fst (escalate_ancestor L a bf now lineage i acc))"
    by (simp add: quiet_def)
  from Cons.IH [OF this] q show ?case by (auto intro: quiet_trans)
qed

lemma quiet_observe_side:
  assumes "limiter_ok L" and "domains_ok L (fst acc)"
  shows "quiet L (fst acc) (fst (observe_side L a bf now s acc))"
proof -
  let ?lin = "path_global (adm_path a) # path_chain (adm_path a) s"
  let ?k = "?lin ! (length ?lin - 1)"
  obtain ds1 hit where p: "penalize L (fst acc) ?k bf (admitted_at a) now = (ds1, hit)" by force
  have q: "quiet L (fst acc) ds1"
    using quiet_penalize [OF assms(2,1), of ?k bf "admitted_at a" now] unfolding p by simp
  then have "domains_ok L ds1" by (simp add: quiet_def)
  then have "quiet L ds1 (fst (fold (escalate_ancestor L a bf now ?lin) (rev [0..<length ?lin - 1])
      (ds1, if hit then snd acc @ [?k] else snd acc)))"
    using quiet_escalate_fold [OF assms(1), of "(ds1, if hit then snd acc @ [?k] else snd acc)"] by simp
  with q show ?thesis
    unfolding observe_side_def Let_def p by (auto intro: quiet_trans)
qed

lemma quiet_observe_fold:
  assumes "limiter_ok L"
  shows "domains_ok L (fst acc) \<Longrightarrow>
    quiet L (fst acc) (fst (fold (observe_side L a bf now) ss acc))"
proof (induction ss arbitrary: acc)
  case Nil
  then show ?case by (simp add: quiet_def)
next
  case (Cons s ss)
  have q: "quiet L (fst acc) (fst (observe_side L a bf now s acc))"
    using quiet_observe_side [OF assms Cons.prems] .
  then have "domains_ok L (fst (observe_side L a bf now s acc))" by (simp add: quiet_def)
  from Cons.IH [OF this] q show ?case by (auto intro: quiet_trans)
qed

lemma quiet_success_fold:
  assumes "limiter_ok L"
  shows "domains_ok L ds \<Longrightarrow> quiet L ds (fold (\<lambda>k. modify k (raise_limit L a now k)) ks ds)"
proof (induction ks arbitrary: ds)
  case Nil
  then show ?case by (simp add: quiet_def)
next
  case (Cons k ks)
  have q: "quiet L ds (modify k (raise_limit L a now k) ds)"
    using Cons.prems raise_limit_ok(1) [OF assms] raise_limit_in_flight by (rule quiet_modify)
  then have "domains_ok L (modify k (raise_limit L a now k) ds)" by (simp add: quiet_def)
  from Cons.IH [OF this] q show ?case by (auto intro: quiet_trans)
qed

end
