(* ===== verification/Rate_Limiter.thy ===== *)
theory Rate_Limiter
  imports Rate_Domains
begin

text \<open>
  The limiter as its clients see it. The locale \<open>slot_counter\<close> is the interface the batch scheduler
  relies on: an admission takes one slot in every domain it covers, dropping it gives the slots
  back, observations change no slot, and no domain is filled beyond its cap. The interpretation on
  \<open>try_admit\<close>, \<open>release\<close> and the observations discharges these laws, and the properties of whole runs
  (any interleaving of admissions, drops and observations at any times) rest on the locale's lemmas.
\<close>

section \<open>The interface\<close>

locale slot_counter =
  fixes admit :: "'l \<Rightarrow> 'p \<Rightarrow> instant \<Rightarrow> ('b + 'a) \<times> 'l"
    and drop_admission :: "'l \<Rightarrow> 'a \<Rightarrow> instant \<Rightarrow> 'l"
    and observe :: "'l \<Rightarrow> 'l \<Rightarrow> bool"
    and room :: "'l \<Rightarrow> 'p \<Rightarrow> bool"
    and covers :: "'a \<Rightarrow> 'k \<Rightarrow> bool"
    and held_ok :: "'a \<Rightarrow> bool"
    and used :: "'l \<Rightarrow> 'k \<Rightarrow> nat"
    and cap :: "'l \<Rightarrow> 'k \<Rightarrow> nat"
    and inv :: "'l \<Rightarrow> bool"
  assumes admit_ok: "inv l \<Longrightarrow> room l p \<Longrightarrow> admit l p now = (Inr a, l') \<Longrightarrow>
        inv l' \<and> held_ok a \<and> cap l' = cap l \<and>
        (\<forall>k. used l' k = used l k + (if covers a k then 1 else 0))"
    and admit_refused: "admit l p now = (Inl b, l') \<Longrightarrow> l' = l"
    and drop_ok: "inv l \<Longrightarrow> held_ok a \<Longrightarrow>
        inv (drop_admission l a now) \<and> cap (drop_admission l a now) = cap l \<and>
        (\<forall>k. used (drop_admission l a now) k = used l k - (if covers a k then 1 else 0))"
    and observe_ok: "inv l \<Longrightarrow> observe l l' \<Longrightarrow> inv l' \<and> cap l' = cap l \<and> used l' = used l"
    and used_le_cap: "inv l \<Longrightarrow> used l k \<le> cap l k"
begin

definition counted :: "'l \<Rightarrow> 'a list \<Rightarrow> bool" where
  "counted l H \<longleftrightarrow>
     inv l \<and> (\<forall>a \<in> set H. held_ok a) \<and> (\<forall>k. used l k = length (filter (\<lambda>a. covers a k) H))"

lemma counted_admit:
  assumes "counted l H" and "room l p" and "admit l p now = (Inr a, l')"
  shows "counted l' (a # H) \<and> cap l' = cap l"
  using assms admit_ok [OF _ assms(2,3)] by (auto simp: counted_def)

lemma counted_drop:
  assumes "counted l (H1 @ a # H2)"
  shows "counted (drop_admission l a now) (H1 @ H2) \<and> cap (drop_admission l a now) = cap l"
  using assms drop_ok [of l a now] by (auto simp: counted_def)

lemma counted_observe:
  assumes "counted l H" and "observe l l'"
  shows "counted l' H \<and> cap l' = cap l"
  using assms observe_ok [OF _ assms(2)] by (auto simp: counted_def)

lemma counted_bound: "counted l H \<Longrightarrow> length (filter (\<lambda>a. covers a k) H) \<le> cap l k"
  using used_le_cap [of l k] by (simp add: counted_def)

end

section \<open>The limiter provides it\<close>

definition wf_path :: "rate_path \<Rightarrow> bool" where
  "wf_path p \<longleftrightarrow> distinct (path_all p) \<and> length (path_source p) = 4 \<and> length (path_destination p) = 4"

definition limiter_inv :: "limiter \<Rightarrow> bool" where
  "limiter_inv L \<longleftrightarrow> limiter_ok L \<and> domains_ok L (domains L)"

definition has_room :: "limiter \<Rightarrow> rate_path \<Rightarrow> bool" where
  "has_room L p \<longleftrightarrow> wf_path p \<and> length (domains L) + length (path_all p) \<le> MAX_RATE_DOMAINS"

definition domain_cap :: "limiter \<Rightarrow> domain_key \<Rightarrow> nat" where
  "domain_cap L k = nat \<lfloor>domain_ceiling L k\<rfloor>"

text \<open>A success or a failure observed for some attempt.\<close>

inductive observes :: "limiter \<Rightarrow> limiter \<Rightarrow> bool" where
  success: "observes L (observe_success L a now)"
| failure: "observes L (snd (observe_classified_at L a f now))"

inductive_cases observesE: "observes L L'"

lemma path_new_wf: "wf_path (path_new lower s d)"
  by (auto simp: wf_path_def path_all_def path_new_def side_chain_def Let_def)

lemma try_admit_cases:
  obtains (unavailable) "poisoned L" "try_admit L p now = (Inl Unavailable, L)"
  | (cooling) u where "\<not> poisoned L" "try_admit L p now = (Inl (Until u), L)"
      "cooling_ends (domains L) now (path_all p) \<noteq> []"
      "u = Max (set (cooling_ends (domains L) now (path_all p)))"
  | (slot) "\<not> poisoned L" "try_admit L p now = (Inl Slot, L)"
  | (admitted) "\<not> poisoned L"
      "try_admit L p now = (Inr \<lparr>adm_path = p, admitted_at = now\<rparr>,
         L\<lparr>domains := take_slots L now (path_all p) (domains L)\<rparr>)"
      "\<forall>k \<in> set (path_all p). \<forall>d. map_of (domains L) k = Some d \<longrightarrow> admits d now"
proof (cases "poisoned L")
  case True
  then show thesis using unavailable by (simp add: try_admit_def)
next
  case False
  obtain c sl where sc: "admission_scan (domains L) now (path_all p) None False = (c, sl)" by force
  show thesis
  proof (cases c)
    case (Some u)
    then show thesis using cooling [of u] False sc scan_until by (simp add: try_admit_def)
  next
    case None
    show thesis
    proof (cases sl)
      case True
      then show thesis using slot False sc None by (simp add: try_admit_def)
    next
      case nsl: False
      then show thesis
        using admitted False sc None scan_open [of "domains L" now "path_all p" False]
        by (simp add: try_admit_def)
    qed
  qed
qed

lemma try_admit_refused: "try_admit L p now = (Inl b, L') \<Longrightarrow> L' = L"
  by (cases rule: try_admit_cases [where L = L and p = p and now = now]) auto

lemma admits_free_slot: "admits d now \<Longrightarrow> int (in_flight d) < slot_limit d"
  by (simp add: admits_def)

lemma try_admit_inv:
  assumes "limiter_inv L" and "wf_path p" and "try_admit L p now = (r, L')"
  shows "limiter_inv L' \<and> domain_ceiling L' = domain_ceiling L"
proof (cases rule: try_admit_cases [where L = L and p = p and now = now])
  case admitted
  have ok: "limiter_ok L" "domains_ok L (domains L)" using assms(1) by (simp_all add: limiter_inv_def)
  have "\<forall>k \<in> set (path_all p). free_slot (domains L) k"
    using admitted(3) by (auto simp: free_slot_def admits_free_slot)
  then have "domains_ok L (take_slots L now (path_all p) (domains L))"
    using take_slots_ok [OF ok(1,2)] assms(2) by (simp add: wf_path_def)
  with ok admitted(2) assms(3) show ?thesis by (auto simp: limiter_inv_def)
qed (use assms in auto)

lemma try_admit_used:
  assumes "limiter_inv L" and "has_room L p" and "try_admit L p now = (Inr a, L')"
  shows "inflight (domains L') k = inflight (domains L) k + (if k \<in> set (path_all (adm_path a)) then 1 else 0)"
    and "adm_path a = p"
proof -
  have "distinct (map fst (domains L))" using assms(1) by (simp add: limiter_inv_def domains_ok_def)
  then show "inflight (domains L') k = inflight (domains L) k + (if k \<in> set (path_all (adm_path a)) then 1 else 0)"
    using assms take_slots_inflight [of "domains L" "path_all p" L now k]
    by (cases rule: try_admit_cases [where L = L and p = p and now = now]) (auto simp: has_room_def wf_path_def)
  show "adm_path a = p"
    using assms(3) by (cases rule: try_admit_cases [where L = L and p = p and now = now]) auto
qed

lemma release_inv:
  assumes "limiter_inv L"
  shows "limiter_inv (release L p now) \<and> domain_ceiling (release L p now) = domain_ceiling L"
  using assms release_slots_ok [of L "domains L" now "path_all p"]
  by (simp add: release_def limiter_inv_def Let_def)

lemma release_used:
  assumes "limiter_inv L" and "wf_path p" and "\<not> poisoned L"
  shows "inflight (domains (release L p now)) k =
         inflight (domains L) k - (if k \<in> set (path_all p) then 1 else 0)"
  using assms release_slots_inflight [of "domains L" "path_all p" L now k]
  by (simp add: release_def limiter_inv_def domains_ok_def wf_path_def Let_def)

lemma observes_ok:
  assumes "limiter_inv L" and "observes L L'"
  shows "limiter_inv L' \<and> domain_ceiling L' = domain_ceiling L \<and>
         inflight (domains L') = inflight (domains L) \<and> poisoned L' = poisoned L"
  using assms(2)
proof (cases rule: observes.cases)
  case (success a now)
  have "quiet L (domains L) (fold (\<lambda>k. modify k (raise_limit L a now k)) (path_all (adm_path a)) (domains L))"
    using assms(1) by (intro quiet_success_fold) (auto simp: limiter_inv_def)
  with assms(1) success show ?thesis
    by (auto simp: observe_success_def limiter_inv_def quiet_def)
next
  case (failure a f now)
  have q: "quiet L (domains L) ds"
    if "fold (observe_side L a (capacity_delays f) now) (cf_sides f) (domains L, []) = (ds, pen)" for ds pen
    using quiet_observe_fold [of L "(domains L, [])" a "capacity_delays f" now "cf_sides f"] that assms(1)
    by (auto simp: limiter_inv_def)
  show ?thesis
    unfolding failure observe_classified_at_def Let_def
    using assms(1) q by (auto simp: limiter_inv_def quiet_def split: prod.splits)
qed

lemma inflight_le_cap:
  assumes "limiter_inv L"
  shows "inflight (domains L) k \<le> domain_cap L k"
proof -
  have ok: "limiter_ok L" "domains_ok L (domains L)" using assms by (simp_all add: limiter_inv_def)
  obtain n :: nat where n: "domain_ceiling L k = of_nat n" using domain_ceiling_nat [OF ok(1)] by blast
  show ?thesis
  proof (cases "map_of (domains L) k")
    case None
    then show ?thesis by (simp add: inflight_def)
  next
    case (Some d)
    then have "domain_ok L k d" using ok(2) unfolding domains_ok_def by blast
    then have "rat_of_nat (in_flight d) \<le> of_nat n" using n by (simp add: domain_ok_def)
    with Some n show ?thesis by (simp add: inflight_def domain_cap_def)
  qed
qed

lemma domain_cap_cong: "domain_ceiling L' = domain_ceiling L \<Longrightarrow> domain_cap L' = domain_cap L"
  by (simp add: domain_cap_def fun_eq_iff)

lemma release_poisoned [simp]: "poisoned (release L p now) = poisoned L"
  by (simp add: release_def Let_def)

lemma try_admit_not_poisoned: "try_admit L p now = (Inr a, L') \<Longrightarrow> \<not> poisoned L \<and> \<not> poisoned L'"
  by (cases rule: try_admit_cases [where L = L and p = p and now = now]) auto

interpretation lim: slot_counter
  try_admit "\<lambda>L a now. release L (adm_path a) now" observes has_room
  "\<lambda>a k. k \<in> set (path_all (adm_path a))" "\<lambda>a. wf_path (adm_path a)"
  "\<lambda>L. inflight (domains L)" domain_cap "\<lambda>L. limiter_inv L \<and> \<not> poisoned L"
proof
  fix L p now a L'
  assume "limiter_inv L \<and> \<not> poisoned L" "has_room L p" "try_admit L p now = (Inr a, L')"
  then show "(limiter_inv L' \<and> \<not> poisoned L') \<and> wf_path (adm_path a) \<and> domain_cap L' = domain_cap L \<and>
      (\<forall>k. inflight (domains L') k = inflight (domains L) k + (if k \<in> set (path_all (adm_path a)) then 1 else 0))"
    using try_admit_inv [of L p now] try_admit_used [of L p now a L'] try_admit_not_poisoned
    by (auto simp: has_room_def intro: domain_cap_cong)
next
  fix L a now
  assume "limiter_inv L \<and> \<not> poisoned L" "wf_path (adm_path a)"
  then show "(limiter_inv (release L (adm_path a) now) \<and> \<not> poisoned (release L (adm_path a) now)) \<and>
      domain_cap (release L (adm_path a) now) = domain_cap L \<and>
      (\<forall>k. inflight (domains (release L (adm_path a) now)) k =
           inflight (domains L) k - (if k \<in> set (path_all (adm_path a)) then 1 else 0))"
    using release_inv [of L "adm_path a" now] release_used [of L "adm_path a" now]
    by (auto intro: domain_cap_cong)
next
  fix L L'
  assume "limiter_inv L \<and> \<not> poisoned L" "observes L L'"
  then show "(limiter_inv L' \<and> \<not> poisoned L') \<and> domain_cap L' = domain_cap L \<and>
      inflight (domains L') = inflight (domains L)"
    using observes_ok [of L L'] by (auto intro: domain_cap_cong)
qed (auto dest: try_admit_refused intro: inflight_le_cap)

section \<open>Runs\<close>

text \<open>
  A run of the limiter with the admissions currently held: any admission attempts (a granted one
  while the table has room for its path), drops of held admissions and observations, in any order
  and at any instants.
\<close>

inductive limiter_run :: "limiter \<Rightarrow> limiter \<Rightarrow> admission list \<Rightarrow> bool" for L0 where
  start: "limiter_run L0 L0 []"
| granted: "limiter_run L0 L H \<Longrightarrow> has_room L p \<Longrightarrow> try_admit L p now = (Inr a, L') \<Longrightarrow>
     limiter_run L0 L' (a # H)"
| refused: "limiter_run L0 L H \<Longrightarrow> try_admit L p now = (Inl b, L') \<Longrightarrow> limiter_run L0 L' H"
| dropped: "limiter_run L0 L (H1 @ a # H2) \<Longrightarrow>
     limiter_run L0 (release L (adm_path a) now) (H1 @ H2)"
| observed: "limiter_run L0 L H \<Longrightarrow> observes L L' \<Longrightarrow> limiter_run L0 L' H"

lemma new_limiter_inv: "limiter_inv (new_with_provider_ceilings c pc) \<and> \<not> poisoned (new_with_provider_ceilings c pc)"
  by (auto simp: limiter_inv_def new_with_provider_ceilings_def domains_ok_def intro!: exI [of _ "max c 1"])

lemma limiter_run_counted:
  assumes "limiter_run (new_with_provider_ceilings c pc) L H"
  shows "lim.counted L H \<and> domain_cap L = domain_cap (new_with_provider_ceilings c pc)"
  using assms
proof (induction rule: limiter_run.induct)
  case start
  have "inflight (domains (new_with_provider_ceilings c pc)) k = 0" for k
    by (simp add: new_with_provider_ceilings_def inflight_def)
  then show ?case using new_limiter_inv by (simp add: lim.counted_def)
next
  case (granted L H p now a L')
  then show ?case using lim.counted_admit [of L H p now a L'] by simp
next
  case (refused L H p now b L')
  then show ?case using try_admit_refused by blast
next
  case (dropped L H1 a H2 now)
  then show ?case using lim.counted_drop [of L H1 a H2 now] by simp
next
  case (observed L H L')
  then show ?case using lim.counted_observe [of L H L'] by simp
qed

lemma limiter_run_inv:
  assumes "limiter_run (new_with_provider_ceilings c pc) L H"
  shows "limiter_inv L \<and> \<not> poisoned L \<and> distinct (map fst (domains L))"
proof -
  have "limiter_inv L \<and> \<not> poisoned L" using limiter_run_counted [OF assms] unfolding lim.counted_def by blast
  then show ?thesis by (simp add: limiter_inv_def domains_ok_def)
qed

section \<open>What a capacity failure does to the domains\<close>

text \<open>
  A held admission keeps every domain of its path in the table, so an observation made for it finds
  them all and the table is updated in place.
\<close>

definition tracked :: "domains \<Rightarrow> rate_path \<Rightarrow> bool" where
  "tracked ds p \<longleftrightarrow> (\<forall>k \<in> set (path_all p). map_of ds k \<noteq> None)"

lemma held_tracked:
  assumes "limiter_run (new_with_provider_ceilings c pc) L H" and "a \<in> set H"
  shows "tracked (domains L) (adm_path a) \<and> wf_path (adm_path a) \<and> \<not> poisoned L"
proof -
  have ct: "lim.counted L H" using limiter_run_counted [OF assms(1)] by simp
  have "map_of (domains L) k \<noteq> None" if "k \<in> set (path_all (adm_path a))" for k
  proof -
    have "a \<in> set (filter (\<lambda>a. k \<in> set (path_all (adm_path a))) H)" using that assms(2) by simp
    then have "0 < length (filter (\<lambda>a. k \<in> set (path_all (adm_path a))) H)"
      by (rule length_pos_if_in_set)
    then have "0 < inflight (domains L) k" using ct by (simp add: lim.counted_def)
    then show ?thesis by (cases "map_of (domains L) k") (auto simp: inflight_def)
  qed
  with ct assms(2) show ?thesis by (auto simp: tracked_def lim.counted_def)
qed

lemma entry_tracked: "map_of ds k \<noteq> None \<Longrightarrow> entry L ds k now = (ds, True)"
  by (simp add: entry_def)

lemma tracked_modify [simp]: "tracked (modify k f ds) p \<longleftrightarrow> tracked ds p"
  by (auto simp: tracked_def map_of_modify)

definition ancestor_update ::
    "duration \<times> duration \<Rightarrow> instant \<Rightarrow> instant \<Rightarrow> domain_key \<Rightarrow> domain_state \<Rightarrow> domain_state" where
  "ancestor_update bf adm now child d =
     (let d2 = remember_child child now d in
      if ESCALATION_DISTINCT_CHILDREN \<le> length (child_failures d2)
      then penalize_domain bf adm now d2 else d2)"

lemma modify_cong:
  "(\<And>d. map_of ds k = Some d \<Longrightarrow> f d = g d) \<Longrightarrow> distinct (map fst ds) \<Longrightarrow> modify k f ds = modify k g ds"
  by (auto simp: modify_def intro!: map_cong)

lemma modify_modify [simp]: "modify k g (modify k f ds) = modify k (\<lambda>d. g (f d)) ds"
  by (auto simp: modify_def)

lemma escalate_tracked:
  assumes "distinct (map fst ds)" and "map_of ds (lineage ! i) \<noteq> None"
  shows "fst (escalate_ancestor L a bf now lineage i (ds, pen)) =
    modify (lineage ! i) (ancestor_update bf (admitted_at a) now (child_of (adm_path a) lineage i)) ds"
proof -
  let ?k = "lineage ! i" and ?c = "child_of (adm_path a) lineage i"
  obtain d where d: "map_of ds ?k = Some d" using assms(2) by blast
  let ?ds2 = "modify ?k (remember_child ?c now) ds"
  have m2: "map_of ?ds2 ?k = Some (remember_child ?c now d)" by (simp add: map_of_modify d)
  have pen: "penalize L ?ds2 ?k bf (admitted_at a) now =
      (modify ?k (penalize_domain bf (admitted_at a) now) ?ds2, True)"
    by (simp add: penalize_def entry_tracked m2)
  show ?thesis
  proof (cases "ESCALATION_DISTINCT_CHILDREN \<le> length (child_failures (remember_child ?c now d))")
    case True
    then have "fst (escalate_ancestor L a bf now lineage i (ds, pen)) =
        modify ?k (penalize_domain bf (admitted_at a) now) ?ds2"
      unfolding escalate_ancestor_def Let_def by (simp add: entry_tracked d m2 pen del: modify_modify)
    also have "\<dots> = modify ?k (ancestor_update bf (admitted_at a) now ?c) ds"
      unfolding modify_modify using True d assms(1)
      by (intro modify_cong) (auto simp: ancestor_update_def Let_def)
    finally show ?thesis .
  next
    case False
    then have "fst (escalate_ancestor L a bf now lineage i (ds, pen)) = ?ds2"
      unfolding escalate_ancestor_def Let_def by (simp add: entry_tracked d m2)
    also have "\<dots> = modify ?k (ancestor_update bf (admitted_at a) now ?c) ds"
      using False d assms(1) by (intro modify_cong) (auto simp: ancestor_update_def Let_def)
    finally show ?thesis .
  qed
qed

definition lineage_of :: "rate_path \<Rightarrow> side \<Rightarrow> domain_key list" where
  "lineage_of p s = path_global p # path_chain p s"

lemma lineage_in_path: "k \<in> set (lineage_of p s) \<Longrightarrow> k \<in> set (path_all p)"
  by (cases s) (auto simp: lineage_of_def path_all_def path_chain_def)

lemma lineage_length: "wf_path p \<Longrightarrow> length (lineage_of p s) = 5"
  by (cases s) (simp_all add: wf_path_def lineage_of_def path_chain_def)

lemma lineage_distinct: "wf_path p \<Longrightarrow> distinct (lineage_of p s)"
  by (cases s) (auto simp: wf_path_def lineage_of_def path_chain_def path_all_def)

abbreviation mailbox_update where
  "mailbox_update bf a now \<equiv> penalize_domain bf (admitted_at a) now"

lemma escalate_fold_tracked:
  assumes "distinct (map fst ds)" and "\<And>i. i \<in> set idxs \<Longrightarrow> map_of ds (lineage ! i) \<noteq> None"
  shows "fst (fold (escalate_ancestor L a bf now lineage) idxs (ds, pen)) =
    fold (\<lambda>i. modify (lineage ! i)
            (ancestor_update bf (admitted_at a) now (child_of (adm_path a) lineage i))) idxs ds"
  using assms
proof (induction idxs arbitrary: ds pen)
  case Nil
  then show ?case by simp
next
  case (Cons i idxs)
  let ?ds1 = "modify (lineage ! i)
      (ancestor_update bf (admitted_at a) now (child_of (adm_path a) lineage i)) ds"
  obtain pen1 where e: "escalate_ancestor L a bf now lineage i (ds, pen) = (?ds1, pen1)"
    using escalate_tracked [of ds lineage i L a bf now pen] Cons.prems by (metis list.set_intros(1) prod.collapse)
  have "map_of ?ds1 (lineage ! j) \<noteq> None" if "j \<in> set idxs" for j
    using Cons.prems(2) that by (auto simp: map_of_modify)
  then show ?case
    using Cons.IH [of ?ds1 pen1] Cons.prems(1) by (simp add: e)
qed

lemma map_of_fold_modify:
  "distinct (map key idxs) \<Longrightarrow>
   map_of (fold (\<lambda>i. modify (key i) (f i)) idxs ds) k =
     (case find (\<lambda>i. key i = k) idxs of None \<Rightarrow> map_of ds k | Some i \<Rightarrow> map_option (f i) (map_of ds k))"
proof (induction idxs arbitrary: ds)
  case Nil
  then show ?case by simp
next
  case (Cons i idxs)
  have "find (\<lambda>j. key j = k) idxs = None" if "key i = k"
    using Cons.prems that by (auto simp: find_None_iff image_iff)
  with Cons show ?case by (auto simp: map_of_modify split: option.splits)
qed

lemma observe_side_domains:
  assumes "distinct (map fst ds)" and "tracked ds (adm_path a)" and "wf_path (adm_path a)"
  shows "fst (observe_side L a bf now s (ds, pen)) =
    fold (\<lambda>i. modify (lineage_of (adm_path a) s ! i)
            (ancestor_update bf (admitted_at a) now
              (child_of (adm_path a) (lineage_of (adm_path a) s) i))) (rev [0..<4])
      (modify (lineage_of (adm_path a) s ! 4) (mailbox_update bf a now) ds)"
proof -
  let ?p = "adm_path a" and ?lin = "lineage_of (adm_path a) s"
  have len: "length ?lin = 5" using assms(3) by (rule lineage_length)
  have tr: "map_of ds (?lin ! i) \<noteq> None" if "i < 5" for i
    using assms(2) lineage_in_path [of "?lin ! i" ?p s] that len by (auto simp: tracked_def)
  have pen: "penalize L ds (?lin ! 4) bf (admitted_at a) now =
      (modify (?lin ! 4) (mailbox_update bf a now) ds, True)"
    using tr [of 4] by (simp add: penalize_def entry_tracked)
  have o: "observe_side L a bf now s (ds, pen) =
      fold (escalate_ancestor L a bf now ?lin) (rev [0..<4])
        (modify (?lin ! 4) (mailbox_update bf a now) ds, pen @ [?lin ! 4])"
    unfolding observe_side_def Let_def lineage_of_def [symmetric] len fst_conv snd_conv
    by (simp add: pen)
  show ?thesis
    unfolding o
    by (rule escalate_fold_tracked) (use assms(1) tr in \<open>auto simp: map_of_modify\<close>)
qed

lemma find_index:
  "i < n \<Longrightarrow> distinct (map key (rev [0..<n])) \<Longrightarrow> find (\<lambda>j. key j = key i) (rev [0..<n]) = Some i"
proof -
  assume i: "i < n" and d: "distinct (map key (rev [0..<n]))"
  then have "find (\<lambda>j. key j = key i) (rev [0..<n]) \<noteq> None" by (auto simp: find_None_iff)
  then obtain j where f: "find (\<lambda>j. key j = key i) (rev [0..<n]) = Some j" by blast
  then have "j < n" "key j = key i" by (auto simp: find_Some_iff rev_nth)
  with i d have "j = i" by (auto simp: distinct_map inj_on_def)
  with f show ?thesis by simp
qed

lemma lineage_keys_distinct:
  assumes "wf_path p"
  shows "distinct (map ((!) (lineage_of p s)) (rev [0..<4]))"
    and "i < 4 \<Longrightarrow> lineage_of p s ! i \<noteq> lineage_of p s ! 4"
proof -
  have d: "distinct (lineage_of p s)" and n: "length (lineage_of p s) = 5"
    using lineage_distinct [OF assms] lineage_length [OF assms] by auto
  have "inj_on ((!) (lineage_of p s)) {..<4}"
    using nth_eq_iff_index_eq [OF d] n by (intro inj_onI) auto
  then show "distinct (map ((!) (lineage_of p s)) (rev [0..<4]))"
    by (simp only: distinct_map distinct_rev distinct_upt set_rev set_upt atLeast0LessThan simp_thms)
  show "i < 4 \<Longrightarrow> lineage_of p s ! i \<noteq> lineage_of p s ! 4"
    using nth_eq_iff_index_eq [OF d] n by auto
qed

lemma observe_side_other:
  assumes "distinct (map fst ds)" and "tracked ds (adm_path a)" and "wf_path (adm_path a)"
    and "k \<notin> set (lineage_of (adm_path a) s)"
  shows "map_of (fst (observe_side L a bf now s (ds, pen))) k = map_of ds k"
proof -
  have len: "length (lineage_of (adm_path a) s) = 5" using assms(3) by (rule lineage_length)
  then have "find (\<lambda>i. lineage_of (adm_path a) s ! i = k) (rev [0..<4]) = None"
    using assms(4) by (auto simp: find_None_iff)
  moreover have "lineage_of (adm_path a) s ! 4 \<noteq> k" using assms(4) len by auto
  ultimately show ?thesis
    unfolding observe_side_domains [OF assms(1,2,3)]
    by (subst map_of_fold_modify) (use lineage_keys_distinct(1) [OF assms(3)] in \<open>auto simp: map_of_modify comp_def\<close>)
qed

lemma observe_side_ancestor:
  assumes "distinct (map fst ds)" and "tracked ds (adm_path a)" and "wf_path (adm_path a)" and "i < 4"
  shows "map_of (fst (observe_side L a bf now s (ds, pen))) (lineage_of (adm_path a) s ! i) =
    map_option (ancestor_update bf (admitted_at a) now (child_of (adm_path a) (lineage_of (adm_path a) s) i))
      (map_of ds (lineage_of (adm_path a) s ! i))"
  unfolding observe_side_domains [OF assms(1,2,3)]
  using lineage_keys_distinct [OF assms(3), where s = s] assms(4)
  by (subst map_of_fold_modify) (auto simp: find_index map_of_modify)

lemma observe_side_mailbox:
  assumes "distinct (map fst ds)" and "tracked ds (adm_path a)" and "wf_path (adm_path a)"
  shows "map_of (fst (observe_side L a bf now s (ds, pen))) (lineage_of (adm_path a) s ! 4) =
    map_option (mailbox_update bf a now) (map_of ds (lineage_of (adm_path a) s ! 4))"
proof -
  have "find (\<lambda>i. lineage_of (adm_path a) s ! i = lineage_of (adm_path a) s ! 4) (rev [0..<4]) = None"
    using lineage_keys_distinct(2) [OF assms(3)] by (auto simp: find_None_iff)
  then show ?thesis
    unfolding observe_side_domains [OF assms]
    by (subst map_of_fold_modify)
       (use lineage_keys_distinct(1) [OF assms(3)] in \<open>auto simp: map_of_modify comp_def\<close>)
qed

section \<open>A cooldown is kept until it ends\<close>

text \<open>
  The steps of any number of clients at instants before \<open>T\<close>, whether or not the table has room and
  whatever admissions they name.
\<close>

inductive limiter_steps_before :: "instant \<Rightarrow> limiter \<Rightarrow> limiter \<Rightarrow> bool" for T where
  none: "limiter_steps_before T L L"
| admit: "limiter_steps_before T L L1 \<Longrightarrow> now < T \<Longrightarrow> limiter_steps_before T L (snd (try_admit L1 p now))"
| drop_slot: "limiter_steps_before T L L1 \<Longrightarrow> now < T \<Longrightarrow> limiter_steps_before T L (release L1 p now)"
| success: "limiter_steps_before T L L1 \<Longrightarrow> now < T \<Longrightarrow> limiter_steps_before T L (observe_success L1 a now)"
| failure: "limiter_steps_before T L L1 \<Longrightarrow> now < T \<Longrightarrow>
    limiter_steps_before T L (snd (observe_classified_at L1 a f now))"

definition cooling_domain :: "instant \<Rightarrow> domain_state \<Rightarrow> bool" where
  "cooling_domain T d \<longleftrightarrow> T \<le> blocked_until d \<and> last_capacity_failure d \<noteq> None"

definition cools :: "instant \<Rightarrow> domain_key \<Rightarrow> domains \<Rightarrow> bool" where
  "cools T k ds \<longleftrightarrow> distinct (map fst ds) \<and> (\<exists>d. map_of ds k = Some d \<and> cooling_domain T d)"

lemma cooling_not_forgettable: "cooling_domain T d \<Longrightarrow> now < T \<Longrightarrow> \<not> forgettable d c now"
  by (auto simp: cooling_domain_def forgettable_def)

lemma cools_modify:
  assumes "cools T k ds" and "\<And>d. cooling_domain T d \<Longrightarrow> cooling_domain T (f d)"
  shows "cools T k (modify k' f ds)"
  using assms unfolding cools_def by (cases "map_of ds k") (auto simp: map_of_modify simp del: map_of_eq_Some_iff)

lemma cools_filter:
  assumes "cools T k ds" and "\<And>d. cooling_domain T d \<Longrightarrow> P k d"
  shows "cools T k (filter (\<lambda>(k, d). P k d) ds)"
  using assms map_of_filter_distinct [of ds P k] by (auto simp: cools_def distinct_fst_filter)

lemma cools_entry:
  assumes "cools T k ds" and "now < T" and "entry L ds k' now = (ds1, ok)"
  shows "cools T k ds1"
proof -
  have c: "cools T k (filter (\<lambda>(k', d). \<not> forgettable d (domain_ceiling L k') now) ds)"
    using assms(1) cooling_not_forgettable [OF _ assms(2)] by (intro cools_filter) auto
  have n: "cools T k ((k', x) # ds')" if "cools T k ds'" "k' \<notin> fst ` set ds'" "k' \<noteq> k" for ds' x
    using that by (auto simp: cools_def)
  have nk: "k' \<noteq> k" if "map_of ds k' = None" using assms(1) that by (auto simp: cools_def)
  have "k' \<notin> fst ` set ds" if "map_of ds k' = None" using that by (simp add: map_of_eq_None_iff)
  with assms c nk show ?thesis
    by (auto simp: entry_def Let_def image_iff intro!: n split: if_splits)
qed

lemma cooling_domain_updates:
  assumes "cooling_domain T d"
  shows "cooling_domain T (d\<lparr>in_flight := n\<rparr>)" "cooling_domain T (raise_limit L a now k d)"
    "cooling_domain T (penalize_domain bf adm now d)" "cooling_domain T (remember_child c now d)"
  using assms by (auto simp: cooling_domain_def raise_limit_def penalize_domain_def remember_child_def Let_def
      split: option.splits)

lemma cools_take_slots: "cools T k ds \<Longrightarrow> now < T \<Longrightarrow> cools T k (take_slots L now ks ds)"
proof (induction ks arbitrary: ds)
  case (Cons k1 ks)
  obtain ds1 ok where e: "entry L ds k1 now = (ds1, ok)" by force
  have "cools T k ds1" using cools_entry [OF Cons.prems e] .
  then have "cools T k (if ok then modify k1 (\<lambda>d. d\<lparr>in_flight := in_flight d + 1\<rparr>) ds1 else ds1)"
    by (auto intro!: cools_modify cooling_domain_updates)
  then show ?case using Cons by (simp add: e)
qed simp

lemma cools_release_slots: "cools T k ds \<Longrightarrow> now < T \<Longrightarrow> cools T k (release_slots L now ks ds)"
proof (induction ks arbitrary: ds)
  case (Cons k1 ks)
  show ?case
  proof (cases "map_of ds k1")
    case None
    then show ?thesis using Cons by simp
  next
    case (Some d)
    let ?d = "d\<lparr>in_flight := in_flight d - 1\<rparr>"
    have c: "k1 = k \<Longrightarrow> cooling_domain T ?d"
      using Cons.prems(1) Some by (auto simp: cools_def intro: cooling_domain_updates)
    have "cools T k (filter (\<lambda>(k', _). k' \<noteq> k1) ds)" if "forgettable ?d (domain_ceiling L k1) now"
      using cools_filter [of T k ds "\<lambda>k' _. k' \<noteq> k1"] that Cons.prems c cooling_not_forgettable by blast
    moreover have "cools T k (modify k1 (\<lambda>_. ?d) ds)"
      using Cons.prems(1) c by (auto simp: cools_def map_of_modify)
    ultimately show ?thesis using Cons Some by (simp add: Let_def)
  qed
qed simp

lemma cools_penalize: "cools T k ds \<Longrightarrow> now < T \<Longrightarrow> cools T k (fst (penalize L ds k' bf adm now))"
  by (auto simp: penalize_def split: prod.splits intro!: cools_modify cooling_domain_updates
      dest: cools_entry)

lemma cools_escalate:
  assumes "cools T k (fst acc)" and "now < T"
  shows "cools T k (fst (escalate_ancestor L a bf now lineage i acc))"
proof -
  obtain ds pen where acc: "acc = (ds, pen)" by force
  obtain ds1 ok where e: "entry L ds (lineage ! i) now = (ds1, ok)" by force
  let ?ds2 = "modify (lineage ! i) (remember_child (child_of (adm_path a) lineage i) now) ds1"
  have c1: "cools T k ds1" using cools_entry [OF _ assms(2) e] assms(1) acc by simp
  then have c2: "cools T k ?ds2" by (intro cools_modify cooling_domain_updates)
  have "cools T k (fst (penalize L ?ds2 (lineage ! i) bf (admitted_at a) now))"
    using c2 assms(2) by (rule cools_penalize)
  with c1 c2 show ?thesis
    by (auto simp: acc escalate_ancestor_def e Let_def split: prod.splits)
qed

lemma cools_escalate_fold:
  "cools T k (fst acc) \<Longrightarrow> now < T \<Longrightarrow> cools T k (fst (fold (escalate_ancestor L a bf now lineage) idxs acc))"
  by (induction idxs arbitrary: acc) (simp_all add: cools_escalate)

lemma cools_observe_side:
  assumes "cools T k (fst acc)" and "now < T"
  shows "cools T k (fst (observe_side L a bf now s acc))"
  unfolding observe_side_def Let_def
  using cools_penalize [OF assms, of L _ bf "admitted_at a"] assms(2)
  by (simp split: prod.split) (metis cools_escalate_fold fst_conv)

lemma cools_observe_fold:
  "cools T k (fst acc) \<Longrightarrow> now < T \<Longrightarrow> cools T k (fst (fold (observe_side L a bf now) ss acc))"
  by (induction ss arbitrary: acc) (simp_all add: cools_observe_side)

lemma cools_success_fold:
  "cools T k ds \<Longrightarrow> cools T k (fold (\<lambda>k. modify k (raise_limit L a now k)) ks ds)"
  by (induction ks arbitrary: ds) (simp_all add: cools_modify cooling_domain_updates)

lemma cools_step:
  assumes "cools T k (domains L)" and "now < T"
  shows "cools T k (domains (snd (try_admit L p now)))"
    "cools T k (domains (release L p now))"
    "cools T k (domains (observe_success L a now))"
    "cools T k (domains (snd (observe_classified_at L a f now)))"
proof -
  show "cools T k (domains (snd (try_admit L p now)))"
    using cools_take_slots [OF assms]
    by (cases rule: try_admit_cases [where L = L and p = p and now = now]) (simp_all add: assms)
  show "cools T k (domains (release L p now))"
    using cools_release_slots [OF assms] assms(1) by (simp add: release_def Let_def)
  show "cools T k (domains (observe_success L a now))"
    using cools_success_fold [OF assms(1)] assms(1) by (simp add: observe_success_def)
  show "cools T k (domains (snd (observe_classified_at L a f now)))"
    using cools_observe_fold [of T k "(domains L, [])" now L a "capacity_delays f" "cf_sides f"] assms
    by (auto simp: observe_classified_at_def split: prod.splits)
qed

lemma step_poisoned [simp]:
  "poisoned (snd (try_admit L p now)) = poisoned L"
  "poisoned (observe_success L a now) = poisoned L"
  "poisoned (snd (observe_classified_at L a f now)) = poisoned L"
  by (cases rule: try_admit_cases [where L = L and p = p and now = now])
     (auto simp: observe_success_def observe_classified_at_def split: prod.splits)

lemma steps_before_cool:
  "limiter_steps_before T L L' \<Longrightarrow> cools T k (domains L) \<Longrightarrow>
   cools T k (domains L') \<and> poisoned L' = poisoned L"
  by (induction rule: limiter_steps_before.induct) (simp_all add: cools_step)

lemma cools_blocks:
  assumes "cools T k (domains L)" and "\<not> poisoned L" and "k \<in> set (path_all p)" and "t < T"
  shows "\<exists>u \<ge> T. try_admit L p t = (Inl (Until u), L)"
proof -
  obtain d where d: "map_of (domains L) k = Some d" "T \<le> blocked_until d"
    using assms(1) by (auto simp: cools_def cooling_domain_def)
  then have m: "blocked_until d \<in> set (cooling_ends (domains L) t (path_all p))"
    using assms(3,4) unfolding set_cooling_ends by force
  have "\<not> admits d t" using d assms(4) by (simp add: admits_def)
  with d assms(2,3) m show ?thesis
  proof (cases rule: try_admit_cases [where L = L and p = p and now = t])
    case (cooling u)
    have "blocked_until d \<le> u" unfolding cooling(4) using m by (intro Max_ge) auto
    with d cooling show ?thesis by auto
  next
    case slot
    then have "fst (admission_scan (domains L) t (path_all p) None False) = None"
      by (auto simp: try_admit_def split: prod.splits option.splits bool.splits)
    with m show ?thesis by (auto simp: scan_from_None split: list.splits)
  qed auto
qed

lemma tracked_fold_modify:
  "tracked (fold (\<lambda>i. modify (key i) (f i)) idxs ds) p \<longleftrightarrow> tracked ds p"
  "map fst (fold (\<lambda>i. modify (key i) (f i)) idxs ds) = map fst ds"
  by (induction idxs arbitrary: ds) simp_all

lemma observe_side_tracked:
  assumes "distinct (map fst (fst acc))" and "tracked (fst acc) (adm_path a)" and "wf_path (adm_path a)"
  shows "tracked (fst (observe_side L a bf now s acc)) (adm_path a)"
    "distinct (map fst (fst (observe_side L a bf now s acc)))"
  using observe_side_domains [OF assms, of L bf now s "snd acc"] assms
  by (simp_all add: tracked_fold_modify)

lemma penalty_covers_floor:
  "cooling_domain (now + snd bf) (penalize_domain bf adm now d)"
  by (auto simp: cooling_domain_def penalize_domain_def penalty_cooldown_def Let_def intro: max.coboundedI2)

lemma observe_side_cools:
  assumes "distinct (map fst (fst acc))" and "tracked (fst acc) (adm_path a)" and "wf_path (adm_path a)"
  shows "cools (now + snd bf) (lineage_of (adm_path a) s ! 4) (fst (observe_side L a bf now s acc))"
proof -
  have "lineage_of (adm_path a) s ! 4 \<in> set (path_all (adm_path a))"
    using lineage_length [OF assms(3), of s] by (intro lineage_in_path [of _ _ s]) auto
  then obtain d where "map_of (fst acc) (lineage_of (adm_path a) s ! 4) = Some d"
    using assms(2) by (auto simp: tracked_def)
  then show ?thesis
    using observe_side_mailbox [OF assms, of L bf now s "snd acc"] observe_side_tracked(2) [OF assms]
    unfolding cools_def by (simp add: penalty_covers_floor)
qed

lemma observe_sides_cool:
  assumes "now < now + snd bf" and "s \<in> set ss"
  shows "distinct (map fst (fst acc)) \<Longrightarrow> tracked (fst acc) (adm_path a) \<Longrightarrow> wf_path (adm_path a) \<Longrightarrow>
    cools (now + snd bf) (lineage_of (adm_path a) s ! 4) (fst (fold (observe_side L a bf now) ss acc))"
  using assms(2)
proof (induction ss arbitrary: acc)
  case (Cons s1 ss)
  show ?case
  proof (cases "s = s1")
    case True
    then show ?thesis
      using observe_side_cools [OF Cons.prems(1-3), of now bf s1 L] assms(1)
      by (simp add: cools_observe_fold)
  next
    case False
    then show ?thesis
      using Cons.IH [of "observe_side L a bf now s1 acc"] Cons.prems observe_side_tracked [OF Cons.prems(1-3)]
      by simp
  qed
qed simp

lemma failure_cools:
  assumes "limiter_run (new_with_provider_ceilings c pc) L H" and "a \<in> set H"
    and "cf_class f = Class_Capacity" and "s \<in> set (cf_sides f)" and "0 < snd (capacity_delays f)"
  shows "cools (now + snd (capacity_delays f)) (lineage_of (adm_path a) s ! 4)
           (domains (snd (observe_classified_at L a f now)))"
proof -
  have t: "tracked (domains L) (adm_path a)" "wf_path (adm_path a)" "\<not> poisoned L"
    using held_tracked [OF assms(1,2)] by auto
  have d: "distinct (map fst (domains L))" using limiter_run_inv [OF assms(1)] by simp
  have "cools (now + snd (capacity_delays f)) (lineage_of (adm_path a) s ! 4)
      (fst (fold (observe_side L a (capacity_delays f) now) (cf_sides f) (domains L, [])))"
    using assms(4,5) t d by (intro observe_sides_cool) auto
  then show ?thesis
    using assms(3,4) t(3) by (auto simp: observe_classified_at_def split: prod.splits)
qed

section \<open>A sample run\<close>

text \<open>One mailbox moved between two servers, its admission held since instant 0.\<close>

definition sample_ceilings :: provider_rate_ceilings where
  "sample_ceilings = \<lparr>provider_ceiling = (\<lambda>p. if p = ''gmail'' then Some 1 else None),
     tenant_ceiling = (\<lambda>_. None), credential_ceiling = (\<lambda>_. None)\<rparr>"

definition sample_path :: rate_path where
  "sample_path = path_new to_ascii_lowercase
     \<lparr>id_endpoint = ''old.test'', id_user = ''ann@a.test'', id_tenant = [], id_principal = []\<rparr>
     \<lparr>id_endpoint = ''imap.gmail.com'', id_user = ''ann@b.test'', id_tenant = [], id_principal = []\<rparr>"

definition sample_start :: limiter where
  "sample_start = new_with_provider_ceilings 2 sample_ceilings"

definition sample_held :: limiter where
  "sample_held = sample_start\<lparr>domains := take_slots sample_start 0 (path_all sample_path) []\<rparr>"

definition sample_admission :: admission where
  "sample_admission = \<lparr>adm_path = sample_path, admitted_at = 0\<rparr>"

definition sample_failure :: classified_failure where
  "sample_failure = classify to_ascii_lowercase ''microsoft365'' [Source]
     ''Host1: request is throttled. Suggested Backoff Time: 30000 milliseconds''"

lemma sample_failure_facts:
  "cf_class sample_failure = Class_Capacity" "cf_retry_after sample_failure = Some (secs 30)"
  "cf_sides sample_failure = [Source]"
  by code_simp+

lemma admit_fresh:
  assumes "domains L = []" and "\<not> poisoned L"
  shows "try_admit L p now = (Inr \<lparr>adm_path = p, admitted_at = now\<rparr>,
     L\<lparr>domains := take_slots L now (path_all p) []\<rparr>)"
proof -
  have "admission_scan [] now ks c sl = (c, sl)" for ks c sl by (induction ks) simp_all
  with assms show ?thesis by (simp add: try_admit_def)
qed

lemma sample_run: "limiter_run (new_with_provider_ceilings 2 sample_ceilings) sample_held [sample_admission]"
proof -
  have "wf_path sample_path" unfolding sample_path_def by (rule path_new_wf)
  then have r: "has_room sample_start sample_path"
    by (simp add: has_room_def sample_start_def new_with_provider_ceilings_def wf_path_def path_all_def
        MAX_RATE_DOMAINS_def)
  have t: "try_admit sample_start sample_path 0 = (Inr sample_admission, sample_held)"
    by (simp add: admit_fresh sample_start_def new_with_provider_ceilings_def sample_admission_def sample_held_def)
  show ?thesis
    using limiter_run.granted [OF limiter_run.start r t] by (simp add: sample_start_def)
qed

section \<open>Properties\<close>



lemma scan_slot:
  "cooling_ends ds now ks = [] \<Longrightarrow> admission_scan ds now ks c sl =
     (c, sl \<or> (\<exists>k \<in> set ks. \<exists>d. map_of ds k = Some d \<and> slot_limit d \<le> int (in_flight d)))"
proof (induction ks arbitrary: sl)
  case (Cons k ks)
  then show ?case by (cases "map_of ds k") (auto simp: admits_def split: if_splits)
qed simp

text \<open>
  An admission is decided by the domains of its path alone. It is refused until the last cooldown
  of any of them ends; with none cooling it is refused for a slot exactly when one of them is full;
  otherwise it is granted, stamped with the instant. A refusal leaves the limiter as it was.
\<close>

theorem try_admit_decides:
  "try_admit L p now =
     (let known = {d. \<exists>k \<in> set (path_all p). map_of (domains L) k = Some d};
          ends = {blocked_until d | d. d \<in> known \<and> now < blocked_until d}
      in if poisoned L then (Inl Unavailable, L)
         else if ends \<noteq> {} then (Inl (Until (Max ends)), L)
         else if \<exists>d \<in> known. slot_limit d \<le> int (in_flight d) then (Inl Slot, L)
         else (Inr \<lparr>adm_path = p, admitted_at = now\<rparr>,
               L\<lparr>domains := take_slots L now (path_all p) (domains L)\<rparr>))"
proof -
  have e: "{blocked_until d | d. d \<in> {d. \<exists>k \<in> set (path_all p). map_of (domains L) k = Some d} \<and>
      now < blocked_until d} = set (cooling_ends (domains L) now (path_all p))"
    unfolding set_cooling_ends by blast
  show ?thesis
  proof (cases "cooling_ends (domains L) now (path_all p)")
    case Nil
    then show ?thesis unfolding Let_def e by (auto simp: try_admit_def scan_slot split: bool.splits)
  next
    case (Cons b bs)
    then have "fst (admission_scan (domains L) now (path_all p) None False) \<noteq> None"
      by (simp add: scan_from_None)
    then obtain u sl where u: "admission_scan (domains L) now (path_all p) None False = (Some u, sl)"
      by (metis not_Some_eq prod.collapse)
    with scan_until [OF u] show ?thesis unfolding Let_def e by (simp add: try_admit_def)
  qed
qed



text \<open>
  C28: a throttle stays local. A capacity failure attributed to one side changes nothing outside that
  side's lineage; and an ancestor of the throttled mailbox keeps its limit, its cooldown and its
  escalation count unless another of its children was throttled within the escalation window.
\<close>

theorem throttle_stays_local:
  assumes "limiter_run (new_with_provider_ceilings c pc) L H" and "a \<in> set H"
    and "cf_sides f = [s]" and "L' = snd (observe_classified_at L a f now)"
  shows "(k \<notin> set (path_global (adm_path a) # path_chain (adm_path a) s) \<longrightarrow>
            map_of (domains L') k = map_of (domains L) k) \<and>
         (i < 4 \<and> map_of (domains L) ((path_global (adm_path a) # path_chain (adm_path a) s) ! i) = Some d \<and>
          (\<forall>(child, t) \<in> set (child_failures d).
             child = child_of (adm_path a) (path_global (adm_path a) # path_chain (adm_path a) s) i \<or>
             t + ESCALATION_WINDOW \<le> now) \<longrightarrow>
          (\<exists>d'. map_of (domains L') ((path_global (adm_path a) # path_chain (adm_path a) s) ! i) = Some d' \<and>
             limit d' = limit d \<and> blocked_until d' = blocked_until d \<and> in_flight d' = in_flight d \<and>
             consecutive_capacity_failures d' = consecutive_capacity_failures d))"
proof -
  have t: "distinct (map fst (domains L))" "tracked (domains L) (adm_path a)" "wf_path (adm_path a)" "\<not> poisoned L"
    using held_tracked [OF assms(1,2)] limiter_run_inv [OF assms(1)] by auto
  have L': "domains L' = domains L \<or>
      domains L' = fst (observe_side L a (capacity_delays f) now s (domains L, []))"
    using assms(3) t(4) unfolding assms(4) observe_classified_at_def by (auto split: prod.splits)
  let ?c = "child_of (adm_path a) (lineage_of (adm_path a) s) i"
  have quiet: "ancestor_update bf (admitted_at a) now ?c d = remember_child ?c now d"
    if "\<forall>(child, t) \<in> set (child_failures d). child = ?c \<or> t + ESCALATION_WINDOW \<le> now" for bf
  proof -
    have "filter (\<lambda>(k, t). k \<noteq> ?c \<and> now < t + ESCALATION_WINDOW) (child_failures d) = []"
      using that by (auto simp: filter_empty_conv)
    then have "length (child_failures (remember_child ?c now d)) = 1" by (simp add: remember_child_def)
    then show ?thesis by (simp add: ancestor_update_def ESCALATION_DISTINCT_CHILDREN_def Let_def)
  qed
  show ?thesis
    unfolding lineage_of_def [symmetric]
    using L' observe_side_other [OF t(1-3), of k s L "capacity_delays f" now "[]"]
      observe_side_ancestor [OF t(1-3), of i L "capacity_delays f" now s "[]"] quiet [of "capacity_delays f"]
    by (auto simp: remember_child_def)
qed

theorem throttle_stays_local_witness:
  "map_of (domains (snd (observe_classified_at sample_held sample_admission sample_failure 1)))
     (path_destination sample_path ! 0) = map_of (domains sample_held) (path_destination sample_path ! 0)"
proof -
  have "path_destination sample_path ! 0 \<notin>
      set (path_global (adm_path sample_admission) # path_chain (adm_path sample_admission) Source)"
    by code_simp
  then show ?thesis
    using throttle_stays_local [OF sample_run, of sample_admission sample_failure Source _ 1] 
    by (simp add: sample_failure_facts)
qed

text \<open>
  The limiter cannot starve a batch. When no admission is held and no domain of the path is
  cooling down, the next admission is granted, however often its domains were throttled before.
\<close>

theorem idle_limiter_admits:
  assumes "limiter_run (new_with_provider_ceilings c pc) L []"
    and "\<forall>k \<in> set (path_all p). \<forall>d. map_of (domains L) k = Some d \<longrightarrow> blocked_until d \<le> now"
  shows "\<exists>L'. try_admit L p now = (Inr \<lparr>adm_path = p, admitted_at = now\<rparr>, L')"
proof -
  have "inflight (domains L) k = 0" for k
    using limiter_run_counted [OF assms(1)] by (simp add: lim.counted_def)
  then have z: "in_flight d = 0" if "map_of (domains L) k = Some d" for k d
    using that by (simp add: inflight_def split: option.splits) (metis option.simps(5))
  have "cooling_ends (domains L) now (path_all p) = []"
    using assms(2) set_cooling_ends [of "domains L" now "path_all p"] by (fastforce simp flip: set_empty)
  then show ?thesis
    using limiter_run_inv [OF assms(1)] z by (auto simp: try_admit_def scan_slot slot_limit_def split: bool.splits)
qed

definition sample_idle :: limiter where
  "sample_idle = release (snd (observe_classified_at sample_held sample_admission sample_failure 0)) sample_path 1"

lemma sample_idle_run: "limiter_run (new_with_provider_ceilings 2 sample_ceilings) sample_idle []"
  using limiter_run.dropped [of _ _ "[]" sample_admission "[]" 1, simplified,
      OF limiter_run.observed [OF sample_run observes.failure]]
  by (simp add: sample_idle_def sample_admission_def)

theorem idle_limiter_admits_witness:
  "\<exists>L'. try_admit sample_idle sample_path (secs 30) =
     (Inr \<lparr>adm_path = sample_path, admitted_at = secs 30\<rparr>, L')"
proof (rule idle_limiter_admits [OF sample_idle_run])
  have "list_all (\<lambda>k. case map_of (domains sample_idle) k of None \<Rightarrow> True
      | Some d \<Rightarrow> blocked_until d \<le> secs 30) (path_all sample_path)"
    by code_simp
  then show "\<forall>k \<in> set (path_all sample_path). \<forall>d. map_of (domains sample_idle) k = Some d \<longrightarrow>
      blocked_until d \<le> secs 30"
    by (auto simp: list_all_iff split: option.splits)
qed

end
