(* ===== verification/Scheduler_Queues.thy ===== *)
theory Scheduler_Queues
  imports Prelude "HOL-Library.AList" "HOL-Library.Product_Lexorder" "HOL-Library.Multiset"
begin

text \<open>
  The two waiting lines of the batch scheduler, \<^verbatim>\<open>src/src/controller/batch_scheduler.rs\<close>: the
  round-robin ready queue (\<^verbatim>\<open>FairQueue\<close>) and the timer queue (\<^verbatim>\<open>TimerQueue\<close>).

  A \<^verbatim>\<open>HashMap\<close> is an association list with distinct keys (the order in which \<^verbatim>\<open>drain\<close> visits it is
  unspecified: nothing below depends on it), a \<^verbatim>\<open>VecDeque\<close> a list, and the \<^verbatim>\<open>BinaryHeap\<close> of reversed
  pairs the sorted list of its elements, whose head is what \<^verbatim>\<open>peek\<close> shows. The locale
  \<open>tenant_queue\<close> states what the scheduler relies on in the ready queue; its round-robin lemma is
  proved once, inside the locale.
\<close>

section \<open>FairQueue\<close>

record 'a fair_queue =
  fq_order :: "str list"
  fq_queues :: "(str \<times> 'a list) list"
  fq_len :: nat

definition fq_new :: "'a fair_queue" where
  "fq_new = \<lparr>fq_order = [], fq_queues = [], fq_len = 0\<rparr>"

definition fq_is_empty :: "'a fair_queue \<Rightarrow> bool" where
  "fq_is_empty q \<longleftrightarrow> fq_len q = 0"

definition fq_push :: "str \<Rightarrow> 'a \<Rightarrow> bool \<Rightarrow> 'a fair_queue \<Rightarrow> 'a fair_queue" where
  "fq_push tenant item front q =
     (let (order, queue) =
        (case map_of (fq_queues q) tenant of
           None \<Rightarrow> (fq_order q @ [tenant], [])
         | Some queue \<Rightarrow> (fq_order q, queue))
      in \<lparr>fq_order = order,
          fq_queues = AList.update tenant (if front then item # queue else queue @ [item]) (fq_queues q),
          fq_len = fq_len q + 1\<rparr>)"

definition fq_pop_next :: "'a fair_queue \<Rightarrow> 'a option \<times> 'a fair_queue" where
  "fq_pop_next q =
     (case fq_order q of
        [] \<Rightarrow> (None, q)
      | tenant # order \<Rightarrow>
          (case map_of (fq_queues q) tenant of
             None \<Rightarrow> (None, q\<lparr>fq_order := order\<rparr>)
           | Some queue \<Rightarrow>
               let item = (case queue of [] \<Rightarrow> None | x # _ \<Rightarrow> Some x);
                   q1 = (if tl queue = []
                         then q\<lparr>fq_order := order, fq_queues := AList.delete tenant (fq_queues q)\<rparr>
                         else q\<lparr>fq_order := order @ [tenant],
                                fq_queues := AList.update tenant (tl queue) (fq_queues q)\<rparr>)
               in (item, if item \<noteq> None then q1\<lparr>fq_len := fq_len q - 1\<rparr> else q1)))"

definition fq_drain :: "'a fair_queue \<Rightarrow> 'a list \<times> 'a fair_queue" where
  "fq_drain q = (concat (map snd (fq_queues q)), \<lparr>fq_order = [], fq_queues = [], fq_len = 0\<rparr>)"

section \<open>TimerQueue\<close>

record 'a timer_queue =
  tq_heap :: "(instant \<times> nat) list"
  tq_tasks :: "(nat \<times> 'a) list"
  tq_sequence :: nat

definition tq_new :: "'a timer_queue" where
  "tq_new = \<lparr>tq_heap = [], tq_tasks = [], tq_sequence = 0\<rparr>"

definition tq_len :: "'a timer_queue \<Rightarrow> nat" where
  "tq_len q = length (tq_tasks q)"

definition tq_park :: "instant \<Rightarrow> 'a \<Rightarrow> 'a timer_queue \<Rightarrow> 'a timer_queue" where
  "tq_park until task q =
     (let n = tq_sequence q + 1 in
      \<lparr>tq_heap = insort (until, n) (tq_heap q), tq_tasks = AList.update n task (tq_tasks q), tq_sequence = n\<rparr>)"

definition tq_next_due :: "'a timer_queue \<Rightarrow> instant option" where
  "tq_next_due q = (case tq_heap q of [] \<Rightarrow> None | (until, _) # _ \<Rightarrow> Some until)"

definition tq_pop_due :: "instant \<Rightarrow> 'a timer_queue \<Rightarrow> 'a option \<times> 'a timer_queue" where
  "tq_pop_due now q =
     (case tq_heap q of
        [] \<Rightarrow> (None, q)
      | (until, n) # heap \<Rightarrow>
          if now < until then (None, q)
          else (map_of (tq_tasks q) n,
                q\<lparr>tq_heap := heap, tq_tasks := AList.delete n (tq_tasks q)\<rparr>))"

definition tq_drain :: "'a timer_queue \<Rightarrow> 'a list \<times> 'a timer_queue" where
  "tq_drain q = (map snd (tq_tasks q), q\<lparr>tq_heap := [], tq_tasks := []\<rparr>)"

section \<open>What the scheduler relies on in the ready queue\<close>

datatype 'a queue_op = Push str 'a bool | Pop

definition pops :: "'a queue_op list \<Rightarrow> nat" where
  "pops ops = length (filter (\<lambda>op. op = Pop) ops)"

definition front_pushed :: "str \<Rightarrow> 'a queue_op list \<Rightarrow> bool" where
  "front_pushed t ops \<longleftrightarrow> (\<exists>x. Push t x True \<in> set ops)"

locale tenant_queue =
  fixes push :: "str \<Rightarrow> 'a \<Rightarrow> bool \<Rightarrow> 'q \<Rightarrow> 'q"
    and pop :: "'q \<Rightarrow> 'a option \<times> 'q"
    and turns :: "'q \<Rightarrow> str list"
    and backlog :: "'q \<Rightarrow> str \<Rightarrow> 'a list"
    and inv :: "'q \<Rightarrow> bool"
  assumes turns_backlog: "inv q \<Longrightarrow> distinct (turns q) \<and> (\<forall>t. t \<in> set (turns q) \<longleftrightarrow> backlog q t \<noteq> [])"
    and push_ok: "inv q \<Longrightarrow> inv (push t x f q) \<and>
      turns (push t x f q) = (if t \<in> set (turns q) then turns q else turns q @ [t]) \<and>
      backlog (push t x f q) = (backlog q)(t := if f then x # backlog q t else backlog q t @ [x])"
    and pop_empty: "inv q \<Longrightarrow> turns q = [] \<Longrightarrow> pop q = (None, q)"
    and pop_ok: "inv q \<Longrightarrow> turns q = t # ts \<Longrightarrow> backlog q t = x # xs \<Longrightarrow>
      \<exists>q'. pop q = (Some x, q') \<and> inv q' \<and> backlog q' = (backlog q)(t := xs) \<and>
           turns q' = ts @ (if xs = [] then [] else [t])"
begin

fun perform :: "'a queue_op list \<Rightarrow> 'q \<Rightarrow> 'q" where
  "perform [] q = q"
| "perform (Push t x f # ops) q = perform ops (push t x f q)"
| "perform (Pop # ops) q = perform ops (snd (pop q))"

lemma pop_step:
  assumes "inv q" and "turns q = t # ts"
  obtains x xs q' where "backlog q t = x # xs" "pop q = (Some x, q')" "inv q'"
    "backlog q' = (backlog q)(t := xs)" "turns q' = ts @ (if xs = [] then [] else [t])"
proof -
  have "backlog q t \<noteq> []" using turns_backlog [OF assms(1)] assms(2) by (metis list.set_intros(1))
  then obtain x xs where "backlog q t = x # xs" by (cases "backlog q t") auto
  with pop_ok [OF assms this] that show thesis by blast
qed

text \<open>A tenant waiting at position \<open>i\<close> is at the front after \<open>i\<close> pops, whatever is pushed meanwhile.\<close>

lemma turn_comes:
  assumes "inv q" and "i < length (turns q)" and "pops ops = i"
  shows "inv (perform ops q) \<and> (\<exists>ts. turns (perform ops q) = turns q ! i # ts) \<and>
    (\<exists>ys. backlog (perform ops q) (turns q ! i) = ys \<and>
      (\<not> front_pushed (turns q ! i) ops \<longrightarrow> hd ys = hd (backlog q (turns q ! i))))"
  using assms
proof (induction ops arbitrary: q i)
  case Nil
  then show ?case by (cases "turns q") (auto simp: pops_def)
next
  case (Cons op ops)
  let ?t = "turns q ! i"
  have bt: "backlog q ?t \<noteq> []" using turns_backlog [OF Cons.prems(1)] Cons.prems(2) nth_mem by blast
  show ?case
  proof (cases op)
    case (Push t x f)
    note p = push_ok [OF Cons.prems(1), of t x f]
    have i: "i < length (turns (push t x f q))" "turns (push t x f q) ! i = ?t"
      using Cons.prems(2) p by (auto simp: nth_append)
    have "hd (backlog (push t x f q) ?t) = hd (backlog q ?t)" if "\<not> front_pushed ?t (op # ops)"
      using that p bt by (auto simp: front_pushed_def Push hd_append)
    moreover have "pops ops = i" using Cons.prems(3) by (simp add: pops_def Push)
    ultimately show ?thesis
      using Cons.IH [OF _ i(1)] p i by (auto simp: Push front_pushed_def)
  next
    case Pop
    then obtain j where j: "i = Suc j" "pops ops = j" using Cons.prems(3) by (auto simp: pops_def)
    then obtain t ts where ts: "turns q = t # ts" using Cons.prems(2) by (cases "turns q") auto
    obtain x xs q' where q': "pop q = (Some x, q')" "inv q'" "backlog q' = (backlog q)(t := xs)"
        "turns q' = ts @ (if xs = [] then [] else [t])"
      using pop_step [OF Cons.prems(1) ts] by metis
    have t: "?t = ts ! j" "j < length ts" using j ts Cons.prems(2) by auto
    then have "?t \<noteq> t" using turns_backlog [OF Cons.prems(1)] ts by auto
    then have "hd (backlog q' ?t) = hd (backlog q ?t)" using q' by simp
    moreover have "turns q' ! j = ?t" "j < length (turns q')" using t q' by (auto simp: nth_append)
    ultimately show ?thesis
      using Cons.IH [OF q'(2), of j] j q' by (auto simp: Pop front_pushed_def)
  qed
qed

end

section \<open>FairQueue provides it\<close>

definition fq_backlog :: "'a fair_queue \<Rightarrow> str \<Rightarrow> 'a list" where
  "fq_backlog q t = (case map_of (fq_queues q) t of None \<Rightarrow> [] | Some xs \<Rightarrow> xs)"

definition fq_items :: "'a fair_queue \<Rightarrow> 'a list" where
  "fq_items q = concat (map snd (fq_queues q))"

definition fq_inv :: "'a fair_queue \<Rightarrow> bool" where
  "fq_inv q \<longleftrightarrow> distinct (fq_order q) \<and> distinct (map fst (fq_queues q)) \<and>
     set (fq_order q) = fst ` set (fq_queues q) \<and> (\<forall>t. map_of (fq_queues q) t \<noteq> Some []) \<and>
     fq_len q = length (fq_items q)"

lemma mset_update:
  assumes "distinct (map fst al)"
  shows "mset (concat (map snd (AList.update k v al))) + mset (case map_of al k of None \<Rightarrow> [] | Some xs \<Rightarrow> xs) =
    mset v + mset (concat (map snd al))"
  using assms
proof (induction al)
  case (Cons p al)
  then show ?case by (cases p) (auto simp: add.assoc add.left_commute)
qed simp

lemma mset_delete:
  assumes "distinct (map fst al)"
  shows "mset (concat (map snd (AList.delete k al))) + mset (case map_of al k of None \<Rightarrow> [] | Some xs \<Rightarrow> xs) =
    mset (concat (map snd al))"
  using assms
proof (induction al)
  case (Cons p al)
  have "AList.delete k al = al" if "k = fst p" using Cons.prems that by simp
  with Cons show ?case by (cases p) (auto simp: add.assoc add.left_commute)
qed simp

lemma dom_delete: "fst ` set (AList.delete k al) = fst ` set al - {k}"
  by (metis delete_keys list.set_map set_removeAll)

lemma fq_push_order:
  "fq_order (fq_push t x f q) = (if map_of (fq_queues q) t = None then fq_order q @ [t] else fq_order q)"
  "fq_queues (fq_push t x f q) =
     AList.update t (if f then x # fq_backlog q t else fq_backlog q t @ [x]) (fq_queues q)"
  "fq_len (fq_push t x f q) = fq_len q + 1"
  by (auto simp: fq_push_def fq_backlog_def split: option.splits)

lemma fq_pop_next_Cons:
  assumes "fq_order q = t # ts" and "map_of (fq_queues q) t = Some (x # xs)"
  shows "fq_pop_next q =
    (Some x, if xs = [] then \<lparr>fq_order = ts, fq_queues = AList.delete t (fq_queues q), fq_len = fq_len q - 1\<rparr>
             else \<lparr>fq_order = ts @ [t], fq_queues = AList.update t xs (fq_queues q), fq_len = fq_len q - 1\<rparr>)"
  using assms by (simp add: fq_pop_next_def Let_def)

lemma fq_items_push:
  assumes "fq_inv q"
  shows "mset (fq_items (fq_push t x f q)) = add_mset x (mset (fq_items q))"
proof -
  let ?v = "if f then x # fq_backlog q t else fq_backlog q t @ [x]"
  have "mset (fq_items (fq_push t x f q)) + mset (fq_backlog q t) = mset ?v + mset (fq_items q)"
    using mset_update [of "fq_queues q" t ?v] assms
    by (simp add: fq_items_def fq_push_order fq_inv_def fq_backlog_def)
  then show ?thesis by (cases f) simp_all
qed

lemma fq_push_inv:
  assumes "fq_inv q"
  shows "fq_inv (fq_push t x f q)"
proof -
  have "length (fq_items (fq_push t x f q)) = Suc (length (fq_items q))"
    using fq_items_push [OF assms] by (metis size_add_mset size_mset)
  then show ?thesis
    using assms
    by (auto simp: fq_inv_def fq_push_order map_of_eq_None_iff update_conv' distinct_update dom_update
        fq_items_def simp del: map_of_eq_Some_iff split: if_splits)
qed

lemma fq_pop_cases:
  assumes "fq_inv q"
  obtains (empty) "fq_order q = []" "fq_items q = []" "fq_pop_next q = (None, q)"
  | (item) t ts x xs q' where "fq_order q = t # ts" "fq_backlog q t = x # xs" "fq_pop_next q = (Some x, q')"
      "fq_inv q'" "fq_order q' = ts @ (if xs = [] then [] else [t])"
      "fq_backlog q' = (fq_backlog q)(t := xs)" "mset (fq_items q) = add_mset x (mset (fq_items q'))"
      "fq_len q = Suc (fq_len q')"
proof (cases "fq_order q")
  case Nil
  then have "fq_queues q = []" using assms by (auto simp: fq_inv_def)
  then show thesis using empty Nil by (simp add: fq_pop_next_def fq_items_def)
next
  case (Cons t ts)
  have "t \<in> fst ` set (fq_queues q)" using assms Cons by (auto simp: fq_inv_def)
  then obtain ys where "map_of (fq_queues q) t = Some ys"
    by (metis map_of_eq_None_iff not_Some_eq)
  moreover from this have "ys \<noteq> []" using assms by (auto simp: fq_inv_def)
  ultimately obtain x xs where m: "map_of (fq_queues q) t = Some (x # xs)" by (cases ys) auto
  let ?q' = "snd (fq_pop_next q)"
  note pop = fq_pop_next_Cons [OF Cons m]
  have d: "distinct (map fst (fq_queues q))" "t \<notin> set ts" "distinct ts"
    and k: "fst ` set (fq_queues q) = insert t (set ts)"
    using assms Cons by (auto simp: fq_inv_def)
  have "mset (fq_items ?q') + mset (x # xs) = mset xs + mset (fq_items q)"
    using mset_update [OF d(1), of t xs] mset_delete [OF d(1), of t] m
    by (auto simp: pop fq_items_def)
  then have ms: "mset (fq_items q) = add_mset x (mset (fq_items ?q'))" by simp
  then have ln: "length (fq_items q) = Suc (length (fq_items ?q'))" by (metis size_add_mset size_mset)
  have bl: "fq_backlog ?q' = (fq_backlog q)(t := xs)"
    by (auto simp: pop fq_backlog_def fun_eq_iff update_conv' delete_conv')
  have keys: "fst ` set (fq_queues ?q') = set (fq_order ?q')"
    using k d(2) by (cases "xs = []") (simp_all add: pop dom_update dom_delete)
  have ne: "map_of (fq_queues ?q') t' \<noteq> Some []" for t'
    using assms by (auto simp: pop fq_inv_def update_conv' delete_conv')
  have dq: "distinct (map fst (fq_queues ?q'))" "distinct (fq_order ?q')"
    using d by (simp_all add: pop distinct_update distinct_delete)
  have "fq_len ?q' = fq_len q - 1" by (simp add: pop)
  then have "fq_len ?q' = length (fq_items ?q')" using assms ln unfolding fq_inv_def by simp
  then have inv: "fq_inv ?q'" unfolding fq_inv_def using dq keys ne by blast
  have ps: "fq_pop_next q = (Some x, ?q')" and os: "fq_order ?q' = ts @ (if xs = [] then [] else [t])"
    by (simp_all add: pop)
  have b: "fq_backlog q t = x # xs" using m by (simp add: fq_backlog_def)
  have "fq_len q = Suc (fq_len ?q')" using assms inv ln by (simp add: fq_inv_def)
  then show thesis by (rule item [OF Cons b ps inv os bl ms])
qed

lemma fq_turns_backlog:
  assumes "fq_inv q"
  shows "distinct (fq_order q) \<and> (\<forall>t. t \<in> set (fq_order q) \<longleftrightarrow> fq_backlog q t \<noteq> [])"
proof -
  have "t \<in> set (fq_order q) \<longleftrightarrow> map_of (fq_queues q) t \<noteq> None" for t
    using assms by (simp add: fq_inv_def map_of_eq_None_iff)
  moreover have "map_of (fq_queues q) t \<noteq> Some []" for t using assms by (simp add: fq_inv_def)
  ultimately show ?thesis
    using assms by (simp add: fq_inv_def) (auto simp: fq_backlog_def split: option.splits)
qed

interpretation fq: tenant_queue fq_push fq_pop_next fq_order fq_backlog fq_inv
proof
  fix q :: "'a fair_queue" and t x f
  assume q: "fq_inv q"
  have "t \<in> set (fq_order q) \<longleftrightarrow> map_of (fq_queues q) t \<noteq> None"
    using q by (simp add: fq_inv_def map_of_eq_None_iff)
  then show "fq_inv (fq_push t x f q) \<and>
      fq_order (fq_push t x f q) = (if t \<in> set (fq_order q) then fq_order q else fq_order q @ [t]) \<and>
      fq_backlog (fq_push t x f q) =
        (fq_backlog q)(t := if f then x # fq_backlog q t else fq_backlog q t @ [x])"
    using fq_push_inv [OF q] by (auto simp: fq_push_order fq_backlog_def [of "fq_push t x f q"]
        fq_backlog_def [of q] update_conv' fun_eq_iff)
next
  fix q :: "'a fair_queue"
  assume "fq_inv q" "fq_order q = []"
  then show "fq_pop_next q = (None, q)" by (cases rule: fq_pop_cases [where q = q]) auto
next
  fix q :: "'a fair_queue" and t ts x xs
  assume "fq_inv q" "fq_order q = t # ts" "fq_backlog q t = x # xs"
  then show "\<exists>q'. fq_pop_next q = (Some x, q') \<and> fq_inv q' \<and> fq_backlog q' = (fq_backlog q)(t := xs) \<and>
      fq_order q' = ts @ (if xs = [] then [] else [t])"
    by (cases rule: fq_pop_cases [where q = q]) auto
qed (rule fq_turns_backlog)

lemma fq_new_inv [simp]: "fq_inv fq_new"
  by (simp add: fq_inv_def fq_new_def fq_items_def)

lemma fq_new_simps [simp]: "fq_items fq_new = []" "fq_len fq_new = 0"
  by (simp_all add: fq_new_def fq_items_def)

lemma fq_len_items: "fq_inv q \<Longrightarrow> fq_len q = size (mset (fq_items q))"
  by (simp add: fq_inv_def)

lemma fq_drain_new: "fq_drain q = (fq_items q, fq_new)"
  by (simp add: fq_drain_def fq_items_def fq_new_def)

section \<open>The timer queue in order\<close>

text \<open>The parked tasks with their deadlines, in the order in which they come due.\<close>

definition tq_parked :: "'a timer_queue \<Rightarrow> (instant \<times> 'a) list" where
  "tq_parked q = map (\<lambda>(until, n). (until, the (map_of (tq_tasks q) n))) (tq_heap q)"

definition tq_inv :: "'a timer_queue \<Rightarrow> bool" where
  "tq_inv q \<longleftrightarrow> sorted (tq_heap q) \<and> distinct (map snd (tq_heap q)) \<and> distinct (map fst (tq_tasks q)) \<and>
     set (map snd (tq_heap q)) = set (map fst (tq_tasks q)) \<and>
     (\<forall>n \<in> set (map fst (tq_tasks q)). n \<le> tq_sequence q)"

lemma tq_new_inv [simp]: "tq_inv tq_new" and tq_new_parked [simp]: "tq_parked tq_new = []"
  by (simp_all add: tq_inv_def tq_new_def tq_parked_def)

lemma tq_len_parked:
  assumes "tq_inv q"
  shows "tq_len q = length (tq_parked q)"
proof -
  have "length (map snd (tq_heap q)) = length (map fst (tq_tasks q))"
    using assms unfolding tq_inv_def by (metis distinct_card)
  then show ?thesis by (simp add: tq_len_def tq_parked_def)
qed

lemma tq_park_fresh:
  assumes "tq_inv q"
  shows "tq_sequence q + 1 \<notin> fst ` set (tq_tasks q)" "tq_sequence q + 1 \<notin> snd ` set (tq_heap q)"
proof -
  have "\<forall>n \<in> fst ` set (tq_tasks q). n \<le> tq_sequence q" using assms by (simp add: tq_inv_def)
  then show "tq_sequence q + 1 \<notin> fst ` set (tq_tasks q)" by force
  moreover have "snd ` set (tq_heap q) = fst ` set (tq_tasks q)" using assms by (simp add: tq_inv_def)
  ultimately show "tq_sequence q + 1 \<notin> snd ` set (tq_heap q)" by simp
qed

lemma map_snd_insort: "mset (map snd (insort x xs)) = add_mset (snd x) (mset (map snd xs))"
  by (induction xs) auto

lemma tq_park_inv:
  assumes "tq_inv q"
  shows "tq_inv (tq_park until x q)"
proof -
  let ?n = "tq_sequence q + 1"
  note f = tq_park_fresh [OF assms]
  have i: "sorted (tq_heap q)" "distinct (map snd (tq_heap q))" "distinct (map fst (tq_tasks q))"
    "snd ` set (tq_heap q) = fst ` set (tq_tasks q)" "\<forall>n \<in> fst ` set (tq_tasks q). n \<le> tq_sequence q"
    using assms by (auto simp: tq_inv_def)
  have "distinct (map snd (insort (until, ?n) (tq_heap q)))"
    using map_snd_insort [of "(until, ?n)" "tq_heap q"] i(2) f(2)
    by (metis distinct.simps(2) list.set_map mset.simps(2) mset_eq_imp_distinct_iff snd_conv)
  moreover have "sorted (insort (until, ?n) (tq_heap q))" using i(1) by (simp add: sorted_insort)
  moreover have "snd ` set (insort (until, ?n) (tq_heap q)) = fst ` set (AList.update ?n x (tq_tasks q))"
    using i(4) by (simp add: set_insort_key dom_update)
  ultimately show ?thesis
    using i by (auto simp: tq_inv_def tq_park_def Let_def distinct_update dom_update)
qed

lemma tq_parked_park:
  assumes "tq_inv q"
  shows "mset (tq_parked (tq_park until x q)) = add_mset (until, x) (mset (tq_parked q))"
proof -
  let ?n = "tq_sequence q + 1"
  have other: "map_of (AList.update ?n x (tq_tasks q)) m = map_of (tq_tasks q) m" if "m \<in> snd ` set (tq_heap q)" for m
    using tq_park_fresh(2) [OF assms] that by (metis fun_upd_apply update_conv')
  have "mset (tq_parked (tq_park until x q)) =
      image_mset (\<lambda>(u, n). (u, the (map_of (AList.update ?n x (tq_tasks q)) n)))
        (add_mset (until, ?n) (mset (tq_heap q)))"
    by (simp add: tq_parked_def tq_park_def Let_def)
  also have "\<dots> = add_mset (until, x) (image_mset (\<lambda>(u, n). (u, the (map_of (AList.update ?n x (tq_tasks q)) n))) (mset (tq_heap q)))"
    by (simp add: update_conv')
  also have "image_mset (\<lambda>(u, n). (u, the (map_of (AList.update ?n x (tq_tasks q)) n))) (mset (tq_heap q)) =
      image_mset (\<lambda>(u, n). (u, the (map_of (tq_tasks q) n))) (mset (tq_heap q))"
    using other by (intro image_mset_cong) (force simp: split_beta)
  finally show ?thesis by (simp add: tq_parked_def)
qed

lemma tq_pop_cases:
  assumes "tq_inv q"
  obtains (idle) "tq_pop_due now q = (None, q)" "\<forall>(u, x) \<in> set (tq_parked q). now < u"
  | (due) u x q' where "tq_pop_due now q = (Some x, q')" "tq_inv q'" "u \<le> now"
      "tq_parked q = (u, x) # tq_parked q'"
proof (cases "tq_heap q")
  case Nil
  then show thesis using idle by (simp add: tq_pop_due_def tq_parked_def)
next
  case (Cons p heap)
  obtain u n where p: "p = (u, n)" by force
  have s: "\<forall>(v, m) \<in> set heap. u \<le> v" "sorted heap"
    using assms Cons p by (auto simp: tq_inv_def less_eq_prod_def split: prod.splits)
  show thesis
  proof (cases "now < u")
    case True
    then show thesis
      using idle Cons p s(1) by (force simp: tq_pop_due_def tq_parked_def)
  next
    case False
    have d: "distinct (map fst (tq_tasks q))" "n \<notin> snd ` set heap" "distinct (map snd heap)"
      and k: "insert n (snd ` set heap) = fst ` set (tq_tasks q)"
      and le: "\<forall>n \<in> fst ` set (tq_tasks q). n \<le> tq_sequence q"
      using assms Cons p by (auto simp: tq_inv_def)
    obtain x where x: "map_of (tq_tasks q) n = Some x"
      using k by (metis insertI1 map_of_eq_None_iff not_Some_eq)
    let ?q' = "q\<lparr>tq_heap := heap, tq_tasks := AList.delete n (tq_tasks q)\<rparr>"
    have kd: "snd ` set heap = fst ` set (AList.delete n (tq_tasks q))" using k d(2) by (auto simp: dom_delete)
    have "\<forall>n \<in> fst ` set (AList.delete n (tq_tasks q)). n \<le> tq_sequence q" using le by (auto simp: dom_delete)
    then have "tq_inv ?q'" using d s(2) kd by (simp add: tq_inv_def distinct_delete)
    moreover have "map_of (AList.delete n (tq_tasks q)) m = map_of (tq_tasks q) m" if "(v, m) \<in> set heap" for v m
      using d(2) that by (metis image_eqI map_of_delete snd_conv)
    then have "tq_parked q = (u, x) # tq_parked ?q'" using Cons p x by (auto simp: tq_parked_def)
    ultimately show thesis using due [of x ?q' u] Cons p x False by (simp add: tq_pop_due_def)
  qed
qed

lemma tq_parked_sorted: "tq_inv q \<Longrightarrow> sorted (map fst (tq_parked q))"
proof -
  assume "tq_inv q"
  then have "sorted (tq_heap q)" by (simp add: tq_inv_def)
  then have "sorted (map fst (tq_heap q))"
    by (auto simp: sorted_map less_eq_prod_def elim!: sorted_wrt_mono_rel [rotated])
  then show ?thesis by (simp add: tq_parked_def comp_def case_prod_unfold)
qed

lemma tq_drain_tasks:
  assumes "tq_inv q"
  shows "mset (fst (tq_drain q)) = mset (map snd (tq_parked q))" "tq_inv (snd (tq_drain q))"
    "tq_parked (snd (tq_drain q)) = []"
proof -
  have ks: "mset (map snd (tq_heap q)) = mset (map fst (tq_tasks q))"
    using assms unfolding tq_inv_def by (metis set_eq_iff_mset_eq_distinct)
  have "mset (map snd (tq_parked q)) = image_mset (\<lambda>n. the (map_of (tq_tasks q) n)) (mset (map snd (tq_heap q)))"
    by (simp add: tq_parked_def comp_def case_prod_unfold multiset.map_comp)
  also have "\<dots> = mset (map (\<lambda>(n, x). the (map_of (tq_tasks q) n)) (tq_tasks q))"
    unfolding ks by (simp add: comp_def case_prod_unfold multiset.map_comp)
  also have "map (\<lambda>(n, x). the (map_of (tq_tasks q) n)) (tq_tasks q) = map snd (tq_tasks q)"
    using assms by (auto simp: tq_inv_def)
  finally show "mset (fst (tq_drain q)) = mset (map snd (tq_parked q))" by (simp add: tq_drain_def)
qed (use assms in \<open>auto simp: tq_drain_def tq_inv_def tq_parked_def\<close>)

section \<open>Properties\<close>

text \<open>
  C29: the ready queue is fair across tenants. A tenant that waits at position \<open>i\<close> of the rotation is
  served by the pop that follows exactly \<open>i\<close> further pops, however many items any tenant pushes in
  between, and the item served is the one that headed its line unless one of its own was put in front.
\<close>

theorem fair_queue_serves_in_turn:
  assumes "fq_inv q" and "i < length (fq_order q)" and "pops ops = i"
  shows "\<exists>x. fst (fq_pop_next (fq.perform ops q)) = Some x \<and>
           x = hd (fq_backlog (fq.perform ops q) (fq_order q ! i)) \<and>
           (\<not> front_pushed (fq_order q ! i) ops \<longrightarrow> x = hd (fq_backlog q (fq_order q ! i)))"
proof -
  obtain ts where t: "fq_inv (fq.perform ops q)" "fq_order (fq.perform ops q) = fq_order q ! i # ts"
    "\<not> front_pushed (fq_order q ! i) ops \<longrightarrow>
       hd (fq_backlog (fq.perform ops q) (fq_order q ! i)) = hd (fq_backlog q (fq_order q ! i))"
    using fq.turn_comes [OF assms] by blast
  then show ?thesis by (cases rule: fq_pop_cases [OF t(1)]) auto
qed

theorem fair_queue_serves_in_turn_witness:
  "fst (fq_pop_next (fq.perform [Push ''a'' 3 False, Pop, Push ''a'' 4 True]
     (fq_push ''b'' (9::nat) False (fq_push ''a'' 2 False (fq_push ''a'' 1 False fq_new))))) = Some 9"
proof -
  let ?q = "fq_push ''b'' (9::nat) False (fq_push ''a'' 2 False (fq_push ''a'' 1 False fq_new))"
  have i: "fq_inv ?q" by (intro fq_push_inv fq_new_inv)
  have o: "fq_order ?q = [''a'', ''b'']" "fq_backlog ?q ''b'' = [9]" by code_simp+
  have "\<not> front_pushed ''b'' [Push ''a'' 3 False, Pop, Push ''a'' (4::nat) True]"
    "pops [Push ''a'' 3 False, Pop, Push ''a'' (4::nat) True] = 1"
    by (simp_all add: front_pushed_def pops_def)
  then show ?thesis
    using fair_queue_serves_in_turn [OF i, of 1 "[Push ''a'' 3 False, Pop, Push ''a'' 4 True]"] o by simp
qed

text \<open>
  The timer queue releases exactly what is due, earliest deadline first. Nothing leaves before its
  deadline; when something is due the task with the earliest deadline leaves and the others stay
  parked; parking adds one task with its deadline.
\<close>

theorem timer_queue_releases_when_due:
  assumes "tq_inv q"
  shows "(case tq_parked q of
            [] \<Rightarrow> tq_pop_due now q = (None, q)
          | (u, x) # rest \<Rightarrow>
              if now < u then tq_pop_due now q = (None, q)
              else fst (tq_pop_due now q) = Some x \<and> tq_parked (snd (tq_pop_due now q)) = rest)
       \<and> sorted (map fst (tq_parked q)) \<and> tq_next_due q = map_option fst (List.find (\<lambda>_. True) (tq_parked q))
       \<and> mset (tq_parked (tq_park until y q)) = add_mset (until, y) (mset (tq_parked q))"
proof -
  have "tq_next_due q = map_option fst (List.find (\<lambda>_. True) (tq_parked q))"
    by (auto simp: tq_next_due_def tq_parked_def split: list.splits)
  moreover have "case tq_parked q of [] \<Rightarrow> tq_pop_due now q = (None, q)
      | (u, x) # rest \<Rightarrow> if now < u then tq_pop_due now q = (None, q)
          else fst (tq_pop_due now q) = Some x \<and> tq_parked (snd (tq_pop_due now q)) = rest"
    using assms
  proof (cases rule: tq_pop_cases [where q = q and now = now])
    case idle
    then show ?thesis by (cases "tq_parked q") auto
  next
    case (due u x q')
    from due(1,3) show ?thesis unfolding due(4) by simp
  qed
  moreover note tq_parked_sorted [OF assms] tq_parked_park [OF assms, of until y]
  ultimately show ?thesis by (intro conjI)
qed

theorem timer_queue_releases_when_due_witness:
  "fst (tq_pop_due 7 (tq_park 5 CHR ''b'' (tq_park 9 CHR ''a'' tq_new))) = Some CHR ''b''"
proof -
  let ?q = "tq_park 5 CHR ''b'' (tq_park 9 CHR ''a'' tq_new)"
  have i: "tq_inv ?q" by (intro tq_park_inv tq_new_inv)
  have "tq_parked ?q = [(5, CHR ''b''), (9, CHR ''a'')]" by code_simp
  then show ?thesis using timer_queue_releases_when_due [OF i, of 7 0 undefined] by simp
qed

end
