(* ===== verification/Batch_Scheduler.thy ===== *)
theory Batch_Scheduler
  imports Rate_Limiter Scheduler_Queues
begin

text \<open>
  The batch scheduler, \<^verbatim>\<open>src/src/controller/batch_scheduler.rs\<close>: the job source that pages plans in,
  and the scheduling loop with its workers. The loop's straight-line parts are functions on the
  scheduler state; the step relation \<open>sched_step\<close> interleaves them with the worker threads, which run,
  release, finish or panic at any moment, and with an operator's cancellation.

  \<^verbatim>\<open>BulkJob\<close> is seen through what a task takes from it: its label, its form (a type parameter, the
  scheduler never looks inside) and the two side identities from which \<^verbatim>\<open>rate_domain_path\<close> builds the
  path. The job loader is the closure the batch launcher passes in: a parameter, with its own state.
  The executor's \<^verbatim>\<open>run_attempt\<close> is the worker steps; \<^verbatim>\<open>cancel_waiting\<close> and \<^verbatim>\<open>fail_unschedulable\<close> settle a
  job, recorded in \<open>sc_settled\<close>.
\<close>

section \<open>Tasks and their source\<close>

record 'f bulk_job =
  bj_label :: str
  bj_form :: 'f
  bj_source :: side_identity
  bj_destination :: side_identity

datatype imapsync_output_profile = Packaged2314 | Unknown_Profile

record 'f mailbox_task =
  mt_index :: nat
  mt_job_id :: str
  mt_child_run_id :: str
  mt_checkpoint :: "str option"
  mt_label :: str
  mt_form :: 'f
  mt_rate_path :: rate_path
  mt_attempt :: nat
  mt_introduced :: bool
  mt_imapsync_output_profile :: imapsync_output_profile
  mt_claimed :: bool
  mt_transfer_attempt_number :: nat
  mt_verification_failure :: "str option"
  mt_preparation_error :: "str option"
  mt_resume_at :: "instant option"

definition task_new ::
    "(str \<Rightarrow> str) \<Rightarrow> nat \<Rightarrow> str \<Rightarrow> str \<Rightarrow> str option \<Rightarrow> 'f bulk_job \<Rightarrow> 'f mailbox_task" where
  "task_new lower index job_id child_run_id checkpoint job =
     \<lparr>mt_index = index, mt_job_id = job_id, mt_child_run_id = child_run_id, mt_checkpoint = checkpoint,
      mt_label = bj_label job, mt_form = bj_form job,
      mt_rate_path = path_new lower (bj_source job) (bj_destination job),
      mt_attempt = 0, mt_introduced = False, mt_imapsync_output_profile = Unknown_Profile,
      mt_claimed = False, mt_transfer_attempt_number = 0, mt_verification_failure = None,
      mt_preparation_error = None, mt_resume_at = None\<rparr>"

text \<open>\<open>dflt\<close> stands for \<^verbatim>\<open>Form::default()\<close> with the identities of its empty profile.\<close>

definition task_unpreparable ::
    "(str \<Rightarrow> str) \<Rightarrow> 'f bulk_job \<Rightarrow> nat \<Rightarrow> str \<Rightarrow> str \<Rightarrow> str \<Rightarrow> 'f mailbox_task" where
  "task_unpreparable lower dflt index job_id child_run_id error =
     \<lparr>mt_index = index, mt_job_id = job_id, mt_child_run_id = child_run_id, mt_checkpoint = None,
      mt_label = [], mt_form = bj_form dflt,
      mt_rate_path = path_new lower (bj_source dflt) (bj_destination dflt),
      mt_attempt = 0, mt_introduced = False, mt_imapsync_output_profile = Unknown_Profile,
      mt_claimed = False, mt_transfer_attempt_number = 0, mt_verification_failure = None,
      mt_preparation_error = Some error, mt_resume_at = None\<rparr>"

record ('f, 'l) job_loader =
  ld_lower :: "str \<Rightarrow> str"
  ld_default :: "'f bulk_job"
  ld_load :: "'l \<Rightarrow> str list \<Rightarrow> (str + (str + 'f bulk_job) list) \<times> 'l"

definition LOAD_PAGE :: nat where "LOAD_PAGE = 64"

record ('f, 'l) job_source =
  js_job_ids :: "str list"
  js_child_run_ids :: "str list"
  js_checkpoints :: "str option list"
  js_loader :: 'l
  js_next :: nat
  js_page :: "(nat \<times> (str + 'f bulk_job)) list"
  js_resume_at :: "(str \<times> instant) list"

definition source_new :: "str list \<Rightarrow> str list \<Rightarrow> str option list \<Rightarrow> 'l \<Rightarrow> ('f, 'l) job_source" where
  "source_new job_ids child_run_ids checkpoints loader =
     \<lparr>js_job_ids = job_ids, js_child_run_ids = child_run_ids, js_checkpoints = checkpoints,
      js_loader = loader, js_next = 0, js_page = [], js_resume_at = []\<rparr>"

definition with_resume_deadlines ::
    "(str \<times> instant) list \<Rightarrow> ('f, 'l) job_source \<Rightarrow> ('f, 'l) job_source" where
  "with_resume_deadlines resume_at s = s\<lparr>js_resume_at := resume_at\<rparr>"

text \<open>The page load of \<^verbatim>\<open>next_task\<close>: whether it succeeded, and the source afterwards.\<close>

definition load_page :: "('f, 'l) job_loader \<Rightarrow> ('f, 'l) job_source \<Rightarrow> bool \<times> ('f, 'l) job_source" where
  "load_page ld s =
     (let next = js_next s;
          last = min (next + LOAD_PAGE) (length (js_job_ids s));
          (loaded, l) = ld_load ld (js_loader s) (take (last - next) (drop next (js_job_ids s)));
          s1 = s\<lparr>js_loader := l\<rparr>
      in case loaded of
           Inr jobs \<Rightarrow>
             if length jobs = last - next
             then (True, s1\<lparr>js_page := zip [next..<last] jobs, js_next := last\<rparr>)
             else (False, s1\<lparr>js_next := length (js_job_ids s)\<rparr>)
         | Inl _ \<Rightarrow> (False, s1\<lparr>js_next := length (js_job_ids s)\<rparr>))"

definition pop_page ::
    "('f, 'l) job_loader \<Rightarrow> ('f, 'l) job_source \<Rightarrow> (unit + 'f mailbox_task) option \<times> ('f, 'l) job_source" where
  "pop_page ld s =
     (case js_page s of
        [] \<Rightarrow> (None, s)
      | (index, job) # page \<Rightarrow>
          let s1 = s\<lparr>js_page := page\<rparr> in
          if index < length (js_job_ids s) \<and> index < length (js_child_run_ids s)
          then let job_id = js_job_ids s ! index;
                   child_run_id = js_child_run_ids s ! index;
                   checkpoint = (if index < length (js_checkpoints s) then js_checkpoints s ! index else None);
                   task = (case job of
                             Inr j \<Rightarrow> task_new (ld_lower ld) index job_id child_run_id checkpoint j
                           | Inl error \<Rightarrow> task_unpreparable (ld_lower ld) (ld_default ld) index job_id child_run_id error)
               in (Some (Inr (task\<lparr>mt_resume_at := map_of (js_resume_at s) job_id\<rparr>)),
                   s1\<lparr>js_resume_at := AList.delete job_id (js_resume_at s)\<rparr>)
          else (Some (Inl ()), s1))"

definition next_task ::
    "('f, 'l) job_loader \<Rightarrow> ('f, 'l) job_source \<Rightarrow> (unit + 'f mailbox_task) option \<times> ('f, 'l) job_source" where
  "next_task ld s =
     (if js_page s = [] then
        if length (js_job_ids s) \<le> js_next s then (None, s)
        else (case load_page ld s of
                (False, s1) \<Rightarrow> (Some (Inl ()), s1)
              | (True, s1) \<Rightarrow> pop_page ld s1)
      else pop_page ld s)"

section \<open>The scheduler's state\<close>

datatype 'f attempt_outcome = Attempt_Finished | Attempt_Retry "'f mailbox_task" duration

datatype 'f worker_report = Report_Attempt "'f attempt_outcome" | Report_Panicked

text \<open>How a job left the batch: its attempt ended it, it was cancelled while waiting, it could not be
  scheduled, its worker panicked, or no worker was there to receive it.\<close>

datatype settlement = By_Attempt | By_Cancel | By_Accounting | By_Limiter | By_Panic | By_Undelivered

datatype sched_mode = At_Top | Dispatching | Checking | Waiting | Exited

text \<open>A dispatched attempt; \<open>att_held\<close>: its admission has not been dropped yet.\<close>

record 'f attempt =
  att_task :: "'f mailbox_task"
  att_admission :: admission
  att_held :: bool

record ('f, 'l) scheduler =
  sc_ready :: "'f mailbox_task fair_queue"
  sc_timers :: "'f mailbox_task timer_queue"
  sc_slot_waiting :: "'f mailbox_task list"
  sc_source :: "('f, 'l) job_source"
  sc_source_open :: bool
  sc_alive :: nat
  sc_busy :: nat
  sc_worker_panicked :: bool
  sc_enqueue_failed :: bool
  sc_limiter :: limiter
  sc_cancelled :: bool
  sc_failed :: bool
  sc_running :: "'f attempt list"
  sc_reports :: "'f worker_report list"
  sc_live_workers :: nat
  sc_settled :: "(nat \<times> settlement) list"
  sc_mode :: sched_mode

definition worker_count :: "nat \<Rightarrow> nat \<Rightarrow> nat" where
  "worker_count concurrency verification_workers = saturating_add_u64 (max concurrency 1) verification_workers"

definition lookahead :: "nat \<Rightarrow> nat" where
  "lookahead workers = max (saturating_mul_u64 workers 2) 1"

definition max_parked :: "nat \<Rightarrow> nat" where
  "max_parked workers = max (saturating_mul_u64 workers 64) 256"

definition schedule_start :: "nat \<Rightarrow> limiter \<Rightarrow> ('f, 'l) job_source \<Rightarrow> ('f, 'l) scheduler" where
  "schedule_start workers L source =
     \<lparr>sc_ready = fq_new, sc_timers = tq_new, sc_slot_waiting = [], sc_source = source,
      sc_source_open = True, sc_alive = workers, sc_busy = 0, sc_worker_panicked = False,
      sc_enqueue_failed = False, sc_limiter = set_release_notifier L (Some False), sc_cancelled = False,
      sc_failed = False, sc_running = [], sc_reports = [], sc_live_workers = workers,
      sc_settled = [], sc_mode = At_Top\<rparr>"

section \<open>The parts of one iteration\<close>

definition requeue :: "bool \<Rightarrow> 'f mailbox_task \<Rightarrow> 'f mailbox_task fair_queue \<Rightarrow> 'f mailbox_task fair_queue" where
  "requeue front task ready = fq_push (fairness_key (mt_rate_path task)) task front ready"

definition settle :: "settlement \<Rightarrow> 'f mailbox_task \<Rightarrow> ('f, 'l) scheduler \<Rightarrow> ('f, 'l) scheduler" where
  "settle how task s = s\<lparr>sc_settled := sc_settled s @ [(mt_index task, how)]\<rparr>"

definition source_failed :: "('f, 'l) scheduler \<Rightarrow> ('f, 'l) scheduler" where
  "source_failed s = s\<lparr>sc_failed := True, sc_enqueue_failed := True, sc_source_open := False\<rparr>"

text \<open>Jobs the source still holds: the termination measure of the loops that read it.\<close>

definition source_left :: "('f, 'l) job_source \<Rightarrow> nat" where
  "source_left s = length (js_page s) + (length (js_job_ids s) - js_next s)"

lemma next_task_left:
  assumes "next_task ld s = (Some (Inr task), s')"
  shows "source_left s' < source_left s"
proof -
  have p: "source_left b < source_left a" if "pop_page ld a = (Some (Inr task), b)" for a b
    using that by (auto simp: pop_page_def source_left_def Let_def split: list.splits if_splits sum.splits)
  have l: "source_left b = source_left a" if "load_page ld a = (True, b)" "js_page a = []" for a b
    using that by (auto simp: load_page_def source_left_def Let_def split: prod.splits sum.splits if_splits)
  show ?thesis
    using assms p l by (auto simp: next_task_def split: if_splits prod.splits bool.splits) (metis p l)
qed

function cancel_source :: "('f, 'l) job_loader \<Rightarrow> ('f, 'l) scheduler \<Rightarrow> ('f, 'l) scheduler" where
  "cancel_source ld s =
     (if \<not> sc_source_open s then s
      else case next_task ld (sc_source s) of
             (Some (Inr task), src) \<Rightarrow> cancel_source ld (settle By_Cancel task (s\<lparr>sc_source := src\<rparr>))
           | (Some (Inl _), src) \<Rightarrow> source_failed (s\<lparr>sc_source := src\<rparr>)
           | (None, src) \<Rightarrow> s\<lparr>sc_source := src, sc_source_open := False\<rparr>)"
  by pat_completeness auto
termination
  by (relation "measure (\<lambda>(ld, s). source_left (sc_source s))") (auto simp: settle_def dest!: next_task_left [OF sym])

definition cancel_all :: "('f, 'l) job_loader \<Rightarrow> ('f, 'l) scheduler \<Rightarrow> ('f, 'l) scheduler" where
  "cancel_all ld s =
     (let (r, ready) = fq_drain (sc_ready s);
          (t, timers) = tq_drain (sc_timers s);
          s1 = s\<lparr>sc_ready := ready, sc_timers := timers, sc_slot_waiting := []\<rparr>
      in cancel_source ld (fold (settle By_Cancel) (r @ t @ sc_slot_waiting s) s1))"

lemma tq_pop_due_heap:
  "tq_pop_due now q = (Some x, q') \<Longrightarrow> length (tq_heap q') < length (tq_heap q)"
  by (auto simp: tq_pop_due_def split: list.splits if_splits)

function release_due ::
    "instant \<Rightarrow> 'f mailbox_task timer_queue \<Rightarrow> 'f mailbox_task fair_queue \<Rightarrow>
     'f mailbox_task timer_queue \<times> 'f mailbox_task fair_queue" where
  "release_due now timers ready =
     (case tq_pop_due now timers of
        (None, timers1) \<Rightarrow> (timers1, ready)
      | (Some task, timers1) \<Rightarrow> release_due now timers1 (requeue False task ready))"
  by pat_completeness auto
termination
  by (relation "measure (\<lambda>(now, timers, ready). length (tq_heap timers))") (auto dest!: tq_pop_due_heap [OF sym])

text \<open>A loaded task goes to the timers when it carries a later retry deadline, else to the ready queue.\<close>

definition enqueue_loaded :: "instant \<Rightarrow> 'f mailbox_task \<Rightarrow> ('f, 'l) scheduler \<Rightarrow> ('f, 'l) scheduler" where
  "enqueue_loaded now task s =
     (let task1 = task\<lparr>mt_resume_at := None\<rparr> in
      case mt_resume_at task of
        Some deadline \<Rightarrow>
          if now < deadline then s\<lparr>sc_timers := tq_park deadline task1 (sc_timers s)\<rparr>
          else s\<lparr>sc_ready := requeue False task1 (sc_ready s)\<rparr>
      | None \<Rightarrow> s\<lparr>sc_ready := requeue False task1 (sc_ready s)\<rparr>)"

definition waiting_count :: "('f, 'l) scheduler \<Rightarrow> nat" where
  "waiting_count s = fq_len (sc_ready s) + tq_len (sc_timers s) + length (sc_slot_waiting s)"

function fill ::
    "('f, 'l) job_loader \<Rightarrow> nat \<Rightarrow> instant \<Rightarrow> ('f, 'l) scheduler \<Rightarrow> ('f, 'l) scheduler" where
  "fill ld workers now s =
     (if sc_source_open s \<and> fq_len (sc_ready s) < lookahead workers \<and> waiting_count s < max_parked workers
      then case next_task ld (sc_source s) of
             (Some (Inr task), src) \<Rightarrow> fill ld workers now (enqueue_loaded now task (s\<lparr>sc_source := src\<rparr>))
           | (Some (Inl _), src) \<Rightarrow> source_failed (s\<lparr>sc_source := src\<rparr>)
           | (None, src) \<Rightarrow> s\<lparr>sc_source := src, sc_source_open := False\<rparr>
      else s)"
  by pat_completeness auto
termination
  by (relation "measure (\<lambda>(ld, workers, now, s). source_left (sc_source s))")
     (auto simp: enqueue_loaded_def Let_def split: option.splits dest!: next_task_left [OF sym])

declare cancel_source.simps [simp del] release_due.simps [simp del] fill.simps [simp del]

definition scheduler_top :: "('f, 'l) job_loader \<Rightarrow> nat \<Rightarrow> instant \<Rightarrow> ('f, 'l) scheduler \<Rightarrow> ('f, 'l) scheduler" where
  "scheduler_top ld workers now s =
     (if sc_cancelled s then (cancel_all ld s)\<lparr>sc_mode := Checking\<rparr>
      else let (timers, ready) = release_due now (sc_timers s) (sc_ready s)
           in (fill ld workers now (s\<lparr>sc_timers := timers, sc_ready := ready\<rparr>))\<lparr>sc_mode := Dispatching\<rparr>)"

text \<open>One pass of the dispatch loop, entered with \<open>busy < alive\<close>.\<close>

definition dispatch_one :: "instant \<Rightarrow> ('f, 'l) scheduler \<Rightarrow> ('f, 'l) scheduler" where
  "dispatch_one now s =
     (case fq_pop_next (sc_ready s) of
        (None, ready) \<Rightarrow> s\<lparr>sc_ready := ready, sc_mode := Checking\<rparr>
      | (Some task, ready) \<Rightarrow>
          let s1 = s\<lparr>sc_ready := ready\<rparr> in
          case try_admit (sc_limiter s) (mt_rate_path task) now of
            (Inr admission, L) \<Rightarrow>
              if sc_live_workers s = 0
              then settle By_Undelivered task
                     (s1\<lparr>sc_limiter := release L (adm_path admission) now, sc_alive := 0, sc_mode := Checking\<rparr>)
              else s1\<lparr>sc_limiter := L, sc_busy := sc_busy s + 1,
                      sc_running := sc_running s @
                        [\<lparr>att_task = task, att_admission = admission, att_held = True\<rparr>]\<rparr>
          | (Inl (Until u), _) \<Rightarrow> s1\<lparr>sc_timers := tq_park u task (sc_timers s)\<rparr>
          | (Inl Slot, _) \<Rightarrow>
              if 0 < sc_busy s then s1\<lparr>sc_slot_waiting := sc_slot_waiting s @ [task]\<rparr>
              else settle By_Accounting task s1
          | (Inl Unavailable, _) \<Rightarrow> settle By_Limiter task s1)"

definition check_exit :: "('f, 'l) scheduler \<Rightarrow> ('f, 'l) scheduler" where
  "check_exit s =
     (let drained = \<not> sc_source_open s \<and> fq_is_empty (sc_ready s) \<and> tq_len (sc_timers s) = 0 in
      if sc_busy s = 0 \<and> (sc_alive s = 0 \<or> drained \<and> sc_slot_waiting s = [])
      then s\<lparr>sc_limiter := set_release_notifier (sc_limiter s) None, sc_mode := Exited\<rparr>
      else s\<lparr>sc_mode := Waiting\<rparr>)"

definition requeue_slots :: "('f, 'l) scheduler \<Rightarrow> ('f, 'l) scheduler" where
  "requeue_slots s =
     s\<lparr>sc_ready := fold (requeue True) (rev (sc_slot_waiting s)) (sc_ready s), sc_slot_waiting := []\<rparr>"

definition handle_report :: "instant \<Rightarrow> 'f worker_report \<Rightarrow> ('f, 'l) scheduler \<Rightarrow> ('f, 'l) scheduler" where
  "handle_report now report s =
     (let s1 = s\<lparr>sc_busy := sc_busy s - 1\<rparr> in
      case report of
        Report_Attempt Attempt_Finished \<Rightarrow> s1
      | Report_Attempt (Attempt_Retry task delay) \<Rightarrow>
          if sc_cancelled s then settle By_Cancel task s1
          else s1\<lparr>sc_timers := tq_park (now + delay) task (sc_timers s)\<rparr>
      | Report_Panicked \<Rightarrow>
          s1\<lparr>sc_alive := sc_alive s - 1, sc_worker_panicked := True, sc_failed := True\<rparr>)"

definition receive_report :: "instant \<Rightarrow> 'f worker_report \<Rightarrow> ('f, 'l) scheduler \<Rightarrow> ('f, 'l) scheduler" where
  "receive_report now report s = (requeue_slots (handle_report now report s))\<lparr>sc_mode := At_Top\<rparr>"

definition receive_release :: "('f, 'l) scheduler \<Rightarrow> ('f, 'l) scheduler" where
  "receive_release s =
     (requeue_slots (s\<lparr>sc_limiter := set_release_notifier (sc_limiter s) (Some False)\<rparr>))\<lparr>sc_mode := At_Top\<rparr>"

section \<open>The workers\<close>

definition drop_held :: "instant \<Rightarrow> 'f attempt \<Rightarrow> limiter \<Rightarrow> limiter" where
  "drop_held now a L = (if att_held a then release L (adm_path (att_admission a)) now else L)"

definition worker_release ::
    "instant \<Rightarrow> 'f attempt list \<Rightarrow> 'f attempt \<Rightarrow> 'f attempt list \<Rightarrow> ('f, 'l) scheduler \<Rightarrow> ('f, 'l) scheduler" where
  "worker_release now before a after s =
     s\<lparr>sc_limiter := drop_held now a (sc_limiter s), sc_running := before @ a\<lparr>att_held := False\<rparr> # after\<rparr>"

definition worker_done ::
    "instant \<Rightarrow> 'f attempt list \<Rightarrow> 'f attempt \<Rightarrow> 'f attempt list \<Rightarrow> 'f attempt_outcome \<Rightarrow>
     ('f, 'l) scheduler \<Rightarrow> ('f, 'l) scheduler" where
  "worker_done now before a after outcome s =
     (let s1 = s\<lparr>sc_limiter := drop_held now a (sc_limiter s), sc_running := before @ after,
                 sc_reports := sc_reports s @ [Report_Attempt outcome]\<rparr>
      in case outcome of
           Attempt_Finished \<Rightarrow> settle By_Attempt (att_task a) s1
         | Attempt_Retry _ _ \<Rightarrow> s1)"

definition worker_panic ::
    "instant \<Rightarrow> 'f attempt list \<Rightarrow> 'f attempt \<Rightarrow> 'f attempt list \<Rightarrow> ('f, 'l) scheduler \<Rightarrow> ('f, 'l) scheduler" where
  "worker_panic now before a after s =
     settle By_Panic (att_task a)
       (s\<lparr>sc_limiter := drop_held now a (sc_limiter s), sc_running := before @ after,
          sc_reports := sc_reports s @ [Report_Panicked], sc_live_workers := sc_live_workers s - 1\<rparr>)"

section \<open>Interleavings\<close>

inductive sched_step :: "('f, 'l) job_loader \<Rightarrow> nat \<Rightarrow> ('f, 'l) scheduler \<Rightarrow> ('f, 'l) scheduler \<Rightarrow> bool"
  for ld workers where
  top: "sc_mode s = At_Top \<Longrightarrow> sched_step ld workers s (scheduler_top ld workers now s)"
| dispatch: "sc_mode s = Dispatching \<Longrightarrow> sc_busy s < sc_alive s \<Longrightarrow>
    sched_step ld workers s (dispatch_one now s)"
| all_busy: "sc_mode s = Dispatching \<Longrightarrow> sc_alive s \<le> sc_busy s \<Longrightarrow>
    sched_step ld workers s (s\<lparr>sc_mode := Checking\<rparr>)"
| check: "sc_mode s = Checking \<Longrightarrow> sched_step ld workers s (check_exit s)"
| report: "sc_mode s = Waiting \<Longrightarrow> sc_reports s = r # rs \<Longrightarrow>
    sched_step ld workers s (receive_report now r (s\<lparr>sc_reports := rs\<rparr>))"
| released: "sc_mode s = Waiting \<Longrightarrow> notifier (sc_limiter s) = Some True \<Longrightarrow>
    sched_step ld workers s (receive_release s)"
| timeout: "sc_mode s = Waiting \<Longrightarrow> sched_step ld workers s (s\<lparr>sc_mode := At_Top\<rparr>)"
| disconnected: "sc_mode s = Waiting \<Longrightarrow> sc_reports s = [] \<Longrightarrow> sc_live_workers s = 0 \<Longrightarrow>
    sched_step ld workers s
      (s\<lparr>sc_limiter := set_release_notifier (sc_limiter s) None, sc_mode := Exited\<rparr>)"
| cancel: "sched_step ld workers s (s\<lparr>sc_cancelled := True\<rparr>)"
| observe: "a \<in> set (sc_running s) \<Longrightarrow> observes (sc_limiter s) L \<Longrightarrow>
    sched_step ld workers s (s\<lparr>sc_limiter := L\<rparr>)"
| poison: "sched_step ld workers s (s\<lparr>sc_limiter := (sc_limiter s)\<lparr>poisoned := True\<rparr>\<rparr>)"
| early_release: "sc_running s = before @ a # after \<Longrightarrow>
    sched_step ld workers s (worker_release now before a after s)"
| finish: "sc_running s = before @ a # after \<Longrightarrow>
    sched_step ld workers s (worker_done now before a after Attempt_Finished s)"
| retry: "sc_running s = before @ a # after \<Longrightarrow> mt_index task = mt_index (att_task a) \<Longrightarrow>
    mt_rate_path task = mt_rate_path (att_task a) \<Longrightarrow>
    sched_step ld workers s (worker_done now before a after (Attempt_Retry task delay) s)"
| panic: "sc_running s = before @ a # after \<Longrightarrow>
    sched_step ld workers s (worker_panic now before a after s)"

inductive sched_reach ::
    "('f, 'l) job_loader \<Rightarrow> nat \<Rightarrow> ('f, 'l) scheduler \<Rightarrow> ('f, 'l) scheduler \<Rightarrow> bool" for ld workers s0 where
  start: "sched_reach ld workers s0 s0"
| step: "sched_reach ld workers s0 s \<Longrightarrow> sched_step ld workers s s' \<Longrightarrow> sched_reach ld workers s0 s'"

end
