(* ===== verification/Scheduler_Safety.thy ===== *)
theory Scheduler_Safety
  imports Batch_Scheduler
begin

text \<open>
  Correctness of the batch scheduler over every interleaving of its loop with its workers: no job is
  lost or settled twice, the number of materialised jobs is bounded, the limiter's slots are always
  accounted for by a running attempt, and a task that waits for a slot is always going to be woken.
  The limiter's laws come from \<open>Rate_Limiter\<close>, the queues' from \<open>Scheduler_Queues\<close>.
\<close>

section \<open>The jobs and where they are\<close>

definition source_indices :: "('f, 'l) job_source \<Rightarrow> nat multiset" where
  "source_indices s = mset (map fst (js_page s)) + mset [js_next s..<length (js_job_ids s)]"

fun retry_task :: "'f worker_report \<Rightarrow> 'f mailbox_task list" where
  "retry_task (Report_Attempt (Attempt_Retry t d)) = [t]"
| "retry_task _ = []"

definition waiting_tasks :: "('f, 'l) scheduler \<Rightarrow> 'f mailbox_task multiset" where
  "waiting_tasks s =
     mset (fq_items (sc_ready s)) + mset (map snd (tq_parked (sc_timers s))) + mset (sc_slot_waiting s)"

definition flying_tasks :: "('f, 'l) scheduler \<Rightarrow> 'f mailbox_task multiset" where
  "flying_tasks s = mset (map att_task (sc_running s)) + mset (concat (map retry_task (sc_reports s)))"

definition accounted :: "('f, 'l) scheduler \<Rightarrow> nat multiset" where
  "accounted s =
     image_mset mt_index (waiting_tasks s + flying_tasks s) + mset (map fst (sc_settled s)) +
     (if sc_source_open s then source_indices (sc_source s) else {#})"

text \<open>A step accounts for every job it had, unless it gives up on the source and records the failure.\<close>

definition keeps_jobs :: "('f, 'l) scheduler \<Rightarrow> ('f, 'l) scheduler \<Rightarrow> bool" where
  "keeps_jobs s s' \<longleftrightarrow> accounted s' \<subseteq># accounted s \<and>
     (\<not> sc_enqueue_failed s' \<longrightarrow> \<not> sc_enqueue_failed s \<and> accounted s' = accounted s)"

lemma keeps_jobs_refl: "accounted s' = accounted s \<Longrightarrow> sc_enqueue_failed s' = sc_enqueue_failed s \<Longrightarrow> keeps_jobs s s'"
  by (simp add: keeps_jobs_def)

lemma keeps_jobs_trans: "keeps_jobs s1 s2 \<Longrightarrow> keeps_jobs s2 s3 \<Longrightarrow> keeps_jobs s1 s3"
  by (auto simp: keeps_jobs_def)

lemma keeps_jobs_source_failed:
  "keeps_jobs s (source_failed (s\<lparr>sc_source := src\<rparr>))"
  by (simp add: keeps_jobs_def source_failed_def accounted_def waiting_tasks_def flying_tasks_def)

definition queues_ok :: "('f, 'l) scheduler \<Rightarrow> bool" where
  "queues_ok s \<longleftrightarrow> fq_inv (sc_ready s) \<and> tq_inv (sc_timers s) \<and>
     (\<forall>t \<in># waiting_tasks s + flying_tasks s. wf_path (mt_rate_path t))"

lemma waiting_count_size: "queues_ok s \<Longrightarrow> waiting_count s = size (waiting_tasks s)"
  by (simp add: queues_ok_def waiting_count_def waiting_tasks_def fq_len_items tq_len_parked)

section \<open>The source\<close>

lemma pop_page_cases:
  obtains (none) "js_page s = []" "pop_page ld s = (None, s)"
  | (bad) s' where "pop_page ld s = (Some (Inl ()), s')"
  | (task) task s' where "pop_page ld s = (Some (Inr task), s')"
      "source_indices s = add_mset (mt_index task) (source_indices s')" "wf_path (mt_rate_path task)"
      "mt_index task < length (js_job_ids s)" "mt_job_id task = js_job_ids s ! mt_index task"
proof (cases "js_page s")
  case Nil
  then show thesis using none by (simp add: pop_page_def)
next
  case (Cons p page)
  obtain i job where p: "p = (i, job)" by force
  show thesis
  proof (cases "i < length (js_job_ids s) \<and> i < length (js_child_run_ids s)")
    case True
    then have "\<exists>task s'. pop_page ld s = (Some (Inr task), s') \<and>
        source_indices s = add_mset (mt_index task) (source_indices s') \<and> wf_path (mt_rate_path task) \<and>
        mt_index task < length (js_job_ids s) \<and> mt_job_id task = js_job_ids s ! mt_index task"
      using Cons p path_new_wf
      by (cases job) (simp_all add: pop_page_def Let_def source_indices_def task_new_def task_unpreparable_def)
    then show thesis using task by blast
  next
    case False
    then show thesis using bad Cons p by (auto simp: pop_page_def Let_def)
  qed
qed

lemma load_page_indices:
  assumes "load_page ld s = (True, s')" and "js_page s = []" and "js_next s < length (js_job_ids s)"
  shows "source_indices s' = source_indices s \<and> js_page s' \<noteq> [] \<and> js_job_ids s' = js_job_ids s"
proof -
  let ?last = "min (js_next s + LOAD_PAGE) (length (js_job_ids s))"
  have l: "js_next s < ?last" "?last \<le> length (js_job_ids s)" using assms(3) by (auto simp: LOAD_PAGE_def)
  then have u: "mset [js_next s..<length (js_job_ids s)] =
      mset [js_next s..<?last] + mset [?last..<length (js_job_ids s)]"
    by (metis add_diff_inverse_nat less_imp_le_nat mset_append not_le upt_add_eq_append)
  have "map fst (js_page s') = [js_next s..<?last] \<and> js_next s' = ?last \<and> js_job_ids s' = js_job_ids s"
    using assms(1) by (auto simp: load_page_def Let_def split: prod.splits sum.splits if_splits)
  moreover from this have "js_page s' \<noteq> []" using l(1) by (metis list.simps(8) not_le upt_eq_Nil_conv less_zeroE)
  ultimately show ?thesis using u assms(2) unfolding source_indices_def by simp
qed

lemma next_task_cases:
  obtains (none) "next_task ld s = (None, s)" "source_indices s = {#}"
  | (bad) s' where "next_task ld s = (Some (Inl ()), s')"
  | (task) task s' where "next_task ld s = (Some (Inr task), s')"
      "source_indices s = add_mset (mt_index task) (source_indices s')" "wf_path (mt_rate_path task)"
      "mt_index task < length (js_job_ids s)" "mt_job_id task = js_job_ids s ! mt_index task"
proof (cases "js_page s = []")
  case False
  then show thesis
  proof (cases rule: pop_page_cases [where s = s and ld = ld])
    case (bad s')
    then show thesis using that(2) False by (simp add: next_task_def)
  next
    case (task task s')
    then show thesis using that(3) False by (simp add: next_task_def)
  qed simp
next
  case page: True
  show thesis
  proof (cases "length (js_job_ids s) \<le> js_next s")
    case True
    then show thesis using none page by (simp add: next_task_def source_indices_def)
  next
    case False
    obtain ok s1 where l: "load_page ld s = (ok, s1)" by force
    show thesis
    proof (cases ok)
      case False
      then show thesis using bad page l \<open>\<not> length (js_job_ids s) \<le> js_next s\<close> by (simp add: next_task_def)
    next
      case ok: True
      have n: "next_task ld s = pop_page ld s1" using page l False ok by (simp add: next_task_def)
      have i: "source_indices s1 = source_indices s" "js_page s1 \<noteq> []" "js_job_ids s1 = js_job_ids s"
        using load_page_indices [of ld s s1] l ok page False by auto
      show thesis
      proof (cases rule: pop_page_cases [where s = s1 and ld = ld])
        case (bad s')
        then show thesis using that(2) n by simp
      next
        case (task task s')
        then show thesis using that(3) n i by simp
      qed (use i in simp)
    qed
  qed
qed

section \<open>The loops over the queues\<close>

lemma fq_items_requeue:
  "fq_inv q \<Longrightarrow> mset (fq_items (requeue f t q)) = add_mset t (mset (fq_items q))"
  "fq_inv q \<Longrightarrow> fq_inv (requeue f t q)"
  by (simp_all add: requeue_def fq_items_push fq_push_inv)

lemma requeue_fold:
  "fq_inv q \<Longrightarrow> fq_inv (fold (requeue f) ts q) \<and>
     mset (fq_items (fold (requeue f) ts q)) = mset ts + mset (fq_items q)"
  by (induction ts arbitrary: q) (simp_all add: fq_items_requeue)

lemma release_due_ok:
  assumes "tq_inv timers" and "fq_inv ready" and "release_due now timers ready = (timers', ready')"
  shows "tq_inv timers' \<and> fq_inv ready' \<and>
    mset (fq_items ready') + mset (map snd (tq_parked timers')) =
      mset (fq_items ready) + mset (map snd (tq_parked timers)) \<and>
    (\<forall>(u, t) \<in> set (tq_parked timers'). now < u)"
  using assms
proof (induction now timers ready arbitrary: timers' ready' rule: release_due.induct)
  case (1 now timers ready)
  from 1(2) show ?case
  proof (cases rule: tq_pop_cases [where q = timers and now = now])
    case idle
    then show ?thesis using 1(2-4) by (simp add: release_due.simps [of now timers])
  next
    case (due u x q')
    have "release_due now q' (requeue False x ready) = (timers', ready')"
      using 1(4) due(1) by (simp add: release_due.simps [of now timers])
    from 1(1) [OF due(1) [symmetric] refl due(2) _ this] 1(3) due(4) show ?thesis
      by (simp add: fq_items_requeue)
  qed
qed

lemma fold_settle:
  "fold (settle h) ts s = s\<lparr>sc_settled := sc_settled s @ map (\<lambda>t. (mt_index t, h)) ts\<rparr>"
  by (induction ts arbitrary: s) (simp_all add: settle_def)

lemma enqueue_loaded_simps [simp]:
  "sc_slot_waiting (enqueue_loaded now t s) = sc_slot_waiting s"
  "sc_source (enqueue_loaded now t s) = sc_source s"
  "sc_source_open (enqueue_loaded now t s) = sc_source_open s"
  "sc_alive (enqueue_loaded now t s) = sc_alive s" "sc_busy (enqueue_loaded now t s) = sc_busy s"
  "sc_worker_panicked (enqueue_loaded now t s) = sc_worker_panicked s"
  "sc_enqueue_failed (enqueue_loaded now t s) = sc_enqueue_failed s"
  "sc_limiter (enqueue_loaded now t s) = sc_limiter s"
  "sc_cancelled (enqueue_loaded now t s) = sc_cancelled s" "sc_failed (enqueue_loaded now t s) = sc_failed s"
  "sc_running (enqueue_loaded now t s) = sc_running s" "sc_reports (enqueue_loaded now t s) = sc_reports s"
  "sc_live_workers (enqueue_loaded now t s) = sc_live_workers s"
  "sc_settled (enqueue_loaded now t s) = sc_settled s" "sc_mode (enqueue_loaded now t s) = sc_mode s"
  by (simp_all add: enqueue_loaded_def Let_def split: option.splits)

lemma enqueue_loaded_queues:
  assumes "fq_inv (sc_ready s)" and "tq_inv (sc_timers s)"
  shows "fq_inv (sc_ready (enqueue_loaded now t s)) \<and> tq_inv (sc_timers (enqueue_loaded now t s)) \<and>
    waiting_tasks (enqueue_loaded now t s) = add_mset (t\<lparr>mt_resume_at := None\<rparr>) (waiting_tasks s)"
  using assms
  by (auto simp: enqueue_loaded_def Let_def waiting_tasks_def fq_items_requeue tq_park_inv tq_parked_park
      split: option.splits)

lemma source_failed_simps [simp]:
  "sc_ready (source_failed s) = sc_ready s" "sc_timers (source_failed s) = sc_timers s"
  "sc_slot_waiting (source_failed s) = sc_slot_waiting s" "sc_alive (source_failed s) = sc_alive s"
  "sc_busy (source_failed s) = sc_busy s" "sc_worker_panicked (source_failed s) = sc_worker_panicked s"
  "sc_enqueue_failed (source_failed s)" "sc_limiter (source_failed s) = sc_limiter s"
  "sc_cancelled (source_failed s) = sc_cancelled s" "sc_failed (source_failed s)"
  "sc_running (source_failed s) = sc_running s" "sc_reports (source_failed s) = sc_reports s"
  "sc_live_workers (source_failed s) = sc_live_workers s" "sc_settled (source_failed s) = sc_settled s"
  "\<not> sc_source_open (source_failed s)" "sc_mode (source_failed s) = sc_mode s"
  by (simp_all add: source_failed_def)

text \<open>What the loops over the source leave alone: the workers, the limiter and the slot waiters.\<close>

definition same_workers :: "('f, 'l) scheduler \<Rightarrow> ('f, 'l) scheduler \<Rightarrow> bool" where
  "same_workers s s' \<longleftrightarrow>
     sc_alive s' = sc_alive s \<and> sc_busy s' = sc_busy s \<and> sc_worker_panicked s' = sc_worker_panicked s \<and>
     sc_limiter s' = sc_limiter s \<and> sc_running s' = sc_running s \<and> sc_reports s' = sc_reports s \<and>
     sc_live_workers s' = sc_live_workers s \<and> sc_slot_waiting s' = sc_slot_waiting s \<and>
     (sc_failed s \<longrightarrow> sc_failed s') \<and> (sc_enqueue_failed s' \<longrightarrow> sc_failed s' \<or> sc_enqueue_failed s)"

lemma same_workers_trans: "same_workers s1 s2 \<Longrightarrow> same_workers s2 s3 \<Longrightarrow> same_workers s1 s3"
  by (auto simp: same_workers_def)

definition good_settlement :: "settlement \<Rightarrow> bool" where
  "good_settlement h \<longleftrightarrow> h \<noteq> By_Accounting \<and> h \<noteq> By_Undelivered"

definition settled_ok :: "('f, 'l) scheduler \<Rightarrow> bool" where
  "settled_ok s \<longleftrightarrow> list_all (\<lambda>(i, h). good_settlement h) (sc_settled s)"

lemma fill_ok:
  assumes "queues_ok s"
  shows "queues_ok (fill ld w now s) \<and> keeps_jobs s (fill ld w now s) \<and> same_workers s (fill ld w now s) \<and>
    sc_settled (fill ld w now s) = sc_settled s \<and> 
    size (waiting_tasks (fill ld w now s)) \<le> max (size (waiting_tasks s)) (max_parked w)"
  using assms
proof (induction ld w now s rule: fill.induct)
  case (1 ld w now s)
  show ?case
  proof (cases "sc_source_open s \<and> fq_len (sc_ready s) < lookahead w \<and> waiting_count s < max_parked w")
    case False
    then have "fill ld w now s = s" unfolding fill.simps [of ld w now s] by (rule if_not_P)
    then show ?thesis using 1(2) by (simp add: keeps_jobs_refl same_workers_def)
  next
    case guard: True
    note unfold = fill.simps [of ld w now s]
    show ?thesis
    proof (cases rule: next_task_cases [where ld = ld and s = "sc_source s"])
      case none
      then show ?thesis
        using 1(2) guard
        by (auto simp: unfold queues_ok_def waiting_tasks_def flying_tasks_def same_workers_def
            keeps_jobs_def accounted_def)
    next
      case (bad src)
      have "queues_ok (source_failed (s\<lparr>sc_source := src\<rparr>))"
        using 1(2) by (simp add: queues_ok_def waiting_tasks_def flying_tasks_def)
      then show ?thesis
        using guard bad keeps_jobs_source_failed [of s src]
        by (auto simp: unfold same_workers_def waiting_tasks_def)
    next
      case (task t src)
      let ?s1 = "enqueue_loaded now t (s\<lparr>sc_source := src\<rparr>)"
      have w0: "waiting_tasks (s\<lparr>sc_source := src\<rparr>) = waiting_tasks s" by (simp add: waiting_tasks_def)
      have e: "fq_inv (sc_ready ?s1)" "tq_inv (sc_timers ?s1)"
        "waiting_tasks ?s1 = add_mset (t\<lparr>mt_resume_at := None\<rparr>) (waiting_tasks s)"
        using enqueue_loaded_queues [of "s\<lparr>sc_source := src\<rparr>" now t] 1(2) w0 by (auto simp: queues_ok_def)
      have fl: "flying_tasks ?s1 = flying_tasks s" by (simp add: flying_tasks_def)
      have q: "queues_ok ?s1" using 1(2) e fl task(3) by (auto simp: queues_ok_def)
      have k: "keeps_jobs s ?s1"
        using task(2) guard e(3) fl by (intro keeps_jobs_refl) (simp_all add: accounted_def)
      have sw: "same_workers s ?s1" by (simp add: same_workers_def)
      have sz: "size (waiting_tasks ?s1) \<le> max_parked w"
        using e(3) guard waiting_count_size [OF 1(2)] by simp
      have f: "fill ld w now s = fill ld w now ?s1" using guard task(1) by (simp add: unfold)
      show ?thesis
        using 1(1) [OF guard task(1) [symmetric] refl refl q] k sw sz unfolding f
        by (auto intro: keeps_jobs_trans same_workers_trans)
    qed
  qed
qed

lemma cancel_source_ok:
  assumes "queues_ok s"
  shows "queues_ok (cancel_source ld s) \<and> keeps_jobs s (cancel_source ld s) \<and> same_workers s (cancel_source ld s) \<and>
    waiting_tasks (cancel_source ld s) = waiting_tasks s \<and> \<not> sc_source_open (cancel_source ld s) \<and>
    (settled_ok s \<longrightarrow> settled_ok (cancel_source ld s))"
  using assms
proof (induction ld s rule: cancel_source.induct)
  case (1 ld s)
  note unfold = cancel_source.simps [of ld s]
  show ?case
  proof (cases "sc_source_open s")
    case False
    then show ?thesis using 1(2) by (simp add: unfold keeps_jobs_refl same_workers_def)
  next
    case open': True
    show ?thesis
    proof (cases rule: next_task_cases [where ld = ld and s = "sc_source s"])
      case none
      then show ?thesis
        using 1(2) open'
        by (auto simp: unfold queues_ok_def waiting_tasks_def flying_tasks_def same_workers_def
            keeps_jobs_def accounted_def settled_ok_def)
    next
      case (bad src)
      have "queues_ok (source_failed (s\<lparr>sc_source := src\<rparr>))"
        using 1(2) by (simp add: queues_ok_def waiting_tasks_def flying_tasks_def)
      then show ?thesis
        using open' bad keeps_jobs_source_failed [of s src]
        by (auto simp: unfold same_workers_def waiting_tasks_def settled_ok_def)
    next
      case (task t src)
      let ?s1 = "settle By_Cancel t (s\<lparr>sc_source := src\<rparr>)"
      have w: "waiting_tasks ?s1 = waiting_tasks s" "flying_tasks ?s1 = flying_tasks s"
        by (simp_all add: settle_def waiting_tasks_def flying_tasks_def)
      have q: "queues_ok ?s1" using 1(2) w by (simp add: queues_ok_def) (simp add: settle_def)
      have k: "keeps_jobs s ?s1"
        using task(2) open' w by (intro keeps_jobs_refl) (simp_all add: accounted_def, simp_all add: settle_def)
      have sw: "same_workers s ?s1" by (simp add: same_workers_def settle_def)
      have st: "settled_ok s \<Longrightarrow> settled_ok ?s1" by (simp add: settled_ok_def settle_def good_settlement_def)
      have f: "cancel_source ld s = cancel_source ld ?s1" using open' task(1) by (simp add: unfold)
      have "\<not> \<not> sc_source_open s" using open' by simp
      from 1(1) [OF this task(1) [symmetric] refl refl q] k sw st w show ?thesis unfolding f
        by (auto intro: keeps_jobs_trans same_workers_trans)
    qed
  qed
qed

section \<open>The limiter under the scheduler\<close>

text \<open>Without any assumption on the table's room, a domain never counts more slots than were taken.\<close>

lemma take_slots_le:
  "distinct (map fst ds) \<Longrightarrow> distinct ks \<Longrightarrow>
   inflight (take_slots L now ks ds) k \<le> inflight ds k + (if k \<in> set ks then 1 else 0)"
proof (induction ks arbitrary: ds)
  case (Cons k1 ks)
  obtain ds1 ok where e: "entry L ds k1 now = (ds1, ok)" by force
  have d1: "distinct (map fst ds1)"
    using e Cons.prems(1) by (auto simp: entry_def Let_def map_of_eq_None_iff distinct_fst_filter split: if_splits)
  let ?ds2 = "if ok then modify k1 (\<lambda>d. d\<lparr>in_flight := in_flight d + 1\<rparr>) ds1 else ds1"
  have "inflight ?ds2 k \<le> inflight ds1 k + (if k = k1 then 1 else 0)"
    by (auto simp: inflight_def map_of_modify split: option.splits)
  moreover have "inflight (take_slots L now ks ?ds2) k \<le> inflight ?ds2 k + (if k \<in> set ks then 1 else 0)"
    using Cons.IH [of ?ds2] Cons.prems(2) d1 by simp
  ultimately have "inflight (take_slots L now ks ?ds2) k \<le>
      inflight ds k + ((if k = k1 then 1 else 0) + (if k \<in> set ks then 1 else 0))"
    using entry_inflight [OF Cons.prems(1) e, of k] by linarith
  then show ?case using Cons.prems(2) e by (auto split: if_splits)
qed simp

lemma try_admit_le:
  assumes "limiter_inv L" and "wf_path p" and "try_admit L p now = (Inr a, L')"
  shows "limiter_inv L' \<and> adm_path a = p \<and> notifier L' = notifier L \<and> \<not> poisoned L \<and>
    inflight (domains L') k \<le> inflight (domains L) k + (if k \<in> set (path_all p) then 1 else 0)"
proof -
  have "distinct (map fst (domains L))" using assms(1) by (simp add: limiter_inv_def domains_ok_def)
  then show ?thesis
    using assms take_slots_le [of "domains L" "path_all p" L now k] try_admit_inv [OF assms]
    by (cases rule: try_admit_cases [where L = L and p = p and now = now]) (auto simp: wf_path_def)
qed

lemma slot_means_taken:
  assumes "try_admit L p now = (Inl Slot, L')"
  shows "\<exists>k. 0 < inflight (domains L) k"
proof -
  have s: "admission_scan (domains L) now (path_all p) None False = (None, True)"
    using assms by (auto simp: try_admit_def split: if_splits prod.splits option.splits bool.splits)
  then have "cooling_ends (domains L) now (path_all p) = []"
    using scan_from_None [of "domains L" now "path_all p" False] by (auto split: list.splits)
  with s obtain k d where "map_of (domains L) k = Some d" "slot_limit d \<le> int (in_flight d)"
    by (auto simp: scan_slot)
  then have "0 < inflight (domains L) k" by (auto simp: inflight_def slot_limit_def)
  then show ?thesis ..
qed

lemma limiter_inv_flags [simp]:
  "limiter_inv (L\<lparr>poisoned := b\<rparr>) = limiter_inv L" "limiter_inv (set_release_notifier L n) = limiter_inv L"
proof -
  have "domain_ceiling (L\<lparr>poisoned := b\<rparr>) k = domain_ceiling L k" for k
    by (simp add: domain_ceiling_def split: domain_level.split option.split)
  moreover have "domain_ceiling (L\<lparr>notifier := n\<rparr>) k = domain_ceiling L k" for k
    by (simp add: domain_ceiling_def split: domain_level.split option.split)
  ultimately have "domain_ok (L\<lparr>poisoned := b\<rparr>) = domain_ok L" "domain_ok (L\<lparr>notifier := n\<rparr>) = domain_ok L"
    by (auto simp: fun_eq_iff domain_ok_def)
  then show "limiter_inv (L\<lparr>poisoned := b\<rparr>) = limiter_inv L" "limiter_inv (set_release_notifier L n) = limiter_inv L"
    by (simp_all add: limiter_inv_def domains_ok_def set_release_notifier_def)
qed

lemma observes_notifier: "observes L L' \<Longrightarrow> notifier L' = notifier L"
  by (erule observesE) (auto simp: observe_success_def observe_classified_at_def split: prod.splits)

lemma release_notifier: "notifier (release L p now) = map_option (\<lambda>_. True) (notifier L)"
  by (simp add: release_def Let_def)

section \<open>The invariant\<close>

definition workers_ok :: "nat \<Rightarrow> ('f, 'l) scheduler \<Rightarrow> bool" where
  "workers_ok w s \<longleftrightarrow>
     sc_busy s = length (sc_running s) + length (sc_reports s) \<and> sc_busy s \<le> sc_alive s \<and> sc_alive s \<le> w \<and>
     sc_live_workers s + length (filter ((=) Report_Panicked) (sc_reports s)) = sc_alive s \<and>
     (sc_alive s < w \<longrightarrow> sc_worker_panicked s) \<and>
     (sc_worker_panicked s \<or> sc_enqueue_failed s \<longrightarrow> sc_failed s)"

definition held :: "('f, 'l) scheduler \<Rightarrow> admission list" where
  "held s = map att_admission (filter att_held (sc_running s))"

abbreviation covers :: "domain_key \<Rightarrow> admission \<Rightarrow> bool" where
  "covers k a \<equiv> k \<in> set (path_all (adm_path a))"

definition slots_ok :: "('f, 'l) scheduler \<Rightarrow> bool" where
  "slots_ok s \<longleftrightarrow> limiter_inv (sc_limiter s) \<and>
     (\<forall>a \<in> set (sc_running s). wf_path (adm_path (att_admission a))) \<and>
     (\<not> poisoned (sc_limiter s) \<longrightarrow>
        (\<forall>k. inflight (domains (sc_limiter s)) k \<le> length (filter (covers k) (held s))))"

definition wakeup_ok :: "('f, 'l) scheduler \<Rightarrow> bool" where
  "wakeup_ok s \<longleftrightarrow> sc_mode s \<noteq> Exited \<longrightarrow>
     notifier (sc_limiter s) \<noteq> None \<and>
     (sc_slot_waiting s \<noteq> [] \<longrightarrow>
        held s \<noteq> [] \<or> notifier (sc_limiter s) = Some True \<or> sc_reports s \<noteq> [])"

definition exit_ok :: "('f, 'l) scheduler \<Rightarrow> bool" where
  "exit_ok s \<longleftrightarrow> sc_mode s = Exited \<longrightarrow>
     sc_running s = [] \<and> sc_reports s = [] \<and>
     (sc_alive s = 0 \<or> \<not> sc_source_open s \<and> waiting_tasks s = {#})"

definition memory_ok :: "nat \<Rightarrow> ('f, 'l) scheduler \<Rightarrow> bool" where
  "memory_ok w s \<longleftrightarrow> size (waiting_tasks s) + size (flying_tasks s) \<le> max_parked w + w"

definition sched_inv :: "nat \<Rightarrow> ('f, 'l) scheduler \<Rightarrow> bool" where
  "sched_inv w s \<longleftrightarrow> queues_ok s \<and> workers_ok w s \<and> slots_ok s \<and> wakeup_ok s \<and> exit_ok s \<and>
     settled_ok s \<and> memory_ok w s"

text \<open>The program counter matters to the last two parts only.\<close>

lemma mode_irrelevant [simp]:
  "queues_ok (s\<lparr>sc_mode := m\<rparr>) = queues_ok s" "workers_ok w (s\<lparr>sc_mode := m\<rparr>) = workers_ok w s"
  "slots_ok (s\<lparr>sc_mode := m\<rparr>) = slots_ok s" "settled_ok (s\<lparr>sc_mode := m\<rparr>) = settled_ok s"
  "memory_ok w (s\<lparr>sc_mode := m\<rparr>) = memory_ok w s" "keeps_jobs s0 (s\<lparr>sc_mode := m\<rparr>) = keeps_jobs s0 s"
  "waiting_tasks (s\<lparr>sc_mode := m\<rparr>) = waiting_tasks s" "flying_tasks (s\<lparr>sc_mode := m\<rparr>) = flying_tasks s"
  "held (s\<lparr>sc_mode := m\<rparr>) = held s" "accounted (s\<lparr>sc_mode := m\<rparr>) = accounted s"
  by (simp_all add: queues_ok_def workers_ok_def slots_ok_def settled_ok_def memory_ok_def keeps_jobs_def
      waiting_tasks_def flying_tasks_def held_def accounted_def)

lemma flying_le_busy: "workers_ok w s \<Longrightarrow> size (flying_tasks s) \<le> sc_busy s"
proof -
  have "length (concat (map retry_task rs)) \<le> length rs" for rs :: "'f worker_report list"
  proof (induction rs)
    case (Cons r rs)
    have "length (retry_task r) \<le> 1" by (cases r rule: retry_task.cases) auto
    with Cons show ?case by simp
  qed simp
  then show "workers_ok w s \<Longrightarrow> size (flying_tasks s) \<le> sc_busy s"
    by (simp add: workers_ok_def flying_tasks_def)
qed

text \<open>A state with the same workers keeps the parts of the invariant that speak only of them.\<close>

lemma same_workers_ok:
  assumes "same_workers s s'" and "workers_ok w s" and "slots_ok s"
  shows "workers_ok w s'" "slots_ok s'" "held s' = held s" "flying_tasks s' = flying_tasks s"
  using assms by (auto simp: same_workers_def workers_ok_def slots_ok_def held_def flying_tasks_def)

lemma top_inv:
  assumes "sched_inv w s" and "sc_mode s = At_Top"
  shows "sched_inv w (scheduler_top ld w now s) \<and> keeps_jobs s (scheduler_top ld w now s)"
proof (cases "sc_cancelled s")
  case True
  note i = assms(1) [unfolded sched_inv_def]
  let ?ts = "fst (fq_drain (sc_ready s)) @ fst (tq_drain (sc_timers s)) @ sc_slot_waiting s"
  let ?s1 = "s\<lparr>sc_ready := fq_new, sc_timers := snd (tq_drain (sc_timers s)), sc_slot_waiting := [],
               sc_settled := sc_settled s @ map (\<lambda>t. (mt_index t, By_Cancel)) ?ts\<rparr>"
  have ca: "cancel_all ld s = cancel_source ld ?s1"
    by (simp add: cancel_all_def fold_settle fq_drain_new Let_def split_beta)
  have d: "mset (fst (tq_drain (sc_timers s))) = mset (map snd (tq_parked (sc_timers s)))"
    "tq_inv (snd (tq_drain (sc_timers s)))" "tq_parked (snd (tq_drain (sc_timers s))) = []"
    using i tq_drain_tasks by (auto simp: queues_ok_def)
  have w1: "waiting_tasks ?s1 = {#}" "flying_tasks ?s1 = flying_tasks s"
    by (simp_all add: waiting_tasks_def flying_tasks_def d)
  have q: "queues_ok ?s1" using i d w1 by (auto simp: queues_ok_def)
  have k: "keeps_jobs s ?s1"
  proof (rule keeps_jobs_refl)
    have "image_mset mt_index (mset ?ts) = image_mset mt_index (waiting_tasks s)"
      by (simp add: fq_drain_new waiting_tasks_def d(1))
    then show "accounted ?s1 = accounted s"
      using w1 by (simp add: accounted_def comp_def)
  qed simp
  have st: "settled_ok ?s1" using i by (auto simp: settled_ok_def good_settlement_def list_all_iff)
  note c = cancel_source_ok [OF q, of ld]
  have sw: "same_workers (s\<lparr>sc_slot_waiting := []\<rparr>) (cancel_source ld ?s1)"
    using c by (auto simp: same_workers_def)
  have i0: "workers_ok w (s\<lparr>sc_slot_waiting := []\<rparr>)" "slots_ok (s\<lparr>sc_slot_waiting := []\<rparr>)"
    using i by (auto simp: workers_ok_def slots_ok_def held_def)
  note sw' = same_workers_ok [OF sw i0]
  let ?s2 = "scheduler_top ld w now s"
  have s2: "?s2 = (cancel_source ld ?s1)\<lparr>sc_mode := Checking\<rparr>" using True ca by (simp add: scheduler_top_def)
  have f: "flying_tasks (cancel_source ld ?s1) = flying_tasks s" using sw'(4) by (simp add: flying_tasks_def)
  have "memory_ok w ?s2" using c w1 f i unfolding s2 mode_irrelevant memory_ok_def by simp
  moreover have "wakeup_ok ?s2"
    using sw i assms(2) unfolding s2 by (simp add: wakeup_ok_def same_workers_def)
  moreover have "exit_ok ?s2" unfolding s2 by (simp add: exit_ok_def)
  ultimately have "sched_inv w ?s2"
    using c sw' st unfolding s2 sched_inv_def mode_irrelevant by blast
  moreover have "keeps_jobs s ?s2"
    using keeps_jobs_trans [OF k] c unfolding s2 mode_irrelevant by blast
  ultimately show ?thesis by blast
next
  case False
  note i = assms(1) [unfolded sched_inv_def]
  obtain timers ready where r: "release_due now (sc_timers s) (sc_ready s) = (timers, ready)" by force
  let ?s1 = "s\<lparr>sc_timers := timers, sc_ready := ready\<rparr>"
  have rd: "tq_inv timers" "fq_inv ready"
    "mset (fq_items ready) + mset (map snd (tq_parked timers)) =
       mset (fq_items (sc_ready s)) + mset (map snd (tq_parked (sc_timers s)))"
    using release_due_ok [OF _ _ r] i by (auto simp: queues_ok_def)
  have w1: "waiting_tasks ?s1 = waiting_tasks s" "flying_tasks ?s1 = flying_tasks s"
    using rd(3) by (simp_all add: waiting_tasks_def flying_tasks_def)
  have q: "queues_ok ?s1" using i rd w1 by (simp add: queues_ok_def)
  have k: "keeps_jobs s ?s1" using w1 by (intro keeps_jobs_refl) (simp_all add: accounted_def)
  note f = fill_ok [OF q, of ld w now]
  let ?f = "fill ld w now ?s1"
  have sw: "same_workers s ?f" using f by (simp add: same_workers_def)
  have sw': "workers_ok w ?f" "slots_ok ?f" "held ?f = held s" "flying_tasks ?f = flying_tasks s"
    using same_workers_ok [OF sw] i by auto
  have s2: "scheduler_top ld w now s = ?f\<lparr>sc_mode := Dispatching\<rparr>"
    using False r by (simp add: scheduler_top_def)
  have "size (flying_tasks s) \<le> w" using flying_le_busy [of w s] i by (auto simp: workers_ok_def)
  then have "memory_ok w ?f" using f w1 sw'(4) i by (auto simp: memory_ok_def)
  moreover have "wakeup_ok (?f\<lparr>sc_mode := Dispatching\<rparr>)"
    using sw i assms(2) sw'(3) by (simp add: wakeup_ok_def same_workers_def)
  moreover have "exit_ok (?f\<lparr>sc_mode := Dispatching\<rparr>)" by (simp add: exit_ok_def)
  moreover have "settled_ok ?f" using f i by (simp add: settled_ok_def)
  ultimately have "sched_inv w (scheduler_top ld w now s)"
    using f sw' unfolding s2 sched_inv_def mode_irrelevant by blast
  moreover have "keeps_jobs s (scheduler_top ld w now s)"
    using keeps_jobs_trans [OF k] f unfolding s2 mode_irrelevant by blast
  ultimately show ?thesis by blast
qed

lemmas inv_defs = queues_ok_def workers_ok_def slots_ok_def wakeup_ok_def exit_ok_def settled_ok_def memory_ok_def
lemmas place_defs = waiting_tasks_def flying_tasks_def held_def

text \<open>A step that only moves tasks among the scheduler's own lines, workers and limiter untouched.\<close>

lemma local_move:
  assumes "sched_inv w s" and "same_workers s s'" and "sc_mode s' \<noteq> Exited" and "sc_mode s \<noteq> Exited"
    and "queues_ok s'" and "settled_ok s'" and "size (waiting_tasks s') \<le> size (waiting_tasks s)"
  shows "sched_inv w s'"
proof -
  have i: "workers_ok w s" "slots_ok s" "wakeup_ok s" "memory_ok w s" using assms(1) by (simp_all add: sched_inv_def)
  note sw = same_workers_ok [OF assms(2) i(1,2)]
  have "wakeup_ok s'" using i(3) assms(2-4) sw(3) by (auto simp: wakeup_ok_def same_workers_def)
  moreover have "memory_ok w s'" using i(4) assms(7) sw(4) by (simp add: memory_ok_def)
  ultimately show ?thesis using sw assms(3,5,6) by (simp add: sched_inv_def exit_ok_def)
qed

lemma dispatch_admitted:
  assumes "sched_inv w s" and "sc_mode s = Dispatching" and "sc_busy s < sc_alive s"
    and pop: "fq_pop_next (sc_ready s) = (Some t, ready)" "fq_inv ready"
      "mset (fq_items (sc_ready s)) = add_mset t (mset (fq_items ready))"
    and adm: "try_admit (sc_limiter s) (mt_rate_path t) now = (Inr a, L)"
  shows "sched_inv w (dispatch_one now s) \<and> keeps_jobs s (dispatch_one now s)"
proof -
  note i = assms(1) [unfolded sched_inv_def]
  have "length (filter ((=) Report_Panicked) (sc_reports s)) \<le> length (sc_reports s)" by (rule length_filter_le)
  moreover have "sc_busy s = length (sc_running s) + length (sc_reports s)"
    "sc_live_workers s + length (filter ((=) Report_Panicked) (sc_reports s)) = sc_alive s"
    using i by (simp_all add: workers_ok_def)
  ultimately have live: "sc_live_workers s \<noteq> 0" using assms(3) by linarith
  let ?s' = "s\<lparr>sc_ready := ready, sc_limiter := L, sc_busy := sc_busy s + 1,
      sc_running := sc_running s @ [\<lparr>att_task = t, att_admission = a, att_held = True\<rparr>]\<rparr>"
  have d: "dispatch_one now s = ?s'" using pop adm live by (simp add: dispatch_one_def)
  have wt: "waiting_tasks s = add_mset t (waiting_tasks ?s')" "flying_tasks ?s' = add_mset t (flying_tasks s)"
    using pop(3) by (simp_all add: place_defs)
  have wf: "wf_path (mt_rate_path t)" using i wt by (auto simp: queues_ok_def)
  have inv: "limiter_inv (sc_limiter s)" using i by (simp add: slots_ok_def)
  note ta = try_admit_le [OF inv wf adm]
  have h: "held ?s' = held s @ [a]" by (simp add: held_def)
  have "inflight (domains L) k \<le> length (filter (covers k) (held ?s'))" for k
    using ta [of k] i unfolding h slots_ok_def by (auto intro: le_trans split: if_splits)
  then have "slots_ok ?s'" using ta i wf by (auto simp: slots_ok_def)
  moreover have "queues_ok ?s'" using i wt pop(2) by (auto simp: queues_ok_def)
  moreover have "workers_ok w ?s'" using i assms(3) by (auto simp: workers_ok_def)
  moreover have "wakeup_ok ?s'" using i ta h by (auto simp: wakeup_ok_def)
  moreover have "exit_ok ?s'" using assms(2) by (simp add: exit_ok_def)
  moreover have "memory_ok w ?s'" using i wt by (simp add: memory_ok_def)
  moreover have "settled_ok ?s'" using i by (simp add: settled_ok_def)
  moreover have "keeps_jobs s ?s'" using wt by (intro keeps_jobs_refl) (simp_all add: accounted_def)
  ultimately show ?thesis unfolding d by (simp add: sched_inv_def)
qed

lemma dispatch_inv:
  assumes "sched_inv w s" and "sc_mode s = Dispatching" and "sc_busy s < sc_alive s"
  shows "sched_inv w (dispatch_one now s) \<and> keeps_jobs s (dispatch_one now s)"
proof -
  note i = assms(1) [unfolded sched_inv_def]
  have fq: "fq_inv (sc_ready s)" "tq_inv (sc_timers s)" using i by (auto simp: queues_ok_def)
  from fq(1) show ?thesis
  proof (cases rule: fq_pop_cases [where q = "sc_ready s"])
    case empty
    then have "dispatch_one now s = s\<lparr>sc_mode := Checking\<rparr>" by (simp add: dispatch_one_def)
    moreover have "sched_inv w (s\<lparr>sc_mode := Checking\<rparr>)"
      using i assms(2) by (intro local_move [OF assms(1)]) (auto simp: same_workers_def queues_ok_def settled_ok_def place_defs)
    ultimately show ?thesis by (simp add: keeps_jobs_def accounted_def place_defs)
  next
    case (item tn ts t xs ready)
    have wf: "wf_path (mt_rate_path t)" using i item(7) by (auto simp: queues_ok_def place_defs)
    let ?s1 = "s\<lparr>sc_ready := ready\<rparr>"
    have wt: "waiting_tasks s = add_mset t (waiting_tasks ?s1)" "flying_tasks ?s1 = flying_tasks s"
      using item(7) by (simp_all add: place_defs)
    have moved: "sched_inv w s' \<and> keeps_jobs s s'"
      if "same_workers s s'" "sc_mode s' = Dispatching" "queues_ok s'" "settled_ok s'"
        "size (waiting_tasks s') \<le> size (waiting_tasks s)" "accounted s' = accounted s"
        "sc_enqueue_failed s' = sc_enqueue_failed s" for s'
      using local_move [OF assms(1) that(1)] that assms(2) by (auto intro: keeps_jobs_refl)
    obtain r L where ta: "try_admit (sc_limiter s) (mt_rate_path t) now = (r, L)" by force
    show ?thesis
    proof (cases r)
      case (Inr a)
      show ?thesis by (rule dispatch_admitted [OF assms item(3,4,7) ta [unfolded Inr]])
    next
      case (Inl b)
      show ?thesis
      proof (cases b)
        case (Until u)
        let ?s' = "?s1\<lparr>sc_timers := tq_park u t (sc_timers s)\<rparr>"
        have "waiting_tasks ?s' = waiting_tasks s" "flying_tasks ?s' = flying_tasks s"
          using item(7) tq_parked_park [OF fq(2)] by (simp_all add: place_defs)
        moreover have "dispatch_one now s = ?s'" using item(3) ta Inl Until by (simp add: dispatch_one_def)
        ultimately show ?thesis
          using moved [of ?s'] i assms(2) item(4) tq_park_inv [OF fq(2)]
          by (simp add: same_workers_def queues_ok_def settled_ok_def accounted_def)
      next
        case Slot
        obtain k where k: "0 < inflight (domains (sc_limiter s)) k"
          using slot_means_taken ta Inl Slot by blast
        have "\<not> poisoned (sc_limiter s)" using ta Inl Slot by (auto simp: try_admit_def)
        then have "inflight (domains (sc_limiter s)) k \<le> length (filter (covers k) (held s))"
          using i by (simp add: slots_ok_def)
        then have "0 < length (filter (covers k) (held s))" using k by linarith
        then have ne: "held s \<noteq> []" by auto
        then have "sc_running s \<noteq> []" by (auto simp: held_def)
        then have b: "0 < sc_busy s" using i by (auto simp: workers_ok_def)
        let ?s' = "?s1\<lparr>sc_slot_waiting := sc_slot_waiting s @ [t]\<rparr>"
        have w: "waiting_tasks ?s' = waiting_tasks s" "flying_tasks ?s' = flying_tasks s"
          using item(7) by (simp_all add: place_defs)
        have d: "dispatch_one now s = ?s'" using item(3) ta Inl Slot b by (simp add: dispatch_one_def)
        have h: "held ?s' = held s" by (simp add: held_def)
        have "sched_inv w ?s'"
          using i w assms(2) item(4) ne h unfolding sched_inv_def
          by (auto simp: workers_ok_def slots_ok_def wakeup_ok_def exit_ok_def memory_ok_def
              settled_ok_def queues_ok_def)
        then show ?thesis unfolding d using w by (auto intro!: keeps_jobs_refl simp: accounted_def)
      next
        case Unavailable
        let ?s' = "settle By_Limiter t ?s1"
        have "waiting_tasks ?s' = waiting_tasks ?s1" "flying_tasks ?s' = flying_tasks s"
          by (simp_all add: place_defs settle_def)
        moreover have "dispatch_one now s = ?s'" using item(3) ta Inl Unavailable by (simp add: dispatch_one_def)
        ultimately show ?thesis
          using moved [of ?s'] i assms(2) item(4) wt
          by (auto simp: same_workers_def queues_ok_def settled_ok_def accounted_def settle_def good_settlement_def)
      qed
    qed
  qed
qed

lemma exit_inv:
  assumes "sched_inv w s" and "sc_busy s = 0"
    and "sc_alive s = 0 \<or> \<not> sc_source_open s \<and> waiting_tasks s = {#}"
  shows "sched_inv w (s\<lparr>sc_limiter := set_release_notifier (sc_limiter s) None, sc_mode := Exited\<rparr>) \<and>
    keeps_jobs s (s\<lparr>sc_limiter := set_release_notifier (sc_limiter s) None, sc_mode := Exited\<rparr>)"
proof -
  note i = assms(1) [unfolded sched_inv_def]
  let ?L = "set_release_notifier (sc_limiter s) None"
  let ?e = "s\<lparr>sc_limiter := ?L, sc_mode := Exited\<rparr>"
  have same: "waiting_tasks ?e = waiting_tasks s" "flying_tasks ?e = flying_tasks s" "held ?e = held s"
    "accounted ?e = accounted s"
    by (simp_all add: place_defs accounted_def)
  have lim: "limiter_inv ?L = limiter_inv (sc_limiter s)" by simp
  show ?thesis
    using i same lim assms(2,3)
    by (simp add: sched_inv_def inv_defs keeps_jobs_def) (auto simp: set_release_notifier_def)
qed

lemma check_inv:
  assumes "sched_inv w s" and "sc_mode s = Checking"
  shows "sched_inv w (check_exit s) \<and> keeps_jobs s (check_exit s)"
proof -
  note i = assms(1) [unfolded sched_inv_def]
  have wait: "sched_inv w (s\<lparr>sc_mode := Waiting\<rparr>) \<and> keeps_jobs s (s\<lparr>sc_mode := Waiting\<rparr>)"
    using i assms(2) by (simp add: sched_inv_def wakeup_ok_def exit_ok_def keeps_jobs_def)
  have "size (waiting_tasks s) = waiting_count s" using waiting_count_size i by metis
  then have "waiting_tasks s = {#}"
    if "fq_is_empty (sc_ready s)" "tq_len (sc_timers s) = 0" "sc_slot_waiting s = []"
    using that by (simp add: waiting_count_def fq_is_empty_def)
  with exit_inv [OF assms(1)] wait show ?thesis by (auto simp: check_exit_def Let_def)
qed

lemma disconnect_inv:
  assumes "sched_inv w s" and "sc_reports s = []" and "sc_live_workers s = 0"
  shows "sched_inv w (s\<lparr>sc_limiter := set_release_notifier (sc_limiter s) None, sc_mode := Exited\<rparr>) \<and>
    keeps_jobs s (s\<lparr>sc_limiter := set_release_notifier (sc_limiter s) None, sc_mode := Exited\<rparr>)"
proof -
  have "sc_alive s = 0 \<and> sc_busy s \<le> sc_alive s"
    using assms unfolding sched_inv_def workers_ok_def by auto
  then show ?thesis using exit_inv [OF assms(1)] by simp
qed

lemma requeue_slots_ok:
  assumes "queues_ok s"
  shows "queues_ok (requeue_slots s) \<and> waiting_tasks (requeue_slots s) = waiting_tasks s \<and>
    flying_tasks (requeue_slots s) = flying_tasks s \<and> accounted (requeue_slots s) = accounted s \<and>
    held (requeue_slots s) = held s \<and> sc_slot_waiting (requeue_slots s) = []"
proof -
  have "fq_inv (sc_ready s)" using assms by (simp add: queues_ok_def)
  note f = requeue_fold [OF this, of True "rev (sc_slot_waiting s)"]
  have w: "waiting_tasks (requeue_slots s) = waiting_tasks s" "flying_tasks (requeue_slots s) = flying_tasks s"
    using f by (simp_all add: requeue_slots_def place_defs)
  then have "queues_ok (requeue_slots s)"
    using assms f unfolding queues_ok_def w by (simp add: requeue_slots_def)
  with w show ?thesis by (simp add: accounted_def) (simp add: requeue_slots_def held_def)
qed

lemma requeue_slots_simps [simp]:
  "sc_alive (requeue_slots s) = sc_alive s" "sc_busy (requeue_slots s) = sc_busy s"
  "sc_worker_panicked (requeue_slots s) = sc_worker_panicked s"
  "sc_enqueue_failed (requeue_slots s) = sc_enqueue_failed s" "sc_limiter (requeue_slots s) = sc_limiter s"
  "sc_failed (requeue_slots s) = sc_failed s" "sc_running (requeue_slots s) = sc_running s"
  "sc_reports (requeue_slots s) = sc_reports s" "sc_live_workers (requeue_slots s) = sc_live_workers s"
  "sc_settled (requeue_slots s) = sc_settled s" "sc_mode (requeue_slots s) = sc_mode s"
  by (simp_all add: requeue_slots_def)

text \<open>Waking the slot waiters and returning to the top completes a step whose other effects are sound.\<close>

lemma woken_inv:
  assumes "queues_ok s" and "workers_ok w s" and "slots_ok s" and "settled_ok s" and "memory_ok w s"
    and "notifier (sc_limiter s) \<noteq> None"
  shows "sched_inv w ((requeue_slots s)\<lparr>sc_mode := At_Top\<rparr>)"
proof -
  note r = requeue_slots_ok [OF assms(1)]
  show ?thesis
    using assms(2-6) r
    by (simp add: sched_inv_def wakeup_ok_def exit_ok_def)
       (simp add: workers_ok_def slots_ok_def settled_ok_def memory_ok_def)
qed

lemma release_signal_inv:
  assumes "sched_inv w s"
  shows "sched_inv w (receive_release s) \<and> keeps_jobs s (receive_release s)"
proof -
  note i = assms [unfolded sched_inv_def]
  let ?L = "set_release_notifier (sc_limiter s) (Some False)"
  let ?s1 = "s\<lparr>sc_limiter := ?L\<rparr>"
  have lim: "poisoned ?L = poisoned (sc_limiter s)" "domains ?L = domains (sc_limiter s)" "notifier ?L \<noteq> None"
    by (simp_all add: set_release_notifier_def)
  have same: "waiting_tasks ?s1 = waiting_tasks s" "flying_tasks ?s1 = flying_tasks s" "held ?s1 = held s"
    "accounted ?s1 = accounted s"
    by (simp_all add: place_defs accounted_def)
  have q: "queues_ok ?s1" using i same by (simp add: queues_ok_def)
  have "sched_inv w (receive_release s)"
    unfolding receive_release_def
    by (rule woken_inv) (use i q lim same in \<open>simp_all add: workers_ok_def slots_ok_def settled_ok_def memory_ok_def\<close>)
  then show ?thesis
    using requeue_slots_ok [OF q] same by (simp add: receive_release_def keeps_jobs_def)
qed

lemma handle_report_simps [simp]:
  "sc_limiter (handle_report now r s) = sc_limiter s" "sc_running (handle_report now r s) = sc_running s"
  "sc_reports (handle_report now r s) = sc_reports s" "sc_live_workers (handle_report now r s) = sc_live_workers s"
  "sc_enqueue_failed (handle_report now r s) = sc_enqueue_failed s" "sc_busy (handle_report now r s) = sc_busy s - 1"
  "sc_source_open (handle_report now r s) = sc_source_open s" "sc_source (handle_report now r s) = sc_source s"
  "sc_ready (handle_report now r s) = sc_ready s" "sc_slot_waiting (handle_report now r s) = sc_slot_waiting s"
  by (simp_all add: handle_report_def settle_def Let_def split: worker_report.splits attempt_outcome.splits)

lemma report_inv:
  assumes "sched_inv w s" and "sc_reports s = r # rs" and "sc_mode s = Waiting"
  shows "sched_inv w (receive_report now r (s\<lparr>sc_reports := rs\<rparr>)) \<and>
    keeps_jobs s (receive_report now r (s\<lparr>sc_reports := rs\<rparr>))"
proof -
  note i = assms(1) [unfolded sched_inv_def]
  let ?s1 = "handle_report now r (s\<lparr>sc_reports := rs\<rparr>)"
  have tq: "tq_inv (sc_timers s)" using i by (simp add: queues_ok_def)
  have h: "held ?s1 = held s" by (simp add: held_def)
  have fl: "flying_tasks s = flying_tasks ?s1 + mset (retry_task r)"
    using assms(2) by (simp add: flying_tasks_def)
  have w: "(waiting_tasks ?s1 = waiting_tasks s + mset (retry_task r) \<and> sc_settled ?s1 = sc_settled s) \<or>
      (\<exists>t. retry_task r = [t] \<and> waiting_tasks ?s1 = waiting_tasks s \<and>
           sc_settled ?s1 = sc_settled s @ [(mt_index t, By_Cancel)])"
    using tq_parked_park [OF tq]
    by (auto simp: handle_report_def settle_def Let_def waiting_tasks_def
        split: worker_report.splits attempt_outcome.splits)
  have "tq_inv (sc_timers ?s1)"
    using tq tq_park_inv [OF tq]
    by (auto simp: handle_report_def settle_def Let_def split: worker_report.splits attempt_outcome.splits)
  then have q: "queues_ok ?s1" using i w fl by (auto simp: queues_ok_def)
  have acc: "accounted ?s1 = accounted s" using w fl by (auto simp: accounted_def)
  have mem: "memory_ok w ?s1" using i w fl by (auto simp: memory_ok_def)
  have st: "settled_ok ?s1" using i w by (auto simp: settled_ok_def good_settlement_def)
  have wk: "workers_ok w ?s1"
    using i assms(2)
    by (auto simp: workers_ok_def handle_report_def settle_def Let_def
        split: worker_report.splits attempt_outcome.splits)
  have sl: "slots_ok ?s1" using i h by (simp add: slots_ok_def)
  have "notifier (sc_limiter ?s1) \<noteq> None" using i assms(3) by (simp add: wakeup_ok_def)
  from woken_inv [OF q wk sl st mem this] requeue_slots_ok [OF q] acc show ?thesis
    by (simp add: receive_report_def keeps_jobs_def)
qed

section \<open>The workers' steps\<close>

lemma drop_held_ok:
  assumes "limiter_inv L" and "wf_path (adm_path (att_admission a))"
  shows "limiter_inv (drop_held now a L)" "poisoned (drop_held now a L) = poisoned L"
    "\<not> poisoned L \<Longrightarrow> inflight (domains (drop_held now a L)) k =
       inflight (domains L) k - (if att_held a \<and> covers k (att_admission a) then 1 else 0)"
    "notifier (drop_held now a L) = (if att_held a then map_option (\<lambda>_. True) (notifier L) else notifier L)"
  using assms release_inv [of L "adm_path (att_admission a)" now]
    release_used [of L "adm_path (att_admission a)" now k]
  by (auto simp: drop_held_def release_notifier)

text \<open>A worker drops the admission of attempt \<open>a\<close>, which leaves the held ones.\<close>

lemma slots_drop:
  assumes "slots_ok s" and "sc_running s = before @ a # after"
    and "sc_limiter s' = drop_held now a (sc_limiter s)"
    and "filter att_held (sc_running s') = filter att_held (before @ after)"
    and "\<forall>b \<in> set (sc_running s'). wf_path (adm_path (att_admission b))"
  shows "slots_ok s'"
proof -
  have wf: "wf_path (adm_path (att_admission a))" and inv: "limiter_inv (sc_limiter s)"
    using assms(1,2) by (auto simp: slots_ok_def)
  note d = drop_held_ok [OF inv wf]
  have h: "held s' = map att_admission (filter att_held (before @ after))" using assms(4) by (simp add: held_def)
  have "inflight (domains (sc_limiter s')) k \<le> length (filter (covers k) (held s'))"
    if np: "\<not> poisoned (sc_limiter s)" for k
  proof -
    have "inflight (domains (sc_limiter s)) k \<le> length (filter (covers k) (held s))"
      using assms(1) np by (simp add: slots_ok_def)
    then show ?thesis
      using d(3) [OF np, of now k] assms(2,3) h by (auto simp: held_def split: if_splits)
  qed
  then show ?thesis using d assms(3,5) by (auto simp: slots_ok_def)
qed

lemma wakeup_drop:
  assumes "wakeup_ok s" and "slots_ok s" and "sc_running s = before @ a # after"
    and "sc_limiter s' = drop_held now a (sc_limiter s)" and "sc_mode s' = sc_mode s"
    and "filter att_held (sc_running s') = filter att_held (before @ after)"
    and "sc_slot_waiting s' = sc_slot_waiting s" and "sc_reports s \<noteq> [] \<Longrightarrow> sc_reports s' \<noteq> []"
  shows "wakeup_ok s'"
proof -
  have wf: "wf_path (adm_path (att_admission a))" and inv: "limiter_inv (sc_limiter s)"
    using assms(2,3) by (auto simp: slots_ok_def)
  have h: "held s' = held s" if "\<not> att_held a" using that assms(3,6) by (simp add: held_def)
  show ?thesis
    using assms(1,4,5,7,8) h drop_held_ok(4) [OF inv wf, of now]
    by (cases "att_held a") (auto simp: wakeup_ok_def)
qed

lemma running_not_exited:
  "sched_inv w s \<Longrightarrow> sc_running s = before @ a # after \<Longrightarrow> sc_mode s \<noteq> Exited"
  by (auto simp: sched_inv_def exit_ok_def)

text \<open>A worker step: the attempt's admission is dropped, its task moves from the running attempts.\<close>

lemma worker_step_inv:
  assumes "sched_inv w s" and "sc_running s = before @ a # after"
    and "sc_limiter s' = drop_held now a (sc_limiter s)" and "sc_mode s' = sc_mode s"
    and "filter att_held (sc_running s') = filter att_held (before @ after)"
    and "\<forall>b \<in> set (sc_running s'). wf_path (adm_path (att_admission b))"
    and "sc_slot_waiting s' = sc_slot_waiting s" and "sc_reports s \<noteq> [] \<Longrightarrow> sc_reports s' \<noteq> []"
    and "waiting_tasks s' = waiting_tasks s" and "fq_inv (sc_ready s') \<and> tq_inv (sc_timers s')"
    and "\<forall>t \<in># flying_tasks s'. wf_path (mt_rate_path t)"
    and "size (flying_tasks s') \<le> size (flying_tasks s)"
    and "workers_ok w s'" and "settled_ok s'"
    and "accounted s' = accounted s" and "sc_enqueue_failed s' = sc_enqueue_failed s"
  shows "sched_inv w s' \<and> keeps_jobs s s'"
proof -
  note i = assms(1) [unfolded sched_inv_def]
  have "slots_ok s'" using slots_drop [OF _ assms(2,3,5,6)] i by blast
  moreover have "wakeup_ok s'" using wakeup_drop [OF _ _ assms(2,3,4,5,7,8)] i by blast
  moreover have "exit_ok s'" using running_not_exited [OF assms(1,2)] assms(4) by (simp add: exit_ok_def)
  moreover have "queues_ok s'" using i assms(9,10,11) by (auto simp: queues_ok_def)
  moreover have "memory_ok w s'" using i assms(9,12) by (simp add: memory_ok_def)
  ultimately show ?thesis
    using assms(13-16) by (simp add: sched_inv_def keeps_jobs_refl)
qed

lemma running_wf:
  assumes "sched_inv w s" and "sc_running s = before @ a # after"
  shows "\<forall>b \<in> set (before @ a # after). wf_path (adm_path (att_admission b))"
    "\<forall>t \<in># flying_tasks s. wf_path (mt_rate_path t)" "fq_inv (sc_ready s) \<and> tq_inv (sc_timers s)"
  using assms by (auto simp: sched_inv_def slots_ok_def queues_ok_def)

lemma early_release_inv:
  assumes "sched_inv w s" and "sc_running s = before @ a # after"
  shows "sched_inv w (worker_release now before a after s) \<and> keeps_jobs s (worker_release now before a after s)"
proof -
  let ?s' = "worker_release now before a after s"
  have fl: "flying_tasks ?s' = flying_tasks s" "waiting_tasks ?s' = waiting_tasks s"
    using assms(2) by (simp_all add: worker_release_def place_defs)
  show ?thesis
    by (rule worker_step_inv [OF assms, where now = now])
       (use assms fl running_wf [OF assms] in \<open>auto simp: worker_release_def accounted_def sched_inv_def
          workers_ok_def settled_ok_def\<close>)
qed

lemma report_step_inv:
  assumes "sched_inv w s" and "sc_running s = before @ a # after"
    and "\<And>t d. outcome = Attempt_Retry t d \<Longrightarrow>
           mt_index t = mt_index (att_task a) \<and> mt_rate_path t = mt_rate_path (att_task a)"
  shows "sched_inv w (worker_done now before a after outcome s) \<and>
    keeps_jobs s (worker_done now before a after outcome s)"
proof -
  let ?s' = "worker_done now before a after outcome s"
  have wt: "waiting_tasks ?s' = waiting_tasks s" 
    by (simp add: worker_done_def settle_def Let_def place_defs split: attempt_outcome.splits)
  have fl: "add_mset (att_task a) (flying_tasks ?s') = flying_tasks s + mset (retry_task (Report_Attempt outcome))"
    using assms(2)
    by (cases outcome) (simp_all add: worker_done_def settle_def Let_def place_defs)
  have wk: "workers_ok w ?s'"
    using assms(1,2) by (auto simp: sched_inv_def workers_ok_def worker_done_def settle_def Let_def
        split: attempt_outcome.splits)
  show ?thesis
  proof (rule worker_step_inv [OF assms(1,2), where now = now])
    show "accounted ?s' = accounted s"
      using assms(2,3) wt
      by (cases outcome) (simp_all add: accounted_def place_defs worker_done_def settle_def Let_def)
    have "size (add_mset (att_task a) (flying_tasks ?s')) =
        size (flying_tasks s) + length (retry_task (Report_Attempt outcome))"
      unfolding fl by simp
    then show "size (flying_tasks ?s') \<le> size (flying_tasks s)" by (cases outcome) simp_all
    have "att_task a \<in># flying_tasks s" using assms(2) by (simp add: flying_tasks_def)
    then have "wf_path (mt_rate_path t)" if "t \<in># flying_tasks s + mset (retry_task (Report_Attempt outcome))" for t
      using running_wf(2) [OF assms(1,2)] assms(3) [of t] that
      by (cases outcome) (simp_all, metis)
    then show "\<forall>t \<in># flying_tasks ?s'. wf_path (mt_rate_path t)"
      unfolding fl [symmetric] by simp
    show "settled_ok ?s'"
      using assms(1) by (cases outcome)
        (auto simp: sched_inv_def settled_ok_def good_settlement_def worker_done_def settle_def Let_def)
  qed (use wt wk running_wf [OF assms(1,2)] in
      \<open>auto simp: worker_done_def settle_def Let_def split: attempt_outcome.splits\<close>)
qed

lemma panic_inv:
  assumes "sched_inv w s" and "sc_running s = before @ a # after"
  shows "sched_inv w (worker_panic now before a after s) \<and> keeps_jobs s (worker_panic now before a after s)"
proof -
  let ?s' = "worker_panic now before a after s"
  have wt: "waiting_tasks ?s' = waiting_tasks s" "flying_tasks s = add_mset (att_task a) (flying_tasks ?s')"
    using assms(2) by (simp_all add: worker_panic_def settle_def place_defs)
  have b: "length (filter ((=) Report_Panicked) (sc_reports s)) \<le> length (sc_reports s)" by (rule length_filter_le)
  have "sc_busy s = length (sc_running s) + length (sc_reports s)" "sc_busy s \<le> sc_alive s"
    "sc_live_workers s + length (filter ((=) Report_Panicked) (sc_reports s)) = sc_alive s"
    using assms(1) by (simp_all add: sched_inv_def workers_ok_def)
  moreover have "0 < length (sc_running s)" using assms(2) by simp
  ultimately have "0 < sc_live_workers s" using b by linarith
  then have wk: "workers_ok w ?s'"
    using assms by (auto simp: sched_inv_def workers_ok_def worker_panic_def settle_def)
  show ?thesis
    by (rule worker_step_inv [OF assms, where now = now])
       (use assms wt wk running_wf [OF assms] in \<open>auto simp: worker_panic_def settle_def accounted_def
          sched_inv_def settled_ok_def good_settlement_def\<close>)
qed

section \<open>Every interleaving\<close>

lemma limiter_only_inv:
  assumes "sched_inv w s" and "limiter_inv L" and "notifier L = notifier (sc_limiter s)"
    and "\<not> poisoned L \<longrightarrow> \<not> poisoned (sc_limiter s) \<and> inflight (domains L) = inflight (domains (sc_limiter s))"
  shows "sched_inv w (s\<lparr>sc_limiter := L\<rparr>) \<and> keeps_jobs s (s\<lparr>sc_limiter := L\<rparr>)"
proof -
  note i = assms(1) [unfolded sched_inv_def]
  let ?s = "s\<lparr>sc_limiter := L\<rparr>"
  have p: "waiting_tasks ?s = waiting_tasks s" "flying_tasks ?s = flying_tasks s" "held ?s = held s"
    by (simp_all add: place_defs)
  have "slots_ok ?s" using i assms(2,4) p by (auto simp: slots_ok_def)
  moreover have "wakeup_ok ?s" using i assms(3) p by (simp add: wakeup_ok_def)
  moreover have "queues_ok ?s \<and> workers_ok w ?s \<and> exit_ok ?s \<and> settled_ok ?s \<and> memory_ok w ?s"
    using i p by (simp add: queues_ok_def workers_ok_def exit_ok_def settled_ok_def memory_ok_def)
  ultimately show ?thesis using p by (simp add: sched_inv_def keeps_jobs_def accounted_def)
qed

lemma cancel_inv:
  assumes "sched_inv w s"
  shows "sched_inv w (s\<lparr>sc_cancelled := True\<rparr>) \<and> keeps_jobs s (s\<lparr>sc_cancelled := True\<rparr>)"
  using assms by (simp add: sched_inv_def inv_defs place_defs keeps_jobs_def accounted_def)

lemma back_to_mode:
  assumes "sched_inv w s" and "sc_mode s \<noteq> Exited" and "m \<noteq> Exited"
  shows "sched_inv w (s\<lparr>sc_mode := m\<rparr>) \<and> keeps_jobs s (s\<lparr>sc_mode := m\<rparr>)"
  using assms by (simp add: sched_inv_def wakeup_ok_def exit_ok_def keeps_jobs_def)

lemma sched_step_inv:
  assumes "sched_step ld w s s'" and "sched_inv w s"
  shows "sched_inv w s' \<and> keeps_jobs s s'"
  using assms(1)
proof (cases rule: sched_step.cases)
  case (observe a L)
  have "limiter_inv (sc_limiter s)" using assms(2) by (simp add: sched_inv_def slots_ok_def)
  then show ?thesis
    unfolding observe(1)
    using observes_ok [OF _ observe(3)] observes_notifier [OF observe(3)]
    by (intro limiter_only_inv [OF assms(2)]) auto
next
  case poison
  have "limiter_inv (sc_limiter s)" using assms(2) by (simp add: sched_inv_def slots_ok_def)
  then show ?thesis
    unfolding poison
    by (intro limiter_only_inv [OF assms(2)]) simp_all
next
  case (top now)
  with top_inv [OF assms(2)] show ?thesis by blast
next
  case (dispatch now)
  with dispatch_inv [OF assms(2)] show ?thesis by blast
next
  case all_busy
  with back_to_mode [OF assms(2), of Checking] show ?thesis by simp
next
  case check
  with check_inv [OF assms(2)] show ?thesis by blast
next
  case (report r rs now)
  with report_inv [OF assms(2)] show ?thesis by blast
next
  case released
  with release_signal_inv [OF assms(2)] show ?thesis by blast
next
  case timeout
  with back_to_mode [OF assms(2), of At_Top] show ?thesis by simp
next
  case disconnected
  with disconnect_inv [OF assms(2)] show ?thesis by blast
next
  case cancel
  with cancel_inv [OF assms(2)] show ?thesis by blast
next
  case (early_release before a after now)
  with early_release_inv [OF assms(2)] show ?thesis by blast
next
  case (finish before a after now)
  with report_step_inv [OF assms(2), of before a after Attempt_Finished] show ?thesis by blast
next
  case (retry before a after task now delay)
  with report_step_inv [OF assms(2), of before a after "Attempt_Retry task delay"] show ?thesis by blast
next
  case (panic before a after now)
  with panic_inv [OF assms(2)] show ?thesis by blast
qed

definition batch_start ::
    "nat \<Rightarrow> nat \<Rightarrow> provider_rate_ceilings \<Rightarrow> ('f, 'l) job_source \<Rightarrow> ('f, 'l) scheduler" where
  "batch_start w c pc src = schedule_start w (new_with_provider_ceilings c pc) src"

definition fresh_source :: "('f, 'l) job_source \<Rightarrow> bool" where
  "fresh_source src \<longleftrightarrow> js_next src = 0 \<and> js_page src = []"

lemma start_inv:
  assumes "fresh_source src"
  shows "sched_inv w (batch_start w c pc src)"
    "accounted (batch_start w c pc src) = mset [0..<length (js_job_ids src)]"
    "\<not> sc_enqueue_failed (batch_start w c pc src)"
proof -
  have "limiter_inv (set_release_notifier (new_with_provider_ceilings c pc) (Some False))"
    using new_limiter_inv [of c pc] by simp
  then show "sched_inv w (batch_start w c pc src)"
    by (simp add: batch_start_def schedule_start_def sched_inv_def inv_defs place_defs)
       (auto simp: set_release_notifier_def new_with_provider_ceilings_def inflight_def)
qed (use assms in \<open>simp_all add: batch_start_def schedule_start_def accounted_def place_defs
      source_indices_def fresh_source_def\<close>)

lemma reach_inv:
  assumes "sched_reach ld w (batch_start w c pc src) s" and "fresh_source src"
  shows "sched_inv w s \<and> accounted s \<subseteq># mset [0..<length (js_job_ids src)] \<and>
    (\<not> sc_enqueue_failed s \<longrightarrow> accounted s = mset [0..<length (js_job_ids src)])"
  using assms(1)
proof (induction rule: sched_reach.induct)
  case start
  then show ?case using start_inv [OF assms(2)] by simp
next
  case (step s s')
  then show ?case using sched_step_inv [OF step(2)] by (auto simp: keeps_jobs_def)
qed

section \<open>A sample batch\<close>

text \<open>Two mailboxes of one tenant, one worker: the first is admitted while the second waits.\<close>

definition sample_loader :: "(unit, unit) job_loader" where
  "sample_loader =
     (let job = \<lparr>bj_label = ''row'', bj_form = (),
                 bj_source = \<lparr>id_endpoint = ''old.test'', id_user = ''ann@a.test'', id_tenant = [], id_principal = []\<rparr>,
                 bj_destination = \<lparr>id_endpoint = ''new.test'', id_user = ''ann@b.test'', id_tenant = [], id_principal = []\<rparr>\<rparr>
      in \<lparr>ld_lower = to_ascii_lowercase, ld_default = job,
          ld_load = (\<lambda>l ids. (Inr (map (\<lambda>_. Inr job) ids), l))\<rparr>)"

definition sample_source :: "(unit, unit) job_source" where
  "sample_source = source_new [''j0'', ''j1''] [''r0'', ''r1''] [] ()"

abbreviation sample_batch :: "(unit, unit) scheduler" where
  "sample_batch \<equiv> batch_start 2 1 sample_ceilings sample_source"

definition sample_first :: "(unit, unit) scheduler" where
  "sample_first = dispatch_one 0 (scheduler_top sample_loader 2 0 sample_batch)"

text \<open>The second task finds the mailbox's only slot taken.\<close>

definition sample_second :: "(unit, unit) scheduler" where
  "sample_second = dispatch_one 0 sample_first"

lemma sample_second_reached: "sched_reach sample_loader 2 sample_batch sample_second"
proof -
  have 1: "sched_reach sample_loader 2 sample_batch (scheduler_top sample_loader 2 0 sample_batch)"
    by (rule sched_reach.step [OF sched_reach.start]) (rule sched_step.top, code_simp)
  have 2: "sched_reach sample_loader 2 sample_batch sample_first"
    unfolding sample_first_def by (rule sched_reach.step [OF 1]) (rule sched_step.dispatch; code_simp)
  show ?thesis
    unfolding sample_second_def by (rule sched_reach.step [OF 2]) (rule sched_step.dispatch; code_simp)
qed

lemma sample_fresh: "fresh_source sample_source"
  by code_simp

text \<open>A batch of one mailbox, from its start to its exit.\<close>

definition one_source :: "(unit, unit) job_source" where
  "one_source = source_new [''j0''] [''r0''] [] ()"

abbreviation one_batch :: "(unit, unit) scheduler" where
  "one_batch \<equiv> batch_start 1 1 sample_ceilings one_source"

definition one_waiting :: "(unit, unit) scheduler" where
  "one_waiting = check_exit ((dispatch_one 0 (scheduler_top sample_loader 1 0 one_batch))\<lparr>sc_mode := Checking\<rparr>)"

definition one_finished :: "(unit, unit) scheduler" where
  "one_finished = worker_done 1 [] (hd (sc_running one_waiting)) [] Attempt_Finished one_waiting"

definition one_exited :: "(unit, unit) scheduler" where
  "one_exited = check_exit (dispatch_one 3 (scheduler_top sample_loader 1 3
     (receive_report 2 (Report_Attempt Attempt_Finished) (one_finished\<lparr>sc_reports := []\<rparr>))))"

lemma one_waiting_reached: "sched_reach sample_loader 1 one_batch one_waiting"
proof -
  have 1: "sched_reach sample_loader 1 one_batch (scheduler_top sample_loader 1 0 one_batch)"
    by (rule sched_reach.step [OF sched_reach.start]) (rule sched_step.top, code_simp)
  have 2: "sched_reach sample_loader 1 one_batch (dispatch_one 0 (scheduler_top sample_loader 1 0 one_batch))"
    by (rule sched_reach.step [OF 1]) (rule sched_step.dispatch; code_simp)
  have 3: "sched_reach sample_loader 1 one_batch
      ((dispatch_one 0 (scheduler_top sample_loader 1 0 one_batch))\<lparr>sc_mode := Checking\<rparr>)"
    by (rule sched_reach.step [OF 2]) (rule sched_step.all_busy; code_simp)
  show ?thesis
    unfolding one_waiting_def by (rule sched_reach.step [OF 3]) (rule sched_step.check; code_simp)
qed

lemma one_exited_reached: "sched_reach sample_loader 1 one_batch one_exited"
proof -
  have r: "sc_running one_waiting = [] @ hd (sc_running one_waiting) # []" by code_simp
  have 1: "sched_reach sample_loader 1 one_batch one_finished"
    unfolding one_finished_def using sched_reach.step [OF one_waiting_reached sched_step.finish [OF r]] .
  have m: "sc_mode one_finished = Waiting" "sc_reports one_finished = [Report_Attempt Attempt_Finished]"
    by code_simp+
  note 2 = sched_reach.step [OF 1 sched_step.report [OF m, where now = 2]]
  have 3: "sched_reach sample_loader 1 one_batch (scheduler_top sample_loader 1 3
     (receive_report 2 (Report_Attempt Attempt_Finished) (one_finished\<lparr>sc_reports := []\<rparr>)))"
    by (rule sched_reach.step [OF 2]) (rule sched_step.top; code_simp)
  have 4: "sched_reach sample_loader 1 one_batch (dispatch_one 3 (scheduler_top sample_loader 1 3
     (receive_report 2 (Report_Attempt Attempt_Finished) (one_finished\<lparr>sc_reports := []\<rparr>))))"
    by (rule sched_reach.step [OF 3]) (rule sched_step.dispatch; code_simp)
  show ?thesis
    unfolding one_exited_def by (rule sched_reach.step [OF 4]) (rule sched_step.check; code_simp)
qed

section \<open>Properties\<close>

text \<open>
  C3: a batch that ends without a worker panic and without a failing job source has settled every one of
  its jobs exactly once, whatever the order in which attempts ended, were retried or were cancelled.
\<close>

theorem every_job_settled_once:
  assumes "sched_reach ld w (batch_start w c pc src) s" and "fresh_source src" and "0 < w"
    and "sc_mode s = Exited" and "\<not> sc_worker_panicked s" and "\<not> sc_enqueue_failed s"
  shows "distinct (map fst (sc_settled s)) \<and> set (map fst (sc_settled s)) = {..<length (js_job_ids src)}"
proof -
  note r = reach_inv [OF assms(1,2)]
  have "sc_alive s \<noteq> 0" using r assms(3,5) by (auto simp: sched_inv_def workers_ok_def)
  then have "sc_running s = []" "sc_reports s = []" "\<not> sc_source_open s" "waiting_tasks s = {#}"
    using r assms(4) by (auto simp: sched_inv_def exit_ok_def)
  then have "accounted s = mset (map fst (sc_settled s))"
    by (simp add: accounted_def flying_tasks_def)
  then have "mset (map fst (sc_settled s)) = mset [0..<length (js_job_ids src)]" using r assms(6) by simp
  then show ?thesis
    by (metis atLeast0LessThan distinct_upt mset_eq_imp_distinct_iff mset_eq_setD set_upt)
qed

theorem every_job_settled_once_witness:
  "distinct (map fst (sc_settled one_exited)) \<and>
   set (map fst (sc_settled one_exited)) = {..<length (js_job_ids one_source)} \<and>
   sc_settled one_exited = [(0, By_Attempt)]"
proof -
  have f: "fresh_source one_source" by code_simp
  have m: "sc_mode one_exited = Exited" "\<not> sc_worker_panicked one_exited" "\<not> sc_enqueue_failed one_exited"
    "sc_settled one_exited = [(0, By_Attempt)]"
    by code_simp+
  show ?thesis
    using every_job_settled_once [OF one_exited_reached f zero_less_one m(1-3)] m(4) by blast
qed

text \<open>
  C4: at no moment is a job executed by two attempts, or executed again once it is settled, or waiting
  while it runs; and no job is ever settled for inconsistent slot accounting or for a missing worker.
\<close>

theorem jobs_never_duplicated:
  assumes "sched_reach ld w (batch_start w c pc src) s" and "fresh_source src"
  shows "distinct (map fst (sc_settled s) @ map (mt_index \<circ> att_task) (sc_running s) @
                   map mt_index (fq_items (sc_ready s) @ sc_slot_waiting s)) \<and>
         (\<forall>(i, how) \<in> set (sc_settled s). how \<noteq> By_Accounting \<and> how \<noteq> By_Undelivered)"
proof -
  let ?xs = "map fst (sc_settled s) @ map (mt_index \<circ> att_task) (sc_running s) @
      map mt_index (fq_items (sc_ready s) @ sc_slot_waiting s)"
  note r = reach_inv [OF assms]
  have "mset ?xs \<subseteq># accounted s"
    by (simp add: accounted_def place_defs multiset.map_comp subset_mset.add_increasing2)
  then have "mset ?xs \<subseteq># mset [0..<length (js_job_ids src)]" using r subset_mset.order_trans by blast
  then have "distinct ?xs"
    by (metis distinct_upt mset_subset_eq_exists_conv mset_append distinct_append ex_mset mset_eq_imp_distinct_iff)
  moreover have "settled_ok s" using r by (simp add: sched_inv_def)
  ultimately show ?thesis by (auto simp: settled_ok_def good_settlement_def list_all_iff)
qed

theorem jobs_never_duplicated_witness:
  "distinct (map fst (sc_settled sample_second) @ map (mt_index \<circ> att_task) (sc_running sample_second) @
     map mt_index (fq_items (sc_ready sample_second) @ sc_slot_waiting sample_second)) \<and>
   map (mt_index \<circ> att_task) (sc_running sample_second) = [0]"
proof -
  have "map (mt_index \<circ> att_task) (sc_running sample_second) = [0]" by code_simp
  then show ?thesis using jobs_never_duplicated [OF sample_second_reached sample_fresh] by blast
qed

text \<open>
  C6: the batch's memory and its channels are bounded. The jobs that are materialised (waiting, running
  or reported back) never exceed the parking bound plus one per worker, and the dispatched and
  unreported attempts never exceed the live workers, so no bounded channel ever fills.
\<close>

theorem scheduler_is_bounded:
  assumes "sched_reach ld w (batch_start w c pc src) s" and "fresh_source src"
  shows "waiting_count s + length (sc_running s) \<le> max_parked w + w \<and>
         sc_busy s = length (sc_running s) + length (sc_reports s) \<and> sc_busy s \<le> w \<and>
         length (sc_running s) \<le> sc_live_workers s"
proof -
  have i: "sched_inv w s" using reach_inv [OF assms] by simp
  then have q: "queues_ok s" "memory_ok w s" "workers_ok w s" by (simp_all add: sched_inv_def)
  have "size (flying_tasks s) = length (sc_running s) + length (concat (map retry_task (sc_reports s)))"
    by (simp add: flying_tasks_def)
  moreover have "length (filter ((=) Report_Panicked) (sc_reports s)) \<le> length (sc_reports s)"
    by (rule length_filter_le)
  ultimately show ?thesis
    using q(2,3) waiting_count_size [OF q(1)] unfolding memory_ok_def workers_ok_def by linarith
qed

theorem scheduler_is_bounded_witness:
  "waiting_count sample_second + length (sc_running sample_second) \<le> 258 \<and>
   sc_busy sample_second \<le> 2 \<and> sc_busy sample_second = 1"
proof -
  have "max_parked 2 + 2 = 258" "sc_busy sample_second = 1" by code_simp+
  then show ?thesis using scheduler_is_bounded [OF sample_second_reached sample_fresh] by simp
qed

text \<open>
  C5: no wakeup is lost. While a task waits for a concurrency slot and the batch runs, some running
  attempt still holds an admission whose release will signal the scheduler, or the signal or a worker's
  report is already pending; each of the two requeues every waiting task.
\<close>

theorem no_lost_wakeup:
  assumes "sched_reach ld w (batch_start w c pc src) s" and "fresh_source src"
    and "sc_mode s \<noteq> Exited" and "sc_slot_waiting s \<noteq> []"
  shows "(\<exists>a \<in> set (sc_running s). att_held a) \<or> notifier (sc_limiter s) = Some True \<or> sc_reports s \<noteq> []"
proof -
  have "wakeup_ok s" using reach_inv [OF assms(1,2)] by (simp add: sched_inv_def)
  then show ?thesis using assms(3,4) by (auto simp: wakeup_ok_def held_def filter_empty_conv)
qed

theorem no_lost_wakeup_witness:
  "length (sc_slot_waiting sample_second) = 1 \<and>
   ((\<exists>a \<in> set (sc_running sample_second). att_held a) \<or>
    notifier (sc_limiter sample_second) = Some True \<or> sc_reports sample_second \<noteq> [])"
proof -
  have "length (sc_slot_waiting sample_second) = 1" "sc_mode sample_second \<noteq> Exited" by code_simp+
  then show ?thesis using no_lost_wakeup [OF sample_second_reached sample_fresh] by fastforce
qed

end
