(* ===== verification/Command_Line.thy ===== *)
theory Command_Line
  imports Prelude
begin

text \<open>
  Command-line construction: \<^verbatim>\<open>src/src/command.rs\<close> (the removal of generated secret placeholders and the
  shell-word splitter) and \<^verbatim>\<open>src/src/extra_options.rs\<close> (the allowlist through which the operator's
  tuning field reaches the transfer engine's argument vector).

  Strings are their UTF-8 bytes. The splitter looks at characters; a character outside ASCII is only
  ever pushed whole, except for the Unicode white space recognised by \<open>ws_width\<close>, so reading byte by
  byte gives the same words.
\<close>

section \<open>command.rs\<close>

text \<open>The scan returns the kept arguments, the number of occurrences and whether one was malformed.\<close>

fun placeholder_scan :: "str \<Rightarrow> str \<Rightarrow> str list \<Rightarrow> str list \<times> nat \<times> bool" where
  "placeholder_scan opt placeholder [] = ([], 0, False)"
| "placeholder_scan opt placeholder [a] =
     (if a \<noteq> opt then ([a], 0, False) else ([], 1, True))"
| "placeholder_scan opt placeholder (a # value # args) =
     (if a \<noteq> opt then
        (let (kept, n, bad) = placeholder_scan opt placeholder (value # args) in (a # kept, n, bad))
      else if value = placeholder then
        (let (kept, n, bad) = placeholder_scan opt placeholder args in (kept, n + 1, bad))
      else if starts_with ''--'' value then
        (let (kept, n, bad) = placeholder_scan opt placeholder (value # args) in (kept, n + 1, True))
      else
        (let (kept, n, bad) = placeholder_scan opt placeholder args in (kept, n + 1, True)))"

text \<open>The argument vector afterwards (it is replaced in every case) and the verdict.\<close>

definition remove_placeholder_options :: "str list \<Rightarrow> str \<Rightarrow> str \<Rightarrow> str list \<times> (str + unit)" where
  "remove_placeholder_options args opt placeholder =
     (let (kept, occurrences, malformed) = placeholder_scan opt placeholder args in
      (kept, if malformed then Inl (''malformed generated argument pair for '' @ opt)
             else if 1 < occurrences then Inl (''duplicate generated argument '' @ opt)
             else Inr ()))"

abbreviation BACKSLASH :: char where "BACKSLASH \<equiv> CHR 0x5C"
abbreviation QUOTE :: char where "QUOTE \<equiv> CHR 0x27"
abbreviation DQUOTE :: char where "DQUOTE \<equiv> CHR 0x22"

function shell_scan ::
    "str \<Rightarrow> str list \<Rightarrow> str \<Rightarrow> char option \<Rightarrow> bool \<Rightarrow> bool \<Rightarrow> str + str list" where
  "shell_scan [] words current quote escaped in_token =
     (if escaped then Inl ''unfinished escape''
      else if quote \<noteq> None then Inl ''unterminated quote''
      else Inr (if in_token then words @ [current] else words))"
| "shell_scan (c # cs) words current quote escaped in_token =
     (if escaped then shell_scan cs words (current @ [c]) quote False True
      else if c = BACKSLASH \<and> quote \<noteq> Some QUOTE then shell_scan cs words current quote True True
      else case quote of
             Some active \<Rightarrow>
               if c = active then shell_scan cs words current None False True
               else shell_scan cs words (current @ [c]) quote False True
           | None \<Rightarrow>
               if c = QUOTE \<or> c = DQUOTE then shell_scan cs words current (Some c) False True
               else if 0 < ws_width (c # cs) then
                 (if in_token
                  then shell_scan (drop (ws_width (c # cs)) (c # cs)) (words @ [current]) [] None False False
                  else shell_scan (drop (ws_width (c # cs)) (c # cs)) words current None False False)
               else shell_scan cs words (current @ [c]) None False True)"
  by pat_completeness auto
termination
  by (relation "measure (\<lambda>(cs, _). length cs)") auto

definition parse_shell_words :: "str \<Rightarrow> str + str list" where
  "parse_shell_words input = shell_scan input [] [] None False False"

section \<open>extra_options.rs\<close>

definition MAX_EXTRA_OPTIONS_BYTES :: nat where "MAX_EXTRA_OPTIONS_BYTES = 65536"
definition MAX_EXTRA_OPTION_TOKENS :: nat where "MAX_EXTRA_OPTION_TOKENS = 128"

datatype option_type = Boolean_Option | Integer_Option nat nat

definition OPTION_SPECS :: "(str \<times> option_type) list" where
  "OPTION_SPECS =
     [(''nofoldersizes'', Boolean_Option),
      (''skipcrossduplicates'', Boolean_Option),
      (''subscribe'', Boolean_Option),
      (''maxlinelength'', Integer_Option 1 16777216),
      (''timeout'', Integer_Option 1 86400),
      (''reconnectretry1'', Integer_Option 0 100),
      (''reconnectretry2'', Integer_Option 0 100),
      (''errorsmax'', Integer_Option 0 100000),
      (''maxsleep'', Integer_Option 0 86400),
      (''sleep'', Integer_Option 0 86400)]"

text \<open>\<^verbatim>\<open>char::is_control\<close> on UTF-8 bytes: U+0000 to U+001F, U+007F and U+0080 to U+009F.\<close>

fun has_control :: "str \<Rightarrow> bool" where
  "has_control [] = False"
| "has_control [c] = (char_code c < 32 \<or> char_code c = 127)"
| "has_control (c # d # cs) =
     (char_code c < 32 \<or> char_code c = 127 \<or>
      (char_code c = 194 \<and> 128 \<le> char_code d \<and> char_code d < 160) \<or> has_control (d # cs))"

definition option_name :: "str \<Rightarrow> str \<times> str option" where
  "option_name opt =
     (case split_once ''='' opt of None \<Rightarrow> (opt, None) | Some (name, value) \<Rightarrow> (name, Some value))"

definition integer_token :: "str \<Rightarrow> nat \<Rightarrow> nat \<Rightarrow> str \<Rightarrow> str + str" where
  "integer_token name lo hi value =
     (case parse_u64 value of
        None \<Rightarrow> Inl (''Extra options: '' @ name @ '' requires an integer between '' @ nat_to_string lo @
                     '' and '' @ nat_to_string hi @ ''.'')
      | Some n \<Rightarrow>
          if lo \<le> n \<and> n \<le> hi then Inr (nat_to_string n)
          else Inl (''Extra options: '' @ name @ '' must be between '' @ nat_to_string lo @ '' and '' @
                    nat_to_string hi @ ''.''))"

text \<open>The loop over the words, one option (with its value) at a time.\<close>

fun canonical_tokens :: "str list \<Rightarrow> str + str list" where
  "canonical_tokens [] = Inr []"
| "canonical_tokens (opt # rest) =
     (let (name, inline_value) = option_name opt in
      if \<not> starts_with ''--'' name \<or> starts_with ''---'' name
      then Inl (''Extra options: '' @ name @ '' must use the canonical --option spelling'')
      else case map_of OPTION_SPECS (drop 2 name) of
             None \<Rightarrow> Inl (''Extra options: '' @ name @ '' is not in the safe imapsync option allowlist; use the typed migration controls for settings controlled by the plan'')
           | Some kind \<Rightarrow>
               if has_control opt then Inl ''Extra options cannot contain control characters.''
               else case kind of
                      Boolean_Option \<Rightarrow>
                        if inline_value \<noteq> None
                        then Inl (''Extra options: '' @ name @ '' does not accept a value.'')
                        else map_sum id ((#) (''--'' @ drop 2 name)) (canonical_tokens rest)
                    | Integer_Option lo hi \<Rightarrow>
                        (case inline_value of
                           Some value \<Rightarrow>
                             (case integer_token name lo hi value of
                                Inl e \<Rightarrow> Inl e
                              | Inr v \<Rightarrow> map_sum id (\<lambda>ts. (''--'' @ drop 2 name) # v # ts) (canonical_tokens rest))
                         | None \<Rightarrow>
                             (case rest of
                                [] \<Rightarrow> Inl (''Extra options: '' @ name @ '' requires a value.'')
                              | value # rest' \<Rightarrow>
                                  if starts_with ''-'' value \<or> value = []
                                  then Inl (''Extra options: '' @ name @ '' requires a non-option value.'')
                                  else case integer_token name lo hi value of
                                         Inl e \<Rightarrow> Inl e
                                       | Inr v \<Rightarrow>
                                           map_sum id (\<lambda>ts. (''--'' @ drop 2 name) # v # ts) (canonical_tokens rest'))))"

definition canonical :: "str \<Rightarrow> str + str list" where
  "canonical extra_options =
     (if MAX_EXTRA_OPTIONS_BYTES < length extra_options
      then Inl (''Extra options exceed the '' @ nat_to_string MAX_EXTRA_OPTIONS_BYTES @ ''-byte limit'')
      else case parse_shell_words extra_options of
             Inl error \<Rightarrow> Inl (''Extra options: '' @ error)
           | Inr options \<Rightarrow>
               if MAX_EXTRA_OPTION_TOKENS < length options
               then Inl (''Extra options contain more than '' @ nat_to_string MAX_EXTRA_OPTION_TOKENS @ '' tokens'')
               else case canonical_tokens options of
                      Inl error \<Rightarrow> Inl error
                    | Inr tokens \<Rightarrow>
                        if MAX_EXTRA_OPTION_TOKENS < length tokens
                        then Inl (''Extra options expand to more than '' @
                                  nat_to_string MAX_EXTRA_OPTION_TOKENS @ '' engine arguments'')
                        else Inr tokens)"

section \<open>Splitting quoted words\<close>

text \<open>The standard single-quoting of a word: every quote inside is closed, escaped and reopened.\<close>

definition quote_char :: "char \<Rightarrow> str" where
  "quote_char c = (if c = QUOTE then [QUOTE, BACKSLASH, QUOTE, QUOTE] else [c])"

definition shell_quote :: "str \<Rightarrow> str" where
  "shell_quote w = [QUOTE] @ concat (map quote_char w) @ [QUOTE]"

fun join_words :: "str list \<Rightarrow> str" where
  "join_words [] = []"
| "join_words [w] = w"
| "join_words (w # ws) = w @ '' '' @ join_words ws"

lemma scan_quoted:
  "shell_scan (concat (map quote_char w) @ [QUOTE] @ rest) words cur (Some QUOTE) False True =
   shell_scan rest words (cur @ w) None False True"
  by (induction w arbitrary: cur) (simp_all add: quote_char_def)

lemma scan_shell_quote:
  "shell_scan (shell_quote w @ rest) words cur None False tok = shell_scan rest words (cur @ w) None False True"
  using scan_quoted [of w rest words cur] by (simp add: shell_quote_def)

lemma scan_space:
  "shell_scan ('' '' @ rest) words cur None False True = shell_scan rest (words @ [cur]) [] None False False"
  by (simp add: ws_width_def ws_one_def)

lemma scan_quoted_words:
  "ws \<noteq> [] \<Longrightarrow> shell_scan (join_words (map shell_quote ws)) words [] None False False = Inr (words @ ws)"
proof (induction ws arbitrary: words rule: join_words.induct)
  case (2 w)
  then show ?case using scan_shell_quote [of w "[]" words "[]" False] by simp
next
  case (3 w v ws)
  have "shell_scan (shell_quote w @ '' '' @ join_words (map shell_quote (v # ws))) words [] None False False =
      shell_scan (join_words (map shell_quote (v # ws))) (words @ [w]) [] None False False"
    by (simp only: scan_shell_quote scan_space append_Nil)
  with 3 show ?case by simp
qed simp

section \<open>Plain words\<close>

definition plain_char :: "char \<Rightarrow> bool" where
  "plain_char c \<longleftrightarrow> is_ascii_alphanumeric c \<or> c = CHR ''-''"

definition plain_word :: "str \<Rightarrow> bool" where
  "plain_word w \<longleftrightarrow> w \<noteq> [] \<and> list_all plain_char w"

lemma plain_char_neq:
  assumes "plain_char c"
  shows "c \<noteq> BACKSLASH" "c \<noteq> QUOTE" "c \<noteq> DQUOTE" "\<And>cs. ws_width (c # cs) = 0" "c \<noteq> CHR ''=''" "32 \<le> char_code c" "char_code c < 127"
proof -
  have r: "c \<noteq> x" if "\<not> plain_char x" for x using assms that by auto
  have f: "\<not> plain_char BACKSLASH" "\<not> plain_char QUOTE" "\<not> plain_char DQUOTE" "\<not> plain_char CHR ''=''"
    "\<not> plain_char CHR 0x20" "\<not> plain_char CHR 0x09" "\<not> plain_char CHR 0x0A" "\<not> plain_char CHR 0x0B"
    "\<not> plain_char CHR 0x0C" "\<not> plain_char CHR 0x0D" "\<not> plain_char CHR 0xC2" "\<not> plain_char CHR 0xE1"
    "\<not> plain_char CHR 0xE2" "\<not> plain_char CHR 0xE3"
    by code_simp+
  show "c \<noteq> BACKSLASH" "c \<noteq> QUOTE" "c \<noteq> DQUOTE" "c \<noteq> CHR ''=''" using r f by auto
  have "\<not> ws_one c" "\<And>b. \<not> ws_two c b" "\<And>b d. \<not> ws_three c b d"
    using r f by (auto simp: ws_one_def ws_two_def ws_three_def)
  then show "ws_width (c # cs) = 0" for cs by (simp add: ws_width_def split: list.splits)
  show "32 \<le> char_code c" "char_code c < 127"
    using assms
    by (auto simp: plain_char_def is_ascii_alphanumeric_def is_ascii_alphabetic_def is_ascii_digit_def
        char_code_def)
qed

lemma scan_plain:
  "list_all plain_char w \<Longrightarrow> shell_scan (w @ rest) words cur None False tok =
     shell_scan rest words (cur @ w) None False (tok \<or> w \<noteq> [])"
proof (induction w arbitrary: cur tok)
  case (Cons c w)
  then have "plain_char c" by simp
  from plain_char_neq [OF this] Cons show ?case by simp
qed simp

lemma scan_plain_words:
  "ws \<noteq> [] \<Longrightarrow> list_all plain_word ws \<Longrightarrow>
   shell_scan (join_words ws) words [] None False False = Inr (words @ ws)"
proof (induction ws arbitrary: words rule: join_words.induct)
  case (2 w)
  then show ?case using scan_plain [of w "[]" words "[]" False] by (simp add: plain_word_def)
next
  case (3 w v ws)
  have "w \<noteq> []" "list_all plain_char w" using 3(3) by (auto simp: plain_word_def)
  then have "shell_scan (w @ '' '' @ join_words (v # ws)) words [] None False False =
      shell_scan (join_words (v # ws)) (words @ [w]) [] None False False"
    by (simp only: scan_plain scan_space append_Nil simp_thms)
  with 3 show ?case by simp
qed simp

lemma nat_to_string_plain: "plain_word (nat_to_string n)"
  by (auto simp: plain_word_def list_all_iff plain_char_def is_ascii_alphanumeric_def dest: nat_to_string_digits)

lemma nat_to_string_length: "n < 10 ^ k \<Longrightarrow> 0 < k \<Longrightarrow> length (nat_to_string n) \<le> k"
proof (induction n arbitrary: k rule: nat_to_string.induct)
  case (1 n)
  show ?case
  proof (cases "n < 10")
    case True
    then show ?thesis using 1(3) by (simp add: nat_to_string.simps [of n])
  next
    case False
    then have k: "1 < k" using 1(2,3) by (cases k; cases "k - 1") auto
    have "n div 10 < 10 ^ (k - 1)"
      using 1(2) k by (simp add: less_mult_imp_div_less power_eq_if mult.commute)
    then have "length (nat_to_string (n div 10)) \<le> k - 1" using 1(1) [OF False] k by simp
    then show ?thesis using k False by (simp add: nat_to_string.simps [of n])
  qed
qed

section \<open>The allowlist\<close>

fun safe_argv :: "str list \<Rightarrow> bool" where
  "safe_argv [] = True"
| "safe_argv (t # ts) =
     (starts_with ''--'' t \<and>
      (case map_of OPTION_SPECS (drop 2 t) of
         None \<Rightarrow> False
       | Some Boolean_Option \<Rightarrow> safe_argv ts
       | Some (Integer_Option lo hi) \<Rightarrow>
           (case ts of
              [] \<Rightarrow> False
            | v # ts' \<Rightarrow>
                (case parse_u64 v of
                   None \<Rightarrow> False
                 | Some n \<Rightarrow> lo \<le> n \<and> n \<le> hi \<and> v = nat_to_string n) \<and> safe_argv ts')))"

lemma spec_names:
  assumes "map_of OPTION_SPECS nm = Some kind"
  shows "plain_word (''--'' @ nm)" "length nm \<le> 19" "starts_with ''---'' (''--'' @ nm) = False"
    "kind = Integer_Option lo hi \<Longrightarrow> hi \<le> 16777216"
proof -
  have "nm \<in> fst ` set OPTION_SPECS \<and> kind \<in> snd ` set OPTION_SPECS" using assms by (force dest: map_of_SomeD)
  moreover have "\<forall>nm \<in> fst ` set OPTION_SPECS. plain_word (''--'' @ nm) \<and> length nm \<le> 19 \<and>
      \<not> starts_with ''---'' (''--'' @ nm)"
    by code_simp
  moreover have "\<forall>k \<in> snd ` set OPTION_SPECS. case k of Boolean_Option \<Rightarrow> True | Integer_Option lo hi \<Rightarrow> hi \<le> 16777216"
    by code_simp
  ultimately show "plain_word (''--'' @ nm)" "length nm \<le> 19" "starts_with ''---'' (''--'' @ nm) = False"
    "kind = Integer_Option lo hi \<Longrightarrow> hi \<le> 16777216"
    by fastforce+
qed

lemma dashes: "starts_with ''--'' t \<Longrightarrow> ''--'' @ drop 2 t = t"
  by (metis append_take_drop_id list.size(3) list.size(4) One_nat_def numeral_2_eq_2 add_Suc_right add_0_right plus_1_eq_Suc starts_with_take)

lemma integer_token_InrD:
  assumes "integer_token name lo hi value = Inr v" and "hi \<le> 16777216"
  shows "case parse_u64 v of None \<Rightarrow> False | Some n \<Rightarrow> lo \<le> n \<and> n \<le> hi \<and> v = nat_to_string n"
proof -
  obtain n where n: "v = nat_to_string n" "lo \<le> n" "n \<le> hi"
    using assms(1) by (auto simp: integer_token_def split: option.splits if_splits)
  moreover have "parse_u64 (nat_to_string n) = Some n"
    using n(3) assms(2) by (simp add: parse_u64_def parse_unsigned_nat_to_string u64_max_def)
  ultimately show ?thesis by simp
qed

lemma map_sum_Inr_iff: "map_sum id f x = Inr y \<longleftrightarrow> (\<exists>z. x = Inr z \<and> y = f z)"
  by (cases x) auto

text \<open>What a successful pass over the first option has read.\<close>

lemma canonical_tokens_ConsE:
  assumes "canonical_tokens (opt # rest) = Inr ts"
  obtains nm rest' ts' where "map_of OPTION_SPECS nm = Some Boolean_Option" "rest' = rest"
      "canonical_tokens rest' = Inr ts'" "ts = (''--'' @ nm) # ts'"
  | nm lo hi v rest' ts' where "map_of OPTION_SPECS nm = Some (Integer_Option lo hi)"
      "rest' = rest \<or> (\<exists>x. rest = x # rest')" "canonical_tokens rest' = Inr ts'"
      "ts = (''--'' @ nm) # v # ts'" "\<exists>name value. integer_token name lo hi value = Inr v"
proof -
  obtain name inl where n: "option_name opt = (name, inl)" by force
  obtain kind where k: "map_of OPTION_SPECS (drop 2 name) = Some kind"
    using assms n by (auto split: if_splits option.splits)
  show thesis
  proof (cases kind)
    case Boolean_Option
    then show thesis
      using that(1) [of "drop 2 name" rest] assms n k by (auto simp: map_sum_Inr_iff split: if_splits)
  next
    case (Integer_Option lo hi)
    show thesis
    proof (cases inl)
      case None
      then obtain x rest' where "rest = x # rest'"
        using assms n k Integer_Option by (auto split: if_splits list.splits)
      then show thesis
        using that(2) [of "drop 2 name" lo hi rest'] assms n k Integer_Option None
        by (auto simp: map_sum_Inr_iff split: if_splits sum.splits)
    next
      case (Some iv)
      then show thesis
        using that(2) [of "drop 2 name" lo hi rest] assms n k Integer_Option
        by (auto simp: map_sum_Inr_iff split: if_splits sum.splits)
    qed
  qed
qed

lemma canonical_tokens_safe: "canonical_tokens opts = Inr ts \<Longrightarrow> safe_argv ts"
proof (induction "length opts" arbitrary: opts ts rule: less_induct)
  case less
  show ?case
  proof (cases opts)
    case Nil
    then show ?thesis using less.prems by simp
  next
    case (Cons opt rest)
    from less.prems [unfolded Cons] show ?thesis
    proof (cases rule: canonical_tokens_ConsE)
      case (1 nm rest' ts')
      then show ?thesis using less.hyps [of rest' ts'] Cons by simp
    next
      case (2 nm lo hi v rest' ts')
      have "hi \<le> 16777216" using spec_names(4) [OF 2(1) refl] .
      then have "case parse_u64 v of None \<Rightarrow> False | Some n \<Rightarrow> lo \<le> n \<and> n \<le> hi \<and> v = nat_to_string n"
        using integer_token_InrD 2(5) by blast
      moreover have "safe_argv ts'" using less.hyps [of rest' ts'] Cons 2(2,3) by auto
      ultimately show ?thesis using 2 by simp
    qed
  qed
qed

lemma split_once_absent: "c \<notin> set s \<Longrightarrow> split_once [c] s = None"
  by (simp add: split_once_char_None)

lemma has_control_plain: "list_all plain_char w \<Longrightarrow> \<not> has_control w"
proof (induction w rule: has_control.induct)
  case (2 c)
  then show ?case using plain_char_neq(6,7) [of c] by auto
next
  case (3 c d cs)
  then show ?case using plain_char_neq(6,7) [of c] by auto
qed simp

lemma spec_option_name:
  assumes "map_of OPTION_SPECS nm = Some kind"
  shows "option_name (''--'' @ nm) = (''--'' @ nm, None)" "\<not> has_control (''--'' @ nm)"
proof -
  have p: "list_all plain_char (''--'' @ nm)" using spec_names(1) [OF assms] by (simp add: plain_word_def)
  then have "CHR ''='' \<notin> set (''--'' @ nm)" using plain_char_neq(5) unfolding list_all_iff by blast
  then have "split_once ''='' (''--'' @ nm) = None" by (rule split_once_absent)
  then show "option_name (''--'' @ nm) = (''--'' @ nm, None)" by (simp only: option_name_def option.case)
  show "\<not> has_control (''--'' @ nm)" using has_control_plain [OF p] .
qed

lemma canonical_tokens_id: "safe_argv ts \<Longrightarrow> canonical_tokens ts = Inr ts"
proof (induction ts rule: safe_argv.induct)
  case (2 t ts)
  have t: "starts_with ''--'' t" "''--'' @ drop 2 t = t" using 2 dashes [of t] by auto
  obtain kind where k: "map_of OPTION_SPECS (drop 2 t) = Some kind" using 2(3) by (auto split: option.splits)
  have o: "option_name t = (t, None)" "\<not> has_control t" "\<not> starts_with ''---'' t"
    using spec_option_name [OF k] spec_names(3) [OF k] unfolding t(2) by simp_all
  show ?case
  proof (cases kind)
    case Boolean_Option
    then show ?thesis using 2 k o t by simp
  next
    case (Integer_Option lo hi)
    then obtain v ts' n where v: "ts = v # ts'" "parse_u64 v = Some n" "lo \<le> n" "n \<le> hi" "v = nat_to_string n"
        "safe_argv ts'"
      using 2(3) k by (auto split: list.splits option.splits)
    have "canonical_tokens ts' = Inr ts'" using 2(2) [OF k Integer_Option v(1)] v(6) by simp
    moreover obtain d ds where d: "v = d # ds" "plain_char d" "d \<noteq> CHR ''-''"
    proof -
      obtain d ds where "v = d # ds" using v(5) nat_to_string_nonempty [of n] by (metis neq_Nil_conv)
      moreover from this have "is_ascii_digit d" using nat_to_string_digits [of d n] v(5) by simp
      moreover have "\<not> is_ascii_digit CHR ''-''" by code_simp
      ultimately show thesis
        using that [of d ds] by (auto simp: plain_char_def is_ascii_alphanumeric_def)
    qed
    moreover have "integer_token t lo hi v = Inr v" using v by (simp add: integer_token_def)
    ultimately show ?thesis using k o t v(1) Integer_Option by simp
  qed
qed simp

lemma safe_argv_words: "safe_argv ts \<Longrightarrow> list_all (\<lambda>t. plain_word t \<and> length t \<le> 21) ts"
proof (induction ts rule: safe_argv.induct)
  case (2 t ts)
  have t: "''--'' @ drop 2 t = t" using 2 dashes [of t] by auto
  obtain kind where k: "map_of OPTION_SPECS (drop 2 t) = Some kind" using 2(3) by (auto split: option.splits)
  have p: "plain_word t" using spec_names(1) [OF k] unfolding t .
  have "length (''--'' @ drop 2 t) \<le> 21" using spec_names(2) [OF k] by simp
  then have l: "length t \<le> 21" unfolding t .
  show ?case
  proof (cases kind)
    case Boolean_Option
    then show ?thesis using 2 k p l by simp
  next
    case (Integer_Option lo hi)
    then obtain v ts' n where v: "ts = v # ts'" "n \<le> hi" "v = nat_to_string n" "safe_argv ts'"
      using 2(3) k by (auto split: list.splits option.splits)
    have "n < 10 ^ 8" using v(2) spec_names(4) [OF k Integer_Option] by simp
    then have "length v \<le> 8" unfolding v(3) by (rule nat_to_string_length) simp
    then show ?thesis
      using 2(2) [OF k Integer_Option v(1)] v(1,4) nat_to_string_plain [of n] p l by (simp add: v(3))
  qed
qed simp

lemma join_words_length: "list_all (\<lambda>t. length t \<le> m) ts \<Longrightarrow> length (join_words ts) \<le> (m + 1) * length ts"
  by (induction ts rule: join_words.induct) auto

lemma canonical_InrD:
  assumes "canonical s = Inr argv"
  shows "safe_argv argv \<and> length argv \<le> MAX_EXTRA_OPTION_TOKENS"
  using assms canonical_tokens_safe by (auto simp: canonical_def split: if_splits sum.splits)

section \<open>Removing placeholders\<close>

lemma placeholder_scan_clean:
  "placeholder_scan opt ph args = (kept, n, bad) \<Longrightarrow>
     opt \<notin> set kept \<and> (\<not> bad \<and> n = 0 \<longrightarrow> kept = args) \<and>
     (\<not> bad \<and> n = 1 \<longrightarrow> (\<exists>xs ys. args = xs @ [opt, ph] @ ys \<and> kept = xs @ ys))"
proof (induction opt ph args arbitrary: kept n bad rule: placeholder_scan.induct)
  case (3 opt ph a v args)
  obtain k1 n1 b1 where r1: "placeholder_scan opt ph (v # args) = (k1, n1, b1)" by (metis prod_cases3)
  obtain k2 n2 b2 where r2: "placeholder_scan opt ph args = (k2, n2, b2)" by (metis prod_cases3)
  show ?case
  proof (cases "a = opt")
    case False
    then have e: "kept = a # k1" "n = n1" "bad = b1" using 3(5) r1 by auto
    have "\<exists>xs ys. a # v # args = xs @ [opt, ph] @ ys \<and> kept = xs @ ys"
      if "v # args = xs @ [opt, ph] @ ys" "k1 = xs @ ys" for xs ys
      using that e by (intro exI [of _ "a # xs"] exI [of _ ys]) simp
    then show ?thesis using 3(1) [OF False r1] False e by auto
  next
    case True
    consider (pair) "v = ph" | (opt) "v \<noteq> ph" "starts_with ''--'' v" | (bad) "v \<noteq> ph" "\<not> starts_with ''--'' v"
      by blast
    then show ?thesis
    proof cases
      case pair
      then have "kept = k2" "n = n2 + 1" "bad = b2" using 3(5) r2 True by auto
      then show ?thesis using 3(2) [OF _ pair r2] True pair by (auto intro: exI [of _ "[]"])
    next
      case opt
      then show ?thesis using 3(3) [OF _ opt r1] 3(5) r1 True by auto
    next
      case bad
      then show ?thesis using 3(4) [OF _ bad r2] 3(5) r2 True by auto
    qed
  qed
qed (auto split: if_splits)

section \<open>Properties\<close>

text \<open>
  C38: whatever an operator types into the tuning field, the arguments that reach the engine are
  allowlisted: each is \<^verbatim>\<open>--\<close> and an allowlisted name, an integer option is followed by the decimal
  of a number in its range, a boolean one by no value, and there are at most 128 of them.
\<close>

theorem extra_options_are_allowlisted:
  assumes "canonical s = Inr argv"
  shows "safe_argv argv \<and> length argv \<le> 128"
  using canonical_InrD [OF assms] by (simp add: MAX_EXTRA_OPTION_TOKENS_def)

theorem extra_options_are_allowlisted_witness:
  "safe_argv [''--timeout'', ''90'', ''--subscribe''] \<and> \<not> safe_argv [''--delete2''] \<and>
   length [''--timeout'', ''90'', ''--subscribe''] \<le> 128"
proof -
  have e: "canonical ''--timeout 0090 --subscribe'' = Inr [''--timeout'', ''90'', ''--subscribe'']" by code_simp
  have "\<not> safe_argv [''--delete2'']" by code_simp
  with extra_options_are_allowlisted [OF e] show ?thesis by simp
qed

text \<open>
  The canonical arguments are a fixed point: written out again as a tuning field they are accepted
  and give the same arguments, so what was validated is what is launched.
\<close>

theorem extra_options_idempotent:
  assumes "canonical s = Inr argv"
  shows "canonical (join_words argv) = Inr argv"
proof -
  have a: "safe_argv argv" "length argv \<le> 128"
    using canonical_InrD [OF assms] by (simp_all add: MAX_EXTRA_OPTION_TOKENS_def)
  have w: "list_all plain_word argv" "list_all (\<lambda>t. length t \<le> 21) argv"
    using safe_argv_words [OF a(1)] by (auto simp: list_all_iff)
  have "length (join_words argv) \<le> 22 * length argv" using join_words_length [OF w(2)] by simp
  then have l: "length (join_words argv) \<le> 65536" using a(2) by simp
  have "parse_shell_words (join_words argv) = Inr argv"
    using scan_plain_words [OF _ w(1), of "[]"] by (cases "argv = []") (simp_all add: parse_shell_words_def)
  then show ?thesis
    using l a canonical_tokens_id [OF a(1)]
    by (simp add: canonical_def MAX_EXTRA_OPTIONS_BYTES_def MAX_EXTRA_OPTION_TOKENS_def)
qed

theorem extra_options_idempotent_witness:
  "canonical ''--timeout 90 --subscribe'' = Inr [''--timeout'', ''90'', ''--subscribe'']"
proof -
  have c: "canonical ''--timeout=+90  --subscribe'' = Inr [''--timeout'', ''90'', ''--subscribe'']" by code_simp
  show ?thesis using extra_options_idempotent [OF c] by simp
qed

text \<open>
  Splitting inverts shell quoting: any words, with any bytes in them, single-quoted and separated by
  spaces, are read back exactly.
\<close>

theorem shell_words_roundtrip:
  "parse_shell_words (join_words (map shell_quote ws)) = Inr ws"
  using scan_quoted_words [of ws "[]"] by (cases "ws = []") (simp_all add: parse_shell_words_def)

text \<open>
  After the removal no generated secret option is left in the argument vector, whatever its shape;
  and the removal reports success only when the vector was untouched or exactly one option with its
  placeholder was cut out of it.
\<close>

theorem placeholder_options_removed:
  "opt \<notin> set (fst (remove_placeholder_options args opt ph)) \<and>
   (snd (remove_placeholder_options args opt ph) = Inr () \<longrightarrow>
      fst (remove_placeholder_options args opt ph) = args \<or>
      (\<exists>xs ys. args = xs @ [opt, ph] @ ys \<and> fst (remove_placeholder_options args opt ph) = xs @ ys))"
proof -
  obtain kept n bad where p: "placeholder_scan opt ph args = (kept, n, bad)" by (metis prod_cases3)
  have "n = 0 \<or> n = 1" if "\<not> 1 < n" using that by auto
  with placeholder_scan_clean [OF p] p show ?thesis
    by (auto simp: remove_placeholder_options_def Let_def)
qed

theorem placeholder_options_removed_witness:
  "fst (remove_placeholder_options [''imapsync'', ''--password1'', ''****'', ''--ssl1''] ''--password1'' ''****'') =
     [''imapsync'', ''--ssl1''] \<and>
   ''--password1'' \<notin> set (fst (remove_placeholder_options
     [''imapsync'', ''--password1'', ''--password1'', ''x''] ''--password1'' ''****''))"
proof -
  have "fst (remove_placeholder_options [''imapsync'', ''--password1'', ''****'', ''--ssl1''] ''--password1'' ''****'') =
     [''imapsync'', ''--ssl1'']"
    by code_simp
  with placeholder_options_removed [of "''--password1''" "[''imapsync'', ''--password1'', ''--password1'', ''x'']" "''****''"]
  show ?thesis by blast
qed

end
