(* ===== verification/Maintenance_Window.thy ===== *)
theory Maintenance_Window
  imports Prelude
begin

text \<open>
  Maintenance windows, \<^verbatim>\<open>src/src/maintenance_window.rs\<close>.

  A \<^verbatim>\<open>NaiveDate\<close> is a day number with day 0 = 1970-01-01 (a Thursday), a \<^verbatim>\<open>NaiveDateTime\<close> the nanoseconds
  since that midnight on the wall clock, an instant the same in UTC; chrono's far range limits (years
  beyond \<open>\<plusminus>262000\<close>) are left out, so \<^verbatim>\<open>pred_opt\<close> always succeeds. The time zone is chrono's and the
  host's: a parameter with the two conversions the code calls. The error \<^verbatim>\<open>USAGE\<close> is the only one.
\<close>

section \<open>Wall-clock arithmetic\<close>

type_synonym naive_date = int
type_synonym naive_date_time = int

definition NANOS_PER_MINUTE :: int where "NANOS_PER_MINUTE = 60000000000"
definition MINUTES_PER_DAY :: int where "MINUTES_PER_DAY = 24 * 60"
definition NANOS_PER_DAY :: int where "NANOS_PER_DAY = MINUTES_PER_DAY * NANOS_PER_MINUTE"

definition date_of :: "naive_date_time \<Rightarrow> naive_date" where
  "date_of t = t div NANOS_PER_DAY"

text \<open>\<^verbatim>\<open>weekday().num_days_from_monday()\<close>\<close>

definition days_from_monday :: "naive_date \<Rightarrow> nat" where
  "days_from_monday d = nat ((d + 3) mod 7)"

section \<open>Windows\<close>

definition USAGE :: str where
  "USAGE = ''maintenance window must be HH:MM-HH:MM (24-hour, may wrap past midnight), optionally followed by @Mon,Tue,... naming the days each window opens''"

record maintenance_window =
  start_minute :: nat
  end_minute :: nat
  open_days :: "bool list option"

definition WEEKDAY_NAMES :: "(str \<times> str) list" where
  "WEEKDAY_NAMES =
     [(''mon'', ''monday''), (''tue'', ''tuesday''), (''wed'', ''wednesday''), (''thu'', ''thursday''),
      (''fri'', ''friday''), (''sat'', ''saturday''), (''sun'', ''sunday'')]"

definition parse_weekday :: "str \<Rightarrow> str + nat" where
  "parse_weekday token =
     (let lower = to_ascii_lowercase token in
      case find (\<lambda>i. lower = fst (WEEKDAY_NAMES ! i) \<or> lower = snd (WEEKDAY_NAMES ! i)) [0..<7] of
        None \<Rightarrow> Inl USAGE
      | Some i \<Rightarrow> Inr i)"

fun parse_day_tokens :: "str list \<Rightarrow> bool list \<Rightarrow> str + bool list" where
  "parse_day_tokens [] days = Inr days"
| "parse_day_tokens (raw # tokens) days =
     (let token = trim raw in
      if token = [] then Inl USAGE
      else case parse_weekday token of
             Inl e \<Rightarrow> Inl e
           | Inr i \<Rightarrow> parse_day_tokens tokens (days[i := True]))"

definition parse_days :: "str \<Rightarrow> str + bool list" where
  "parse_days spec =
     (case parse_day_tokens (split_char (CHR '','') spec) (replicate 7 False) of
        Inl e \<Rightarrow> Inl e
      | Inr days \<Rightarrow> if list_all Not days then Inl USAGE else Inr days)"

definition parse_clock :: "str \<Rightarrow> str + nat" where
  "parse_clock s =
     (case split_once '':'' (trim s) of
        None \<Rightarrow> Inl USAGE
      | Some (h, m) \<Rightarrow>
          (case (parse_u32 h, parse_u32 m) of
             (Some hours, Some minutes) \<Rightarrow>
               if 23 < hours \<or> 59 < minutes then Inl USAGE else Inr (hours * 60 + minutes)
           | _ \<Rightarrow> Inl USAGE))"

definition window_parse :: "str \<Rightarrow> str + maintenance_window" where
  "window_parse spec0 =
     (let spec = trim spec0;
          (time_range, days_spec) =
            (case split_once ''@'' spec of None \<Rightarrow> (spec, None) | Some (rng, days) \<Rightarrow> (rng, Some days))
      in case split_once ''-'' time_range of
           None \<Rightarrow> Inl USAGE
         | Some (s, e) \<Rightarrow>
             (case parse_clock s of
                Inl err \<Rightarrow> Inl err
              | Inr sm \<Rightarrow>
                  (case parse_clock e of
                     Inl err \<Rightarrow> Inl err
                   | Inr em \<Rightarrow>
                       (case days_spec of
                          None \<Rightarrow> Inr \<lparr>start_minute = sm, end_minute = em, open_days = None\<rparr>
                        | Some ds \<Rightarrow>
                            (case parse_days ds of
                               Inl err \<Rightarrow> Inl err
                             | Inr days \<Rightarrow> Inr \<lparr>start_minute = sm, end_minute = em, open_days = Some days\<rparr>)))))"

definition opens_on :: "maintenance_window \<Rightarrow> naive_date \<Rightarrow> bool" where
  "opens_on w d = (case open_days w of None \<Rightarrow> True | Some days \<Rightarrow> days ! days_from_monday d)"

definition length_minutes :: "maintenance_window \<Rightarrow> int" where
  "length_minutes w =
     (let s = int (start_minute w); e = int (end_minute w) in
      if s = e then MINUTES_PER_DAY else if s < e then e - s else MINUTES_PER_DAY - s + e)"

definition occurrence :: "maintenance_window \<Rightarrow> naive_date \<Rightarrow> naive_date_time \<times> naive_date_time" where
  "occurrence w d =
     (let start = d * NANOS_PER_DAY + int (start_minute w) * NANOS_PER_MINUTE in
      (start, start + length_minutes w * NANOS_PER_MINUTE))"

text \<open>The chaining loop with \<open>n\<close> rounds left: \<open>None\<close> when it is still continuous after the last.\<close>

fun chain_close :: "maintenance_window \<Rightarrow> nat \<Rightarrow> naive_date_time \<Rightarrow> naive_date_time option" where
  "chain_close w 0 e = None"
| "chain_close w (Suc n) e =
     (let next_date = date_of e; (next_start, next_end) = occurrence w next_date in
      if next_start \<noteq> e \<or> \<not> opens_on w next_date then Some e else chain_close w n next_end)"

definition close_at :: "maintenance_window \<Rightarrow> naive_date_time \<Rightarrow> naive_date_time option option" where
  "close_at w local =
     (let today = date_of local in
      case find (\<lambda>(s, e). s \<le> local \<and> local < e)
             (map (occurrence w) (filter (opens_on w) [today - 1, today])) of
        None \<Rightarrow> None
      | Some (_, e) \<Rightarrow> Some (chain_close w 7 e))"

section \<open>Instants\<close>

datatype local_result = LR_None | LR_Single int | LR_Ambiguous int int

record time_zone =
  naive_local :: "int \<Rightarrow> naive_date_time"
  from_local_datetime :: "naive_date_time \<Rightarrow> local_result"

fun resolve_from :: "time_zone \<Rightarrow> nat \<Rightarrow> naive_date_time \<Rightarrow> int option" where
  "resolve_from z 0 candidate = None"
| "resolve_from z (Suc n) candidate =
     (case from_local_datetime z candidate of
        LR_Single i \<Rightarrow> Some i
      | LR_Ambiguous i _ \<Rightarrow> Some i
      | LR_None \<Rightarrow> resolve_from z n (candidate + NANOS_PER_MINUTE))"

definition resolve_local :: "time_zone \<Rightarrow> naive_date_time \<Rightarrow> int" where
  "resolve_local z local =
     (case resolve_from z (nat MINUTES_PER_DAY + 1) local of Some i \<Rightarrow> i | None \<Rightarrow> local)"

definition closes_in_at :: "maintenance_window \<Rightarrow> time_zone \<Rightarrow> int \<Rightarrow> duration option option" where
  "closes_in_at w z now =
     (case close_at w (naive_local z now) of
        None \<Rightarrow> None
      | Some None \<Rightarrow> Some None
      | Some (Some close) \<Rightarrow>
          let remaining = resolve_local z close - now in
          if remaining < 0 then None
          else if remaining = 0 then None
          else Some (Some (nat remaining)))"

definition contains_at :: "maintenance_window \<Rightarrow> time_zone \<Rightarrow> int \<Rightarrow> bool" where
  "contains_at w z now \<longleftrightarrow> closes_in_at w z now \<noteq> None"

section \<open>Parsed windows\<close>

definition window_ok :: "maintenance_window \<Rightarrow> bool" where
  "window_ok w \<longleftrightarrow> start_minute w < 1440 \<and> end_minute w < 1440 \<and>
     (case open_days w of None \<Rightarrow> True | Some days \<Rightarrow> length days = 7 \<and> list_ex id days)"

lemma parse_clock_bound: "parse_clock s = Inr m \<Longrightarrow> m < 1440"
  by (auto simp: parse_clock_def split: option.splits if_splits)

lemma parse_day_tokens_length: "parse_day_tokens ts days = Inr days' \<Longrightarrow> length days' = length days"
  by (induction ts days rule: parse_day_tokens.induct) (auto simp: Let_def split: if_splits sum.splits)

lemma parse_days_ok: "parse_days s = Inr days \<Longrightarrow> length days = 7 \<and> list_ex id days"
  by (auto simp: parse_days_def list_all_iff list_ex_iff dest!: parse_day_tokens_length split: sum.splits if_splits)

lemma window_parse_ok:
  assumes "window_parse s = Inr w"
  shows "window_ok w"
  using assms
  by (auto simp: window_parse_def window_ok_def Let_def dest!: parse_clock_bound parse_days_ok
      split: option.splits sum.splits prod.splits)

section \<open>Membership\<close>

text \<open>A wall-clock time is in the window when the occurrence of some opening day covers it.\<close>

definition in_window :: "maintenance_window \<Rightarrow> naive_date_time \<Rightarrow> bool" where
  "in_window w t \<longleftrightarrow> (\<exists>d. opens_on w d \<and> fst (occurrence w d) \<le> t \<and> t < snd (occurrence w d))"

lemmas day_defs = NANOS_PER_DAY_def NANOS_PER_MINUTE_def MINUTES_PER_DAY_def

lemma length_minutes_bounds:
  assumes "window_ok w"
  shows "0 < length_minutes w" "length_minutes w \<le> 1440"
  using assms by (auto simp: window_ok_def length_minutes_def MINUTES_PER_DAY_def Let_def)

lemma occurrence_bounds:
  assumes "window_ok w"
  shows "d * NANOS_PER_DAY \<le> fst (occurrence w d)" "fst (occurrence w d) < (d + 1) * NANOS_PER_DAY"
    "fst (occurrence w d) < snd (occurrence w d)" "snd (occurrence w d) \<le> fst (occurrence w (d + 1))"
proof -
  have s: "int (start_minute w) < 1440" using assms by (simp add: window_ok_def)
  note l = length_minutes_bounds [OF assms]
  show "d * NANOS_PER_DAY \<le> fst (occurrence w d)" "fst (occurrence w d) < (d + 1) * NANOS_PER_DAY"
    "fst (occurrence w d) < snd (occurrence w d)" "snd (occurrence w d) \<le> fst (occurrence w (d + 1))"
    using s l by (simp_all add: occurrence_def Let_def day_defs algebra_simps)
qed

lemma occurrence_mono:
  assumes "window_ok w" and "d < d'"
  shows "snd (occurrence w d) \<le> fst (occurrence w d')"
proof -
  have "fst (occurrence w (d + 1)) \<le> fst (occurrence w d')"
    using assms(2) by (simp add: occurrence_def Let_def day_defs)
  with occurrence_bounds(4) [OF assms(1), of d] show ?thesis by linarith
qed

lemma date_of_bounds: "date_of t * NANOS_PER_DAY \<le> t" "t < (date_of t + 1) * NANOS_PER_DAY"
  by (simp_all add: date_of_def day_defs)

text \<open>Only yesterday's and today's occurrence can cover a time.\<close>

lemma covering_day:
  assumes "window_ok w" and "fst (occurrence w d) \<le> t" and "t < snd (occurrence w d)"
  shows "d = date_of t - 1 \<or> d = date_of t"
proof -
  have "d * NANOS_PER_DAY \<le> t" using occurrence_bounds(1) [OF assms(1), of d] assms(2) by linarith
  moreover have "t < (d + 2) * NANOS_PER_DAY"
    using occurrence_bounds(4) [OF assms(1), of d] occurrence_bounds(2) [OF assms(1), of "d + 1"] assms(3)
    by (simp add: algebra_simps)
  ultimately have "d \<le> date_of t" "date_of t \<le> d + 1"
    using date_of_bounds [of t] by (simp_all add: day_defs)
  then show ?thesis by linarith
qed

lemma cover_in_window:
  "opens_on w d \<Longrightarrow> fst (occurrence w d) \<le> t \<Longrightarrow> t < snd (occurrence w d) \<Longrightarrow> in_window w t"
  by (auto simp: in_window_def)

lemma find_occurrence:
  assumes "window_ok w"
  shows "(find (\<lambda>(s, e). s \<le> t \<and> t < e) (map (occurrence w) (filter (opens_on w) [date_of t - 1, date_of t])) = None)
      \<longleftrightarrow> \<not> in_window w t"
    and "find (\<lambda>(s, e). s \<le> t \<and> t < e) (map (occurrence w) (filter (opens_on w) [date_of t - 1, date_of t])) = Some p
      \<Longrightarrow> \<exists>d. opens_on w d \<and> p = occurrence w d \<and> fst p \<le> t \<and> t < snd p"
proof -
  have "in_window w t \<longleftrightarrow> (\<exists>d \<in> {date_of t - 1, date_of t}. opens_on w d \<and>
      fst (occurrence w d) \<le> t \<and> t < snd (occurrence w d))"
    unfolding in_window_def using covering_day [OF assms] by blast
  then show "(find (\<lambda>(s, e). s \<le> t \<and> t < e) (map (occurrence w) (filter (opens_on w) [date_of t - 1, date_of t])) = None)
      \<longleftrightarrow> \<not> in_window w t"
    by (auto simp: case_prod_unfold)
  show "find (\<lambda>(s, e). s \<le> t \<and> t < e) (map (occurrence w) (filter (opens_on w) [date_of t - 1, date_of t])) = Some p
      \<Longrightarrow> \<exists>d. opens_on w d \<and> p = occurrence w d \<and> fst p \<le> t \<and> t < snd p"
    by (auto simp: case_prod_unfold split: if_splits)
qed

lemma next_occurrence:
  assumes "window_ok w" and "fst (occurrence w d') = snd (occurrence w d)"
  shows "d' = d + 1"
proof -
  have "\<not> d' \<le> d"
  proof
    assume "d' \<le> d"
    then have "fst (occurrence w d') \<le> fst (occurrence w d)" by (simp add: occurrence_def Let_def day_defs)
    with assms(2) occurrence_bounds(3) [OF assms(1), of d] show False by simp
  qed
  moreover have "\<not> d + 1 < d'"
  proof
    assume "d + 1 < d'"
    then have "fst (occurrence w (d + 1)) < fst (occurrence w d')" by (simp add: occurrence_def Let_def day_defs)
    with assms(2) occurrence_bounds(4) [OF assms(1), of d] show False by simp
  qed
  ultimately show ?thesis by simp
qed

lemma date_of_start: "window_ok w \<Longrightarrow> date_of (fst (occurrence w d)) = d"
  using occurrence_bounds(1,2) [of w d] by (simp add: date_of_def day_defs div_pos_geq algebra_simps)

lemma end_outside:
  assumes "window_ok w" and "in_window w (snd (occurrence w d))"
  shows "opens_on w (d + 1) \<and> date_of (snd (occurrence w d)) = d + 1 \<and>
    fst (occurrence w (d + 1)) = snd (occurrence w d)"
proof -
  let ?e = "snd (occurrence w d)"
  obtain d' where d': "opens_on w d'" "fst (occurrence w d') \<le> ?e" "?e < snd (occurrence w d')"
    using assms(2) by (auto simp: in_window_def)
  have "d < d'"
  proof (rule ccontr)
    assume "\<not> d < d'"
    then have "snd (occurrence w d') \<le> ?e" by (simp add: occurrence_def Let_def day_defs)
    with d'(3) show False by simp
  qed
  then have "?e \<le> fst (occurrence w d')" by (rule occurrence_mono [OF assms(1)])
  then have e: "fst (occurrence w d') = ?e" using d'(2) by simp
  then have "d' = d + 1" by (rule next_occurrence [OF assms(1)])
  then show ?thesis using d'(1) e date_of_start [OF assms(1), of d'] by simp
qed

lemma chain_Some:
  assumes "window_ok w"
  shows "opens_on w d \<Longrightarrow> chain_close w n (snd (occurrence w d)) = Some e \<Longrightarrow>
    \<not> in_window w e \<and> snd (occurrence w d) \<le> e \<and>
    (\<forall>t. fst (occurrence w d) \<le> t \<and> t < e \<longrightarrow> in_window w t)"
proof (induction n arbitrary: d)
  case (Suc n)
  let ?e = "snd (occurrence w d)" and ?d' = "date_of (snd (occurrence w d))"
  show ?case
  proof (cases "fst (occurrence w ?d') \<noteq> ?e \<or> \<not> opens_on w ?d'")
    case True
    then have "e = ?e" using Suc.prems(2) by (simp add: case_prod_unfold Let_def)
    moreover have "\<not> in_window w ?e" using end_outside [OF assms, of d] True by auto
    ultimately show ?thesis using cover_in_window [OF Suc.prems(1)] by auto
  next
    case False
    then have n: "?d' = d + 1" using next_occurrence [OF assms, of ?d' d] by simp
    have "chain_close w n (snd (occurrence w (d + 1))) = Some e"
      using Suc.prems(2) False n by (simp add: case_prod_unfold Let_def)
    from Suc.IH [OF _ this] False n
    have ih: "\<not> in_window w e" "snd (occurrence w (d + 1)) \<le> e"
      "\<And>t. ?e \<le> t \<Longrightarrow> t < e \<Longrightarrow> in_window w t" by auto
    have "in_window w t" if "fst (occurrence w d) \<le> t" "t < e" for t
      using cover_in_window [OF Suc.prems(1) that(1)] ih(3) [of t] that(2) by (cases "t < ?e") auto
    moreover have "?e \<le> e" using ih(2) occurrence_bounds(3,4) [OF assms] by (smt (verit))
    ultimately show ?thesis using ih(1) by blast
  qed
qed simp

lemma chain_None:
  assumes "window_ok w"
  shows "chain_close w n (snd (occurrence w d)) = None \<Longrightarrow> 1 \<le> i \<Longrightarrow> i \<le> int n \<Longrightarrow>
    opens_on w (d + i) \<and> fst (occurrence w (d + i)) = snd (occurrence w (d + i - 1))"
proof (induction n arbitrary: d i)
  case (Suc n)
  let ?e = "snd (occurrence w d)" and ?d' = "date_of (snd (occurrence w d))"
  have f: "fst (occurrence w ?d') = ?e" "opens_on w ?d'"
    using Suc.prems(1) by (auto simp: case_prod_unfold Let_def split: if_splits)
  then have n: "?d' = d + 1" using next_occurrence [OF assms, of ?d' d] by simp
  have c: "chain_close w n (snd (occurrence w (d + 1))) = None"
    using Suc.prems(1) f n by (simp add: case_prod_unfold Let_def)
  show ?case
  proof (cases "i = 1")
    case True
    then show ?thesis using f n by simp
  next
    case False
    then show ?thesis using Suc.IH [OF c, of "i - 1"] Suc.prems(2,3) by (simp add: algebra_simps)
  qed
qed simp

lemma always_open:
  assumes "window_ok w" and "chain_close w 7 (snd (occurrence w d)) = None"
  shows "in_window w t"
proof -
  note c = chain_None [OF assms]
  have full: "fst (occurrence w (d' + 1)) = snd (occurrence w d')" for d'
    using c [of 1] by (simp add: occurrence_def Let_def day_defs algebra_simps)
  have op: "opens_on w d'" for d'
  proof -
    let ?i = "1 + (d' - d - 1) mod 7"
    have "(d + ?i + 3) mod 7 = (d + 4 + (d' - d - 1) mod 7) mod 7" by (simp add: algebra_simps)
    also have "\<dots> = (d + 4 + (d' - d - 1)) mod 7" by (rule mod_add_right_eq)
    finally have "(d + ?i + 3) mod 7 = (d' + 3) mod 7" by (simp add: add.commute)
    then have "days_from_monday (d + ?i) = days_from_monday d'" by (simp only: days_from_monday_def)
    moreover have "opens_on w (d + ?i)" using c [of ?i] by simp
    ultimately show ?thesis by (simp add: opens_on_def split: option.splits)
  qed
  show ?thesis
  proof (cases "fst (occurrence w (date_of t)) \<le> t")
    case True
    have "t < snd (occurrence w (date_of t))"
      using date_of_bounds(2) [of t] occurrence_bounds(1) [OF assms(1), of "date_of t + 1"] full [of "date_of t"]
      by simp
    with True op show ?thesis by (auto intro: cover_in_window)
  next
    case False
    then have "t < snd (occurrence w (date_of t - 1))" using full [of "date_of t - 1"] by simp
    moreover have "fst (occurrence w (date_of t - 1)) \<le> t"
      using occurrence_bounds(2) [OF assms(1), of "date_of t - 1"] date_of_bounds(1) [of t] by simp
    ultimately show ?thesis using op by (auto intro: cover_in_window)
  qed
qed

section \<open>Properties\<close>

text \<open>
  C39: for every window the parser accepts, the computed close is exact: a wall-clock time is inside some
  occurrence exactly when a close is reported; the reported close is the first wall-clock time after it
  that is outside, across chained full-day occurrences; and a window reported never to close covers
  every time.
\<close>

theorem window_close_is_exact:
  assumes "window_parse spec = Inr w"
  shows "(close_at w t = None \<longleftrightarrow> \<not> in_window w t) \<and>
    (\<forall>e. close_at w t = Some (Some e) \<longrightarrow>
       t < e \<and> \<not> in_window w e \<and> (\<forall>t'. t \<le> t' \<and> t' < e \<longrightarrow> in_window w t')) \<and>
    (close_at w t = Some None \<longrightarrow> (\<forall>t'. in_window w t'))"
proof -
  have ok: "window_ok w" using assms by (rule window_parse_ok)
  let ?f = "find (\<lambda>(s, e). s \<le> t \<and> t < e) (map (occurrence w) (filter (opens_on w) [date_of t - 1, date_of t]))"
  have u: "close_at w t = map_option (\<lambda>p. chain_close w 7 (snd p)) ?f"
    unfolding close_at_def Let_def by (cases ?f) (simp_all only: option.case option.map case_prod_unfold)
  show ?thesis
  proof (cases ?f)
    case None
    then show ?thesis using u find_occurrence(1) [OF ok, of t] by simp
  next
    case (Some p)
    then obtain d where d: "opens_on w d" "p = occurrence w d" "fst p \<le> t" "t < snd p"
      using find_occurrence(2) [OF ok, of t p] by blast
    have inw: "in_window w t" using d cover_in_window by simp
    have c: "close_at w t = Some (chain_close w 7 (snd (occurrence w d)))" using u Some d(2) by simp
    have "t < e \<and> \<not> in_window w e \<and> (\<forall>t'. t \<le> t' \<and> t' < e \<longrightarrow> in_window w t')"
      if "chain_close w 7 (snd (occurrence w d)) = Some e" for e
      using chain_Some [OF ok d(1) that] d by force
    with c inw always_open [OF ok] show ?thesis by auto
  qed
qed

theorem window_close_is_exact_witness:
  "\<exists>w. window_parse ''22:00-06:00@Fri'' = Inr w \<and>
     close_at w (1 * NANOS_PER_DAY + 1380 * NANOS_PER_MINUTE) = Some (Some (2 * NANOS_PER_DAY + 360 * NANOS_PER_MINUTE)) \<and>
     \<not> in_window w (2 * NANOS_PER_DAY + 360 * NANOS_PER_MINUTE)"
proof -
  let ?w = "\<lparr>start_minute = 1320, end_minute = 360,
     open_days = Some [False, False, False, False, True, False, False]\<rparr>"
  have p: "window_parse ''22:00-06:00@Fri'' = Inr ?w" by code_simp
  have c: "close_at ?w (1 * NANOS_PER_DAY + 1380 * NANOS_PER_MINUTE) =
      Some (Some (2 * NANOS_PER_DAY + 360 * NANOS_PER_MINUTE))" by code_simp
  show ?thesis using window_close_is_exact [OF p, of "1 * NANOS_PER_DAY + 1380 * NANOS_PER_MINUTE"] p c by blast
qed

text \<open>What chrono documents of a zone: the instants it names for a wall-clock time read that time.\<close>

definition zone_reads_back :: "time_zone \<Rightarrow> bool" where
  "zone_reads_back z \<longleftrightarrow>
     (\<forall>l i. from_local_datetime z l = LR_Single i \<longrightarrow> naive_local z i = l) \<and>
     (\<forall>l i j. from_local_datetime z l = LR_Ambiguous i j \<longrightarrow> i \<le> j \<and> naive_local z i = l \<and> naive_local z j = l)"

definition fixed_offset :: "int \<Rightarrow> time_zone" where
  "fixed_offset o' = \<lparr>naive_local = (\<lambda>i. i + o'), from_local_datetime = (\<lambda>l. LR_Single (l - o'))\<rparr>"

lemma resolve_local_reads:
  assumes "zone_reads_back z" and "from_local_datetime z l \<noteq> LR_None"
  shows "naive_local z (resolve_local z l) = l"
  using assms by (auto simp: resolve_local_def zone_reads_back_def split: local_result.splits)

text \<open>
  Membership and the reported time to close never disagree in any time zone: inside the window the
  remaining time is positive, and when it has elapsed the wall clock reads the close of the window
  and is outside it, unless the close itself falls into an hour that the zone skips.
\<close>

theorem remaining_time_ends_outside:
  assumes "window_parse spec = Inr w" and "zone_reads_back z"
    and "contains_at w z now" and "close_at w (naive_local z now) = Some (Some e)"
    and "from_local_datetime z e \<noteq> LR_None"
  shows "\<exists>r. closes_in_at w z now = Some (Some r) \<and> 0 < r \<and>
           naive_local z (now + int r) = e \<and> \<not> in_window w (naive_local z (now + int r))"
proof -
  have p: "0 < resolve_local z e - now" and
    c: "closes_in_at w z now = Some (Some (nat (resolve_local z e - now)))"
    using assms(3,4) by (auto simp: contains_at_def closes_in_at_def Let_def split: if_splits)
  have r: "naive_local z (now + int (nat (resolve_local z e - now))) = e"
    using resolve_local_reads [OF assms(2,5)] p by simp
  have ok: "window_ok w" using assms(1) by (rule window_parse_ok)
  obtain d where "opens_on w d" "chain_close w 7 (snd (occurrence w d)) = Some e"
    using assms(4) find_occurrence(2) [OF ok, of "naive_local z now"]
    by (auto simp: close_at_def Let_def case_prod_unfold split: option.splits)
  then have "\<not> in_window w e" using chain_Some [OF ok] by blast
  with c p r show ?thesis by auto
qed

theorem remaining_time_ends_outside_witness:
  "\<exists>w r. window_parse ''09:00-17:30'' = Inr w \<and>
     closes_in_at w (fixed_offset (120 * NANOS_PER_MINUTE)) (900 * NANOS_PER_MINUTE) = Some (Some r) \<and> 0 < r \<and>
     \<not> in_window w (naive_local (fixed_offset (120 * NANOS_PER_MINUTE)) (900 * NANOS_PER_MINUTE + int r))"
proof -
  let ?w = "\<lparr>start_minute = 540, end_minute = 1050, open_days = None\<rparr>"
  let ?z = "fixed_offset (120 * NANOS_PER_MINUTE)"
  have p: "window_parse ''09:00-17:30'' = Inr ?w" by code_simp
  have z: "zone_reads_back ?z" by (auto simp: zone_reads_back_def fixed_offset_def)
  have c: "contains_at ?w ?z (900 * NANOS_PER_MINUTE)"
    "close_at ?w (naive_local ?z (900 * NANOS_PER_MINUTE)) = Some (Some (1050 * NANOS_PER_MINUTE))"
    by code_simp+
  have l: "from_local_datetime ?z (1050 * NANOS_PER_MINUTE) \<noteq> LR_None" by (simp add: fixed_offset_def)
  show ?thesis using remaining_time_ends_outside [OF p z c l] p by blast
qed

end
