(* ===== verification/Evidence.thy ===== *)
theory Evidence
  imports Lifecycle
begin

text \<open>
  The verification evidence of \<^verbatim>\<open>src/src/core/evidence.rs\<close>: the durable record a verifier leaves for
  a mailbox, the one severity policy that turns its counters into an outcome, the exactness rules that
  the ledger, the reports and the assurance policy share, the assurance read model of a mailbox and the
  operator-facing state of a project. \<^verbatim>\<open>u64\<close> counters are \<^typ>\<open>nat\<close>; the one sum that may overflow and
  the saturating ones are written out.
\<close>

section \<open>The record\<close>

datatype verification_method =
  Method_AggregateEngine | Method_MetadataReconciliation | Method_BodyHash | Method_NativeDovecot

fun method_as_str :: "verification_method \<Rightarrow> str" where
  "method_as_str Method_AggregateEngine = ''aggregate_engine''"
| "method_as_str Method_MetadataReconciliation = ''metadata_reconciliation''"
| "method_as_str Method_BodyHash = ''body_hash''"
| "method_as_str Method_NativeDovecot = ''native_dovecot''"

definition method_parse :: "str \<Rightarrow> verification_method option" where
  "method_parse value =
     (if value = ''aggregate_engine'' then Some Method_AggregateEngine
      else if value = ''metadata_reconciliation'' then Some Method_MetadataReconciliation
      else if value = ''body_hash'' then Some Method_BodyHash
      else if value = ''native_dovecot'' then Some Method_NativeDovecot
      else None)"

datatype outcome =
    Out_ExactBodyMatch
  | Out_ExactMetadataMatch
  | Out_ProbableMatch
  | Out_Ambiguous
  | Out_FlagsChanged
  | Out_Missing
  | Out_Changed
  | Out_Unexpected
  | Out_Incomplete
  | Out_Failed

fun outcome_as_str :: "outcome \<Rightarrow> str" where
  "outcome_as_str Out_ExactBodyMatch = ''exact_body_match''"
| "outcome_as_str Out_ExactMetadataMatch = ''exact_metadata_match''"
| "outcome_as_str Out_ProbableMatch = ''probable_match''"
| "outcome_as_str Out_Ambiguous = ''ambiguous''"
| "outcome_as_str Out_FlagsChanged = ''flags_changed''"
| "outcome_as_str Out_Missing = ''missing''"
| "outcome_as_str Out_Changed = ''changed''"
| "outcome_as_str Out_Unexpected = ''unexpected''"
| "outcome_as_str Out_Incomplete = ''incomplete''"
| "outcome_as_str Out_Failed = ''failed''"

definition outcome_parse :: "str \<Rightarrow> outcome option" where
  "outcome_parse value =
     (if value = ''exact_body_match'' then Some Out_ExactBodyMatch
      else if value = ''exact_metadata_match'' then Some Out_ExactMetadataMatch
      else if value = ''probable_match'' then Some Out_ProbableMatch
      else if value = ''ambiguous'' then Some Out_Ambiguous
      else if value = ''flags_changed'' then Some Out_FlagsChanged
      else if value = ''missing'' then Some Out_Missing
      else if value = ''changed'' then Some Out_Changed
      else if value = ''unexpected'' then Some Out_Unexpected
      else if value = ''incomplete'' then Some Out_Incomplete
      else if value = ''failed'' then Some Out_Failed
      else None)"

text \<open>The dash of the operator-facing labels, three bytes in UTF-8.\<close>

definition DASH :: str where "DASH = [CHR '' '', CHR 0xE2, CHR 0x80, CHR 0x94, CHR '' '']"

fun display_label :: "outcome \<Rightarrow> str" where
  "display_label Out_ExactBodyMatch = ''Exact body match'' @ DASH @ ''bounded RFC822 SHA-256 fingerprints compared''"
| "display_label Out_ExactMetadataMatch = ''Exact metadata match'' @ DASH @ ''message bodies not compared''"
| "display_label Out_ProbableMatch = ''Probable metadata match'' @ DASH @ ''message bodies not compared''"
| "display_label Out_Ambiguous = ''Ambiguous metadata result'' @ DASH @ ''message bodies not compared''"
| "display_label Out_FlagsChanged = ''Message flags or keywords differ''"
| "display_label Out_Missing = ''Missing messages detected''"
| "display_label Out_Changed = ''Changed messages detected''"
| "display_label Out_Unexpected = ''Unexpected messages detected''"
| "display_label Out_Incomplete = ''Verification evidence incomplete''"
| "display_label Out_Failed = ''Verification failed''"

fun is_exception :: "outcome \<Rightarrow> bool" where
  "is_exception Out_ExactBodyMatch = False"
| "is_exception Out_ExactMetadataMatch = False"
| "is_exception Out_ProbableMatch = True"
| "is_exception Out_Ambiguous = True"
| "is_exception Out_FlagsChanged = True"
| "is_exception Out_Missing = True"
| "is_exception Out_Changed = True"
| "is_exception Out_Unexpected = True"
| "is_exception Out_Incomplete = True"
| "is_exception Out_Failed = True"

record flag_verification =
  compared_messages :: nat
  mismatched_messages :: nat
  excepted_messages :: nat

definition flags_consistent :: "flag_verification \<Rightarrow> bool" where
  "flags_consistent f \<longleftrightarrow>
     mismatched_messages f + excepted_messages f \<le> u64_max \<and>
     mismatched_messages f + excepted_messages f \<le> compared_messages f"

record evidence =
  ev_method :: verification_method
  ev_outcome :: "outcome option"
  source_messages :: nat
  destination_messages :: nat
  source_bytes :: nat
  destination_bytes :: nat
  unmatched_messages :: "nat option"
  failed_messages :: nat
  source_folders :: nat
  destination_folders :: nat
  authoritative :: bool
  missing_messages :: nat
  extra_messages :: nat
  modified_messages :: nat
  probable_messages :: nat
  rfc_message_id_matches :: nat
  synthetic_identity_matches :: nat
  ev_flags :: "flag_verification option"

section \<open>The rules\<close>

definition aggregate_totals_match :: "evidence \<Rightarrow> bool" where
  "aggregate_totals_match e \<longleftrightarrow>
     source_messages e = destination_messages e \<and> source_bytes e = destination_bytes e \<and>
     source_folders e = destination_folders e"

definition has_message_level_mismatch :: "evidence \<Rightarrow> bool" where
  "has_message_level_mismatch e \<longleftrightarrow>
     missing_messages e > 0 \<or> extra_messages e > 0 \<or> modified_messages e > 0"

definition flag_coverage_is_required :: "evidence \<Rightarrow> bool" where
  "flag_coverage_is_required e \<longleftrightarrow>
     source_messages e > 0 \<and>
     (ev_method e = Method_MetadataReconciliation \<or> ev_method e = Method_BodyHash)"

definition flag_coverage_is_missing :: "evidence \<Rightarrow> bool" where
  "flag_coverage_is_missing e \<longleftrightarrow> flag_coverage_is_required e \<and> ev_flags e = None"

definition flag_difference_is_present :: "evidence \<Rightarrow> flag_verification \<Rightarrow> bool" where
  "flag_difference_is_present e f \<longleftrightarrow>
     mismatched_messages f > 0 \<or> excepted_messages f > 0 \<or>
     compared_messages f \<noteq> source_messages e \<or> \<not> flags_consistent f"

definition has_flag_mismatch :: "evidence \<Rightarrow> bool" where
  "has_flag_mismatch e =
     (case ev_flags e of
        None \<Rightarrow> flag_coverage_is_required e
      | Some f \<Rightarrow> flag_difference_is_present e f)"

definition has_verification_exception :: "evidence \<Rightarrow> bool" where
  "has_verification_exception e \<longleftrightarrow>
     failed_messages e > 0 \<or>
     (case unmatched_messages e of None \<Rightarrow> False | Some n \<Rightarrow> n > 0) \<or>
     probable_messages e > 0 \<or>
     (ev_method e \<noteq> Method_BodyHash \<and> synthetic_identity_matches e > 0) \<or>
     has_message_level_mismatch e \<or> has_flag_mismatch e"

text \<open>The outcome a verifier did not classify itself: the severity order, worst first.\<close>

definition derived_outcome :: "evidence \<Rightarrow> outcome" where
  "derived_outcome e =
     (if failed_messages e > 0 then Out_Failed
      else if unmatched_messages e = None then Out_Incomplete
      else if missing_messages e > 0 then Out_Missing
      else if modified_messages e > 0 then Out_Changed
      else if extra_messages e > 0 then Out_Unexpected
      else if probable_messages e > 0 \<or>
              (ev_method e \<noteq> Method_BodyHash \<and> synthetic_identity_matches e > 0) then Out_ProbableMatch
      else if (case unmatched_messages e of None \<Rightarrow> False | Some n \<Rightarrow> n > 0) then Out_Ambiguous
      else if (case ev_flags e of None \<Rightarrow> False | Some f \<Rightarrow> flag_difference_is_present e f) then Out_FlagsChanged
      else if aggregate_totals_match e
      then (if ev_method e = Method_BodyHash then Out_ExactBodyMatch else Out_ExactMetadataMatch)
      else Out_Incomplete)"

definition verification_outcome :: "evidence \<Rightarrow> outcome" where
  "verification_outcome e =
     (case ev_outcome e of
        Some out \<Rightarrow>
          if out = Out_ExactMetadataMatch \<and> synthetic_identity_matches e > 0 then Out_ProbableMatch else out
      | None \<Rightarrow> derived_outcome e)"

definition exact_outcome :: "outcome \<Rightarrow> bool" where
  "exact_outcome out \<longleftrightarrow> out = Out_ExactBodyMatch \<or> out = Out_ExactMetadataMatch"

definition is_exact_match :: "evidence \<Rightarrow> bool" where
  "is_exact_match e \<longleftrightarrow>
     exact_outcome (verification_outcome e) \<and> aggregate_totals_match e \<and> \<not> has_verification_exception e"

definition message_result_is_exact :: "evidence \<Rightarrow> bool" where
  "message_result_is_exact e \<longleftrightarrow>
     aggregate_totals_match e \<and> failed_messages e = 0 \<and> unmatched_messages e = Some 0 \<and>
     probable_messages e = 0 \<and> \<not> has_message_level_mismatch e"

definition exact_label_is_consistent :: "evidence \<Rightarrow> outcome \<Rightarrow> bool" where
  "exact_label_is_consistent e out \<longleftrightarrow>
     message_result_is_exact e \<and> exact_outcome out \<and>
     (case ev_flags e of None \<Rightarrow> True | Some f \<Rightarrow> mismatched_messages f = 0) \<and>
     (ev_method e \<noteq> Method_AggregateEngine \<or> authoritative e) \<and>
     (ev_method e \<noteq> Method_BodyHash \<or> out = Out_ExactBodyMatch) \<and>
     (out \<noteq> Out_ExactMetadataMatch \<or> synthetic_identity_matches e = 0) \<and>
     \<not> flag_coverage_is_missing e"

section \<open>Assurance, dimensions and labels\<close>

datatype assurance_level = Level_Aggregate | Level_Metadata | Level_Content

fun level_as_str :: "assurance_level \<Rightarrow> str" where
  "level_as_str Level_Aggregate = ''aggregate''"
| "level_as_str Level_Metadata = ''metadata''"
| "level_as_str Level_Content = ''content''"

definition from_policy :: "str \<Rightarrow> assurance_level option" where
  "from_policy value =
     (let v = to_ascii_lowercase (trim value) in
      if v = ''aggregate'' then Some Level_Aggregate
      else if v = ''metadata'' then Some Level_Metadata
      else if v = ''body'' \<or> v = ''content'' then Some Level_Content
      else None)"

definition assurance_level_of :: "evidence \<Rightarrow> assurance_level option" where
  "assurance_level_of e =
     (if \<not> is_exact_match e then None
      else Some (case ev_method e of
                   Method_MetadataReconciliation \<Rightarrow> Level_Metadata
                 | Method_BodyHash \<Rightarrow> Level_Content
                 | Method_AggregateEngine \<Rightarrow> Level_Aggregate
                 | Method_NativeDovecot \<Rightarrow> Level_Aggregate))"

datatype dimension_status = Dim_Pass | Dim_Warning | Dim_NotVerified

record verification_dimensions =
  message_presence :: dimension_status
  body_integrity :: dimension_status
  internal_dates :: dimension_status
  system_flags :: dimension_status
  custom_keywords :: dimension_status
  folder_subscriptions :: dimension_status
  folder_mapping :: dimension_status
  acls :: dimension_status
  quota_capacity :: dimension_status
  special_use :: dimension_status
  gmail_labels :: dimension_status

definition flag_dimension :: "evidence \<Rightarrow> dimension_status" where
  "flag_dimension e =
     (case ev_flags e of
        None \<Rightarrow> Dim_NotVerified
      | Some f \<Rightarrow>
          if \<not> has_flag_mismatch e \<and> excepted_messages f = 0 \<and> compared_messages f = source_messages e
          then Dim_Pass else Dim_Warning)"

definition dimensions :: "evidence \<Rightarrow> verification_dimensions" where
  "dimensions e =
     (let exact = is_exact_match e;
          pass = (if exact then Dim_Pass else Dim_Warning) in
      \<lparr>message_presence = pass,
       body_integrity = (if ev_method e = Method_BodyHash \<and> exact then Dim_Pass else Dim_NotVerified),
       internal_dates = pass,
       system_flags = flag_dimension e,
       custom_keywords = flag_dimension e,
       folder_subscriptions = Dim_NotVerified,
       folder_mapping = pass,
       acls = Dim_NotVerified,
       quota_capacity = Dim_NotVerified,
       special_use = Dim_NotVerified,
       gmail_labels = Dim_NotVerified\<rparr>)"

definition verification_status :: "evidence \<Rightarrow> str" where
  "verification_status e =
     (if is_exact_match e then ''verified''
      else if exact_outcome (verification_outcome e) then ''verified_with_exceptions''
      else if verification_outcome e = Out_FlagsChanged \<and> aggregate_totals_match e \<and>
              unmatched_messages e = Some 0 \<and> \<not> has_message_level_mismatch e \<and> failed_messages e = 0
      then ''verified_with_exceptions''
      else ''incomplete'')"

definition message_coverage :: "evidence \<Rightarrow> nat \<times> nat" where
  "message_coverage e =
     ((case ev_method e of
         Method_MetadataReconciliation \<Rightarrow> source_messages e
       | Method_BodyHash \<Rightarrow> source_messages e
       | Method_AggregateEngine \<Rightarrow> 0
       | Method_NativeDovecot \<Rightarrow> 0), source_messages e)"

text \<open>The product is taken in \<^verbatim>\<open>u128\<close>, where it cannot overflow.\<close>

definition coverage_percent :: "nat \<Rightarrow> nat \<Rightarrow> str" where
  "coverage_percent checked population =
     (if population = 0 then ''no source messages''
      else let tenths = min checked population * 1000 div population in
           nat_to_string (tenths div 10) @ ''.'' @ nat_to_string (tenths mod 10) @ ''%'')"

definition message_coverage_label :: "evidence \<Rightarrow> str" where
  "message_coverage_label e =
     (let (checked, population) = message_coverage e in
      nat_to_string checked @ '' of '' @ nat_to_string population @ '' source messages individually checked ('' @
      coverage_percent checked population @ '')'')"

definition flag_verification_label :: "evidence \<Rightarrow> str" where
  "flag_verification_label e =
     (case ev_flags e of
        None \<Rightarrow> ''Flags and keywords not verified''
      | Some f \<Rightarrow>
          ''Flags and keywords compared for '' @ nat_to_string (compared_messages f) @ '' of '' @
          nat_to_string (source_messages e) @ '' source messages ('' @
          coverage_percent (compared_messages f) (source_messages e) @ ''): '' @
          nat_to_string (mismatched_messages f) @ '' differ, '' @ nat_to_string (excepted_messages f) @
          '' differ only by flags the destination cannot store'')"

datatype evidence_scope = Scope_EngineConfirmed | Scope_AggregateReconciled | Scope_BodyHashed

fun scope_label :: "evidence_scope \<Rightarrow> str" where
  "scope_label Scope_EngineConfirmed = ''engine-confirmed''"
| "scope_label Scope_AggregateReconciled = ''aggregate-reconciled''"
| "scope_label Scope_BodyHashed = ''body-hash''"

definition evidence_scope_of :: "evidence \<Rightarrow> evidence_scope" where
  "evidence_scope_of e =
     (if ev_method e = Method_BodyHash then Scope_BodyHashed
      else if authoritative e then Scope_EngineConfirmed
      else Scope_AggregateReconciled)"

definition verification_outcome_label :: "evidence \<Rightarrow> str" where
  "verification_outcome_label e =
     (let out = verification_outcome e in
      if out = Out_ExactMetadataMatch \<and>
         (ev_method e = Method_AggregateEngine \<or> ev_method e = Method_NativeDovecot)
      then ''Aggregate totals match'' @ DASH @ ''individual messages not compared''
      else display_label out)"

definition metadata_matched_count :: "evidence \<Rightarrow> nat" where
  "metadata_matched_count e =
     source_messages e - (case unmatched_messages e of None \<Rightarrow> 0 | Some n \<Rightarrow> n) - probable_messages e"

definition evidence_level :: "evidence \<Rightarrow> str" where
  "evidence_level e =
     (if failed_messages e > 0 \<or> (case unmatched_messages e of None \<Rightarrow> True | Some n \<Rightarrow> n > 0)
      then ''Incomplete evidence''
      else if has_message_level_mismatch e \<or> probable_messages e > 0 \<or>
              (ev_method e \<noteq> Method_BodyHash \<and> synthetic_identity_matches e > 0)
      then ''Message-level mismatch''
      else if has_flag_mismatch e then ''Flag or keyword mismatch''
      else let exact = aggregate_totals_match e in
           if ev_method e = Method_BodyHash \<and> exact
           then ''Level 3'' @ DASH @ ''Bounded content fingerprints''
           else if ev_method e = Method_MetadataReconciliation \<and> exact
           then ''Metadata match'' @ DASH @ ''message bodies not compared''
           else if evidence_scope_of e = Scope_EngineConfirmed \<and> exact
           then ''Engine-confirmed exact match'' @ DASH @ ''not message-body proof''
           else if exact then ''Aggregate match'' @ DASH @ ''not message-body proof''
           else ''Aggregate mismatch'')"

definition verification_reason :: "evidence \<Rightarrow> str option" where
  "verification_reason e =
     (case verification_outcome e of
        Out_Failed \<Rightarrow> Some ''engine reported migration errors''
      | Out_Incomplete \<Rightarrow> Some ''verification evidence is incomplete''
      | Out_Missing \<Rightarrow> Some ''message-level reconciliation found missing messages''
      | Out_Changed \<Rightarrow> Some ''message-level reconciliation found changed messages''
      | Out_Unexpected \<Rightarrow> Some ''message-level reconciliation found unexpected messages''
      | Out_ProbableMatch \<Rightarrow> Some ''message identity remains probable rather than exact''
      | Out_Ambiguous \<Rightarrow> Some ''message identity could not be resolved unambiguously''
      | Out_FlagsChanged \<Rightarrow> Some ''flag verification found messages whose flags or keywords differ''
      | Out_ExactBodyMatch \<Rightarrow> None
      | Out_ExactMetadataMatch \<Rightarrow> None)"

definition verification_level :: "evidence \<Rightarrow> str" where
  "verification_level e =
     (if unmatched_messages e = None \<or> failed_messages e > 0
      then ''Incomplete evidence'' @ DASH @ ''no verification level''
      else case ev_method e of
             Method_AggregateEngine \<Rightarrow>
               ''Level 1'' @ DASH @ ''Aggregate evidence'' @ DASH @ ''individual messages not compared''
           | Method_NativeDovecot \<Rightarrow>
               ''Level 1'' @ DASH @ ''Aggregate evidence'' @ DASH @ ''individual messages not compared''
           | Method_MetadataReconciliation \<Rightarrow>
               ''Level 2'' @ DASH @ ''Per-message metadata reconciliation'' @ DASH @ ''bodies not compared''
           | Method_BodyHash \<Rightarrow>
               ''Level 3'' @ DASH @ ''Bounded content fingerprints'' @ DASH @ ''not full byte-for-byte proof'')"

definition confidence_percent :: "evidence \<Rightarrow> nat" where
  "confidence_percent e =
     (if has_verification_exception e then 0
      else if ev_method e = Method_BodyHash \<and> verification_outcome e = Out_ExactBodyMatch then 100
      else let exact = aggregate_totals_match e in
           if \<not> authoritative e then (if exact then 85 else 0)
           else if exact then 100 else 85)"

section \<open>The mailbox assurance and the state of a project\<close>

record mailbox_job =
  mj_id :: str
  mj_source_mailbox :: str
  mj_destination_mailbox :: str
  mj_state :: str
  mj_config :: "str option"

record verification_acceptance =
  va_job_id :: str
  va_run_id :: str
  va_operator :: str
  va_reason :: str
  va_accepted_at :: str

record report_mailbox =
  rm_job :: mailbox_job
  rm_attention_reason :: "attention_reason option"
  rm_acceptance :: "verification_acceptance option"
  rm_evidence :: "(str \<times> evidence \<times> str option) option"

record mailbox_assurance =
  transfer_completed :: bool
  destination_reachable :: "bool option"
  inventory_reconciled :: bool
  message_level_evidence :: bool
  differences_found :: nat
  differences_accepted :: bool
  unresolved :: bool
  verification_authority :: "str option"
  evidence_run_id :: "str option"
  assured_plan_snapshot :: "str option"

definition per_message_method :: "evidence \<Rightarrow> bool" where
  "per_message_method e \<longleftrightarrow> ev_method e = Method_MetadataReconciliation \<or> ev_method e = Method_BodyHash"

definition assurance :: "report_mailbox \<Rightarrow> mailbox_assurance" where
  "assurance m =
     (let state = mj_state (rm_job m);
          ev = map_option (\<lambda>(run, e, plan). e) (rm_evidence m) in
      \<lparr>transfer_completed =
         state \<in> set [''completed'', ''verified'', ''verified_with_exceptions'', ''delta_required'',
                       ''verification_difference''],
       destination_reachable = map_option (\<lambda>_. True) ev,
       inventory_reconciled =
         (case ev of None \<Rightarrow> False | Some e \<Rightarrow> per_message_method e \<and> is_exact_match e),
       message_level_evidence = (case ev of None \<Rightarrow> False | Some e \<Rightarrow> per_message_method e),
       differences_found =
         (case ev of
            None \<Rightarrow> 0
          | Some e \<Rightarrow> saturating_add_u64 (saturating_add_u64 (missing_messages e) (extra_messages e))
                        (modified_messages e)),
       differences_accepted = (rm_acceptance m \<noteq> None),
       unresolved = (state \<notin> set [''verified'', ''verified_with_exceptions'']),
       verification_authority = map_option (method_as_str \<circ> ev_method) ev,
       evidence_run_id = map_option (\<lambda>(run, e, plan). run) (rm_evidence m),
       assured_plan_snapshot =
         (case rm_evidence m of None \<Rightarrow> None | Some (run, e, plan) \<Rightarrow> plan)\<rparr>)"

record project =
  pr_id :: str
  pr_name :: str
  pr_source_endpoint :: str
  pr_destination_endpoint :: str
  pr_phase :: phase

text \<open>The recent runs of the snapshot are presentation only; whether work is active is its own field.\<close>

record project_report =
  rp_project :: project
  rp_mailboxes :: "report_mailbox list"
  rp_has_active_runs :: bool

definition accepted_exception :: "report_mailbox \<Rightarrow> bool" where
  "accepted_exception m \<longleftrightarrow> mj_state (rm_job m) = ''verified_with_exceptions'' \<and> rm_acceptance m \<noteq> None"

definition evidence_exception :: "report_mailbox \<Rightarrow> bool" where
  "evidence_exception m =
     (case rm_evidence m of None \<Rightarrow> False | Some (run, e, plan) \<Rightarrow> is_exception (verification_outcome e))"

definition phase_operational_state :: "project_report \<Rightarrow> operational_state" where
  "phase_operational_state r =
     (let p = pr_phase (rp_project r) in
      if p = Phase_Complete then Op_Verified
      else if p = Phase_Preflight \<or> p = Phase_Discovery \<or> p = Phase_Pilot
      then (if list_ex (\<lambda>m. rm_evidence m = None) (rp_mailboxes r) then Op_Ready else Op_ReadyWithWarnings)
      else if p = Phase_Attention then Op_NeedsAttention
      else Op_Migrated)"

definition operational_state_of :: "project_report \<Rightarrow> operational_state" where
  "operational_state_of r =
     (let ms = rp_mailboxes r;
          verified = length (filter (\<lambda>m. mj_state (rm_job m) = ''verified'') ms);
          with_exceptions = length (filter accepted_exception ms) in
      if list_ex (\<lambda>m. rm_attention_reason m \<noteq> None) ms \<or> pr_phase (rp_project r) = Phase_Attention
      then Op_NeedsAttention
      else if list_ex (\<lambda>m. mj_state (rm_job m) = ''verified_with_exceptions'' \<and> rm_acceptance m = None) ms
      then Op_NeedsAttention
      else if list_ex (\<lambda>m. mj_state (rm_job m) \<in> set [''failed'', ''cancelled'', ''verification_difference'', ''attention'']) ms
      then Op_Blocked
      else if ms \<noteq> [] \<and> verified + with_exceptions = length ms
      then (if with_exceptions > 0 \<or> list_ex evidence_exception ms
            then Op_VerifiedWithExceptions else Op_Verified)
      else if rp_has_active_runs r then Op_Migrated
      else phase_operational_state r)"

section \<open>The labels are faithful\<close>

interpretation method_wire: wire_codec method_as_str method_parse
proof
  show "method_parse (method_as_str x) = Some x" for x by (cases x) (simp_all add: method_parse_def)
  show "method_parse s = Some x \<Longrightarrow> s = method_as_str x" for s x
    by (auto simp: method_parse_def split: if_splits)
qed

interpretation outcome_wire: wire_codec outcome_as_str outcome_parse
proof
  show "outcome_parse (outcome_as_str x) = Some x" for x by (cases x) (simp_all add: outcome_parse_def)
  show "outcome_parse s = Some x \<Longrightarrow> s = outcome_as_str x" for s x
    by (auto simp: outcome_parse_def split: if_splits)
qed

section \<open>What an exact match proves\<close>

text \<open>
  The specification of a result with nothing to review: equal totals, every counter of a difference zero,
  every unresolved message counted and none left, no generated identity without a body proof, and, where
  messages were compared one by one, every message's flags compared without a difference.
\<close>

definition spotless :: "evidence \<Rightarrow> bool" where
  "spotless e \<longleftrightarrow>
     source_messages e = destination_messages e \<and> source_bytes e = destination_bytes e \<and>
     source_folders e = destination_folders e \<and>
     failed_messages e = 0 \<and> unmatched_messages e = Some 0 \<and> probable_messages e = 0 \<and>
     missing_messages e = 0 \<and> extra_messages e = 0 \<and> modified_messages e = 0 \<and>
     (ev_method e = Method_BodyHash \<or> synthetic_identity_matches e = 0) \<and>
     (case ev_flags e of
        None \<Rightarrow> source_messages e = 0 \<or> ev_method e \<in> {Method_AggregateEngine, Method_NativeDovecot}
      | Some f \<Rightarrow> compared_messages f = source_messages e \<and> mismatched_messages f = 0 \<and> excepted_messages f = 0)"

lemmas exactness_defs =
  aggregate_totals_match_def has_message_level_mismatch_def flag_coverage_is_required_def
  flag_difference_is_present_def flags_consistent_def

lemma has_flag_mismatch_iff:
  "\<not> has_flag_mismatch e \<longleftrightarrow>
     (case ev_flags e of
        None \<Rightarrow> source_messages e = 0 \<or> ev_method e \<in> {Method_AggregateEngine, Method_NativeDovecot}
      | Some f \<Rightarrow> compared_messages f = source_messages e \<and> mismatched_messages f = 0 \<and> excepted_messages f = 0)"
  by (cases "ev_method e") (auto simp: has_flag_mismatch_def exactness_defs split: option.splits)

lemma no_exception_iff:
  "\<not> has_verification_exception e \<longleftrightarrow>
     failed_messages e = 0 \<and> (unmatched_messages e = None \<or> unmatched_messages e = Some 0) \<and>
     probable_messages e = 0 \<and> (ev_method e = Method_BodyHash \<or> synthetic_identity_matches e = 0) \<and>
     missing_messages e = 0 \<and> extra_messages e = 0 \<and> modified_messages e = 0 \<and> \<not> has_flag_mismatch e"
  by (auto simp: has_verification_exception_def has_message_level_mismatch_def split: option.splits)

lemma spotless_iff:
  "spotless e \<longleftrightarrow> aggregate_totals_match e \<and> \<not> has_verification_exception e \<and> unmatched_messages e = Some 0"
  unfolding no_exception_iff has_flag_mismatch_iff spotless_def aggregate_totals_match_def by auto

lemma derived_outcome_spotless:
  assumes "spotless e"
  shows "derived_outcome e = (if ev_method e = Method_BodyHash then Out_ExactBodyMatch else Out_ExactMetadataMatch)"
  using assms unfolding spotless_def derived_outcome_def
  by (auto simp: exactness_defs split: option.splits)

lemma derived_outcome_exact_unmatched:
  "exact_outcome (derived_outcome e) \<Longrightarrow> unmatched_messages e = Some 0"
  by (auto simp: exact_outcome_def derived_outcome_def split: if_splits option.splits)

lemma is_exact_match_derived:
  assumes "ev_outcome e = None"
  shows "is_exact_match e \<longleftrightarrow> spotless e"
proof
  assume "is_exact_match e"
  then show "spotless e"
    using assms derived_outcome_exact_unmatched [of e]
    by (simp add: is_exact_match_def verification_outcome_def spotless_iff)
next
  assume s: "spotless e"
  then show "is_exact_match e"
    using assms derived_outcome_spotless [OF s]
    by (simp add: is_exact_match_def verification_outcome_def spotless_iff exact_outcome_def)
qed

lemma is_exact_match_labelled:
  assumes "ev_outcome e = Some out"
  shows "is_exact_match e \<and> exact_label_is_consistent e out \<longleftrightarrow>
    spotless e \<and> exact_outcome out \<and> (ev_method e = Method_AggregateEngine \<longrightarrow> authoritative e) \<and>
    (ev_method e = Method_BodyHash \<longrightarrow> out = Out_ExactBodyMatch) \<and>
    (out = Out_ExactMetadataMatch \<longrightarrow> synthetic_identity_matches e = 0)"
  using assms
  by (auto simp: is_exact_match_def verification_outcome_def spotless_iff exact_label_is_consistent_def
      message_result_is_exact_def exact_outcome_def no_exception_iff has_flag_mismatch_iff
      flag_coverage_is_missing_def exactness_defs split: option.splits)

text \<open>The checks of the evidence commit in \<^verbatim>\<open>src/src/core/runs.rs\<close> for the state \<open>verified\<close>.\<close>

definition verified_admissible :: "evidence \<Rightarrow> bool" where
  "verified_admissible e \<longleftrightarrow>
     is_exact_match e \<and>
     (case ev_outcome e of
        None \<Rightarrow> True
      | Some out \<Rightarrow> \<not> (exact_outcome out \<and> \<not> exact_label_is_consistent e out))"

lemma verified_admissible_outcome:
  assumes "verified_admissible e" and "ev_outcome e = Some out"
  shows "exact_outcome out"
  using assms by (auto simp: verified_admissible_def is_exact_match_def verification_outcome_def
      exact_outcome_def split: if_splits)

lemma length_filters_cover:
  assumes "\<And>x. P x \<Longrightarrow> \<not> Q x"
  shows "length (filter P xs) + length (filter Q xs) \<le> length xs \<and>
    (length (filter P xs) + length (filter Q xs) = length xs \<longleftrightarrow> (\<forall>x \<in> set xs. P x \<or> Q x))"
proof (induction xs)
  case (Cons x xs)
  then show ?case using assms [of x] by auto
qed simp

text \<open>
  C40: the ledger accepts evidence for the state \<open>verified\<close> exactly when the result is spotless and any
  label the verifier put on it is an exact one that fits the method. In particular no message is missing,
  extra, changed, failed, probable or unresolved, and per-message evidence has every message's flags
  compared.
\<close>

theorem verified_evidence_is_spotless:
  "verified_admissible e \<longleftrightarrow>
     spotless e \<and>
     (case ev_outcome e of
        None \<Rightarrow> True
      | Some out \<Rightarrow>
          exact_outcome out \<and> (ev_method e = Method_AggregateEngine \<longrightarrow> authoritative e) \<and>
          (ev_method e = Method_BodyHash \<longrightarrow> out = Out_ExactBodyMatch) \<and>
          (out = Out_ExactMetadataMatch \<longrightarrow> synthetic_identity_matches e = 0))"
proof (cases "ev_outcome e")
  case None
  then show ?thesis using is_exact_match_derived [OF None] by (simp add: verified_admissible_def)
next
  case (Some out)
  have "verified_admissible e \<longleftrightarrow> is_exact_match e \<and> exact_label_is_consistent e out"
    using verified_admissible_outcome [OF _ Some] Some by (auto simp: verified_admissible_def)
  then show ?thesis using is_exact_match_labelled [OF Some] Some by auto
qed

definition sample_evidence :: evidence where
  "sample_evidence =
     \<lparr>ev_method = Method_MetadataReconciliation, ev_outcome = Some Out_ExactMetadataMatch, source_messages = 3,
      destination_messages = 3, source_bytes = 900, destination_bytes = 900, unmatched_messages = Some 0,
      failed_messages = 0, source_folders = 2, destination_folders = 2, authoritative = False,
      missing_messages = 0, extra_messages = 0, modified_messages = 0, probable_messages = 0,
      rfc_message_id_matches = 3, synthetic_identity_matches = 0,
      ev_flags = Some \<lparr>compared_messages = 3, mismatched_messages = 0, excepted_messages = 0\<rparr>\<rparr>"

theorem verified_evidence_is_spotless_witness:
  "spotless sample_evidence \<and> verified_admissible sample_evidence \<and>
   \<not> verified_admissible (sample_evidence\<lparr>ev_flags := None\<rparr>)"
proof -
  have "verified_admissible sample_evidence" and "\<not> verified_admissible (sample_evidence\<lparr>ev_flags := None\<rparr>)"
    by code_simp+
  then show ?thesis using verified_evidence_is_spotless [of sample_evidence] by blast
qed

text \<open>
  No read model overclaims: the assurance level, the customer-facing status, the passed dimensions
  and the reconciled inventory all imply an exact match; an exact match of compared messages also has its
  flags compared, and an exact match has no open reason.
\<close>

theorem assurance_never_overclaims:
  "(assurance_level_of e \<noteq> None \<longleftrightarrow> is_exact_match e) \<and>
   (verification_status e = ''verified'' \<longleftrightarrow> is_exact_match e) \<and>
   (message_presence (dimensions e) = Dim_Pass \<longleftrightarrow> is_exact_match e) \<and>
   (body_integrity (dimensions e) = Dim_Pass \<longleftrightarrow> assurance_level_of e = Some Level_Content) \<and>
   (is_exact_match e \<and> fst (message_coverage e) > 0 \<longrightarrow> system_flags (dimensions e) = Dim_Pass) \<and>
   (is_exact_match e \<longrightarrow> verification_reason e = None \<and> confidence_percent e \<ge> 85)"
proof (intro conjI)
  show "is_exact_match e \<and> fst (message_coverage e) > 0 \<longrightarrow> system_flags (dimensions e) = Dim_Pass"
  proof
    assume True: "is_exact_match e \<and> fst (message_coverage e) > 0"
    then have "\<not> has_flag_mismatch e" by (simp add: is_exact_match_def no_exception_iff)
    with True have "flag_dimension e = Dim_Pass"
      by (cases "ev_method e")
        (auto simp: flag_dimension_def has_flag_mismatch_iff message_coverage_def split: option.splits)
    then show "system_flags (dimensions e) = Dim_Pass" by (simp add: dimensions_def Let_def)
  qed
  show "is_exact_match e \<longrightarrow> verification_reason e = None \<and> confidence_percent e \<ge> 85"
    by (auto simp: is_exact_match_def exact_outcome_def verification_reason_def confidence_percent_def Let_def)
qed (auto simp: assurance_level_of_def verification_status_def dimensions_def Let_def
    split: verification_method.splits if_splits)


theorem assurance_never_overclaims_witness:
  "is_exact_match sample_evidence \<and> system_flags (dimensions sample_evidence) = Dim_Pass \<and>
   confidence_percent sample_evidence \<ge> 85"
proof -
  have "is_exact_match sample_evidence" and "fst (message_coverage sample_evidence) > 0" by code_simp+
  then show ?thesis using assurance_never_overclaims [of sample_evidence] by blast
qed

section \<open>Coverage\<close>

lemma nat_to_string_inj: "nat_to_string m = nat_to_string n \<longleftrightarrow> m = n"
  by (metis option.inject parse_digits_nat_to_string)

lemma nat_to_string_dot_inj:
  assumes "nat_to_string m @ ''.'' @ r = nat_to_string n @ ''.'' @ r'"
  shows "m = n \<and> r = r'"
proof -
  have "\<not> is_ascii_digit CHR ''.''" by code_simp
  then have "CHR ''.'' \<notin> set (nat_to_string k)" for k using nat_to_string_digits by blast
  then have sp: "split_once ''.'' (nat_to_string k @ ''.'' @ q) = Some (nat_to_string k, q)" for k q
    using split_once_char [of "CHR ''.''" "nat_to_string k" q] by simp
  have "Some (nat_to_string m, r) = Some (nat_to_string n, r')" unfolding sp [symmetric] by (rule arg_cong [OF assms])
  then show ?thesis by (simp add: nat_to_string_inj)
qed

lemma full_tenths: "(t::nat) div 10 = 100 \<and> t mod 10 = 0 \<longleftrightarrow> t = 1000"
  using div_mult_mod_eq [of t 10] by auto

text \<open>
  The coverage shown to operators never rounds up: it reads 100.0% only when every source message
  was checked, and for a partial check it names the tenths below the true share.
\<close>

theorem coverage_never_rounds_up:
  "coverage_percent checked population = ''100.0%'' \<longleftrightarrow> 0 < population \<and> population \<le> checked"
proof (cases "population = 0")
  case True
  then show ?thesis by (simp add: coverage_percent_def)
next
  case False
  let ?t = "min checked population * 1000 div population"
  have c: "''100.0%'' = nat_to_string 100 @ ''.'' @ nat_to_string 0 @ ''%''" by code_simp
  have "coverage_percent checked population = ''100.0%'' \<longleftrightarrow> ?t div 10 = 100 \<and> ?t mod 10 = 0"
    using False nat_to_string_dot_inj [of "?t div 10" "nat_to_string (?t mod 10) @ ''%''" 100 "nat_to_string 0 @ ''%''"]
    unfolding c by (auto simp: coverage_percent_def Let_def nat_to_string_inj)
  also have "\<dots> \<longleftrightarrow> ?t = 1000" by (rule full_tenths)
  also have "\<dots> \<longleftrightarrow> population \<le> checked"
  proof
    assume "?t = 1000"
    then have "1000 * population \<le> min checked population * 1000"
      by (metis div_times_less_eq_dividend)
    then show "population \<le> checked" by simp
  next
    assume "population \<le> checked"
    then show "?t = 1000" using False by (simp add: min_absorb2)
  qed
  finally show ?thesis using False by simp
qed

section \<open>The state of a project\<close>

lemma verified_count_full:
  "length (filter (\<lambda>m. mj_state (rm_job m) = ''verified'') ms) + length (filter accepted_exception ms) = length ms \<longleftrightarrow>
   (\<forall>m \<in> set ms. mj_state (rm_job m) = ''verified'' \<or> accepted_exception m)"
  by (rule conjunct2 [OF length_filters_cover]) (simp add: accepted_exception_def)

lemma no_accepted_exception: "length (filter accepted_exception ms) = 0 \<longleftrightarrow> (\<forall>m \<in> set ms. \<not> accepted_exception m)"
  by (simp add: filter_empty_conv)

text \<open>
  Outside the complete phase a project reads VERIFIED only when it has mailboxes and every one of
  them is verified, without an attention reason and without an exception in its evidence; a mailbox with
  a reason, an unaccepted exception or a blocking state always keeps the project from reading verified
  or migrated, whatever its phase.
\<close>

theorem project_verified_needs_every_mailbox:
  "(operational_state_of r = Op_Verified \<and> pr_phase (rp_project r) \<noteq> Phase_Complete \<longrightarrow>
      rp_mailboxes r \<noteq> [] \<and>
      (\<forall>m \<in> set (rp_mailboxes r).
         mj_state (rm_job m) = ''verified'' \<and> rm_attention_reason m = None \<and> \<not> evidence_exception m)) \<and>
   ((\<exists>m \<in> set (rp_mailboxes r).
       rm_attention_reason m \<noteq> None \<or>
       (mj_state (rm_job m) = ''verified_with_exceptions'' \<and> rm_acceptance m = None) \<or>
       mj_state (rm_job m) \<in> {''failed'', ''cancelled'', ''verification_difference'', ''attention''}) \<longrightarrow>
    operational_state_of r \<in> {Op_NeedsAttention, Op_Blocked})"
proof
  let ?ms = "rp_mailboxes r"
  show "operational_state_of r = Op_Verified \<and> pr_phase (rp_project r) \<noteq> Phase_Complete \<longrightarrow>
      ?ms \<noteq> [] \<and> (\<forall>m \<in> set ?ms. mj_state (rm_job m) = ''verified'' \<and> rm_attention_reason m = None \<and> \<not> evidence_exception m)"
  proof
    assume a: "operational_state_of r = Op_Verified \<and> pr_phase (rp_project r) \<noteq> Phase_Complete"
    then have "phase_operational_state r \<noteq> Op_Verified"
      by (auto simp: phase_operational_state_def Let_def)
    with a have f: "\<not> list_ex (\<lambda>m. rm_attention_reason m \<noteq> None) ?ms" "?ms \<noteq> []"
      "\<forall>m \<in> set ?ms. mj_state (rm_job m) = ''verified'' \<or> accepted_exception m"
      "length (filter accepted_exception ?ms) = 0" "\<not> list_ex evidence_exception ?ms"
      unfolding operational_state_of_def Let_def verified_count_full by (auto split: if_splits)
    then show "?ms \<noteq> [] \<and> (\<forall>m \<in> set ?ms. mj_state (rm_job m) = ''verified'' \<and> rm_attention_reason m = None \<and> \<not> evidence_exception m)"
      unfolding no_accepted_exception by (auto simp: list_ex_iff)
  qed
qed (auto simp: operational_state_of_def Let_def list_ex_iff)

definition sample_report :: "str \<Rightarrow> project_report" where
  "sample_report state =
     \<lparr>rp_project = \<lparr>pr_id = ''p'', pr_name = ''p'', pr_source_endpoint = ''a'', pr_destination_endpoint = ''b'',
        pr_phase = Phase_Verification\<rparr>,
      rp_mailboxes = [\<lparr>rm_job = \<lparr>mj_id = ''j'', mj_source_mailbox = ''s'', mj_destination_mailbox = ''d'',
          mj_state = state, mj_config = None\<rparr>,
        rm_attention_reason = None, rm_acceptance = None,
        rm_evidence = Some (''r'', sample_evidence, None)\<rparr>],
      rp_has_active_runs = True\<rparr>"

theorem project_verified_needs_every_mailbox_witness:
  "operational_state_of (sample_report ''verified'') = Op_Verified \<and>
   \<not> list_ex evidence_exception (rp_mailboxes (sample_report ''verified'')) \<and>
   operational_state_of (sample_report ''failed'') \<in> {Op_NeedsAttention, Op_Blocked}"
proof -
  have v: "operational_state_of (sample_report ''verified'') = Op_Verified" by code_simp
  have p: "pr_phase (rp_project (sample_report ''verified'')) \<noteq> Phase_Complete" by code_simp
  have f: "\<exists>m \<in> set (rp_mailboxes (sample_report ''failed'')).
       mj_state (rm_job m) \<in> {''failed'', ''cancelled'', ''verification_difference'', ''attention''}"
    by (simp add: sample_report_def)
  show ?thesis
    using v p f project_verified_needs_every_mailbox [of "sample_report ''verified''"]
      project_verified_needs_every_mailbox [of "sample_report ''failed''"] unfolding list_ex_iff by blast
qed

section \<open>Findings\<close>

text \<open>
  The comment on \<^verbatim>\<open>message_result_is_exact\<close> says that per-message evidence also needs complete flag
  coverage. The function does not look at the flags: evidence with no flag dimension at all, and evidence
  with a flag mismatch, still has an exact message result. The coverage check lives in
  \<^verbatim>\<open>exact_label_is_consistent\<close> instead.
\<close>

theorem message_result_ignores_flags:
  "message_result_is_exact (sample_evidence\<lparr>ev_flags := None\<rparr>) \<and>
   flag_coverage_is_missing (sample_evidence\<lparr>ev_flags := None\<rparr>) \<and>
   message_result_is_exact (e\<lparr>ev_flags := f\<rparr>) = message_result_is_exact e"
proof (intro conjI)
  show "message_result_is_exact (sample_evidence\<lparr>ev_flags := None\<rparr>)" by code_simp
  show "flag_coverage_is_missing (sample_evidence\<lparr>ev_flags := None\<rparr>)" by code_simp
  show "message_result_is_exact (e\<lparr>ev_flags := f\<rparr>) = message_result_is_exact e"
    by (simp add: message_result_is_exact_def aggregate_totals_match_def has_message_level_mismatch_def)
qed

text \<open>
  An engine summary that could not count the unresolved messages is incomplete evidence, and still reads
  as 100 per cent confidence: the exception rule only looks at a count that is present.
\<close>

theorem confidence_of_incomplete_evidence:
  "\<exists>e. verification_outcome e = Out_Incomplete \<and> unmatched_messages e = None \<and> confidence_percent e = 100"
proof
  let ?e = "sample_evidence\<lparr>ev_method := Method_AggregateEngine, ev_outcome := None, authoritative := True,
    unmatched_messages := None, ev_flags := None\<rparr>"
  show "verification_outcome ?e = Out_Incomplete \<and> unmatched_messages ?e = None \<and> confidence_percent ?e = 100"
    by code_simp
qed

end
