(* ===== verification/Checkpoint.thy ===== *)
theory Checkpoint
  imports Prelude
begin

text \<open>
  The Dovecot checkpoints of \<^verbatim>\<open>src/src/core/policy.rs\<close>: an opaque dsync state token, optionally bound to
  the digest of the mailbox inventory it was taken from. The Base64 decoder and the CRC-32 of the
  third-party crates are the parameters \<open>decode\<close> and \<open>crc\<close>.
\<close>

section \<open>Tokens\<close>

definition MAX_DOVECOT_CHECKPOINT_BYTES :: nat where "MAX_DOVECOT_CHECKPOINT_BYTES = 4096"
definition DOVECOT_CHECKPOINT_CONTEXT_BYTES :: nat where "DOVECOT_CHECKPOINT_CONTEXT_BYTES = 64"

definition HEADER_SIZE :: nat where "HEADER_SIZE = 4"
definition CRC_SIZE :: nat where "CRC_SIZE = 4"
definition MAILBOX_STATE_SIZE :: nat where "MAILBOX_STATE_SIZE = 44"

definition checkpoint_char :: "char \<Rightarrow> bool" where
  "checkpoint_char c \<longleftrightarrow> is_ascii_alphanumeric c \<or> c = CHR ''+'' \<or> c = CHR ''/'' \<or> c = CHR ''=''"

text \<open>The padding rule: at most two \<^verbatim>\<open>=\<close>, only at the end, and then a length divisible by four.\<close>

definition padding_ok :: "str \<Rightarrow> bool" where
  "padding_ok value =
     (let tail = dropWhile (\<lambda>c. c \<noteq> CHR ''='') value in
      if tail \<noteq> [] then length value mod 4 = 0 \<and> length tail \<le> 2 \<and> list_all (\<lambda>c. c = CHR ''='') tail
      else length value mod 4 \<noteq> 1)"

definition padded :: "str \<Rightarrow> str" where
  "padded value = value @ replicate ((4 - length value mod 4) mod 4) CHR ''=''"

definition le_u32 :: "nat list \<Rightarrow> nat" where
  "le_u32 bytes = foldr (\<lambda>b n. b + 256 * n) bytes 0"

definition dsync_state :: "(nat list \<Rightarrow> nat) \<Rightarrow> nat list \<Rightarrow> bool" where
  "dsync_state crc decoded =
     (if decoded = [0, 0, 0, 0] then True
      else if length decoded < HEADER_SIZE + CRC_SIZE \<or> take HEADER_SIZE decoded \<noteq> [1, 0, 0, 0] \<or>
              (length decoded - HEADER_SIZE - CRC_SIZE) mod MAILBOX_STATE_SIZE \<noteq> 0 then False
      else let checksum_offset = length decoded - CRC_SIZE in
           crc (take checksum_offset decoded) = le_u32 (drop checksum_offset decoded))"

definition valid_dovecot_checkpoint_raw :: "(str \<Rightarrow> nat list option) \<Rightarrow> (nat list \<Rightarrow> nat) \<Rightarrow> str \<Rightarrow> bool" where
  "valid_dovecot_checkpoint_raw decode crc value =
     (if value \<noteq> trim value \<or> length value < 8 \<or> length value > MAX_DOVECOT_CHECKPOINT_BYTES \<or>
         list_ex is_ascii_whitespace value \<or>
         to_ascii_lowercase value \<in> set [''success'', ''successful'', ''completed''] \<or>
         list_ex (\<lambda>c. \<not> checkpoint_char c) value
      then False
      else if \<not> padding_ok value then False
      else case decode (padded value) of None \<Rightarrow> False | Some decoded \<Rightarrow> dsync_state crc decoded)"

section \<open>Contexts\<close>

definition checkpoint_context_ok :: "str \<Rightarrow> bool" where
  "checkpoint_context_ok c \<longleftrightarrow> length c = DOVECOT_CHECKPOINT_CONTEXT_BYTES \<and> list_all is_ascii_hexdigit c"

definition encode_dovecot_checkpoint ::
  "(str \<Rightarrow> nat list option) \<Rightarrow> (nat list \<Rightarrow> nat) \<Rightarrow> str \<Rightarrow> str \<Rightarrow> str option" where
  "encode_dovecot_checkpoint decode crc state ctx =
     (if \<not> valid_dovecot_checkpoint_raw decode crc state \<or> \<not> checkpoint_context_ok ctx then None
      else let value = state @ ''.'' @ ctx in
           if length value \<le> MAX_DOVECOT_CHECKPOINT_BYTES then Some value else None)"

definition dovecot_checkpoint_state :: "str \<Rightarrow> str" where
  "dovecot_checkpoint_state value = (case split_once ''.'' value of None \<Rightarrow> value | Some (state, _) \<Rightarrow> state)"

definition dovecot_checkpoint_context ::
  "(str \<Rightarrow> nat list option) \<Rightarrow> (nat list \<Rightarrow> nat) \<Rightarrow> str \<Rightarrow> str option" where
  "dovecot_checkpoint_context decode crc value =
     (case split_once ''.'' value of
        None \<Rightarrow> None
      | Some (state, ctx) \<Rightarrow>
          if valid_dovecot_checkpoint_raw decode crc state \<and> checkpoint_context_ok ctx then Some ctx else None)"

definition valid_dovecot_checkpoint :: "(str \<Rightarrow> nat list option) \<Rightarrow> (nat list \<Rightarrow> nat) \<Rightarrow> str \<Rightarrow> bool" where
  "valid_dovecot_checkpoint decode crc value =
     (case split_once ''.'' value of
        Some (state, ctx) \<Rightarrow> encode_dovecot_checkpoint decode crc state ctx = Some value
      | None \<Rightarrow> valid_dovecot_checkpoint_raw decode crc value)"

section \<open>Lemmas\<close>

lemma checkpoint_char_not_dot: "\<not> checkpoint_char CHR ''.''"
  by code_simp

lemma raw_checkpoint_no_dot:
  assumes "valid_dovecot_checkpoint_raw decode crc value"
  shows "CHR ''.'' \<notin> set value"
  using assms checkpoint_char_not_dot
  by (auto simp: valid_dovecot_checkpoint_raw_def list_ex_iff split: if_splits)

lemma split_encoded:
  assumes "valid_dovecot_checkpoint_raw decode crc state"
  shows "split_once ''.'' (state @ ''.'' @ ctx) = Some (state, ctx)"
  using split_once_char [OF raw_checkpoint_no_dot [OF assms]] by simp

lemma encode_SomeD:
  assumes "encode_dovecot_checkpoint decode crc state ctx = Some value"
  shows "value = state @ ''.'' @ ctx" "valid_dovecot_checkpoint_raw decode crc state" "checkpoint_context_ok ctx"
    "length value \<le> MAX_DOVECOT_CHECKPOINT_BYTES"
  using assms by (auto simp: encode_dovecot_checkpoint_def Let_def split: if_splits)

lemma le_u32_bound: "list_all (\<lambda>b. b < 256) bs \<Longrightarrow> le_u32 bs < 256 ^ length bs"
proof (induction bs)
  case (Cons b bs)
  then have "le_u32 bs + 1 \<le> 256 ^ length bs" and "b < 256" by simp_all
  then have "256 * le_u32 bs + 256 \<le> 256 * 256 ^ length bs" by linarith
  with \<open>b < 256\<close> show ?case by (simp add: le_u32_def)
qed (simp add: le_u32_def)

section \<open>Round trip\<close>

text \<open>
  C32: whatever the decoder and the checksum do, a checkpoint bound to an inventory digest is accepted,
  gives back the engine's token and the digest unchanged, and stays within the stored size; and every
  checkpoint that is accepted with a dot in it is such an encoding.
\<close>

theorem checkpoint_roundtrip:
  "(encode_dovecot_checkpoint decode crc state ctx = Some value \<longrightarrow>
      valid_dovecot_checkpoint decode crc value \<and> dovecot_checkpoint_state value = state \<and>
      dovecot_checkpoint_context decode crc value = Some ctx \<and> length value \<le> 4096) \<and>
   (valid_dovecot_checkpoint decode crc value \<and> CHR ''.'' \<in> set value \<longrightarrow>
      (\<exists>s c. encode_dovecot_checkpoint decode crc s c = Some value))"
proof (intro conjI impI)
  assume e: "encode_dovecot_checkpoint decode crc state ctx = Some value"
  note d = encode_SomeD [OF e]
  have s: "split_once ''.'' value = Some (state, ctx)" using split_encoded [OF d(2)] d(1) by simp
  show "valid_dovecot_checkpoint decode crc value" using s e by (simp add: valid_dovecot_checkpoint_def)
  show "dovecot_checkpoint_state value = state" using s by (simp add: dovecot_checkpoint_state_def)
  show "dovecot_checkpoint_context decode crc value = Some ctx"
    using s d by (simp add: dovecot_checkpoint_context_def)
  show "length value \<le> 4096" using d(4) by (simp add: MAX_DOVECOT_CHECKPOINT_BYTES_def)
next
  assume "valid_dovecot_checkpoint decode crc value \<and> CHR ''.'' \<in> set value"
  then show "\<exists>s c. encode_dovecot_checkpoint decode crc s c = Some value"
    using split_once_char_None [of "CHR ''.''" "value"]
    by (auto simp: valid_dovecot_checkpoint_def split: option.splits)
qed

definition sample_token :: str where "sample_token = ''AQAAAHm4+Jk=''"

definition sample_decode :: "str \<Rightarrow> nat list option" where
  "sample_decode s = (if s = sample_token then Some [1, 0, 0, 0, 121, 184, 248, 153] else None)"

definition sample_crc :: "nat list \<Rightarrow> nat" where
  "sample_crc bs = (if bs = [1, 0, 0, 0] then 2583214201 else 0)"

theorem checkpoint_roundtrip_witness:
  "\<exists>value. encode_dovecot_checkpoint sample_decode sample_crc sample_token (replicate 64 CHR ''a'') = Some value \<and>
     valid_dovecot_checkpoint sample_decode sample_crc value \<and> dovecot_checkpoint_state value = sample_token"
proof -
  let ?v = "sample_token @ ''.'' @ replicate 64 CHR ''a''"
  have e: "encode_dovecot_checkpoint sample_decode sample_crc sample_token (replicate 64 CHR ''a'') = Some ?v"
    by code_simp
  then show ?thesis
    using checkpoint_roundtrip [of sample_decode sample_crc sample_token "replicate 64 CHR ''a''" ?v] by blast
qed

end
