(* ===== verification/Ledger_Tables.thy ===== *)
theory Ledger_Tables
  imports Command_Line Evidence Checkpoint
begin

text \<open>
  The durable ledger of \<^verbatim>\<open>src/src/core/database.rs\<close> as a record of tables, the errors of the store
  (\<^verbatim>\<open>src/src/core.rs\<close>) and the storage policies of \<^verbatim>\<open>src/src/storage.rs\<close>. A table is the list of its
  rows in \<^verbatim>\<open>rowid\<close> order; a transaction returns either an error, and then the ledger stays as it was,
  or the new ledger. The rows keep the columns that some modelled operation reads or writes; the
  \<^verbatim>\<open>started_at\<close> and \<^verbatim>\<open>created_at\<close> columns, which no modelled operation reads, are left out. Clock, time
  formats and destination identities are fields of an environment, because they come from the
  operating system, the \<^verbatim>\<open>chrono\<close> crate and the TOML plan of a mailbox.
\<close>

section \<open>Errors\<close>

datatype ledger_error =
    Ledger_Rejection str
  | Project_Held str
  | No_Rows
  | Invalid_Query
  | Constraint_Violation

type_synonym 'a ledger_result = "ledger_error + 'a"

definition is_ledger_rejection :: "ledger_error \<Rightarrow> bool" where
  "is_ledger_rejection e = (case e of Ledger_Rejection _ \<Rightarrow> True | Project_Held _ \<Rightarrow> True | _ \<Rightarrow> False)"

definition I64_MAX :: nat where "I64_MAX = 9223372036854775807"

definition sqlite_fits :: "nat \<Rightarrow> bool" where
  "sqlite_fits value \<longleftrightarrow> value \<le> I64_MAX"

definition sqlite_optional_fits :: "nat option \<Rightarrow> bool" where
  "sqlite_optional_fits value = (case value of None \<Rightarrow> True | Some n \<Rightarrow> sqlite_fits n)"

section \<open>Storage policies\<close>

definition MAX_EVENT_DETAIL_BYTES :: nat where "MAX_EVENT_DETAIL_BYTES = 16 * 1024"

definition EVENT_DETAIL_TRUNCATION_SUFFIX :: str where
  "EVENT_DETAIL_TRUNCATION_SUFFIX = '' [diagnostic detail truncated by MailSwiftSync]''"

text \<open>U+2028 and U+2029 in UTF-8.\<close>

fun has_line_separator :: "str \<Rightarrow> bool" where
  "has_line_separator (a # b # c # cs) =
     (a = CHR 0xE2 \<and> b = CHR 0x80 \<and> (c = CHR 0xA8 \<or> c = CHR 0xA9) \<or> has_line_separator (b # c # cs))"
| "has_line_separator _ = False"

definition single_line_audit_text :: "str \<Rightarrow> nat \<Rightarrow> str option" where
  "single_line_audit_text value max_bytes =
     (let v = trim value in
      if v \<noteq> [] \<and> length v \<le> max_bytes \<and> \<not> (has_control v \<or> has_line_separator v) then Some v else None)"

text \<open>\<^verbatim>\<open>is_char_boundary\<close>: a byte that continues a character is in the range 0x80 to 0xBF.\<close>

definition is_char_boundary :: "str \<Rightarrow> nat \<Rightarrow> bool" where
  "is_char_boundary s i \<longleftrightarrow>
     i = 0 \<or> i = length s \<or> (i < length s \<and> \<not> (128 \<le> char_code (s ! i) \<and> char_code (s ! i) < 192))"

fun boundary_down :: "str \<Rightarrow> nat \<Rightarrow> nat" where
  "boundary_down s 0 = 0"
| "boundary_down s (Suc i) = (if is_char_boundary s (Suc i) then Suc i else boundary_down s i)"

definition bounded_event_detail :: "str \<Rightarrow> str" where
  "bounded_event_detail detail =
     (if length detail \<le> MAX_EVENT_DETAIL_BYTES then detail
      else let content_limit = MAX_EVENT_DETAIL_BYTES - length EVENT_DETAIL_TRUNCATION_SUFFIX;
               bound = boundary_down detail (min content_limit (length detail)) in
           take bound detail @ EVENT_DETAIL_TRUNCATION_SUFFIX)"

section \<open>Rows\<close>

record project_row =
  pj_id :: str
  pj_name :: str
  pj_source :: str
  pj_destination :: str
  pj_phase :: str

record job_row =
  jb_id :: str
  jb_project :: str
  jb_source :: str
  jb_destination :: str
  jb_identity :: str
  jb_state :: str
  jb_attempt :: nat
  jb_checkpoint :: "str option"
  jb_preflight_plan :: "str option"
  jb_config :: "str option"
  jb_attention_reason :: "str option"
  jb_batch_plan :: "str option"
  jb_overrides :: "str option"

record batch_plan_row =
  bt_id :: str
  bt_project :: str
  bt_config :: str

text \<open>The presentation facts of a queue row, without the state and counters that triggers keep.\<close>

record queue_facts_row =
  qf_job :: str
  qf_label :: str
  qf_source_host :: str
  qf_destination_host :: str
  qf_search_key :: str
  qf_destructive :: bool
  qf_policy :: str

record run_row =
  rn_id :: str
  rn_project :: str
  rn_job :: "str option"
  rn_parent :: "str option"
  rn_engine :: str
  rn_phase_at_start :: str
  rn_plan_snapshot :: str
  rn_status :: str
  rn_finished_at :: "str option"
  rn_detail :: str

record active_process =
  ap_run :: str
  ap_job :: str
  ap_pid :: nat
  ap_start_ticks :: "nat option"
  ap_process_group :: "nat option"
  ap_session :: "nat option"
  ap_executable :: str

record event_row =
  evt_project :: str
  evt_run :: "str option"
  evt_kind :: str
  evt_detail :: str

record project_hold =
  held_project :: str
  held_by :: str
  held_reason :: str
  held_at :: str

record cutover_row =
  cw_project :: str
  cw_stage :: str
  cw_scheduled_at :: str
  cw_window :: "str option"
  cw_approved_by :: "str option"
  cw_approved_at :: "str option"
  cw_confirmation :: "str option"
  cw_quiescence_operator :: "str option"
  cw_quiescence_evidence :: "str option"
  cw_quiescence_at :: "str option"

record evidence_row =
  er_job :: str
  er_run :: str
  er_method :: str
  er_outcome :: str
  er_value :: evidence
  er_authoritative :: bool
  er_captured_at :: str

record flag_row =
  fl_job :: str
  fl_run :: str
  fl_flags :: flag_verification

datatype mismatch_type =
  Mismatch_MessageIdOnly | Mismatch_PresentWrongFolder | Mismatch_Missing | Mismatch_Extra | Mismatch_Duplicated

fun mismatch_as_str :: "mismatch_type \<Rightarrow> str" where
  "mismatch_as_str Mismatch_MessageIdOnly = ''message_id_only''"
| "mismatch_as_str Mismatch_PresentWrongFolder = ''message_present_wrong_folder''"
| "mismatch_as_str Mismatch_Missing = ''missing''"
| "mismatch_as_str Mismatch_Extra = ''extra''"
| "mismatch_as_str Mismatch_Duplicated = ''duplicated''"

definition mismatch_parse :: "str \<Rightarrow> mismatch_type option" where
  "mismatch_parse value =
     (if value = ''message_id_only'' then Some Mismatch_MessageIdOnly
      else if value = ''message_present_wrong_folder'' then Some Mismatch_PresentWrongFolder
      else if value = ''missing'' then Some Mismatch_Missing
      else if value = ''extra'' then Some Mismatch_Extra
      else if value = ''duplicated'' then Some Mismatch_Duplicated
      else None)"

record message_mismatch =
  mm_id :: str
  mm_job :: str
  mm_run :: str
  mm_type :: mismatch_type
  mm_source_folder :: "str option"
  mm_destination_folder :: "str option"
  mm_source_uidvalidity :: "nat option"
  mm_destination_uidvalidity :: "nat option"
  mm_source_uid :: "str option"
  mm_dest_uid :: "str option"
  mm_source_message_id :: "str option"
  mm_dest_message_id :: "str option"
  mm_source_size :: "nat option"
  mm_dest_size :: "nat option"
  mm_source_date :: "str option"
  mm_dest_date :: "str option"
  mm_source_fingerprint :: "str option"
  mm_destination_fingerprint :: "str option"

text \<open>A stored mismatch: message identifiers and folder names are never written.\<close>

record mismatch_row =
  ms_id :: str
  ms_job :: str
  ms_run :: str
  ms_type :: str
  ms_source_uid :: "str option"
  ms_dest_uid :: "str option"
  ms_source_size :: "nat option"
  ms_dest_size :: "nat option"
  ms_source_date :: "str option"
  ms_dest_date :: "str option"
  ms_source_uidvalidity :: "nat option"
  ms_destination_uidvalidity :: "nat option"
  ms_source_fingerprint :: "str option"
  ms_destination_fingerprint :: "str option"
  ms_source_digest :: "str option"
  ms_destination_digest :: "str option"

record folder_observation =
  fo_side :: nat
  fo_digest :: str
  fo_uidvalidity :: nat
  fo_uidnext :: nat
  fo_exists :: nat
  fo_verified_through_uid :: nat
  fo_staged_messages :: nat
  fo_complete :: bool
  fo_scan_started_at :: "str option"
  fo_scan_completed_at :: "str option"
  fo_source_revalidated_at :: "str option"
  fo_destination_revalidated_at :: "str option"

text \<open>
  A transfer pass with the columns the cutover gate reads; the passes and their folder observations are
  written by \<^verbatim>\<open>transfer_passes.rs\<close>.
\<close>

record pass_row =
  tp_run :: str
  tp_attempt :: nat
  tp_sequence :: nat
  tp_method :: "str option"
  tp_outcome :: "str option"
  tp_verified_at :: "str option"

record ledger =
  projects :: "project_row list"
  jobs :: "job_row list"
  runs :: "run_row list"
  processes :: "active_process list"
  events :: "event_row list"
  holds :: "project_hold list"
  cutovers :: "cutover_row list"
  acceptances :: "verification_acceptance list"
  evidence_table :: "evidence_row list"
  evidence_history :: "evidence_row list"
  flag_table :: "flag_row list"
  engine_versions :: "(str \<times> str) list"
  mismatches :: "mismatch_row list"
  passes :: "pass_row list"
  pass_folders :: "(str \<times> nat \<times> folder_observation) list"
  verification_folders :: "(str \<times> folder_observation) list"
  batch_plans :: "batch_plan_row list"
  queue_facts :: "queue_facts_row list"

record environment =
  utc_now :: int
  current_timestamp :: str
  parse_timestamp :: "str \<Rightarrow> int option"
  parse_rfc3339 :: "str \<Rightarrow> int option"
  to_rfc3339 :: "int \<Rightarrow> str"
  lock_identity :: "str \<Rightarrow> str option \<Rightarrow> str"
  destination_identity :: "str \<Rightarrow> str option \<Rightarrow> str"
  sha256_hex :: "str \<Rightarrow> str"
  base64_decode :: "str \<Rightarrow> nat list option"
  crc32 :: "nat list \<Rightarrow> nat"

definition folder_digest :: "environment \<Rightarrow> str \<Rightarrow> str \<Rightarrow> str" where
  "folder_digest E project folder =
     sha256_hex E (''mailswiftsync-folder-v1'' @ [CHR 0x00] @ project @ [CHR 0x00] @ folder)"

section \<open>Queries and writes\<close>

definition project_of :: "ledger \<Rightarrow> str \<Rightarrow> project_row option" where
  "project_of L p = find (\<lambda>r. pj_id r = p) (projects L)"

definition job_of :: "ledger \<Rightarrow> str \<Rightarrow> str \<Rightarrow> job_row option" where
  "job_of L p j = find (\<lambda>r. jb_id r = j \<and> jb_project r = p) (jobs L)"

definition cutover_of :: "ledger \<Rightarrow> str \<Rightarrow> cutover_row option" where
  "cutover_of L p = find (\<lambda>c. cw_project c = p) (cutovers L)"

definition project_hold_in :: "ledger \<Rightarrow> str \<Rightarrow> project_hold option" where
  "project_hold_in L p = find (\<lambda>h. held_project h = p) (holds L)"

definition active_status :: "str \<Rightarrow> bool" where
  "active_status s \<longleftrightarrow> s = ''queued'' \<or> s = ''running''"

definition active_run :: "run_row \<Rightarrow> bool" where
  "active_run r \<longleftrightarrow> active_status (rn_status r)"

definition has_active_run :: "ledger \<Rightarrow> str \<Rightarrow> str \<Rightarrow> bool" where
  "has_active_run L p j \<longleftrightarrow>
     list_ex (\<lambda>r. rn_project r = p \<and> rn_job r = Some j \<and> active_run r) (runs L)"

definition update_rows :: "('a \<Rightarrow> bool) \<Rightarrow> ('a \<Rightarrow> 'a) \<Rightarrow> 'a list \<Rightarrow> 'a list" where
  "update_rows P f rows = map (\<lambda>r. if P r then f r else r) rows"

definition count_rows :: "('a \<Rightarrow> bool) \<Rightarrow> 'a list \<Rightarrow> nat" where
  "count_rows P rows = length (filter P rows)"

definition add_event :: "str \<Rightarrow> str option \<Rightarrow> str \<Rightarrow> str \<Rightarrow> ledger \<Rightarrow> ledger" where
  "add_event p r kind detail L =
     L\<lparr>events := events L @ [\<lparr>evt_project = p, evt_run = r, evt_kind = kind, evt_detail = detail\<rparr>]\<rparr>"

text \<open>
  An insert into \<^verbatim>\<open>runs\<close> with the constraints of the schema: the primary key, the unique indexes
  \<^verbatim>\<open>one_running_run_per_job\<close> and \<^verbatim>\<open>one_active_run_per_job\<close>, and the foreign keys.
\<close>

definition insert_run :: "run_row \<Rightarrow> ledger \<Rightarrow> ledger ledger_result" where
  "insert_run r L =
     (if list_ex (\<lambda>s. rn_id s = rn_id r) (runs L) then Inl Constraint_Violation
      else if rn_job r \<noteq> None \<and> active_run r \<and> list_ex (\<lambda>s. rn_job s = rn_job r \<and> active_run s) (runs L)
      then Inl Constraint_Violation
      else if project_of L (rn_project r) = None \<or>
              (case rn_job r of None \<Rightarrow> False | Some j \<Rightarrow> \<not> list_ex (\<lambda>s. jb_id s = j) (jobs L)) \<or>
              (case rn_parent r of None \<Rightarrow> False | Some q \<Rightarrow> \<not> list_ex (\<lambda>s. rn_id s = q) (runs L))
      then Inl Constraint_Violation
      else Inr (L\<lparr>runs := runs L @ [r]\<rparr>))"

definition delete_processes :: "str \<Rightarrow> ledger \<Rightarrow> ledger" where
  "delete_processes run L = L\<lparr>processes := filter (\<lambda>a. ap_run a \<noteq> run) (processes L)\<rparr>"

definition accepted :: "ledger \<Rightarrow> job_row \<Rightarrow> bool" where
  "accepted L j \<longleftrightarrow>
     jb_state j = ''verified'' \<or>
     (jb_state j = ''verified_with_exceptions'' \<and> list_ex (\<lambda>a. va_job_id a = jb_id j) (acceptances L))"

definition project_jobs :: "ledger \<Rightarrow> str \<Rightarrow> job_row list" where
  "project_jobs L p = filter (\<lambda>j. jb_project j = p) (jobs L)"

text \<open>Comparison of \<^verbatim>\<open>TEXT\<close> values, byte by byte.\<close>

fun text_le :: "str \<Rightarrow> str \<Rightarrow> bool" where
  "text_le [] t = True"
| "text_le (c # cs) [] = False"
| "text_le (c # cs) (d # ds) =
     (char_code c < char_code d \<or> (char_code c = char_code d \<and> text_le cs ds))"

text \<open>The latest row of \<^verbatim>\<open>ORDER BY captured_at DESC, id DESC LIMIT 1\<close>.\<close>

fun latest_row :: "evidence_row list \<Rightarrow> evidence_row option" where
  "latest_row [] = None"
| "latest_row (r # rs) =
     (case latest_row rs of
        None \<Rightarrow> Some r
      | Some s \<Rightarrow> if text_le (er_captured_at r) (er_captured_at s) then Some s else Some r)"

section \<open>Reading the guards off a committed transaction\<close>

named_theorems guards \<open>a transaction that committed passed each of its checks\<close>

lemma if_Inl_eq_Inr [guards]: "((if c then Inl e else x) = Inr y) \<longleftrightarrow> \<not> c \<and> x = Inr y"
  by simp

lemma option_Inl_eq_Inr [guards]:
  "((case opt of None \<Rightarrow> Inl e | Some x \<Rightarrow> f x) = Inr y) \<longleftrightarrow> (\<exists>x. opt = Some x \<and> f x = Inr y)"
  by (simp split: option.split)

lemma refusal_eq_Inr [guards]:
  "((case opt of None \<Rightarrow> r | Some e \<Rightarrow> Inl (f e)) = Inr y) \<longleftrightarrow> opt = None \<and> r = Inr y"
  by (simp split: option.split)

lemma sum_Inl_eq_Inr [guards]:
  "((case res of Inl e \<Rightarrow> Inl (g e) | Inr x \<Rightarrow> f x) = Inr y) \<longleftrightarrow> (\<exists>x. res = Inr x \<and> f x = Inr y)"
  by (simp split: sum.split)

lemma pair_Inl_eq_Inr [guards]:
  "((case (a, b) of (Some x, Some z) \<Rightarrow> f x z | _ \<Rightarrow> Inl e) = Inr y) \<longleftrightarrow>
     (\<exists>x z. a = Some x \<and> b = Some z \<and> f x z = Inr y)"
  by (simp split: option.split)

lemma Inr_eq_Inr [guards]: "(Inr x = (Inr y :: 'a + 'b)) \<longleftrightarrow> x = y"
  by simp

end
