(* ===== verification/Cutover.thy ===== *)
theory Cutover
  imports Ledger_Tables
begin

text \<open>
  The managed cutover of \<^verbatim>\<open>src/src/core/cutover.rs\<close>: the approved stages of a migration, the operator's
  source-quiescence attestation with its fifteen-minute life, the readiness event that final verification
  publishes and a new run withdraws, and the transactions that plan, approve, attest and advance a
  workflow. An event's \<^verbatim>\<open>id\<close> is its position in the event list.
\<close>

section \<open>Stages\<close>

datatype cutover_stage = Stage_Seed | Stage_CatchUp | Stage_FinalDelta | Stage_Verification | Stage_Completed

fun stage_as_str :: "cutover_stage \<Rightarrow> str" where
  "stage_as_str Stage_Seed = ''seed''"
| "stage_as_str Stage_CatchUp = ''catch_up''"
| "stage_as_str Stage_FinalDelta = ''final_delta''"
| "stage_as_str Stage_Verification = ''verification''"
| "stage_as_str Stage_Completed = ''completed''"

fun stage_next :: "cutover_stage \<Rightarrow> cutover_stage option" where
  "stage_next Stage_Seed = Some Stage_CatchUp"
| "stage_next Stage_CatchUp = Some Stage_FinalDelta"
| "stage_next Stage_FinalDelta = Some Stage_Verification"
| "stage_next Stage_Verification = Some Stage_Completed"
| "stage_next Stage_Completed = None"

definition parse_stage :: "str \<Rightarrow> cutover_stage option" where
  "parse_stage value =
     (if value = ''seed'' then Some Stage_Seed
      else if value = ''catch_up'' then Some Stage_CatchUp
      else if value = ''final_delta'' then Some Stage_FinalDelta
      else if value = ''verification'' then Some Stage_Verification
      else if value = ''completed'' then Some Stage_Completed
      else None)"

definition MINUTE :: int where "MINUTE = 60000000000"

definition source_quiescence_error :: "environment \<Rightarrow> str option \<Rightarrow> str option" where
  "source_quiescence_error E attested =
     (case attested of
        None \<Rightarrow> Some ''source-quiescence attestation is missing''
      | Some text \<Rightarrow>
          (case parse_timestamp E text of
             None \<Rightarrow> Some ''source-quiescence attestation timestamp is invalid''
           | Some attested_at \<Rightarrow>
               let age = utc_now E - attested_at in
               if age < 0 then Some ''source-quiescence attestation timestamp is in the future''
               else if age > 15 * MINUTE then Some ''source-quiescence attestation is older than 15 minutes''
               else None))"

definition validate_cutover_run_stage :: "environment \<Rightarrow> str \<Rightarrow> str \<Rightarrow> str option \<Rightarrow> str option" where
  "validate_cutover_run_stage E stage phase attested =
     (if stage \<noteq> phase then Some ''managed cutover stage does not match the project phase''
      else if stage \<noteq> stage_as_str Stage_FinalDelta \<and> stage \<noteq> stage_as_str Stage_Verification then None
      else source_quiescence_error E attested)"

section \<open>Events as a history\<close>

definition last_event :: "(event_row \<Rightarrow> bool) \<Rightarrow> ledger \<Rightarrow> nat option" where
  "last_event P L =
     (let hits = filter (\<lambda>i. P (events L ! i)) [0..<length (events L)] in
      if hits = [] then None else Some (last hits))"

definition event_of_job :: "ledger \<Rightarrow> str \<Rightarrow> event_row \<Rightarrow> bool" where
  "event_of_job L j e =
     (case evt_run e of
        None \<Rightarrow> False
      | Some q \<Rightarrow> list_ex (\<lambda>r. rn_id r = q \<and> rn_job r = Some j) (runs L))"

definition latest_ready :: "ledger \<Rightarrow> str \<Rightarrow> nat option" where
  "latest_ready L p = last_event (\<lambda>e. evt_project e = p \<and> evt_kind e = ''cutover_ready'') L"

definition latest_withdrawal :: "ledger \<Rightarrow> str \<Rightarrow> nat option" where
  "latest_withdrawal L p =
     last_event (\<lambda>e. evt_project e = p \<and> evt_kind e = ''cutover_readiness_invalidated'') L"

definition latest_job_withdrawal :: "ledger \<Rightarrow> str \<Rightarrow> str \<Rightarrow> nat option" where
  "latest_job_withdrawal L p j =
     last_event (\<lambda>e. evt_project e = p \<and> evt_kind e = ''cutover_readiness_invalidated'' \<and> event_of_job L j e) L"

definition run_started_event :: "ledger \<Rightarrow> str \<Rightarrow> nat option" where
  "run_started_event L run =
     last_event (\<lambda>e. evt_run e = Some run \<and>
       evt_kind e \<in> set [''run_started'', ''verification_started'', ''mailbox_claimed'']) L"

section \<open>Final verification evidence\<close>

fun max_text :: "str list \<Rightarrow> str option" where
  "max_text [] = None"
| "max_text (x # xs) =
     (case max_text xs of None \<Rightarrow> Some x | Some y \<Rightarrow> if text_le x y then Some y else Some x)"

definition side_folders :: "ledger \<Rightarrow> str \<Rightarrow> nat \<Rightarrow> nat \<Rightarrow> folder_observation list" where
  "side_folders L run attempt side =
     map (\<lambda>(r, a, f). f)
       (filter (\<lambda>(r, a, f). r = run \<and> a = attempt \<and> fo_side f = side) (pass_folders L))"

definition last_scan :: "ledger \<Rightarrow> str \<Rightarrow> nat \<Rightarrow> nat \<Rightarrow> str option" where
  "last_scan L run attempt side =
     max_text (List.map_filter fo_scan_completed_at (side_folders L run attempt side))"

text \<open>A comparison with \<^verbatim>\<open>NULL\<close> on either side is not true.\<close>

definition revalidated_after :: "str option \<Rightarrow> str option \<Rightarrow> bool" where
  "revalidated_after at_time scan =
     (case (at_time, scan) of (Some t, Some s) \<Rightarrow> text_le s t | _ \<Rightarrow> False)"

definition folder_validated :: "ledger \<Rightarrow> str \<Rightarrow> nat \<Rightarrow> nat \<Rightarrow> folder_observation \<Rightarrow> bool" where
  "folder_validated L run attempt side f \<longleftrightarrow>
     fo_complete f \<and> fo_scan_completed_at f \<noteq> None \<and>
     (if side = 0 then revalidated_after (fo_source_revalidated_at f) (last_scan L run attempt 1)
      else revalidated_after (fo_destination_revalidated_at f) (last_scan L run attempt 0))"

definition valid_side :: "ledger \<Rightarrow> str \<Rightarrow> nat \<Rightarrow> nat \<Rightarrow> nat \<Rightarrow> bool" where
  "valid_side L run attempt side expected =
     (let fs = side_folders L run attempt side in
      length fs = expected \<and> length (filter (folder_validated L run attempt side) fs) = expected)"

fun latest_pass :: "pass_row list \<Rightarrow> pass_row option" where
  "latest_pass [] = None"
| "latest_pass (r # rs) =
     (case latest_pass rs of
        None \<Rightarrow> Some r
      | Some s \<Rightarrow> if tp_sequence r \<le> tp_sequence s then Some s else Some r)"

definition verified_pass :: "ledger \<Rightarrow> str \<Rightarrow> str \<Rightarrow> str \<Rightarrow> nat option" where
  "verified_pass L run method out =
     map_option tp_attempt (latest_pass (filter (\<lambda>q. tp_run q = run \<and> tp_method q = Some method \<and>
       tp_outcome q = Some out \<and> tp_verified_at q \<noteq> None) (passes L)))"

text \<open>
  One row of the gate: \<open>Some True\<close> for evidence with independently revalidated folder cursors, \<open>Some False\<close>
  for engine or aggregate evidence, \<open>None\<close> when the row refuses readiness.
\<close>

definition final_evidence_row :: "ledger \<Rightarrow> str \<Rightarrow> job_row \<Rightarrow> bool option" where
  "final_evidence_row L p j =
     (case find (\<lambda>e. er_job e = jb_id j) (evidence_table L) of
        None \<Rightarrow> None
      | Some e \<Rightarrow>
          (case find (\<lambda>r. rn_id r = er_run e) (runs L) of
             None \<Rightarrow> None
           | Some r \<Rightarrow>
               if rn_phase_at_start r \<noteq> ''verification'' \<or> rn_status r \<noteq> ''completed'' then None
               else if map_option er_run (latest_row (filter (\<lambda>h. er_job h = jb_id j) (evidence_history L))) \<noteq> Some (er_run e) \<or>
                       list_ex (\<lambda>a. rn_job a = Some (jb_id j) \<and> active_run a) (runs L) then None
               else if (case latest_job_withdrawal L p (jb_id j) of
                          None \<Rightarrow> False
                        | Some w \<Rightarrow> (case run_started_event L (er_run e) of None \<Rightarrow> True | Some s \<Rightarrow> s \<le> w)) then None
               else if er_method e = ''metadata_reconciliation'' \<or> er_method e = ''body_hash''
               then (case verified_pass L (er_run e) (er_method e) (er_outcome e) of
                       None \<Rightarrow> None
                     | Some attempt \<Rightarrow>
                         if valid_side L (er_run e) attempt 0 (source_folders (er_value e)) \<and>
                            valid_side L (er_run e) attempt 1 (destination_folders (er_value e))
                         then Some True else None)
               else if er_method e = ''aggregate_engine'' \<or> er_method e = ''native_dovecot'' then Some False
               else None))"

definition final_verification_evidence_summary :: "ledger \<Rightarrow> str \<Rightarrow> (nat \<times> nat) option" where
  "final_verification_evidence_summary L p =
     (let rows = map (final_evidence_row L p)
            (filter (\<lambda>j. jb_state j \<in> set [''verified'', ''verified_with_exceptions'']) (project_jobs L p)) in
      if list_ex (\<lambda>x. x = None) rows then None
      else Some (length (filter (\<lambda>x. x = Some True) rows), length (filter (\<lambda>x. x = Some False) rows)))"

definition accepted_exception_row :: "ledger \<Rightarrow> job_row \<Rightarrow> bool" where
  "accepted_exception_row L j \<longleftrightarrow>
     jb_state j = ''verified_with_exceptions'' \<and>
     list_ex (\<lambda>a. va_job_id a = jb_id j \<and>
       list_ex (\<lambda>e. er_job e = va_job_id a \<and> er_run e = va_run_id a) (evidence_table L)) (acceptances L)"

definition verified_counts :: "ledger \<Rightarrow> str \<Rightarrow> nat \<times> nat \<times> nat" where
  "verified_counts L p =
     (let js = project_jobs L p in
      (length js, length (filter (\<lambda>j. jb_state j = ''verified'') js), length (filter (accepted_exception_row L) js)))"

section \<open>Readiness\<close>

fun take_word :: "str \<Rightarrow> str" where
  "take_word [] = []"
| "take_word (c # cs) = (if ws_width (c # cs) > 0 then [] else c # take_word cs)"

definition trim_separators :: "str \<Rightarrow> str" where
  "trim_separators s = rev (dropWhile (\<lambda>c. c = CHR '';'' \<or> c = CHR '','') (rev s))"

definition EXPIRY_MARKER :: str where "EXPIRY_MARKER = ''source-quiescence attestation valid until ''"

definition cutover_ready_event_is_current :: "environment \<Rightarrow> str \<Rightarrow> bool" where
  "cutover_ready_event_is_current E detail =
     (case split_once EXPIRY_MARKER detail of
        None \<Rightarrow> False
      | Some (_, suffix) \<Rightarrow>
          let word = take_word (trim_start suffix) in
          if word = [] then False
          else case parse_rfc3339 E (trim_separators word) of None \<Rightarrow> False | Some expiry \<Rightarrow> expiry > utc_now E)"

definition newer_event :: "nat \<Rightarrow> nat option \<Rightarrow> bool" where
  "newer_event i other = (case other of None \<Rightarrow> True | Some k \<Rightarrow> k < i)"

definition current_cutover_ready_event :: "environment \<Rightarrow> ledger \<Rightarrow> str \<Rightarrow> bool" where
  "current_cutover_ready_event E L p =
     (case latest_ready L p of
        None \<Rightarrow> False
      | Some i \<Rightarrow>
          newer_event i (latest_withdrawal L p) \<and> cutover_ready_event_is_current E (evt_detail (events L ! i)))"

definition ready_detail :: "environment \<Rightarrow> nat \<Rightarrow> nat \<Rightarrow> nat \<Rightarrow> nat \<Rightarrow> nat \<Rightarrow> int \<Rightarrow> str" where
  "ready_detail E count clean excepted independent engine attested_at =
     ''final verification complete; mailboxes='' @ nat_to_string count @ ''; clean_verified='' @ nat_to_string clean @
     ''; accepted_exceptions='' @ nat_to_string excepted @ ''; independent_cursor_revalidated='' @
     nat_to_string independent @ ''; engine_or_aggregate_only='' @ nat_to_string engine @
     ''; '' @ EXPIRY_MARKER @ to_rfc3339 E (attested_at + 15 * MINUTE) @
     ''; external cutover approval pending''"

definition maybe_emit_cutover_ready :: "environment \<Rightarrow> str \<Rightarrow> ledger \<Rightarrow> ledger ledger_result" where
  "maybe_emit_cutover_ready E p L =
     (case (cutover_of L p, project_of L p) of
        (Some c, Some pj) \<Rightarrow>
          if cw_stage c \<noteq> ''verification'' \<or> pj_phase pj \<noteq> ''verification'' \<or>
             source_quiescence_error E (cw_quiescence_at c) \<noteq> None then Inr L
          else let (count, clean, excepted) = verified_counts L p in
               if count = 0 \<or> count \<noteq> clean + excepted then Inr L
               else (case final_verification_evidence_summary L p of
                       None \<Rightarrow> Inr L
                     | Some (independent, engine) \<Rightarrow>
                         if current_cutover_ready_event E L p then Inr L
                         else (case cw_quiescence_at c of
                                 None \<Rightarrow> Inr L
                               | Some text \<Rightarrow>
                                   (case parse_timestamp E text of
                                      None \<Rightarrow> Inl Invalid_Query
                                    | Some attested_at \<Rightarrow>
                                        Inr (add_event p None ''cutover_ready''
                                          (ready_detail E count clean excepted independent engine attested_at) L))))
      | _ \<Rightarrow> Inr L)"

definition invalidate_cutover_readiness_for_new_run :: "str \<Rightarrow> str \<Rightarrow> str \<Rightarrow> ledger \<Rightarrow> ledger" where
  "invalidate_cutover_readiness_for_new_run p j run L =
     (if \<not> list_ex (\<lambda>c. cw_project c = p \<and> cw_stage c = ''verification'') (cutovers L) then L
      else case latest_ready L p of
             None \<Rightarrow> L
           | Some ready \<Rightarrow>
               if (case latest_job_withdrawal L p j of None \<Rightarrow> False | Some w \<Rightarrow> ready < w) then L
               else add_event p (Some run) ''cutover_readiness_invalidated''
                      (''final-verification readiness withdrawn because mailbox '' @ j @ '' began a new verification run'') L)"

definition maybe_emit_cutover_verification_started :: "environment \<Rightarrow> str \<Rightarrow> ledger \<Rightarrow> ledger" where
  "maybe_emit_cutover_verification_started E p L =
     (case (cutover_of L p, project_of L p) of
        (Some c, Some pj) \<Rightarrow>
          if cw_stage c \<noteq> ''verification'' \<or> pj_phase pj \<noteq> ''verification'' \<or>
             source_quiescence_error E (cw_quiescence_at c) \<noteq> None then L
          else if list_ex (\<lambda>e. evt_project e = p \<and> evt_kind e = ''cutover_verification_started'') (events L) then L
          else add_event p None ''cutover_verification_started''
                 ''final delta complete; source quiescence reconfirmed for final verification'' L
      | _ \<Rightarrow> L)"

section \<open>Transactions\<close>

definition create_cutover_workflow :: "str \<Rightarrow> str \<Rightarrow> str option \<Rightarrow> ledger \<Rightarrow> ledger ledger_result" where
  "create_cutover_workflow p scheduled_at window L =
     (case single_line_audit_text scheduled_at 256 of
        None \<Rightarrow> Inl Invalid_Query
      | Some scheduled \<Rightarrow>
          (case (case window of
                   None \<Rightarrow> Some None
                 | Some w \<Rightarrow> map_option Some (single_line_audit_text w 1024)) of
             None \<Rightarrow> Inl Invalid_Query
           | Some window' \<Rightarrow>
               (case project_of L p of
                  None \<Rightarrow> Inl No_Rows
                | Some pj \<Rightarrow>
                    if pj_phase pj \<noteq> ''preflight'' \<and> pj_phase pj \<noteq> ''pilot'' then Inl Invalid_Query
                    else if cutover_of L p \<noteq> None then Inl Constraint_Violation
                    else Inr (add_event p None ''cutover_planned'' scheduled
                           (L\<lparr>cutovers := cutovers L @
                              [\<lparr>cw_project = p, cw_stage = ''seed'', cw_scheduled_at = scheduled, cw_window = window',
                                cw_approved_by = None, cw_approved_at = None, cw_confirmation = None,
                                cw_quiescence_operator = None, cw_quiescence_evidence = None,
                                cw_quiescence_at = None\<rparr>]\<rparr>)))))"

definition set_phase :: "str \<Rightarrow> str \<Rightarrow> ledger \<Rightarrow> ledger" where
  "set_phase p phase L =
     L\<lparr>projects := update_rows (\<lambda>r. pj_id r = p) (\<lambda>r. r\<lparr>pj_phase := phase\<rparr>) (projects L)\<rparr>"

definition approve_cutover :: "environment \<Rightarrow> str \<Rightarrow> str \<Rightarrow> ledger \<Rightarrow> ledger ledger_result" where
  "approve_cutover E p operator L =
     (case single_line_audit_text operator 256 of
        None \<Rightarrow> Inl Invalid_Query
      | Some who \<Rightarrow>
          (case project_of L p of
             None \<Rightarrow> Inl No_Rows
           | Some pj \<Rightarrow>
               if pj_phase pj \<noteq> ''preflight'' \<and> pj_phase pj \<noteq> ''pilot'' then Inl Invalid_Query
               else if count_rows (\<lambda>c. cw_project c = p \<and> cw_approved_by c = None) (cutovers L) \<noteq> 1
               then Inl Invalid_Query
               else Inr (add_event p None ''cutover_approved'' who
                      (add_event p None ''phase_changed'' ''seed''
                        (set_phase p ''seed''
                          (L\<lparr>cutovers := update_rows (\<lambda>c. cw_project c = p \<and> cw_approved_by c = None)
                               (\<lambda>c. c\<lparr>cw_approved_by := Some who, cw_approved_at := Some (current_timestamp E)\<rparr>)
                               (cutovers L)\<rparr>))))))"

definition attestable :: "str \<Rightarrow> cutover_row \<Rightarrow> bool" where
  "attestable p c \<longleftrightarrow>
     cw_project c = p \<and> cw_stage c \<in> set [''catch_up'', ''final_delta'', ''verification''] \<and> cw_approved_by c \<noteq> None"

definition attest_cutover_source_quiescence :: "environment \<Rightarrow> str \<Rightarrow> str \<Rightarrow> str \<Rightarrow> ledger \<Rightarrow> ledger ledger_result" where
  "attest_cutover_source_quiescence E p operator evidence_text L =
     (case single_line_audit_text operator 256 of
        None \<Rightarrow> Inl Invalid_Query
      | Some who \<Rightarrow>
          (case single_line_audit_text evidence_text 4096 of
             None \<Rightarrow> Inl Invalid_Query
           | Some what \<Rightarrow>
               if count_rows (attestable p) (cutovers L) \<noteq> 1 then Inl Invalid_Query
               else maybe_emit_cutover_ready E p
                      (maybe_emit_cutover_verification_started E p
                        (add_event p None ''cutover_source_quiescence_attested''
                          (''operator='' @ who @ ''; evidence='' @ what)
                          (L\<lparr>cutovers := update_rows (attestable p)
                               (\<lambda>c. c\<lparr>cw_quiescence_operator := Some who, cw_quiescence_evidence := Some what,
                                       cw_quiescence_at := Some (current_timestamp E)\<rparr>)
                               (cutovers L)\<rparr>)))))"

datatype cutover_advance_error = Advance_Ledger ledger_error | Advance_Refused str

definition stage_phase :: "cutover_stage \<Rightarrow> str" where
  "stage_phase s =
     (case s of
        Stage_CatchUp \<Rightarrow> ''catch_up''
      | Stage_FinalDelta \<Rightarrow> ''final_delta''
      | Stage_Verification \<Rightarrow> ''verification''
      | Stage_Completed \<Rightarrow> ''complete''
      | Stage_Seed \<Rightarrow> ''seed'')"

definition advance_workflow_row :: "str \<Rightarrow> cutover_stage \<Rightarrow> str option \<Rightarrow> cutover_row \<Rightarrow> cutover_row" where
  "advance_workflow_row p next_stage confirmation c =
     (let v = (next_stage = Stage_Verification) in
      c\<lparr>cw_stage := stage_as_str next_stage,
        cw_confirmation := (case confirmation of None \<Rightarrow> cw_confirmation c | Some x \<Rightarrow> Some x),
        cw_quiescence_operator := (if v then None else cw_quiescence_operator c),
        cw_quiescence_evidence := (if v then None else cw_quiescence_evidence c),
        cw_quiescence_at := (if v then None else cw_quiescence_at c)\<rparr>)"

definition requeue_verified :: "str \<Rightarrow> ledger \<Rightarrow> ledger" where
  "requeue_verified p L =
     L\<lparr>jobs := update_rows
          (\<lambda>j. jb_project j = p \<and> jb_state j \<in> set [''verified'', ''verified_with_exceptions''])
          (\<lambda>j. j\<lparr>jb_state := ''ready'', jb_attention_reason := None\<rparr>) (jobs L)\<rparr>"

text \<open>The guards of \<^verbatim>\<open>advance_cutover\<close>, in the code's order; \<open>Inr\<close> gives the next stage and the confirmation.\<close>

definition advance_check ::
  "environment \<Rightarrow> str \<Rightarrow> str option \<Rightarrow> ledger \<Rightarrow> cutover_advance_error + (cutover_stage \<times> str option)" where
  "advance_check E p external_confirmation L =
     (case cutover_of L p of
        None \<Rightarrow> Inl (Advance_Ledger No_Rows)
      | Some c \<Rightarrow>
          if cw_approved_by c = None then Inl (Advance_Refused ''cutover advancement requires explicit approval'')
          else (case parse_stage (cw_stage c) of
                  None \<Rightarrow> Inl (Advance_Ledger Invalid_Query)
                | Some stage \<Rightarrow>
          (case project_of L p of
             None \<Rightarrow> Inl (Advance_Ledger No_Rows)
           | Some pj \<Rightarrow>
          if pj_phase pj = ''complete''
          then Inl (Advance_Refused ''completed cutover workflows cannot be advanced again'')
          else let (count, clean, excepted) = verified_counts L p in
          if count = 0 \<or> count \<noteq> clean + excepted
          then Inl (Advance_Refused ''every mailbox must have durable verification evidence or an accepted exception before advancing'')
          else (case stage_next stage of
             None \<Rightarrow> Inl (Advance_Refused ''cutover workflow is already at its terminal stage'')
           | Some next_stage \<Rightarrow>
          if next_stage = Stage_Completed \<and> final_verification_evidence_summary L p = None
          then Inl (Advance_Refused ''final cutover requires completed Verification-stage evidence with current folder observations'')
          else if next_stage = Stage_Completed \<and> \<not> current_cutover_ready_event E L p
          then Inl (Advance_Refused ''final cutover readiness is missing, expired, or was withdrawn by a newer verification run'')
          else (case (if next_stage = Stage_FinalDelta \<or> stage = Stage_FinalDelta \<or> next_stage = Stage_Completed
                      then source_quiescence_error E (cw_quiescence_at c) else None) of
             Some problem \<Rightarrow>
               Inl (Advance_Refused (''cannot advance cutover: '' @ problem @
                 ''; reconfirm source delivery is paused and refresh the attestation''))
           | None \<Rightarrow>
          (case (case external_confirmation of
                   None \<Rightarrow> Some None
                 | Some text \<Rightarrow> map_option Some (single_line_audit_text text 4096)) of
             None \<Rightarrow> Inl (Advance_Refused ''external confirmation must be nonempty, single-line audit text'')
           | Some confirmation \<Rightarrow>
               if next_stage = Stage_Completed \<and> confirmation = None
               then Inl (Advance_Refused ''external cutover confirmation is required before completing the workflow'')
               else Inr (next_stage, confirmation)))))))"

definition advance_cutover ::
  "environment \<Rightarrow> str \<Rightarrow> str option \<Rightarrow> ledger \<Rightarrow> cutover_advance_error + (ledger \<times> cutover_stage)" where
  "advance_cutover E p external_confirmation L =
     (case advance_check E p external_confirmation L of
        Inl e \<Rightarrow> Inl e
      | Inr (next_stage, confirmation) \<Rightarrow>
          let phase = (case project_of L p of None \<Rightarrow> [] | Some pj \<Rightarrow> pj_phase pj);
              next_phase = stage_phase next_stage;
              L1 = (if next_stage \<noteq> Stage_Completed then requeue_verified p L else L);
              L2 = L1\<lparr>cutovers := update_rows (\<lambda>c. cw_project c = p)
                        (advance_workflow_row p next_stage confirmation) (cutovers L1)\<rparr>;
              L3 = set_phase p next_phase L2;
              L4 = (if phase \<noteq> next_phase then add_event p None ''phase_changed'' next_phase L3 else L3);
              L5 = (if next_stage = Stage_FinalDelta
                    then add_event p None ''cutover_final_delta_started''
                           ''source quiescence attested; final delta started'' L4
                    else L4) in
          Inr (add_event p None ''cutover_advanced'' (stage_as_str next_stage) L5, next_stage))"

end
