(* ===== verification/Ledger_Runs.thy ===== *)
theory Ledger_Runs
  imports Cutover Failure
begin

text \<open>
  The run transactions of \<^verbatim>\<open>src/src/core/runs.rs\<close>: admission of single, batch and audit runs, the claim of
  a mailbox by a batch child, and the terminal transactions, with the evidence commit. Identifiers that
  the code draws with \<^verbatim>\<open>Uuid::new_v4\<close> are arguments. Definitions follow the code's order of checks, so
  an error names the first check that fails.
\<close>

section \<open>Admission\<close>

definition MAX_PERSISTED_PROFILE_BYTES :: nat where "MAX_PERSISTED_PROFILE_BYTES = 1024 * 1024"

definition VERIFICATION_ENGINE :: str where "VERIFICATION_ENGINE = ''imap-verification''"

definition validate_managed_cutover_run_admission :: "environment \<Rightarrow> str \<Rightarrow> str \<Rightarrow> ledger \<Rightarrow> ledger_error option" where
  "validate_managed_cutover_run_admission E p phase L =
     (case cutover_of L p of
        None \<Rightarrow> None
      | Some c \<Rightarrow>
          if cw_approved_by c = None
          then Some (Ledger_Rejection ''the managed cutover workflow has not been approved'')
          else map_option (\<lambda>reason. Ledger_Rejection (''managed cutover: '' @ reason))
                 (validate_cutover_run_stage E (cw_stage c) phase (cw_quiescence_at c)))"

definition held_refusal :: "project_hold \<Rightarrow> ledger_error" where
  "held_refusal h =
     Project_Held (''the project is on hold ('' @ held_reason h @ '' by '' @ held_by h @
       ''); no new mailboxes start until it is resumed'')"

definition job_lock :: "environment \<Rightarrow> job_row \<Rightarrow> str" where
  "job_lock E j = lock_identity E (jb_destination j) (jb_config j)"

definition destination_lock_conflict :: "environment \<Rightarrow> str list \<Rightarrow> str list \<Rightarrow> ledger \<Rightarrow> bool" where
  "destination_lock_conflict E candidates excluded L =
     list_ex (\<lambda>j. has_active_run L (jb_project j) (jb_id j) \<and> jb_id j \<notin> set excluded \<and>
                  job_lock E j \<in> set candidates) (jobs L)"

definition LOCK_CONFLICT :: ledger_error where
  "LOCK_CONFLICT = Ledger_Rejection ''another active run already targets this destination mailbox''"

definition new_run :: "str \<Rightarrow> str \<Rightarrow> str option \<Rightarrow> str option \<Rightarrow> str \<Rightarrow> str \<Rightarrow> str \<Rightarrow> str \<Rightarrow> run_row" where
  "new_run run p j parent engine phase snapshot status =
     \<lparr>rn_id = run, rn_project = p, rn_job = j, rn_parent = parent, rn_engine = engine, rn_phase_at_start = phase,
      rn_plan_snapshot = snapshot, rn_status = status, rn_finished_at = None, rn_detail = []\<rparr>"

definition mark_running :: "str \<Rightarrow> ledger \<Rightarrow> ledger" where
  "mark_running j L =
     L\<lparr>jobs := update_rows (\<lambda>r. jb_id r = j)
         (\<lambda>r. r\<lparr>jb_state := ''running'', jb_attention_reason := None,
                 jb_attempt := (if jb_state r \<noteq> ''running'' then jb_attempt r + 1 else jb_attempt r)\<rparr>) (jobs L)\<rparr>"

definition valid_baseline :: "ledger \<Rightarrow> str \<Rightarrow> str \<Rightarrow> str \<Rightarrow> bool" where
  "valid_baseline L p j transfer =
     list_ex (\<lambda>r. rn_id r = transfer \<and> rn_project r = p \<and> rn_job r = Some j \<and>
                  rn_engine r \<noteq> VERIFICATION_ENGINE \<and> rn_status r = ''completed'') (runs L)"

definition begin_verification_run_with_baseline ::
  "environment \<Rightarrow> str \<Rightarrow> str \<Rightarrow> str \<Rightarrow> str option \<Rightarrow> str \<Rightarrow> ledger \<Rightarrow> ledger ledger_result" where
  "begin_verification_run_with_baseline E p j run transfer snapshot L =
     (if length snapshot > MAX_PERSISTED_PROFILE_BYTES
      then Inl (Ledger_Rejection ''the plan snapshot exceeds the persisted profile size limit'')
      else case (project_of L p, job_of L p j) of
        (Some pj, Some jb) \<Rightarrow>
          (case validate_managed_cutover_run_admission E p (pj_phase pj) L of
             Some e \<Rightarrow> Inl e
           | None \<Rightarrow>
               if has_active_run L p j then Inl (Ledger_Rejection ''the mailbox already has an active run'')
               else if (case transfer of None \<Rightarrow> False | Some t \<Rightarrow> \<not> valid_baseline L p j t)
               then Inl (Ledger_Rejection ''the baseline is not a completed transfer run of this mailbox'')
               else if destination_lock_conflict E [job_lock E jb] [j] L then Inl LOCK_CONFLICT
               else (case insert_run (new_run run p (Some j) transfer VERIFICATION_ENGINE (pj_phase pj) snapshot ''running'') L of
                       Inl e \<Rightarrow> Inl e
                     | Inr L1 \<Rightarrow>
                         Inr (add_event p (Some run) ''verification_started'' (''verification-only ('' @ j @ '')'')
                           (invalidate_cutover_readiness_for_new_run p j run L1))))
      | _ \<Rightarrow> Inl No_Rows)"

text \<open>The checks that every start of a transfer shares: the managed cutover, the terminal phase, the hold.\<close>

definition start_refusal :: "environment \<Rightarrow> str \<Rightarrow> str \<Rightarrow> ledger \<Rightarrow> ledger_error option" where
  "start_refusal E p phase L =
     (case validate_managed_cutover_run_admission E p phase L of
        Some e \<Rightarrow> Some e
      | None \<Rightarrow>
          if phase = phase_as_str Phase_Complete then Some (Ledger_Rejection ''the project is complete'')
          else map_option held_refusal (project_hold_in L p))"

definition cannot_start :: "str \<Rightarrow> bool" where
  "cannot_start state \<longleftrightarrow> state = ''running'' \<or> \<not> valid_mailbox_transition state ''running''"

definition CANNOT_START :: "str \<Rightarrow> ledger_error" where
  "CANNOT_START state = Ledger_Rejection (''a mailbox in state '' @ state @ '' cannot start'')"

definition begin_run_with_snapshot ::
  "environment \<Rightarrow> str \<Rightarrow> str \<Rightarrow> str \<Rightarrow> str \<Rightarrow> str \<Rightarrow> ledger \<Rightarrow> ledger ledger_result" where
  "begin_run_with_snapshot E p j run engine snapshot L =
     (if length snapshot > MAX_PERSISTED_PROFILE_BYTES
      then Inl (Ledger_Rejection ''the plan snapshot exceeds the persisted profile size limit'')
      else case (project_of L p, job_of L p j) of
        (Some pj, Some jb) \<Rightarrow>
          (case start_refusal E p (pj_phase pj) L of
             Some e \<Rightarrow> Inl e
           | None \<Rightarrow>
               if cannot_start (jb_state jb) then Inl (CANNOT_START (jb_state jb))
               else if has_active_run L p j then Inl (Ledger_Rejection ''the mailbox already has an active run'')
               else if destination_lock_conflict E [job_lock E jb] [j] L then Inl LOCK_CONFLICT
               else (case insert_run (new_run run p (Some j) None engine (pj_phase pj) snapshot ''running'') L of
                       Inl e \<Rightarrow> Inl e
                     | Inr L1 \<Rightarrow>
                         Inr (add_event p (Some run) ''run_started'' (engine @ '' ('' @ run @ '')'')
                           (mark_running j (invalidate_cutover_readiness_for_new_run p j run L1)))))
      | _ \<Rightarrow> Inl No_Rows)"

section \<open>Batches\<close>

record batch_child_plan =
  bp_engine :: str
  bp_plan_snapshot :: str
  bp_engine_version :: "str option"

definition nth_opt :: "'a list \<Rightarrow> nat \<Rightarrow> 'a option" where
  "nth_opt xs i = (if i < length xs then Some (xs ! i) else None)"

definition job_destination :: "environment \<Rightarrow> job_row \<Rightarrow> str" where
  "job_destination E j =
     (if jb_identity j = [] then destination_identity E (jb_destination j) (jb_config j) else jb_identity j)"

fun batch_scan ::
  "environment \<Rightarrow> str \<Rightarrow> ledger \<Rightarrow> str list \<Rightarrow> nat \<Rightarrow> str list \<Rightarrow> str list \<Rightarrow> str list ledger_result" where
  "batch_scan E p L expected i destinations [] = Inr []"
| "batch_scan E p L expected i destinations (j # js) =
     (case job_of L p j of
        None \<Rightarrow> Inl No_Rows
      | Some jb \<Rightarrow>
          let identity = job_destination E jb in
          if identity \<in> set destinations
          then Inl (Ledger_Rejection ''two batch mailboxes target the same destination mailbox'')
          else if cannot_start (jb_state jb) then Inl (CANNOT_START (jb_state jb))
          else if has_active_run L p j then Inl (Ledger_Rejection ''a batch mailbox already has an active run'')
          else if (case nth_opt expected i of None \<Rightarrow> False | Some plan \<Rightarrow> jb_preflight_plan jb \<noteq> Some plan)
          then Inl (Ledger_Rejection ''a batch mailbox plan changed since it was confirmed'')
          else map_sum id ((#) (job_lock E jb)) (batch_scan E p L expected (Suc i) (identity # destinations) js))"

fun insert_children ::
  "str \<Rightarrow> str \<Rightarrow> str \<Rightarrow> str \<Rightarrow> batch_child_plan list \<Rightarrow> nat \<Rightarrow> (str \<times> str) list \<Rightarrow> ledger \<Rightarrow> ledger ledger_result" where
  "insert_children p run engine phase plans i [] L = Inr L"
| "insert_children p run engine phase plans i ((j, child) # rest) L =
     (let plan = nth_opt plans i in
      case insert_run (new_run child p (Some j) (Some run)
             (case plan of None \<Rightarrow> engine | Some b \<Rightarrow> bp_engine b) phase
             (case plan of None \<Rightarrow> [] | Some b \<Rightarrow> bp_plan_snapshot b) ''queued'') L of
        Inl e \<Rightarrow> Inl e
      | Inr L1 \<Rightarrow>
          let L2 = invalidate_cutover_readiness_for_new_run p j child L1 in
          insert_children p run engine phase plans (Suc i) rest
            (case (case plan of None \<Rightarrow> None | Some b \<Rightarrow> bp_engine_version b) of
               None \<Rightarrow> L2
             | Some v \<Rightarrow> L2\<lparr>engine_versions := engine_versions L2 @ [(child, v)]\<rparr>))"

definition begin_batch_run_with_children ::
  "environment \<Rightarrow> str \<Rightarrow> str list \<Rightarrow> str \<Rightarrow> str \<Rightarrow> str list \<Rightarrow> str \<Rightarrow> batch_child_plan list \<Rightarrow> str list \<Rightarrow>
     ledger \<Rightarrow> (ledger \<times> str list) ledger_result" where
  "begin_batch_run_with_children E p job_ids run engine expected snapshot plans child_ids L =
     (if length snapshot > MAX_PERSISTED_PROFILE_BYTES \<or>
         list_ex (\<lambda>b. length (bp_plan_snapshot b) > MAX_PERSISTED_PROFILE_BYTES) plans
      then Inl (Ledger_Rejection ''a batch plan snapshot exceeds the persisted profile size limit'')
      else if job_ids = [] \<or> \<not> distinct job_ids \<or>
              (expected \<noteq> [] \<and> length expected \<noteq> length job_ids) \<or>
              (plans \<noteq> [] \<and> length plans \<noteq> length job_ids)
      then Inl (Ledger_Rejection ''the batch mailbox selection or plan list is inconsistent'')
      else case project_of L p of
        None \<Rightarrow> Inl No_Rows
      | Some pj \<Rightarrow>
          (case start_refusal E p (pj_phase pj) L of
             Some e \<Rightarrow> Inl e
           | None \<Rightarrow>
               (case batch_scan E p L expected 0 [] job_ids of
                  Inl e \<Rightarrow> Inl e
                | Inr locks \<Rightarrow>
                    if destination_lock_conflict E locks job_ids L then Inl LOCK_CONFLICT
                    else (case insert_run (new_run run p None None engine (pj_phase pj) snapshot ''running'') L of
                            Inl e \<Rightarrow> Inl e
                          | Inr L1 \<Rightarrow>
                              (case insert_children p run engine (pj_phase pj) plans 0 (zip job_ids child_ids) L1 of
                                 Inl e \<Rightarrow> Inl e
                               | Inr L2 \<Rightarrow>
                                   Inr (add_event p (Some run) ''run_started''
                                          (engine @ '' ('' @ run @ ''); '' @ nat_to_string (length job_ids) @ '' child jobs'') L2,
                                        child_ids))))))"

definition parent_is_running :: "ledger \<Rightarrow> str \<Rightarrow> str \<Rightarrow> bool" where
  "parent_is_running L p parent =
     list_ex (\<lambda>r. rn_id r = parent \<and> rn_project r = p \<and> rn_job r = None \<and> rn_status r = ''running'') (runs L)"

definition child_run :: "str \<Rightarrow> str \<Rightarrow> str \<Rightarrow> str \<Rightarrow> run_row \<Rightarrow> bool" where
  "child_run child p j parent r \<longleftrightarrow>
     rn_id r = child \<and> rn_project r = p \<and> rn_job r = Some j \<and> rn_parent r = Some parent"

definition claim_batch_mailbox_for_child ::
  "environment \<Rightarrow> str \<Rightarrow> str \<Rightarrow> str \<Rightarrow> str \<Rightarrow> ledger \<Rightarrow> ledger ledger_result" where
  "claim_batch_mailbox_for_child E p j parent child L =
     (case find (child_run child p j parent) (runs L) of
        None \<Rightarrow> Inl No_Rows
      | Some c \<Rightarrow>
          if \<not> parent_is_running L p parent then Inl (Ledger_Rejection ''the batch run is no longer running'')
          else if rn_status c \<noteq> ''queued''
          then Inl (Ledger_Rejection (''the child run is already '' @ rn_status c))
          else (case (project_of L p, job_of L p j) of
            (Some pj, Some jb) \<Rightarrow>
              (case start_refusal E p (pj_phase pj) L of
                 Some e \<Rightarrow> Inl e
               | None \<Rightarrow>
                   if jb_state jb = ''running'' then Inl (Ledger_Rejection ''the mailbox is already running'')
                   else if \<not> valid_mailbox_transition (jb_state jb) ''running'' then Inl (CANNOT_START (jb_state jb))
                   else let mailbox = (\<lambda>r. jb_id r = j \<and> jb_project r = p \<and> jb_state r = jb_state jb);
                            child_row = (\<lambda>r. child_run child p j parent r \<and> rn_status r = ''queued'') in
                        if count_rows mailbox (jobs L) \<noteq> 1 \<or> count_rows child_row (runs L) \<noteq> 1
                        then Inl (Ledger_Rejection ''the mailbox or child run changed during the claim'')
                        else Inr (add_event p (Some child) ''mailbox_claimed'' (j @ '' claimed by child run '' @ child)
                               (L\<lparr>jobs := update_rows mailbox
                                     (\<lambda>r. r\<lparr>jb_state := ''running'', jb_attention_reason := None,
                                             jb_attempt := jb_attempt r + 1\<rparr>) (jobs L),
                                  runs := update_rows child_row (\<lambda>r. r\<lparr>rn_status := ''running''\<rparr>) (runs L)\<rparr>)))
          | _ \<Rightarrow> Inl No_Rows))"

section \<open>Terminal transactions\<close>

definition finish_row :: "environment \<Rightarrow> str \<Rightarrow> str \<Rightarrow> run_row \<Rightarrow> run_row" where
  "finish_row E status detail r =
     r\<lparr>rn_status := status, rn_finished_at := Some (current_timestamp E), rn_detail := detail\<rparr>"

definition finish_run :: "environment \<Rightarrow> str \<Rightarrow> str \<Rightarrow> str \<Rightarrow> ledger \<Rightarrow> ledger ledger_result" where
  "finish_run E run status detail_text L =
     (if status \<notin> set [''completed'', ''failed'', ''cancelled'', ''abandoned'', ''verification_failed''] then Inl Invalid_Query
      else let detail = bounded_event_detail detail_text;
               target = (\<lambda>r. rn_id r = run \<and> rn_status r = ''running'') in
           case find target (runs L) of
             None \<Rightarrow> Inl No_Rows
           | Some r \<Rightarrow>
               if list_ex (\<lambda>c. rn_parent c = Some run \<and> active_run c) (runs L) then Inl Invalid_Query
               else if status = ''completed'' \<and> list_ex (\<lambda>c. rn_parent c = Some run \<and> rn_status c \<noteq> ''completed'') (runs L)
               then Inl Invalid_Query
               else if count_rows target (runs L) \<noteq> 1 then Inl No_Rows
               else Inr (add_event (rn_project r) (Some run) ''run_finished'' detail
                      (delete_processes run
                        (L\<lparr>runs := update_rows target (finish_row E status detail) (runs L)\<rparr>))))"

definition digest_ok :: "str option \<Rightarrow> bool" where
  "digest_ok plan = (case plan of None \<Rightarrow> True | Some v \<Rightarrow> length v = 64 \<and> list_all is_ascii_hexdigit v)"

definition checkpoint_ok :: "environment \<Rightarrow> str option \<Rightarrow> bool" where
  "checkpoint_ok E checkpoint =
     (case checkpoint of None \<Rightarrow> True | Some v \<Rightarrow> valid_dovecot_checkpoint (base64_decode E) (crc32 E) v)"

definition terminal_pair_is_valid :: "str \<Rightarrow> str \<Rightarrow> bool" where
  "terminal_pair_is_valid run_status state =
     (if run_status = ''completed''
      then state \<in> set [''ready'', ''completed'', ''delta_required'', ''verification_difference'', ''attention'']
      else if run_status = ''failed'' then state \<in> set [''failed'', ''attention'']
      else if run_status = ''cancelled'' then state \<in> set [''cancelled'', ''attention'']
      else if run_status = ''verification_failed'' then state \<in> set [''attention'', ''verification_difference'']
      else False)"

definition settle_job :: "str \<Rightarrow> str \<Rightarrow> str \<Rightarrow> attention_reason option \<Rightarrow> str option \<Rightarrow> str option \<Rightarrow> ledger \<Rightarrow> ledger" where
  "settle_job p j state reason plan checkpoint L =
     L\<lparr>jobs := update_rows (\<lambda>r. jb_id r = j \<and> jb_project r = p)
         (\<lambda>r. r\<lparr>jb_state := state, jb_attention_reason := map_option reason_as_str reason,
                 jb_preflight_plan := (case plan of None \<Rightarrow> jb_preflight_plan r | Some x \<Rightarrow> Some x),
                 jb_checkpoint := (case checkpoint of None \<Rightarrow> jb_checkpoint r | Some x \<Rightarrow> Some x)\<rparr>) (jobs L)\<rparr>"

definition finish_run_for_mailbox ::
  "environment \<Rightarrow> str \<Rightarrow> str \<Rightarrow> str \<Rightarrow> str \<Rightarrow> str \<Rightarrow> str \<Rightarrow> str option \<Rightarrow> str option \<Rightarrow> ledger \<Rightarrow> ledger ledger_result" where
  "finish_run_for_mailbox E p j run run_status state detail_text plan checkpoint L =
     (if \<not> digest_ok plan then Inl (Ledger_Rejection ''preflight plan digest is not 64 hexadecimal characters'')
      else if \<not> checkpoint_ok E checkpoint then Inl (Ledger_Rejection ''Dovecot checkpoint is malformed'')
      else if checkpoint \<noteq> None \<and> run_status \<noteq> ''completed''
      then Inl (Ledger_Rejection ''a checkpoint can only be committed with a completed run'')
      else if run_status \<notin> set [''completed'', ''failed'', ''cancelled'', ''verification_failed'']
      then Inl (Ledger_Rejection ''unknown terminal run status'')
      else if state \<notin> set [''ready'', ''completed'', ''verified'', ''delta_required'', ''verification_difference'', ''failed'', ''cancelled'', ''attention'']
      then Inl (Ledger_Rejection ''unknown terminal mailbox state'')
      else case job_of L p j of
        None \<Rightarrow> Inl No_Rows
      | Some jb \<Rightarrow>
          if \<not> terminal_pair_is_valid run_status state
          then Inl (Ledger_Rejection ''run status and mailbox state are not a valid terminal pair'')
          else if state = ''verified'' then Inl (Ledger_Rejection ''verified requires the evidence commit path'')
          else if jb_state jb \<noteq> state \<and> \<not> valid_mailbox_transition (jb_state jb) state
          then Inl (Ledger_Rejection ''mailbox state transition is not allowed'')
          else let target = (\<lambda>r. rn_id r = run \<and> rn_project r = p \<and> rn_job r = Some j \<and>
                     (rn_status r = ''running'' \<or>
                      (rn_status r = ''queued'' \<and> run_status \<in> set [''cancelled'', ''failed'', ''verification_failed'']))) in
               if count_rows target (runs L) \<noteq> 1 then Inl No_Rows
               else Inr (add_event p (Some run) ''run_finished''
                      (if run_status = ''completed'' then ''success'' else ''failure'')
                      (delete_processes run
                        (settle_job p j state (attention_reason_for state detail_text) plan checkpoint
                          (L\<lparr>runs := update_rows target (finish_row E run_status (bounded_event_detail detail_text)) (runs L)\<rparr>)))))"

section \<open>The evidence commit\<close>

definition evidence_fits :: "evidence \<Rightarrow> bool" where
  "evidence_fits v \<longleftrightarrow>
     list_all sqlite_fits
       [source_messages v, destination_messages v, source_bytes v, destination_bytes v, failed_messages v,
        source_folders v, destination_folders v, missing_messages v, extra_messages v, modified_messages v,
        probable_messages v, rfc_message_id_matches v, synthetic_identity_matches v] \<and>
     sqlite_optional_fits (unmatched_messages v)"

definition flags_fit :: "flag_verification \<Rightarrow> bool" where
  "flags_fit f \<longleftrightarrow> list_all sqlite_fits [compared_messages f, mismatched_messages f, excepted_messages f]"

definition evidence_row_of :: "environment \<Rightarrow> str \<Rightarrow> str \<Rightarrow> evidence \<Rightarrow> outcome \<Rightarrow> bool \<Rightarrow> evidence_row" where
  "evidence_row_of E j run v out auth =
     \<lparr>er_job = j, er_run = run, er_method = method_as_str (ev_method v), er_outcome = outcome_as_str out,
      er_value = v, er_authoritative = auth, er_captured_at = current_timestamp E\<rparr>"

definition upsert_evidence_projection ::
  "environment \<Rightarrow> str \<Rightarrow> str \<Rightarrow> evidence \<Rightarrow> outcome \<Rightarrow> bool \<Rightarrow> ledger \<Rightarrow> ledger ledger_result" where
  "upsert_evidence_projection E j run v out auth L =
     (if \<not> evidence_fits v then Inl Invalid_Query
      else let row = evidence_row_of E j run v out auth;
               table = (if list_ex (\<lambda>e. er_job e = j) (evidence_table L)
                        then update_rows (\<lambda>e. er_job e = j) (\<lambda>_. row) (evidence_table L)
                        else evidence_table L @ [row]);
               flags = filter (\<lambda>f. \<not> (fl_job f = j \<and> fl_run f = run)) (flag_table L) in
           case ev_flags v of
             None \<Rightarrow> Inr (L\<lparr>evidence_table := table, flag_table := flags\<rparr>)
           | Some f \<Rightarrow>
               if \<not> flags_consistent f then Inl (Ledger_Rejection ''flag verification counts are inconsistent'')
               else if \<not> flags_fit f then Inl Invalid_Query
               else Inr (L\<lparr>evidence_table := table, flag_table := flags @ [\<lparr>fl_job = j, fl_run = run, fl_flags = f\<rparr>]\<rparr>))"

definition longer_than :: "nat \<Rightarrow> str option \<Rightarrow> bool" where
  "longer_than n v = (case v of None \<Rightarrow> False | Some s \<Rightarrow> length s > n)"

definition mismatch_row_is_invalid :: "message_mismatch \<Rightarrow> str \<Rightarrow> str \<Rightarrow> bool" where
  "mismatch_row_is_invalid m j run \<longleftrightarrow>
     mm_job m \<noteq> j \<or> mm_run m \<noteq> run \<or> mm_id m = [] \<or> length (mm_id m) > 256 \<or>
     longer_than 256 (mm_source_uid m) \<or> longer_than 256 (mm_dest_uid m) \<or>
     longer_than 4096 (mm_source_folder m) \<or> longer_than 4096 (mm_destination_folder m) \<or>
     longer_than 4096 (mm_source_message_id m) \<or> longer_than 4096 (mm_dest_message_id m) \<or>
     longer_than 256 (mm_source_date m) \<or> longer_than 256 (mm_dest_date m) \<or>
     longer_than 128 (mm_source_fingerprint m) \<or> longer_than 128 (mm_destination_fingerprint m) \<or>
     list_ex has_control (List.map_filter id
       [mm_source_uid m, mm_dest_uid m, mm_source_folder m, mm_destination_folder m, mm_source_message_id m,
        mm_dest_message_id m, mm_source_date m, mm_dest_date m, mm_source_fingerprint m, mm_destination_fingerprint m])"

definition mismatch_fits :: "message_mismatch \<Rightarrow> bool" where
  "mismatch_fits m \<longleftrightarrow>
     list_all sqlite_optional_fits
       [mm_source_size m, mm_dest_size m, mm_source_uidvalidity m, mm_destination_uidvalidity m]"

definition stored_mismatch :: "environment \<Rightarrow> str \<Rightarrow> str \<Rightarrow> str \<Rightarrow> message_mismatch \<Rightarrow> mismatch_row" where
  "stored_mismatch E p j run m =
     \<lparr>ms_id = mm_id m, ms_job = j, ms_run = run, ms_type = mismatch_as_str (mm_type m),
      ms_source_uid = mm_source_uid m, ms_dest_uid = mm_dest_uid m,
      ms_source_size = mm_source_size m, ms_dest_size = mm_dest_size m,
      ms_source_date = mm_source_date m, ms_dest_date = mm_dest_date m,
      ms_source_uidvalidity = mm_source_uidvalidity m, ms_destination_uidvalidity = mm_destination_uidvalidity m,
      ms_source_fingerprint = mm_source_fingerprint m, ms_destination_fingerprint = mm_destination_fingerprint m,
      ms_source_digest = map_option (folder_digest E p) (mm_source_folder m),
      ms_destination_digest = map_option (folder_digest E p) (mm_destination_folder m)\<rparr>"

text \<open>The rows are validated by \<open>refuse\<close> and stored one at a time; the first refusal rolls everything back.\<close>

fun insert_mismatches ::
  "environment \<Rightarrow> (message_mismatch \<Rightarrow> ledger_error option) \<Rightarrow> str \<Rightarrow> str \<Rightarrow> str \<Rightarrow> message_mismatch list \<Rightarrow>
     ledger \<Rightarrow> ledger ledger_result" where
  "insert_mismatches E refuse p j run [] L = Inr L"
| "insert_mismatches E refuse p j run (m # ms) L =
     (case refuse m of
        Some e \<Rightarrow> Inl e
      | None \<Rightarrow>
          if list_ex (\<lambda>r. ms_id r = mm_id m) (mismatches L) then Inl Constraint_Violation
          else insert_mismatches E refuse p j run ms
                 (L\<lparr>mismatches := mismatches L @ [stored_mismatch E p j run m]\<rparr>))"

definition refuse_mismatch :: "str \<Rightarrow> str \<Rightarrow> message_mismatch \<Rightarrow> ledger_error option" where
  "refuse_mismatch j run m =
     (if mismatch_row_is_invalid m j run
      then Some (Ledger_Rejection ''a message mismatch row is out of bounds or contains control characters'')
      else if \<not> mismatch_fits m then Some (Ledger_Rejection ''a message mismatch number exceeds the ledger range'')
      else None)"

definition clear_mismatches :: "str \<Rightarrow> str \<Rightarrow> ledger \<Rightarrow> ledger" where
  "clear_mismatches j run L = L\<lparr>mismatches := filter (\<lambda>m. \<not> (ms_job m = j \<and> ms_run m = run)) (mismatches L)\<rparr>"

definition finish_run_with_evidence ::
  "environment \<Rightarrow> str \<Rightarrow> str \<Rightarrow> str \<Rightarrow> str \<Rightarrow> str \<Rightarrow> str \<Rightarrow> evidence \<Rightarrow> message_mismatch list \<Rightarrow> str option \<Rightarrow>
     str option \<Rightarrow> ledger \<Rightarrow> ledger ledger_result" where
  "finish_run_with_evidence E p j run run_status state detail_text v ms plan checkpoint L =
     (let preflight = (state = ''ready'' \<and> plan \<noteq> None) in
      if \<not> digest_ok plan then Inl (Ledger_Rejection ''preflight plan digest is not 64 hexadecimal characters'')
      else if \<not> checkpoint_ok E checkpoint then Inl (Ledger_Rejection ''Dovecot checkpoint is malformed'')
      else if run_status \<noteq> ''completed'' \<or>
              (\<not> preflight \<and> state \<notin> set [''verified'', ''delta_required'', ''verification_difference'', ''attention''])
      then Inl (Ledger_Rejection ''evidence commit requires a completed run and an evidence-backed state'')
      else if state = ''verified'' \<and> \<not> is_exact_match v
      then Inl (Ledger_Rejection ''verified requires exactly matching evidence'')
      else if (case ev_outcome v of
                 None \<Rightarrow> False
               | Some out \<Rightarrow> exact_outcome out \<and> \<not> exact_label_is_consistent v out)
      then Inl (Ledger_Rejection ''an exact verification label contradicts the evidence counters'')
      else if preflight \<and> ms \<noteq> []
      then Inl (Ledger_Rejection ''a successful preflight cannot carry message mismatches'')
      else case job_of L p j of
        None \<Rightarrow> Inl No_Rows
      | Some jb \<Rightarrow>
          if jb_state jb \<noteq> state \<and>
             \<not> (jb_state jb = ''running'' \<and> state \<in> set [''verified'', ''delta_required'', ''verification_difference'']) \<and>
             \<not> valid_mailbox_transition (jb_state jb) state
          then Inl (Ledger_Rejection ''mailbox state transition is not allowed'')
          else let target = (\<lambda>r. rn_id r = run \<and> rn_project r = p \<and> rn_job r = Some j \<and> rn_status r = ''running'') in
               if count_rows target (runs L) \<noteq> 1 then Inl No_Rows
               else if \<not> evidence_fits v then Inl Invalid_Query
               else let L1 = L\<lparr>runs := update_rows target (finish_row E ''completed'' (bounded_event_detail detail_text)) (runs L)\<rparr>;
                        out = (if preflight then Out_Incomplete else verification_outcome v);
                        auth = (authoritative v \<and> \<not> preflight);
                        L2 = L1\<lparr>evidence_history := evidence_history L1 @ [evidence_row_of E j run v out auth]\<rparr> in
                    case upsert_evidence_projection E j run v out auth L2 of
                      Inl e \<Rightarrow> Inl e
                    | Inr L3 \<Rightarrow>
                        (case insert_mismatches E (refuse_mismatch j run) p j run ms (clear_mismatches j run L3) of
                           Inl e \<Rightarrow> Inl e
                         | Inr L4 \<Rightarrow>
                             let L5 = settle_job p j state (attention_reason_for state detail_text) plan checkpoint L4 in
                             case (if state = ''verified'' then maybe_emit_cutover_ready E p L5 else Inr L5) of
                               Inl e \<Rightarrow> Inl e
                             | Inr L6 \<Rightarrow>
                                 Inr (add_event p (Some run) ''run_finished''
                                   (if preflight then ''successful preflight with engine observations''
                                    else ''success with verification evidence'')
                                   (delete_processes run L6))))"

end
