(* ===== verification/Ledger_Ops.thy ===== *)
theory Ledger_Ops
  imports Ledger_Runs
begin

text \<open>
  The other transactions of the ledger: the project phases (\<^verbatim>\<open>core/phases.rs\<close>), the operator holds
  (\<^verbatim>\<open>core/holds.rs\<close>), the recovery after a restart and the process identities (\<^verbatim>\<open>core/recovery.rs\<close>), the
  creation of a single-mailbox project (\<^verbatim>\<open>core/projects.rs\<close>), and the audit-only completion, the
  acceptance of a difference and the engine versions of \<^verbatim>\<open>core/evidence_ops.rs\<close>.
\<close>

section \<open>Projects and phases\<close>

definition create_project_with_mailbox ::
  "environment \<Rightarrow> str \<Rightarrow> str \<Rightarrow> str \<Rightarrow> str \<Rightarrow> str \<Rightarrow> str \<Rightarrow> str \<Rightarrow> ledger \<Rightarrow> ledger ledger_result" where
  "create_project_with_mailbox E p j name source destination source_mailbox destination_mailbox L =
     (if project_of L p \<noteq> None \<or> list_ex (\<lambda>r. jb_id r = j) (jobs L) then Inl Constraint_Violation
      else Inr (add_event p None ''project_created'' ''Project created without credentials''
             (L\<lparr>projects := projects L @ [\<lparr>pj_id = p, pj_name = name, pj_source = source,
                  pj_destination = destination, pj_phase = phase_as_str Phase_Discovery\<rparr>],
                jobs := jobs L @ [\<lparr>jb_id = j, jb_project = p, jb_source = source_mailbox,
                  jb_destination = destination_mailbox, jb_identity = destination_identity E destination_mailbox None,
                  jb_state = ''queued'', jb_attempt = 0, jb_checkpoint = None, jb_preflight_plan = None,
                  jb_config = None, jb_attention_reason = None, jb_batch_plan = None, jb_overrides = None\<rparr>]\<rparr>)))"

definition phase_move_refused :: "phase \<Rightarrow> phase \<Rightarrow> bool" where
  "phase_move_refused current phase =
     (let backwards = (current \<noteq> Phase_Attention \<and> phase \<noteq> Phase_Attention \<and> phase_rank phase < phase_rank current) in
      current \<noteq> phase \<and>
      (current = Phase_Complete \<or>
       (current = Phase_Attention \<and> phase \<noteq> Phase_Preflight \<and> phase \<noteq> Phase_Verification) \<or> backwards))"

definition all_mailboxes_accepted :: "ledger \<Rightarrow> str \<Rightarrow> bool" where
  "all_mailboxes_accepted L p =
     (let js = project_jobs L p in js \<noteq> [] \<and> length (filter (accepted L) js) = length js)"

definition transition :: "str \<Rightarrow> phase \<Rightarrow> ledger \<Rightarrow> ledger ledger_result" where
  "transition p phase L =
     (case project_of L p of
        None \<Rightarrow> Inl No_Rows
      | Some pj \<Rightarrow>
          (case phase_parse (pj_phase pj) of
             None \<Rightarrow> Inl Invalid_Query
           | Some current \<Rightarrow>
               if current \<noteq> phase \<and> cutover_of L p \<noteq> None
               then Inl (Ledger_Rejection ''a managed cutover workflow owns this project's phase; use the cutover commands'')
               else if phase_move_refused current phase
               then Inl (Ledger_Rejection ''this phase transition is not allowed from the current phase'')
               else if phase = Phase_Verification \<and> current = Phase_Discovery
               then Inl (Ledger_Rejection ''Verification requires a preflight first'')
               else if phase = Phase_Complete \<and> current \<noteq> phase \<and> cutover_of L p \<noteq> None
               then Inl (Ledger_Rejection ''a managed cutover completes only through its external confirmation'')
               else if phase = Phase_Complete \<and> current \<noteq> phase \<and>
                       (\<not> all_mailboxes_accepted L p \<or> current \<noteq> Phase_Verification)
               then Inl (Ledger_Rejection ''the project completes only when every mailbox is verified or has accepted exceptions'')
               else Inr (add_event p None ''phase_changed'' (phase_as_str phase) (set_phase p (phase_as_str phase) L))))"

definition reopen_project :: "str \<Rightarrow> str \<Rightarrow> ledger \<Rightarrow> ledger ledger_result" where
  "reopen_project p reason_text L =
     (case single_line_audit_text reason_text 4096 of
        None \<Rightarrow> Inl Invalid_Query
      | Some reason \<Rightarrow>
          (case project_of L p of
             None \<Rightarrow> Inl No_Rows
           | Some pj \<Rightarrow>
               if pj_phase pj \<noteq> phase_as_str Phase_Complete
               then Inl (Ledger_Rejection ''only a completed project can be reopened'')
               else if cutover_of L p \<noteq> None
               then Inl (Ledger_Rejection ''a project completed through a managed cutover cannot be reopened'')
               else if \<not> all_mailboxes_accepted L p \<or>
                       list_ex (\<lambda>r. rn_project r = p \<and> active_run r) (runs L) \<or>
                       list_ex (\<lambda>a. list_ex (\<lambda>r. rn_id r = ap_run a \<and> rn_project r = p) (runs L)) (processes L)
               then Inl (Ledger_Rejection ''reopen requires every mailbox verified and no active runs or processes'')
               else let invalid = (\<lambda>j. jb_project j = p \<and> jb_state j \<in> set [''verified'', ''verified_with_exceptions'']);
                        n = count_rows invalid (jobs L) in
                    Inr (add_event p None ''project_reopened''
                      (reason @ ''; invalidated_verification_rows='' @ nat_to_string n)
                      (set_phase p ''attention''
                        (L\<lparr>jobs := update_rows invalid
                             (\<lambda>j. j\<lparr>jb_state := ''attention'', jb_attention_reason := Some ''verification_incomplete''\<rparr>)
                             (jobs L)\<rparr>)))))"

section \<open>Holds\<close>

definition MAX_HOLD_OPERATOR_BYTES :: nat where "MAX_HOLD_OPERATOR_BYTES = 256"
definition MAX_HOLD_REASON_BYTES :: nat where "MAX_HOLD_REASON_BYTES = 500"

definition OPERATOR_REFUSED :: ledger_error where
  "OPERATOR_REFUSED = Ledger_Rejection ''the operator must be 1-256 printable characters''"

definition hold_project :: "environment \<Rightarrow> str \<Rightarrow> str \<Rightarrow> str \<Rightarrow> ledger \<Rightarrow> (ledger \<times> project_hold) ledger_result" where
  "hold_project E p operator reason_text L =
     (case single_line_audit_text operator MAX_HOLD_OPERATOR_BYTES of
        None \<Rightarrow> Inl OPERATOR_REFUSED
      | Some who \<Rightarrow>
          (case single_line_audit_text reason_text MAX_HOLD_REASON_BYTES of
             None \<Rightarrow> Inl (Ledger_Rejection ''the hold reason must be 1-500 printable characters'')
           | Some reason \<Rightarrow>
               if project_of L p = None then Inl No_Rows
               else (case project_hold_in L p of
                       Some h \<Rightarrow> Inl (Ledger_Rejection (''the project is already on hold by '' @ held_by h))
                     | None \<Rightarrow>
                         let h = \<lparr>held_project = p, held_by = who, held_reason = reason, held_at = current_timestamp E\<rparr> in
                         Inr (add_event p None ''project_held'' (''held by '' @ who @ '': '' @ reason)
                                (L\<lparr>holds := holds L @ [h]\<rparr>), h))))"

definition cancel_held_child_run :: "environment \<Rightarrow> str \<Rightarrow> str \<Rightarrow> str \<Rightarrow> str \<Rightarrow> ledger \<Rightarrow> ledger ledger_result" where
  "cancel_held_child_run E p j run detail_text L =
     (let target = (\<lambda>r. rn_id r = run \<and> rn_project r = p \<and> rn_job r = Some j \<and> rn_status r = ''queued'') in
      if count_rows target (runs L) \<noteq> 1 then Inl No_Rows
      else Inr (add_event p (Some run) ''run_held'' (j @ '' not started: project on hold'')
             (L\<lparr>runs := update_rows target (finish_row E ''cancelled'' (bounded_event_detail detail_text)) (runs L)\<rparr>)))"

definition release_project_hold :: "str \<Rightarrow> str \<Rightarrow> ledger \<Rightarrow> (ledger \<times> project_hold) ledger_result" where
  "release_project_hold p operator L =
     (case single_line_audit_text operator MAX_HOLD_OPERATOR_BYTES of
        None \<Rightarrow> Inl OPERATOR_REFUSED
      | Some who \<Rightarrow>
          (case project_hold_in L p of
             None \<Rightarrow> Inl (Ledger_Rejection ''the project is not on hold'')
           | Some h \<Rightarrow>
               Inr (add_event p None ''project_resumed'' (''resumed by '' @ who @ ''; hold by '' @ held_by h @ '' lifted'')
                      (L\<lparr>holds := filter (\<lambda>x. held_project x \<noteq> p) (holds L)\<rparr>), h)))"

section \<open>Recovery and process identities\<close>

definition interrupted_parent :: "ledger \<Rightarrow> str option \<Rightarrow> bool" where
  "interrupted_parent L parent =
     (case parent of
        None \<Rightarrow> False
      | Some q \<Rightarrow> list_ex (\<lambda>r. rn_id r = q \<and> rn_status r = ''running'' \<and> rn_job r = None) (runs L))"

definition RESTARTED :: str where "RESTARTED = ''Application restarted before completion''"

definition abandoned_parent :: "run_row list \<Rightarrow> str option \<Rightarrow> bool" where
  "abandoned_parent rs parent =
     (case parent of
        None \<Rightarrow> False
      | Some q \<Rightarrow>
          list_ex (\<lambda>r. rn_id r = q \<and> rn_status r = ''abandoned'' \<and> rn_job r = None \<and> rn_detail r = RESTARTED) rs)"

definition process_row_ok :: "ledger \<Rightarrow> active_process \<Rightarrow> bool" where
  "process_row_ok L a \<longleftrightarrow>
     list_ex (\<lambda>r. rn_id r = ap_run a) (runs L) \<and> list_ex (\<lambda>j. jb_id j = ap_job a) (jobs L)"

fun insert_processes :: "active_process list \<Rightarrow> ledger \<Rightarrow> ledger ledger_result" where
  "insert_processes [] L = Inr L"
| "insert_processes (a # as) L =
     (if \<not> sqlite_optional_fits (ap_start_ticks a) then Inl Invalid_Query
      else if list_ex (\<lambda>b. ap_run b = ap_run a \<and> ap_job b = ap_job a) (processes L) \<or> \<not> process_row_ok L a
      then Inl Constraint_Violation
      else insert_processes as (L\<lparr>processes := processes L @ [a]\<rparr>))"

definition recovered_projects :: "ledger \<Rightarrow> str list" where
  "recovered_projects L =
     remdups (map rn_project (filter (\<lambda>r. rn_status r = ''running'' \<or>
       (rn_status r = ''queued'' \<and> interrupted_parent L (rn_parent r))) (runs L)))"

definition recover_event :: "str \<Rightarrow> ledger \<Rightarrow> ledger" where
  "recover_event p =
     add_event p None ''run_recovered''
       ''Interrupted batch runs and claimed mailbox jobs were recovered; unclaimed child runs were abandoned''"

definition abandon_running :: "environment \<Rightarrow> run_row list \<Rightarrow> run_row list" where
  "abandon_running E = update_rows (\<lambda>r. rn_status r = ''running'') (finish_row E ''abandoned'' RESTARTED)"

definition abandon_unclaimed :: "environment \<Rightarrow> run_row list \<Rightarrow> run_row list" where
  "abandon_unclaimed E rs =
     update_rows (\<lambda>r. rn_status r = ''queued'' \<and> abandoned_parent rs (rn_parent r))
       (finish_row E ''abandoned'' ''Application restarted before batch child was claimed'') rs"

definition recover_abandoned_jobs_preserving ::
  "environment \<Rightarrow> active_process list \<Rightarrow> ledger \<Rightarrow> (ledger \<times> nat) ledger_result" where
  "recover_abandoned_jobs_preserving E preserved L =
     (let count = count_rows (\<lambda>j. jb_state j = ''running'') (jobs L);
          L1 = L\<lparr>jobs := update_rows (\<lambda>j. jb_state j = ''running'')
                   (\<lambda>j. j\<lparr>jb_state := ''attention'', jb_attention_reason := Some ''process_identity_unverified''\<rparr>) (jobs L),
                 runs := abandon_unclaimed E (abandon_running E (runs L)),
                 processes := []\<rparr> in
      case insert_processes preserved L1 of
        Inl e \<Rightarrow> Inl e
      | Inr L2 \<Rightarrow> Inr (fold recover_event (recovered_projects L) L2, count))"

definition clear_active_processes_after_review :: "ledger \<Rightarrow> ledger ledger_result" where
  "clear_active_processes_after_review L = Inr (L\<lparr>processes := []\<rparr>)"

definition clear_processes :: "str \<Rightarrow> ledger \<Rightarrow> ledger ledger_result" where
  "clear_processes run L = Inr (delete_processes run L)"

definition process_owned :: "ledger \<Rightarrow> active_process \<Rightarrow> bool" where
  "process_owned L a =
     list_ex (\<lambda>r. rn_id r = ap_run a \<and> rn_status r = ''running'' \<and> rn_job r = Some (ap_job a) \<and>
       list_ex (\<lambda>j. jb_id j = ap_job a \<and> jb_project j = rn_project r) (jobs L)) (runs L)"

definition register_process :: "active_process \<Rightarrow> ledger \<Rightarrow> ledger ledger_result" where
  "register_process a L =
     (if \<not> process_owned L a then Inl Invalid_Query
      else if \<not> sqlite_optional_fits (ap_start_ticks a) then Inl Invalid_Query
      else Inr (L\<lparr>processes :=
             (if list_ex (\<lambda>b. ap_run b = ap_run a \<and> ap_job b = ap_job a) (processes L)
              then update_rows (\<lambda>b. ap_run b = ap_run a \<and> ap_job b = ap_job a) (\<lambda>_. a) (processes L)
              else processes L @ [a])\<rparr>))"

section \<open>Audit runs, acceptance and engine versions\<close>

definition hex_digest :: "str \<Rightarrow> bool" where
  "hex_digest v \<longleftrightarrow> length v = 64 \<and> list_all is_ascii_hexdigit v"

definition valid_utc_scan_timestamp :: "str \<Rightarrow> bool" where
  "valid_utc_scan_timestamp v \<longleftrightarrow>
     length v = 24 \<and> v ! 4 = CHR ''-'' \<and> v ! 7 = CHR ''-'' \<and> v ! 10 = CHR ''T'' \<and> v ! 13 = CHR '':'' \<and>
     v ! 16 = CHR '':'' \<and> v ! 19 = CHR ''.'' \<and> v ! 23 = CHR ''Z'' \<and>
     list_all (\<lambda>i. i \<in> set [4, 7, 10, 13, 16, 19, 23] \<or> is_ascii_digit (v ! i)) [0..<24]"

definition timestamp_ok :: "str option \<Rightarrow> bool" where
  "timestamp_ok t = (case t of None \<Rightarrow> True | Some v \<Rightarrow> valid_utc_scan_timestamp v)"

definition folder_observation_ok :: "folder_observation \<Rightarrow> bool" where
  "folder_observation_ok f \<longleftrightarrow>
     hex_digest (fo_digest f) \<and> fo_scan_started_at f \<noteq> None \<and> timestamp_ok (fo_scan_started_at f) \<and>
     fo_complete f = (fo_scan_completed_at f \<noteq> None) \<and> timestamp_ok (fo_scan_completed_at f) \<and>
     timestamp_ok (fo_source_revalidated_at f) \<and> timestamp_ok (fo_destination_revalidated_at f)"

definition folder_fits :: "folder_observation \<Rightarrow> bool" where
  "folder_fits f \<longleftrightarrow>
     list_all sqlite_fits [fo_uidvalidity f, fo_uidnext f, fo_exists f, fo_verified_through_uid f, fo_staged_messages f]"

fun insert_verification_folders :: "str \<Rightarrow> folder_observation list \<Rightarrow> ledger \<Rightarrow> ledger ledger_result" where
  "insert_verification_folders run [] L = Inr L"
| "insert_verification_folders run (f # fs) L =
     (if \<not> folder_fits f then Inl Invalid_Query
      else if list_ex (\<lambda>(r, g). r = run \<and> fo_side g = fo_side f \<and> fo_digest g = fo_digest f) (verification_folders L)
      then Inl Constraint_Violation
      else insert_verification_folders run fs (L\<lparr>verification_folders := verification_folders L @ [(run, f)]\<rparr>))"

definition refuse_audit_mismatch :: "str \<Rightarrow> str \<Rightarrow> message_mismatch \<Rightarrow> ledger_error option" where
  "refuse_audit_mismatch j run m =
     (if mm_job m \<noteq> j \<or> mm_run m \<noteq> run \<or> mm_id m = []
      then Some (Ledger_Rejection ''a mismatch row belongs to a different run or has no identity'')
      else if \<not> mismatch_fits m then Some Invalid_Query
      else None)"

definition finish_verification_only_run ::
  "environment \<Rightarrow> str \<Rightarrow> str \<Rightarrow> str \<Rightarrow> evidence \<Rightarrow> message_mismatch list \<Rightarrow> folder_observation list \<Rightarrow> str \<Rightarrow>
     ledger \<Rightarrow> ledger ledger_result" where
  "finish_verification_only_run E p j run v ms folders detail_text L =
     (let out = verification_outcome v; detail = bounded_event_detail detail_text in
      if exact_outcome out \<and> \<not> exact_label_is_consistent v out
      then Inl (Ledger_Rejection ''an exact verification label contradicts the evidence counters'')
      else if \<not> list_all folder_observation_ok folders then Inl Invalid_Query
      else let target = (\<lambda>r. rn_id r = run \<and> rn_project r = p \<and> rn_job r = Some j \<and> rn_status r = ''running'') in
           if count_rows target (runs L) \<noteq> 1 then Inl No_Rows
           else (case insert_verification_folders run folders
                        (L\<lparr>runs := update_rows target (finish_row E ''completed'' detail) (runs L)\<rparr>) of
                   Inl e \<Rightarrow> Inl e
                 | Inr L1 \<Rightarrow>
                     if \<not> evidence_fits v then Inl Invalid_Query
                     else let L2 = L1\<lparr>evidence_history := evidence_history L1 @ [evidence_row_of E j run v out (authoritative v)]\<rparr> in
                     (case (case ev_flags v of
                              None \<Rightarrow> Inr L2
                            | Some f \<Rightarrow>
                                if \<not> flags_consistent f \<or> \<not> flags_fit f then Inl Invalid_Query
                                else if list_ex (\<lambda>g. fl_job g = j \<and> fl_run g = run) (flag_table L2) then Inl Constraint_Violation
                                else Inr (L2\<lparr>flag_table := flag_table L2 @ [\<lparr>fl_job = j, fl_run = run, fl_flags = f\<rparr>]\<rparr>)) of
                        Inl e \<Rightarrow> Inl e
                      | Inr L3 \<Rightarrow>
                          (case insert_mismatches E (refuse_audit_mismatch j run) p j run ms (clear_mismatches j run L3) of
                             Inl e \<Rightarrow> Inl e
                           | Inr L4 \<Rightarrow> Inr (add_event p (Some run) ''verification_finished'' detail L4)))))"

definition flags_complete :: "ledger \<Rightarrow> evidence_row \<Rightarrow> bool" where
  "flags_complete L h =
     (case find (\<lambda>f. fl_job f = er_job h \<and> fl_run f = er_run h) (flag_table L) of
        None \<Rightarrow> True
      | Some f \<Rightarrow>
          mismatched_messages (fl_flags f) = 0 \<and> excepted_messages (fl_flags f) = 0 \<and>
          compared_messages (fl_flags f) = source_messages (er_value h))"

definition stale_managed_run :: "ledger \<Rightarrow> str \<Rightarrow> str \<Rightarrow> str \<Rightarrow> bool" where
  "stale_managed_run L p j run =
     (case cutover_of L p of
        None \<Rightarrow> False
      | Some c \<Rightarrow>
          cw_stage c = ''verification'' \<and>
          map_option er_run (find (\<lambda>e. er_job e = j) (evidence_table L)) \<noteq> Some run)"

definition accept_verification_difference ::
  "environment \<Rightarrow> str \<Rightarrow> str \<Rightarrow> str \<Rightarrow> str \<Rightarrow> ledger \<Rightarrow> ledger ledger_result" where
  "accept_verification_difference E p j operator reason_text L =
     (case single_line_audit_text operator 256 of
        None \<Rightarrow> Inl Invalid_Query
      | Some who \<Rightarrow>
          (case single_line_audit_text reason_text 4096 of
             None \<Rightarrow> Inl Invalid_Query
           | Some reason \<Rightarrow>
          (case (project_of L p, job_of L p j) of
             (Some pj, Some jb) \<Rightarrow>
               if jb_state jb \<noteq> ''verification_difference'' \<or> pj_phase pj = phase_as_str Phase_Complete then Inl Invalid_Query
               else (case latest_row (filter (\<lambda>h. er_job h = j) (evidence_history L)) of
                  None \<Rightarrow> Inl No_Rows
                | Some h \<Rightarrow>
                    if stale_managed_run L p j (er_run h)
                    then Inl (Ledger_Rejection ''managed cutover exceptions must be accepted against the current final-verification evidence; rerun final verification before accepting'')
                    else if flags_complete L h \<and> er_outcome h \<in> set [''exact_body_match'', ''exact_metadata_match'']
                    then Inl Invalid_Query
                    else let target = (\<lambda>r. jb_id r = j \<and> jb_project r = p \<and> jb_state r = ''verification_difference'') in
                         if count_rows target (jobs L) \<noteq> 1 then Inl No_Rows
                         else (case maybe_emit_cutover_ready E p
                                 (L\<lparr>acceptances := acceptances L @ [\<lparr>va_job_id = j, va_run_id = er_run h,
                                       va_operator = who, va_reason = reason, va_accepted_at = current_timestamp E\<rparr>],
                                    jobs := update_rows target
                                       (\<lambda>r. r\<lparr>jb_state := ''verified_with_exceptions'', jb_attention_reason := None\<rparr>) (jobs L)\<rparr>) of
                            Inl e \<Rightarrow> Inl e
                          | Inr L1 \<Rightarrow>
                              let L2 = (if pj_phase pj = phase_as_str Phase_Verification \<and> cutover_of L1 p = None \<and>
                                           all_mailboxes_accepted L1 p
                                        then add_event p None ''phase_changed'' ''complete'' (set_phase p ''complete'' L1)
                                        else L1) in
                              Inr (add_event p None ''verification_exception_accepted''
                                (bounded_event_detail (j @ '': accepted by '' @ who @ '': '' @ reason)) L2)))
           | _ \<Rightarrow> Inl No_Rows)))"

definition record_engine_version :: "str \<Rightarrow> str \<Rightarrow> ledger \<Rightarrow> ledger ledger_result" where
  "record_engine_version run version_text L =
     (let version = trim version_text in
      if version = [] \<or> length version > 512 \<or> has_control version then Inl Invalid_Query
      else if \<not> list_ex (\<lambda>r. rn_id r = run) (runs L) then Inl No_Rows
      else Inr (L\<lparr>engine_versions :=
             (if list_ex (\<lambda>(r, v). r = run) (engine_versions L)
              then update_rows (\<lambda>(r, v). r = run) (\<lambda>(r, v). (r, version)) (engine_versions L)
              else engine_versions L @ [(run, version)])\<rparr>))"

section \<open>Deadlines and capacity recorded in events\<close>

definition RETRY_SCHEDULED_EVENT :: str where "RETRY_SCHEDULED_EVENT = ''retry_scheduled''"
definition NOT_BEFORE_FIELD :: str where "NOT_BEFORE_FIELD = ''; not_before_unix=''"

definition retry_scheduled_detail :: "nat \<Rightarrow> nat \<Rightarrow> str \<Rightarrow> nat \<Rightarrow> str" where
  "retry_scheduled_detail attempt max_retries failure not_before =
     ''retry '' @ nat_to_string attempt @ '' of '' @ nat_to_string max_retries @ '' after '' @ failure @
     NOT_BEFORE_FIELD @ nat_to_string not_before"

definition retry_deadline :: "str \<Rightarrow> nat option" where
  "retry_deadline detail =
     (case rsplit_once NOT_BEFORE_FIELD detail of None \<Rightarrow> None | Some (_, at_text) \<Rightarrow> parse_u64 at_text)"

definition event_job :: "ledger \<Rightarrow> event_row \<Rightarrow> str option" where
  "event_job L e =
     (case evt_run e of
        None \<Rightarrow> None
      | Some q \<Rightarrow> (case find (\<lambda>r. rn_id r = q) (runs L) of None \<Rightarrow> None | Some r \<Rightarrow> rn_job r))"

text \<open>The hash map of the code as an association list, the newest entry of a mailbox first.\<close>

definition latest_deadlines :: "ledger \<Rightarrow> str \<Rightarrow> (str \<times> nat) list" where
  "latest_deadlines L p =
     List.map_filter (\<lambda>e.
       if evt_project e = p \<and> evt_kind e = RETRY_SCHEDULED_EVENT
       then (case (event_job L e, retry_deadline (evt_detail e)) of (Some j, Some t) \<Rightarrow> Some (j, t) | _ \<Rightarrow> None)
       else None) (rev (events L))"

definition pending_retry_deadlines :: "ledger \<Rightarrow> str \<Rightarrow> nat \<Rightarrow> str \<Rightarrow> nat option" where
  "pending_retry_deadlines L p now_unix j =
     (case map_of (latest_deadlines L p) j of
        None \<Rightarrow> None
      | Some t \<Rightarrow> if t > now_unix then Some t else None)"

definition VERIFICATION_CAPACITY_EVENT :: str where "VERIFICATION_CAPACITY_EVENT = ''verification_capacity''"
definition MAX_VERIFICATION_CAPACITY_DETAIL_BYTES :: nat where "MAX_VERIFICATION_CAPACITY_DETAIL_BYTES = 1000"

definition verification_capacity_detail :: "str \<Rightarrow> str \<Rightarrow> str" where
  "verification_capacity_detail status explanation =
     status @ '': '' @
     take (boundary_down explanation (min (length explanation) MAX_VERIFICATION_CAPACITY_DETAIL_BYTES)) explanation"

definition latest_verification_capacity :: "ledger \<Rightarrow> str \<Rightarrow> str \<Rightarrow> (str \<times> str) option" where
  "latest_verification_capacity L p j =
     map_of (List.map_filter (\<lambda>e.
       if evt_project e = p \<and> evt_kind e = VERIFICATION_CAPACITY_EVENT
       then (case (event_job L e, split_once '': '' (evt_detail e)) of (Some q, Some v) \<Rightarrow> Some (q, v) | _ \<Rightarrow> None)
       else None) (rev (events L))) j"

end
