(* ===== verification/Ledger_Events.thy ===== *)
theory Ledger_Events
  imports Ledger_Ops
begin

text \<open>
  The event log's writers of \<^verbatim>\<open>src/src/core/events.rs\<close>, and the deadline of a scheduled retry read back from it.
  How SQLite compares the \<^verbatim>\<open>attempt\<close> fields of two JSON details is the parameter \<open>superseded\<close>: \<open>None\<close> when the
  comparison raises, \<open>Some True\<close> when the older detail belongs to the same attempt.
\<close>

section \<open>Recording\<close>

definition record_event :: "str \<Rightarrow> str \<Rightarrow> str \<Rightarrow> ledger \<Rightarrow> ledger ledger_result" where
  "record_event p kind detail L =
     (if kind = ''run_output'' then Inr L
      else if project_of L p = None then Inl Constraint_Violation
      else Inr (add_event p None kind (bounded_event_detail detail) L))"

definition recordable :: "ledger \<Rightarrow> str \<Rightarrow> bool" where
  "recordable L run =
     list_ex (\<lambda>r. rn_id r = run \<and>
       (rn_status r = ''running'' \<or>
        (rn_status r = ''queued'' \<and>
         (case rn_parent r of
            None \<Rightarrow> False
          | Some q \<Rightarrow> list_ex (\<lambda>s. rn_id s = q \<and> rn_status s = ''running'') (runs L))))) (runs L)"

definition dropped_count_ok :: "str \<Rightarrow> bool" where
  "dropped_count_ok detail \<longleftrightarrow>
     list_all is_ascii_digit detail \<and> (case parse_u64 detail of None \<Rightarrow> False | Some n \<Rightarrow> n \<noteq> 0)"

definition CHECKPOINT_EVENT :: str where "CHECKPOINT_EVENT = ''transfer_progress_checkpoint''"

fun prune_checkpoints :: "(str \<Rightarrow> str \<Rightarrow> bool option) \<Rightarrow> str \<Rightarrow> str \<Rightarrow> event_row list \<Rightarrow> event_row list option" where
  "prune_checkpoints superseded run detail [] = Some []"
| "prune_checkpoints superseded run detail (e # es) =
     (if evt_run e = Some run \<and> evt_kind e = CHECKPOINT_EVENT
      then (case superseded (evt_detail e) detail of
              None \<Rightarrow> None
            | Some old \<Rightarrow>
                map_option (\<lambda>kept. if old then kept else e # kept) (prune_checkpoints superseded run detail es))
      else map_option ((#) e) (prune_checkpoints superseded run detail es))"

definition run_project :: "ledger \<Rightarrow> str \<Rightarrow> str" where
  "run_project L run = (case find (\<lambda>r. rn_id r = run) (runs L) of None \<Rightarrow> [] | Some r \<Rightarrow> rn_project r)"

fun record_events_for_runs_batch ::
  "(str \<Rightarrow> str \<Rightarrow> bool option) \<Rightarrow> (str \<times> str \<times> str) list \<Rightarrow> ledger \<Rightarrow> ledger ledger_result" where
  "record_events_for_runs_batch superseded [] L = Inr L"
| "record_events_for_runs_batch superseded ((run, kind, detail_text) # es) L =
     (if kind = ''diagnostic_lines_dropped'' \<and> \<not> dropped_count_ok detail_text then Inl Invalid_Query
      else if \<not> recordable L run then Inl Invalid_Query
      else if kind = ''run_output'' then record_events_for_runs_batch superseded es L
      else let detail = bounded_event_detail detail_text in
           case (if kind = CHECKPOINT_EVENT then prune_checkpoints superseded run detail (events L) else Some (events L)) of
             None \<Rightarrow> Inl Invalid_Query
           | Some kept \<Rightarrow>
               record_events_for_runs_batch superseded es
                 (add_event (run_project L run) (Some run) kind detail (L\<lparr>events := kept\<rparr>)))"

lemma record_events_frame:
  "record_events_for_runs_batch superseded es L = Inr L' \<Longrightarrow> \<exists>ev. L' = L\<lparr>events := ev\<rparr>"
proof (induction superseded es L rule: record_events_for_runs_batch.induct)
  case (1 superseded L)
  then show ?case by (auto intro: exI [of _ "events L"])
next
  case (2 superseded run kind d es L)
  show ?case
  proof (cases "kind = ''run_output''")
    case True
    then show ?thesis using 2 by (auto split: if_splits)
  next
    case False
    then obtain kept where k: "(if kind = CHECKPOINT_EVENT then prune_checkpoints superseded run (bounded_event_detail d) (events L)
          else Some (events L)) = Some kept"
      and go: "record_events_for_runs_batch superseded es (add_event (run_project L run) (Some run) kind (bounded_event_detail d)
          (L\<lparr>events := kept\<rparr>)) = Inr L'"
      and g: "\<not> (kind = ''diagnostic_lines_dropped'' \<and> \<not> dropped_count_ok d)" "\<not> \<not> recordable L run"
      using "2.prems" by (auto simp: Let_def split: if_splits option.splits)
    from "2.IH"(2) [OF g False refl k go] show ?thesis by (auto simp: add_event_def)
  qed
qed

section \<open>Retry deadlines\<close>

lemma rsplit_once_append:
  assumes "rsplit_once sep t = Some (a, b)"
  shows "rsplit_once sep (s @ t) = Some (s @ a, b)"
  using assms by (induction s) auto

lemma rsplit_once_none: "c \<notin> set s \<Longrightarrow> rsplit_once (c # cs) s = None"
  by (induction s) (auto simp: starts_with_take)

lemma rsplit_once_marker:
  assumes "c \<notin> set cs" "c \<notin> set b"
  shows "rsplit_once (c # cs) (a @ (c # cs) @ b) = Some (a, b)"
proof -
  have "rsplit_once (c # cs) (cs @ b) = None" using assms by (intro rsplit_once_none) simp
  then have "rsplit_once (c # cs) ((c # cs) @ b) = Some ([], b)" by (simp add: starts_with_take)
  from rsplit_once_append [OF this, of a] show ?thesis by simp
qed

lemma retry_deadline_detail:
  assumes "t \<le> u64_max"
  shows "retry_deadline (retry_scheduled_detail a m f t) = Some t"
proof -
  have "\<not> is_ascii_digit CHR '';''" by code_simp
  then have "CHR '';'' \<notin> set (nat_to_string t)" using nat_to_string_digits by blast
  then have "rsplit_once NOT_BEFORE_FIELD ((''retry '' @ nat_to_string a @ '' of '' @ nat_to_string m @ '' after '' @ f) @
      NOT_BEFORE_FIELD @ nat_to_string t) =
      Some (''retry '' @ nat_to_string a @ '' of '' @ nat_to_string m @ '' after '' @ f, nat_to_string t)"
    unfolding NOT_BEFORE_FIELD_def by (intro rsplit_once_marker) simp_all
  then show ?thesis using assms
    by (simp add: retry_deadline_def retry_scheduled_detail_def parse_u64_def parse_unsigned_nat_to_string)
qed



end
