(* ===== verification/Ledger_Queue.thy ===== *)
theory Ledger_Queue
  imports Ledger_Events
begin

text \<open>
  Batch queues, from \<^verbatim>\<open>src/src/core/queue.rs\<close>: a project created with all its mailboxes in one transaction,
  with the shared plans stored once per content, and the replacement of the per-row plan deltas. The identifiers
  drawn for the rows and for the plans are the arguments \<open>job_id\<close> and \<open>plan_id\<close>. A shared plan is an allocation
  (\<^verbatim>\<open>Arc::as_ptr\<close>, a number) with its text. The page cache and the search index have no part in the model.
\<close>

record queue_insert =
  qi_source_mailbox :: str
  qi_destination_mailbox :: str
  qi_destination_identity :: str
  qi_config :: str
  qi_batch_plan_config :: "(nat \<times> str) option"
  qi_row_overrides :: "str option"
  qi_facts :: queue_facts_row

definition MAX_TOTAL_PERSISTED_PROFILE_BYTES :: nat where
  "MAX_TOTAL_PERSISTED_PROFILE_BYTES = 256 * 1024 * 1024"

definition MAX_DURABLE_MAILBOX_ROWS :: nat where "MAX_DURABLE_MAILBOX_ROWS = 100000"

text \<open>The size checks: an allocation counts once, a plan of its own counts for each row.\<close>

fun plan_bytes_ok :: "nat list \<Rightarrow> nat \<Rightarrow> nat \<Rightarrow> queue_insert list \<Rightarrow> bool" where
  "plan_bytes_ok seen shared own [] = True"
| "plan_bytes_ok seen shared own (row # rows) =
     (case qi_batch_plan_config row of
        Some (allocation, config) \<Rightarrow>
          length config \<le> MAX_PERSISTED_PROFILE_BYTES \<and>
          (let shared' = (if allocation \<in> set seen then shared else shared + length config) in
           shared' \<le> MAX_TOTAL_PERSISTED_PROFILE_BYTES \<and>
           own \<le> MAX_TOTAL_PERSISTED_PROFILE_BYTES \<and>
           plan_bytes_ok (allocation # seen) shared' own rows)
      | None \<Rightarrow>
          length (qi_config row) \<le> MAX_PERSISTED_PROFILE_BYTES \<and>
          own + length (qi_config row) \<le> MAX_TOTAL_PERSISTED_PROFILE_BYTES \<and>
          plan_bytes_ok seen shared (own + length (qi_config row)) rows)"

text \<open>The plans: by allocation first, then by digest; a new digest is stored under a new identifier.\<close>

fun store_plans ::
  "environment \<Rightarrow> str \<Rightarrow> (nat \<Rightarrow> str) \<Rightarrow> nat \<Rightarrow> (nat \<times> str) list \<Rightarrow> (str \<times> str) list \<Rightarrow> queue_insert list \<Rightarrow>
     ledger \<Rightarrow> ((nat \<times> str) list \<times> ledger) ledger_result" where
  "store_plans E p plan_id i by_allocation by_digest [] L = Inr (by_allocation, L)"
| "store_plans E p plan_id i by_allocation by_digest (row # rows) L =
     (case qi_batch_plan_config row of
        None \<Rightarrow> store_plans E p plan_id (Suc i) by_allocation by_digest rows L
      | Some (allocation, config) \<Rightarrow>
          if map_of by_allocation allocation \<noteq> None
          then store_plans E p plan_id (Suc i) by_allocation by_digest rows L
          else let digest = sha256_hex E config in
               case map_of by_digest digest of
                 Some known \<Rightarrow>
                   store_plans E p plan_id (Suc i) ((allocation, known) # by_allocation) by_digest rows L
               | None \<Rightarrow>
                   if list_ex (\<lambda>b. bt_id b = plan_id i) (batch_plans L) then Inl Constraint_Violation
                   else store_plans E p plan_id (Suc i) ((allocation, plan_id i) # by_allocation)
                          ((digest, plan_id i) # by_digest) rows
                          (L\<lparr>batch_plans := batch_plans L @ [\<lparr>bt_id = plan_id i, bt_project = p, bt_config = config\<rparr>]\<rparr>))"

definition queue_job :: "str \<Rightarrow> str \<Rightarrow> (nat \<times> str) list \<Rightarrow> queue_insert \<Rightarrow> job_row" where
  "queue_job p j plan_ids row =
     \<lparr>jb_id = j, jb_project = p, jb_source = qi_source_mailbox row, jb_destination = qi_destination_mailbox row,
      jb_identity = qi_destination_identity row, jb_state = ''queued'', jb_attempt = 0, jb_checkpoint = None,
      jb_preflight_plan = None,
      jb_config = (if qi_batch_plan_config row \<noteq> None then None else Some (qi_config row)), jb_attention_reason = None,
      jb_batch_plan = (case qi_batch_plan_config row of None \<Rightarrow> None | Some (allocation, _) \<Rightarrow> map_of plan_ids allocation),
      jb_overrides = qi_row_overrides row\<rparr>"

fun insert_queue_rows ::
  "str \<Rightarrow> (nat \<Rightarrow> str) \<Rightarrow> (nat \<times> str) list \<Rightarrow> nat \<Rightarrow> queue_insert list \<Rightarrow> ledger \<Rightarrow> ledger ledger_result" where
  "insert_queue_rows p job_id plan_ids i [] L = Inr L"
| "insert_queue_rows p job_id plan_ids i (row # rows) L =
     (if list_ex (\<lambda>r. jb_id r = job_id i) (jobs L) then Inl Constraint_Violation
      else insert_queue_rows p job_id plan_ids (Suc i) rows
             (L\<lparr>jobs := jobs L @ [queue_job p (job_id i) plan_ids row],
                queue_facts := queue_facts L @ [(qi_facts row)\<lparr>qf_job := job_id i\<rparr>]\<rparr>))"

definition create_batch_queue ::
  "environment \<Rightarrow> str \<Rightarrow> (nat \<Rightarrow> str) \<Rightarrow> (nat \<Rightarrow> str) \<Rightarrow> str \<Rightarrow> str \<Rightarrow> str \<Rightarrow> queue_insert list \<Rightarrow> ledger \<Rightarrow> ledger ledger_result" where
  "create_batch_queue E p job_id plan_id name source destination rows L =
     (if rows = [] \<or> length rows > MAX_DURABLE_MAILBOX_ROWS then Inl Invalid_Query
      else if \<not> plan_bytes_ok [] 0 0 rows then Inl Invalid_Query
      else if \<not> distinct (map qi_destination_identity rows) then Inl Invalid_Query
      else if project_of L p \<noteq> None then Inl Constraint_Violation
      else case store_plans E p plan_id 0 [] [] rows
             (L\<lparr>projects := projects L @ [\<lparr>pj_id = p, pj_name = name, pj_source = source,
                  pj_destination = destination, pj_phase = phase_as_str Phase_Discovery\<rparr>]\<rparr>) of
             Inl e \<Rightarrow> Inl e
           | Inr (plan_ids, L1) \<Rightarrow>
               (case insert_queue_rows p job_id plan_ids 0 rows L1 of
                  Inl e \<Rightarrow> Inl e
                | Inr L2 \<Rightarrow>
                    Inr (add_event p None ''project_created''
                      (''Batch created with '' @ nat_to_string (length rows) @ '' mailbox jobs'') L2)))"

fun apply_plan_updates :: "str \<Rightarrow> (str \<times> str \<times> queue_facts_row) list \<Rightarrow> ledger \<Rightarrow> ledger option" where
  "apply_plan_updates p [] L = Some L"
| "apply_plan_updates p ((j, overrides, facts) # updates) L =
     (let mailbox = (\<lambda>r. jb_project r = p \<and> jb_id r = j) in
      if \<not> list_ex mailbox (jobs L) then None
      else apply_plan_updates p updates
             (L\<lparr>jobs := update_rows mailbox (\<lambda>r. r\<lparr>jb_overrides := Some overrides, jb_preflight_plan := None\<rparr>) (jobs L),
                queue_facts := (if list_ex (\<lambda>f. qf_job f = j) (queue_facts L)
                                then update_rows (\<lambda>f. qf_job f = j) (\<lambda>_. facts\<lparr>qf_job := j\<rparr>) (queue_facts L)
                                else queue_facts L @ [facts\<lparr>qf_job := j\<rparr>])\<rparr>))"

definition update_queue_plans :: "str \<Rightarrow> (str \<times> str \<times> queue_facts_row) list \<Rightarrow> ledger \<Rightarrow> (ledger \<times> nat) ledger_result" where
  "update_queue_plans p updates L =
     (if list_ex (\<lambda>(_, overrides, _). length overrides > MAX_PERSISTED_PROFILE_BYTES) updates then Inl Invalid_Query
      else if list_ex (\<lambda>r. rn_project r = p \<and> active_run r) (runs L) then Inl Invalid_Query
      else case apply_plan_updates p updates L of
             None \<Rightarrow> Inl Invalid_Query
           | Some L1 \<Rightarrow> Inr (L1, length updates))"

section \<open>What a new queue holds\<close>

lemma store_plans_frame:
  "store_plans E p plan_id i ba bd rows L = Inr (m, L') \<Longrightarrow> \<exists>bs. L' = L\<lparr>batch_plans := bs\<rparr>"
proof (induction rows arbitrary: i ba bd L)
  case Nil
  then show ?case by (auto intro: exI [of _ "batch_plans L"])
next
  case (Cons row rows)
  have "\<exists>i' ba' bd' bs. store_plans E p plan_id i' ba' bd' rows (L\<lparr>batch_plans := bs\<rparr>) = Inr (m, L')"
  proof (cases "\<exists>a c. qi_batch_plan_config row = Some (a, c) \<and> map_of ba a = None \<and> map_of bd (sha256_hex E c) = None")
    case True
    then obtain a c where "store_plans E p plan_id (Suc i) ((a, plan_id i) # ba) ((sha256_hex E c, plan_id i) # bd) rows
        (L\<lparr>batch_plans := batch_plans L @ [\<lparr>bt_id = plan_id i, bt_project = p, bt_config = c\<rparr>]\<rparr>) = Inr (m, L')"
      using Cons.prems by (auto simp: Let_def split: if_splits)
    then show ?thesis by blast
  next
    case False
    then have "\<exists>i' ba' bd'. store_plans E p plan_id i' ba' bd' rows L = Inr (m, L')"
      using Cons.prems by (cases "qi_batch_plan_config row") (fastforce simp: Let_def split: option.splits if_splits)+
    then show ?thesis by (metis (no_types) ledger.surjective ledger.update_convs(17))
  qed
  then obtain i' ba' bd' bs where "store_plans E p plan_id i' ba' bd' rows (L\<lparr>batch_plans := bs\<rparr>) = Inr (m, L')" by blast
  from Cons.IH [OF this] show ?case by simp
qed

text \<open>The rows of a new queue: fresh identifiers, waiting, in the order given.\<close>

definition adds_queued_jobs :: "ledger \<Rightarrow> ledger \<Rightarrow> bool" where
  "adds_queued_jobs L L' \<longleftrightarrow>
     (\<exists>new. jobs L' = jobs L @ new \<and> list_all (\<lambda>b. jb_state b = ''queued'') new \<and>
        distinct (map jb_id new) \<and> set (map jb_id new) \<inter> set (map jb_id (jobs L)) = {})"

lemma insert_queue_rows_effect:
  "insert_queue_rows p job_id m i rows L = Inr L' \<Longrightarrow>
     adds_queued_jobs L L' \<and> (\<exists>js fs. L' = L\<lparr>jobs := js, queue_facts := fs\<rparr>)"
proof (induction rows arbitrary: i L)
  case Nil
  then have "L' = L\<lparr>jobs := jobs L, queue_facts := queue_facts L\<rparr>" "adds_queued_jobs L L'" by (simp_all add: adds_queued_jobs_def)
  then show ?case by blast
next
  case (Cons row rows)
  let ?b = "queue_job p (job_id i) m row"
  let ?M = "L\<lparr>jobs := jobs L @ [?b], queue_facts := queue_facts L @ [(qi_facts row)\<lparr>qf_job := job_id i\<rparr>]\<rparr>"
  have g: "insert_queue_rows p job_id m (Suc i) rows ?M = Inr L'" and f: "jb_id ?b \<notin> set (map jb_id (jobs L))"
    using Cons.prems by (auto simp: list_ex_iff queue_job_def split: if_splits)
  obtain new where new: "jobs L' = jobs ?M @ new" "list_all (\<lambda>b. jb_state b = ''queued'') new" "distinct (map jb_id new)"
    "set (map jb_id new) \<inter> set (map jb_id (jobs ?M)) = {}" using Cons.IH [OF g] unfolding adds_queued_jobs_def by blast
  have "jobs L' = jobs L @ (?b # new)" "list_all (\<lambda>b. jb_state b = ''queued'') (?b # new)"
    using new(1,2) by (simp_all add: queue_job_def)
  moreover have "distinct (map jb_id (?b # new))" "set (map jb_id (?b # new)) \<inter> set (map jb_id (jobs L)) = {}"
    using new(3,4) f by auto
  ultimately have "adds_queued_jobs L L'" unfolding adds_queued_jobs_def by blast
  moreover obtain js fs where "L' = ?M\<lparr>jobs := js, queue_facts := fs\<rparr>" using Cons.IH [OF g] by blast
  then have "L' = L\<lparr>jobs := js, queue_facts := fs\<rparr>" by simp
  ultimately show ?case by blast
qed

lemma create_batch_queue_InrD:
  assumes f: "create_batch_queue E p job_id plan_id name source destination rows L = Inr L'"
  shows "adds_queued_jobs L L'" "\<exists>pj. projects L' = projects L @ [pj]" "runs L' = runs L" "holds L' = holds L"
    "cutovers L' = cutovers L" "acceptances L' = acceptances L" "evidence_table L' = evidence_table L"
proof -
  obtain pj m L1 L2 where 1: "store_plans E p plan_id 0 [] [] rows (L\<lparr>projects := projects L @ [pj]\<rparr>) = Inr (m, L1)"
    and 2: "insert_queue_rows p job_id m 0 rows L1 = Inr L2"
    and e: "add_event p None ''project_created'' (''Batch created with '' @ nat_to_string (length rows) @ '' mailbox jobs'') L2 = L'"
    using f unfolding create_batch_queue_def guards by (elim exE conjE) (auto simp only: prod.case guards split: prod.splits)
  obtain bs where b: "L1 = L\<lparr>projects := projects L @ [pj], batch_plans := bs\<rparr>" using store_plans_frame [OF 1] by auto
  obtain js fs where L2: "L2 = L1\<lparr>jobs := js, queue_facts := fs\<rparr>" using insert_queue_rows_effect [OF 2] by blast
  have "jobs L1 = jobs L" "jobs L' = jobs L2" unfolding e [symmetric] by (simp_all add: b add_event_def)
  then show "adds_queued_jobs L L'" using insert_queue_rows_effect [OF 2] by (simp add: adds_queued_jobs_def)
  show "\<exists>pj. projects L' = projects L @ [pj]" "runs L' = runs L" "holds L' = holds L"
    "cutovers L' = cutovers L" "acceptances L' = acceptances L" "evidence_table L' = evidence_table L"
    unfolding e [symmetric] by (simp_all add: L2 b add_event_def)
qed

text \<open>A plan update changes the deltas and the preflight only.\<close>

definition keeps_identity :: "(job_row \<Rightarrow> job_row) \<Rightarrow> bool" where
  "keeps_identity g \<longleftrightarrow>
     (\<forall>b. jb_id (g b) = jb_id b \<and> jb_project (g b) = jb_project b \<and> jb_state (g b) = jb_state b \<and>
          jb_destination (g b) = jb_destination b \<and> jb_config (g b) = jb_config b)"

definition updates_deltas :: "ledger \<Rightarrow> ledger \<Rightarrow> bool" where
  "updates_deltas L L' \<longleftrightarrow>
     (\<exists>g. jobs L' = map g (jobs L) \<and> keeps_identity g) \<and> projects L' = projects L \<and> runs L' = runs L \<and>
     holds L' = holds L \<and> evidence_table L' = evidence_table L"

lemma updates_deltas_trans:
  assumes "updates_deltas A B" "updates_deltas B C"
  shows "updates_deltas A C"
proof -
  obtain g h where g: "jobs B = map g (jobs A)" "keeps_identity g" and h: "jobs C = map h (jobs B)" "keeps_identity h"
    using assms unfolding updates_deltas_def by blast
  then have "jobs C = map (\<lambda>b. h (g b)) (jobs A)" "keeps_identity (\<lambda>b. h (g b))" by (simp_all add: keeps_identity_def)
  then have "\<exists>k. jobs C = map k (jobs A) \<and> keeps_identity k" by blast
  then show ?thesis using assms by (simp add: updates_deltas_def)
qed

lemma apply_plan_updates_effect: "apply_plan_updates p us M = Some M' \<Longrightarrow> updates_deltas M M'"
proof (induction us arbitrary: M)
  case Nil
  then show ?case by (auto simp: updates_deltas_def keeps_identity_def intro: exI [of _ "\<lambda>b. b"])
next
  case (Cons u us)
  obtain j ov fa where u: "u = (j, ov, fa)" by (cases u) auto
  define N where "N = M\<lparr>jobs := update_rows (\<lambda>r. jb_project r = p \<and> jb_id r = j)
         (\<lambda>r. r\<lparr>jb_overrides := Some ov, jb_preflight_plan := None\<rparr>) (jobs M),
       queue_facts := (if list_ex (\<lambda>f. qf_job f = j) (queue_facts M)
         then update_rows (\<lambda>f. qf_job f = j) (\<lambda>_. fa\<lparr>qf_job := j\<rparr>) (queue_facts M)
         else queue_facts M @ [fa\<lparr>qf_job := j\<rparr>])\<rparr>"
  let ?g = "\<lambda>b. if jb_project b = p \<and> jb_id b = j then b\<lparr>jb_overrides := Some ov, jb_preflight_plan := None\<rparr> else b"
  have "jobs N = map ?g (jobs M) \<and> keeps_identity ?g" by (simp add: N_def update_rows_def keeps_identity_def)
  then have "\<exists>g. jobs N = map g (jobs M) \<and> keeps_identity g" by blast
  then have "updates_deltas M N" unfolding updates_deltas_def by (intro conjI) (assumption, simp_all add: N_def)
  moreover have "apply_plan_updates p us N = Some M'"
    using Cons.prems unfolding u apply_plan_updates.simps Let_def N_def [symmetric] by (simp split: if_splits)
  ultimately show ?case using Cons.IH updates_deltas_trans by blast
qed

lemma update_queue_plans_effect: "update_queue_plans p updates L = Inr (L', n) \<Longrightarrow> updates_deltas L L'"
  unfolding update_queue_plans_def by (auto split: if_splits option.splits intro: apply_plan_updates_effect)

end
