(* ===== verification/Ledger_Ownership.thy ===== *)
theory Ledger_Ownership
  imports Ledger_Queue
begin

text \<open>
  Who owns a mailbox: the invariant of the ledger that ties the mailbox states to the runs, stated on the
  two tables alone, and how the few kinds of change that the transactions make keep it. A transaction of
  the ledger is then a short argument that its effect is one of these changes.
\<close>

section \<open>The tables a transaction leaves alone\<close>

lemma update_rows_simps [simp]:
  "update_rows P f [] = []"
  "update_rows P f (r # rs) = (if P r then f r else r) # update_rows P f rs"
  "length (update_rows P f rs) = length rs"
  by (simp_all add: update_rows_def)

lemma set_update_rows: "set (update_rows P f rs) = (\<lambda>r. if P r then f r else r) ` set rs"
  by (simp add: update_rows_def)

lemma job_of_SomeD: "job_of L p j = Some b \<Longrightarrow> b \<in> set (jobs L) \<and> jb_id b = j \<and> jb_project b = p"
  unfolding job_of_def by (blast dest: find_SomeD)

lemma frame_add_event [simp]:
  "projects (add_event p r k d L) = projects L" "jobs (add_event p r k d L) = jobs L"
  "runs (add_event p r k d L) = runs L" "processes (add_event p r k d L) = processes L"
  "holds (add_event p r k d L) = holds L" "cutovers (add_event p r k d L) = cutovers L"
  "acceptances (add_event p r k d L) = acceptances L" "evidence_table (add_event p r k d L) = evidence_table L"
  "evidence_history (add_event p r k d L) = evidence_history L"
  "events (add_event p r k d L) = events L @ [\<lparr>evt_project = p, evt_run = r, evt_kind = k, evt_detail = d\<rparr>]"
  by (simp_all add: add_event_def)

lemma frame_delete_processes [simp]:
  "projects (delete_processes run L) = projects L" "jobs (delete_processes run L) = jobs L"
  "runs (delete_processes run L) = runs L" "holds (delete_processes run L) = holds L"
  "cutovers (delete_processes run L) = cutovers L" "acceptances (delete_processes run L) = acceptances L"
  "evidence_table (delete_processes run L) = evidence_table L" "events (delete_processes run L) = events L"
  by (simp_all add: delete_processes_def)

lemma frame_set_phase [simp]:
  "jobs (set_phase p ph L) = jobs L" "runs (set_phase p ph L) = runs L" "holds (set_phase p ph L) = holds L"
  "cutovers (set_phase p ph L) = cutovers L" "acceptances (set_phase p ph L) = acceptances L"
  "evidence_table (set_phase p ph L) = evidence_table L" "events (set_phase p ph L) = events L"
  by (simp_all add: set_phase_def)

lemma frame_settle_job [simp]:
  "projects (settle_job p j s re pl ck L) = projects L" "runs (settle_job p j s re pl ck L) = runs L"
  "holds (settle_job p j s re pl ck L) = holds L" "cutovers (settle_job p j s re pl ck L) = cutovers L"
  "acceptances (settle_job p j s re pl ck L) = acceptances L"
  "evidence_table (settle_job p j s re pl ck L) = evidence_table L" "events (settle_job p j s re pl ck L) = events L"
  by (simp_all add: settle_job_def)

lemma frame_mark_running [simp]:
  "projects (mark_running j L) = projects L" "runs (mark_running j L) = runs L" "holds (mark_running j L) = holds L"
  "cutovers (mark_running j L) = cutovers L" "acceptances (mark_running j L) = acceptances L"
  "evidence_table (mark_running j L) = evidence_table L" "events (mark_running j L) = events L"
  by (simp_all add: mark_running_def)

text \<open>The tables of the ownership invariant, and the ones the other guards read.\<close>

definition same_core :: "ledger \<Rightarrow> ledger \<Rightarrow> bool" where
  "same_core L L' \<longleftrightarrow>
     projects L' = projects L \<and> jobs L' = jobs L \<and> runs L' = runs L \<and> holds L' = holds L \<and>
     cutovers L' = cutovers L \<and> acceptances L' = acceptances L"

lemma same_core_refl [simp]: "same_core L L"
  by (simp add: same_core_def)

lemma same_core_trans: "same_core A B \<Longrightarrow> same_core B C \<Longrightarrow> same_core A C"
  by (simp add: same_core_def)

lemma same_core_add_event [simp]: "same_core L (add_event p r k d L)"
  by (simp add: same_core_def)

lemma same_core_invalidate [simp]: "same_core L (invalidate_cutover_readiness_for_new_run p j run L)"
  by (simp add: invalidate_cutover_readiness_for_new_run_def split: option.split)

lemma same_core_emit:
  assumes "maybe_emit_cutover_ready E p L = Inr L'"
  shows "same_core L L' \<and> evidence_table L' = evidence_table L \<and> evidence_history L' = evidence_history L"
  using assms
  by (auto simp: maybe_emit_cutover_ready_def Let_def split: option.splits prod.splits if_splits)

lemma same_core_mismatches:
  "insert_mismatches E f p j run ms L = Inr L' \<Longrightarrow>
     same_core L L' \<and> evidence_table L' = evidence_table L \<and> evidence_history L' = evidence_history L"
proof (induction ms arbitrary: L)
  case (Cons m ms)
  then have "same_core (L\<lparr>mismatches := mismatches L @ [stored_mismatch E p j run m]\<rparr>) L' \<and>
      evidence_table L' = evidence_table L \<and> evidence_history L' = evidence_history L"
    by (fastforce split: option.splits if_splits)
  then show ?case by (simp add: same_core_def)
qed simp

lemma same_core_projection:
  "upsert_evidence_projection E j run v out auth L = Inr L' \<Longrightarrow>
     same_core L L' \<and> evidence_history L' = evidence_history L"
  by (auto simp: upsert_evidence_projection_def same_core_def Let_def split: if_splits option.splits)

lemma same_core_folders: "insert_verification_folders run fs L = Inr L' \<Longrightarrow> same_core L L'"
proof (induction fs arbitrary: L)
  case (Cons f fs)
  then have "same_core (L\<lparr>verification_folders := verification_folders L @ [(run, f)]\<rparr>) L'"
    by (auto split: if_splits)
  then show ?case by (simp add: same_core_def)
qed simp

lemma evidence_folders: "insert_verification_folders run fs L = Inr L' \<Longrightarrow> evidence_table L' = evidence_table L"
  by (induction fs arbitrary: L) (fastforce split: if_splits)+

lemma same_core_processes: "insert_processes as L = Inr L' \<Longrightarrow> same_core L L'"
proof (induction as arbitrary: L)
  case (Cons a as)
  then have "same_core (L\<lparr>processes := processes L @ [a]\<rparr>) L'" by (auto split: if_splits)
  then show ?case by (simp add: same_core_def)
qed simp

lemma same_core_fold_recover: "same_core L (fold recover_event ps L)"
proof (induction ps arbitrary: L)
  case (Cons p ps)
  have "same_core L (recover_event p L)" by (simp add: recover_event_def)
  then show ?case using Cons [of "recover_event p L"] same_core_trans by (metis fold_simps(2))
qed simp

text \<open>The writers of the event log leave every other table alone.\<close>

lemma recording_same_core:
  "record_event p kind detail L = Inr L' \<Longrightarrow> same_core L L' \<and> evidence_table L' = evidence_table L"
  "record_events_for_runs_batch superseded es L = Inr L' \<Longrightarrow> same_core L L' \<and> evidence_table L' = evidence_table L"
proof -
  show "same_core L L' \<and> evidence_table L' = evidence_table L" if "record_event p kind detail L = Inr L'"
    using that by (auto simp: record_event_def split: if_splits)
  show "same_core L L' \<and> evidence_table L' = evidence_table L" if "record_events_for_runs_batch superseded es L = Inr L'"
    using record_events_frame [OF that] by (auto simp: same_core_def)
qed

section \<open>The invariant\<close>

definition mailbox_run :: "run_row \<Rightarrow> str \<Rightarrow> bool" where
  "mailbox_run r j \<longleftrightarrow> rn_job r = Some j \<and> active_run r"

definition transfer_run :: "run_row \<Rightarrow> bool" where
  "transfer_run r \<longleftrightarrow> rn_job r \<noteq> None \<and> rn_engine r \<noteq> VERIFICATION_ENGINE"

definition refs_ok :: "job_row list \<Rightarrow> run_row list \<Rightarrow> bool" where
  "refs_ok js rs \<longleftrightarrow>
     distinct (map jb_id js) \<and> distinct (map rn_id rs) \<and>
     (\<forall>r \<in> set rs. \<forall>j. rn_job r = Some j \<longrightarrow> (\<exists>b \<in> set js. jb_id b = j \<and> jb_project b = rn_project r))"

definition one_active :: "run_row list \<Rightarrow> bool" where
  "one_active rs \<longleftrightarrow>
     (\<forall>r \<in> set rs. \<forall>s \<in> set rs. \<forall>j. mailbox_run r j \<and> mailbox_run s j \<longrightarrow> r = s)"

definition owned :: "job_row list \<Rightarrow> run_row list \<Rightarrow> bool" where
  "owned js rs \<longleftrightarrow>
     (\<forall>b \<in> set js. jb_state b = ''running'' \<longrightarrow>
        (\<exists>r \<in> set rs. rn_job r = Some (jb_id b) \<and> rn_status r = ''running'' \<and> transfer_run r))"

definition parents_run :: "run_row list \<Rightarrow> bool" where
  "parents_run rs \<longleftrightarrow>
     (\<forall>r \<in> set rs. (rn_status r = ''queued'' \<longrightarrow> transfer_run r \<and> rn_parent r \<noteq> None) \<and>
        (\<forall>q. active_run r \<and> transfer_run r \<and> rn_parent r = Some q \<longrightarrow>
           (\<exists>s \<in> set rs. rn_id s = q \<and> rn_job s = None \<and> rn_status s = ''running'')))"

definition locks_ok :: "environment \<Rightarrow> job_row list \<Rightarrow> run_row list \<Rightarrow> bool" where
  "locks_ok E js rs \<longleftrightarrow>
     (\<forall>r \<in> set rs. \<forall>s \<in> set rs. \<forall>a \<in> set js. \<forall>b \<in> set js.
        mailbox_run r (jb_id a) \<and> mailbox_run s (jb_id b) \<and> jb_id a \<noteq> jb_id b \<and> job_lock E a = job_lock E b \<longrightarrow>
        rn_parent r = rn_parent s \<and> rn_parent r \<noteq> None)"

definition run_inv :: "environment \<Rightarrow> job_row list \<Rightarrow> run_row list \<Rightarrow> bool" where
  "run_inv E js rs \<longleftrightarrow> refs_ok js rs \<and> one_active rs \<and> owned js rs \<and> parents_run rs \<and> locks_ok E js rs"

section \<open>Changes that only end work\<close>

text \<open>
  \<open>ends g h js rs\<close>: the runs evolve by \<open>g\<close>, which keeps a run or ends it, the mailboxes by \<open>h\<close>, which never
  starts one; a mailbox still running keeps its run, and a run that is still active keeps its parent.
\<close>

definition keeps_run :: "(run_row \<Rightarrow> run_row) \<Rightarrow> bool" where
  "keeps_run g \<longleftrightarrow>
     (\<forall>r. rn_id (g r) = rn_id r \<and> rn_job (g r) = rn_job r \<and> rn_project (g r) = rn_project r \<and>
          rn_parent (g r) = rn_parent r \<and> rn_engine (g r) = rn_engine r \<and>
          (rn_status (g r) = rn_status r \<or> \<not> active_run (g r)))"

definition keeps_job :: "(job_row \<Rightarrow> job_row) \<Rightarrow> bool" where
  "keeps_job h \<longleftrightarrow>
     (\<forall>b. jb_id (h b) = jb_id b \<and> jb_project (h b) = jb_project b \<and>
          jb_destination (h b) = jb_destination b \<and> jb_config (h b) = jb_config b)"

definition ends :: "(run_row \<Rightarrow> run_row) \<Rightarrow> (job_row \<Rightarrow> job_row) \<Rightarrow> job_row list \<Rightarrow> run_row list \<Rightarrow> bool" where
  "ends g h js rs \<longleftrightarrow>
     keeps_run g \<and> keeps_job h \<and>
     (\<forall>b \<in> set js. jb_state (h b) = ''running'' \<longrightarrow> jb_state b = ''running'' \<and>
        (\<forall>r \<in> set rs. rn_job r = Some (jb_id b) \<and> rn_status r = ''running'' \<longrightarrow> rn_status (g r) = ''running'')) \<and>
     (\<forall>r \<in> set rs. \<forall>s \<in> set rs. active_run (g r) \<and> transfer_run r \<and> rn_parent r = Some (rn_id s) \<and> rn_job s = None \<longrightarrow>
        rn_status (g s) = rn_status s)"

lemma keeps_runD:
  assumes "keeps_run g"
  shows "rn_id (g r) = rn_id r" "rn_job (g r) = rn_job r" "rn_project (g r) = rn_project r"
    "rn_parent (g r) = rn_parent r" "rn_engine (g r) = rn_engine r" "transfer_run (g r) = transfer_run r"
    "active_run (g r) \<Longrightarrow> rn_status (g r) = rn_status r" "active_run (g r) \<Longrightarrow> active_run r"
    "mailbox_run (g r) j \<Longrightarrow> mailbox_run r j"
  using assms unfolding keeps_run_def transfer_run_def mailbox_run_def active_run_def by metis+

lemma keeps_jobD:
  assumes "keeps_job h"
  shows "jb_id (h b) = jb_id b" "jb_project (h b) = jb_project b" "job_lock E (h b) = job_lock E b"
  using assms by (simp_all add: keeps_job_def job_lock_def)

lemma queued_active: "rn_status r = ''queued'' \<Longrightarrow> active_run r" "rn_status r = ''running'' \<Longrightarrow> active_run r"
  by (simp_all add: active_run_def active_status_def)

lemma locks_ok_map:
  assumes l: "locks_ok E js rs" and h: "keeps_job h"
    and g: "\<And>r j. mailbox_run (g r) j \<Longrightarrow> mailbox_run r j" "\<And>r. rn_parent (g r) = rn_parent r"
  shows "locks_ok E (map h js) (map g rs)"
proof (unfold locks_ok_def, intro ballI impI)
  note hD = keeps_jobD [OF h]
  fix r' s' a' b'
  assume s: "r' \<in> set (map g rs)" "s' \<in> set (map g rs)" "a' \<in> set (map h js)" "b' \<in> set (map h js)"
    and c: "mailbox_run r' (jb_id a') \<and> mailbox_run s' (jb_id b') \<and> jb_id a' \<noteq> jb_id b' \<and> job_lock E a' = job_lock E b'"
  then obtain r s a b where "r \<in> set rs" "s \<in> set rs" "a \<in> set js" "b \<in> set js"
    and m: "r' = g r" "s' = g s" "a' = h a" "b' = h b" by auto
  then show "rn_parent r' = rn_parent s' \<and> rn_parent r' \<noteq> None"
    using l c g(1) unfolding locks_ok_def m hD g(2) by blast
qed

lemma keeps_job_id [simp]: "keeps_job (\<lambda>b. b)"
  by (simp add: keeps_job_def)

lemma run_inv_ends:
  assumes i: "run_inv E js rs" and e: "ends g h js rs"
  shows "run_inv E (map h js) (map g rs)"
proof -
  have g: "keeps_run g" and h: "keeps_job h" using e by (simp_all add: ends_def)
  note gD = keeps_runD [OF g] and hD = keeps_jobD [OF h]
  have m: "map jb_id (map h js) = map jb_id js" "map rn_id (map g rs) = map rn_id rs" by (simp_all add: gD hD)
  have "\<exists>b \<in> set (map h js). jb_id b = j \<and> jb_project b = rn_project r"
    if "r \<in> set (map g rs)" "rn_job r = Some j" for r j
    using i that unfolding run_inv_def refs_ok_def by (force simp: gD hD)
  then have "refs_ok (map h js) (map g rs)" using i unfolding run_inv_def refs_ok_def m by blast
  moreover have "one_active (map g rs)"
    using i gD(9) unfolding run_inv_def one_active_def by (auto, metis)
  moreover have "owned (map h js) (map g rs)"
  proof (unfold owned_def, intro ballI impI)
    fix c assume "c \<in> set (map h js)" and c: "jb_state c = ''running''"
    then obtain b where b: "b \<in> set js" "c = h b" by auto
    then have sb: "jb_state b = ''running''" using e c by (auto simp: ends_def)
    then obtain r where r: "r \<in> set rs" "rn_job r = Some (jb_id b)" "rn_status r = ''running''" "transfer_run r"
      using i b(1) unfolding run_inv_def owned_def by blast
    then have "rn_status (g r) = ''running''" using e b c unfolding ends_def by blast
    then show "\<exists>r \<in> set (map g rs). rn_job r = Some (jb_id c) \<and> rn_status r = ''running'' \<and> transfer_run r"
      using r b by (auto simp: gD hD intro!: bexI [of _ r])
  qed
  moreover have "parents_run (map g rs)"
  proof -
    have p: "\<exists>s' \<in> set (map g rs). rn_id s' = q \<and> rn_job s' = None \<and> rn_status s' = ''running''"
      if r: "r \<in> set rs" "active_run (g r)" "transfer_run r" "rn_parent r = Some q" for r q
    proof -
      obtain s where s: "s \<in> set rs" "rn_id s = q" "rn_job s = None" "rn_status s = ''running''"
        using i r gD(8) unfolding run_inv_def parents_run_def by blast
      then have "rn_status (g s) = ''running''" using e r unfolding ends_def by metis
      then show ?thesis using s by (auto simp: gD intro!: bexI [of _ s])
    qed
    have q: "transfer_run r \<and> rn_parent r \<noteq> None" if "r \<in> set rs" "rn_status (g r) = ''queued''" for r
      using i that gD(7) [of r] queued_active(1) [of "g r"] unfolding run_inv_def parents_run_def by metis
    show ?thesis unfolding parents_run_def using p q by (auto simp: gD)
  qed
  moreover have "locks_ok E (map h js) (map g rs)"
    using locks_ok_map [OF _ h, of E js rs g] i gD(4,9) by (simp add: run_inv_def)
  ultimately show ?thesis by (simp add: run_inv_def)
qed

section \<open>Changes that start work\<close>

definition admissible :: "environment \<Rightarrow> job_row list \<Rightarrow> run_row list \<Rightarrow> run_row \<Rightarrow> bool" where
  "admissible E js rs r \<longleftrightarrow>
     rn_id r \<notin> set (map rn_id rs) \<and>
     (\<forall>j. rn_job r = Some j \<longrightarrow>
        (\<exists>b \<in> set js. jb_id b = j \<and> jb_project b = rn_project r) \<and> (\<forall>s \<in> set rs. \<not> mailbox_run s j)) \<and>
     (\<forall>s \<in> set rs. \<forall>a \<in> set js. \<forall>b \<in> set js.
        rn_job r = Some (jb_id b) \<and> mailbox_run s (jb_id a) \<and> jb_id a \<noteq> jb_id b \<and> job_lock E a = job_lock E b \<longrightarrow>
        rn_parent r = rn_parent s \<and> rn_parent r \<noteq> None) \<and>
     (rn_status r = ''queued'' \<longrightarrow> transfer_run r \<and> rn_parent r \<noteq> None) \<and>
     (\<forall>q. transfer_run r \<and> rn_parent r = Some q \<longrightarrow>
        (\<exists>s \<in> set rs. rn_id s = q \<and> rn_job s = None \<and> rn_status s = ''running''))"

lemma run_inv_admit:
  assumes i: "run_inv E js rs" and a: "admissible E js rs r"
  shows "run_inv E js (rs @ [r])"
proof -
  have "refs_ok js (rs @ [r])" using i a unfolding run_inv_def refs_ok_def admissible_def by auto
  moreover have "one_active (rs @ [r])"
    using i a unfolding run_inv_def one_active_def admissible_def by (auto simp: mailbox_run_def)
  moreover have "owned js (rs @ [r])" using i unfolding run_inv_def owned_def by (metis UnI1 set_append)
  moreover have "parents_run (rs @ [r])"
  proof -
    have "parents_run rs" using i by (simp add: run_inv_def)
    then show ?thesis using a unfolding parents_run_def admissible_def by auto
  qed
  moreover have "locks_ok E js (rs @ [r])"
  proof (unfold locks_ok_def, intro ballI impI)
    fix s t b c
    assume m: "s \<in> set (rs @ [r])" "t \<in> set (rs @ [r])" "b \<in> set js" "c \<in> set js"
      and h: "mailbox_run s (jb_id b) \<and> mailbox_run t (jb_id c) \<and> jb_id b \<noteq> jb_id c \<and> job_lock E b = job_lock E c"
    have o: "rn_parent s = rn_parent t \<and> rn_parent s \<noteq> None" if "s \<in> set rs" "t \<in> set rs"
      using i that m h unfolding run_inv_def locks_ok_def by blast
    have l: "rn_parent r = rn_parent u \<and> rn_parent r \<noteq> None"
      if "u \<in> set rs" "x \<in> set js" "y \<in> set js" "rn_job r = Some (jb_id y)" "mailbox_run u (jb_id x)"
        "jb_id x \<noteq> jb_id y" "job_lock E x = job_lock E y" for u x y
      using a that unfolding admissible_def by blast
    consider "s \<in> set rs" "t \<in> set rs" | "s = r" "t = r" | "s \<in> set rs" "t = r" | "s = r" "t \<in> set rs"
      using m by auto
    then show "rn_parent s = rn_parent t \<and> rn_parent s \<noteq> None"
    proof cases
      case 1 then show ?thesis by (rule o)
    next
      case 2 then show ?thesis using h by (auto simp: mailbox_run_def)
    next
      case 3
      then have "rn_job r = Some (jb_id c)" using h by (simp add: mailbox_run_def)
      then have "rn_parent r = rn_parent s \<and> rn_parent r \<noteq> None" using l [of s b c] 3 m h by blast
      then show ?thesis using 3 by metis
    next
      case 4
      then have "rn_job r = Some (jb_id b)" using h by (simp add: mailbox_run_def)
      then have "rn_parent r = rn_parent t \<and> rn_parent r \<noteq> None" using l [of t c b] 4 m h by metis
      then show ?thesis using 4 by metis
    qed
  qed
  ultimately show ?thesis by (simp add: run_inv_def)
qed

lemma run_inv_mark:
  assumes i: "run_inv E js rs" and h: "keeps_job h"
    and o: "\<And>b. b \<in> set js \<Longrightarrow> jb_state (h b) = ''running'' \<Longrightarrow> jb_state b = ''running'' \<or>
        (\<exists>r \<in> set rs. rn_job r = Some (jb_id b) \<and> rn_status r = ''running'' \<and> transfer_run r)"
  shows "run_inv E (map h js) rs"
proof -
  note hD = keeps_jobD [OF h]
  have m: "map jb_id (map h js) = map jb_id js" by (simp add: hD)
  have "\<exists>b \<in> set (map h js). jb_id b = j \<and> jb_project b = rn_project r"
    if "r \<in> set rs" "rn_job r = Some j" for r j
    using i that unfolding run_inv_def refs_ok_def by (force simp: hD)
  then have "refs_ok (map h js) rs" using i unfolding run_inv_def refs_ok_def m by blast
  moreover have "owned (map h js) rs"
  proof (unfold owned_def, intro ballI impI)
    fix c assume "c \<in> set (map h js)" and c: "jb_state c = ''running''"
    then obtain b where b: "b \<in> set js" "c = h b" by auto
    then have "\<exists>r \<in> set rs. rn_job r = Some (jb_id b) \<and> rn_status r = ''running'' \<and> transfer_run r"
      using o [OF b(1)] c i unfolding run_inv_def owned_def by blast
    then show "\<exists>r \<in> set rs. rn_job r = Some (jb_id c) \<and> rn_status r = ''running'' \<and> transfer_run r"
      using b by (simp add: hD)
  qed
  moreover have "locks_ok E (map h js) rs"
    using locks_ok_map [OF _ h, of E js rs "\<lambda>r. r"] i by (simp add: run_inv_def)
  ultimately show ?thesis using i by (simp add: run_inv_def)
qed

definition claims :: "(run_row \<Rightarrow> run_row) \<Rightarrow> bool" where
  "claims g \<longleftrightarrow>
     (\<forall>r. g r = r \<or> (rn_status r = ''queued'' \<and> g r = r\<lparr>rn_status := ''running''\<rparr>))"

lemma claimsD:
  assumes "claims g"
  shows "rn_id (g r) = rn_id r" "rn_job (g r) = rn_job r" "rn_project (g r) = rn_project r"
    "rn_parent (g r) = rn_parent r" "transfer_run (g r) = transfer_run r"
    "active_run (g r) = active_run r" "mailbox_run (g r) j = mailbox_run r j"
    "rn_status r = ''running'' \<Longrightarrow> rn_status (g r) = ''running''"
    "rn_status (g r) = ''queued'' \<Longrightarrow> rn_status r = ''queued''"
  using spec [OF assms [unfolded claims_def], of r]
  by (auto simp: transfer_run_def mailbox_run_def active_run_def active_status_def)

lemma run_inv_claims:
  assumes i: "run_inv E js rs" and g: "claims g"
  shows "run_inv E js (map g rs)"
proof -
  note gD = claimsD [OF g]
  have m: "map rn_id (map g rs) = map rn_id rs" by (simp add: gD(1-7))
  have "refs_ok js (map g rs)" using i unfolding run_inv_def refs_ok_def m by (auto simp: gD(1-7))
  moreover have "one_active (map g rs)" using i unfolding run_inv_def one_active_def by (auto simp: gD(1-7))
  moreover have "owned js (map g rs)"
  proof (unfold owned_def, intro ballI impI)
    fix b assume "b \<in> set js" "jb_state b = ''running''"
    then obtain r where "r \<in> set rs" "rn_job r = Some (jb_id b)" "rn_status r = ''running''" "transfer_run r"
      using i unfolding run_inv_def owned_def by blast
    then show "\<exists>r \<in> set (map g rs). rn_job r = Some (jb_id b) \<and> rn_status r = ''running'' \<and> transfer_run r"
      by (auto simp: gD(1-8) intro!: bexI [of _ r])
  qed
  moreover have "parents_run (map g rs)"
  proof -
    have p: "parents_run rs" using i by (simp add: run_inv_def)
    have "\<exists>s' \<in> set (map g rs). rn_id s' = q \<and> rn_job s' = None \<and> rn_status s' = ''running''"
      if r: "r \<in> set rs" "active_run r" "transfer_run r" "rn_parent r = Some q" for r q
    proof -
      obtain s where "s \<in> set rs" "rn_id s = q" "rn_job s = None" "rn_status s = ''running''"
        using p r unfolding parents_run_def by blast
      then show ?thesis by (auto simp: gD(1-8) intro!: bexI [of _ s])
    qed
    then show ?thesis using p unfolding parents_run_def by (auto simp: gD(1-7) dest!: gD(9))
  qed
  moreover have "locks_ok E js (map g rs)"
    using locks_ok_map [OF _ keeps_job_id, of E js rs g] i gD(4,7) by (simp add: run_inv_def)
  ultimately show ?thesis by (simp add: run_inv_def)
qed

lemma run_inv_new_job:
  assumes i: "run_inv E js rs" and f: "jb_id b \<notin> set (map jb_id js)" and s: "jb_state b \<noteq> ''running''"
  shows "run_inv E (js @ [b]) rs"
proof -
  have nr: "\<not> mailbox_run r (jb_id b)" if r: "r \<in> set rs" for r
  proof
    assume "mailbox_run r (jb_id b)"
    then obtain c where "c \<in> set js" "jb_id c = jb_id b"
      using i r unfolding run_inv_def refs_ok_def mailbox_run_def by blast
    then have "jb_id b \<in> set (map jb_id js)" by (metis image_eqI list.set_map)
    with f show False by contradiction
  qed
  have "refs_ok (js @ [b]) rs" using i f unfolding run_inv_def refs_ok_def by auto
  moreover have "owned (js @ [b]) rs" using i s unfolding run_inv_def owned_def by auto
  moreover have "locks_ok E (js @ [b]) rs"
  proof (unfold locks_ok_def, intro ballI impI)
    fix r t a c
    assume m: "r \<in> set rs" "t \<in> set rs" "a \<in> set (js @ [b])" "c \<in> set (js @ [b])"
      and h: "mailbox_run r (jb_id a) \<and> mailbox_run t (jb_id c) \<and> jb_id a \<noteq> jb_id c \<and> job_lock E a = job_lock E c"
    then have "a \<in> set js" "c \<in> set js" using nr by auto
    then show "rn_parent r = rn_parent t \<and> rn_parent r \<noteq> None"
      using i m h unfolding run_inv_def locks_ok_def by blast
  qed
  ultimately show ?thesis using i by (simp add: run_inv_def)
qed

lemma run_inv_new_jobs:
  assumes "run_inv E js rs" "distinct (map jb_id new)" "set (map jb_id new) \<inter> set (map jb_id js) = {}"
    "list_all (\<lambda>b. jb_state b \<noteq> ''running'') new"
  shows "run_inv E (js @ new) rs"
  using assms
proof (induction new rule: rev_induct)
  case (snoc b new)
  then have "run_inv E (js @ new) rs" by auto
  moreover have "jb_id b \<notin> set (map jb_id (js @ new))" "jb_state b \<noteq> ''running''" using snoc.prems by auto
  ultimately have "run_inv E ((js @ new) @ [b]) rs" by (rule run_inv_new_job)
  then show ?case by simp
qed simp

end
