(* ===== verification/Ledger_Admission.thy ===== *)
theory Ledger_Admission
  imports Ledger_Ownership
begin

text \<open>
  The transactions that start work keep the ownership invariant: audits, single transfers, batches with their
  children, and the claim of a mailbox by a batch child.
\<close>

section \<open>What the checks establish\<close>

lemma has_active_run_iff:
  assumes i: "run_inv E (jobs L) (runs L)" and j: "job_of L p j = Some b"
  shows "has_active_run L p j \<longleftrightarrow> (\<exists>s \<in> set (runs L). mailbox_run s j)"
proof -
  have b: "b \<in> set (jobs L)" "jb_id b = j" "jb_project b = p"
    using job_of_SomeD [OF j] by simp_all
  have "rn_project s = p" if s: "s \<in> set (runs L)" "mailbox_run s j" for s
  proof -
    obtain c where c: "c \<in> set (jobs L)" "jb_id c = j" "jb_project c = rn_project s"
      using i s unfolding run_inv_def refs_ok_def mailbox_run_def by blast
    have "distinct (map jb_id (jobs L))" using i by (simp add: run_inv_def refs_ok_def)
    then have "c = b" using b c by (metis distinct_map inj_on_eq_iff)
    then show ?thesis using b c by simp
  qed
  then show ?thesis unfolding has_active_run_def list_ex_iff mailbox_run_def by blast
qed

text \<open>No other mailbox with the lock is active: the conflict query over every mailbox found nothing.\<close>

lemma no_lock_conflict:
  assumes i: "run_inv E (jobs L) (runs L)" and c: "\<not> destination_lock_conflict E locks excluded L"
    and a: "a \<in> set (jobs L)" "job_lock E a \<in> set locks" and s: "s \<in> set (runs L)" "mailbox_run s (jb_id a)"
  shows "jb_id a \<in> set excluded"
proof -
  obtain b where b: "b \<in> set (jobs L)" "jb_id b = jb_id a" "jb_project b = rn_project s"
    using i s unfolding run_inv_def refs_ok_def mailbox_run_def by blast
  have "distinct (map jb_id (jobs L))" using i by (simp add: run_inv_def refs_ok_def)
  then have "b = a" using a b by (metis distinct_map inj_on_eq_iff)
  then have "has_active_run L (jb_project a) (jb_id a)"
    using s b unfolding has_active_run_def list_ex_iff mailbox_run_def by auto
  then show ?thesis using c a unfolding destination_lock_conflict_def list_ex_iff by blast
qed

lemma insert_run_InrD:
  assumes "insert_run r L = Inr L'"
  shows "runs L' = runs L @ [r]" "jobs L' = jobs L" "projects L' = projects L" "holds L' = holds L"
    "cutovers L' = cutovers L" "acceptances L' = acceptances L" "events L' = events L"
    "rn_id r \<notin> set (map rn_id (runs L))"
    "\<And>j s. rn_job r = Some j \<Longrightarrow> active_run r \<Longrightarrow> s \<in> set (runs L) \<Longrightarrow> \<not> mailbox_run s j"
  using assms unfolding insert_run_def guards by (auto simp: list_ex_iff mailbox_run_def)

lemma new_run_simps [simp]:
  "rn_id (new_run run p j q e ph sn st) = run" "rn_project (new_run run p j q e ph sn st) = p"
  "rn_job (new_run run p j q e ph sn st) = j" "rn_parent (new_run run p j q e ph sn st) = q"
  "rn_engine (new_run run p j q e ph sn st) = e" "rn_status (new_run run p j q e ph sn st) = st"
  "rn_phase_at_start (new_run run p j q e ph sn st) = ph"
  by (simp_all add: new_run_def)

text \<open>A run of one mailbox that passed the checks, whether an audit or a transfer without a parent.\<close>

lemma admissible_mailbox:
  assumes i: "run_inv E (jobs L) (runs L)" and n: "insert_run r L = Inr L1"
    and b: "b \<in> set (jobs L)" "jb_project b = rn_project r" and r: "rn_job r = Some (jb_id b)" "rn_status r = ''running''"
    and c: "\<not> destination_lock_conflict E [job_lock E b] [jb_id b] L"
    and p: "transfer_run r \<Longrightarrow> rn_parent r = None"
  shows "admissible E (jobs L) (runs L) r"
proof -
  note d = insert_run_InrD [OF n]
  have o: False if h: "s \<in> set (runs L)" "a \<in> set (jobs L)" "b' \<in> set (jobs L)"
      "rn_job r = Some (jb_id b')" "mailbox_run s (jb_id a)" "jb_id a \<noteq> jb_id b'" "job_lock E a = job_lock E b'" for s a b'
  proof -
    have "distinct (map jb_id (jobs L))" using i by (simp add: run_inv_def refs_ok_def)
    then have "b' = b" using b(1) h(3,4) r by (metis distinct_map inj_on_eq_iff option.inject)
    then show False using no_lock_conflict [OF i c h(2) _ h(1,5)] h by simp
  qed
  have "\<not> mailbox_run s (jb_id b)" if "s \<in> set (runs L)" for s
    using d(9) r that queued_active(2) by blast
  then have j: "\<forall>j. rn_job r = Some j \<longrightarrow> (\<exists>c \<in> set (jobs L). jb_id c = j \<and> jb_project c = rn_project r) \<and>
      (\<forall>s \<in> set (runs L). \<not> mailbox_run s j)"
    using b r by auto
  have l: "\<forall>s \<in> set (runs L). \<forall>a \<in> set (jobs L). \<forall>b \<in> set (jobs L).
      rn_job r = Some (jb_id b) \<and> mailbox_run s (jb_id a) \<and> jb_id a \<noteq> jb_id b \<and> job_lock E a = job_lock E b \<longrightarrow>
      rn_parent r = rn_parent s \<and> rn_parent r \<noteq> None"
    using o by blast
  have "rn_status r = ''queued'' \<longrightarrow> transfer_run r \<and> rn_parent r \<noteq> None"
    "\<forall>q. transfer_run r \<and> rn_parent r = Some q \<longrightarrow> (\<exists>s \<in> set (runs L). rn_id s = q \<and> rn_job s = None \<and> rn_status s = ''running'')"
    using r(2) p by auto
  then show ?thesis unfolding admissible_def using d(8) j l by blast
qed

section \<open>Audits and single transfers\<close>

lemma begin_verification_run_InrD:
  assumes "begin_verification_run_with_baseline E p j run transfer snapshot L = Inr L'"
  obtains pj jb L1 where "project_of L p = Some pj" "job_of L p j = Some jb"
    "insert_run (new_run run p (Some j) transfer VERIFICATION_ENGINE (pj_phase pj) snapshot ''running'') L = Inr L1"
    "\<not> destination_lock_conflict E [job_lock E jb] [j] L" "same_core L1 L'"
  using assms unfolding begin_verification_run_with_baseline_def guards
proof (elim conjE exE)
  fix pj jb L1
  assume d: "project_of L p = Some pj" "job_of L p j = Some jb"
    "insert_run (new_run run p (Some j) transfer VERIFICATION_ENGINE (pj_phase pj) snapshot ''running'') L = Inr L1"
    "\<not> destination_lock_conflict E [job_lock E jb] [j] L"
    and e: "add_event p (Some run) ''verification_started'' (''verification-only ('' @ j @ '')'')
              (invalidate_cutover_readiness_for_new_run p j run L1) = L'"
  show thesis
    by (rule that [OF d], unfold e [symmetric])
      (rule same_core_trans [OF same_core_invalidate same_core_add_event])
qed

lemma begin_verification_inv:
  assumes f: "begin_verification_run_with_baseline E p j run transfer snapshot L = Inr L'"
    and i: "run_inv E (jobs L) (runs L)"
  shows "run_inv E (jobs L') (runs L')"
proof -
  from f obtain pj jb L1 where "project_of L p = Some pj" and j: "job_of L p j = Some jb"
    and n: "insert_run (new_run run p (Some j) transfer VERIFICATION_ENGINE (pj_phase pj) snapshot ''running'') L = Inr L1"
    and c: "\<not> destination_lock_conflict E [job_lock E jb] [j] L" and s: "same_core L1 L'"
    by (rule begin_verification_run_InrD)
  have "admissible E (jobs L) (runs L) (new_run run p (Some j) transfer VERIFICATION_ENGINE (pj_phase pj) snapshot ''running'')"
    by (rule admissible_mailbox [OF i n, of jb]) (use j c job_of_SomeD in \<open>auto simp: transfer_run_def\<close>)
  from run_inv_admit [OF i this] show ?thesis
    using insert_run_InrD(1,2) [OF n] s by (simp add: same_core_def)
qed

lemma begin_run_InrD:
  assumes "begin_run_with_snapshot E p j run engine snapshot L = Inr L'"
  obtains pj jb L1 where "project_of L p = Some pj" "job_of L p j = Some jb"
    "insert_run (new_run run p (Some j) None engine (pj_phase pj) snapshot ''running'') L = Inr L1"
    "\<not> destination_lock_conflict E [job_lock E jb] [j] L" "start_refusal E p (pj_phase pj) L = None"
    "\<not> cannot_start (jb_state jb)" "\<not> has_active_run L p j" "same_core (mark_running j L1) L'"
  using assms unfolding begin_run_with_snapshot_def guards
proof (elim conjE exE)
  fix pj jb L1
  assume d: "project_of L p = Some pj" "job_of L p j = Some jb"
    "insert_run (new_run run p (Some j) None engine (pj_phase pj) snapshot ''running'') L = Inr L1"
    "\<not> destination_lock_conflict E [job_lock E jb] [j] L" "start_refusal E p (pj_phase pj) L = None"
    "\<not> cannot_start (jb_state jb)" "\<not> has_active_run L p j"
    and e: "add_event p (Some run) ''run_started'' (engine @ '' ('' @ run @ '')'')
              (mark_running j (invalidate_cutover_readiness_for_new_run p j run L1)) = L'"
  show thesis
    by (rule that [OF d], unfold e [symmetric])
      (use same_core_invalidate [of L1 p j run] in \<open>simp add: same_core_def mark_running_def\<close>)
qed

lemma run_inv_mark_running:
  assumes i: "run_inv E (jobs L) (runs L)"
    and r: "r \<in> set (runs L)" "rn_job r = Some j" "rn_status r = ''running''" "transfer_run r"
  shows "run_inv E (jobs (mark_running j L)) (runs (mark_running j L))"
proof -
  let ?h = "\<lambda>b. if jb_id b = j then b\<lparr>jb_state := ''running'', jb_attention_reason := None,
                 jb_attempt := (if jb_state b \<noteq> ''running'' then jb_attempt b + 1 else jb_attempt b)\<rparr> else b"
  have "run_inv E (map ?h (jobs L)) (runs L)"
    by (rule run_inv_mark [OF i]) (use r in \<open>auto simp: keeps_job_def split: if_splits\<close>)
  then show ?thesis by (simp add: mark_running_def update_rows_def)
qed

lemma begin_run_inv:
  assumes f: "begin_run_with_snapshot E p j run engine snapshot L = Inr L'" and e: "engine \<noteq> VERIFICATION_ENGINE"
    and i: "run_inv E (jobs L) (runs L)"
  shows "run_inv E (jobs L') (runs L')"
proof -
  from f obtain pj jb L1 where "project_of L p = Some pj" and j: "job_of L p j = Some jb"
    and n: "insert_run (new_run run p (Some j) None engine (pj_phase pj) snapshot ''running'') L = Inr L1"
    and c: "\<not> destination_lock_conflict E [job_lock E jb] [j] L"
    and "start_refusal E p (pj_phase pj) L = None" "\<not> cannot_start (jb_state jb)" "\<not> has_active_run L p j"
    and s: "same_core (mark_running j L1) L'"
    by (rule begin_run_InrD)
  let ?r = "new_run run p (Some j) None engine (pj_phase pj) snapshot ''running''"
  have "admissible E (jobs L) (runs L) ?r"
    by (rule admissible_mailbox [OF i n, of jb]) (use j c job_of_SomeD in auto)
  from run_inv_admit [OF i this] have "run_inv E (jobs L1) (runs L1)"
    using insert_run_InrD(1,2) [OF n] by simp
  then have "run_inv E (jobs (mark_running j L1)) (runs (mark_running j L1))"
    by (rule run_inv_mark_running [where r = ?r]) (use insert_run_InrD(1) [OF n] e in \<open>auto simp: transfer_run_def\<close>)
  then show ?thesis using s by (simp add: same_core_def)
qed

section \<open>Claims\<close>

lemma claim_InrD:
  assumes "claim_batch_mailbox_for_child E p j parent child L = Inr L'"
  obtains pj jb c where "project_of L p = Some pj" "job_of L p j = Some jb" "start_refusal E p (pj_phase pj) L = None"
    "find (child_run child p j parent) (runs L) = Some c" "rn_status c = ''queued''" "parent_is_running L p parent"
    "jb_state jb \<noteq> ''running''" "valid_mailbox_transition (jb_state jb) ''running''"
    "jobs L' = update_rows (\<lambda>r. jb_id r = j \<and> jb_project r = p \<and> jb_state r = jb_state jb)
       (\<lambda>r. r\<lparr>jb_state := ''running'', jb_attention_reason := None, jb_attempt := jb_attempt r + 1\<rparr>) (jobs L)"
    "runs L' = update_rows (\<lambda>r. child_run child p j parent r \<and> rn_status r = ''queued'')
       (\<lambda>r. r\<lparr>rn_status := ''running''\<rparr>) (runs L)"
    "holds L' = holds L" "projects L' = projects L" "cutovers L' = cutovers L" "acceptances L' = acceptances L"
proof -
  obtain pj jb c where d: "project_of L p = Some pj" "job_of L p j = Some jb" "start_refusal E p (pj_phase pj) L = None"
    "find (child_run child p j parent) (runs L) = Some c" "rn_status c = ''queued''" "parent_is_running L p parent"
    "jb_state jb \<noteq> ''running''" "valid_mailbox_transition (jb_state jb) ''running''"
    and e: "add_event p (Some child) ''mailbox_claimed'' (j @ '' claimed by child run '' @ child)
       (L\<lparr>jobs := update_rows (\<lambda>r. jb_id r = j \<and> jb_project r = p \<and> jb_state r = jb_state jb)
            (\<lambda>r. r\<lparr>jb_state := ''running'', jb_attention_reason := None, jb_attempt := jb_attempt r + 1\<rparr>) (jobs L),
          runs := update_rows (\<lambda>r. child_run child p j parent r \<and> rn_status r = ''queued'')
            (\<lambda>r. r\<lparr>rn_status := ''running''\<rparr>) (runs L)\<rparr>) = L'"
    using assms unfolding claim_batch_mailbox_for_child_def Let_def guards by blast
  show thesis by (rule that [OF d]) (simp_all add: e [symmetric])
qed

lemma claim_inv:
  assumes f: "claim_batch_mailbox_for_child E' p j parent child L = Inr L'" and i: "run_inv E (jobs L) (runs L)"
  shows "run_inv E (jobs L') (runs L')"
proof -
  from f obtain pj jb c where "project_of L p = Some pj" "job_of L p j = Some jb" "start_refusal E' p (pj_phase pj) L = None"
    and c: "find (child_run child p j parent) (runs L) = Some c" "rn_status c = ''queued''"
    and "parent_is_running L p parent" "jb_state jb \<noteq> ''running''" "valid_mailbox_transition (jb_state jb) ''running''"
    and J: "jobs L' = update_rows (\<lambda>r. jb_id r = j \<and> jb_project r = p \<and> jb_state r = jb_state jb)
       (\<lambda>r. r\<lparr>jb_state := ''running'', jb_attention_reason := None, jb_attempt := jb_attempt r + 1\<rparr>) (jobs L)"
    and R: "runs L' = update_rows (\<lambda>r. child_run child p j parent r \<and> rn_status r = ''queued'')
       (\<lambda>r. r\<lparr>rn_status := ''running''\<rparr>) (runs L)"
    and "holds L' = holds L" "projects L' = projects L" "cutovers L' = cutovers L" "acceptances L' = acceptances L"
    by (rule claim_InrD)
  let ?g = "\<lambda>r. if child_run child p j parent r \<and> rn_status r = ''queued'' then r\<lparr>rn_status := ''running''\<rparr> else r"
  have cr: "c \<in> set (runs L)" "child_run child p j parent c"
    using find_SomeD [OF c(1)] by simp_all
  have "transfer_run c" using i cr c unfolding run_inv_def parents_run_def by blast
  then have t: "transfer_run (?g c)" by (simp add: transfer_run_def)
  have g: "?g c \<in> set (map ?g (runs L))" "rn_job (?g c) = Some j" "rn_status (?g c) = ''running''"
    using cr c(2) by (auto simp: child_run_def)
  have "run_inv E (jobs L) (map ?g (runs L))" by (rule run_inv_claims [OF i]) (auto simp: claims_def)
  then have "run_inv E (jobs L') (map ?g (runs L))" unfolding J update_rows_def
  proof (rule run_inv_mark)
    fix b assume "jb_state (if jb_id b = j \<and> jb_project b = p \<and> jb_state b = jb_state jb
       then b\<lparr>jb_state := ''running'', jb_attention_reason := None, jb_attempt := jb_attempt b + 1\<rparr> else b) = ''running''"
    then show "jb_state b = ''running'' \<or>
        (\<exists>r \<in> set (map ?g (runs L)). rn_job r = Some (jb_id b) \<and> rn_status r = ''running'' \<and> transfer_run r)"
      using g t by (cases "jb_id b = j") (blast, simp)
  qed (simp add: keeps_job_def)
  then show ?thesis by (simp add: R update_rows_def)
qed

section \<open>Batches\<close>

lemma batch_scan_InrD:
  "batch_scan E p L expected i ds js = Inr locks \<Longrightarrow> j \<in> set js \<Longrightarrow>
     \<exists>b. job_of L p j = Some b \<and> \<not> has_active_run L p j \<and> job_lock E b \<in> set locks \<and> \<not> cannot_start (jb_state b)"
proof (induction js arbitrary: i ds locks)
  case (Cons k js)
  obtain b rest where b: "job_of L p k = Some b" "\<not> has_active_run L p k" "\<not> cannot_start (jb_state b)"
    and r: "batch_scan E p L expected (Suc i) (job_destination E b # ds) js = Inr rest" "locks = job_lock E b # rest"
    using Cons.prems(1) by (auto simp: Let_def map_sum_def split: option.splits if_splits sum.splits)
  show ?case
  proof (cases "j = k")
    case False
    then show ?thesis using Cons.IH [OF r(1)] Cons.prems(2) r(2) by auto
  qed (use b r in auto)
qed simp

text \<open>
  \<open>children_wait\<close>: the batch parent runs, the mailboxes still to be queued belong to the project, and an
  active run whose mailbox shares a destination lock with one of them is a sibling of the same batch.
\<close>

definition children_wait :: "environment \<Rightarrow> str \<Rightarrow> str \<Rightarrow> str list \<Rightarrow> ledger \<Rightarrow> bool" where
  "children_wait E p run js L \<longleftrightarrow>
     (\<exists>s \<in> set (runs L). rn_id s = run \<and> rn_job s = None \<and> rn_status s = ''running'') \<and>
     (\<forall>j \<in> set js. \<exists>b \<in> set (jobs L). jb_id b = j \<and> jb_project b = p) \<and>
     (\<forall>s \<in> set (runs L). \<forall>a \<in> set (jobs L). \<forall>b \<in> set (jobs L).
        mailbox_run s (jb_id a) \<and> jb_id b \<in> set js \<and> job_lock E a = job_lock E b \<longrightarrow> rn_parent s = Some run)"

lemma admissible_child:
  assumes w: "children_wait E p run (j # js) L" and n: "insert_run r L = Inr L1"
    and r: "rn_job r = Some j" "rn_project r = p" "rn_parent r = Some run" "rn_status r = ''queued''" "transfer_run r"
  shows "admissible E (jobs L) (runs L) r"
proof -
  note d = insert_run_InrD [OF n]
  have "\<forall>s \<in> set (runs L). \<not> mailbox_run s j" using d(9) [OF r(1) queued_active(1) [OF r(4)]] by blast
  then have "\<forall>k. rn_job r = Some k \<longrightarrow> (\<exists>b \<in> set (jobs L). jb_id b = k \<and> jb_project b = rn_project r) \<and>
      (\<forall>s \<in> set (runs L). \<not> mailbox_run s k)"
    using w r by (auto simp: children_wait_def)
  moreover have "\<forall>q. transfer_run r \<and> rn_parent r = Some q \<longrightarrow>
      (\<exists>s \<in> set (runs L). rn_id s = q \<and> rn_job s = None \<and> rn_status s = ''running'')"
    using w r by (simp add: children_wait_def)
  moreover have "rn_parent r = rn_parent s \<and> rn_parent r \<noteq> None"
    if "s \<in> set (runs L)" "a \<in> set (jobs L)" "b \<in> set (jobs L)" "rn_job r = Some (jb_id b)" "mailbox_run s (jb_id a)"
      "job_lock E a = job_lock E b" for s a b
  proof -
    have "jb_id b \<in> set (j # js)" using r that by simp
    then have "rn_parent s = Some run" using w that unfolding children_wait_def by blast
    then show ?thesis by (simp add: r)
  qed
  moreover have "rn_status r = ''queued'' \<longrightarrow> transfer_run r \<and> rn_parent r \<noteq> None" using r by simp
  ultimately show ?thesis unfolding admissible_def using d(8) by blast
qed

lemma insert_children_inv:
  "insert_children p run engine phase plans i (zip js cs) L = Inr L' \<Longrightarrow> engine \<noteq> VERIFICATION_ENGINE \<Longrightarrow>
     list_all (\<lambda>b. bp_engine b \<noteq> VERIFICATION_ENGINE) plans \<Longrightarrow> run_inv E (jobs L) (runs L) \<Longrightarrow>
     children_wait E p run js L \<Longrightarrow> run_inv E (jobs L') (runs L')"
proof (induction js arbitrary: cs i L)
  case (Cons j js)
  show ?case
  proof (cases cs)
    case (Cons child cs')
    define r where "r = new_run child p (Some j) (Some run)
      (case nth_opt plans i of None \<Rightarrow> engine | Some b \<Rightarrow> bp_engine b) phase
      (case nth_opt plans i of None \<Rightarrow> [] | Some b \<Rightarrow> bp_plan_snapshot b) ''queued''"
    obtain L1 where n: "insert_run r L = Inr L1"
      and go: "insert_children p run engine phase plans (Suc i) (zip js cs')
        (case (case nth_opt plans i of None \<Rightarrow> None | Some b \<Rightarrow> bp_engine_version b) of
           None \<Rightarrow> invalidate_cutover_readiness_for_new_run p j child L1
         | Some v \<Rightarrow> (invalidate_cutover_readiness_for_new_run p j child L1)\<lparr>engine_versions :=
             engine_versions (invalidate_cutover_readiness_for_new_run p j child L1) @ [(child, v)]\<rparr>) = Inr L'"
        (is "insert_children _ _ _ _ _ _ _ ?L2 = _")
      using Cons.prems(1) unfolding \<open>cs = child # cs'\<close> zip_Cons_Cons insert_children.simps Let_def r_def [symmetric] guards
      by blast
    define L2 where "L2 = ?L2"
    note go = go [folded L2_def]
    have c: "same_core L1 L2"
      using same_core_invalidate [of L1 p j child] by (auto simp: L2_def same_core_def split: option.split)
    have "transfer_run r" using Cons.prems(2,3)
      by (auto simp: r_def transfer_run_def nth_opt_def list_all_length split: option.split)
    then have "admissible E (jobs L) (runs L) r"
      by (intro admissible_child [OF Cons.prems(5) n]) (simp_all add: r_def)
    then have "run_inv E (jobs L2) (runs L2)"
      using run_inv_admit [OF Cons.prems(4)] insert_run_InrD(1,2) [OF n] c by (simp add: same_core_def)
    moreover have "children_wait E p run js L2"
      using Cons.prems(5) insert_run_InrD(1,2) [OF n] c
      by (auto simp: children_wait_def same_core_def r_def)
    ultimately show ?thesis using Cons.IH [OF go Cons.prems(2,3)] by blast
  qed (use Cons.prems in simp)
qed simp

lemma begin_batch_InrD:
  assumes "begin_batch_run_with_children E p js run engine expected snapshot plans cs L = Inr (L', cs')"
  obtains pj locks L1 L2 where "project_of L p = Some pj" "start_refusal E p (pj_phase pj) L = None"
    "batch_scan E p L expected 0 [] js = Inr locks" "\<not> destination_lock_conflict E locks js L"
    "insert_run (new_run run p None None engine (pj_phase pj) snapshot ''running'') L = Inr L1"
    "insert_children p run engine (pj_phase pj) plans 0 (zip js cs) L1 = Inr L2" "same_core L2 L'"
  using assms unfolding begin_batch_run_with_children_def guards
proof (elim conjE exE)
  fix pj locks L1 L2
  assume d: "project_of L p = Some pj" "start_refusal E p (pj_phase pj) L = None"
    "batch_scan E p L expected 0 [] js = Inr locks" "\<not> destination_lock_conflict E locks js L"
    "insert_run (new_run run p None None engine (pj_phase pj) snapshot ''running'') L = Inr L1"
    "insert_children p run engine (pj_phase pj) plans 0 (zip js cs) L1 = Inr L2"
    and e: "(add_event p (Some run) ''run_started'' (engine @ '' ('' @ run @ ''); '' @ nat_to_string (length js) @ '' child jobs'') L2, cs) = (L', cs')"
  show thesis by (rule that [OF d]) (use e in auto)
qed

lemma begin_batch_inv:
  assumes f: "begin_batch_run_with_children E p js run engine expected snapshot plans cs L = Inr (L', cs')"
    and e: "engine \<noteq> VERIFICATION_ENGINE" "list_all (\<lambda>b. bp_engine b \<noteq> VERIFICATION_ENGINE) plans"
    and i: "run_inv E (jobs L) (runs L)"
  shows "run_inv E (jobs L') (runs L')"
proof -
  from f obtain pj locks L1 L2 where "project_of L p = Some pj" "start_refusal E p (pj_phase pj) L = None"
    and b: "batch_scan E p L expected 0 [] js = Inr locks" and c: "\<not> destination_lock_conflict E locks js L"
    and n: "insert_run (new_run run p None None engine (pj_phase pj) snapshot ''running'') L = Inr L1"
    and ch: "insert_children p run engine (pj_phase pj) plans 0 (zip js cs) L1 = Inr L2" and s: "same_core L2 L'"
    by (rule begin_batch_InrD)
  note d = insert_run_InrD [OF n] and scan = batch_scan_InrD [OF b]
  have "admissible E (jobs L) (runs L) (new_run run p None None engine (pj_phase pj) snapshot ''running'')"
    using d(8) by (simp add: admissible_def transfer_run_def)
  from run_inv_admit [OF i this] have i1: "run_inv E (jobs L1) (runs L1)" by (simp add: d)
  have "\<exists>b \<in> set (jobs L). jb_id b = j \<and> jb_project b = p" if "j \<in> set js" for j
    using scan [OF that] job_of_SomeD by blast
  moreover have "False" if h: "s \<in> set (runs L)" "a \<in> set (jobs L)" "b \<in> set (jobs L)" "mailbox_run s (jb_id a)"
      "jb_id b \<in> set js" "job_lock E a = job_lock E b" for s a b
  proof -
    obtain b' where b': "job_of L p (jb_id b) = Some b'" "job_lock E b' \<in> set locks" using scan [OF h(5)] by blast
    have "distinct (map jb_id (jobs L))" using i by (simp add: run_inv_def refs_ok_def)
    then have "b' = b" using job_of_SomeD [OF b'(1)] h(3) by (metis distinct_map inj_on_eq_iff)
    then have "jb_id a \<in> set js" using no_lock_conflict [OF i c h(2) _ h(1,4)] b' h(6) by simp
    then show False using scan has_active_run_iff [OF i] h(1,4) by metis
  qed
  ultimately have "children_wait E p run js L1"
    unfolding children_wait_def d(1,2) by (fastforce simp: mailbox_run_def)
  then have "run_inv E (jobs L2) (runs L2)" by (rule insert_children_inv [OF ch e i1])
  then show ?thesis using s by (simp add: same_core_def)
qed

end
