(* ===== verification/Ledger_Ending.thy ===== *)
theory Ledger_Ending
  imports Ledger_Ownership
begin

text \<open>
  The transactions of the ledger that end work or leave the runs alone keep the ownership invariant:
  the terminal transactions, recovery after a restart, acceptance, reopening, holds, and the managed cutover.
\<close>

definition finishes_no_transfer :: "ledger \<Rightarrow> str \<Rightarrow> bool" where
  "finishes_no_transfer L run \<longleftrightarrow> list_all (\<lambda>r. rn_id r = run \<longrightarrow> \<not> transfer_run r) (runs L)"

section \<open>Transactions that end work\<close>

lemma keeps_run_finish: "\<not> active_status s \<Longrightarrow> keeps_run (\<lambda>r. if P r then finish_row E s d r else r)"
  by (simp add: keeps_run_def finish_row_def active_run_def)

lemma status_finish [simp]:
  "rn_status (finish_row E s d r) = s" "rn_id (finish_row E s d r) = rn_id r" "rn_job (finish_row E s d r) = rn_job r"
  "rn_parent (finish_row E s d r) = rn_parent r" "rn_project (finish_row E s d r) = rn_project r"
  "rn_engine (finish_row E s d r) = rn_engine r"
  by (simp_all add: finish_row_def)

lemma active_status_simps [simp]:
  "active_status ''queued''" "active_status ''running''" "\<not> active_status ''completed''" "\<not> active_status ''failed''"
  "\<not> active_status ''cancelled''" "\<not> active_status ''abandoned''" "\<not> active_status ''verification_failed''"
  by (simp_all add: active_status_def)

text \<open>Ending runs that are not transfers, with the mailboxes as they are.\<close>

lemma run_inv_end_other:
  assumes i: "run_inv E js rs" and s: "\<not> active_status s"
    and n: "\<And>r. r \<in> set rs \<Longrightarrow> P r \<Longrightarrow> \<not> transfer_run r"
    and c: "\<And>r q. r \<in> set rs \<Longrightarrow> q \<in> set rs \<Longrightarrow> P q \<Longrightarrow> rn_parent r = Some (rn_id q) \<Longrightarrow> rn_job q = None \<Longrightarrow> \<not> active_run r"
  shows "run_inv E js (update_rows P (finish_row E' s d) rs)"
proof -
  let ?g = "\<lambda>r. if P r then finish_row E' s d r else r"
  have "ends ?g (\<lambda>b. b) js rs"
  proof (unfold ends_def, intro conjI ballI impI)
    fix b r assume b: "b \<in> set js" "jb_state b = ''running''" and r: "r \<in> set rs" "rn_job r = Some (jb_id b) \<and> rn_status r = ''running''"
    then obtain q where q: "q \<in> set rs" "rn_job q = Some (jb_id b)" "rn_status q = ''running''" "transfer_run q"
      using i unfolding run_inv_def owned_def by blast
    then have "r = q" using i r unfolding run_inv_def one_active_def mailbox_run_def
      using queued_active(2) by blast
    then show "rn_status (?g r) = ''running''" using n r q by auto
  next
    fix r q assume "r \<in> set rs" "q \<in> set rs"
      and a: "active_run (?g r) \<and> transfer_run r \<and> rn_parent r = Some (rn_id q) \<and> rn_job q = None"
    moreover from a have "active_run r" using s by (auto simp: active_run_def split: if_splits)
    ultimately have "\<not> P q" using c by blast
    then show "rn_status (?g q) = rn_status q" by simp
  qed (simp_all add: keeps_run_finish [OF s])
  from run_inv_ends [OF i this] show ?thesis by (simp add: update_rows_def)
qed

text \<open>Ending one mailbox's run together with the mailbox.\<close>

lemma run_inv_end_mailbox:
  assumes i: "run_inv E js rs" and s: "\<not> active_status s" and h: "keeps_job h"
    and j: "\<And>b. b \<in> set js \<Longrightarrow> jb_state (h b) = ''running'' \<Longrightarrow> jb_id b \<noteq> j \<and> jb_state b = ''running''"
    and n: "\<And>r. P r \<Longrightarrow> rn_job r = Some j"
  shows "run_inv E (map h js) (update_rows P (finish_row E' s d) rs)"
proof -
  let ?g = "\<lambda>r. if P r then finish_row E' s d r else r"
  have "ends ?g h js rs" unfolding ends_def using j n by (auto simp: keeps_run_finish [OF s] h)
  from run_inv_ends [OF i this] show ?thesis by (simp add: update_rows_def)
qed

lemma terminal_status_inactive:
  "s \<in> set [''completed'', ''failed'', ''cancelled'', ''abandoned'', ''verification_failed''] \<Longrightarrow> \<not> active_status s"
  by auto

lemma finish_run_inv:
  assumes f: "finish_run E' run status detail L = Inr L'" and c: "finishes_no_transfer L run"
    and i: "run_inv E (jobs L) (runs L)"
  shows "run_inv E (jobs L') (runs L')"
proof -
  let ?P = "\<lambda>r. rn_id r = run \<and> rn_status r = ''running''"
  have st: "\<not> active_status status" and ch: "\<not> list_ex (\<lambda>c. rn_parent c = Some run \<and> active_run c) (runs L)"
    and L': "jobs L' = jobs L" "runs L' = update_rows ?P (finish_row E' status (bounded_event_detail detail)) (runs L)"
    using f by (auto simp: finish_run_def Let_def split: if_splits option.splits)
  show ?thesis unfolding L'
  proof (rule run_inv_end_other [OF i st])
    show "\<not> transfer_run r" if "r \<in> set (runs L)" "?P r" for r
      using c that by (auto simp: finishes_no_transfer_def list_all_iff)
    show "\<not> active_run r" if "r \<in> set (runs L)" "?P q" "rn_parent r = Some (rn_id q)" for r q
      using ch that by (auto simp: list_ex_iff)
  qed
qed

lemma keeps_job_update:
  assumes "\<And>b. jb_id (f b) = jb_id b \<and> jb_project (f b) = jb_project b \<and>
    jb_destination (f b) = jb_destination b \<and> jb_config (f b) = jb_config b"
  shows "keeps_job (\<lambda>b. if P b then f b else b)"
  using assms by (simp add: keeps_job_def)

lemma settle_inv:
  assumes i: "run_inv E (jobs L) (runs L)" and st: "\<not> active_status status" and s: "state \<noteq> ''running''"
    and j: "job_of L p j \<noteq> None" and n: "\<And>r. P r \<Longrightarrow> rn_job r = Some j"
    and M: "jobs M = jobs L" "runs M = update_rows P (finish_row E' status d) (runs L)"
  shows "run_inv E (jobs (settle_job p j state re plan ck M)) (runs (settle_job p j state re plan ck M))"
proof -
  let ?f = "\<lambda>r. r\<lparr>jb_state := state, jb_attention_reason := map_option reason_as_str re,
     jb_preflight_plan := (case plan of None \<Rightarrow> jb_preflight_plan r | Some x \<Rightarrow> Some x),
     jb_checkpoint := (case ck of None \<Rightarrow> jb_checkpoint r | Some x \<Rightarrow> Some x)\<rparr>"
  let ?h = "\<lambda>r. if jb_id r = j \<and> jb_project r = p then ?f r else r"
  obtain b0 where b0: "b0 \<in> set (jobs L)" "jb_id b0 = j" "jb_project b0 = p" using j job_of_SomeD by fastforce
  have d: "distinct (map jb_id (jobs L))" using i by (simp add: run_inv_def refs_ok_def)
  have "jb_project b = p" if "b \<in> set (jobs L)" "jb_id b = j" for b
    using d b0 that by (metis distinct_map inj_on_eq_iff)
  then have a: "jb_id b \<noteq> j \<and> jb_state b = ''running''" if "b \<in> set (jobs L)" "jb_state (?h b) = ''running''" for b
    using that s by (auto split: if_splits)
  have k: "keeps_job ?h" by (rule keeps_job_update) simp
  have "run_inv E (map ?h (jobs L)) (update_rows P (finish_row E' status d) (runs L))"
    using i st k a n by (rule run_inv_end_mailbox)
  then show ?thesis unfolding settle_job_def update_rows_def using M by (simp add: update_rows_def)
qed

lemma finish_run_for_mailbox_InrD:
  assumes f: "finish_run_for_mailbox E' p j run status state detail plan ck L = Inr L'"
  defines "P \<equiv> (\<lambda>r. rn_id r = run \<and> rn_project r = p \<and> rn_job r = Some j \<and> (rn_status r = ''running'' \<or>
     (rn_status r = ''queued'' \<and> status \<in> set [''cancelled'', ''failed'', ''verification_failed''])))"
  defines "M \<equiv> L\<lparr>runs := update_rows P (finish_row E' status (bounded_event_detail detail)) (runs L)\<rparr>"
  shows "\<not> active_status status" "state \<noteq> ''running''" "state \<noteq> ''verified''" "job_of L p j \<noteq> None"
    "jobs L' = jobs (settle_job p j state (attention_reason_for state detail) plan ck M)" "runs L' = runs M"
proof -
  note d = f [unfolded finish_run_for_mailbox_def Let_def guards]
  show "\<not> active_status status" using d by (intro terminal_status_inactive) auto
  show "state \<noteq> ''running''" using d by auto
  show "state \<noteq> ''verified''" "job_of L p j \<noteq> None" using d by blast+
  show "jobs L' = jobs (settle_job p j state (attention_reason_for state detail) plan ck M)" "runs L' = runs M"
    using d unfolding P_def M_def by fastforce+
qed

lemma finish_run_for_mailbox_inv:
  assumes f: "finish_run_for_mailbox E' p j run status state detail plan ck L = Inr L'"
    and i: "run_inv E (jobs L) (runs L)"
  shows "run_inv E (jobs L') (runs L')"
proof -
  let ?P = "\<lambda>r. rn_id r = run \<and> rn_project r = p \<and> rn_job r = Some j \<and> (rn_status r = ''running'' \<or>
     (rn_status r = ''queued'' \<and> status \<in> set [''cancelled'', ''failed'', ''verification_failed'']))"
  note d = finish_run_for_mailbox_InrD [OF f]
  have "run_inv E (jobs (settle_job p j state (attention_reason_for state detail) plan ck
        (L\<lparr>runs := update_rows ?P (finish_row E' status (bounded_event_detail detail)) (runs L)\<rparr>)))
      (runs (settle_job p j state (attention_reason_for state detail) plan ck
        (L\<lparr>runs := update_rows ?P (finish_row E' status (bounded_event_detail detail)) (runs L)\<rparr>)))"
    by (rule settle_inv [OF i d(1,2,4), where P = ?P]) simp_all
  then show ?thesis unfolding d(5,6) by simp
qed

lemma finish_run_with_evidence_InrD:
  assumes f: "finish_run_with_evidence E' p j run status state detail v ms plan ck L = Inr L'"
  shows "state \<noteq> ''running''" "job_of L p j \<noteq> None"
    "\<exists>M. same_core (L\<lparr>runs := update_rows (\<lambda>r. rn_id r = run \<and> rn_project r = p \<and> rn_job r = Some j \<and> rn_status r = ''running'')
           (finish_row E' ''completed'' (bounded_event_detail detail)) (runs L)\<rparr>) M \<and>
         same_core (settle_job p j state (attention_reason_for state detail) plan ck M) L'"
proof -
  note d = f [unfolded finish_run_with_evidence_def Let_def guards]
  show "state \<noteq> ''running''" using d by auto
  show "job_of L p j \<noteq> None" using d by blast
  let ?L1 = "L\<lparr>runs := update_rows (\<lambda>r. rn_id r = run \<and> rn_project r = p \<and> rn_job r = Some j \<and> rn_status r = ''running'')
           (finish_row E' ''completed'' (bounded_event_detail detail)) (runs L)\<rparr>"
  obtain out auth L3 L4 L6 where
    3: "upsert_evidence_projection E' j run v out auth
         (?L1\<lparr>evidence_history := evidence_history ?L1 @ [evidence_row_of E' j run v out auth]\<rparr>) = Inr L3"
    and 4: "insert_mismatches E' (refuse_mismatch j run) p j run ms (clear_mismatches j run L3) = Inr L4"
    and 6: "(if state = ''verified'' then maybe_emit_cutover_ready E' p
               (settle_job p j state (attention_reason_for state detail) plan ck L4)
             else Inr (settle_job p j state (attention_reason_for state detail) plan ck L4)) = Inr L6"
    and L': "\<exists>d. L' = add_event p (Some run) ''run_finished'' d (delete_processes run L6)"
    using d by blast
  have "same_core ?L1 L3" using same_core_projection [OF 3] by (simp add: same_core_def)
  moreover have "same_core L3 L4" using same_core_mismatches [OF 4] by (simp add: same_core_def clear_mismatches_def)
  ultimately have a: "same_core ?L1 L4" by (rule same_core_trans)
  have "same_core (settle_job p j state (attention_reason_for state detail) plan ck L4) L6"
    using 6 same_core_emit by (auto split: if_splits)
  then have "same_core (settle_job p j state (attention_reason_for state detail) plan ck L4) L'"
    using L' by (auto simp: same_core_def)
  with a show "\<exists>M. same_core ?L1 M \<and> same_core (settle_job p j state (attention_reason_for state detail) plan ck M) L'"
    by blast
qed

lemma finish_run_with_evidence_inv:
  assumes f: "finish_run_with_evidence E' p j run status state detail v ms plan ck L = Inr L'"
    and i: "run_inv E (jobs L) (runs L)"
  shows "run_inv E (jobs L') (runs L')"
proof -
  let ?P = "\<lambda>r. rn_id r = run \<and> rn_project r = p \<and> rn_job r = Some j \<and> rn_status r = ''running''"
  note d = finish_run_with_evidence_InrD [OF f]
  obtain M where M: "same_core (L\<lparr>runs := update_rows ?P (finish_row E' ''completed'' (bounded_event_detail detail)) (runs L)\<rparr>) M"
    and L': "same_core (settle_job p j state (attention_reason_for state detail) plan ck M) L'"
    using d(3) by blast
  have e: "jobs L' = jobs (settle_job p j state (attention_reason_for state detail) plan ck M)"
    "runs L' = runs (settle_job p j state (attention_reason_for state detail) plan ck M)"
    using L' by (simp_all add: same_core_def)
  show ?thesis unfolding e
    by (rule settle_inv [OF i _ d(1,2), where P = ?P and status = "''completed''"])
      (use M in \<open>simp_all add: same_core_def\<close>)
qed

lemma audit_finish_effect:
  assumes "finish_verification_only_run E p j run v ms folders detail L = Inr L'"
  shows "jobs L' = jobs L" "projects L' = projects L" "holds L' = holds L" "evidence_table L' = evidence_table L"
    "runs L' = update_rows (\<lambda>r. rn_id r = run \<and> rn_project r = p \<and> rn_job r = Some j \<and> rn_status r = ''running'')
      (finish_row E ''completed'' (bounded_event_detail detail)) (runs L)"
proof -
  let ?L0 = "L\<lparr>runs := update_rows (\<lambda>r. rn_id r = run \<and> rn_project r = p \<and> rn_job r = Some j \<and> rn_status r = ''running'')
      (finish_row E ''completed'' (bounded_event_detail detail)) (runs L)\<rparr>"
  have "same_core ?L0 L' \<and> evidence_table L' = evidence_table L"
    using assms unfolding finish_verification_only_run_def Let_def guards
  proof (elim exE conjE)
    fix L1 L3 L4
    assume 1: "insert_verification_folders run folders ?L0 = Inr L1"
      and 3: "(case ev_flags v of None \<Rightarrow> Inr (L1\<lparr>evidence_history := evidence_history L1 @
               [evidence_row_of E j run v (verification_outcome v) (authoritative v)]\<rparr>)
        | Some f \<Rightarrow>
          if \<not> flags_consistent f \<or> \<not> flags_fit f then Inl Invalid_Query
          else if list_ex (\<lambda>g. fl_job g = j \<and> fl_run g = run) (flag_table (L1\<lparr>evidence_history := evidence_history L1 @
               [evidence_row_of E j run v (verification_outcome v) (authoritative v)]\<rparr>)) then Inl Constraint_Violation
          else Inr (L1\<lparr>evidence_history := evidence_history L1 @
               [evidence_row_of E j run v (verification_outcome v) (authoritative v)],
               flag_table := flag_table (L1\<lparr>evidence_history := evidence_history L1 @
               [evidence_row_of E j run v (verification_outcome v) (authoritative v)]\<rparr>) @ [\<lparr>fl_job = j, fl_run = run, fl_flags = f\<rparr>]\<rparr>)) = Inr L3"
      and 4: "insert_mismatches E (refuse_audit_mismatch j run) p j run ms (clear_mismatches j run L3) = Inr L4"
      and e: "add_event p (Some run) ''verification_finished'' (bounded_event_detail detail) L4 = L'"
    have "same_core ?L0 L1 \<and> evidence_table L1 = evidence_table L"
      using same_core_folders [OF 1] evidence_folders [OF 1] by simp
    moreover have "same_core L1 L3 \<and> evidence_table L3 = evidence_table L1"
      using 3 by (auto simp: same_core_def split: option.splits if_splits)
    moreover have "same_core L3 L4 \<and> evidence_table L4 = evidence_table L3"
      using same_core_mismatches [OF 4] by (simp add: same_core_def clear_mismatches_def)
    ultimately show ?thesis unfolding e [symmetric] by (simp add: same_core_def)
  qed
  then show "jobs L' = jobs L" "projects L' = projects L" "holds L' = holds L" "evidence_table L' = evidence_table L"
    "runs L' = update_rows (\<lambda>r. rn_id r = run \<and> rn_project r = p \<and> rn_job r = Some j \<and> rn_status r = ''running'')
      (finish_row E ''completed'' (bounded_event_detail detail)) (runs L)"
    by (simp_all add: same_core_def)
qed

lemma finish_verification_only_run_inv:
  assumes f: "finish_verification_only_run E' p j run v ms folders detail L = Inr L'"
    and c: "finishes_no_transfer L run" and i: "run_inv E (jobs L) (runs L)"
  shows "run_inv E (jobs L') (runs L')"
  unfolding audit_finish_effect(1,5) [OF f]
  by (rule run_inv_end_other [OF i]) (use c in \<open>auto simp: finishes_no_transfer_def list_all_iff\<close>)

lemma cancel_held_inv:
  assumes f: "cancel_held_child_run E' p j run detail L = Inr L'" and i: "run_inv E (jobs L) (runs L)"
  shows "run_inv E (jobs L') (runs L')"
proof -
  let ?P = "\<lambda>r. rn_id r = run \<and> rn_project r = p \<and> rn_job r = Some j \<and> rn_status r = ''queued''"
  let ?g = "\<lambda>r. if ?P r then finish_row E' ''cancelled'' (bounded_event_detail detail) r else r"
  have e: "jobs L' = jobs L" "runs L' = map ?g (runs L)"
    using f unfolding cancel_held_child_run_def Let_def guards by (auto simp: update_rows_def)
  have "ends ?g (\<lambda>b. b) (jobs L) (runs L)"
    by (auto simp: ends_def keeps_run_finish)
  from run_inv_ends [OF i this] show ?thesis by (simp add: e)
qed

section \<open>Recovery\<close>

definition recovered_run :: "environment \<Rightarrow> run_row list \<Rightarrow> run_row \<Rightarrow> run_row" where
  "recovered_run E rs r =
     (let r1 = (if rn_status r = ''running'' then finish_row E ''abandoned'' RESTARTED r else r) in
      if rn_status r1 = ''queued'' \<and> abandoned_parent (abandon_running E rs) (rn_parent r1)
      then finish_row E ''abandoned'' ''Application restarted before batch child was claimed'' r1 else r1)"

lemma abandon_unclaimed_eq: "abandon_unclaimed E (abandon_running E rs) = map (recovered_run E rs) rs"
  unfolding abandon_unclaimed_def update_rows_def abandon_running_def recovered_run_def Let_def by simp

text \<open>By the invariant a queued child's parent is running, so recovery ends it too: nothing stays active.\<close>

lemma recovered_inactive:
  assumes i: "run_inv E0 js rs" and r: "r \<in> set rs"
  shows "\<not> active_run (recovered_run E rs r)"
proof (cases "rn_status r = ''queued''")
  case True
  then obtain q where q: "rn_parent r = Some q" "transfer_run r"
    using i r unfolding run_inv_def parents_run_def by blast
  then obtain s where s: "s \<in> set rs" "rn_id s = q" "rn_job s = None" "rn_status s = ''running''"
    using i r True queued_active(1) unfolding run_inv_def parents_run_def by blast
  then have "abandoned_parent (abandon_running E rs) (Some q)"
    unfolding abandoned_parent_def abandon_running_def list_ex_iff option.case set_update_rows
    by (auto simp: finish_row_def intro!: bexI [of _ "finish_row E ''abandoned'' RESTARTED s"])
  then show ?thesis using True q by (simp add: recovered_run_def active_run_def)
next
  case False
  then show ?thesis by (auto simp: recovered_run_def Let_def active_run_def active_status_def)
qed

lemma keeps_recovered: "keeps_run (recovered_run E rs)"
  by (auto simp: keeps_run_def recovered_run_def Let_def active_run_def)

lemma recover_InrD:
  assumes "recover_abandoned_jobs_preserving E' preserved L = Inr (L', n)"
  shows "jobs L' = map (\<lambda>b. if jb_state b = ''running'' then b\<lparr>jb_state := ''attention'',
           jb_attention_reason := Some ''process_identity_unverified''\<rparr> else b) (jobs L)"
    "runs L' = map (recovered_run E' (runs L)) (runs L)"
    "n = count_rows (\<lambda>b. jb_state b = ''running'') (jobs L)"
    "holds L' = holds L" "projects L' = projects L" "cutovers L' = cutovers L" "acceptances L' = acceptances L"
proof -
  obtain L2 where L2: "insert_processes preserved (L\<lparr>jobs := update_rows (\<lambda>j. jb_state j = ''running'')
                   (\<lambda>j. j\<lparr>jb_state := ''attention'', jb_attention_reason := Some ''process_identity_unverified''\<rparr>) (jobs L),
                 runs := abandon_unclaimed E' (abandon_running E' (runs L)), processes := []\<rparr>) = Inr L2"
    and L': "L' = fold recover_event (recovered_projects L) L2" "n = count_rows (\<lambda>b. jb_state b = ''running'') (jobs L)"
    using assms unfolding recover_abandoned_jobs_preserving_def Let_def guards by auto
  have c: "same_core L2 L'" unfolding L' by (rule same_core_fold_recover)
  show "jobs L' = map (\<lambda>b. if jb_state b = ''running'' then b\<lparr>jb_state := ''attention'',
           jb_attention_reason := Some ''process_identity_unverified''\<rparr> else b) (jobs L)"
    "runs L' = map (recovered_run E' (runs L)) (runs L)"
    "n = count_rows (\<lambda>b. jb_state b = ''running'') (jobs L)"
    "holds L' = holds L" "projects L' = projects L" "cutovers L' = cutovers L" "acceptances L' = acceptances L"
    using c same_core_processes [OF L2] L'(2)
    by (simp_all add: same_core_def update_rows_def abandon_unclaimed_eq)
qed

lemma recover_inv:
  assumes f: "recover_abandoned_jobs_preserving E' preserved L = Inr (L', n)" and i: "run_inv E (jobs L) (runs L)"
  shows "run_inv E (jobs L') (runs L')"
proof -
  let ?h = "\<lambda>b. if jb_state b = ''running'' then b\<lparr>jb_state := ''attention'',
           jb_attention_reason := Some ''process_identity_unverified''\<rparr> else b"
  have "keeps_job ?h" by (rule keeps_job_update) simp
  then have "ends (recovered_run E' (runs L)) ?h (jobs L) (runs L)"
    using recovered_inactive [OF i, of _ E'] by (auto simp: ends_def keeps_recovered)
  from run_inv_ends [OF i this] show ?thesis by (simp add: recover_InrD(1,2) [OF f])
qed

section \<open>Transactions that only change mailbox states, or neither table\<close>

lemma run_inv_states:
  assumes i: "run_inv E js rs" and s: "\<And>b. jb_state (f b) \<noteq> ''running''"
    and k: "\<And>b. jb_id (f b) = jb_id b \<and> jb_project (f b) = jb_project b \<and>
      jb_destination (f b) = jb_destination b \<and> jb_config (f b) = jb_config b"
  shows "run_inv E (update_rows P f js) rs"
  unfolding update_rows_def by (rule run_inv_mark [OF i keeps_job_update [OF k]]) (use s in \<open>auto split: if_splits\<close>)

lemma reopen_inv:
  assumes f: "reopen_project p reason L = Inr L'" and i: "run_inv E (jobs L) (runs L)"
  shows "run_inv E (jobs L') (runs L')"
proof -
  have e: "\<exists>P. jobs L' = update_rows P (\<lambda>j. j\<lparr>jb_state := ''attention'', jb_attention_reason := Some ''verification_incomplete''\<rparr>) (jobs L)"
    "runs L' = runs L"
    using f [unfolded reopen_project_def Let_def guards] by auto
  then show ?thesis using run_inv_states [OF i, of "\<lambda>j. j\<lparr>jb_state := ''attention'', jb_attention_reason := Some ''verification_incomplete''\<rparr>"]
    by auto
qed

lemma accept_InrD:
  assumes "accept_verification_difference E' p j operator reason L = Inr L'"
  shows "\<exists>P. jobs L' = update_rows P (\<lambda>r. r\<lparr>jb_state := ''verified_with_exceptions'', jb_attention_reason := None\<rparr>) (jobs L)"
    "runs L' = runs L" "holds L' = holds L" "cutovers L' = cutovers L" "evidence_table L' = evidence_table L"
    "projects L' = projects L \<or> projects L' = projects (set_phase p ''complete'' L) \<and> all_mailboxes_accepted L' p"
proof -
  obtain pj who rs L1 and h :: evidence_row where pj: "project_of L p = Some pj"
    and m: "maybe_emit_cutover_ready E' p (L\<lparr>acceptances := acceptances L @ [\<lparr>va_job_id = j, va_run_id = er_run h,
           va_operator = who, va_reason = rs, va_accepted_at = current_timestamp E'\<rparr>],
         jobs := update_rows (\<lambda>r. jb_id r = j \<and> jb_project r = p \<and> jb_state r = ''verification_difference'')
           (\<lambda>r. r\<lparr>jb_state := ''verified_with_exceptions'', jb_attention_reason := None\<rparr>) (jobs L)\<rparr>) = Inr L1"
    and L': "add_event p None ''verification_exception_accepted'' (bounded_event_detail (j @ '': accepted by '' @ who @ '': '' @ rs))
        (if pj_phase pj = phase_as_str Phase_Verification \<and> cutover_of L1 p = None \<and> all_mailboxes_accepted L1 p
         then add_event p None ''phase_changed'' ''complete'' (set_phase p ''complete'' L1) else L1) = L'"
    using assms [unfolded accept_verification_difference_def Let_def guards] by (elim exE conjE) (rule that)
  note d = same_core_emit [OF m, unfolded same_core_def]
  have q: "jobs L' = jobs L1" "runs L' = runs L1" "holds L' = holds L1" "cutovers L' = cutovers L1"
    "evidence_table L' = evidence_table L1" "acceptances L' = acceptances L1"
    unfolding L' [symmetric] by auto
  then show "\<exists>P. jobs L' = update_rows P (\<lambda>r. r\<lparr>jb_state := ''verified_with_exceptions'', jb_attention_reason := None\<rparr>) (jobs L)"
    "runs L' = runs L" "holds L' = holds L" "cutovers L' = cutovers L" "evidence_table L' = evidence_table L"
    using d by auto
  have "all_mailboxes_accepted L' p = all_mailboxes_accepted L1 p"
    using q by (simp add: all_mailboxes_accepted_def project_jobs_def accepted_def Let_def)
  moreover have "projects L' = projects L1 \<or> projects L' = projects (set_phase p ''complete'' L1) \<and> all_mailboxes_accepted L1 p"
    unfolding L' [symmetric] by simp
  moreover have "projects L1 = projects L" using d by simp
  ultimately show "projects L' = projects L \<or> projects L' = projects (set_phase p ''complete'' L) \<and> all_mailboxes_accepted L' p"
    by (auto simp: set_phase_def)
qed

lemma accept_inv:
  assumes f: "accept_verification_difference E' p j operator reason L = Inr L'" and i: "run_inv E (jobs L) (runs L)"
  shows "run_inv E (jobs L') (runs L')"
  using accept_InrD(1,2) [OF f] run_inv_states [OF i, of "\<lambda>r. r\<lparr>jb_state := ''verified_with_exceptions'', jb_attention_reason := None\<rparr>"]
  by auto

lemma advance_InrD:
  assumes "advance_cutover E' p conf L = Inr (L', st)"
  shows "\<exists>c. advance_check E' p conf L = Inr (st, c)"
    "jobs L' = (if st \<noteq> Stage_Completed then jobs (requeue_verified p L) else jobs L)" "runs L' = runs L"
    "holds L' = holds L" "acceptances L' = acceptances L"
    "projects L' = projects (set_phase p (stage_phase st) L)" "evidence_table L' = evidence_table L"
proof -
  obtain c where c: "advance_check E' p conf L = Inr (st, c)"
    using assms by (cases "advance_check E' p conf L") (auto simp: advance_cutover_def Let_def)
  then show "\<exists>c. advance_check E' p conf L = Inr (st, c)" by blast
  note d = assms [unfolded advance_cutover_def c sum.case prod.case Let_def Inr_eq_Inr prod.inject, THEN conjunct1, symmetric]
  show "jobs L' = (if st \<noteq> Stage_Completed then jobs (requeue_verified p L) else jobs L)" "runs L' = runs L"
    "holds L' = holds L" "acceptances L' = acceptances L" "projects L' = projects (set_phase p (stage_phase st) L)"
    "evidence_table L' = evidence_table L"
    unfolding d by (simp_all add: requeue_verified_def set_phase_def)
qed

lemma advance_inv:
  assumes f: "advance_cutover E' p conf L = Inr (L', st)" and i: "run_inv E (jobs L) (runs L)"
  shows "run_inv E (jobs L') (runs L')"
  using advance_InrD(2,3) [OF f] i run_inv_states [OF i, of "\<lambda>j. j\<lparr>jb_state := ''ready'', jb_attention_reason := None\<rparr>"]
  by (auto simp: requeue_verified_def)

lemma create_inv:
  assumes f: "create_project_with_mailbox E' p j name source destination sm dm L = Inr L'"
    and i: "run_inv E (jobs L) (runs L)"
  shows "run_inv E (jobs L') (runs L')"
proof -
  obtain b where b: "jobs L' = jobs L @ [b]" "runs L' = runs L" "jb_id b = j" "jb_state b = ''queued''"
    and n: "\<not> list_ex (\<lambda>r. jb_id r = j) (jobs L)"
    using f unfolding create_project_with_mailbox_def guards by auto
  from n have "jb_id b \<notin> set (map jb_id (jobs L))" by (auto simp: b list_ex_iff)
  then show ?thesis unfolding b(1,2) by (rule run_inv_new_job [OF i]) (simp add: b)
qed

lemma no_run_change:
  "transition p ph L = Inr L' \<Longrightarrow> jobs L' = jobs L \<and> runs L' = runs L"
  "hold_project E' p operator reason L = Inr (L', h) \<Longrightarrow> jobs L' = jobs L \<and> runs L' = runs L"
  "release_project_hold p operator L = Inr (L', h) \<Longrightarrow> jobs L' = jobs L \<and> runs L' = runs L"
  "clear_active_processes_after_review L = Inr L' \<Longrightarrow> jobs L' = jobs L \<and> runs L' = runs L"
  "clear_processes run L = Inr L' \<Longrightarrow> jobs L' = jobs L \<and> runs L' = runs L"
  "register_process a L = Inr L' \<Longrightarrow> jobs L' = jobs L \<and> runs L' = runs L"
  "record_engine_version run version L = Inr L' \<Longrightarrow> jobs L' = jobs L \<and> runs L' = runs L"
  "create_cutover_workflow p scheduled window L = Inr L' \<Longrightarrow> jobs L' = jobs L \<and> runs L' = runs L"
  "approve_cutover E' p operator L = Inr L' \<Longrightarrow> jobs L' = jobs L \<and> runs L' = runs L"
  "attest_cutover_source_quiescence E' p operator text L = Inr L' \<Longrightarrow> jobs L' = jobs L \<and> runs L' = runs L"
proof -
  show "transition p ph L = Inr L' \<Longrightarrow> jobs L' = jobs L \<and> runs L' = runs L"
    unfolding transition_def guards by auto
  show "hold_project E' p operator reason L = Inr (L', h) \<Longrightarrow> jobs L' = jobs L \<and> runs L' = runs L"
    unfolding hold_project_def Let_def guards by (auto split: option.splits)
  show "release_project_hold p operator L = Inr (L', h) \<Longrightarrow> jobs L' = jobs L \<and> runs L' = runs L"
    unfolding release_project_hold_def guards by auto
  show "clear_active_processes_after_review L = Inr L' \<Longrightarrow> jobs L' = jobs L \<and> runs L' = runs L"
    unfolding clear_active_processes_after_review_def by auto
  show "clear_processes run L = Inr L' \<Longrightarrow> jobs L' = jobs L \<and> runs L' = runs L"
    unfolding clear_processes_def by auto
  show "register_process a L = Inr L' \<Longrightarrow> jobs L' = jobs L \<and> runs L' = runs L"
    unfolding register_process_def guards by auto
  show "record_engine_version run version L = Inr L' \<Longrightarrow> jobs L' = jobs L \<and> runs L' = runs L"
    unfolding record_engine_version_def Let_def guards by auto
  show "create_cutover_workflow p scheduled window L = Inr L' \<Longrightarrow> jobs L' = jobs L \<and> runs L' = runs L"
    unfolding create_cutover_workflow_def guards by auto
  show "approve_cutover E' p operator L = Inr L' \<Longrightarrow> jobs L' = jobs L \<and> runs L' = runs L"
    unfolding approve_cutover_def guards by auto
  show "attest_cutover_source_quiescence E' p operator text L = Inr L' \<Longrightarrow> jobs L' = jobs L \<and> runs L' = runs L"
  proof -
    assume "attest_cutover_source_quiescence E' p operator text L = Inr L'"
    then obtain M where M: "maybe_emit_cutover_ready E' p (maybe_emit_cutover_verification_started E' p M) = Inr L'"
      and "jobs M = jobs L" "runs M = runs L"
      unfolding attest_cutover_source_quiescence_def guards by auto
    moreover have "same_core M (maybe_emit_cutover_verification_started E' p M)"
      by (simp add: maybe_emit_cutover_verification_started_def split: option.split)
    ultimately show ?thesis using same_core_emit [OF M] by (simp add: same_core_def)
  qed
qed

lemma create_batch_queue_inv:
  assumes f: "create_batch_queue E' p job_id plan_id name source destination rows L = Inr L'"
    and i: "run_inv E (jobs L) (runs L)"
  shows "run_inv E (jobs L') (runs L')"
proof -
  obtain new where new: "jobs L' = jobs L @ new" "list_all (\<lambda>b. jb_state b = ''queued'') new" "distinct (map jb_id new)"
    "set (map jb_id new) \<inter> set (map jb_id (jobs L)) = {}"
    using create_batch_queue_InrD(1) [OF f] unfolding adds_queued_jobs_def by blast
  then have "list_all (\<lambda>b. jb_state b \<noteq> ''running'') new" by (auto simp: list_all_iff)
  then show ?thesis unfolding new(1) create_batch_queue_InrD(3) [OF f] by (rule run_inv_new_jobs [OF i new(3,4)])
qed

lemma update_queue_plans_inv:
  assumes f: "update_queue_plans p updates L = Inr (L', n)" and i: "run_inv E (jobs L) (runs L)"
  shows "run_inv E (jobs L') (runs L')"
proof -
  obtain g where g: "jobs L' = map g (jobs L)" "keeps_identity g" and r: "runs L' = runs L"
    using update_queue_plans_effect [OF f] unfolding updates_deltas_def by blast
  show ?thesis unfolding g(1) r
    by (rule run_inv_mark [OF i]) (use g(2) in \<open>auto simp: keeps_job_def keeps_identity_def\<close>)
qed

end
