(* ===== verification/Ledger_Safety.thy ===== *)
theory Ledger_Safety
  imports Ledger_Admission Ledger_Ending
begin

text \<open>
  The ledger as a state machine: every transaction is a step, and the ownership invariant holds in every
  state that steps reach. Two duties of the callers are part of the steps, because the store does not
  check them: \<^verbatim>\<open>finish_run\<close> and \<^verbatim>\<open>finish_verification_only_run\<close> are used for batch parents and audit runs
  (\<^verbatim>\<open>controller/poll_completion.rs\<close>, \<^verbatim>\<open>cli/evidence.rs\<close>), and a transfer never takes the engine name that
  marks an audit.
\<close>

section \<open>Steps\<close>

definition at_time :: "environment \<Rightarrow> int \<Rightarrow> str \<Rightarrow> environment" where
  "at_time E now stamp = E\<lparr>utc_now := now, current_timestamp := stamp\<rparr>"

inductive ledger_step :: "environment \<Rightarrow> ledger \<Rightarrow> ledger \<Rightarrow> bool" for E where
  create: "create_project_with_mailbox E p j name source destination sm dm L = Inr L' \<Longrightarrow> ledger_step E L L'"
| phase: "transition p ph L = Inr L' \<Longrightarrow> ledger_step E L L'"
| reopen: "reopen_project p reason L = Inr L' \<Longrightarrow> ledger_step E L L'"
| hold: "hold_project (at_time E now stamp) p operator reason L = Inr (L', h) \<Longrightarrow> ledger_step E L L'"
| cancel_held: "cancel_held_child_run (at_time E now stamp) p j run detail L = Inr L' \<Longrightarrow> ledger_step E L L'"
| release: "release_project_hold p operator L = Inr (L', h) \<Longrightarrow> ledger_step E L L'"
| recover: "recover_abandoned_jobs_preserving (at_time E now stamp) preserved L = Inr (L', n) \<Longrightarrow> ledger_step E L L'"
| clear_all: "clear_active_processes_after_review L = Inr L' \<Longrightarrow> ledger_step E L L'"
| clear_run: "clear_processes run L = Inr L' \<Longrightarrow> ledger_step E L L'"
| register: "register_process a L = Inr L' \<Longrightarrow> ledger_step E L L'"
| audit: "begin_verification_run_with_baseline (at_time E now stamp) p j run transfer snapshot L = Inr L' \<Longrightarrow> ledger_step E L L'"
| begin_run: "begin_run_with_snapshot (at_time E now stamp) p j run engine snapshot L = Inr L' \<Longrightarrow>
     engine \<noteq> VERIFICATION_ENGINE \<Longrightarrow> ledger_step E L L'"
| begin_batch: "begin_batch_run_with_children (at_time E now stamp) p js run engine expected snapshot plans ids L = Inr (L', cs) \<Longrightarrow>
     engine \<noteq> VERIFICATION_ENGINE \<Longrightarrow> list_all (\<lambda>b. bp_engine b \<noteq> VERIFICATION_ENGINE) plans \<Longrightarrow> ledger_step E L L'"
| claim: "claim_batch_mailbox_for_child (at_time E now stamp) p j parent child L = Inr L' \<Longrightarrow> ledger_step E L L'"
| finish: "finish_run (at_time E now stamp) run status detail L = Inr L' \<Longrightarrow> finishes_no_transfer L run \<Longrightarrow> ledger_step E L L'"
| settle: "finish_run_for_mailbox (at_time E now stamp) p j run status state detail plan checkpoint L = Inr L' \<Longrightarrow> ledger_step E L L'"
| evidence_commit: "finish_run_with_evidence (at_time E now stamp) p j run status state detail v ms plan checkpoint L = Inr L' \<Longrightarrow>
     ledger_step E L L'"
| audit_finish: "finish_verification_only_run (at_time E now stamp) p j run v ms folders detail L = Inr L' \<Longrightarrow>
     finishes_no_transfer L run \<Longrightarrow> ledger_step E L L'"
| accept: "accept_verification_difference (at_time E now stamp) p j operator reason L = Inr L' \<Longrightarrow> ledger_step E L L'"
| engine_version: "record_engine_version run version L = Inr L' \<Longrightarrow> ledger_step E L L'"
| plan_cutover: "create_cutover_workflow p scheduled window L = Inr L' \<Longrightarrow> ledger_step E L L'"
| approve: "approve_cutover (at_time E now stamp) p operator L = Inr L' \<Longrightarrow> ledger_step E L L'"
| attest: "attest_cutover_source_quiescence (at_time E now stamp) p operator text L = Inr L' \<Longrightarrow> ledger_step E L L'"
| advance: "advance_cutover (at_time E now stamp) p confirmation L = Inr (L', next_stage) \<Longrightarrow> ledger_step E L L'"
| event: "record_event p kind detail L = Inr L' \<Longrightarrow> ledger_step E L L'"
| queue: "create_batch_queue E p job_id plan_id name source destination rows L = Inr L' \<Longrightarrow> ledger_step E L L'"
| queue_plans: "update_queue_plans p updates L = Inr (L', n) \<Longrightarrow> ledger_step E L L'"
| run_events: "record_events_for_runs_batch superseded es L = Inr L' \<Longrightarrow> ledger_step E L L'"

definition empty_ledger :: ledger where
  "empty_ledger =
     \<lparr>projects = [], jobs = [], runs = [], processes = [], events = [], holds = [], cutovers = [], acceptances = [],
      evidence_table = [], evidence_history = [], flag_table = [], engine_versions = [], mismatches = [], passes = [],
      pass_folders = [], verification_folders = [], batch_plans = [], queue_facts = []\<rparr>"

text \<open>The interface between the steps of a store and the invariants proved of it.\<close>

locale step_invariant =
  fixes step :: "'s \<Rightarrow> 's \<Rightarrow> bool" and inv :: "'s \<Rightarrow> bool"
  assumes step_keeps: "inv s \<Longrightarrow> step s t \<Longrightarrow> inv t"
begin

lemma reach_keeps: "step\<^sup>*\<^sup>* s t \<Longrightarrow> inv s \<Longrightarrow> inv t"
  by (induction rule: rtranclp_induct) (blast intro: step_keeps)+

end

definition ledger_inv :: "environment \<Rightarrow> ledger \<Rightarrow> bool" where
  "ledger_inv E L \<longleftrightarrow> run_inv E (jobs L) (runs L)"

lemma job_lock_at_time [simp]: "job_lock (at_time E now stamp) j = job_lock E j"
  by (simp add: job_lock_def at_time_def)

lemma conflict_at_time [simp]:
  "destination_lock_conflict (at_time E now stamp) cs xs L = destination_lock_conflict E cs xs L"
  by (simp add: destination_lock_conflict_def)

section \<open>Ownership\<close>

lemma run_inv_at_time: "run_inv (at_time E now stamp) js rs = run_inv E js rs"
  by (simp add: run_inv_def locks_ok_def)

lemma begin_at_time:
  "begin_verification_run_with_baseline (at_time E now stamp) p j run transfer snapshot L = Inr L' \<Longrightarrow>
     run_inv E (jobs L) (runs L) \<Longrightarrow> run_inv E (jobs L') (runs L')"
  "begin_run_with_snapshot (at_time E now stamp) p j run engine snapshot L = Inr L' \<Longrightarrow> engine \<noteq> VERIFICATION_ENGINE \<Longrightarrow>
     run_inv E (jobs L) (runs L) \<Longrightarrow> run_inv E (jobs L') (runs L')"
  "begin_batch_run_with_children (at_time E now stamp) p js run engine expected snapshot plans cs L = Inr (L', cs') \<Longrightarrow>
     engine \<noteq> VERIFICATION_ENGINE \<Longrightarrow> list_all (\<lambda>b. bp_engine b \<noteq> VERIFICATION_ENGINE) plans \<Longrightarrow>
     run_inv E (jobs L) (runs L) \<Longrightarrow> run_inv E (jobs L') (runs L')"
  using begin_verification_inv [where E = "at_time E now stamp"] begin_run_inv [where E = "at_time E now stamp"]
    begin_batch_inv [where E = "at_time E now stamp"] run_inv_at_time
  by metis+

lemma ledger_step_inv: "ledger_step E L L' \<Longrightarrow> ledger_inv E L \<Longrightarrow> ledger_inv E L'"
  unfolding ledger_inv_def
proof (induction rule: ledger_step.induct)
  case create with create_inv show ?case by metis
next
  case reopen with reopen_inv show ?case by metis
next
  case cancel_held with cancel_held_inv show ?case by metis
next
  case recover with recover_inv show ?case by metis
next
  case audit with begin_at_time(1) show ?case by metis
next
  case begin_run with begin_at_time(2) show ?case by metis
next
  case begin_batch with begin_at_time(3) show ?case by metis
next
  case claim with claim_inv show ?case by metis
next
  case finish with finish_run_inv show ?case by metis
next
  case settle with finish_run_for_mailbox_inv show ?case by metis
next
  case evidence_commit with finish_run_with_evidence_inv show ?case by metis
next
  case audit_finish with finish_verification_only_run_inv show ?case by metis
next
  case accept with accept_inv show ?case by metis
next
  case advance with advance_inv show ?case by metis
next
  case phase from no_run_change(1) [OF phase(1)] phase show ?case by simp
next
  case hold from no_run_change(2) [OF hold(1)] hold show ?case by simp
next
  case release from no_run_change(3) [OF release(1)] release show ?case by simp
next
  case clear_all from no_run_change(4) [OF clear_all(1)] clear_all show ?case by simp
next
  case clear_run from no_run_change(5) [OF clear_run(1)] clear_run show ?case by simp
next
  case register from no_run_change(6) [OF register(1)] register show ?case by simp
next
  case engine_version from no_run_change(7) [OF engine_version(1)] engine_version show ?case by simp
next
  case plan_cutover from no_run_change(8) [OF plan_cutover(1)] plan_cutover show ?case by simp
next
  case approve from no_run_change(9) [OF approve(1)] approve show ?case by simp
next
  case attest from no_run_change(10) [OF attest(1)] attest show ?case by simp
next
  case event from recording_same_core(1) [OF event(1)] event show ?case by (simp add: same_core_def)
next
  case queue with create_batch_queue_inv show ?case by metis
next
  case queue_plans with update_queue_plans_inv show ?case by metis
next
  case run_events from recording_same_core(2) [OF run_events(1)] run_events show ?case by (simp add: same_core_def)
qed

interpretation own: step_invariant "ledger_step E" "ledger_inv E" for E
  by unfold_locales (rule ledger_step_inv)

lemma empty_ledger_inv: "ledger_inv E empty_ledger"
  by (simp add: ledger_inv_def empty_ledger_def run_inv_def refs_ok_def one_active_def owned_def parents_run_def locks_ok_def)

lemma reachable_inv: "(ledger_step E)\<^sup>*\<^sup>* empty_ledger L \<Longrightarrow> run_inv E (jobs L) (runs L)"
  using own.reach_keeps empty_ledger_inv unfolding ledger_inv_def by blast

lemma run_inv_owner:
  assumes i: "run_inv E js rs" and b: "b \<in> set js" "jb_state b = ''running''"
  shows "\<exists>r \<in> set rs. rn_job r = Some (jb_id b) \<and> rn_status r = ''running'' \<and> rn_engine r \<noteq> VERIFICATION_ENGINE \<and>
     (\<forall>s \<in> set rs. rn_job s = Some (jb_id b) \<and> active_run s \<longrightarrow> s = r)"
proof -
  obtain r where r: "r \<in> set rs" "rn_job r = Some (jb_id b)" "rn_status r = ''running''" "transfer_run r"
    using i b unfolding run_inv_def owned_def by blast
  then have "s = r" if "s \<in> set rs" "rn_job s = Some (jb_id b)" "active_run s" for s
    using i that queued_active(2) unfolding run_inv_def one_active_def mailbox_run_def by blast
  moreover have "rn_engine r \<noteq> VERIFICATION_ENGINE" using r(4) by (simp add: transfer_run_def)
  ultimately show ?thesis using r(1-3) by blast
qed

section \<open>Properties\<close>

text \<open>
  C1: in every state that the transactions reach from an empty ledger, a mailbox recorded as running is owned
  by exactly one active run, which is a running transfer; and two active runs whose mailboxes share a
  destination lock are children of one batch.
\<close>

theorem mailbox_has_one_owner:
  assumes reach: "(ledger_step E)\<^sup>*\<^sup>* empty_ledger L"
  shows "(\<forall>b \<in> set (jobs L). jb_state b = ''running'' \<longrightarrow>
            (\<exists>r \<in> set (runs L). rn_job r = Some (jb_id b) \<and> rn_status r = ''running'' \<and> rn_engine r \<noteq> VERIFICATION_ENGINE \<and>
               (\<forall>s \<in> set (runs L). rn_job s = Some (jb_id b) \<and> active_run s \<longrightarrow> s = r))) \<and>
         (\<forall>r \<in> set (runs L). \<forall>s \<in> set (runs L). \<forall>a \<in> set (jobs L). \<forall>b \<in> set (jobs L).
            active_run r \<and> active_run s \<and> r \<noteq> s \<and> rn_job r = Some (jb_id a) \<and> rn_job s = Some (jb_id b) \<and>
            job_lock E a = job_lock E b \<longrightarrow> rn_parent r = rn_parent s \<and> rn_parent r \<noteq> None)"
proof -
  have i: "run_inv E (jobs L) (runs L)" by (rule reachable_inv [OF reach])
  have "rn_parent r = rn_parent s \<and> rn_parent r \<noteq> None"
    if h: "r \<in> set (runs L)" "s \<in> set (runs L)" "a \<in> set (jobs L)" "b \<in> set (jobs L)"
      "active_run r \<and> active_run s \<and> r \<noteq> s \<and> rn_job r = Some (jb_id a) \<and> rn_job s = Some (jb_id b) \<and>
       job_lock E a = job_lock E b" for r s a b
  proof -
    have m: "mailbox_run r (jb_id a)" "mailbox_run s (jb_id b)" using h by (simp_all add: mailbox_run_def)
    have "jb_id a \<noteq> jb_id b"
    proof
      assume "jb_id a = jb_id b"
      then have "r = s" using i h(1,2) m unfolding run_inv_def one_active_def by metis
      then show False using h(5) by blast
    qed
    then show ?thesis using i h m unfolding run_inv_def locks_ok_def by blast
  qed
  then show ?thesis using run_inv_owner [OF i] by blast
qed

definition demo_env :: environment where
  "demo_env =
     \<lparr>utc_now = 0, current_timestamp = ''2026-01-01 00:00:00'', parse_timestamp = (\<lambda>_. Some 0), parse_rfc3339 = (\<lambda>_. Some 1),
      to_rfc3339 = (\<lambda>_. ''2026-01-01T00:15:00Z''), lock_identity = (\<lambda>d _. d), destination_identity = (\<lambda>d _. d),
      sha256_hex = (\<lambda>_. []), base64_decode = (\<lambda>_. None), crc32 = (\<lambda>_. 0)\<rparr>"

definition demo_created :: ledger where
  "demo_created = projr (create_project_with_mailbox demo_env ''p'' ''j'' ''demo'' ''a'' ''b'' ''u@a'' ''u@b'' empty_ledger)"

definition demo_running :: ledger where
  "demo_running = projr (begin_run_with_snapshot (at_time demo_env 0 []) ''p'' ''j'' ''r'' ''imapsync'' [] demo_created)"

lemma not_isl_eq: "\<not> isl x \<Longrightarrow> x = Inr (projr x)"
  by (cases x) auto

lemma demo_created_reach: "(ledger_step demo_env)\<^sup>*\<^sup>* empty_ledger demo_created"
proof -
  have "\<not> isl (create_project_with_mailbox demo_env ''p'' ''j'' ''demo'' ''a'' ''b'' ''u@a'' ''u@b'' empty_ledger)"
    by code_simp
  then have "ledger_step demo_env empty_ledger demo_created" unfolding demo_created_def
    by (rule create [OF not_isl_eq])
  then show ?thesis by blast
qed

lemma demo_running_reach: "(ledger_step demo_env)\<^sup>*\<^sup>* empty_ledger demo_running"
proof -
  have "\<not> isl (begin_run_with_snapshot (at_time demo_env 0 []) ''p'' ''j'' ''r'' ''imapsync'' [] demo_created)"
    by code_simp
  moreover have "''imapsync'' \<noteq> VERIFICATION_ENGINE" by code_simp
  ultimately have "ledger_step demo_env demo_created demo_running" unfolding demo_running_def
    by (rule begin_run [OF not_isl_eq])
  then show ?thesis using demo_created_reach by (rule rtranclp.rtrancl_into_rtrancl [rotated])
qed

theorem mailbox_has_one_owner_witness:
  "jb_state (hd (jobs demo_running)) = ''running'' \<and>
   (\<exists>r \<in> set (runs demo_running). rn_job r = Some (jb_id (hd (jobs demo_running))) \<and> rn_status r = ''running'')"
proof -
  have s: "jb_state (hd (jobs demo_running)) = ''running''" "hd (jobs demo_running) \<in> set (jobs demo_running)"
    by code_simp+
  show ?thesis using mailbox_has_one_owner [OF demo_running_reach, THEN conjunct1, rule_format, OF s(2,1)] s(1) by blast
qed

text \<open>
  C11: recovery after a restart leaves no run active and no mailbox running: every interrupted mailbox is
  turned over to the operator, whose count is reported, and the others are as they were.
\<close>

theorem recovery_leaves_nothing_running:
  assumes reach: "(ledger_step E)\<^sup>*\<^sup>* empty_ledger L"
    and rec: "recover_abandoned_jobs_preserving (at_time E now stamp) preserved L = Inr (L', n)"
  shows "list_all (\<lambda>r. \<not> active_run r) (runs L') \<and>
         jobs L' = map (\<lambda>b. if jb_state b = ''running'' then b\<lparr>jb_state := ''attention'',
             jb_attention_reason := Some ''process_identity_unverified''\<rparr> else b) (jobs L) \<and>
         n = count_rows (\<lambda>b. jb_state b = ''running'') (jobs L)"
  using recover_InrD(1-3) [OF rec] recovered_inactive [OF reachable_inv [OF reach]] by (simp add: list_all_iff)

theorem recovery_leaves_nothing_running_witness:
  "(\<exists>L'. recover_abandoned_jobs_preserving (at_time demo_env 0 []) [] demo_running = Inr (L', 1) \<and>
         list_all (\<lambda>r. \<not> active_run r) (runs L'))"
proof -
  have "\<not> isl (recover_abandoned_jobs_preserving (at_time demo_env 0 []) [] demo_running)" by code_simp
  moreover have "count_rows (\<lambda>b. jb_state b = ''running'') (jobs demo_running) = 1" by code_simp
  ultimately show ?thesis using recovery_leaves_nothing_running [OF demo_running_reach]
    by (metis not_isl_eq surj_pair)
qed

end
