(* ===== verification/Ledger_Effects.thy ===== *)
theory Ledger_Effects
  imports Ledger_Safety
begin

text \<open>
  The tables each transaction leaves alone, as one fact per transaction: what a guarantee over sequences of
  transactions needs of the transactions that have nothing to do with it.
\<close>

lemma find_append: "find P (xs @ ys) = (case find P xs of None \<Rightarrow> find P ys | Some x \<Rightarrow> Some x)"
  by (induction xs) auto

definition same_projects :: "ledger \<Rightarrow> ledger \<Rightarrow> bool" where
  "same_projects L L' \<longleftrightarrow> projects L' = projects L"

definition same_evidence :: "ledger \<Rightarrow> ledger \<Rightarrow> bool" where
  "same_evidence L L' \<longleftrightarrow> evidence_table L' = evidence_table L"

lemma same_evidence_invalidate [simp]:
  "evidence_table (invalidate_cutover_readiness_for_new_run p j run L) = evidence_table L"
  by (simp add: invalidate_cutover_readiness_for_new_run_def split: option.split)

lemma evidence_started [simp]: "evidence_table (maybe_emit_cutover_verification_started E p L) = evidence_table L"
  by (simp add: maybe_emit_cutover_verification_started_def split: option.split)

lemma same_core_started: "same_core L (maybe_emit_cutover_verification_started E p L)"
  by (simp add: maybe_emit_cutover_verification_started_def split: option.split)

lemma evidence_insert_run: "insert_run r L = Inr L' \<Longrightarrow> evidence_table L' = evidence_table L"
  unfolding insert_run_def guards by auto

definition only_runs :: "ledger \<Rightarrow> ledger \<Rightarrow> bool" where
  "only_runs L L' \<longleftrightarrow>
     projects L' = projects L \<and> jobs L' = jobs L \<and> holds L' = holds L \<and> cutovers L' = cutovers L \<and>
     acceptances L' = acceptances L \<and> evidence_table L' = evidence_table L"

lemma only_runs_trans: "only_runs A B \<Longrightarrow> only_runs B C \<Longrightarrow> only_runs A C"
  by (simp add: only_runs_def)

lemma only_runs_insert: "insert_run r L = Inr L' \<Longrightarrow> only_runs L L'"
  by (simp add: only_runs_def insert_run_InrD evidence_insert_run)

lemma only_runs_invalidate: "only_runs L (invalidate_cutover_readiness_for_new_run p j run L)"
  using same_core_invalidate [of L p j run] by (simp add: only_runs_def same_core_def)

definition batch_child :: "str \<Rightarrow> str \<Rightarrow> run_row \<Rightarrow> bool" where
  "batch_child p run r \<longleftrightarrow> rn_project r = p \<and> rn_parent r = Some run \<and> rn_job r \<noteq> None \<and> rn_status r = ''queued''"

lemma insert_children_effect:
  "insert_children p run engine phase plans i cs L = Inr L' \<Longrightarrow>
     only_runs L L' \<and> (\<exists>new. runs L' = runs L @ new \<and> list_all (batch_child p run) new)"
proof (induction p run engine phase plans i cs L rule: insert_children.induct)
  case (2 p run engine phase plans i j child rest L)
  show ?case using "2.prems" unfolding insert_children.simps Let_def guards
  proof (elim exE conjE)
    fix L1 assume n: "insert_run (new_run child p (Some j) (Some run)
         (case nth_opt plans i of None \<Rightarrow> engine | Some b \<Rightarrow> bp_engine b) phase
         (case nth_opt plans i of None \<Rightarrow> [] | Some b \<Rightarrow> bp_plan_snapshot b) ''queued'') L = Inr L1" (is "insert_run ?r L = _")
      and go: "insert_children p run engine phase plans (Suc i) rest
        (case case nth_opt plans i of None \<Rightarrow> None | Some x \<Rightarrow> bp_engine_version x of
           None \<Rightarrow> invalidate_cutover_readiness_for_new_run p j child L1
         | Some v \<Rightarrow> invalidate_cutover_readiness_for_new_run p j child L1\<lparr>engine_versions :=
             engine_versions (invalidate_cutover_readiness_for_new_run p j child L1) @ [(child, v)]\<rparr>) = Inr L'"
        (is "insert_children _ _ _ _ _ _ _ ?L2 = _")
    have e: "only_runs L1 ?L2" "runs ?L2 = runs L1"
      using only_runs_invalidate [of L1 p j child] same_core_invalidate [of L1 p j child]
      by (auto simp: only_runs_def same_core_def split: option.split)
    obtain new where new: "runs L' = runs ?L2 @ new" "list_all (batch_child p run) new" and o: "only_runs ?L2 L'"
      using "2.IH" [OF refl n refl go] by blast
    have "runs L' = runs L @ (?r # new)" using new(1) e(2) insert_run_InrD(1) [OF n] by simp
    moreover have "list_all (batch_child p run) (?r # new)" using new(2) by (simp add: batch_child_def)
    ultimately show ?case using only_runs_trans only_runs_insert [OF n] e(1) o by blast
  qed
qed (simp add: only_runs_def)

lemma evidence_processes: "insert_processes as L = Inr L' \<Longrightarrow> evidence_table L' = evidence_table L"
  by (induction as arbitrary: L) (fastforce split: if_splits)+

lemma evidence_recover_events: "evidence_table (fold recover_event ps L) = evidence_table L"
  by (induction ps arbitrary: L) (simp_all add: recover_event_def)

lemma evidence_unchanged:
  "create_project_with_mailbox E p j name source destination sm dm L = Inr L' \<Longrightarrow> same_evidence L L'"
  "transition p ph L = Inr L' \<Longrightarrow> same_evidence L L'"
  "reopen_project p reason L = Inr L' \<Longrightarrow> same_evidence L L'"
  "hold_project E p operator reason L = Inr (L', h) \<Longrightarrow> same_evidence L L'"
  "cancel_held_child_run E p j run detail L = Inr L' \<Longrightarrow> same_evidence L L'"
  "release_project_hold p operator L = Inr (L', h) \<Longrightarrow> same_evidence L L'"
  "clear_active_processes_after_review L = Inr L' \<Longrightarrow> same_evidence L L'"
  "clear_processes run L = Inr L' \<Longrightarrow> same_evidence L L'"
  "register_process a L = Inr L' \<Longrightarrow> same_evidence L L'"
  "claim_batch_mailbox_for_child E p j parent child L = Inr L' \<Longrightarrow> same_evidence L L'"
  "finish_run E run status detail L = Inr L' \<Longrightarrow> same_evidence L L'"
  "finish_run_for_mailbox E p j run status state detail plan checkpoint L = Inr L' \<Longrightarrow> same_evidence L L'"
  "record_engine_version run version L = Inr L' \<Longrightarrow> same_evidence L L'"
  "create_cutover_workflow p scheduled window L = Inr L' \<Longrightarrow> same_evidence L L'"
  "approve_cutover E p operator L = Inr L' \<Longrightarrow> same_evidence L L'"
  unfolding same_evidence_def create_project_with_mailbox_def transition_def reopen_project_def hold_project_def
    cancel_held_child_run_def release_project_hold_def clear_active_processes_after_review_def clear_processes_def
    register_process_def claim_batch_mailbox_for_child_def finish_run_def finish_run_for_mailbox_def
    record_engine_version_def create_cutover_workflow_def approve_cutover_def Let_def guards
  by ((elim exE conjE)?, force)+

lemma start_effects:
  "begin_verification_run_with_baseline E p j run transfer snapshot L = Inr L' \<Longrightarrow>
     only_runs L L' \<and> (\<exists>ph. runs L' = runs L @ [new_run run p (Some j) transfer VERIFICATION_ENGINE ph snapshot ''running''])"
  "begin_batch_run_with_children E p js run engine expected snapshot plans cs L = Inr (L', cs') \<Longrightarrow>
     only_runs L L' \<and> (\<exists>ph new. runs L' = runs L @ new_run run p None None engine ph snapshot ''running'' # new \<and>
       list_all (batch_child p run) new)"
proof -
  assume "begin_verification_run_with_baseline E p j run transfer snapshot L = Inr L'"
  then show "only_runs L L' \<and> (\<exists>ph. runs L' = runs L @ [new_run run p (Some j) transfer VERIFICATION_ENGINE ph snapshot ''running''])"
    unfolding begin_verification_run_with_baseline_def guards
  proof (elim conjE exE)
    fix pj L1 assume n: "insert_run (new_run run p (Some j) transfer VERIFICATION_ENGINE (pj_phase pj) snapshot ''running'') L = Inr L1"
      and e: "add_event p (Some run) ''verification_started'' (''verification-only ('' @ j @ '')'')
              (invalidate_cutover_readiness_for_new_run p j run L1) = L'"
    have "only_runs L1 L' \<and> runs L' = runs L1"
      unfolding e [symmetric] using same_core_invalidate [of L1 p j run] by (simp add: only_runs_def same_core_def)
    then show ?thesis using only_runs_trans [OF only_runs_insert [OF n]] insert_run_InrD(1) [OF n] by auto
  qed
next
  assume "begin_batch_run_with_children E p js run engine expected snapshot plans cs L = Inr (L', cs')"
  then show "only_runs L L' \<and> (\<exists>ph new. runs L' = runs L @ new_run run p None None engine ph snapshot ''running'' # new \<and>
       list_all (batch_child p run) new)"
    unfolding begin_batch_run_with_children_def guards
  proof (elim conjE exE)
    fix pj L1 L2
    assume n: "insert_run (new_run run p None None engine (pj_phase pj) snapshot ''running'') L = Inr L1"
      and c: "insert_children p run engine (pj_phase pj) plans 0 (zip js cs) L1 = Inr L2"
      and e: "(add_event p (Some run) ''run_started'' (engine @ '' ('' @ run @ ''); '' @ nat_to_string (length js) @ '' child jobs'') L2, cs) = (L', cs')"
    have "only_runs L2 L' \<and> runs L' = runs L2" using e by (auto simp: only_runs_def)
    then show ?thesis using only_runs_trans [OF only_runs_trans [OF only_runs_insert [OF n]]]
        insert_children_effect [OF c] insert_run_InrD(1) [OF n] by auto
  qed
qed

lemma begin_run_effect:
  assumes "begin_run_with_snapshot E p j run engine snapshot L = Inr L'"
  shows "\<exists>ph. runs L' = runs L @ [new_run run p (Some j) None engine ph snapshot ''running'']"
    "jobs L' = jobs (mark_running j L)" "projects L' = projects L" "holds L' = holds L"
    "cutovers L' = cutovers L" "acceptances L' = acceptances L" "same_evidence L L'"
proof -
  obtain pj L1 where n: "insert_run (new_run run p (Some j) None engine (pj_phase pj) snapshot ''running'') L = Inr L1"
    and pj: "project_of L p = Some pj"
    and e: "add_event p (Some run) ''run_started'' (engine @ '' ('' @ run @ '')'')
              (mark_running j (invalidate_cutover_readiness_for_new_run p j run L1)) = L'"
    using assms unfolding begin_run_with_snapshot_def guards by (elim conjE exE) (rule that)
  note d = insert_run_InrD [OF n] and o = same_core_invalidate [of L1 p j run, unfolded same_core_def]
  show "\<exists>ph. runs L' = runs L @ [new_run run p (Some j) None engine ph snapshot ''running'']"
    "jobs L' = jobs (mark_running j L)" "projects L' = projects L" "holds L' = holds L"
    "cutovers L' = cutovers L" "acceptances L' = acceptances L" "same_evidence L L'"
    unfolding e [symmetric] same_evidence_def using d o evidence_insert_run [OF n] by (auto simp: mark_running_def)
qed

text \<open>The remaining transactions that leave the evidence projection, and all that leave the phases.\<close>

lemma evidence_unchanged_later:
  "recover_abandoned_jobs_preserving E preserved L = Inr (L', n) \<Longrightarrow> same_evidence L L'"
  "accept_verification_difference E p j operator reason L = Inr L' \<Longrightarrow> same_evidence L L'"
  "attest_cutover_source_quiescence E p operator text L = Inr L' \<Longrightarrow> same_evidence L L'"
  "advance_cutover E p conf L = Inr (L', st) \<Longrightarrow> same_evidence L L'"
proof -
  show "same_evidence L L'" if "recover_abandoned_jobs_preserving E preserved L = Inr (L', n)"
    using that unfolding recover_abandoned_jobs_preserving_def Let_def guards same_evidence_def
    by (auto simp: evidence_recover_events dest!: evidence_processes)
  show "same_evidence L L'" if "accept_verification_difference E p j operator reason L = Inr L'"
    using accept_InrD(5) [OF that] by (simp add: same_evidence_def)
  show "same_evidence L L'" if "attest_cutover_source_quiescence E p operator text L = Inr L'"
    using that unfolding attest_cutover_source_quiescence_def Let_def guards same_evidence_def
    by (elim exE conjE) (drule same_core_emit, force)
  show "same_evidence L L'" if "advance_cutover E p conf L = Inr (L', st)"
    using advance_InrD(7) [OF that] by (simp add: same_evidence_def)
qed

lemma projects_unchanged:
  "hold_project E p operator reason L = Inr (L', h) \<Longrightarrow> same_projects L L'"
  "cancel_held_child_run E p j run detail L = Inr L' \<Longrightarrow> same_projects L L'"
  "release_project_hold p operator L = Inr (L', h) \<Longrightarrow> same_projects L L'"
  "clear_active_processes_after_review L = Inr L' \<Longrightarrow> same_projects L L'"
  "clear_processes run L = Inr L' \<Longrightarrow> same_projects L L'"
  "register_process a L = Inr L' \<Longrightarrow> same_projects L L'"
  "claim_batch_mailbox_for_child E p j parent child L = Inr L' \<Longrightarrow> same_projects L L'"
  "finish_run E run status detail L = Inr L' \<Longrightarrow> same_projects L L'"
  "finish_run_for_mailbox E p j run status state detail plan checkpoint L = Inr L' \<Longrightarrow> same_projects L L'"
  "record_engine_version run version L = Inr L' \<Longrightarrow> same_projects L L'"
  "create_cutover_workflow p scheduled window L = Inr L' \<Longrightarrow> same_projects L L'"
  unfolding same_projects_def hold_project_def
    cancel_held_child_run_def release_project_hold_def clear_active_processes_after_review_def clear_processes_def
    register_process_def claim_batch_mailbox_for_child_def finish_run_def finish_run_for_mailbox_def
    record_engine_version_def create_cutover_workflow_def Let_def guards
  by ((elim exE conjE)?, force)+

lemma projects_unchanged_later:
  "attest_cutover_source_quiescence E p operator text L = Inr L' \<Longrightarrow> same_projects L L'"
  "finish_run_with_evidence E p j run status state detail v ms plan checkpoint L = Inr L' \<Longrightarrow> same_projects L L'"
proof -
  show "same_projects L L'" if "attest_cutover_source_quiescence E p operator text L = Inr L'"
    using that unfolding attest_cutover_source_quiescence_def Let_def guards same_projects_def
    by (elim exE conjE) (drule same_core_emit, simp add: same_core_def same_core_started [unfolded same_core_def])
  show "same_projects L L'" if f: "finish_run_with_evidence E p j run status state detail v ms plan checkpoint L = Inr L'"
    using finish_run_with_evidence_InrD(3) [OF f] by (auto simp: same_core_def same_projects_def)
qed

end
