(* ===== verification/Ledger_Holds.thy ===== *)
theory Ledger_Holds
  imports Ledger_Effects
begin

text \<open>
  The operator's hold: while a project is held no transfer of it is queued, claimed or started by any
  transaction, and only the resume transaction ends the hold.
\<close>

section \<open>Nothing starts\<close>

definition starts_nothing :: "str \<Rightarrow> ledger \<Rightarrow> ledger \<Rightarrow> bool" where
  "starts_nothing p L L' \<longleftrightarrow>
     (\<forall>b' \<in> set (jobs L'). jb_project b' = p \<and> jb_state b' = ''running'' \<longrightarrow>
        (\<exists>b \<in> set (jobs L). jb_id b = jb_id b' \<and> jb_state b = ''running'')) \<and>
     (\<forall>r' \<in> set (runs L'). rn_project r' = p \<and> transfer_run r' \<and> active_run r' \<longrightarrow>
        (\<exists>r \<in> set (runs L). rn_id r = rn_id r' \<and> rn_status r = rn_status r'))"

lemma starts_nothing_ends:
  assumes "jobs L' = map h (jobs L)" "runs L' = map g (runs L)" "keeps_run g" "keeps_job h"
    "\<And>b. jb_state (h b) = ''running'' \<Longrightarrow> jb_state b = ''running''"
  shows "starts_nothing p L L'"
proof -
  have "\<exists>b \<in> set (jobs L). jb_id b = jb_id b' \<and> jb_state b = ''running''"
    if b': "b' \<in> h ` set (jobs L)" "jb_state b' = ''running''" for b'
    using b' assms(5) keeps_jobD(1) [OF assms(4)] by (metis imageE)
  moreover have "\<exists>r \<in> set (runs L). rn_id r = rn_id r' \<and> rn_status r = rn_status r'"
    if r': "r' \<in> g ` set (runs L)" "active_run r'" for r'
    using r' keeps_runD(1,7) [OF assms(3)] by (metis imageE)
  ultimately show ?thesis unfolding starts_nothing_def assms(1,2) set_map by blast
qed

lemma starts_nothing_update:
  assumes j: "jobs L' = update_rows Q f (jobs L)" and r: "runs L' = update_rows P (finish_row E s d) (runs L)"
    and s: "\<not> active_status s" and f: "\<And>b. jb_state (f b) \<noteq> ''running''"
    and k: "\<And>b. jb_id (f b) = jb_id b \<and> jb_project (f b) = jb_project b \<and>
      jb_destination (f b) = jb_destination b \<and> jb_config (f b) = jb_config b"
  shows "starts_nothing p L L'"
  by (rule starts_nothing_ends [OF j [unfolded update_rows_def] r [unfolded update_rows_def] keeps_run_finish [OF s]
        keeps_job_update [OF k]]) (use f in \<open>auto split: if_splits\<close>)

lemma starts_nothing_jobs:
  assumes j: "jobs L' = update_rows Q f (jobs L)" and r: "runs L' = runs L" and f: "\<And>b. jb_state (f b) \<noteq> ''running''"
    and k: "\<And>b. jb_id (f b) = jb_id b"
  shows "starts_nothing p L L'"
  using assms by (auto simp: starts_nothing_def set_update_rows split: if_splits)

lemma starts_nothing_runs:
  assumes "jobs L' = jobs L" "runs L' = update_rows P (finish_row E s d) (runs L)" "\<not> active_status s"
  shows "starts_nothing p L L'"
  by (rule starts_nothing_ends [where h = "\<lambda>b. b", OF _ assms(2) [unfolded update_rows_def] keeps_run_finish [OF assms(3)]])
    (simp_all add: assms(1))

lemma starts_nothing_same: "jobs L' = jobs L \<and> runs L' = runs L \<Longrightarrow> starts_nothing p L L'"
  by (auto simp: starts_nothing_def)

text \<open>A start refuses a held project, and concerns only the project it names.\<close>

lemma start_refusal_held: "project_hold_in L p = Some h \<Longrightarrow> start_refusal E p phase L \<noteq> None"
  by (simp add: start_refusal_def split: option.split)

lemma other_project_start:
  assumes i: "run_inv E (jobs L) (runs L)" and j: "job_of L q j = Some b" and b': "b' \<in> set (jobs L)" "jb_id b' = j"
  shows "jb_project b' = q"
proof -
  have "distinct (map jb_id (jobs L))" using i by (simp add: run_inv_def refs_ok_def)
  then have "b' = b" using job_of_SomeD [OF j] b' by (metis distinct_map inj_on_eq_iff)
  then show ?thesis using job_of_SomeD [OF j] by simp
qed

lemma begin_run_other:
  assumes f: "begin_run_with_snapshot E' q j run engine snapshot L = Inr L'" and h: "project_hold_in L p = Some h"
    and i: "run_inv E (jobs L) (runs L)"
  shows "starts_nothing p L L'"
proof -
  from f obtain pj jb L1 where "project_of L q = Some pj" and j: "job_of L q j = Some jb"
    and "insert_run (new_run run q (Some j) None engine (pj_phase pj) snapshot ''running'') L = Inr L1"
    and "\<not> destination_lock_conflict E' [job_lock E' jb] [j] L"
    and s: "start_refusal E' q (pj_phase pj) L = None" "\<not> cannot_start (jb_state jb)" "\<not> has_active_run L q j"
    and "same_core (mark_running j L1) L'"
    by (rule begin_run_InrD)
  have "q \<noteq> p" using start_refusal_held [OF h] s(1) by blast
  then show ?thesis using begin_run_effect(1,2) [OF f] other_project_start [OF i j]
    by (fastforce simp: starts_nothing_def mark_running_def set_update_rows split: if_splits)
qed

lemma begin_batch_other:
  assumes f: "begin_batch_run_with_children E' q js run engine expected snapshot plans cs L = Inr (L', cs')"
    and h: "project_hold_in L p = Some h"
  shows "starts_nothing p L L'"
proof -
  from f obtain pj locks L1 L2 where "project_of L q = Some pj" and s: "start_refusal E' q (pj_phase pj) L = None"
    and "batch_scan E' q L expected 0 [] js = Inr locks" "\<not> destination_lock_conflict E' locks js L"
    and "insert_run (new_run run q None None engine (pj_phase pj) snapshot ''running'') L = Inr L1"
    and "insert_children q run engine (pj_phase pj) plans 0 (zip js cs) L1 = Inr L2" "same_core L2 L'"
    by (rule begin_batch_InrD)
  have "q \<noteq> p" using start_refusal_held [OF h] s by blast
  then show ?thesis using start_effects(2) [OF f]
    by (auto simp: starts_nothing_def only_runs_def list_all_iff batch_child_def)
qed

lemma claim_other:
  assumes f: "claim_batch_mailbox_for_child E' q j parent child L = Inr L'" and h: "project_hold_in L p = Some h"
  shows "starts_nothing p L L'"
proof -
  from f obtain pj jb c where "project_of L q = Some pj" "job_of L q j = Some jb" and s: "start_refusal E' q (pj_phase pj) L = None"
    and "find (child_run child q j parent) (runs L) = Some c" "rn_status c = ''queued''"
    and "parent_is_running L q parent" "jb_state jb \<noteq> ''running''" "valid_mailbox_transition (jb_state jb) ''running''"
    and J: "jobs L' = update_rows (\<lambda>r. jb_id r = j \<and> jb_project r = q \<and> jb_state r = jb_state jb)
       (\<lambda>r. r\<lparr>jb_state := ''running'', jb_attention_reason := None, jb_attempt := jb_attempt r + 1\<rparr>) (jobs L)"
    and R: "runs L' = update_rows (\<lambda>r. child_run child q j parent r \<and> rn_status r = ''queued'')
       (\<lambda>r. r\<lparr>rn_status := ''running''\<rparr>) (runs L)"
    and "holds L' = holds L" "projects L' = projects L" "cutovers L' = cutovers L" "acceptances L' = acceptances L"
    by (rule claim_InrD)
  have "q \<noteq> p" using start_refusal_held [OF h] s by blast
  then show ?thesis unfolding starts_nothing_def J R set_update_rows by (auto simp: child_run_def split: if_splits)
qed

section \<open>The hold stays\<close>

definition same_holds :: "ledger \<Rightarrow> ledger \<Rightarrow> bool" where
  "same_holds L L' \<longleftrightarrow> holds L' = holds L"

lemma holds_unchanged:
  "create_project_with_mailbox E p j name source destination sm dm L = Inr L' \<Longrightarrow> same_holds L L'"
  "transition p ph L = Inr L' \<Longrightarrow> same_holds L L'"
  "reopen_project p reason L = Inr L' \<Longrightarrow> same_holds L L'"
  "cancel_held_child_run E p j run detail L = Inr L' \<Longrightarrow> same_holds L L'"
  "clear_active_processes_after_review L = Inr L' \<Longrightarrow> same_holds L L'"
  "clear_processes run L = Inr L' \<Longrightarrow> same_holds L L'"
  "register_process a L = Inr L' \<Longrightarrow> same_holds L L'"
  "claim_batch_mailbox_for_child E p j parent child L = Inr L' \<Longrightarrow> same_holds L L'"
  "finish_run E run status detail L = Inr L' \<Longrightarrow> same_holds L L'"
  "finish_run_for_mailbox E p j run status state detail plan checkpoint L = Inr L' \<Longrightarrow> same_holds L L'"
  "record_engine_version run version L = Inr L' \<Longrightarrow> same_holds L L'"
  "create_cutover_workflow p scheduled window L = Inr L' \<Longrightarrow> same_holds L L'"
  "approve_cutover E p operator L = Inr L' \<Longrightarrow> same_holds L L'"
  unfolding same_holds_def create_project_with_mailbox_def transition_def reopen_project_def
    cancel_held_child_run_def clear_active_processes_after_review_def clear_processes_def
    register_process_def claim_batch_mailbox_for_child_def finish_run_def finish_run_for_mailbox_def
    record_engine_version_def create_cutover_workflow_def approve_cutover_def Let_def guards
  by ((elim exE conjE)?, force)+

lemma holds_unchanged_later:
  "finish_run_with_evidence E p j run status state detail v ms plan checkpoint L = Inr L' \<Longrightarrow> same_holds L L'"
  "attest_cutover_source_quiescence E p operator text L = Inr L' \<Longrightarrow> same_holds L L'"
  "begin_verification_run_with_baseline E p j run transfer snapshot L = Inr L' \<Longrightarrow> same_holds L L'"
  "begin_batch_run_with_children E p js run engine expected snapshot plans cs L = Inr (L', cs') \<Longrightarrow> same_holds L L'"
proof -
  show "same_holds L L'" if f: "finish_run_with_evidence E p j run status state detail v ms plan checkpoint L = Inr L'"
    using finish_run_with_evidence_InrD(3) [OF f] by (auto simp: same_core_def same_holds_def)
  show "same_holds L L'" if "attest_cutover_source_quiescence E p operator text L = Inr L'"
    using that unfolding attest_cutover_source_quiescence_def Let_def guards same_holds_def
    by (elim exE conjE) (drule same_core_emit, simp add: same_core_def same_core_started [unfolded same_core_def])
  show "same_holds L L'" if "begin_verification_run_with_baseline E p j run transfer snapshot L = Inr L'"
    using start_effects(1) [OF that] by (simp add: only_runs_def same_holds_def)
  show "same_holds L L'" if "begin_batch_run_with_children E p js run engine expected snapshot plans cs L = Inr (L', cs')"
    using start_effects(2) [OF that] by (simp add: only_runs_def same_holds_def)
qed

lemma same_holds_hold: "same_holds L L' \<Longrightarrow> project_hold_in L' p = project_hold_in L p"
  by (simp add: same_holds_def project_hold_in_def)

lemma hold_keeps_hold:
  assumes f: "hold_project E q operator reason L = Inr (L', h')" and h: "project_hold_in L p = Some h"
  shows "project_hold_in L' p = Some h"
proof -
  have "\<exists>x. holds L' = holds L @ [x]" using f unfolding hold_project_def Let_def guards by (elim exE conjE) force
  then show ?thesis using h by (auto simp: project_hold_in_def find_append)
qed

lemma find_filter_other:
  assumes "\<And>x. P x \<Longrightarrow> Q x"
  shows "find P (filter Q xs) = find P xs"
  using assms by (induction xs) auto

lemma release_keeps_other:
  assumes f: "release_project_hold q operator L = Inr (L', h')" and q: "q \<noteq> p"
  shows "project_hold_in L' p = project_hold_in L p"
proof -
  have "holds L' = filter (\<lambda>x. held_project x \<noteq> q) (holds L)"
    using f unfolding release_project_hold_def guards by (elim exE conjE) force
  then show ?thesis using q by (auto simp: project_hold_in_def intro: find_filter_other)
qed

section \<open>Every step of a held project\<close>

lemma starts_nothing_settle:
  assumes "jobs L' = jobs (settle_job q j state re plan ck M)" "jobs M = jobs L" "state \<noteq> ''running''"
    "runs L' = update_rows P (finish_row E s d) (runs L)" "\<not> active_status s"
  shows "starts_nothing p L L'"
  by (rule starts_nothing_update [OF assms(1) [unfolded settle_job_def, simplified, unfolded assms(2)] assms(4,5)])
    (use assms(3) in simp_all)

lemma ending_starts_nothing:
  "finish_run E' run status detail L = Inr L' \<Longrightarrow> starts_nothing p L L'"
  "finish_run_for_mailbox E' q j run status state detail plan ck L = Inr L' \<Longrightarrow> starts_nothing p L L'"
  "finish_run_with_evidence E' q j run status state detail v ms plan ck L = Inr L' \<Longrightarrow> starts_nothing p L L'"
  "finish_verification_only_run E' q j run v ms folders detail L = Inr L' \<Longrightarrow> starts_nothing p L L'"
  "cancel_held_child_run E' q j run detail L = Inr L' \<Longrightarrow> starts_nothing p L L'"
  "recover_abandoned_jobs_preserving E' preserved L = Inr (L', n) \<Longrightarrow> starts_nothing p L L'"
proof -
  show "starts_nothing p L L'" if f: "finish_run E' run status detail L = Inr L'"
  proof (rule starts_nothing_runs [where E = E' and s = status])
    show "jobs L' = jobs L" "\<not> active_status status"
      "runs L' = update_rows (\<lambda>r. rn_id r = run \<and> rn_status r = ''running'') (finish_row E' status (bounded_event_detail detail)) (runs L)"
      using f by (auto simp: finish_run_def Let_def split: if_splits option.splits)
  qed
  show "starts_nothing p L L'" if f: "finish_run_for_mailbox E' q j run status state detail plan ck L = Inr L'"
    using finish_run_for_mailbox_InrD(6) [OF f]
    by (intro starts_nothing_settle [OF finish_run_for_mailbox_InrD(5) [OF f] _ finish_run_for_mailbox_InrD(2) [OF f] _
          finish_run_for_mailbox_InrD(1) [OF f]]) simp_all
  show "starts_nothing p L L'" if f: "finish_run_with_evidence E' q j run status state detail v ms plan ck L = Inr L'"
  proof -
    obtain M where "same_core (L\<lparr>runs := update_rows (\<lambda>r. rn_id r = run \<and> rn_project r = q \<and> rn_job r = Some j \<and> rn_status r = ''running'')
           (finish_row E' ''completed'' (bounded_event_detail detail)) (runs L)\<rparr>) M"
      "same_core (settle_job q j state (attention_reason_for state detail) plan ck M) L'"
      using finish_run_with_evidence_InrD(3) [OF f] by blast
    then show ?thesis using finish_run_with_evidence_InrD(1) [OF f]
      by (intro starts_nothing_settle [where E = E' and s = "''completed''" and M = M]) (simp_all add: same_core_def)
  qed
  show "starts_nothing p L L'" if f: "finish_verification_only_run E' q j run v ms folders detail L = Inr L'"
    by (rule starts_nothing_runs [OF audit_finish_effect(1,5) [OF f]]) simp
  show "starts_nothing p L L'" if f: "cancel_held_child_run E' q j run detail L = Inr L'"
    using f unfolding cancel_held_child_run_def Let_def guards
    by (intro starts_nothing_runs [where E = E' and s = "''cancelled''"]) auto
  show "starts_nothing p L L'" if f: "recover_abandoned_jobs_preserving E' preserved L = Inr (L', n)"
    by (rule starts_nothing_ends [OF recover_InrD(1,2) [OF f] keeps_recovered keeps_job_update]) (auto split: if_splits)
qed

lemma state_changes_start_nothing:
  "create_project_with_mailbox E' q j name source destination sm dm L = Inr L' \<Longrightarrow> starts_nothing p L L'"
  "reopen_project q reason L = Inr L' \<Longrightarrow> starts_nothing p L L'"
  "accept_verification_difference E' q j operator reason L = Inr L' \<Longrightarrow> starts_nothing p L L'"
  "advance_cutover E' q conf L = Inr (L', st) \<Longrightarrow> starts_nothing p L L'"
  "begin_verification_run_with_baseline E' q j run transfer snapshot L = Inr L' \<Longrightarrow> starts_nothing p L L'"
proof -
  show "starts_nothing p L L'" if "create_project_with_mailbox E' q j name source destination sm dm L = Inr L'"
    using that unfolding create_project_with_mailbox_def guards by (auto simp: starts_nothing_def)
  show "starts_nothing p L L'" if "reopen_project q reason L = Inr L'"
    using that unfolding reopen_project_def Let_def guards
    by (elim exE conjE) (rule starts_nothing_jobs [where f = "\<lambda>j. j\<lparr>jb_state := ''attention'',
         jb_attention_reason := Some ''verification_incomplete''\<rparr>"], auto)
  show "starts_nothing p L L'" if "accept_verification_difference E' q j operator reason L = Inr L'"
    using accept_InrD(1,2) [OF that] by (auto intro!: starts_nothing_jobs)
  show "starts_nothing p L L'" if "advance_cutover E' q conf L = Inr (L', st)"
  proof (cases "st = Stage_Completed")
    case False
    then show ?thesis using advance_InrD(2,3) [OF that]
      by (intro starts_nothing_jobs [where f = "\<lambda>j. j\<lparr>jb_state := ''ready'', jb_attention_reason := None\<rparr>"])
        (simp_all add: requeue_verified_def)
  qed (use advance_InrD(2,3) [OF that] in \<open>simp add: starts_nothing_same\<close>)
  show "starts_nothing p L L'" if "begin_verification_run_with_baseline E' q j run transfer snapshot L = Inr L'"
    using start_effects(1) [OF that] by (auto simp: starts_nothing_def only_runs_def transfer_run_def)
qed

lemma queue_starts_nothing:
  "create_batch_queue E' q job_id plan_id name source destination rows L = Inr L' \<Longrightarrow> starts_nothing p L L'"
  "update_queue_plans q updates L = Inr (L', n) \<Longrightarrow> starts_nothing p L L'"
proof -
  show "starts_nothing p L L'" if f: "create_batch_queue E' q job_id plan_id name source destination rows L = Inr L'"
    using create_batch_queue_InrD(1,3) [OF f] by (auto simp: starts_nothing_def adds_queued_jobs_def list_all_iff)
  show "starts_nothing p L L'" if f: "update_queue_plans q updates L = Inr (L', n)"
    using update_queue_plans_effect [OF f] unfolding updates_deltas_def keeps_identity_def starts_nothing_def
    by (elim exE conjE) (auto intro!: bexI)
qed

lemma step_starts_nothing:
  "ledger_step E L L' \<Longrightarrow> run_inv E (jobs L) (runs L) \<Longrightarrow> project_hold_in L p = Some h \<Longrightarrow> starts_nothing p L L'"
proof (induction rule: ledger_step.induct)
  case phase then show ?case using no_run_change(1) starts_nothing_same by blast
next
  case hold then show ?case using no_run_change(2) starts_nothing_same by blast
next
  case release then show ?case using no_run_change(3) starts_nothing_same by blast
next
  case clear_all then show ?case using no_run_change(4) starts_nothing_same by blast
next
  case clear_run then show ?case using no_run_change(5) starts_nothing_same by blast
next
  case register then show ?case using no_run_change(6) starts_nothing_same by blast
next
  case engine_version then show ?case using no_run_change(7) starts_nothing_same by blast
next
  case plan_cutover then show ?case using no_run_change(8) starts_nothing_same by blast
next
  case approve then show ?case using no_run_change(9) starts_nothing_same by blast
next
  case attest then show ?case using no_run_change(10) starts_nothing_same by blast
next
  case finish then show ?case by (blast intro: ending_starts_nothing(1))
next
  case settle then show ?case by (blast intro: ending_starts_nothing(2))
next
  case evidence_commit then show ?case by (blast intro: ending_starts_nothing(3))
next
  case audit_finish then show ?case by (blast intro: ending_starts_nothing(4))
next
  case cancel_held then show ?case by (blast intro: ending_starts_nothing(5))
next
  case recover then show ?case by (blast intro: ending_starts_nothing(6))
next
  case create then show ?case by (blast intro: state_changes_start_nothing(1))
next
  case reopen then show ?case by (blast intro: state_changes_start_nothing(2))
next
  case accept then show ?case by (blast intro: state_changes_start_nothing(3))
next
  case advance then show ?case by (blast intro: state_changes_start_nothing(4))
next
  case audit then show ?case by (blast intro: state_changes_start_nothing(5))
next
  case begin_run then show ?case by (blast intro: begin_run_other)
next
  case begin_batch then show ?case by (blast intro: begin_batch_other)
next
  case claim then show ?case by (blast intro: claim_other)
next
  case event from recording_same_core(1) [OF event(1)] show ?case by (intro starts_nothing_same) (simp add: same_core_def)
next
  case queue then show ?case by (blast intro: queue_starts_nothing(1))
next
  case queue_plans then show ?case by (blast intro: queue_starts_nothing(2))
next
  case run_events from recording_same_core(2) [OF run_events(1)] show ?case by (intro starts_nothing_same) (simp add: same_core_def)
qed

lemma step_keeps_hold:
  "ledger_step E L L' \<Longrightarrow> project_hold_in L p = Some h \<Longrightarrow>
     project_hold_in L' p = Some h \<or> (\<exists>operator h'. release_project_hold p operator L = Inr (L', h'))"
proof (induction rule: ledger_step.induct)
  case create then show ?case using holds_unchanged(1) same_holds_hold by metis
next
  case phase then show ?case using holds_unchanged(2) same_holds_hold by metis
next
  case reopen then show ?case using holds_unchanged(3) same_holds_hold by metis
next
  case cancel_held then show ?case using holds_unchanged(4) same_holds_hold by metis
next
  case clear_all then show ?case using holds_unchanged(5) same_holds_hold by metis
next
  case clear_run then show ?case using holds_unchanged(6) same_holds_hold by metis
next
  case register then show ?case using holds_unchanged(7) same_holds_hold by metis
next
  case claim then show ?case using holds_unchanged(8) same_holds_hold by metis
next
  case finish then show ?case using holds_unchanged(9) same_holds_hold by metis
next
  case settle then show ?case using holds_unchanged(10) same_holds_hold by metis
next
  case engine_version then show ?case using holds_unchanged(11) same_holds_hold by metis
next
  case plan_cutover then show ?case using holds_unchanged(12) same_holds_hold by metis
next
  case approve then show ?case using holds_unchanged(13) same_holds_hold by metis
next
  case evidence_commit then show ?case using holds_unchanged_later(1) same_holds_hold by metis
next
  case attest then show ?case using holds_unchanged_later(2) same_holds_hold by metis
next
  case audit then show ?case using holds_unchanged_later(3) same_holds_hold by metis
next
  case begin_batch then show ?case using holds_unchanged_later(4) same_holds_hold by metis
next
  case begin_run then show ?case using begin_run_effect(4) unfolding project_hold_in_def by metis
next
  case recover then show ?case using recover_InrD(4) unfolding project_hold_in_def by metis
next
  case audit_finish then show ?case using audit_finish_effect(3) unfolding project_hold_in_def by metis
next
  case accept then show ?case using accept_InrD(3) unfolding project_hold_in_def by metis
next
  case advance then show ?case using advance_InrD(4) unfolding project_hold_in_def by metis
next
  case hold then show ?case using hold_keeps_hold by metis
next
  case release then show ?case using release_keeps_other by metis
next
  case event then show ?case using recording_same_core(1) [OF event(1)] by (simp add: same_core_def project_hold_in_def)
next
  case queue then show ?case using create_batch_queue_InrD(4) [OF queue(1)] by (simp add: project_hold_in_def)
next
  case queue_plans then show ?case using update_queue_plans_effect [OF queue_plans(1)]
    by (simp add: updates_deltas_def project_hold_in_def)
next
  case run_events then show ?case using recording_same_core(2) [OF run_events(1)] by (simp add: same_core_def project_hold_in_def)
qed

section \<open>Property\<close>

text \<open>
  C10: while a project is held, no transaction starts a mailbox of it, queues a transfer of it or claims a
  queued one, and the hold is lifted by the resume transaction only.
\<close>

theorem held_project_starts_nothing:
  assumes reach: "(ledger_step E)\<^sup>*\<^sup>* empty_ledger L" and step: "ledger_step E L L'"
    and held: "project_hold_in L p = Some h"
  shows "starts_nothing p L L' \<and>
         (project_hold_in L' p = Some h \<or> (\<exists>operator h'. release_project_hold p operator L = Inr (L', h')))"
  using step_starts_nothing [OF step reachable_inv [OF reach] held] step_keeps_hold [OF step held] by blast

definition demo_held :: ledger where
  "demo_held = fst (projr (hold_project (at_time demo_env 0 []) ''p'' ''ops'' ''review'' demo_running))"

theorem held_project_starts_nothing_witness:
  "project_hold_in demo_held ''p'' \<noteq> None \<and>
   (\<exists>L'. finish_run_for_mailbox (at_time demo_env 0 []) ''p'' ''j'' ''r'' ''failed'' ''failed'' ''x'' None None demo_held = Inr L' \<and>
      project_hold_in L' ''p'' = project_hold_in demo_held ''p'')"
proof -
  let ?h = "hold_project (at_time demo_env 0 []) ''p'' ''ops'' ''review'' demo_running"
  let ?f = "finish_run_for_mailbox (at_time demo_env 0 []) ''p'' ''j'' ''r'' ''failed'' ''failed'' ''x'' None None demo_held"
  have "\<not> isl ?h" by code_simp
  then have "ledger_step demo_env demo_running demo_held" unfolding demo_held_def
    by (intro hold [where h = "snd (projr ?h)"]) (simp add: not_isl_eq)
  then have r: "(ledger_step demo_env)\<^sup>*\<^sup>* empty_ledger demo_held" using demo_running_reach by auto
  have "\<not> isl ?f" by code_simp
  then have f: "?f = Inr (projr ?f)" by (rule not_isl_eq)
  have "project_hold_in demo_held ''p'' \<noteq> None" by code_simp
  then obtain h where h: "project_hold_in demo_held ''p'' = Some h" by blast
  have "\<not> (\<exists>operator h'. release_project_hold ''p'' operator demo_held = Inr (projr ?f, h'))"
  proof
    assume "\<exists>operator h'. release_project_hold ''p'' operator demo_held = Inr (projr ?f, h')"
    then have "runs (projr ?f) = runs demo_held" using no_run_change(3) by blast
    moreover have "runs (projr ?f) \<noteq> runs demo_held" by code_simp
    ultimately show False by contradiction
  qed
  then show ?thesis using held_project_starts_nothing [OF r settle [OF f] h] f h by auto
qed

end
