(* ===== verification/Ledger_Completion.thy ===== *)
theory Ledger_Completion
  imports Ledger_Effects
begin

text \<open>
  What it takes to complete: a project becomes complete only when every mailbox is accepted and leaves that
  phase only by reopening, and a mailbox recorded as verified is backed by exactly matching evidence in every
  state the transactions reach.
\<close>

section \<open>Phases\<close>

lemma find_update_rows:
  assumes "\<And>r. P (f r) = P r"
  shows "find P (update_rows Q f rs) = map_option (\<lambda>r. if Q r then f r else r) (find P rs)"
  using assms by (induction rs) auto

lemma project_of_set_phase:
  "project_of (set_phase q ph L) p = map_option (\<lambda>r. if p = q then r\<lparr>pj_phase := ph\<rparr> else r) (project_of L p)"
proof -
  have "project_of (set_phase q ph L) p = map_option (\<lambda>r. if pj_id r = q then r\<lparr>pj_phase := ph\<rparr> else r) (project_of L p)"
    unfolding project_of_def set_phase_def by (simp add: find_update_rows)
  also have "\<dots> = map_option (\<lambda>r. if p = q then r\<lparr>pj_phase := ph\<rparr> else r) (project_of L p)"
    by (rule option.map_cong0) (auto simp: project_of_def dest: find_SomeD)
  finally show ?thesis .
qed

lemma project_of_cong: "projects L' = projects L \<Longrightarrow> project_of L' p = project_of L p"
  by (simp add: project_of_def)

lemma accepted_all: "all_mailboxes_accepted L p \<longleftrightarrow> project_jobs L p \<noteq> [] \<and> list_all (accepted L) (project_jobs L p)"
  by (auto simp: all_mailboxes_accepted_def Let_def list_all_iff dest: length_filter_less)

text \<open>The counts of the cutover gate say the same: clean and excepted mailboxes are disjoint and make up all of them.\<close>

lemma filter_disjoint_length:
  assumes "\<And>x. x \<in> set xs \<Longrightarrow> \<not> (P x \<and> Q x)"
  shows "length (filter P xs) + length (filter Q xs) = length (filter (\<lambda>x. P x \<or> Q x) xs)"
  using assms by (induction xs) auto

lemma filter_all_length:
  assumes "length (filter P xs) = length xs" "x \<in> set xs"
  shows "P x"
  using assms length_filter_less [of x xs P] by auto

lemma verified_counts_accepted:
  assumes c: "verified_counts L p = (n, clean, excepted)" and n: "n \<noteq> 0" "n = clean + excepted"
  shows "project_jobs L p \<noteq> [] \<and> list_all (accepted L) (project_jobs L p)"
proof -
  let ?js = "project_jobs L p" and ?Q = "\<lambda>j. jb_state j = ''verified'' \<or> accepted_exception_row L j"
  have e: "n = length ?js" "clean = length (filter (\<lambda>j. jb_state j = ''verified'') ?js)"
    "excepted = length (filter (accepted_exception_row L) ?js)"
    using c by (simp_all add: verified_counts_def Let_def)
  have "length (filter ?Q ?js) = length ?js"
    using n(2) unfolding e by (subst filter_disjoint_length [symmetric]) (auto simp: accepted_exception_row_def)
  then have "\<forall>j \<in> set ?js. ?Q j" by (intro ballI) (rule filter_all_length)
  then have "list_all (accepted L) ?js"
    by (auto simp: list_all_iff accepted_def accepted_exception_row_def list_ex_iff)
  then show ?thesis using n(1) e(1) by auto
qed

lemma advance_check_InrD:
  assumes "advance_check E p conf L = Inr (st, c)"
  shows "\<exists>w pj stage n clean excepted. cutover_of L p = Some w \<and> cw_approved_by w \<noteq> None \<and> project_of L p = Some pj \<and>
      pj_phase pj \<noteq> ''complete'' \<and> parse_stage (cw_stage w) = Some stage \<and> stage_next stage = Some st \<and>
      verified_counts L p = (n, clean, excepted) \<and> n \<noteq> 0 \<and> n = clean + excepted \<and>
      (st = Stage_Completed \<longrightarrow> final_verification_evidence_summary L p \<noteq> None \<and> current_cutover_ready_event E L p \<and>
         source_quiescence_error E (cw_quiescence_at w) = None \<and> c \<noteq> None)"
proof -
  obtain n clean excepted where v: "verified_counts L p = (n, clean, excepted)" by (cases "verified_counts L p")
  show ?thesis using assms unfolding advance_check_def v Let_def prod.case guards
    by (elim exE conjE) (intro exI conjI, assumption+, auto)
qed

lemma stage_phase_complete: "stage_phase st = ''complete'' \<longleftrightarrow> st = Stage_Completed"
  by (cases st) (simp_all add: stage_phase_def)

text \<open>The transactions that write a phase: what the new phase says about the mailboxes, and from where it is left.\<close>

definition phase_rule :: "str \<Rightarrow> ledger \<Rightarrow> ledger \<Rightarrow> bool" where
  "phase_rule p L L' \<longleftrightarrow>
     (\<forall>pj pj'. project_of L p = Some pj \<and> project_of L' p = Some pj' \<longrightarrow>
        (pj_phase pj \<noteq> ''complete'' \<and> pj_phase pj' = ''complete'' \<longrightarrow>
           project_jobs L' p \<noteq> [] \<and> list_all (accepted L') (project_jobs L' p)) \<and>
        (pj_phase pj = ''complete'' \<and> pj_phase pj' \<noteq> ''complete'' \<longrightarrow> (\<exists>reason. reopen_project p reason L = Inr L')))"

lemma phase_rule_same: "same_projects L L' \<Longrightarrow> phase_rule p L L'"
  using project_of_cong [of L' L p] by (auto simp: phase_rule_def same_projects_def)

lemma phase_rule_set:
  assumes s: "projects L' = projects (set_phase q ph L)"
    and c: "ph = ''complete'' \<Longrightarrow> project_jobs L' q \<noteq> [] \<and> list_all (accepted L') (project_jobs L' q)"
    and l: "\<And>pj. project_of L q = Some pj \<Longrightarrow> pj_phase pj = ''complete'' \<Longrightarrow> ph \<noteq> ''complete'' \<Longrightarrow>
      \<exists>reason. reopen_project q reason L = Inr L'"
  shows "phase_rule p L L'"
proof -
  have "project_of L' p = map_option (\<lambda>r. if p = q then r\<lparr>pj_phase := ph\<rparr> else r) (project_of L p)"
    using s project_of_set_phase by (simp add: project_of_def)
  then show ?thesis using c l by (auto simp: phase_rule_def)
qed

lemma phase_as_str_complete: "phase_as_str ph = ''complete'' \<longleftrightarrow> ph = Phase_Complete"
  by (cases ph) simp_all

lemma phase_rule_transition:
  assumes f: "transition q ph L = Inr L'"
  shows "phase_rule p L L'"
proof -
  obtain pj current where pj: "project_of L q = Some pj" and cur: "phase_parse (pj_phase pj) = Some current"
    and m: "\<not> phase_move_refused current ph"
    and g: "\<not> (ph = Phase_Complete \<and> current \<noteq> ph \<and> (\<not> all_mailboxes_accepted L q \<or> current \<noteq> Phase_Verification))"
    and e: "add_event q None ''phase_changed'' (phase_as_str ph) (set_phase q (phase_as_str ph) L) = L'"
    using f unfolding transition_def guards by (elim exE conjE) (rule that)
  have P: "projects L' = projects (set_phase q (phase_as_str ph) L)" unfolding e [symmetric] by simp
  have a: "all_mailboxes_accepted L' q = all_mailboxes_accepted L q"
    unfolding e [symmetric] by (simp add: all_mailboxes_accepted_def project_jobs_def accepted_def Let_def)
  have cs: "pj_phase pj = phase_as_str current" using phase_wire.dec_sound [OF cur] .
  show ?thesis
  proof (cases "current = Phase_Complete")
    case True
    then have "ph = Phase_Complete" using m by (auto simp: phase_move_refused_def Let_def)
    then have "project_of L' p = map_option (\<lambda>r. if p = q then r\<lparr>pj_phase := ''complete''\<rparr> else r) (project_of L p)"
      using P project_of_set_phase [of q "''complete''" L p] by (simp add: project_of_def)
    then show ?thesis using pj cs True by (auto simp: phase_rule_def)
  next
    case False
    then have "pj_phase pj \<noteq> ''complete''" using cs phase_as_str_complete by simp
    then show ?thesis using pj g a False
      by (intro phase_rule_set [OF P]) (auto simp: phase_as_str_complete accepted_all)
  qed
qed

lemma phase_rule_reopen:
  assumes f: "reopen_project q reason L = Inr L'"
  shows "phase_rule p L L'"
proof -
  have "projects L' = projects (set_phase q ''attention'' L)"
    using f unfolding reopen_project_def Let_def guards by (elim exE conjE) (force simp: set_phase_def)
  then show ?thesis by (rule phase_rule_set) (use f in auto)
qed

lemma phase_rule_accept:
  assumes f: "accept_verification_difference E q j operator reason L = Inr L'"
  shows "phase_rule p L L'"
proof (cases "projects L' = projects L")
  case False
  then have P: "projects L' = projects (set_phase q ''complete'' L)" "all_mailboxes_accepted L' q"
    using accept_InrD(6) [OF f] by blast+
  show ?thesis by (rule phase_rule_set [OF P(1)]) (use P(2) in \<open>auto simp: accepted_all\<close>)
qed (simp add: phase_rule_same same_projects_def)

lemma phase_rule_approve:
  assumes f: "approve_cutover E q operator L = Inr L'"
  shows "phase_rule p L L'"
proof -
  have P: "projects L' = projects (set_phase q ''seed'' L)"
    and n: "\<exists>pj. project_of L q = Some pj \<and> pj_phase pj \<noteq> ''complete''"
    using f unfolding approve_cutover_def guards by (force simp: set_phase_def)+
  show ?thesis by (rule phase_rule_set [OF P]) (use n in auto)
qed

lemma phase_rule_advance:
  assumes f: "advance_cutover E q conf L = Inr (L', st)"
  shows "phase_rule p L L'"
proof -
  obtain c where c: "advance_check E q conf L = Inr (st, c)" using advance_InrD(1) [OF f] by blast
  obtain pj n clean excepted where pj: "project_of L q = Some pj" "pj_phase pj \<noteq> ''complete''"
    and v: "verified_counts L q = (n, clean, excepted)" "n \<noteq> 0" "n = clean + excepted"
    using advance_check_InrD [OF c] by blast
  show ?thesis
  proof (rule phase_rule_set [OF advance_InrD(6) [OF f]])
    assume "stage_phase st = ''complete''"
    then have "jobs L' = jobs L" "acceptances L' = acceptances L"
      using advance_InrD(2,5) [OF f] by (simp_all add: stage_phase_complete)
    then show "project_jobs L' q \<noteq> [] \<and> list_all (accepted L') (project_jobs L' q)"
      using verified_counts_accepted [OF v] by (simp add: project_jobs_def accepted_def list_all_iff)
  qed (use pj in auto)
qed

lemma phase_rule_new:
  assumes "\<exists>x. projects L' = projects L @ [x]"
  shows "phase_rule p L L'"
proof -
  have "project_of L' p = project_of L p \<or> project_of L p = None"
    using assms by (auto simp: project_of_def find_append split: option.split)
  then show ?thesis by (auto simp: phase_rule_def)
qed

lemma phase_rule_create:
  assumes f: "create_project_with_mailbox E q j name source destination sm dm L = Inr L'"
  shows "phase_rule p L L'"
  by (rule phase_rule_new) (use f in \<open>auto simp: create_project_with_mailbox_def guards\<close>)

lemma phase_rule_queue:
  assumes f: "create_batch_queue E q job_id plan_id name source destination rows L = Inr L'"
  shows "phase_rule p L L'"
  by (rule phase_rule_new [OF create_batch_queue_InrD(2) [OF f]])

lemma step_phase_rule: "ledger_step E L L' \<Longrightarrow> phase_rule p L L'"
proof (induction rule: ledger_step.induct)
  case hold then show ?case by (blast intro: phase_rule_same projects_unchanged(1))
next
  case cancel_held then show ?case by (blast intro: phase_rule_same projects_unchanged(2))
next
  case release then show ?case by (blast intro: phase_rule_same projects_unchanged(3))
next
  case clear_all then show ?case by (blast intro: phase_rule_same projects_unchanged(4))
next
  case clear_run then show ?case by (blast intro: phase_rule_same projects_unchanged(5))
next
  case register then show ?case by (blast intro: phase_rule_same projects_unchanged(6))
next
  case claim then show ?case by (blast intro: phase_rule_same projects_unchanged(7))
next
  case finish then show ?case by (blast intro: phase_rule_same projects_unchanged(8))
next
  case settle then show ?case by (blast intro: phase_rule_same projects_unchanged(9))
next
  case engine_version then show ?case by (blast intro: phase_rule_same projects_unchanged(10))
next
  case plan_cutover then show ?case by (blast intro: phase_rule_same projects_unchanged(11))
next
  case attest then show ?case by (blast intro: phase_rule_same projects_unchanged_later(1))
next
  case evidence_commit then show ?case by (blast intro: phase_rule_same projects_unchanged_later(2))
next
  case create then show ?case by (rule phase_rule_create)
next
  case phase then show ?case by (rule phase_rule_transition)
next
  case reopen then show ?case by (rule phase_rule_reopen)
next
  case accept then show ?case by (rule phase_rule_accept)
next
  case approve then show ?case by (rule phase_rule_approve)
next
  case advance then show ?case by (rule phase_rule_advance)
next
  case audit from start_effects(1) [OF audit(1)] show ?case by (intro phase_rule_same) (simp add: same_projects_def only_runs_def)
next
  case begin_batch from start_effects(2) [OF begin_batch(1)] show ?case by (intro phase_rule_same) (simp add: same_projects_def only_runs_def)
next
  case begin_run from begin_run_effect(3) [OF begin_run(1)] show ?case by (intro phase_rule_same) (simp add: same_projects_def)
next
  case recover from recover_InrD(5) [OF recover(1)] show ?case by (intro phase_rule_same) (simp add: same_projects_def)
next
  case audit_finish from audit_finish_effect(2) [OF audit_finish(1)] show ?case by (intro phase_rule_same) (simp add: same_projects_def)
next
  case event from recording_same_core(1) [OF event(1)] show ?case by (intro phase_rule_same) (simp add: same_core_def same_projects_def)
next
  case queue then show ?case by (rule phase_rule_queue)
next
  case queue_plans from update_queue_plans_effect [OF queue_plans(1)] show ?case
    by (intro phase_rule_same) (simp add: updates_deltas_def same_projects_def)
next
  case run_events from recording_same_core(2) [OF run_events(1)] show ?case by (intro phase_rule_same) (simp add: same_core_def same_projects_def)
qed

section \<open>Verified mailboxes\<close>

definition verified_backed :: "ledger \<Rightarrow> bool" where
  "verified_backed L \<longleftrightarrow>
     (\<forall>b \<in> set (jobs L). jb_state b = ''verified'' \<longrightarrow>
        (\<exists>e. find (\<lambda>e. er_job e = jb_id b) (evidence_table L) = Some e \<and> is_exact_match (er_value e)))"

text \<open>A transaction that keeps the evidence keeps the property if it verifies no mailbox.\<close>

definition verifies_none :: "ledger \<Rightarrow> ledger \<Rightarrow> bool" where
  "verifies_none L L' \<longleftrightarrow>
     (\<forall>b' \<in> set (jobs L'). jb_state b' = ''verified'' \<longrightarrow> (\<exists>b \<in> set (jobs L). jb_id b = jb_id b' \<and> jb_state b = ''verified''))"

lemma updates_deltas_verify_none:
  assumes "updates_deltas L L'"
  shows "same_evidence L L'" "verifies_none L L'"
proof -
  show "same_evidence L L'" using assms by (simp add: updates_deltas_def same_evidence_def)
  obtain g where g: "jobs L' = map g (jobs L)" "keeps_identity g" using assms unfolding updates_deltas_def by blast
  have "\<exists>b \<in> set (jobs L). jb_id b = jb_id (g x) \<and> jb_state b = ''verified''"
    if "x \<in> set (jobs L)" "jb_state (g x) = ''verified''" for x
    by (rule bexI [OF _ that(1)]) (use g(2) that(2) in \<open>simp add: keeps_identity_def\<close>)
  then show "verifies_none L L'" unfolding verifies_none_def g(1) by auto
qed

lemma verified_backed_keep:
  assumes "verified_backed L" "same_evidence L L'" "verifies_none L L'"
  shows "verified_backed L'"
  unfolding verified_backed_def
proof (intro ballI impI)
  fix b' assume "b' \<in> set (jobs L')" "jb_state b' = ''verified''"
  then obtain b where "b \<in> set (jobs L)" "jb_id b = jb_id b'" "jb_state b = ''verified''"
    using assms(3) unfolding verifies_none_def by blast
  then show "\<exists>e. find (\<lambda>e. er_job e = jb_id b') (evidence_table L') = Some e \<and> is_exact_match (er_value e)"
    using assms(1,2) unfolding verified_backed_def same_evidence_def by metis
qed

lemma verifies_none_same: "jobs L' = jobs L \<Longrightarrow> verifies_none L L'"
  by (auto simp: verifies_none_def)

lemma verifies_none_update:
  assumes "jobs L' = update_rows Q f (jobs L)" "\<And>b. jb_state (f b) \<noteq> ''verified''" "\<And>b. jb_id (f b) = jb_id b"
  shows "verifies_none L L'"
  using assms by (auto simp: verifies_none_def set_update_rows split: if_splits)

lemma find_update_other: "k \<noteq> j \<Longrightarrow> er_job row = j \<Longrightarrow>
    find (\<lambda>e. er_job e = k) (update_rows (\<lambda>e. er_job e = j) (\<lambda>_. row) t) = find (\<lambda>e. er_job e = k) t"
  by (induction t) auto

lemma find_upsert:
  assumes "er_job row = j"
  shows "find (\<lambda>e. er_job e = k)
     (if list_ex (\<lambda>e. er_job e = j) t then update_rows (\<lambda>e. er_job e = j) (\<lambda>_. row) t else t @ [row]) =
   (if k = j then Some row else find (\<lambda>e. er_job e = k) t)"
proof (cases "k = j")
  case True
  then show ?thesis using assms by (induction t) auto
next
  case False
  then show ?thesis using assms find_update_other [OF False assms, of t] by (auto simp: find_append split: option.split)
qed

lemma evidence_commit_effect:
  assumes f: "finish_run_with_evidence E p j run status state detail v ms plan ck L = Inr L'"
  shows "state = ''verified'' \<Longrightarrow> is_exact_match v"
    "\<exists>row. er_value row = v \<and> (\<forall>k. find (\<lambda>e. er_job e = k) (evidence_table L') =
       (if k = j then Some row else find (\<lambda>e. er_job e = k) (evidence_table L)))"
    "jobs L' = jobs (settle_job p j state (attention_reason_for state detail) plan ck L)"
proof -
  note d = f [unfolded finish_run_with_evidence_def Let_def guards]
  show "is_exact_match v" if "state = ''verified''" using d that by blast
  let ?L1 = "L\<lparr>runs := update_rows (\<lambda>r. rn_id r = run \<and> rn_project r = p \<and> rn_job r = Some j \<and> rn_status r = ''running'')
           (finish_row E ''completed'' (bounded_event_detail detail)) (runs L)\<rparr>"
  obtain out auth L3 L4 L6 where
    3: "upsert_evidence_projection E j run v out auth
         (?L1\<lparr>evidence_history := evidence_history ?L1 @ [evidence_row_of E j run v out auth]\<rparr>) = Inr L3"
    and 4: "insert_mismatches E (refuse_mismatch j run) p j run ms (clear_mismatches j run L3) = Inr L4"
    and 6: "(if state = ''verified'' then maybe_emit_cutover_ready E p
               (settle_job p j state (attention_reason_for state detail) plan ck L4)
             else Inr (settle_job p j state (attention_reason_for state detail) plan ck L4)) = Inr L6"
    and L': "\<exists>d. L' = add_event p (Some run) ''run_finished'' d (delete_processes run L6)"
    using d by blast
  have "evidence_table L6 = evidence_table L4"
    using 6 same_core_emit by (auto split: if_splits)
  moreover have "evidence_table L4 = evidence_table L3"
    using same_core_mismatches [OF 4] by (simp add: clear_mismatches_def)
  ultimately have e: "evidence_table L' = evidence_table L3" using L' by auto
  have "evidence_table L3 = (if list_ex (\<lambda>e. er_job e = j) (evidence_table L)
      then update_rows (\<lambda>e. er_job e = j) (\<lambda>_. evidence_row_of E j run v out auth) (evidence_table L)
      else evidence_table L @ [evidence_row_of E j run v out auth])"
    using 3 by (auto simp: upsert_evidence_projection_def Let_def split: if_splits option.splits)
  then have u: "find (\<lambda>e. er_job e = k) (evidence_table L') =
      (if k = j then Some (evidence_row_of E j run v out auth) else find (\<lambda>e. er_job e = k) (evidence_table L))" for k
    unfolding e by (simp only:) (rule find_upsert, simp add: evidence_row_of_def)
  have "er_value (evidence_row_of E j run v out auth) = v" by (simp add: evidence_row_of_def)
  with u show "\<exists>row. er_value row = v \<and> (\<forall>k. find (\<lambda>e. er_job e = k) (evidence_table L') =
       (if k = j then Some row else find (\<lambda>e. er_job e = k) (evidence_table L)))" by blast
  show "jobs L' = jobs (settle_job p j state (attention_reason_for state detail) plan ck L)"
    using finish_run_with_evidence_InrD(3) [OF f] by (auto simp: same_core_def settle_job_def)
qed

lemma evidence_commit_backed:
  assumes f: "finish_run_with_evidence E' p j run status state detail v ms plan ck L = Inr L'"
    and b: "verified_backed L" and i: "run_inv E (jobs L) (runs L)"
  shows "verified_backed L'"
  unfolding verified_backed_def
proof (intro ballI impI)
  fix b' assume b': "b' \<in> set (jobs L')" and v: "jb_state b' = ''verified''"
  note d = evidence_commit_effect [OF f]
  obtain row where row: "er_value row = v" and fd: "\<And>k. find (\<lambda>e. er_job e = k) (evidence_table L') =
       (if k = j then Some row else find (\<lambda>e. er_job e = k) (evidence_table L))" using d(2) by blast
  obtain c where c: "c \<in> set (jobs L)" and cb: "jb_id b' = jb_id c" "jb_project b' = jb_project c"
    "jb_state b' = (if jb_id c = j \<and> jb_project c = p then state else jb_state c)"
    using b' unfolding d(3) settle_job_def by (auto simp: set_update_rows)
  obtain jb where jb: "job_of L p j = Some jb" using finish_run_with_evidence_InrD(2) [OF f] by blast
  have "distinct (map jb_id (jobs L))" using i by (simp add: run_inv_def refs_ok_def)
  then have pj: "jb_project c = p" if "jb_id c = j"
    using job_of_SomeD [OF jb] c that by (metis distinct_map inj_on_eq_iff)
  show "\<exists>e. find (\<lambda>e. er_job e = jb_id b') (evidence_table L') = Some e \<and> is_exact_match (er_value e)"
  proof (cases "jb_id c = j")
    case True
    then have "state = ''verified''" using cb v pj by simp
    then show ?thesis using d(1) row fd cb True by auto
  next
    case False
    then show ?thesis using b c cb v fd unfolding verified_backed_def by auto
  qed
qed

lemma settling_verifies_none:
  "create_project_with_mailbox E p j name source destination sm dm L = Inr L' \<Longrightarrow> verifies_none L L'"
  "reopen_project p reason L = Inr L' \<Longrightarrow> verifies_none L L'"
  "cancel_held_child_run E p j run detail L = Inr L' \<Longrightarrow> verifies_none L L'"
  "recover_abandoned_jobs_preserving E preserved L = Inr (L', n) \<Longrightarrow> verifies_none L L'"
  "finish_run E run status detail L = Inr L' \<Longrightarrow> verifies_none L L'"
  "finish_run_for_mailbox E p j run status state detail plan ck L = Inr L' \<Longrightarrow> verifies_none L L'"
  "accept_verification_difference E p j operator reason L = Inr L' \<Longrightarrow> verifies_none L L'"
  "advance_cutover E p conf L = Inr (L', st) \<Longrightarrow> verifies_none L L'"
  "begin_run_with_snapshot E p j run engine snapshot L = Inr L' \<Longrightarrow> verifies_none L L'"
  "claim_batch_mailbox_for_child E p j parent child L = Inr L' \<Longrightarrow> verifies_none L L'"
proof -
  show "verifies_none L L'" if "create_project_with_mailbox E p j name source destination sm dm L = Inr L'"
    using that unfolding create_project_with_mailbox_def guards by (auto simp: verifies_none_def)
  show "verifies_none L L'" if "reopen_project p reason L = Inr L'"
    using that unfolding reopen_project_def Let_def guards
    by (elim exE conjE) (rule verifies_none_update [where f = "\<lambda>j. j\<lparr>jb_state := ''attention'',
         jb_attention_reason := Some ''verification_incomplete''\<rparr>"], auto)
  show "verifies_none L L'" if "cancel_held_child_run E p j run detail L = Inr L'"
    using that unfolding cancel_held_child_run_def Let_def guards by (intro verifies_none_same) auto
  show "verifies_none L L'" if "recover_abandoned_jobs_preserving E preserved L = Inr (L', n)"
    using recover_InrD(1) [OF that] by (auto simp: verifies_none_def split: if_splits)
  show "verifies_none L L'" if "finish_run E run status detail L = Inr L'"
    using that by (auto simp: finish_run_def Let_def verifies_none_def split: if_splits option.splits)
  show "verifies_none L L'" if "finish_run_for_mailbox E p j run status state detail plan ck L = Inr L'"
    by (rule verifies_none_update [OF finish_run_for_mailbox_InrD(5) [OF that, unfolded settle_job_def, simplified]])
      (use finish_run_for_mailbox_InrD(3) [OF that] in simp_all)
  show "verifies_none L L'" if "accept_verification_difference E p j operator reason L = Inr L'"
    using accept_InrD(1) [OF that] by (auto intro!: verifies_none_update)
  show "verifies_none L L'" if "advance_cutover E p conf L = Inr (L', st)"
    using advance_InrD(2) [OF that]
    by (auto simp: verifies_none_def requeue_verified_def set_update_rows split: if_splits)
  show "verifies_none L L'" if "begin_run_with_snapshot E p j run engine snapshot L = Inr L'"
    by (rule verifies_none_update [OF begin_run_effect(2) [OF that, unfolded mark_running_def, simplified]]) simp_all
  show "verifies_none L L'" if f: "claim_batch_mailbox_for_child E p j parent child L = Inr L'"
  proof (rule claim_InrD [OF f])
    fix jb :: job_row
    assume "jobs L' = update_rows (\<lambda>r. jb_id r = j \<and> jb_project r = p \<and> jb_state r = jb_state jb)
       (\<lambda>r. r\<lparr>jb_state := ''running'', jb_attention_reason := None, jb_attempt := jb_attempt r + 1\<rparr>) (jobs L)"
    then show "verifies_none L L'" by (rule verifies_none_update) simp_all
  qed
qed

lemma step_verified_backed:
  "ledger_step E L L' \<Longrightarrow> verified_backed L \<Longrightarrow> run_inv E (jobs L) (runs L) \<Longrightarrow> verified_backed L'"
proof (induction rule: ledger_step.induct)
  case phase from no_run_change(1) [OF phase(1)] evidence_unchanged(2) [OF phase(1)] show ?case
    by (intro verified_backed_keep [OF phase(2)] verifies_none_same) simp_all
next
  case hold from no_run_change(2) [OF hold(1)] evidence_unchanged(4) [OF hold(1)] show ?case
    by (intro verified_backed_keep [OF hold(2)] verifies_none_same) simp_all
next
  case release from no_run_change(3) [OF release(1)] evidence_unchanged(6) [OF release(1)] show ?case
    by (intro verified_backed_keep [OF release(2)] verifies_none_same) simp_all
next
  case clear_all from no_run_change(4) [OF clear_all(1)] evidence_unchanged(7) [OF clear_all(1)] show ?case
    by (intro verified_backed_keep [OF clear_all(2)] verifies_none_same) simp_all
next
  case clear_run from no_run_change(5) [OF clear_run(1)] evidence_unchanged(8) [OF clear_run(1)] show ?case
    by (intro verified_backed_keep [OF clear_run(2)] verifies_none_same) simp_all
next
  case register from no_run_change(6) [OF register(1)] evidence_unchanged(9) [OF register(1)] show ?case
    by (intro verified_backed_keep [OF register(2)] verifies_none_same) simp_all
next
  case engine_version from no_run_change(7) [OF engine_version(1)] evidence_unchanged(13) [OF engine_version(1)] show ?case
    by (intro verified_backed_keep [OF engine_version(2)] verifies_none_same) simp_all
next
  case plan_cutover from no_run_change(8) [OF plan_cutover(1)] evidence_unchanged(14) [OF plan_cutover(1)] show ?case
    by (intro verified_backed_keep [OF plan_cutover(2)] verifies_none_same) simp_all
next
  case approve from no_run_change(9) [OF approve(1)] evidence_unchanged(15) [OF approve(1)] show ?case
    by (intro verified_backed_keep [OF approve(2)] verifies_none_same) simp_all
next
  case attest from no_run_change(10) [OF attest(1)] evidence_unchanged_later(3) [OF attest(1)] show ?case
    by (intro verified_backed_keep [OF attest(2)] verifies_none_same) simp_all
next
  case create show ?case by (rule verified_backed_keep [OF create.prems(1) evidence_unchanged(1) [OF create.hyps(1)] settling_verifies_none(1) [OF create.hyps(1)]])
next
  case reopen show ?case by (rule verified_backed_keep [OF reopen.prems(1) evidence_unchanged(3) [OF reopen.hyps(1)] settling_verifies_none(2) [OF reopen.hyps(1)]])
next
  case cancel_held show ?case by (rule verified_backed_keep [OF cancel_held.prems(1) evidence_unchanged(5) [OF cancel_held.hyps(1)] settling_verifies_none(3) [OF cancel_held.hyps(1)]])
next
  case recover show ?case by (rule verified_backed_keep [OF recover.prems(1) evidence_unchanged_later(1) [OF recover.hyps(1)] settling_verifies_none(4) [OF recover.hyps(1)]])
next
  case finish show ?case by (rule verified_backed_keep [OF finish.prems(1) evidence_unchanged(11) [OF finish.hyps(1)] settling_verifies_none(5) [OF finish.hyps(1)]])
next
  case settle show ?case by (rule verified_backed_keep [OF settle.prems(1) evidence_unchanged(12) [OF settle.hyps(1)] settling_verifies_none(6) [OF settle.hyps(1)]])
next
  case accept show ?case by (rule verified_backed_keep [OF accept.prems(1) evidence_unchanged_later(2) [OF accept.hyps(1)] settling_verifies_none(7) [OF accept.hyps(1)]])
next
  case advance show ?case by (rule verified_backed_keep [OF advance.prems(1) evidence_unchanged_later(4) [OF advance.hyps(1)] settling_verifies_none(8) [OF advance.hyps(1)]])
next
  case claim show ?case by (rule verified_backed_keep [OF claim.prems(1) evidence_unchanged(10) [OF claim.hyps(1)] settling_verifies_none(10) [OF claim.hyps(1)]])
next
  case begin_run show ?case by (rule verified_backed_keep [OF begin_run.prems(1) begin_run_effect(7) [OF begin_run.hyps(1)] settling_verifies_none(9) [OF begin_run.hyps(1)]])
next
  case audit from start_effects(1) [OF audit.hyps(1)] show ?case
    by (intro verified_backed_keep [OF audit.prems(1)] verifies_none_same) (simp_all add: only_runs_def same_evidence_def)
next
  case begin_batch from start_effects(2) [OF begin_batch.hyps(1)] show ?case
    by (intro verified_backed_keep [OF begin_batch.prems(1)] verifies_none_same) (simp_all add: only_runs_def same_evidence_def)
next
  case audit_finish from audit_finish_effect(1,4) [OF audit_finish.hyps(1)] show ?case
    by (intro verified_backed_keep [OF audit_finish.prems(1)] verifies_none_same) (simp_all add: same_evidence_def)
next
  case evidence_commit show ?case by (rule evidence_commit_backed [OF evidence_commit.hyps(1) evidence_commit.prems])
next
  case event from recording_same_core(1) [OF event.hyps(1)] show ?case
    by (intro verified_backed_keep [OF event.prems(1)] verifies_none_same) (simp_all add: same_core_def same_evidence_def)
next
  case queue from create_batch_queue_InrD(1,7) [OF queue.hyps(1)] show ?case
    by (intro verified_backed_keep [OF queue.prems(1)])
      (auto simp: same_evidence_def verifies_none_def adds_queued_jobs_def list_all_iff)
next
  case queue_plans from update_queue_plans_effect [OF queue_plans.hyps(1)] show ?case
    by (intro verified_backed_keep [OF queue_plans.prems(1)] updates_deltas_verify_none) assumption
next
  case run_events from recording_same_core(2) [OF run_events.hyps(1)] show ?case
    by (intro verified_backed_keep [OF run_events.prems(1)] verifies_none_same) (simp_all add: same_core_def same_evidence_def)
qed

interpretation backed: step_invariant "ledger_step E" "\<lambda>L. ledger_inv E L \<and> verified_backed L" for E
  by unfold_locales (blast intro: own.step_keeps step_verified_backed [unfolded ledger_inv_def [symmetric]])

section \<open>Properties\<close>

text \<open>
  C2: in every state the transactions reach, a mailbox recorded as verified is backed by its stored evidence,
  and that evidence is an exact match: no other transaction can mark a mailbox verified, and none replaces the
  evidence and keeps the mark.
\<close>

theorem verified_mailbox_is_backed:
  assumes reach: "(ledger_step E)\<^sup>*\<^sup>* empty_ledger L" and b: "b \<in> set (jobs L)" "jb_state b = ''verified''"
  shows "\<exists>e. find (\<lambda>e. er_job e = jb_id b) (evidence_table L) = Some e \<and> is_exact_match (er_value e)"
proof -
  have "verified_backed empty_ledger" by (simp add: verified_backed_def empty_ledger_def)
  then have "verified_backed L" using backed.reach_keeps [OF reach] empty_ledger_inv by blast
  then show ?thesis using b unfolding verified_backed_def by blast
qed

definition demo_verified :: ledger where
  "demo_verified = projr (finish_run_with_evidence (at_time demo_env 0 []) ''p'' ''j'' ''r'' ''completed'' ''verified'' ''done''
     sample_evidence [] None None demo_running)"

lemma demo_verified_reach: "(ledger_step demo_env)\<^sup>*\<^sup>* empty_ledger demo_verified"
proof -
  have "\<not> isl (finish_run_with_evidence (at_time demo_env 0 []) ''p'' ''j'' ''r'' ''completed'' ''verified'' ''done''
     sample_evidence [] None None demo_running)" by code_simp
  then have "ledger_step demo_env demo_running demo_verified" unfolding demo_verified_def
    by (rule evidence_commit [OF not_isl_eq])
  then show ?thesis using demo_running_reach by (rule rtranclp.rtrancl_into_rtrancl [rotated])
qed

theorem verified_mailbox_is_backed_witness:
  "jb_state (hd (jobs demo_verified)) = ''verified'' \<and>
   (\<exists>e. find (\<lambda>e. er_job e = jb_id (hd (jobs demo_verified))) (evidence_table demo_verified) = Some e \<and> is_exact_match (er_value e))"
proof -
  have s: "jb_state (hd (jobs demo_verified)) = ''verified''" "hd (jobs demo_verified) \<in> set (jobs demo_verified)"
    by code_simp+
  show ?thesis using verified_mailbox_is_backed [OF demo_verified_reach s(2,1)] s(1) by blast
qed

text \<open>
  C9: a transaction that completes a project finds every mailbox of it verified or with a recorded acceptance,
  at least one of them, and a completed project leaves that phase only by reopening.
\<close>

theorem completion_needs_acceptance:
  assumes step: "ledger_step E L L'" and p: "project_of L p = Some pj" "project_of L' p = Some pj'"
  shows "(pj_phase pj \<noteq> ''complete'' \<and> pj_phase pj' = ''complete'' \<longrightarrow>
            project_jobs L' p \<noteq> [] \<and> list_all (accepted L') (project_jobs L' p)) \<and>
         (pj_phase pj = ''complete'' \<and> pj_phase pj' \<noteq> ''complete'' \<longrightarrow> (\<exists>reason. reopen_project p reason L = Inr L'))"
  using step_phase_rule [OF step, of p] p unfolding phase_rule_def by blast

definition demo_audited :: ledger where
  "demo_audited = projr (transition ''p'' Phase_Verification (projr (transition ''p'' Phase_Preflight demo_verified)))"

theorem completion_needs_acceptance_witness:
  "\<exists>L'. transition ''p'' Phase_Complete demo_audited = Inr L' \<and> project_jobs L' ''p'' \<noteq> [] \<and>
     list_all (accepted L') (project_jobs L' ''p'')"
proof -
  let ?L = "projr (transition ''p'' Phase_Complete demo_audited)"
  have "\<not> isl (transition ''p'' Phase_Complete demo_audited)" by code_simp
  then have f: "transition ''p'' Phase_Complete demo_audited = Inr ?L" by (rule not_isl_eq)
  have "project_of demo_audited ''p'' \<noteq> None" "project_of ?L ''p'' \<noteq> None" by code_simp+
  then have q: "project_of demo_audited ''p'' = Some (the (project_of demo_audited ''p''))"
    "project_of ?L ''p'' = Some (the (project_of ?L ''p''))" by simp_all
  have "pj_phase (the (project_of demo_audited ''p'')) \<noteq> ''complete''" "pj_phase (the (project_of ?L ''p'')) = ''complete''"
    by code_simp+
  then show ?thesis using completion_needs_acceptance [OF ledger_step.phase [OF f, of demo_env] q] f by blast
qed

end
