(* ===== verification/Ledger_Readiness.thy ===== *)
theory Ledger_Readiness
  imports Ledger_Completion
begin

text \<open>
  The last gate of a managed cutover: readiness is an event of the history that any new run of the project
  withdraws, and the workflow completes only with fresh attestation, current readiness, evidence of the
  final verification for every mailbox, and the external confirmation.
\<close>

section \<open>The latest event of a kind\<close>

lemma last_event_snoc:
  assumes "events L' = events L @ [e]"
  shows "last_event P L' = (if P e then Some (length (events L)) else last_event P L)"
proof -
  have "filter (\<lambda>i. P (events L' ! i)) [0..<length (events L)] = filter (\<lambda>i. P (events L ! i)) [0..<length (events L)]"
    using assms by (intro filter_cong) (auto simp: nth_append)
  then show ?thesis using assms by (simp add: last_event_def Let_def nth_append)
qed

lemma last_event_SomeD:
  assumes "last_event P L = Some i"
  shows "i < length (events L)" "P (events L ! i)"
proof -
  let ?h = "filter (\<lambda>i. P (events L ! i)) [0..<length (events L)]"
  have "?h \<noteq> []" "i = last ?h" using assms by (simp_all add: last_event_def Let_def split: if_splits)
  then have "i \<in> set ?h" using last_in_set by blast
  then show "i < length (events L)" "P (events L ! i)" by simp_all
qed

lemma last_event_latest:
  assumes "k < length (events L)" "P (events L ! k)"
  shows "\<exists>i. last_event P L = Some i \<and> k \<le> i"
proof -
  let ?h = "filter (\<lambda>i. P (events L ! i)) [0..<length (events L)]"
  have k: "k \<in> set ?h" using assms by simp
  have s: "sorted ?h" by (rule sorted_wrt_filter) (simp add: sorted_wrt_upt)
  obtain n where n: "n < length ?h" "?h ! n = k" using k by (metis in_set_conv_nth)
  have "?h ! n \<le> ?h ! (length ?h - 1)" using s n(1) by (intro sorted_nth_mono) auto
  moreover have "?h \<noteq> []" using k by fastforce
  ultimately show ?thesis using n by (simp add: last_event_def Let_def last_conv_nth)
qed

section \<open>Withdrawal\<close>

lemma not_current_snoc:
  assumes n: "\<not> current_cutover_ready_event E L p" and e: "events L' = events L @ [e]"
    and k: "\<not> (evt_project e = p \<and> evt_kind e = ''cutover_ready'')"
  shows "\<not> current_cutover_ready_event E L' p"
proof (cases "latest_ready L p")
  case None
  then have "latest_ready L' p = None" using k by (simp add: latest_ready_def last_event_snoc [OF e])
  then show ?thesis by (simp add: current_cutover_ready_event_def)
next
  case (Some i)
  then have i: "latest_ready L' p = Some i" using k by (auto simp: latest_ready_def last_event_snoc [OF e])
  have len: "i < length (events L)" using Some last_event_SomeD unfolding latest_ready_def by blast
  have "newer_event i (latest_withdrawal L' p) \<Longrightarrow> newer_event i (latest_withdrawal L p)"
    using len by (auto simp: latest_withdrawal_def last_event_snoc [OF e] newer_event_def split: if_splits)
  then show ?thesis using n len by (auto simp: current_cutover_ready_event_def Some i e nth_append)
qed

lemma current_cong: "events L' = events L \<Longrightarrow> current_cutover_ready_event E L' p = current_cutover_ready_event E L p"
proof -
  assume e: "events L' = events L"
  then have "last_event P L' = last_event P L" for P by (simp add: last_event_def)
  then show ?thesis using e
    by (simp add: current_cutover_ready_event_def latest_ready_def latest_withdrawal_def split: option.split)
qed

lemma invalidate_not_current:
  assumes s: "list_ex (\<lambda>c. cw_project c = p \<and> cw_stage c = ''verification'') (cutovers L)"
  shows "\<not> current_cutover_ready_event E (invalidate_cutover_readiness_for_new_run p j run L) p"
proof (cases "latest_ready L p")
  case None
  then show ?thesis using s by (simp add: invalidate_cutover_readiness_for_new_run_def current_cutover_ready_event_def)
next
  case (Some ready)
  show ?thesis
  proof (cases "case latest_job_withdrawal L p j of None \<Rightarrow> False | Some w \<Rightarrow> ready < w")
    case True
    then obtain w where w: "latest_job_withdrawal L p j = Some w" "ready < w" by (auto split: option.splits)
    then obtain i where i: "latest_withdrawal L p = Some i" "w \<le> i"
      using last_event_SomeD [OF w(1) [unfolded latest_job_withdrawal_def]]
        last_event_latest [of w L "\<lambda>e. evt_project e = p \<and> evt_kind e = ''cutover_readiness_invalidated''"]
      unfolding latest_withdrawal_def by blast
    have "invalidate_cutover_readiness_for_new_run p j run L = L"
      using s Some True by (simp add: invalidate_cutover_readiness_for_new_run_def)
    then show ?thesis using Some i w(2) by (simp add: current_cutover_ready_event_def newer_event_def)
  next
    case False
    define L' where "L' = invalidate_cutover_readiness_for_new_run p j run L"
    obtain d where e: "events L' = events L @ [\<lparr>evt_project = p, evt_run = Some run,
        evt_kind = ''cutover_readiness_invalidated'', evt_detail = d\<rparr>]"
      using s Some False by (simp add: L'_def invalidate_cutover_readiness_for_new_run_def)
    have "latest_withdrawal L' p = Some (length (events L))" "latest_ready L' p = Some ready"
      using Some by (simp_all add: latest_withdrawal_def latest_ready_def last_event_snoc [OF e])
    moreover have "ready < length (events L)" using Some last_event_SomeD unfolding latest_ready_def by blast
    ultimately show ?thesis unfolding L'_def [symmetric] by (simp add: current_cutover_ready_event_def newer_event_def)
  qed
qed

lemma insert_run_events: "insert_run r L = Inr L' \<Longrightarrow> events L' = events L \<and> cutovers L' = cutovers L"
  using insert_run_InrD(5,7) by blast

lemma insert_children_not_current:
  "insert_children p run engine phase plans i cs L = Inr L' \<Longrightarrow>
     list_ex (\<lambda>c. cw_project c = p \<and> cw_stage c = ''verification'') (cutovers L) \<Longrightarrow>
     cs \<noteq> [] \<or> \<not> current_cutover_ready_event E L p \<Longrightarrow> \<not> current_cutover_ready_event E L' p"
proof (induction p run engine phase plans i cs L rule: insert_children.induct)
  case (2 p run engine phase plans i j child rest L)
  show ?case using "2.prems"(1) unfolding insert_children.simps Let_def guards
  proof (elim exE conjE)
    fix L1 assume n: "insert_run (new_run child p (Some j) (Some run)
         (case nth_opt plans i of None \<Rightarrow> engine | Some b \<Rightarrow> bp_engine b) phase
         (case nth_opt plans i of None \<Rightarrow> [] | Some b \<Rightarrow> bp_plan_snapshot b) ''queued'') L = Inr L1"
      and go: "insert_children p run engine phase plans (Suc i) rest
        (case case nth_opt plans i of None \<Rightarrow> None | Some x \<Rightarrow> bp_engine_version x of
           None \<Rightarrow> invalidate_cutover_readiness_for_new_run p j child L1
         | Some v \<Rightarrow> invalidate_cutover_readiness_for_new_run p j child L1\<lparr>engine_versions :=
             engine_versions (invalidate_cutover_readiness_for_new_run p j child L1) @ [(child, v)]\<rparr>) = Inr L'"
        (is "insert_children _ _ _ _ _ _ _ ?L2 = _")
    have c1: "list_ex (\<lambda>c. cw_project c = p \<and> cw_stage c = ''verification'') (cutovers L1)"
      using "2.prems"(2) insert_run_events [OF n] by simp
    have "events ?L2 = events (invalidate_cutover_readiness_for_new_run p j child L1)" "cutovers ?L2 = cutovers L1"
      using same_core_invalidate [of L1 p j child] by (simp_all add: same_core_def split: option.split)
    then have "\<not> current_cutover_ready_event E ?L2 p" "list_ex (\<lambda>c. cw_project c = p \<and> cw_stage c = ''verification'') (cutovers ?L2)"
      using invalidate_not_current [OF c1, of E j child] c1 current_cong [of ?L2 "invalidate_cutover_readiness_for_new_run p j child L1" E p]
      by (simp_all only:) simp
    then show ?case by (intro "2.IH" [OF refl n refl go] disjI2)
  qed
qed simp

lemma starts_withdraw:
  assumes c: "list_ex (\<lambda>c. cw_project c = p \<and> cw_stage c = ''verification'') (cutovers L)"
  shows "begin_run_with_snapshot E p j run engine snapshot L = Inr L' \<Longrightarrow> \<not> current_cutover_ready_event E' L' p"
    "begin_verification_run_with_baseline E p j run transfer snapshot L = Inr L' \<Longrightarrow> \<not> current_cutover_ready_event E' L' p"
    "begin_batch_run_with_children E p js run engine expected snapshot plans ids L = Inr (L', ids') \<Longrightarrow>
       length ids = length js \<Longrightarrow> \<not> current_cutover_ready_event E' L' p"
proof -
  show "\<not> current_cutover_ready_event E' L' p" if "begin_run_with_snapshot E p j run engine snapshot L = Inr L'"
    using that unfolding begin_run_with_snapshot_def guards
  proof (elim exE conjE)
    fix pj :: project_row and L1
    assume n: "insert_run (new_run run p (Some j) None engine (pj_phase pj) snapshot ''running'') L = Inr L1"
      and e: "add_event p (Some run) ''run_started'' (engine @ '' ('' @ run @ '')'')
              (mark_running j (invalidate_cutover_readiness_for_new_run p j run L1)) = L'"
    have "\<not> current_cutover_ready_event E' (invalidate_cutover_readiness_for_new_run p j run L1) p"
      using c insert_run_events [OF n] by (intro invalidate_not_current) simp
    then show ?thesis by (rule not_current_snoc) (simp add: e [symmetric], simp)
  qed
  show "\<not> current_cutover_ready_event E' L' p" if "begin_verification_run_with_baseline E p j run transfer snapshot L = Inr L'"
    using that unfolding begin_verification_run_with_baseline_def guards
  proof (elim exE conjE)
    fix pj :: project_row and L1
    assume n: "insert_run (new_run run p (Some j) transfer VERIFICATION_ENGINE (pj_phase pj) snapshot ''running'') L = Inr L1"
      and e: "add_event p (Some run) ''verification_started'' (''verification-only ('' @ j @ '')'')
              (invalidate_cutover_readiness_for_new_run p j run L1) = L'"
    have "\<not> current_cutover_ready_event E' (invalidate_cutover_readiness_for_new_run p j run L1) p"
      using c insert_run_events [OF n] by (intro invalidate_not_current) simp
    then show ?thesis by (rule not_current_snoc) (simp add: e [symmetric], simp)
  qed
  show "\<not> current_cutover_ready_event E' L' p"
    if "begin_batch_run_with_children E p js run engine expected snapshot plans ids L = Inr (L', ids')" "length ids = length js"
    using that(1) unfolding begin_batch_run_with_children_def guards
  proof (elim exE conjE)
    fix pj L1 L2
    assume n: "insert_run (new_run run p None None engine (pj_phase pj) snapshot ''running'') L = Inr L1"
      and i: "insert_children p run engine (pj_phase pj) plans 0 (zip js ids) L1 = Inr L2"
      and s: "\<not> (js = [] \<or> \<not> distinct js \<or> (expected \<noteq> [] \<and> length expected \<noteq> length js) \<or>
              (plans \<noteq> [] \<and> length plans \<noteq> length js))"
      and e: "(add_event p (Some run) ''run_started'' (engine @ '' ('' @ run @ ''); '' @ nat_to_string (length js) @ '' child jobs'') L2, ids) = (L', ids')"
    have "zip js ids \<noteq> []" using s that(2) by (cases js; cases ids) auto
    then have "\<not> current_cutover_ready_event E' L2 p"
      using c insert_run_events [OF n] by (intro insert_children_not_current [OF i]) simp_all
    then show ?thesis by (rule not_current_snoc) (use e in force, simp)
  qed
qed

section \<open>Properties\<close>

text \<open>
  C8: a transfer, a batch or an audit that starts while a managed cutover is in its verification stage withdraws the
  published readiness: at no later time is that readiness current, and the workflow cannot be completed from
  the state the start leaves.
\<close>

theorem new_run_withdraws_readiness:
  assumes stage: "list_ex (\<lambda>c. cw_project c = p \<and> cw_stage c = ''verification'') (cutovers L)"
    and start: "begin_run_with_snapshot E p j run engine snapshot L = Inr L' \<or>
      begin_verification_run_with_baseline E p j run transfer snapshot L = Inr L' \<or>
      (begin_batch_run_with_children E p js run engine expected snapshot plans ids L = Inr (L', ids') \<and> length ids = length js)"
  shows "\<not> current_cutover_ready_event E' L' p \<and> advance_cutover E' p confirmation L' \<noteq> Inr (L2, Stage_Completed)"
proof -
  have n: "\<not> current_cutover_ready_event E' L' p" using start by (elim disjE conjE) (rule starts_withdraw [OF stage], assumption+)+
  moreover have "current_cutover_ready_event E' L' p" if "advance_cutover E' p confirmation L' = Inr (L2, Stage_Completed)"
    using advance_InrD(1) [OF that] advance_check_InrD by blast
  ultimately show ?thesis by blast
qed

definition demo_gate :: ledger where
  "demo_gate = (set_phase ''p'' ''verification'' demo_verified)\<lparr>
     cutovers := [\<lparr>cw_project = ''p'', cw_stage = ''verification'', cw_scheduled_at = ''s'', cw_window = None,
       cw_approved_by = Some ''ops'', cw_approved_at = Some ''t'', cw_confirmation = None, cw_quiescence_operator = Some ''ops'',
       cw_quiescence_evidence = Some ''mx'', cw_quiescence_at = Some ''t''\<rparr>],
     runs := map (\<lambda>r. r\<lparr>rn_phase_at_start := ''verification''\<rparr>) (runs demo_verified),
     evidence_table := map (\<lambda>e. e\<lparr>er_method := ''native_dovecot''\<rparr>) (evidence_table demo_verified),
     events := [\<lparr>evt_project = ''p'', evt_run = None, evt_kind = ''cutover_ready'',
       evt_detail = ready_detail demo_env 1 1 0 0 1 0\<rparr>]\<rparr>"

theorem new_run_withdraws_readiness_witness:
  "current_cutover_ready_event demo_env demo_gate ''p'' \<and>
   (\<exists>L'. begin_verification_run_with_baseline demo_env ''p'' ''j'' ''a'' None [] demo_gate = Inr L' \<and>
      \<not> current_cutover_ready_event demo_env L' ''p'')"
proof -
  have "list_ex (\<lambda>c. cw_project c = ''p'' \<and> cw_stage c = ''verification'') (cutovers demo_gate)"
    "current_cutover_ready_event demo_env demo_gate ''p''" by code_simp+
  moreover have "\<not> isl (begin_verification_run_with_baseline demo_env ''p'' ''j'' ''a'' None [] demo_gate)" by code_simp
  then have "begin_verification_run_with_baseline demo_env ''p'' ''j'' ''a'' None [] demo_gate =
      Inr (projr (begin_verification_run_with_baseline demo_env ''p'' ''j'' ''a'' None [] demo_gate))" by (rule not_isl_eq)
  ultimately show ?thesis using new_run_withdraws_readiness by blast
qed

lemma advance_needs_confirmation: "advance_check E p conf L = Inr (Stage_Completed, c) \<Longrightarrow> conf \<noteq> None"
  by (auto simp: advance_check_def Let_def split: option.splits if_splits prod.splits)

lemma quiescence_fresh:
  assumes "source_quiescence_error E attested = None"
  shows "\<exists>text t. attested = Some text \<and> parse_timestamp E text = Some t \<and> t \<le> utc_now E \<and> utc_now E - t \<le> 15 * MINUTE"
  using assms by (auto simp: source_quiescence_error_def Let_def split: option.splits if_splits)

lemma summary_rows:
  assumes "final_verification_evidence_summary L p \<noteq> None" "list_all (accepted L) (project_jobs L p)"
  shows "list_all (\<lambda>j. final_evidence_row L p j \<noteq> None) (project_jobs L p)"
proof -
  let ?S = "filter (\<lambda>j. jb_state j \<in> set [''verified'', ''verified_with_exceptions'']) (project_jobs L p)"
  have "?S = project_jobs L p" using assms(2) by (intro filter_True) (auto simp: list_all_iff accepted_def)
  then have "\<not> list_ex (\<lambda>x. x = None) (map (final_evidence_row L p) (project_jobs L p))"
    using assms(1) unfolding final_verification_evidence_summary_def Let_def by (metis (no_types, lifting))
  then have n: "None \<notin> final_evidence_row L p ` set (project_jobs L p)" by (auto simp: list_ex_iff)
  show ?thesis unfolding list_all_iff by (intro ballI notI) (use n imageI in metis)
qed

text \<open>
  C7: a managed cutover completes only out of its verification stage, approved, with an attestation of the
  quiet source that is at most fifteen minutes old, a readiness event newer than every withdrawal, the external
  confirmation, and for every mailbox an acceptable state with evidence of a completed final-verification run.
\<close>

theorem cutover_completion_gate:
  assumes "advance_cutover E p conf L = Inr (L', Stage_Completed)"
  shows "\<exists>w text t i. cutover_of L p = Some w \<and> cw_stage w = ''verification'' \<and> cw_approved_by w \<noteq> None \<and>
     cw_quiescence_at w = Some text \<and> parse_timestamp E text = Some t \<and> t \<le> utc_now E \<and> utc_now E - t \<le> 15 * MINUTE \<and>
     conf \<noteq> None \<and> latest_ready L p = Some i \<and> newer_event i (latest_withdrawal L p) \<and>
     project_jobs L p \<noteq> [] \<and> list_all (\<lambda>j. accepted L j \<and> final_evidence_row L p j \<noteq> None) (project_jobs L p) \<and>
     map_option pj_phase (project_of L' p) = Some ''complete''"
proof -
  obtain c where c: "advance_check E p conf L = Inr (Stage_Completed, c)" using advance_InrD(1) [OF assms] by blast
  obtain w pj stage n clean excepted where w: "cutover_of L p = Some w" "cw_approved_by w \<noteq> None" "project_of L p = Some pj"
    and st: "parse_stage (cw_stage w) = Some stage" "stage_next stage = Some Stage_Completed"
    and v: "verified_counts L p = (n, clean, excepted)" "n \<noteq> 0" "n = clean + excepted"
    and g: "final_verification_evidence_summary L p \<noteq> None" "current_cutover_ready_event E L p"
      "source_quiescence_error E (cw_quiescence_at w) = None"
    using advance_check_InrD [OF c] by blast
  have s: "cw_stage w = ''verification''"
    using st by (cases stage) (auto simp: parse_stage_def split: if_splits)
  obtain stamp t where q: "cw_quiescence_at w = Some stamp" "parse_timestamp E stamp = Some t" "t \<le> utc_now E"
    "utc_now E - t \<le> 15 * MINUTE" using quiescence_fresh [OF g(3)] by blast
  obtain i where i: "latest_ready L p = Some i" "newer_event i (latest_withdrawal L p)"
    using g(2) by (auto simp: current_cutover_ready_event_def split: option.splits)
  have a: "project_jobs L p \<noteq> []" "list_all (accepted L) (project_jobs L p)" using verified_counts_accepted [OF v] by blast+
  then have r: "list_all (\<lambda>j. accepted L j \<and> final_evidence_row L p j \<noteq> None) (project_jobs L p)"
    using summary_rows [OF g(1)] by (auto simp: list_all_iff)
  have "project_of L' p = project_of (set_phase p (stage_phase Stage_Completed) L) p"
    using advance_InrD(6) [OF assms] by (simp add: project_of_def)
  then have ph: "map_option pj_phase (project_of L' p) = Some ''complete''"
    using w(3) by (simp add: project_of_set_phase stage_phase_def)
  show ?thesis
    by (intro exI conjI) (fact w(1) s w(2) q advance_needs_confirmation [OF c] i a(1) r ph)+
qed

theorem cutover_completion_gate_witness:
  "\<exists>L'. advance_cutover demo_env ''p'' (Some ''done'') demo_gate = Inr (L', Stage_Completed) \<and>
     list_all (\<lambda>j. final_evidence_row demo_gate ''p'' j \<noteq> None) (project_jobs demo_gate ''p'')"
proof -
  let ?a = "advance_cutover demo_env ''p'' (Some ''done'') demo_gate"
  have "\<not> isl ?a" "snd (projr ?a) = Stage_Completed" by code_simp+
  then have a: "?a = Inr (fst (projr ?a), Stage_Completed)" by (metis not_isl_eq prod.collapse)
  from cutover_completion_gate [OF a] show ?thesis using a by (auto simp: list_all_iff)
qed

end
