(* ===== verification/Ledger_Waves.thy ===== *)
theory Ledger_Waves
  imports Ledger_Effects Maintenance_Window
begin

text \<open>
  Migration waves: \<^verbatim>\<open>core/waves.rs\<close>, the tables \<^verbatim>\<open>waves\<close> and \<^verbatim>\<open>wave_members\<close> beside the ledger, and the gate
  of the live batch admission in \<^verbatim>\<open>controller/batch_admission.rs\<close>. The identifier of a new wave is a parameter.
  The wave operations and the transactions of the ledger interleave as steps of one store.
\<close>

section \<open>Tables\<close>

record wave_settings =
  ws_name :: str
  ws_scheduled_at :: "str option"
  ws_maintenance_window :: "str option"
  ws_concurrency :: "nat option"

record wave_row =
  wv_id :: str
  wv_project :: str
  wv_position :: nat
  wv_settings :: wave_settings
  wv_approved_by :: "str option"
  wv_approved_at :: "str option"

record wave_store =
  w_ledger :: ledger
  w_waves :: "wave_row list"
  w_members :: "(str \<times> str) list"

definition MAX_WAVE_MEMBERS :: nat where
  "MAX_WAVE_MEMBERS = MAX_DURABLE_MAILBOX_ROWS"

text \<open>The errors with their texts, and a query that found no row.\<close>

datatype wave_error = Wave_Invalid str | Wave_Not_Found

section \<open>Settings\<close>

text \<open>\<^verbatim>\<open>chars().count()\<close> of a UTF-8 string: its bytes that do not continue a character.\<close>

definition char_count :: "str \<Rightarrow> nat" where
  "char_count s = length (filter (\<lambda>c. \<not> (128 \<le> char_code c \<and> char_code c < 192)) s)"

definition trimmed :: "str option \<Rightarrow> str option" where
  "trimmed v = (case v of None \<Rightarrow> None | Some s \<Rightarrow> if trim s = [] then None else Some (trim s))"

definition validate_settings :: "wave_settings \<Rightarrow> wave_error + wave_settings" where
  "validate_settings s =
     (case single_line_audit_text (ws_name s) (120 * 4) of
        None \<Rightarrow> Inl (Wave_Invalid ''wave name must be 1-120 printable characters'')
      | Some name \<Rightarrow>
          if char_count name > 120 then Inl (Wave_Invalid ''wave name must be 1-120 printable characters'')
          else case (case trimmed (ws_scheduled_at s) of
                       None \<Rightarrow> Some None
                     | Some v \<Rightarrow> map_option Some (single_line_audit_text v 64)) of
                 None \<Rightarrow> Inl (Wave_Invalid ''wave start must be at most 64 printable characters'')
               | Some scheduled \<Rightarrow>
                   let window = trimmed (ws_maintenance_window s) in
                   if (case window of None \<Rightarrow> False | Some w \<Rightarrow> isl (window_parse w))
                   then Inl (Wave_Invalid ''wave maintenance window must be HH:MM-HH:MM[@Mon,Tue,...]'')
                   else if ws_concurrency s = Some 0 then Inl (Wave_Invalid ''wave concurrency must be at least 1'')
                   else Inr \<lparr>ws_name = name, ws_scheduled_at = scheduled, ws_maintenance_window = window,
                             ws_concurrency = ws_concurrency s\<rparr>)"

section \<open>Operations\<close>

definition project_waves :: "wave_store \<Rightarrow> str \<Rightarrow> wave_row list" where
  "project_waves W p = filter (\<lambda>w. wv_project w = p) (w_waves W)"

definition next_position :: "wave_store \<Rightarrow> str \<Rightarrow> nat" where
  "next_position W p = foldr (\<lambda>w n. max (wv_position w + 1) n) (project_waves W p) 0"

definition wave_of :: "wave_store \<Rightarrow> str \<Rightarrow> wave_row option" where
  "wave_of W i = find (\<lambda>w. wv_id w = i) (w_waves W)"

text \<open>The insert of a wave with its constraints: the primary key, the project, and the two unique keys.\<close>

definition insert_wave :: "wave_row \<Rightarrow> wave_store \<Rightarrow> wave_error + wave_store" where
  "insert_wave w W =
     (if list_ex (\<lambda>v. wv_id v = wv_id w) (w_waves W) \<or> project_of (w_ledger W) (wv_project w) = None \<or>
         list_ex (\<lambda>v. ws_name (wv_settings v) = ws_name (wv_settings w) \<or> wv_position v = wv_position w)
           (project_waves W (wv_project w))
      then Inl (Wave_Invalid ''a wave with this name already exists in the project'')
      else Inr (W\<lparr>w_waves := w_waves W @ [w]\<rparr>))"

fun insert_members :: "str \<Rightarrow> str \<Rightarrow> str list \<Rightarrow> wave_store \<Rightarrow> wave_error + wave_store" where
  "insert_members p i [] W = Inr W"
| "insert_members p i (j # js) W =
     (case find (\<lambda>b. jb_id b = j) (jobs (w_ledger W)) of
        None \<Rightarrow> Inl (Wave_Invalid ''every wave member must be a mailbox of this project'')
      | Some b \<Rightarrow>
          if jb_project b \<noteq> p then Inl (Wave_Invalid ''every wave member must be a mailbox of this project'')
          else case find (\<lambda>m. fst m = j) (w_members W) of
                 Some m \<Rightarrow>
                   Inl (Wave_Invalid (''a selected mailbox already belongs to wave \"'' @
                     (case wave_of W (snd m) of None \<Rightarrow> [] | Some w \<Rightarrow> ws_name (wv_settings w)) @
                     ''\"; remove that wave first''))
               | None \<Rightarrow> insert_members p i js (W\<lparr>w_members := w_members W @ [(j, i)]\<rparr>))"

definition wave_event :: "str \<Rightarrow> str \<Rightarrow> str \<Rightarrow> wave_store \<Rightarrow> wave_store" where
  "wave_event p kind detail W = W\<lparr>w_ledger := add_event p None kind detail (w_ledger W)\<rparr>"

definition create_wave ::
  "str \<Rightarrow> str \<Rightarrow> wave_settings \<Rightarrow> str list \<Rightarrow> wave_store \<Rightarrow> wave_error + wave_store \<times> wave_row" where
  "create_wave i p s0 js W =
     (case validate_settings s0 of
        Inl e \<Rightarrow> Inl e
      | Inr s \<Rightarrow>
          if js = [] \<or> length js > MAX_WAVE_MEMBERS then Inl (Wave_Invalid ''a wave needs between 1 and 100,000 mailboxes'')
          else let w = \<lparr>wv_id = i, wv_project = p, wv_position = next_position W p, wv_settings = s,
                        wv_approved_by = None, wv_approved_at = None\<rparr> in
               case insert_wave w W of
                 Inl e \<Rightarrow> Inl e
               | Inr W1 \<Rightarrow>
                   (case insert_members p i js W1 of
                      Inl e \<Rightarrow> Inl e
                    | Inr W2 \<Rightarrow>
                        Inr (wave_event p ''wave_created''
                               (ws_name s @ '' ('' @ nat_to_string (length js) @ '' mailboxes)'') W2, w)))"

definition approve_wave :: "str \<Rightarrow> str \<Rightarrow> str \<Rightarrow> wave_store \<Rightarrow> wave_error + wave_store" where
  "approve_wave now i operator0 W =
     (case single_line_audit_text operator0 256 of
        None \<Rightarrow> Inl (Wave_Invalid ''approver must be 1-256 printable characters'')
      | Some operator \<Rightarrow>
          (case wave_of W i of
             None \<Rightarrow> Inl Wave_Not_Found
           | Some w \<Rightarrow>
               if count_rows (\<lambda>v. wv_id v = i \<and> wv_approved_by v = None) (w_waves W) \<noteq> 1
               then Inl (Wave_Invalid ''this wave is already approved'')
               else Inr (wave_event (wv_project w) ''wave_approved'' (ws_name (wv_settings w) @ '' approved by '' @ operator)
                      (W\<lparr>w_waves := update_rows (\<lambda>v. wv_id v = i \<and> wv_approved_by v = None)
                           (\<lambda>v. v\<lparr>wv_approved_by := Some operator, wv_approved_at := Some now\<rparr>) (w_waves W)\<rparr>))))"

definition delete_wave :: "str \<Rightarrow> wave_store \<Rightarrow> wave_error + wave_store" where
  "delete_wave i W =
     (case wave_of W i of
        None \<Rightarrow> Inl Wave_Not_Found
      | Some w \<Rightarrow>
          if wv_approved_by w \<noteq> None
          then Inl (Wave_Invalid ''an approved wave is an audit record and cannot be deleted'')
          else Inr (wave_event (wv_project w) ''wave_deleted'' (ws_name (wv_settings w))
                 (W\<lparr>w_members := filter (\<lambda>m. snd m \<noteq> i) (w_members W), w_waves := filter (\<lambda>v. wv_id v \<noteq> i) (w_waves W)\<rparr>)))"

section \<open>Queries and the gate of the admission\<close>

definition wave_member_ids :: "wave_store \<Rightarrow> str \<Rightarrow> str list" where
  "wave_member_ids W i = filter (\<lambda>j. (j, i) \<in> set (w_members W)) (map jb_id (jobs (w_ledger W)))"

definition unapproved_wave_members :: "wave_store \<Rightarrow> str \<Rightarrow> (str \<times> str) list" where
  "unapproved_wave_members W p =
     List.map_filter (\<lambda>(j, i). case wave_of W i of
        None \<Rightarrow> None
      | Some w \<Rightarrow> if wv_project w = p \<and> wv_approved_by w = None then Some (j, ws_name (wv_settings w)) else None)
       (w_members W)"

text \<open>The refusal of a live batch; a dry preflight is not gated.\<close>

definition wave_refusal :: "bool \<Rightarrow> wave_store \<Rightarrow> str \<Rightarrow> str list \<Rightarrow> str option" where
  "wave_refusal live W p selected =
     (if \<not> live then None
      else case List.map_filter (map_of (unapproved_wave_members W p)) selected of
             [] \<Rightarrow> None
           | name # _ \<Rightarrow>
               Some (''Live migration blocked: wave \"'' @ name @
                 ''\" is not approved. Approve the wave, or delete it, before migrating its mailboxes.''))"

record wave_summary =
  wm_wave :: wave_row
  wm_members :: nat
  wm_migrating :: nat
  wm_needs_attention :: nat
  wm_catch_up_pending :: nat
  wm_waiting :: nat
  wm_evidenced :: nat
  wm_verified :: nat
  wm_accepted_exceptions :: nat
  wm_completed :: nat

text \<open>The jobs that the members of a wave name.\<close>

definition member_jobs :: "wave_store \<Rightarrow> str \<Rightarrow> job_row list" where
  "member_jobs W i =
     List.map_filter (\<lambda>m. find (\<lambda>b. jb_id b = fst m) (jobs (w_ledger W))) (filter (\<lambda>m. snd m = i) (w_members W))"

definition has_acceptance :: "ledger \<Rightarrow> job_row \<Rightarrow> bool" where
  "has_acceptance L b \<longleftrightarrow> list_ex (\<lambda>a. va_job_id a = jb_id b) (acceptances L)"

definition wave_summary_of :: "wave_store \<Rightarrow> wave_row \<Rightarrow> wave_summary" where
  "wave_summary_of W w =
     (let L = w_ledger W; bs = member_jobs W (wv_id w);
          members = length (filter (\<lambda>m. snd m = wv_id w) (w_members W));
          verified = count_rows (\<lambda>b. jb_state b = ''verified'') bs;
          excepted = count_rows (\<lambda>b. jb_state b = ''verified_with_exceptions'' \<and> has_acceptance L b) bs;
          completed = saturating_add_u64 verified excepted;
          migrating = count_rows (\<lambda>b. jb_state b \<in> {''preflight'', ''running'', ''completed''}) bs;
          attention = count_rows (\<lambda>b. jb_state b \<in> {''attention'', ''failed'', ''verification_difference''}) bs;
          catch_up = count_rows (\<lambda>b. jb_state b = ''delta_required'') bs in
      \<lparr>wm_wave = w, wm_members = members, wm_migrating = migrating, wm_needs_attention = attention,
       wm_catch_up_pending = catch_up, wm_waiting = members - (completed + migrating + attention + catch_up),
       wm_evidenced = count_rows (\<lambda>b. list_ex (\<lambda>e. er_job e = jb_id b) (evidence_table L)) bs,
       wm_verified = verified, wm_accepted_exceptions = excepted, wm_completed = completed\<rparr>)"

definition wave_summaries :: "wave_store \<Rightarrow> str \<Rightarrow> wave_summary list" where
  "wave_summaries W p = map (wave_summary_of W) (sort_key wv_position (project_waves W p))"

datatype wave_status =
    Wave_Draft | Wave_Approved | Wave_InProgress | Wave_NeedsAttention | Wave_CatchUpPending | Wave_Complete
  | Wave_CompleteWithExceptions

fun wave_status_as_str :: "wave_status \<Rightarrow> str" where
  "wave_status_as_str Wave_Draft = ''draft''"
| "wave_status_as_str Wave_Approved = ''approved''"
| "wave_status_as_str Wave_InProgress = ''in_progress''"
| "wave_status_as_str Wave_NeedsAttention = ''needs_attention''"
| "wave_status_as_str Wave_CatchUpPending = ''catch_up_pending''"
| "wave_status_as_str Wave_Complete = ''complete''"
| "wave_status_as_str Wave_CompleteWithExceptions = ''complete_with_exceptions''"

definition summary_status :: "wave_summary \<Rightarrow> wave_status" where
  "summary_status s =
     (if wv_approved_by (wm_wave s) = None then Wave_Draft
      else if wm_members s > 0 \<and> wm_completed s = wm_members s
      then (if wm_accepted_exceptions s > 0 then Wave_CompleteWithExceptions else Wave_Complete)
      else if wm_needs_attention s > 0 then Wave_NeedsAttention
      else if wm_migrating s > 0 then Wave_InProgress
      else if wm_catch_up_pending s > 0 then Wave_CatchUpPending
      else if wm_completed s > 0 then Wave_InProgress
      else Wave_Approved)"

section \<open>Steps\<close>

inductive wave_step :: "environment \<Rightarrow> wave_store \<Rightarrow> wave_store \<Rightarrow> bool" for E where
  ledger: "ledger_step E (w_ledger W) L' \<Longrightarrow> wave_step E W (W\<lparr>w_ledger := L'\<rparr>)"
| create_wave: "create_wave i p s js W = Inr (W', w) \<Longrightarrow> wave_step E W W'"
| approve_wave: "approve_wave now i operator W = Inr W' \<Longrightarrow> wave_step E W W'"
| delete_wave: "delete_wave i W = Inr W' \<Longrightarrow> wave_step E W W'"

definition empty_store :: wave_store where
  "empty_store = \<lparr>w_ledger = empty_ledger, w_waves = [], w_members = []\<rparr>"

section \<open>Mailboxes stay in their projects\<close>

definition jobs_persist :: "ledger \<Rightarrow> ledger \<Rightarrow> bool" where
  "jobs_persist L L' \<longleftrightarrow> (\<forall>b \<in> set (jobs L). \<exists>b' \<in> set (jobs L'). jb_id b' = jb_id b \<and> jb_project b' = jb_project b)"

lemma jobs_persist_same: "jobs L' = jobs L \<Longrightarrow> jobs_persist L L'"
  by (auto simp: jobs_persist_def)

lemma jobs_persist_map: "jobs L' = map h (jobs L) \<Longrightarrow> (\<And>b. jb_id (h b) = jb_id b \<and> jb_project (h b) = jb_project b) \<Longrightarrow> jobs_persist L L'"
  by (force simp: jobs_persist_def)

lemma jobs_persist_update:
  "jobs L' = update_rows Q f (jobs L) \<Longrightarrow> (\<And>b. jb_id (f b) = jb_id b \<and> jb_project (f b) = jb_project b) \<Longrightarrow> jobs_persist L L'"
  by (rule jobs_persist_map [where h = "\<lambda>b. if Q b then f b else b"]) (simp_all add: update_rows_def)

lemma jobs_persist_more: "jobs L' = jobs L @ new \<Longrightarrow> jobs_persist L L'"
  by (auto simp: jobs_persist_def)

lemma jobs_persist_settle:
  assumes "jobs L' = jobs (settle_job q j state re plan ck M)" "jobs M = jobs L"
  shows "jobs_persist L L'"
  by (rule jobs_persist_update [OF assms(1) [unfolded settle_job_def, simplified, unfolded assms(2)]]) simp

lemma jobs_persist_ending:
  "finish_run E' run status detail L = Inr L' \<Longrightarrow> jobs_persist L L'"
  "finish_run_for_mailbox E' q j run status state detail plan ck L = Inr L' \<Longrightarrow> jobs_persist L L'"
  "finish_run_with_evidence E' q j run status state detail v ms plan ck L = Inr L' \<Longrightarrow> jobs_persist L L'"
  "finish_verification_only_run E' q j run v ms folders detail L = Inr L' \<Longrightarrow> jobs_persist L L'"
  "cancel_held_child_run E' q j run detail L = Inr L' \<Longrightarrow> jobs_persist L L'"
  "recover_abandoned_jobs_preserving E' preserved L = Inr (L', n) \<Longrightarrow> jobs_persist L L'"
proof -
  show "jobs_persist L L'" if "finish_run E' run status detail L = Inr L'"
    using that by (intro jobs_persist_same) (auto simp: finish_run_def Let_def split: if_splits option.splits)
  show "jobs_persist L L'" if f: "finish_run_for_mailbox E' q j run status state detail plan ck L = Inr L'"
    by (rule jobs_persist_settle [OF finish_run_for_mailbox_InrD(5) [OF f]]) simp
  show "jobs_persist L L'" if f: "finish_run_with_evidence E' q j run status state detail v ms plan ck L = Inr L'"
    using finish_run_with_evidence_InrD(3) [OF f] by (auto simp: same_core_def intro: jobs_persist_settle)
  show "jobs_persist L L'" if f: "finish_verification_only_run E' q j run v ms folders detail L = Inr L'"
    by (rule jobs_persist_same [OF audit_finish_effect(1) [OF f]])
  show "jobs_persist L L'" if "cancel_held_child_run E' q j run detail L = Inr L'"
    using that unfolding cancel_held_child_run_def Let_def guards by (intro jobs_persist_same) auto
  show "jobs_persist L L'" if f: "recover_abandoned_jobs_preserving E' preserved L = Inr (L', n)"
    by (rule jobs_persist_map [OF recover_InrD(1) [OF f]]) auto
qed

lemma jobs_persist_changes:
  "create_project_with_mailbox E' q j name source destination sm dm L = Inr L' \<Longrightarrow> jobs_persist L L'"
  "reopen_project q reason L = Inr L' \<Longrightarrow> jobs_persist L L'"
  "accept_verification_difference E' q j operator reason L = Inr L' \<Longrightarrow> jobs_persist L L'"
  "advance_cutover E' q conf L = Inr (L', st) \<Longrightarrow> jobs_persist L L'"
  "create_batch_queue E' q job_id plan_id name source destination rows L = Inr L' \<Longrightarrow> jobs_persist L L'"
  "update_queue_plans q updates L = Inr (L', n) \<Longrightarrow> jobs_persist L L'"
proof -
  show "jobs_persist L L'" if "create_project_with_mailbox E' q j name source destination sm dm L = Inr L'"
    using that unfolding create_project_with_mailbox_def guards by (auto simp: jobs_persist_def)
  show "jobs_persist L L'" if "reopen_project q reason L = Inr L'"
    using that unfolding reopen_project_def Let_def guards
    by (elim exE conjE) (rule jobs_persist_update [where f = "\<lambda>j. j\<lparr>jb_state := ''attention'',
         jb_attention_reason := Some ''verification_incomplete''\<rparr>"], auto)
  show "jobs_persist L L'" if "accept_verification_difference E' q j operator reason L = Inr L'"
    using accept_InrD(1) [OF that] by (auto intro!: jobs_persist_update)
  show "jobs_persist L L'" if "advance_cutover E' q conf L = Inr (L', st)"
  proof (cases "st = Stage_Completed")
    case False
    then show ?thesis using advance_InrD(2,3) [OF that]
      by (intro jobs_persist_update [where f = "\<lambda>j. j\<lparr>jb_state := ''ready'', jb_attention_reason := None\<rparr>"])
        (simp_all add: requeue_verified_def)
  qed (use advance_InrD(2,3) [OF that] in \<open>simp add: jobs_persist_same\<close>)
  show "jobs_persist L L'" if "create_batch_queue E' q job_id plan_id name source destination rows L = Inr L'"
    using create_batch_queue_InrD(1,3) [OF that] by (auto simp: adds_queued_jobs_def intro: jobs_persist_more)
  show "jobs_persist L L'" if "update_queue_plans q updates L = Inr (L', n)"
    using update_queue_plans_effect [OF that] unfolding updates_deltas_def keeps_identity_def
    by (elim exE conjE) (erule jobs_persist_map, blast)
qed

lemma jobs_persist_start:
  "begin_run_with_snapshot E' q j run engine snapshot L = Inr L' \<Longrightarrow> jobs_persist L L'"
  "begin_verification_run_with_baseline E' q j run transfer snapshot L = Inr L' \<Longrightarrow> jobs_persist L L'"
  "begin_batch_run_with_children E' q js run engine expected snapshot plans cs L = Inr (L', cs') \<Longrightarrow> jobs_persist L L'"
  "claim_batch_mailbox_for_child E' q j parent child L = Inr L' \<Longrightarrow> jobs_persist L L'"
proof -
  show "jobs_persist L L'" if f: "begin_run_with_snapshot E' q j run engine snapshot L = Inr L'"
    by (rule jobs_persist_update [OF begin_run_effect(2) [OF f, unfolded mark_running_def, simplified]]) simp
  show "jobs_persist L L'" if f: "begin_verification_run_with_baseline E' q j run transfer snapshot L = Inr L'"
    using start_effects(1) [OF f] by (simp add: only_runs_def jobs_persist_same)
  show "jobs_persist L L'" if f: "begin_batch_run_with_children E' q js run engine expected snapshot plans cs L = Inr (L', cs')"
    using start_effects(2) [OF f] by (simp add: only_runs_def jobs_persist_same)
  show "jobs_persist L L'" if f: "claim_batch_mailbox_for_child E' q j parent child L = Inr L'"
    by (rule claim_InrD [OF f], erule jobs_persist_update, simp)
qed

lemmas persists = jobs_persist_ending jobs_persist_changes jobs_persist_start

lemma step_jobs_persist: "ledger_step E L L' \<Longrightarrow> jobs_persist L L'"
  by (induction rule: ledger_step.induct)
    (erule persists | (drule no_run_change recording_same_core, simp add: same_core_def jobs_persist_same))+

section \<open>The invariant of the waves\<close>

text \<open>
  Every wave has a valid name and window and at least one member, every member is a mailbox of the project of its
  wave, a mailbox is in at most one wave, and names and positions are unique in a project. The invariants of
  \<^verbatim>\<open>core/database/invariants.rs\<close> about waves follow.
\<close>

definition settings_ok :: "wave_settings \<Rightarrow> bool" where
  "settings_ok s \<longleftrightarrow>
     ws_name s \<noteq> [] \<and> char_count (ws_name s) \<le> 120 \<and> ws_concurrency s \<noteq> Some 0 \<and>
     (case ws_maintenance_window s of None \<Rightarrow> True | Some w \<Rightarrow> \<not> isl (window_parse w))"

definition member_ok :: "wave_store \<Rightarrow> str \<times> str \<Rightarrow> bool" where
  "member_ok W m \<longleftrightarrow>
     list_ex (\<lambda>w. wv_id w = snd m \<and> list_ex (\<lambda>b. jb_id b = fst m \<and> jb_project b = wv_project w) (jobs (w_ledger W))) (w_waves W)"

definition members_of :: "wave_store \<Rightarrow> str \<Rightarrow> (str \<times> str) list" where
  "members_of W i = filter (\<lambda>m. snd m = i) (w_members W)"

definition waves_ok :: "wave_store \<Rightarrow> bool" where
  "waves_ok W \<longleftrightarrow>
     list_all (\<lambda>w. settings_ok (wv_settings w) \<and> members_of W (wv_id w) \<noteq> [] \<and> length (members_of W (wv_id w)) \<le> MAX_WAVE_MEMBERS)
       (w_waves W) \<and>
     list_all (member_ok W) (w_members W) \<and> distinct (map fst (w_members W)) \<and> distinct (map wv_id (w_waves W)) \<and>
     distinct (map (\<lambda>w. (wv_project w, ws_name (wv_settings w))) (w_waves W)) \<and>
     distinct (map (\<lambda>w. (wv_project w, wv_position w)) (w_waves W))"

lemma validate_settings_ok: "validate_settings s = Inr s' \<Longrightarrow> settings_ok s'"
  by (auto simp: validate_settings_def single_line_audit_text_def settings_ok_def Let_def split: option.splits if_splits)

lemma insert_members_effect:
  assumes "insert_members p i js W = Inr W'"
  shows "w_ledger W' = w_ledger W" "w_waves W' = w_waves W" "w_members W' = w_members W @ map (\<lambda>j. (j, i)) js"
    "distinct (map fst (w_members W)) \<Longrightarrow> distinct (map fst (w_members W'))"
    "list_all (\<lambda>j. list_ex (\<lambda>b. jb_id b = j \<and> jb_project b = p) (jobs (w_ledger W))) js"
proof -
  have "w_ledger W' = w_ledger W \<and> w_waves W' = w_waves W \<and> w_members W' = w_members W @ map (\<lambda>j. (j, i)) js \<and>
    (distinct (map fst (w_members W)) \<longrightarrow> distinct (map fst (w_members W) @ js)) \<and>
    list_all (\<lambda>j. list_ex (\<lambda>b. jb_id b = j \<and> jb_project b = p) (jobs (w_ledger W))) js" using assms
  proof (induction p i js W rule: insert_members.induct)
    case (2 p i j js W)
    obtain b where b: "find (\<lambda>b. jb_id b = j) (jobs (w_ledger W)) = Some b" "jb_project b = p"
      and m: "find (\<lambda>m. fst m = j) (w_members W) = None"
      and r: "insert_members p i js (W\<lparr>w_members := w_members W @ [(j, i)]\<rparr>) = Inr W'"
      using 2(2) by (auto split: option.splits if_splits)
    have "j \<notin> fst ` set (w_members W)" using m by (auto simp: find_None_iff)
    moreover have "list_ex (\<lambda>b. jb_id b = j \<and> jb_project b = p) (jobs (w_ledger W))" using find_SomeD [OF b(1)] b(2) by (auto simp: list_ex_iff)
    ultimately show ?case using 2(1) [OF b(1) _ m r] b(2) by (simp add: image_iff)
  qed simp
  then show "w_ledger W' = w_ledger W" "w_waves W' = w_waves W" "w_members W' = w_members W @ map (\<lambda>j. (j, i)) js"
    "distinct (map fst (w_members W)) \<Longrightarrow> distinct (map fst (w_members W'))"
    "list_all (\<lambda>j. list_ex (\<lambda>b. jb_id b = j \<and> jb_project b = p) (jobs (w_ledger W))) js"
    by (simp_all add: comp_def)
qed

lemma wave_event_frame [simp]:
  "w_waves (wave_event p k d W) = w_waves W" "w_members (wave_event p k d W) = w_members W"
  "members_of (wave_event p k d W) = members_of W"
  "jobs (w_ledger (wave_event p k d W)) = jobs (w_ledger W)" "runs (w_ledger (wave_event p k d W)) = runs (w_ledger W)"
  by (simp_all add: wave_event_def fun_eq_iff members_of_def)

lemma member_ok_event [simp]: "member_ok (wave_event p k d W) = member_ok W"
  by (simp add: fun_eq_iff member_ok_def)

lemma waves_ok_event [simp]: "waves_ok (wave_event p k d W) = waves_ok W"
  by (simp add: waves_ok_def)

lemma create_wave_InrD:
  assumes "create_wave i p s0 js W = Inr (W', w)"
  obtains s where "validate_settings s0 = Inr s" "js \<noteq> []" "length js \<le> MAX_WAVE_MEMBERS"
    "w = \<lparr>wv_id = i, wv_project = p, wv_position = next_position W p, wv_settings = s, wv_approved_by = None, wv_approved_at = None\<rparr>"
    "w_waves W' = w_waves W @ [w]" "w_members W' = w_members W @ map (\<lambda>j. (j, i)) js"
    "jobs (w_ledger W') = jobs (w_ledger W)" "runs (w_ledger W') = runs (w_ledger W)"
    "\<not> list_ex (\<lambda>v. wv_id v = i) (w_waves W)"
    "\<not> list_ex (\<lambda>v. ws_name (wv_settings v) = ws_name s \<or> wv_position v = next_position W p) (project_waves W p)"
    "distinct (map fst (w_members W)) \<Longrightarrow> distinct (map fst (w_members W'))"
    "list_all (\<lambda>j. list_ex (\<lambda>b. jb_id b = j \<and> jb_project b = p) (jobs (w_ledger W))) js"
proof -
  obtain s W1 W2 where s: "validate_settings s0 = Inr s" "js \<noteq> []" "length js \<le> MAX_WAVE_MEMBERS"
    and w: "w = \<lparr>wv_id = i, wv_project = p, wv_position = next_position W p, wv_settings = s, wv_approved_by = None, wv_approved_at = None\<rparr>"
    and i: "insert_wave w W = Inr W1" and m: "insert_members p i js W1 = Inr W2"
    and W': "W' = wave_event p ''wave_created'' (ws_name s @ '' ('' @ nat_to_string (length js) @ '' mailboxes)'') W2"
    using assms by (auto simp: create_wave_def Let_def split: sum.splits if_splits)
  have W1: "W1 = W\<lparr>w_waves := w_waves W @ [w]\<rparr>" "\<not> list_ex (\<lambda>v. wv_id v = wv_id w) (w_waves W)"
    "\<not> list_ex (\<lambda>v. ws_name (wv_settings v) = ws_name (wv_settings w) \<or> wv_position v = wv_position w) (project_waves W (wv_project w))"
    using i by (auto simp: insert_wave_def split: if_splits)
  note e = insert_members_effect [OF m]
  show ?thesis by (rule that [OF s w]) (use W1(2,3) e in \<open>simp_all add: W' W1(1) w\<close>)
qed

section \<open>Every operation keeps the invariant\<close>

lemma create_wave_ok:
  assumes ok: "waves_ok W" and c: "create_wave i p s0 js W = Inr (W', w)"
  shows "waves_ok W'"
  using c
proof (rule create_wave_InrD)
  fix s assume s: "validate_settings s0 = Inr s" "js \<noteq> []" "length js \<le> MAX_WAVE_MEMBERS"
    and w: "w = \<lparr>wv_id = i, wv_project = p, wv_position = next_position W p, wv_settings = s, wv_approved_by = None, wv_approved_at = None\<rparr>"
    and ws: "w_waves W' = w_waves W @ [w]" and ms: "w_members W' = w_members W @ map (\<lambda>j. (j, i)) js"
    and L: "jobs (w_ledger W') = jobs (w_ledger W)" and fresh: "\<not> list_ex (\<lambda>v. wv_id v = i) (w_waves W)"
    and u: "\<not> list_ex (\<lambda>v. ws_name (wv_settings v) = ws_name s \<or> wv_position v = next_position W p) (project_waves W p)"
    and d: "distinct (map fst (w_members W)) \<Longrightarrow> distinct (map fst (w_members W'))"
    and j: "list_all (\<lambda>j. list_ex (\<lambda>b. jb_id b = j \<and> jb_project b = p) (jobs (w_ledger W))) js"
  have none: "members_of W i = []"
    using ok fresh by (auto simp: waves_ok_def member_ok_def members_of_def list_all_iff list_ex_iff filter_empty_conv)
  have m: "members_of W' v = (if v = i then map (\<lambda>j. (j, i)) js else members_of W v)" for v
    using none by (auto simp: members_of_def ms filter_empty_conv)
  have old: "list_all (member_ok W') (w_members W)"
    using ok by (auto simp: waves_ok_def member_ok_def list_all_iff list_ex_iff ws L)
  have new: "list_all (member_ok W') (map (\<lambda>j. (j, i)) js)"
    using j by (simp add: member_ok_def list_all_iff ws L w)
  have waves: "list_all (\<lambda>w. settings_ok (wv_settings w) \<and> members_of W' (wv_id w) \<noteq> [] \<and> length (members_of W' (wv_id w)) \<le> MAX_WAVE_MEMBERS) (w_waves W')"
    using ok s fresh validate_settings_ok [OF s(1)] by (auto simp: waves_ok_def list_all_iff list_ex_iff ws m w)
  have keys: "(wv_project w, ws_name (wv_settings w)) \<notin> set (map (\<lambda>w. (wv_project w, ws_name (wv_settings w))) (w_waves W))"
    "(wv_project w, wv_position w) \<notin> set (map (\<lambda>w. (wv_project w, wv_position w)) (w_waves W))" "wv_id w \<notin> set (map wv_id (w_waves W))"
    using u fresh by (auto simp: project_waves_def list_ex_iff w)
  show "waves_ok W'" using ok d keys waves old new unfolding waves_ok_def by (simp add: ws ms)
qed

lemma waves_ok_update:
  assumes "waves_ok W" "\<And>w. wv_id (f w) = wv_id w \<and> wv_project (f w) = wv_project w \<and> wv_settings (f w) = wv_settings w \<and> wv_position (f w) = wv_position w"
  shows "waves_ok (W\<lparr>w_waves := map f (w_waves W)\<rparr>)"
proof -
  have "member_ok (W\<lparr>w_waves := map f (w_waves W)\<rparr>) = member_ok W"
    by (simp add: fun_eq_iff member_ok_def list_ex_iff assms(2))
  moreover have "members_of (W\<lparr>w_waves := map f (w_waves W)\<rparr>) = members_of W" by (simp add: fun_eq_iff members_of_def)
  ultimately show ?thesis using assms(1) by (simp add: waves_ok_def list_all_iff comp_def assms(2))
qed

lemma approve_wave_ok:
  assumes ok: "waves_ok W" and a: "approve_wave now i operator W = Inr W'"
  shows "waves_ok W'"
proof -
  obtain p k d g where "W' = wave_event p k d (W\<lparr>w_waves := update_rows (\<lambda>v. wv_id v = i \<and> wv_approved_by v = None)
      (\<lambda>v. v\<lparr>wv_approved_by := Some g, wv_approved_at := Some now\<rparr>) (w_waves W)\<rparr>)"
    using a by (auto simp: approve_wave_def split: option.splits if_splits)
  then show ?thesis unfolding update_rows_def by (simp add: waves_ok_update [OF ok])
qed

lemma delete_wave_InrD:
  assumes "delete_wave i W = Inr W'"
  obtains w p k d where "wave_of W i = Some w" "wv_approved_by w = None"
    "W' = wave_event p k d (W\<lparr>w_members := filter (\<lambda>m. snd m \<noteq> i) (w_members W), w_waves := filter (\<lambda>v. wv_id v \<noteq> i) (w_waves W)\<rparr>)"
  using assms by (auto simp: delete_wave_def split: option.splits if_splits)

lemma delete_wave_ok:
  assumes ok: "waves_ok W" and d: "delete_wave i W = Inr W'"
  shows "waves_ok W'"
proof -
  let ?W = "W\<lparr>w_members := filter (\<lambda>m. snd m \<noteq> i) (w_members W), w_waves := filter (\<lambda>v. wv_id v \<noteq> i) (w_waves W)\<rparr>"
  have m: "members_of ?W v = (if v = i then [] else members_of W v)" for v by (auto simp: members_of_def filter_empty_conv intro: filter_cong)
  have "member_ok ?W x" if "member_ok W x" "snd x \<noteq> i" for x
    using that unfolding member_ok_def list_ex_iff by auto
  then have "list_all (member_ok ?W) (w_members ?W)" using ok by (simp add: waves_ok_def list_all_iff)
  then have "waves_ok ?W" using ok by (auto simp: waves_ok_def list_all_iff m distinct_map_filter)
  then show ?thesis using d by (auto elim!: delete_wave_InrD)
qed

lemma ledger_wave_ok:
  assumes ok: "waves_ok W" and s: "ledger_step E (w_ledger W) L'"
  shows "waves_ok (W\<lparr>w_ledger := L'\<rparr>)"
proof -
  have "member_ok (W\<lparr>w_ledger := L'\<rparr>) m" if "member_ok W m" for m
    using that step_jobs_persist [OF s] unfolding member_ok_def jobs_persist_def list_ex_iff by (simp, metis)
  moreover have "members_of (W\<lparr>w_ledger := L'\<rparr>) = members_of W" by (simp add: fun_eq_iff members_of_def)
  ultimately show ?thesis using ok by (auto simp: waves_ok_def list_all_iff)
qed

definition store_ok :: "environment \<Rightarrow> wave_store \<Rightarrow> bool" where
  "store_ok E W \<longleftrightarrow> waves_ok W \<and> ledger_inv E (w_ledger W)"

lemma wave_step_ok: "wave_step E W W' \<Longrightarrow> store_ok E W \<Longrightarrow> store_ok E W'"
proof (induction rule: wave_step.induct)
  case (ledger W L')
  then show ?case using ledger_wave_ok ledger_step_inv by (auto simp: store_ok_def)
next
  case (create_wave i p s js W W' w)
  then show ?case using create_wave_ok [OF _ create_wave(1)]
    by (auto simp: store_ok_def ledger_inv_def elim!: create_wave_InrD)
next
  case (approve_wave now i operator W W')
  then show ?case using approve_wave_ok [OF _ approve_wave(1)]
    by (auto simp: store_ok_def ledger_inv_def approve_wave_def split: option.splits if_splits)
next
  case (delete_wave i W W')
  then show ?case using delete_wave_ok [OF _ delete_wave(1)]
    by (auto simp: store_ok_def ledger_inv_def elim!: delete_wave_InrD)
qed

interpretation waves: step_invariant "wave_step E" "store_ok E" for E
  by unfold_locales (rule wave_step_ok)

lemma empty_store_simps [simp]: "w_ledger empty_store = empty_ledger" "w_waves empty_store = []" "w_members empty_store = []"
  by (simp_all add: empty_store_def)

lemma empty_store_ok: "store_ok E empty_store"
  by (simp add: store_ok_def waves_ok_def empty_ledger_inv)

lemma reachable_store: "(wave_step E)\<^sup>*\<^sup>* empty_store W \<Longrightarrow> store_ok E W"
  using waves.reach_keeps empty_store_ok by blast

section \<open>Approved waves\<close>

definition wave_stays :: "wave_row \<Rightarrow> wave_store \<Rightarrow> wave_store \<Rightarrow> bool" where
  "wave_stays w W W' \<longleftrightarrow> w \<in> set (w_waves W') \<and> members_of W' (wv_id w) = members_of W (wv_id w)"

lemma approved_wave_stays:
  assumes s: "wave_step E W W'" and ok: "waves_ok W" and w: "w \<in> set (w_waves W)" "wv_approved_by w \<noteq> None"
  shows "wave_stays w W W'"
  using s
proof (cases rule: wave_step.cases)
  case (ledger L')
  then show ?thesis using w by (simp add: wave_stays_def members_of_def)
next
  case (create_wave i p s js v)
  from create_wave show ?thesis
  proof (rule create_wave_InrD)
    assume "w_waves W' = w_waves W @ [v]" "w_members W' = w_members W @ map (\<lambda>j. (j, i)) js" "\<not> list_ex (\<lambda>v. wv_id v = i) (w_waves W)"
    then show ?thesis using w(1) by (auto simp: wave_stays_def members_of_def list_ex_iff filter_empty_conv)
  qed
next
  case (approve_wave now i operator)
  then have "members_of W' = members_of W \<and> w \<in> set (w_waves W')"
    using w by (auto simp: approve_wave_def members_of_def fun_eq_iff set_update_rows image_iff split: option.splits if_splits intro!: bexI [of _ w])
  then show ?thesis by (simp add: wave_stays_def)
next
  case (delete_wave i)
  from delete_wave show ?thesis
  proof (rule delete_wave_InrD)
    fix v p k d assume v: "wave_of W i = Some v" "wv_approved_by v = None"
      and W': "W' = wave_event p k d (W\<lparr>w_members := filter (\<lambda>m. snd m \<noteq> i) (w_members W), w_waves := filter (\<lambda>v. wv_id v \<noteq> i) (w_waves W)\<rparr>)"
    have vi: "v \<in> set (w_waves W)" "wv_id v = i" using find_SomeD [OF v(1) [unfolded wave_of_def]] by simp_all
    have "wv_id w \<noteq> i"
    proof
      assume "wv_id w = i"
      then have "v = w" using vi w(1) ok unfolding waves_ok_def distinct_map by (metis inj_on_eq_iff)
      then show False using v(2) w(2) by simp
    qed
    then show ?thesis using w(1) by (auto simp: wave_stays_def W' members_of_def intro: filter_cong)
  qed
qed

lemma approved_wave_stays_reach:
  assumes "(wave_step E)\<^sup>*\<^sup>* W W'" "store_ok E W" "w \<in> set (w_waves W)" "wv_approved_by w \<noteq> None"
  shows "wave_stays w W W'"
  using assms(1)
proof (induction rule: rtranclp_induct)
  case base
  then show ?case using assms(3) by (simp add: wave_stays_def)
next
  case (step A B)
  have "store_ok E A" using waves.reach_keeps [OF step(1) assms(2)] .
  then have "wave_stays w A B" using approved_wave_stays [OF step(2)] step(3) assms(4) by (simp add: store_ok_def wave_stays_def)
  then show ?case using step(3) by (simp add: wave_stays_def)
qed

section \<open>Summaries\<close>

lemma member_jobs_length:
  assumes "waves_ok W"
  shows "length (member_jobs W i) = length (members_of W i)"
proof -
  have "find (\<lambda>b. jb_id b = fst m) (jobs (w_ledger W)) \<noteq> None" if "m \<in> set (w_members W)" for m
    using assms that by (auto simp: waves_ok_def member_ok_def list_all_iff list_ex_iff find_None_iff)
  then have "filter (\<lambda>m. find (\<lambda>b. jb_id b = fst m) (jobs (w_ledger W)) \<noteq> None) (members_of W i) = members_of W i"
    unfolding filter_id_conv by (auto simp: members_of_def)
  then show ?thesis unfolding member_jobs_def members_of_def [symmetric] map_filter_def by (simp add: comp_def)
qed

lemma count_rows_disjoint:
  "(\<And>x. P x \<Longrightarrow> \<not> Q x) \<Longrightarrow> count_rows P xs + count_rows Q xs = count_rows (\<lambda>x. P x \<or> Q x) xs"
  by (induction xs) (auto simp: count_rows_def)

lemma count_rows_le: "count_rows P xs \<le> length xs"
  by (simp add: count_rows_def)

lemma count_rows_all: "count_rows P xs = length xs \<longleftrightarrow> list_all P xs"
  by (induction xs) (auto simp: count_rows_def, metis Suc_n_not_le_n length_filter_le)

lemma count_rows_pos: "count_rows P xs > 0 \<longleftrightarrow> list_ex P xs"
  by (simp add: count_rows_def list_ex_iff filter_empty_conv)

lemma summary_completed:
  assumes ok: "waves_ok W" and w: "w \<in> set (w_waves W)"
  defines "s \<equiv> wave_summary_of W w" and "bs \<equiv> member_jobs W (wv_id w)"
  shows "wm_completed s = count_rows (accepted (w_ledger W)) bs" "wm_members s = length bs" "length bs > 0"
    "wm_completed s + wm_migrating s + wm_needs_attention s + wm_catch_up_pending s \<le> wm_members s"
    "wm_accepted_exceptions s > 0 \<longleftrightarrow> list_ex (\<lambda>b. jb_state b = ''verified_with_exceptions'' \<and> has_acceptance (w_ledger W) b) bs"
proof -
  let ?L = "w_ledger W"
  let ?v = "\<lambda>b. jb_state b = ''verified''" and ?x = "\<lambda>b. jb_state b = ''verified_with_exceptions'' \<and> has_acceptance ?L b"
  have m: "length (members_of W (wv_id w)) \<le> MAX_WAVE_MEMBERS" "members_of W (wv_id w) \<noteq> []"
    using ok w by (simp_all add: waves_ok_def list_all_iff)
  have n: "length bs = length (members_of W (wv_id w))" unfolding bs_def by (rule member_jobs_length [OF ok])
  show "wm_members s = length bs" unfolding n by (simp add: s_def wave_summary_of_def Let_def members_of_def)
  then have mem: "wm_members s = length bs" .
  show "length bs > 0" using n m(2) by simp
  have acc: "accepted ?L = (\<lambda>b. ?v b \<or> ?x b)" by (auto simp: fun_eq_iff accepted_def has_acceptance_def)
  have vx: "count_rows ?v bs + count_rows ?x bs = count_rows (accepted ?L) bs" unfolding acc by (rule count_rows_disjoint) simp
  moreover have "count_rows (accepted ?L) bs \<le> u64_max"
    using count_rows_le [of "accepted ?L" bs] n m(1) by (simp add: MAX_WAVE_MEMBERS_def MAX_DURABLE_MAILBOX_ROWS_def u64_max_def)
  ultimately show c: "wm_completed s = count_rows (accepted ?L) bs"
    by (simp add: s_def wave_summary_of_def Let_def bs_def saturating_add_u64_def)
  let ?m = "\<lambda>b. jb_state b \<in> {''preflight'', ''running'', ''completed''}"
  let ?a = "\<lambda>b. jb_state b \<in> {''attention'', ''failed'', ''verification_difference''}" and ?d = "\<lambda>b. jb_state b = ''delta_required''"
  have "count_rows (accepted ?L) bs + count_rows ?m bs = count_rows (\<lambda>b. accepted ?L b \<or> ?m b) bs"
    by (rule count_rows_disjoint) (auto simp: accepted_def)
  moreover have "count_rows (\<lambda>b. accepted ?L b \<or> ?m b) bs + count_rows ?a bs = count_rows (\<lambda>b. (accepted ?L b \<or> ?m b) \<or> ?a b) bs"
    by (rule count_rows_disjoint) (auto simp: accepted_def)
  moreover have "count_rows (\<lambda>b. (accepted ?L b \<or> ?m b) \<or> ?a b) bs + count_rows ?d bs = count_rows (\<lambda>b. ((accepted ?L b \<or> ?m b) \<or> ?a b) \<or> ?d b) bs"
    by (rule count_rows_disjoint) (auto simp: accepted_def)
  ultimately have "count_rows (accepted ?L) bs + count_rows ?m bs + count_rows ?a bs + count_rows ?d bs \<le> length bs"
    using count_rows_le [of "\<lambda>b. ((accepted ?L b \<or> ?m b) \<or> ?a b) \<or> ?d b" bs] by linarith
  then show "wm_completed s + wm_migrating s + wm_needs_attention s + wm_catch_up_pending s \<le> wm_members s"
    unfolding c mem by (simp add: s_def wave_summary_of_def Let_def bs_def)
  show "wm_accepted_exceptions s > 0 \<longleftrightarrow> list_ex ?x bs"
    by (simp add: s_def wave_summary_of_def Let_def bs_def count_rows_pos)
qed

section \<open>The gate\<close>

lemma unapproved_member:
  assumes ok: "waves_ok W" and m: "(j, wv_id w) \<in> set (w_members W)" and w: "w \<in> set (w_waves W)" "wv_project w = p" "wv_approved_by w = None"
  shows "map_of (unapproved_wave_members W p) j \<noteq> None"
proof -
  have "wave_of W (wv_id w) = Some w"
    using ok w(1) unfolding wave_of_def waves_ok_def by (auto simp: find_Some_iff distinct_map in_set_conv_nth inj_on_def distinct_conv_nth)
  then have "(j, ws_name (wv_settings w)) \<in> set (unapproved_wave_members W p)"
    using m w(2,3) unfolding unapproved_wave_members_def map_filter_def by (force simp: image_iff)
  then have "j \<in> fst ` set (unapproved_wave_members W p)" by (rule rev_image_eqI) simp
  then show ?thesis unfolding map_of_eq_None_iff by simp
qed

lemma gate_passed:
  assumes ok: "waves_ok W" and g: "wave_refusal True W p selected = None" and j: "j \<in> set selected"
    and m: "(j, wv_id w) \<in> set (w_members W)" and w: "w \<in> set (w_waves W)" "wv_project w = p"
  shows "wv_approved_by w \<noteq> None"
proof
  assume a: "wv_approved_by w = None"
  have "List.map_filter (map_of (unapproved_wave_members W p)) selected \<noteq> []"
    using unapproved_member [OF ok m w a] j by (auto simp: map_filter_def filter_empty_conv)
  then show False using g by (auto simp: wave_refusal_def neq_Nil_conv)
qed

section \<open>Properties\<close>

text \<open>
  C35: in every store that the transactions of the ledger and of the waves reach in any order, each wave has a
  valid name and maintenance window and between one and 100,000 members, each member is a mailbox of the project
  of its wave, no mailbox is in two waves, and names and positions are unique within a project.
\<close>

theorem waves_are_well_formed:
  assumes "(wave_step E)\<^sup>*\<^sup>* empty_store W"
  shows "waves_ok W"
  using reachable_store [OF assms] by (simp add: store_ok_def)

lemma ledger_reach: "(ledger_step E)\<^sup>*\<^sup>* (w_ledger W) L' \<Longrightarrow> (wave_step E)\<^sup>*\<^sup>* W (W\<lparr>w_ledger := L'\<rparr>)"
proof (induction rule: rtranclp_induct)
  case (step L L')
  have "wave_step E (W\<lparr>w_ledger := L\<rparr>) ((W\<lparr>w_ledger := L\<rparr>)\<lparr>w_ledger := L'\<rparr>)" by (rule wave_step.ledger) (simp add: step(2))
  then show ?case using step(3) by simp
qed simp

text \<open>A pilot wave of one mailbox, approved, for the witnesses.\<close>

definition demo_draft :: wave_store where
  "demo_draft = fst (projr (create_wave ''w'' ''p'' \<lparr>ws_name = ''Pilot'', ws_scheduled_at = None,
     ws_maintenance_window = Some ''22:00-04:00'', ws_concurrency = Some 2\<rparr> [''j''] (empty_store\<lparr>w_ledger := demo_created\<rparr>)))"

definition demo_approved :: wave_store where
  "demo_approved = projr (approve_wave ''t'' ''w'' ''ops'' demo_draft)"

lemma demo_approved_reach: "(wave_step demo_env)\<^sup>*\<^sup>* empty_store demo_approved"
proof -
  let ?W = "empty_store\<lparr>w_ledger := demo_created\<rparr>"
  let ?c = "create_wave ''w'' ''p'' \<lparr>ws_name = ''Pilot'', ws_scheduled_at = None, ws_maintenance_window = Some ''22:00-04:00'',
    ws_concurrency = Some 2\<rparr> [''j''] ?W"
  have "(wave_step demo_env)\<^sup>*\<^sup>* empty_store ?W" using ledger_reach [of demo_env empty_store] demo_created_reach by simp
  moreover have "\<not> isl ?c" by code_simp
  then have "wave_step demo_env ?W demo_draft" unfolding demo_draft_def
    by (intro wave_step.create_wave [where w = "snd (projr ?c)"]) (simp add: not_isl_eq)
  moreover have "\<not> isl (approve_wave ''t'' ''w'' ''ops'' demo_draft)" by code_simp
  then have "wave_step demo_env demo_draft demo_approved" unfolding demo_approved_def
    by (intro wave_step.approve_wave) (simp add: not_isl_eq)
  ultimately show ?thesis by (meson rtranclp.rtrancl_into_rtrancl)
qed

theorem waves_are_well_formed_witness: "waves_ok demo_approved \<and> length (w_waves demo_approved) = 1"
proof -
  have "length (w_waves demo_approved) = 1" by code_simp
  then show ?thesis using waves_are_well_formed [OF demo_approved_reach] by simp
qed

text \<open>
  C25: a mailbox that passes the gate of the live batch admission is in no unapproved wave of the project, and
  approval is final: from then on, whatever transactions follow, its wave stays as it was approved, with the same
  settings and the same members.
\<close>

theorem admitted_waves_are_approved_for_good:
  assumes "(wave_step E)\<^sup>*\<^sup>* empty_store W" "wave_refusal True W p selected = None" "j \<in> set selected"
    "(j, wv_id w) \<in> set (w_members W)" "w \<in> set (w_waves W)" "wv_project w = p" "(wave_step E)\<^sup>*\<^sup>* W W'"
  shows "wv_approved_by w \<noteq> None \<and> w \<in> set (w_waves W') \<and> members_of W' (wv_id w) = members_of W (wv_id w)"
proof -
  note ok = reachable_store [OF assms(1)]
  have a: "wv_approved_by w \<noteq> None" using gate_passed [OF _ assms(2-6)] ok by (simp add: store_ok_def)
  show ?thesis using approved_wave_stays_reach [OF assms(7) ok assms(5) a] a by (simp add: wave_stays_def)
qed

theorem admitted_waves_are_approved_for_good_witness:
  "members_of demo_approved (wv_id (hd (w_waves demo_approved))) \<noteq> [] \<and> wv_approved_by (hd (w_waves demo_approved)) \<noteq> None"
proof -
  have h: "wave_refusal True demo_approved ''p'' [''j''] = None" "''j'' \<in> set [''j'']"
    "(''j'', wv_id (hd (w_waves demo_approved))) \<in> set (w_members demo_approved)"
    "hd (w_waves demo_approved) \<in> set (w_waves demo_approved)" "wv_project (hd (w_waves demo_approved)) = ''p''" by code_simp+
  have "members_of demo_approved (wv_id (hd (w_waves demo_approved))) \<noteq> []" by code_simp
  then show ?thesis using admitted_waves_are_approved_for_good [OF demo_approved_reach h rtranclp.rtrancl_refl] by blast
qed

text \<open>
  The counters of a wave summary add up to its members, and the status that is derived from them reports
  completion exactly for an approved wave all of whose mailboxes are verified or have an accepted exception,
  without exceptions exactly when none of them needed one.
\<close>

theorem wave_status_is_sound:
  assumes "(wave_step E)\<^sup>*\<^sup>* empty_store W" "w \<in> set (w_waves W)"
  shows "let s = wave_summary_of W w; bs = member_jobs W (wv_id w) in
    wm_completed s + wm_migrating s + wm_needs_attention s + wm_catch_up_pending s + wm_waiting s = wm_members s \<and>
    wm_members s = length bs \<and>
    (summary_status s \<in> {Wave_Complete, Wave_CompleteWithExceptions} \<longleftrightarrow>
       wv_approved_by w \<noteq> None \<and> list_all (accepted (w_ledger W)) bs) \<and>
    (summary_status s = Wave_Complete \<longleftrightarrow> wv_approved_by w \<noteq> None \<and> list_all (\<lambda>b. jb_state b = ''verified'') bs)"
proof -
  let ?s = "wave_summary_of W w" and ?bs = "member_jobs W (wv_id w)"
  have ok: "waves_ok W" using reachable_store [OF assms(1)] by (simp add: store_ok_def)
  note c = summary_completed [OF ok assms(2)]
  have w: "wm_wave ?s = w" by (simp add: wave_summary_of_def Let_def)
  have wait: "wm_waiting ?s = wm_members ?s - (wm_completed ?s + wm_migrating ?s + wm_needs_attention ?s + wm_catch_up_pending ?s)"
    by (simp add: wave_summary_of_def Let_def)
  have all: "wm_completed ?s = wm_members ?s \<longleftrightarrow> list_all (accepted (w_ledger W)) ?bs" unfolding c(1,2) by (rule count_rows_all)
  have v: "list_all (\<lambda>b. jb_state b = ''verified'') ?bs \<longleftrightarrow> list_all (accepted (w_ledger W)) ?bs \<and> \<not> wm_accepted_exceptions ?s > 0"
    unfolding c(5) by (auto simp: list_all_iff list_ex_iff accepted_def has_acceptance_def)
  have pos: "wm_members ?s > 0" using c(2,3) by simp
  have comp: "summary_status ?s \<in> {Wave_Complete, Wave_CompleteWithExceptions} \<longleftrightarrow> wv_approved_by w \<noteq> None \<and> wm_completed ?s = wm_members ?s"
    "summary_status ?s = Wave_Complete \<longleftrightarrow> wv_approved_by w \<noteq> None \<and> wm_completed ?s = wm_members ?s \<and> \<not> wm_accepted_exceptions ?s > 0"
    using pos by (auto simp: summary_status_def w)
  show ?thesis unfolding Let_def comp all v using c(2,4) wait by simp
qed

theorem wave_status_is_sound_witness:
  "wm_members (wave_summary_of demo_approved (hd (w_waves demo_approved))) = 1 \<and>
   summary_status (wave_summary_of demo_approved (hd (w_waves demo_approved))) \<noteq> Wave_Complete"
proof -
  let ?w = "hd (w_waves demo_approved)"
  have h: "?w \<in> set (w_waves demo_approved)" "\<not> list_all (\<lambda>b. jb_state b = ''verified'') (member_jobs demo_approved (wv_id ?w))"
    "length (member_jobs demo_approved (wv_id ?w)) = 1" by code_simp+
  show ?thesis using wave_status_is_sound [OF demo_approved_reach h(1)] h(2,3) by (simp add: Let_def)
qed

end
