(* ===== verification/Reconciliation.thy ===== *)
theory Reconciliation
  imports Verification_Limit Ledger_Tables
    "HOL-Library.List_Lexorder" "HOL-Library.Char_ord" "HOL-Library.Option_ord" "HOL-Library.Product_Lexorder"
begin

text \<open>
  Message reconciliation: \<^verbatim>\<open>core/message_verification/\<close> (\<^verbatim>\<open>mismatch.rs\<close>, \<^verbatim>\<open>reconciliation.rs\<close>,
  \<^verbatim>\<open>summary.rs\<close>) over the extracted messages of \<^verbatim>\<open>core/message_extraction.rs\<close>. A \<^verbatim>\<open>HashMap\<close> of messages is
  an association list with distinct keys; a \<^verbatim>\<open>HashSet\<close> of keys is a set; a map of queues that is filled
  from a list of keys is kept as that list, the queue of a bucket being the sublist of its members. The
  parser of IMAP dates and the random part of a mismatch identifier are parameters.
\<close>

section \<open>Messages\<close>

datatype message_key = Message_Key (mk_mailbox: str) (mk_uidvalidity: "nat option") (mk_uid: str)

text \<open>The derived order of the keys: mailbox, then UIDVALIDITY, then UID.\<close>

definition key_tuple :: "message_key \<Rightarrow> str \<times> nat option \<times> str" where
  "key_tuple k = (mk_mailbox k, mk_uidvalidity k, mk_uid k)"

lemma key_tuple_inject: "key_tuple a = key_tuple b \<longleftrightarrow> a = b"
  by (cases a; cases b) (simp add: key_tuple_def)

instantiation message_key :: linorder
begin

definition less_eq_message_key :: "message_key \<Rightarrow> message_key \<Rightarrow> bool" where
  "less_eq_message_key a b \<longleftrightarrow> key_tuple a \<le> key_tuple b"

definition less_message_key :: "message_key \<Rightarrow> message_key \<Rightarrow> bool" where
  "less_message_key a b \<longleftrightarrow> key_tuple a < key_tuple b"

instance
  by standard (auto simp: less_eq_message_key_def less_message_key_def key_tuple_inject [symmetric])

end

record extracted_message =
  em_message_id :: "str option"
  em_uid :: "str option"
  em_size :: "nat option"
  em_date :: "str option"
  em_flags :: "str option"

type_synonym messages = "(message_key \<times> extracted_message) list"

datatype provenance = Prov_Missing | Prov_RfcMessageId | Prov_SyntheticHeaderFingerprint

definition identity_provenance :: "extracted_message \<Rightarrow> provenance" where
  "identity_provenance m =
     (case em_message_id m of
        None \<Rightarrow> Prov_Missing
      | Some v \<Rightarrow>
          if starts_with ''header-fingerprint:'' v then Prov_SyntheticHeaderFingerprint
          else if trim v \<noteq> [] then Prov_RfcMessageId
          else Prov_Missing)"

datatype normalized_date = Date_Epoch int | Date_Raw str

type_synonym fingerprint = "normalized_date \<times> nat"

definition normalize_internal_date :: "(str \<Rightarrow> int option) \<Rightarrow> str \<Rightarrow> normalized_date" where
  "normalize_internal_date parse v = (case parse (trim v) of Some t \<Rightarrow> Date_Epoch t | None \<Rightarrow> Date_Raw v)"

definition metadata_fingerprint :: "(str \<Rightarrow> int option) \<Rightarrow> extracted_message \<Rightarrow> fingerprint option" where
  "metadata_fingerprint parse m =
     (case (em_date m, em_size m) of
        (Some d, Some s) \<Rightarrow> Some (normalize_internal_date parse d, s)
      | _ \<Rightarrow> None)"

text \<open>The key under which a message is indexed by its Message-ID.\<close>

definition rfc_message_id :: "extracted_message \<Rightarrow> str option" where
  "rfc_message_id m =
     (case em_message_id m of
        None \<Rightarrow> None
      | Some v \<Rightarrow>
          if identity_provenance m = Prov_RfcMessageId \<and> trim v \<noteq> [] then Some (trim v) else None)"

definition index_by_message_id :: "messages \<Rightarrow> (str \<times> message_key list) list" where
  "index_by_message_id M =
     map (\<lambda>i. (i, sort (map fst (filter (\<lambda>(k, m). rfc_message_id m = Some i) M))))
       (remdups (List.map_filter (rfc_message_id \<circ> snd) M))"

definition uids_at :: "(str \<times> message_key list) list \<Rightarrow> str \<Rightarrow> message_key list" where
  "uids_at ix i = (case map_of ix i of Some ks \<Rightarrow> ks | None \<Rightarrow> [])"

definition shared_ids :: "(str \<times> message_key list) list \<Rightarrow> (str \<times> message_key list) list \<Rightarrow> str list" where
  "shared_ids six dix = sort (filter (\<lambda>i. map_of dix i \<noteq> None) (map fst six))"

section \<open>One verification\<close>

record verify_input =
  vi_job :: str
  vi_run :: str
  vi_source :: messages
  vi_dest :: messages
  vi_mapping :: "str \<Rightarrow> str option"
  vi_parse_date :: "str \<Rightarrow> int option"
  vi_uuid :: "mismatch_type \<Rightarrow> message_key option \<Rightarrow> message_key option \<Rightarrow> str"

text \<open>Indexing a message map, which is only done with keys of that map.\<close>

definition message_at :: "messages \<Rightarrow> message_key \<Rightarrow> extracted_message" where
  "message_at M k = the (map_of M k)"

definition expected_destination_folder :: "verify_input \<Rightarrow> message_key \<Rightarrow> str" where
  "expected_destination_folder V k =
     (case vi_mapping V (mk_mailbox k) of Some f \<Rightarrow> f | None \<Rightarrow> mk_mailbox k)"

definition source_fp :: "verify_input \<Rightarrow> message_key \<Rightarrow> fingerprint option" where
  "source_fp V k = metadata_fingerprint (vi_parse_date V) (message_at (vi_source V) k)"

definition dest_fp :: "verify_input \<Rightarrow> message_key \<Rightarrow> fingerprint option" where
  "dest_fp V k = metadata_fingerprint (vi_parse_date V) (message_at (vi_dest V) k)"

section \<open>Mismatch records and budgets\<close>

definition MAX_ESTIMATED_VERIFIER_STATE_BYTES :: nat where
  "MAX_ESTIMATED_VERIFIER_STATE_BYTES = 256 * 1024 * 1024"

definition ESTIMATED_RECONCILIATION_INDEX_BYTES_PER_RECORD :: nat where
  "ESTIMATED_RECONCILIATION_INDEX_BYTES_PER_RECORD = 128"

definition MAX_ESTIMATED_MISMATCH_DETAIL_BYTES :: nat where
  "MAX_ESTIMATED_MISMATCH_DETAIL_BYTES = 64 * 1024 * 1024"

definition option_length :: "str option \<Rightarrow> nat" where
  "option_length v = (case v of None \<Rightarrow> 0 | Some s \<Rightarrow> length s)"

definition estimated_verifier_record_bytes :: "message_key \<times> extracted_message \<Rightarrow> nat" where
  "estimated_verifier_record_bytes =
     (\<lambda>(k, m). fold (\<lambda>n acc. saturating_add_u64 acc n)
        [length (mk_mailbox k), length (mk_uid k), option_length (em_message_id m), option_length (em_date m)] 512)"

definition estimated_verifier_state_bytes :: "messages \<Rightarrow> messages \<Rightarrow> nat" where
  "estimated_verifier_state_bytes S D =
     saturating_add_u64
       (fold (\<lambda>r acc. saturating_add_u64 acc (saturating_mul_u64 (estimated_verifier_record_bytes r) 2)) (S @ D) 0)
       (saturating_mul_u64 (saturating_add_u64 (length S) (length D))
          ESTIMATED_RECONCILIATION_INDEX_BYTES_PER_RECORD)"

definition STATE_BUDGET :: str where
  "STATE_BUDGET =
     limit_tag Limit_ReconciliationState
       (''verification state exceeds the estimated '' @ nat_to_string MAX_ESTIMATED_VERIFIER_STATE_BYTES @
        ''-byte aggregate verifier budget'')"

definition DETAIL_BUDGET :: str where
  "DETAIL_BUDGET =
     limit_tag Limit_ReconciliationState
       (''verification mismatch detail exceeds the estimated '' @ nat_to_string MAX_ESTIMATED_MISMATCH_DETAIL_BYTES @
        ''-byte evidence budget'')"

definition estimated_mismatch_bytes :: "message_mismatch \<Rightarrow> nat" where
  "estimated_mismatch_bytes m =
     fold (\<lambda>n acc. saturating_add_u64 acc n)
       ([length (mm_id m), length (mm_job m), length (mm_run m)] @
        map option_length
          [mm_source_folder m, mm_destination_folder m, mm_source_uid m, mm_dest_uid m, mm_source_message_id m,
           mm_dest_message_id m, mm_source_date m, mm_dest_date m, mm_source_fingerprint m,
           mm_destination_fingerprint m]) 384"

text \<open>
  The errors of a reconciliation: an exhausted budget with its tagged text, and the findings of the accounting
  check with the values its messages print.
\<close>

datatype reconcile_error =
    Budget_Exceeded str
  | Coverage_Missing str
  | Fingerprint_Missing
  | Unclassified str message_key
  | Multiply_Classified str message_key "str list"
  | Foreign_Keys str nat nat
  | Mismatch_Repeated str message_key
  | Counter_Differs str nat nat

definition append_mismatch_with_budget ::
  "message_mismatch \<Rightarrow> message_mismatch list \<times> nat \<Rightarrow> reconcile_error + message_mismatch list \<times> nat" where
  "append_mismatch_with_budget m acc =
     (let bytes = saturating_add_u64 (snd acc) (estimated_mismatch_bytes m) in
      if bytes > MAX_ESTIMATED_MISMATCH_DETAIL_BYTES then Inl (Budget_Exceeded DETAIL_BUDGET)
      else Inr (fst acc @ [m], bytes))"

definition make_mismatch ::
  "verify_input \<Rightarrow> mismatch_type \<Rightarrow> message_key option \<Rightarrow> message_key option \<Rightarrow> message_mismatch" where
  "make_mismatch V ty sk dk =
     (let src = map_option (message_at (vi_source V)) sk; dst = map_option (message_at (vi_dest V)) dk in
      \<lparr>mm_id = vi_run V @ ''-'' @ mismatch_as_str ty @ ''-'' @ vi_uuid V ty sk dk,
       mm_job = vi_job V, mm_run = vi_run V, mm_type = ty,
       mm_source_folder = map_option mk_mailbox sk, mm_destination_folder = map_option mk_mailbox dk,
       mm_source_uidvalidity = Option.bind sk mk_uidvalidity, mm_destination_uidvalidity = Option.bind dk mk_uidvalidity,
       mm_source_uid = map_option mk_uid sk, mm_dest_uid = map_option mk_uid dk,
       mm_source_message_id = Option.bind src em_message_id, mm_dest_message_id = Option.bind dst em_message_id,
       mm_source_size = Option.bind src em_size, mm_dest_size = Option.bind dst em_size,
       mm_source_date = Option.bind src em_date, mm_dest_date = Option.bind dst em_date,
       mm_source_fingerprint = None, mm_destination_fingerprint = None\<rparr>)"

definition mismatch_source_key :: "messages \<Rightarrow> message_mismatch \<Rightarrow> message_key option" where
  "mismatch_source_key M m =
     (case (mm_source_uid m, mm_source_folder m) of
        (Some u, Some f) \<Rightarrow>
          find (\<lambda>k. mk_uidvalidity k = mm_source_uidvalidity m \<and> mk_uid k = u \<and> mk_mailbox k = f) (map fst M)
      | _ \<Rightarrow> None)"

definition mismatch_destination_key :: "messages \<Rightarrow> message_mismatch \<Rightarrow> message_key option" where
  "mismatch_destination_key M m =
     (case (mm_dest_uid m, mm_destination_folder m) of
        (Some u, Some f) \<Rightarrow>
          find (\<lambda>k. mk_uidvalidity k = mm_destination_uidvalidity m \<and> mk_uid k = u \<and> mk_mailbox k = f) (map fst M)
      | _ \<Rightarrow> None)"

section \<open>The three passes\<close>

record pass_state =
  ps_mismatches :: "message_mismatch list"
  ps_bytes :: nat
  ps_source :: "message_key set"
  ps_dest :: "message_key set"
  ps_pairs :: "(message_key \<times> message_key) list"

definition empty_pass :: pass_state where
  "empty_pass = \<lparr>ps_mismatches = [], ps_bytes = 0, ps_source = {}, ps_dest = {}, ps_pairs = []\<rparr>"

definition record_mismatch ::
  "verify_input \<Rightarrow> mismatch_type \<Rightarrow> message_key \<Rightarrow> message_key \<Rightarrow> pass_state \<Rightarrow> reconcile_error + pass_state" where
  "record_mismatch V ty s d st =
     (case append_mismatch_with_budget (make_mismatch V ty (Some s) (Some d)) (ps_mismatches st, ps_bytes st) of
        Inl e \<Rightarrow> Inl e
      | Inr (ms, bytes) \<Rightarrow>
          Inr (st\<lparr>ps_mismatches := ms, ps_bytes := bytes, ps_source := insert s (ps_source st),
                  ps_dest := insert d (ps_dest st)\<rparr>))"

text \<open>Pass 1: the same Message-ID, the expected folder and equal metadata.\<close>

fun match_exact :: "verify_input \<Rightarrow> message_key list \<Rightarrow> message_key list \<Rightarrow> pass_state \<Rightarrow> pass_state" where
  "match_exact V [] ds st = st"
| "match_exact V (s # ss) ds st =
     (case source_fp V s of
        None \<Rightarrow> match_exact V ss ds st
      | Some fp \<Rightarrow>
          (case find (\<lambda>d. mk_mailbox d = expected_destination_folder V s \<and> dest_fp V d = Some fp) ds of
             None \<Rightarrow> match_exact V ss ds st
           | Some d \<Rightarrow>
               match_exact V ss (remove1 d ds)
                 (st\<lparr>ps_source := insert s (ps_source st), ps_dest := insert d (ps_dest st),
                     ps_pairs := ps_pairs st @ [(s, d)]\<rparr>)))"

text \<open>Then, of what is left of the same Message-ID, a message in the expected folder with other metadata.\<close>

fun match_changed ::
  "verify_input \<Rightarrow> message_key list \<Rightarrow> message_key list \<Rightarrow> pass_state \<Rightarrow> reconcile_error + pass_state" where
  "match_changed V [] ds st = Inr st"
| "match_changed V (s # ss) ds st =
     (if s \<in> ps_source st then match_changed V ss ds st
      else case find (\<lambda>d. mk_mailbox d = expected_destination_folder V s) ds of
             None \<Rightarrow> match_changed V ss ds st
           | Some d \<Rightarrow>
               (case record_mismatch V Mismatch_MessageIdOnly s d st of
                  Inl e \<Rightarrow> Inl e
                | Inr st' \<Rightarrow> match_changed V ss (remove1 d ds) st'))"

definition pass_1_group ::
  "verify_input \<Rightarrow> message_key list \<Rightarrow> message_key list \<Rightarrow> pass_state \<Rightarrow> reconcile_error + pass_state" where
  "pass_1_group V su du st =
     (let st1 = match_exact V su du st in match_changed V su (filter (\<lambda>d. d \<notin> ps_dest st1) du) st1)"

fun over_ids :: "(str \<Rightarrow> pass_state \<Rightarrow> reconcile_error + pass_state) \<Rightarrow> str list \<Rightarrow> pass_state \<Rightarrow>
    reconcile_error + pass_state" where
  "over_ids grp [] st = Inr st"
| "over_ids grp (i # ids) st = (case grp i st of Inl e \<Rightarrow> Inl e | Inr st' \<Rightarrow> over_ids grp ids st')"

definition pass_1_message_id_exact_metadata :: "verify_input \<Rightarrow> reconcile_error + pass_state" where
  "pass_1_message_id_exact_metadata V =
     (let six = index_by_message_id (vi_source V); dix = index_by_message_id (vi_dest V) in
      over_ids (\<lambda>i. pass_1_group V (uids_at six i) (uids_at dix i)) (shared_ids six dix) empty_pass)"

text \<open>
  Pass 2: the same Message-ID and metadata in another folder, the greatest folder below the expected one first,
  else the least above it.
\<close>

definition nearest_folder :: "str \<Rightarrow> str list \<Rightarrow> str option" where
  "nearest_folder expected folders =
     (let lower = filter (\<lambda>f. f < expected) folders; upper = filter (\<lambda>f. expected < f) folders in
      if lower \<noteq> [] then Some (Max (set lower))
      else if upper \<noteq> [] then Some (Min (set upper))
      else None)"

fun match_wrong_folder ::
  "verify_input \<Rightarrow> message_key list \<Rightarrow> message_key list \<Rightarrow> message_key list \<Rightarrow> pass_state \<Rightarrow>
     reconcile_error + pass_state" where
  "match_wrong_folder V us [] ds st = Inr st"
| "match_wrong_folder V us (s # ss) ds st =
     (if s \<notin> set us then match_wrong_folder V us ss ds st
      else let candidates = filter (\<lambda>d. dest_fp V d = source_fp V s) ds in
           case nearest_folder (expected_destination_folder V s) (map mk_mailbox candidates) of
             None \<Rightarrow> match_wrong_folder V us ss ds st
           | Some f \<Rightarrow>
               (case find (\<lambda>d. mk_mailbox d = f) candidates of
                  None \<Rightarrow> match_wrong_folder V us ss ds st
                | Some d \<Rightarrow>
                    (case record_mismatch V Mismatch_PresentWrongFolder s d st of
                       Inl e \<Rightarrow> Inl e
                     | Inr st' \<Rightarrow> match_wrong_folder V us ss (remove1 d ds) st')))"

definition pass_2_wrong_folder_detection ::
  "verify_input \<Rightarrow> message_key list \<Rightarrow> message_key list \<Rightarrow> reconcile_error + pass_state" where
  "pass_2_wrong_folder_detection V us ud =
     (let six = index_by_message_id (vi_source V); dix = index_by_message_id (vi_dest V) in
      over_ids (\<lambda>i. match_wrong_folder V us (uids_at six i) (filter (\<lambda>d. d \<in> set ud) (uids_at dix i)))
        (shared_ids six dix) empty_pass)"

text \<open>
  Pass 3: a date and size that occur once on either side, in the expected folder. The order in which the
  buckets are visited does not reach the result.
\<close>

definition source_bucket :: "verify_input \<Rightarrow> message_key \<Rightarrow> (str \<times> fingerprint) option" where
  "source_bucket V k = map_option (\<lambda>fp. (expected_destination_folder V k, fp)) (source_fp V k)"

definition dest_bucket :: "verify_input \<Rightarrow> message_key \<Rightarrow> (str \<times> fingerprint) option" where
  "dest_bucket V k = map_option (\<lambda>fp. (mk_mailbox k, fp)) (dest_fp V k)"

definition in_bucket :: "(message_key \<Rightarrow> 'b option) \<Rightarrow> message_key list \<Rightarrow> 'b \<Rightarrow> message_key list" where
  "in_bucket bucket ks b = filter (\<lambda>k. bucket k = Some b) ks"

definition pass_3_fingerprint_fallback ::
  "verify_input \<Rightarrow> message_key list \<Rightarrow> message_key list \<Rightarrow> nat \<times> message_key set \<times> message_key set" where
  "pass_3_fingerprint_fallback V us ud =
     (let unique = filter (\<lambda>b. length (in_bucket (source_bucket V) us b) = 1 \<and> length (in_bucket (dest_bucket V) ud b) = 1)
            (remdups (List.map_filter (source_bucket V) us)) in
      (length unique, set (map (\<lambda>b. hd (in_bucket (source_bucket V) us b)) unique),
       set (map (\<lambda>b. hd (in_bucket (dest_bucket V) ud b)) unique)))"

section \<open>Summary and membership\<close>

record verification_summary =
  vs_total_source :: nat
  vs_total_destination :: nat
  vs_metadata_matches :: nat
  vs_rfc_message_id_matches :: nat
  vs_probable_matches :: nat
  vs_synthetic_identity_matches :: nat
  vs_missing :: nat
  vs_extra :: nat
  vs_duplicated :: nat
  vs_changed :: nat

record verification_membership =
  vm_matched_source :: "message_key set"
  vm_matched_destination :: "message_key set"
  vm_probable_source :: "message_key set"
  vm_probable_destination :: "message_key set"
  vm_missing_source :: "message_key set"
  vm_extra_destination :: "message_key set"
  vm_duplicated_destination :: "message_key set"
  vm_changed_source :: "message_key set"
  vm_changed_destination :: "message_key set"

definition summary_outcome :: "verification_summary \<Rightarrow> outcome" where
  "summary_outcome v =
     (if vs_missing v > 0 then Out_Missing
      else if vs_changed v > 0 then Out_Changed
      else if vs_duplicated v > 0 \<or> vs_extra v > 0 then Out_Unexpected
      else if vs_probable_matches v > 0 then Out_ProbableMatch
      else if vs_metadata_matches v = vs_total_source v \<and> vs_metadata_matches v = vs_total_destination v
      then Out_ExactMetadataMatch
      else Out_Ambiguous)"

definition owners_of :: "(str \<times> message_key set) list \<Rightarrow> message_key \<Rightarrow> str list" where
  "owners_of partitions k = map fst (filter (\<lambda>(name, keys). k \<in> keys) partitions)"

definition check_partition ::
  "str \<Rightarrow> messages \<Rightarrow> (str \<times> message_key set) list \<Rightarrow> reconcile_error option" where
  "check_partition side M partitions =
     (case find (\<lambda>k. length (owners_of partitions k) \<noteq> 1) (map fst M) of
        Some k \<Rightarrow>
          if owners_of partitions k = [] then Some (Unclassified side k)
          else Some (Multiply_Classified side k (owners_of partitions k))
      | None \<Rightarrow>
          let owned = card (\<Union> (set (map snd partitions))) in
          if owned \<noteq> length M then Some (Foreign_Keys side owned (length M)) else None)"

fun repeated_mismatch ::
  "messages \<Rightarrow> messages \<Rightarrow> message_mismatch list \<Rightarrow> message_key set \<Rightarrow> message_key set \<Rightarrow> reconcile_error option" where
  "repeated_mismatch S D [] seen_s seen_d = None"
| "repeated_mismatch S D (m # ms) seen_s seen_d =
     (case (mismatch_source_key S m, mismatch_destination_key D m) of
        (sk, dk) \<Rightarrow>
          if (case sk of None \<Rightarrow> False | Some k \<Rightarrow> k \<in> seen_s) then Some (Mismatch_Repeated ''source'' (the sk))
          else if (case dk of None \<Rightarrow> False | Some k \<Rightarrow> k \<in> seen_d) then Some (Mismatch_Repeated ''destination'' (the dk))
          else repeated_mismatch S D ms (seen_s \<union> set_option sk) (seen_d \<union> set_option dk))"

definition counter_table ::
  "messages \<Rightarrow> messages \<Rightarrow> verification_summary \<Rightarrow> verification_membership \<Rightarrow> (str \<times> nat \<times> nat) list" where
  "counter_table S D v p =
     [(''total_source'', vs_total_source v, length S),
      (''total_destination'', vs_total_destination v, length D),
      (''metadata_matches'', vs_metadata_matches v, card (vm_matched_source p)),
      (''matched destination'', vs_metadata_matches v, card (vm_matched_destination p)),
      (''probable_matches'', vs_probable_matches v, card (vm_probable_source p)),
      (''probable destination'', vs_probable_matches v, card (vm_probable_destination p)),
      (''missing_count'', vs_missing v, card (vm_missing_source p)),
      (''extra_count'', vs_extra v, card (vm_extra_destination p)),
      (''duplicated_count'', vs_duplicated v, card (vm_duplicated_destination p)),
      (''changed_count'', vs_changed v, card (vm_changed_source p)),
      (''changed destination'', vs_changed v, card (vm_changed_destination p))]"

definition source_partition :: "verification_membership \<Rightarrow> (str \<times> message_key set) list" where
  "source_partition p =
     [(''matched'', vm_matched_source p), (''probable'', vm_probable_source p),
      (''missing'', vm_missing_source p), (''changed'', vm_changed_source p)]"

definition destination_partition :: "verification_membership \<Rightarrow> (str \<times> message_key set) list" where
  "destination_partition p =
     [(''matched'', vm_matched_destination p), (''probable'', vm_probable_destination p),
      (''extra'', vm_extra_destination p), (''duplicated'', vm_duplicated_destination p),
      (''changed'', vm_changed_destination p)]"

definition validate_verification_summary ::
  "messages \<Rightarrow> messages \<Rightarrow> message_mismatch list \<Rightarrow> verification_summary \<Rightarrow> verification_membership \<Rightarrow>
     reconcile_error option" where
  "validate_verification_summary S D ms v p =
     (case check_partition ''source'' S (source_partition p) of
        Some e \<Rightarrow> Some e
      | None \<Rightarrow>
          (case check_partition ''destination'' D (destination_partition p) of
             Some e \<Rightarrow> Some e
           | None \<Rightarrow>
               (case repeated_mismatch S D ms {} {} of
                  Some e \<Rightarrow> Some e
                | None \<Rightarrow>
                    map_option (\<lambda>(name, reported, derived). Counter_Differs name reported derived)
                      (find (\<lambda>(name, reported, derived). reported \<noteq> derived) (counter_table S D v p)))))"

section \<open>Reconciliation\<close>

fun report_all ::
  "(message_key \<Rightarrow> message_mismatch) \<Rightarrow> message_key list \<Rightarrow> message_mismatch list \<times> nat \<Rightarrow>
     reconcile_error + message_mismatch list \<times> nat" where
  "report_all mk [] acc = Inr acc"
| "report_all mk (k # ks) acc =
     (case append_mismatch_with_budget (mk k) acc of Inl e \<Rightarrow> Inl e | Inr acc' \<Rightarrow> report_all mk ks acc')"

definition duplicate_dest_uids :: "verify_input \<Rightarrow> message_key list \<Rightarrow> message_key list" where
  "duplicate_dest_uids V ud =
     (let six = index_by_message_id (vi_source V); dix = index_by_message_id (vi_dest V) in
      sort (filter (\<lambda>k. k \<in> set ud)
        (concat (map snd (filter (\<lambda>(i, dk). case map_of six i of None \<Rightarrow> False | Some sk \<Rightarrow> length sk < length dk) dix)))))"

definition of_type :: "mismatch_type list \<Rightarrow> message_mismatch list \<Rightarrow> message_mismatch list" where
  "of_type tys ms = filter (\<lambda>m. mm_type m \<in> set tys) ms"

definition keys_of :: "(message_mismatch \<Rightarrow> message_key option) \<Rightarrow> message_mismatch list \<Rightarrow> message_key set" where
  "keys_of key ms = set (List.map_filter key ms)"

record reconciliation =
  rc_mismatches :: "message_mismatch list"
  rc_summary :: verification_summary
  rc_membership :: verification_membership
  rc_clean_pairs :: "(message_key \<times> message_key) list"

text \<open>The classification of the collected mismatches, and the check of the whole accounting.\<close>

definition summarize ::
  "verify_input \<Rightarrow> pass_state \<Rightarrow> nat \<times> message_key set \<times> message_key set \<Rightarrow> message_mismatch list \<Rightarrow>
     reconcile_error + reconciliation" where
  "summarize V p1 p3 ms =
     (let S = vi_source V; D = vi_dest V;
          changed = of_type [Mismatch_MessageIdOnly, Mismatch_PresentWrongFolder] ms;
          changed_source = keys_of (mismatch_source_key S) changed;
          changed_destination = keys_of (mismatch_destination_key D) changed;
          matches = card (ps_source p1) - length (ps_mismatches p1);
          v = \<lparr>vs_total_source = length S, vs_total_destination = length D, vs_metadata_matches = matches,
               vs_rfc_message_id_matches = matches, vs_probable_matches = fst p3,
               vs_synthetic_identity_matches =
                 card {k \<in> fst (snd p3). identity_provenance (message_at S k) = Prov_SyntheticHeaderFingerprint},
               vs_missing = length (of_type [Mismatch_Missing] ms), vs_extra = length (of_type [Mismatch_Extra] ms),
               vs_duplicated = length (of_type [Mismatch_Duplicated] ms), vs_changed = length changed\<rparr>;
          p = \<lparr>vm_matched_source = ps_source p1 - changed_source,
               vm_matched_destination = ps_dest p1 - changed_destination,
               vm_probable_source = fst (snd p3), vm_probable_destination = snd (snd p3),
               vm_missing_source = keys_of (mismatch_source_key S) (of_type [Mismatch_Missing] ms),
               vm_extra_destination = keys_of (mismatch_destination_key D) (of_type [Mismatch_Extra] ms),
               vm_duplicated_destination = keys_of (mismatch_destination_key D) (of_type [Mismatch_Duplicated] ms),
               vm_changed_source = changed_source, vm_changed_destination = changed_destination\<rparr> in
      case validate_verification_summary S D ms v p of
        Some e \<Rightarrow> Inl e
      | None \<Rightarrow> Inr \<lparr>rc_mismatches = ms, rc_summary = v, rc_membership = p, rc_clean_pairs = ps_pairs p1\<rparr>)"

definition mismatch_bytes :: "message_mismatch list \<Rightarrow> nat" where
  "mismatch_bytes ms = sum_list (map estimated_mismatch_bytes ms)"

text \<open>What is left after the passes: missing, duplicated and extra messages, in this order.\<close>

definition report_rest ::
  "verify_input \<Rightarrow> message_key list \<Rightarrow> message_key list \<Rightarrow> message_mismatch list \<times> nat \<Rightarrow>
     reconcile_error + message_mismatch list \<times> nat" where
  "report_rest V us ud acc =
     (case report_all (\<lambda>k. make_mismatch V Mismatch_Missing (Some k) None) (sort us) acc of
        Inl e \<Rightarrow> Inl e
      | Inr acc1 \<Rightarrow>
          let dup = duplicate_dest_uids V ud in
          case report_all (\<lambda>k. make_mismatch V Mismatch_Duplicated None (Some k)) dup acc1 of
            Inl e \<Rightarrow> Inl e
          | Inr acc2 \<Rightarrow>
              report_all (\<lambda>k. make_mismatch V Mismatch_Extra None (Some k))
                (sort (filter (\<lambda>k. k \<notin> set dup) ud)) acc2)"

definition without :: "message_key set \<Rightarrow> message_key list \<Rightarrow> message_key list" where
  "without K ks = filter (\<lambda>k. k \<notin> K) ks"

text \<open>Everything after the first pass: the second and third pass, the report of the rest and the summary.\<close>

definition reconcile_rest ::
  "verify_input \<Rightarrow> pass_state \<Rightarrow> nat \<Rightarrow> message_key list \<Rightarrow> message_key list \<Rightarrow> reconcile_error + reconciliation" where
  "reconcile_rest V p1 bytes1 us1 ud1 =
     (case pass_2_wrong_folder_detection V us1 ud1 of
        Inl e \<Rightarrow> Inl e
      | Inr p2 \<Rightarrow>
          let bytes2 = saturating_add_u64 bytes1 (mismatch_bytes (ps_mismatches p2)) in
          if bytes2 > MAX_ESTIMATED_MISMATCH_DETAIL_BYTES then Inl (Budget_Exceeded DETAIL_BUDGET)
          else let us2 = without (ps_source p2) us1; ud2 = without (ps_dest p2) ud1;
                   p3 = pass_3_fingerprint_fallback V us2 ud2;
                   us3 = without (fst (snd p3)) us2; ud3 = without (snd (snd p3)) ud2 in
               case report_rest V us3 ud3 (ps_mismatches p1 @ ps_mismatches p2, bytes2) of
                 Inl e \<Rightarrow> Inl e
               | Inr (ms, _) \<Rightarrow> summarize V p1 p3 ms)"

definition reconcile_metadata :: "verify_input \<Rightarrow> reconcile_error + reconciliation" where
  "reconcile_metadata V =
     (if estimated_verifier_state_bytes (vi_source V) (vi_dest V) > MAX_ESTIMATED_VERIFIER_STATE_BYTES
      then Inl (Budget_Exceeded STATE_BUDGET)
      else case pass_1_message_id_exact_metadata V of
        Inl e \<Rightarrow> Inl e
      | Inr p1 \<Rightarrow>
          let bytes1 = mismatch_bytes (ps_mismatches p1) in
          if bytes1 > MAX_ESTIMATED_MISMATCH_DETAIL_BYTES then Inl (Budget_Exceeded DETAIL_BUDGET)
          else reconcile_rest V p1 bytes1 (without (ps_source p1) (map fst (vi_source V)))
                 (without (ps_dest p1) (map fst (vi_dest V))))"

end
