(* ===== verification/Reconciliation_Partition.thy ===== *)
theory Reconciliation_Partition
  imports Reconciliation
begin

text \<open>
  The accounting of a reconciliation: what each pass pairs, that no message is paired or reported twice, and that
  the final check of the partition and of the counters never fails.
\<close>

abbreviation source_keys :: "verify_input \<Rightarrow> message_key list" where
  "source_keys V \<equiv> map fst (vi_source V)"

abbreviation dest_keys :: "verify_input \<Rightarrow> message_key list" where
  "dest_keys V \<equiv> map fst (vi_dest V)"

definition verify_input_ok :: "verify_input \<Rightarrow> bool" where
  "verify_input_ok V \<longleftrightarrow> distinct (source_keys V) \<and> distinct (dest_keys V)"

definition source_id :: "verify_input \<Rightarrow> message_key \<Rightarrow> str option" where
  "source_id V k = rfc_message_id (message_at (vi_source V) k)"

definition dest_id :: "verify_input \<Rightarrow> message_key \<Rightarrow> str option" where
  "dest_id V k = rfc_message_id (message_at (vi_dest V) k)"

section \<open>The index by Message-ID\<close>

lemma uids_at_index:
  "uids_at (index_by_message_id M) i = sort (map fst (filter (\<lambda>(k, m). rfc_message_id m = Some i) M))"
proof (cases "i \<in> set (List.map_filter (rfc_message_id \<circ> snd) M)")
  case True
  then show ?thesis by (simp add: uids_at_def index_by_message_id_def map_of_map_restrict)
next
  case False
  then have "filter (\<lambda>(k, m). rfc_message_id m = Some i) M = []"
    by (force simp: filter_empty_conv map_filter_def image_iff)
  then show ?thesis using False by (simp add: uids_at_def index_by_message_id_def map_of_map_restrict)
qed

lemma set_uids_at:
  assumes "distinct (map fst M)"
  shows "set (uids_at (index_by_message_id M) i) = {k \<in> fst ` set M. rfc_message_id (message_at M k) = Some i}"
  using assms by (force simp: uids_at_index message_at_def)

lemma distinct_uids_at: "distinct (map fst M) \<Longrightarrow> distinct (uids_at (index_by_message_id M) i)"
  by (simp add: uids_at_index distinct_map_filter)

lemma distinct_shared_ids: "distinct (shared_ids (index_by_message_id M) dix)"
  by (simp add: shared_ids_def index_by_message_id_def comp_def)

lemma index_keys: "distinct (map fst (index_by_message_id M))"
  by (simp add: index_by_message_id_def comp_def)

section \<open>Pairs\<close>

text \<open>The pairs a pass has formed: the clean ones and those it reported, each message in at most one.\<close>

definition pair_mismatch :: "verify_input \<Rightarrow> mismatch_type \<Rightarrow> message_key \<times> message_key \<Rightarrow> message_mismatch" where
  "pair_mismatch V ty = (\<lambda>(s, d). make_mismatch V ty (Some s) (Some d))"

definition pass_ok :: "verify_input \<Rightarrow> mismatch_type \<Rightarrow> pass_state \<Rightarrow> (message_key \<times> message_key) list \<Rightarrow> bool" where
  "pass_ok V ty st C \<longleftrightarrow>
     ps_mismatches st = map (pair_mismatch V ty) C \<and>
     ps_source st = fst ` set (ps_pairs st @ C) \<and> ps_dest st = snd ` set (ps_pairs st @ C) \<and>
     distinct (map fst (ps_pairs st @ C)) \<and> distinct (map snd (ps_pairs st @ C))"

definition clean_pair :: "verify_input \<Rightarrow> message_key \<times> message_key \<Rightarrow> bool" where
  "clean_pair V = (\<lambda>(s, d).
     s \<in> set (source_keys V) \<and> d \<in> set (dest_keys V) \<and> source_id V s \<noteq> None \<and> source_id V s = dest_id V d \<and>
     source_bucket V s \<noteq> None \<and> source_bucket V s = dest_bucket V d)"

text \<open>Two messages of one Message-ID.\<close>

definition same_id :: "verify_input \<Rightarrow> message_key \<Rightarrow> message_key \<Rightarrow> bool" where
  "same_id V s d \<longleftrightarrow>
     s \<in> set (source_keys V) \<and> d \<in> set (dest_keys V) \<and> source_id V s \<noteq> None \<and> source_id V s = dest_id V d"

text \<open>A pass over some keys of either side pairs nothing else.\<close>

definition extends :: "message_key set \<Rightarrow> message_key set \<Rightarrow> pass_state \<Rightarrow> pass_state \<Rightarrow> bool" where
  "extends A B st st' \<longleftrightarrow>
     ps_source st \<subseteq> ps_source st' \<and> ps_source st' \<subseteq> ps_source st \<union> A \<and>
     ps_dest st \<subseteq> ps_dest st' \<and> ps_dest st' \<subseteq> ps_dest st \<union> B"

lemma extends_refl [simp]: "extends A B st st"
  by (simp add: extends_def)

lemma extends_trans: "extends A B st st1 \<Longrightarrow> extends A' B' st1 st2 \<Longrightarrow> A \<subseteq> A2 \<Longrightarrow> A' \<subseteq> A2 \<Longrightarrow> B \<subseteq> B2 \<Longrightarrow> B' \<subseteq> B2 \<Longrightarrow>
    extends A2 B2 st st2"
  unfolding extends_def by blast

lemma match_exact_ok:
  assumes "pass_ok V ty st C" "distinct ss" "set ss \<inter> ps_source st = {}" "distinct ds" "set ds \<inter> ps_dest st = {}"
  shows "pass_ok V ty (match_exact V ss ds st) C \<and> extends (set ss) (set ds) st (match_exact V ss ds st)"
  using assms
proof (induction ss arbitrary: ds st)
  case (Cons s ss)
  have skip: ?case if "match_exact V (s # ss) ds st = match_exact V ss ds st"
    using Cons.IH [of st ds] Cons.prems that by (auto intro: extends_trans)
  show ?case
  proof (cases "source_fp V s")
    case (Some fp)
    let ?P = "\<lambda>d. mk_mailbox d = expected_destination_folder V s \<and> dest_fp V d = Some fp"
    show ?thesis
    proof (cases "find ?P ds")
      case (Some d)
      let ?st = "st\<lparr>ps_source := insert s (ps_source st), ps_dest := insert d (ps_dest st), ps_pairs := ps_pairs st @ [(s, d)]\<rparr>"
      have d: "d \<in> set ds" using find_SomeD [OF Some] by simp
      have m: "match_exact V (s # ss) ds st = match_exact V ss (remove1 d ds) ?st"
        using Some \<open>source_fp V s = Some fp\<close> by simp
      have "s \<notin> ps_source st" "d \<notin> ps_dest st" using Cons.prems d by auto
      then have "pass_ok V ty ?st C" using Cons.prems(1) by (auto simp: pass_ok_def)
      moreover have "set ss \<inter> ps_source ?st = {}" "set (remove1 d ds) \<inter> ps_dest ?st = {}"
        using Cons.prems by auto
      ultimately have h: "pass_ok V ty (match_exact V ss (remove1 d ds) ?st) C \<and>
          extends (set ss) (set (remove1 d ds)) ?st (match_exact V ss (remove1 d ds) ?st)"
        using Cons.IH [of ?st "remove1 d ds"] Cons.prems by simp
      have "extends {s} {d} st ?st" by (auto simp: extends_def)
      then have "extends (set (s # ss)) (set ds) st (match_exact V ss (remove1 d ds) ?st)"
        by (rule extends_trans [OF _ conjunct2 [OF h]]) (use d set_remove1_subset [of d ds] in auto)
      then show ?thesis using h unfolding m by blast
    qed (use Some skip in simp)
  qed (use skip in simp)
qed simp

lemma match_exact_clean:
  assumes "list_all (clean_pair V) (ps_pairs st)"
    and "\<forall>s \<in> set ss. \<forall>d \<in> set ds. same_id V s d"
  shows "list_all (clean_pair V) (ps_pairs (match_exact V ss ds st))"
  using assms
proof (induction ss arbitrary: ds st)
  case (Cons s ss)
  have skip: ?case if "match_exact V (s # ss) ds st = match_exact V ss ds st"
    unfolding that by (rule Cons.IH) (use Cons.prems in auto)
  show ?case
  proof (cases "source_fp V s")
    case fp: (Some fp)
    let ?P = "\<lambda>d. mk_mailbox d = expected_destination_folder V s \<and> dest_fp V d = Some fp"
    show ?thesis
    proof (cases "find ?P ds")
      case (Some d)
      then have d: "d \<in> set ds" "?P d" using find_SomeD [OF Some] by simp_all
      have "same_id V s d"
        by (rule bspec [OF bspec [OF Cons.prems(2)] d(1)]) simp
      then have "clean_pair V (s, d)"
        using d(2) fp unfolding clean_pair_def same_id_def source_bucket_def dest_bucket_def by auto
      then show ?thesis
        using Some fp Cons.prems set_remove1_subset [of d ds] by (auto intro!: Cons.IH)
    qed (use fp skip in simp)
  qed (use skip in simp)
qed simp

lemma append_budget:
  "append_mismatch_with_budget m acc = Inl e \<Longrightarrow> e = Budget_Exceeded DETAIL_BUDGET"
  "append_mismatch_with_budget m acc = Inr acc' \<Longrightarrow> fst acc' = fst acc @ [m]"
  by (auto simp: append_mismatch_with_budget_def Let_def split: if_splits)

lemma record_mismatch_Inl: "record_mismatch V ty s d st = Inl e \<Longrightarrow> e = Budget_Exceeded DETAIL_BUDGET"
  by (auto simp: record_mismatch_def dest: append_budget split: sum.splits)

lemma record_mismatch_ok:
  assumes "record_mismatch V ty s d st = Inr st'" "pass_ok V ty st C" "s \<notin> ps_source st" "d \<notin> ps_dest st"
  shows "pass_ok V ty st' (C @ [(s, d)])" "extends {s} {d} st st'" "ps_pairs st' = ps_pairs st"
    "ps_source st' = insert s (ps_source st)" "ps_dest st' = insert d (ps_dest st)"
proof -
  obtain ms b where a: "append_mismatch_with_budget (make_mismatch V ty (Some s) (Some d)) (ps_mismatches st, ps_bytes st) = Inr (ms, b)"
    and st': "st' = st\<lparr>ps_mismatches := ms, ps_bytes := b, ps_source := insert s (ps_source st), ps_dest := insert d (ps_dest st)\<rparr>"
    using assms(1) by (auto simp: record_mismatch_def split: sum.splits)
  have ms: "ms = ps_mismatches st @ [pair_mismatch V ty (s, d)]" using append_budget(2) [OF a] by (simp add: pair_mismatch_def)
  show "pass_ok V ty st' (C @ [(s, d)])" using assms(2-4) by (auto simp: pass_ok_def st' ms)
  show "extends {s} {d} st st'" by (auto simp: extends_def st')
  show "ps_pairs st' = ps_pairs st" "ps_source st' = insert s (ps_source st)" "ps_dest st' = insert d (ps_dest st)" by (simp_all add: st')
qed

lemma match_changed_Inl: "match_changed V ss ds st = Inl e \<Longrightarrow> e = Budget_Exceeded DETAIL_BUDGET"
  by (induction V ss ds st rule: match_changed.induct)
    (auto split: if_splits option.splits sum.splits dest: record_mismatch_Inl)

lemma match_changed_ok:
  assumes "match_changed V ss ds st = Inr st'" "pass_ok V Mismatch_MessageIdOnly st C" "distinct ds" "set ds \<inter> ps_dest st = {}"
  shows "\<exists>C'. pass_ok V Mismatch_MessageIdOnly st' C' \<and> extends (set ss) (set ds) st st' \<and> ps_pairs st' = ps_pairs st"
  using assms
proof (induction ss arbitrary: ds st C)
  case (Cons s ss)
  have skip: ?case if sk: "match_changed V (s # ss) ds st = match_changed V ss ds st"
  proof -
    obtain C' where c: "pass_ok V Mismatch_MessageIdOnly st' C'" "extends (set ss) (set ds) st st'" "ps_pairs st' = ps_pairs st"
      using Cons.IH [OF trans [OF sk [symmetric] Cons.prems(1)] Cons.prems(2-4)] by blast
    have "extends (set (s # ss)) (set ds) st st'" by (rule extends_trans [OF extends_refl [of "{}" "{}"] c(2)]) auto
    then show ?thesis using c by blast
  qed
  show ?case
  proof (cases "s \<in> ps_source st")
    case new: False
    show ?thesis
    proof (cases "find (\<lambda>d. mk_mailbox d = expected_destination_folder V s) ds")
      case (Some d)
      have d: "d \<in> set ds" using find_SomeD [OF Some] by simp
      obtain st1 where r: "record_mismatch V Mismatch_MessageIdOnly s d st = Inr st1"
        and m: "match_changed V ss (remove1 d ds) st1 = Inr st'"
        using Cons.prems(1) Some new by (auto split: sum.splits)
      have dn: "d \<notin> ps_dest st" using d Cons.prems(4) by blast
      note r1 = record_mismatch_ok [OF r Cons.prems(2) new dn]
      have "set (remove1 d ds) \<inter> ps_dest st1 = {}" using Cons.prems(3,4) r1(5) by auto
      then obtain C' where c: "pass_ok V Mismatch_MessageIdOnly st' C'" "extends (set ss) (set (remove1 d ds)) st1 st'" "ps_pairs st' = ps_pairs st1"
        using Cons.IH [OF m r1(1)] Cons.prems(3) by auto
      have "extends (set (s # ss)) (set ds) st st'"
        by (rule extends_trans [OF r1(2) c(2)]) (use d set_remove1_subset [of d ds] in auto)
      then show ?thesis using c r1(3) by auto
    qed (use new skip in simp)
  qed (use skip in simp)
qed (auto intro: exI [of _ C])

lemma pass_1_group_ok:
  assumes g: "pass_1_group V su du st = Inr st'" and st: "pass_ok V Mismatch_MessageIdOnly st C" "list_all (clean_pair V) (ps_pairs st)"
    and s: "distinct su" "set su \<inter> ps_source st = {}" and d: "distinct du" "set du \<inter> ps_dest st = {}"
    and id: "\<forall>s \<in> set su. \<forall>d \<in> set du. same_id V s d"
  shows "\<exists>C'. pass_ok V Mismatch_MessageIdOnly st' C' \<and> extends (set su) (set du) st st' \<and> list_all (clean_pair V) (ps_pairs st')"
proof -
  let ?st1 = "match_exact V su du st" and ?ds = "filter (\<lambda>d. d \<notin> ps_dest (match_exact V su du st)) du"
  have e: "pass_ok V Mismatch_MessageIdOnly ?st1 C" "extends (set su) (set du) st ?st1"
    using match_exact_ok [OF st(1) s d] by simp_all
  have c: "list_all (clean_pair V) (ps_pairs ?st1)" by (rule match_exact_clean [OF st(2) id])
  have g': "match_changed V su ?ds ?st1 = Inr st'" using g by (simp add: pass_1_group_def Let_def)
  have "set ?ds \<inter> ps_dest ?st1 = {}" "distinct ?ds" using d(1) by auto
  then obtain C' where h: "pass_ok V Mismatch_MessageIdOnly st' C'" "extends (set su) (set ?ds) ?st1 st'" "ps_pairs st' = ps_pairs ?st1"
    using match_changed_ok [OF g' e(1)] by blast
  have "extends (set su) (set du) st st'" by (rule extends_trans [OF e(2) h(2)]) auto
  then show ?thesis using h c by auto
qed

section \<open>Passes 1 and 2\<close>

lemma over_ids_Inl:
  assumes "over_ids grp ids st = Inl e" "\<And>i st e. grp i st = Inl e \<Longrightarrow> e = Budget_Exceeded DETAIL_BUDGET"
  shows "e = Budget_Exceeded DETAIL_BUDGET"
  using assms(1) by (induction ids arbitrary: st) (auto split: sum.splits dest: assms(2))

text \<open>
  A loop over Message-IDs whose groups are disjoint: each group extends the state by its own keys, as long as
  none of them is paired yet.
\<close>

lemma over_ids_ok:
  assumes run: "over_ids grp ids st = Inr st'" and I: "I st"
    and grp: "\<And>i st st'. grp i st = Inr st' \<Longrightarrow> I st \<Longrightarrow> A i \<inter> ps_source st = {} \<Longrightarrow> B i \<inter> ps_dest st = {} \<Longrightarrow>
        I st' \<and> extends (A i) (B i) st st'"
    and dist: "distinct ids" and dis: "\<And>i j. i \<noteq> j \<Longrightarrow> A i \<inter> A j = {} \<and> B i \<inter> B j = {}"
    and free: "\<forall>i \<in> set ids. A i \<inter> ps_source st = {} \<and> B i \<inter> ps_dest st = {}"
  shows "I st' \<and> extends (\<Union> (A ` set ids)) (\<Union> (B ` set ids)) st st'"
  using run I dist free
proof (induction ids arbitrary: st)
  case (Cons i ids)
  obtain st1 where g: "grp i st = Inr st1" and r: "over_ids grp ids st1 = Inr st'"
    using Cons.prems(1) by (auto split: sum.splits)
  have s1: "I st1" "extends (A i) (B i) st st1" using grp [OF g Cons.prems(2)] Cons.prems(4) by auto
  have "\<forall>j \<in> set ids. A j \<inter> ps_source st1 = {} \<and> B j \<inter> ps_dest st1 = {}"
  proof
    fix j assume j: "j \<in> set ids"
    then have "i \<noteq> j" using Cons.prems(3) by auto
    then have "A i \<inter> A j = {}" "B i \<inter> B j = {}" using dis by simp_all
    moreover have "A j \<inter> ps_source st = {}" "B j \<inter> ps_dest st = {}" using Cons.prems(4) j by simp_all
    ultimately show "A j \<inter> ps_source st1 = {} \<and> B j \<inter> ps_dest st1 = {}" using s1(2) unfolding extends_def by blast
  qed
  then have h: "I st'" "extends (\<Union> (A ` set ids)) (\<Union> (B ` set ids)) st1 st'"
    using Cons.IH [OF r s1(1)] Cons.prems(3) by simp_all
  have "extends (\<Union> (A ` set (i # ids))) (\<Union> (B ` set (i # ids))) st st'"
    by (rule extends_trans [OF s1(2) h(2)]) auto
  then show ?case using h(1) by blast
qed simp

abbreviation source_group :: "verify_input \<Rightarrow> str \<Rightarrow> message_key list" where
  "source_group V i \<equiv> uids_at (index_by_message_id (vi_source V)) i"

abbreviation dest_group :: "verify_input \<Rightarrow> str \<Rightarrow> message_key list" where
  "dest_group V i \<equiv> uids_at (index_by_message_id (vi_dest V)) i"

lemma groups:
  assumes "verify_input_ok V"
  shows "set (source_group V i) = {k \<in> set (source_keys V). source_id V k = Some i}"
    "set (dest_group V i) = {k \<in> set (dest_keys V). dest_id V k = Some i}"
    "distinct (source_group V i)" "distinct (dest_group V i)"
  using assms by (auto simp: verify_input_ok_def set_uids_at source_id_def dest_id_def distinct_uids_at)

lemma pass_ok_empty: "pass_ok V ty empty_pass []"
  by (simp add: pass_ok_def empty_pass_def)

lemma pass_1_ok:
  assumes V: "verify_input_ok V" and p: "pass_1_message_id_exact_metadata V = Inr p1"
  shows "\<exists>C. pass_ok V Mismatch_MessageIdOnly p1 C \<and> list_all (clean_pair V) (ps_pairs p1) \<and>
    ps_source p1 \<subseteq> set (source_keys V) \<and> ps_dest p1 \<subseteq> set (dest_keys V)"
proof -
  let ?I = "\<lambda>st. (\<exists>C. pass_ok V Mismatch_MessageIdOnly st C) \<and> list_all (clean_pair V) (ps_pairs st)"
  let ?A = "\<lambda>i. set (source_group V i)" and ?B = "\<lambda>i. set (dest_group V i)"
  note g = groups [OF V]
  have "?I p1 \<and> extends (\<Union> (?A ` set (shared_ids (index_by_message_id (vi_source V)) (index_by_message_id (vi_dest V)))))
      (\<Union> (?B ` set (shared_ids (index_by_message_id (vi_source V)) (index_by_message_id (vi_dest V))))) empty_pass p1"
  proof (rule over_ids_ok [where A = ?A and B = ?B])
    show "over_ids (\<lambda>i. pass_1_group V (source_group V i) (dest_group V i))
        (shared_ids (index_by_message_id (vi_source V)) (index_by_message_id (vi_dest V))) empty_pass = Inr p1"
      using p by (simp add: pass_1_message_id_exact_metadata_def Let_def)
    show "?I empty_pass" using pass_ok_empty [of V] by (auto simp: empty_pass_def)
    show "?I st' \<and> extends (?A i) (?B i) st st'"
      if h: "pass_1_group V (source_group V i) (dest_group V i) st = Inr st'" "?I st" "?A i \<inter> ps_source st = {}" "?B i \<inter> ps_dest st = {}"
      for i st st'
    proof -
      obtain C where c: "pass_ok V Mismatch_MessageIdOnly st C" using h(2) by blast
      have "\<forall>s \<in> ?A i. \<forall>d \<in> ?B i. same_id V s d" by (auto simp: g(1,2) same_id_def)
      then show ?thesis using pass_1_group_ok [OF h(1) c _ g(3) h(3) g(4) h(4)] h(2) by blast
    qed
    show "?A i \<inter> ?A j = {} \<and> ?B i \<inter> ?B j = {}" if "i \<noteq> j" for i j using that by (auto simp: g(1,2))
    show "\<forall>i \<in> set (shared_ids (index_by_message_id (vi_source V)) (index_by_message_id (vi_dest V))).
        ?A i \<inter> ps_source empty_pass = {} \<and> ?B i \<inter> ps_dest empty_pass = {}" by (simp add: empty_pass_def)
  qed (rule distinct_shared_ids)
  then show ?thesis by (auto simp: extends_def empty_pass_def g(1,2))
qed

lemma pass_1_Inl: "pass_1_message_id_exact_metadata V = Inl e \<Longrightarrow> e = Budget_Exceeded DETAIL_BUDGET"
  by (auto simp: pass_1_message_id_exact_metadata_def Let_def pass_1_group_def
      elim!: over_ids_Inl dest: match_changed_Inl)

lemma match_wrong_folder_Inl: "match_wrong_folder V us ss ds st = Inl e \<Longrightarrow> e = Budget_Exceeded DETAIL_BUDGET"
  by (induction V us ss ds st rule: match_wrong_folder.induct)
    (auto simp: Let_def split: if_splits option.splits sum.splits dest: record_mismatch_Inl)

lemma pass_2_Inl: "pass_2_wrong_folder_detection V us ud = Inl e \<Longrightarrow> e = Budget_Exceeded DETAIL_BUDGET"
  by (auto simp: pass_2_wrong_folder_detection_def Let_def elim!: over_ids_Inl dest: match_wrong_folder_Inl)

lemma match_wrong_folder_ok:
  assumes "match_wrong_folder V us ss ds st = Inr st'" "pass_ok V Mismatch_PresentWrongFolder st C" "distinct ss" "distinct ds"
    "set ss \<inter> ps_source st = {}" "set ds \<inter> ps_dest st = {}"
  shows "\<exists>C'. pass_ok V Mismatch_PresentWrongFolder st' C' \<and> extends (set ss \<inter> set us) (set ds) st st' \<and> ps_pairs st' = ps_pairs st"
  using assms
proof (induction ss arbitrary: ds st C)
  case (Cons s ss)
  have skip: ?case if sk: "match_wrong_folder V us (s # ss) ds st = match_wrong_folder V us ss ds st"
  proof -
    obtain C' where c: "pass_ok V Mismatch_PresentWrongFolder st' C'" "extends (set ss \<inter> set us) (set ds) st st'" "ps_pairs st' = ps_pairs st"
      using Cons.IH [OF trans [OF sk [symmetric] Cons.prems(1)] Cons.prems(2)] Cons.prems(3-6) by auto
    have "extends (set (s # ss) \<inter> set us) (set ds) st st'" by (rule extends_trans [OF extends_refl [of "{}" "{}"] c(2)]) auto
    then show ?thesis using c by blast
  qed
  let ?cs = "filter (\<lambda>d. dest_fp V d = source_fp V s) ds"
  have pair: ?case if us: "s \<in> set us" and f: "find (\<lambda>d. mk_mailbox d = f) ?cs = Some d"
    and eq: "match_wrong_folder V us (s # ss) ds st =
      (case record_mismatch V Mismatch_PresentWrongFolder s d st of Inl e \<Rightarrow> Inl e | Inr st' \<Rightarrow> match_wrong_folder V us ss (remove1 d ds) st')"
    for f d
  proof -
    have d: "d \<in> set ds" using find_SomeD [OF f] by simp
    obtain st1 where r: "record_mismatch V Mismatch_PresentWrongFolder s d st = Inr st1"
      and m: "match_wrong_folder V us ss (remove1 d ds) st1 = Inr st'"
      using Cons.prems(1) unfolding eq by (auto split: sum.splits)
    have n: "s \<notin> ps_source st" "d \<notin> ps_dest st" using d Cons.prems(5,6) by auto
    note r1 = record_mismatch_ok [OF r Cons.prems(2) n]
    have "set ss \<inter> ps_source st1 = {}" "set (remove1 d ds) \<inter> ps_dest st1 = {}" using Cons.prems(3-6) r1(4,5) by auto
    then obtain C' where c: "pass_ok V Mismatch_PresentWrongFolder st' C'" "extends (set ss \<inter> set us) (set (remove1 d ds)) st1 st'"
        "ps_pairs st' = ps_pairs st1"
      using Cons.IH [OF m r1(1)] Cons.prems(3,4) by auto
    have "extends (set (s # ss) \<inter> set us) (set ds) st st'"
      by (rule extends_trans [OF r1(2) c(2)]) (use d us set_remove1_subset [of d ds] in auto)
    then show ?thesis using c r1(3) by auto
  qed
  show ?case
  proof (cases "s \<in> set us")
    case us: True
    show ?thesis
    proof (cases "nearest_folder (expected_destination_folder V s) (map mk_mailbox ?cs)")
      case f: (Some f)
      show ?thesis
      proof (cases "find (\<lambda>d. mk_mailbox d = f) ?cs")
        case (Some d)
        then show ?thesis using us f by (intro pair) simp_all
      qed (rule skip, use us f in simp)
    qed (rule skip, use us in simp)
  qed (rule skip, simp)
qed (auto intro: exI [of _ C])

lemma pass_2_ok:
  assumes V: "verify_input_ok V" and p: "pass_2_wrong_folder_detection V us ud = Inr p2"
  shows "\<exists>C. pass_ok V Mismatch_PresentWrongFolder p2 C \<and> ps_pairs p2 = [] \<and> ps_source p2 \<subseteq> set us \<and> ps_dest p2 \<subseteq> set ud"
proof -
  let ?I = "\<lambda>st. (\<exists>C. pass_ok V Mismatch_PresentWrongFolder st C) \<and> ps_pairs st = [] \<and> ps_source st \<subseteq> set us"
  let ?A = "\<lambda>i. set (source_group V i)" and ?B = "\<lambda>i. set (filter (\<lambda>d. d \<in> set ud) (dest_group V i))"
  let ?ids = "shared_ids (index_by_message_id (vi_source V)) (index_by_message_id (vi_dest V))"
  note g = groups [OF V]
  have "?I p2 \<and> extends (\<Union> (?A ` set ?ids)) (\<Union> (?B ` set ?ids)) empty_pass p2"
  proof (rule over_ids_ok [where A = ?A and B = ?B])
    show "over_ids (\<lambda>i. match_wrong_folder V us (source_group V i) (filter (\<lambda>d. d \<in> set ud) (dest_group V i))) ?ids empty_pass = Inr p2"
      using p by (simp add: pass_2_wrong_folder_detection_def Let_def)
    show "?I empty_pass" using pass_ok_empty [of V] by (auto simp: empty_pass_def)
    show "?I st' \<and> extends (?A i) (?B i) st st'"
      if h: "match_wrong_folder V us (source_group V i) (filter (\<lambda>d. d \<in> set ud) (dest_group V i)) st = Inr st'" "?I st"
        "?A i \<inter> ps_source st = {}" "?B i \<inter> ps_dest st = {}" for i st st'
    proof -
      obtain C where c: "pass_ok V Mismatch_PresentWrongFolder st C" using h(2) by blast
      obtain C' where c': "pass_ok V Mismatch_PresentWrongFolder st' C'" "extends (?A i \<inter> set us) (?B i) st st'" "ps_pairs st' = ps_pairs st"
        using match_wrong_folder_ok [OF h(1) c g(3) distinct_filter [OF g(4)] h(3,4)] by blast
      have "ps_source st' \<subseteq> set us" using c'(2) h(2) unfolding extends_def by blast
      moreover have "extends (?A i) (?B i) st st'" using c'(2) unfolding extends_def by blast
      ultimately show ?thesis using c'(1,3) h(2) by auto
    qed
    show "?A i \<inter> ?A j = {} \<and> ?B i \<inter> ?B j = {}" if "i \<noteq> j" for i j using that by (auto simp: g(1,2))
    show "\<forall>i \<in> set ?ids. ?A i \<inter> ps_source empty_pass = {} \<and> ?B i \<inter> ps_dest empty_pass = {}" by (simp add: empty_pass_def)
  qed (rule distinct_shared_ids)
  then show ?thesis by (auto simp: extends_def empty_pass_def)
qed

end
