(* ===== verification/Reconciliation_Accounting.thy ===== *)
theory Reconciliation_Accounting
  imports Reconciliation_Partition
begin

text \<open>
  From the passes to the summary: the mismatches that are collected, the classes they give, and the check of the
  accounting.
\<close>

section \<open>Pass 3\<close>

lemma in_bucket_hd:
  assumes "length (in_bucket f ks b) = 1"
  shows "hd (in_bucket f ks b) \<in> set ks" "f (hd (in_bucket f ks b)) = Some b"
proof -
  have "hd (in_bucket f ks b) \<in> set (in_bucket f ks b)" using assms by (intro hd_in_set) auto
  then show "hd (in_bucket f ks b) \<in> set ks" "f (hd (in_bucket f ks b)) = Some b" by (simp_all add: in_bucket_def)
qed

lemma card_hds:
  assumes "distinct bs" "\<forall>b \<in> set bs. length (in_bucket f ks b) = 1"
  shows "card (set (map (\<lambda>b. hd (in_bucket f ks b)) bs)) = length bs"
proof -
  have "inj_on (\<lambda>b. hd (in_bucket f ks b)) (set bs)"
  proof (rule inj_onI)
    fix a b assume h: "a \<in> set bs" "b \<in> set bs" "hd (in_bucket f ks a) = hd (in_bucket f ks b)"
    have "f (hd (in_bucket f ks x)) = Some x" if "x \<in> set bs" for x
      by (rule in_bucket_hd(2) [OF bspec [OF assms(2) that]])
    from this [OF h(1)] this [OF h(2)] show "a = b" unfolding h(3) by simp
  qed
  then show ?thesis using assms(1) by (simp add: card_image distinct_card)
qed

lemma pass_3_ok:
  assumes "pass_3_fingerprint_fallback V us ud = (n, ps, pd)"
  shows "ps \<subseteq> set us" "pd \<subseteq> set ud" "card ps = n" "card pd = n"
proof -
  define bs where "bs = filter (\<lambda>b. length (in_bucket (source_bucket V) us b) = 1 \<and> length (in_bucket (dest_bucket V) ud b) = 1)
    (remdups (List.map_filter (source_bucket V) us))"
  have e: "n = length bs" "ps = set (map (\<lambda>b. hd (in_bucket (source_bucket V) us b)) bs)"
    "pd = set (map (\<lambda>b. hd (in_bucket (dest_bucket V) ud b)) bs)"
    using assms by (simp_all add: pass_3_fingerprint_fallback_def Let_def bs_def)
  have one: "\<forall>b \<in> set bs. length (in_bucket (source_bucket V) us b) = 1" "\<forall>b \<in> set bs. length (in_bucket (dest_bucket V) ud b) = 1"
    and d: "distinct bs" by (simp_all add: bs_def)
  show "ps \<subseteq> set us" unfolding e set_map by (rule image_subsetI, rule in_bucket_hd(1) [OF bspec [OF one(1)]])
  show "pd \<subseteq> set ud" unfolding e set_map by (rule image_subsetI, rule in_bucket_hd(1) [OF bspec [OF one(2)]])
  show "card ps = n" "card pd = n" unfolding e by (rule card_hds [OF d one(1)], rule card_hds [OF d one(2)])
qed

section \<open>The remaining messages\<close>

lemma report_all_Inl: "report_all mk ks acc = Inl e \<Longrightarrow> e = Budget_Exceeded DETAIL_BUDGET"
  by (induction mk ks acc rule: report_all.induct) (auto split: sum.splits dest: append_budget)

lemma report_all_Inr: "report_all mk ks acc = Inr acc' \<Longrightarrow> fst acc' = fst acc @ map mk ks"
  by (induction mk ks acc rule: report_all.induct) (auto split: sum.splits dest!: append_budget(2))

lemma distinct_groups:
  assumes "distinct (map fst ix)" "\<forall>(i, ks) \<in> set ix. distinct ks \<and> (\<forall>k \<in> set ks. f k = Some i)"
  shows "distinct (concat (map snd (filter P ix)))"
  using assms
proof (induction ix)
  case (Cons g ix)
  obtain i ks where g: "g = (i, ks)" by (cases g)
  have "set ks \<inter> set (concat (map snd (filter P ix))) = {}"
  proof (rule ccontr)
    assume "set ks \<inter> set (concat (map snd (filter P ix))) \<noteq> {}"
    then obtain k j js where k: "k \<in> set ks" "(j, js) \<in> set ix" "k \<in> set js" by auto
    have "f k = Some i" using bspec [OF Cons.prems(2), of "(i, ks)"] g k(1) by simp
    moreover have "f k = Some j" using bspec [OF Cons.prems(2), of "(j, js)"] k(2,3) by simp
    ultimately have "i = j" by simp
    then show False using Cons.prems(1) k(2) g by (force simp: image_iff)
  qed
  then show ?case using Cons g by auto
qed simp

lemma duplicate_uids:
  assumes V: "verify_input_ok V"
  shows "set (duplicate_dest_uids V ud) \<subseteq> set ud" "distinct (duplicate_dest_uids V ud)"
proof -
  show "set (duplicate_dest_uids V ud) \<subseteq> set ud" by (auto simp: duplicate_dest_uids_def Let_def)
  have "distinct ks \<and> (\<forall>k \<in> set ks. dest_id V k = Some i)" if "(i, ks) \<in> set (index_by_message_id (vi_dest V))" for i ks
  proof -
    have ks: "ks = dest_group V i" using that index_keys [of "vi_dest V"] by (simp add: uids_at_def)
    show ?thesis unfolding ks using groups(2,4) [OF V, of i] by simp
  qed
  then have "\<forall>(i, ks) \<in> set (index_by_message_id (vi_dest V)). distinct ks \<and> (\<forall>k \<in> set ks. dest_id V k = Some i)" by blast
  then show "distinct (duplicate_dest_uids V ud)"
    by (simp add: duplicate_dest_uids_def Let_def distinct_groups [OF index_keys])
qed

lemma report_rest_ok:
  assumes "report_rest V us ud acc = Inr acc'"
  shows "fst acc' = fst acc @ map (\<lambda>k. make_mismatch V Mismatch_Missing (Some k) None) (sort us) @
    map (\<lambda>k. make_mismatch V Mismatch_Duplicated None (Some k)) (duplicate_dest_uids V ud) @
    map (\<lambda>k. make_mismatch V Mismatch_Extra None (Some k)) (sort (filter (\<lambda>k. k \<notin> set (duplicate_dest_uids V ud)) ud))"
  using assms by (auto simp: report_rest_def Let_def split: sum.splits dest!: report_all_Inr)

lemma report_rest_Inl: "report_rest V us ud acc = Inl e \<Longrightarrow> e = Budget_Exceeded DETAIL_BUDGET"
  by (auto simp: report_rest_def Let_def split: sum.splits dest: report_all_Inl)

section \<open>Keys of mismatches\<close>

lemma make_mismatch_simps [simp]:
  "mm_type (make_mismatch V ty sk dk) = ty"
  "k \<in> set (map fst M) \<Longrightarrow> mismatch_source_key M (make_mismatch V ty (Some k) dk) = Some k"
  "mismatch_source_key M (make_mismatch V ty None dk) = None"
  "k \<in> set (map fst M) \<Longrightarrow> mismatch_destination_key M (make_mismatch V ty sk (Some k)) = Some k"
  "mismatch_destination_key M (make_mismatch V ty sk None) = None"
proof -
  have f: "find (\<lambda>x. mk_uidvalidity x = mk_uidvalidity k \<and> mk_uid x = mk_uid k \<and> mk_mailbox x = mk_mailbox k) (map fst M) = Some k"
    if "k \<in> set (map fst M)" for k
  proof -
    have "(\<lambda>x. mk_uidvalidity x = mk_uidvalidity k \<and> mk_uid x = mk_uid k \<and> mk_mailbox x = mk_mailbox k) = (\<lambda>x. x = k)"
      by (auto simp: message_key.expand)
    moreover have "find (\<lambda>x. x = k) ks = Some k" if "k \<in> set ks" for ks using that by (induction ks) auto
    ultimately show ?thesis using that by simp
  qed
  show "mm_type (make_mismatch V ty sk dk) = ty" by (simp add: make_mismatch_def Let_def)
  show "mismatch_source_key M (make_mismatch V ty (Some k) dk) = Some k" if "k \<in> set (map fst M)"
    using f [OF that] by (simp add: make_mismatch_def Let_def mismatch_source_key_def)
  show "mismatch_destination_key M (make_mismatch V ty sk (Some k)) = Some k" if "k \<in> set (map fst M)"
    using f [OF that] by (simp add: make_mismatch_def Let_def mismatch_destination_key_def)
qed (simp_all add: make_mismatch_def Let_def mismatch_source_key_def mismatch_destination_key_def)

lemma map_filter_all: "(\<forall>x \<in> set xs. f x = Some (g x)) \<Longrightarrow> List.map_filter f xs = map g xs"
  by (induction xs) (auto simp: map_filter_simps)

lemma map_filter_none: "(\<forall>x \<in> set xs. f x = None) \<Longrightarrow> List.map_filter f xs = []"
  by (induction xs) (auto simp: map_filter_simps)

lemma map_filter_append: "List.map_filter f (xs @ ys) = List.map_filter f xs @ List.map_filter f ys"
  by (simp add: map_filter_def)

lemma map_filter_map: "List.map_filter f (map g xs) = List.map_filter (\<lambda>x. f (g x)) xs"
  by (simp add: map_filter_def filter_map comp_def)

section \<open>The accounting check\<close>

lemma check_partition_None:
  assumes "distinct (map fst M)" "\<forall>k \<in> set (map fst M). length (owners_of P k) = 1" "\<Union> (set (map snd P)) = set (map fst M)"
  shows "check_partition side M P = None"
proof -
  have "find (\<lambda>k. length (owners_of P k) \<noteq> 1) (map fst M) = None" using assms(2) by (simp add: find_None_iff)
  moreover have "card (\<Union> (set (map snd P))) = length M"
    unfolding assms(3) using distinct_card [OF assms(1)] by simp
  ultimately show ?thesis by (simp add: check_partition_def Let_def)
qed

lemma repeated_mismatch_None:
  assumes "distinct (List.map_filter (mismatch_source_key S) ms)" "set (List.map_filter (mismatch_source_key S) ms) \<inter> A = {}"
    "distinct (List.map_filter (mismatch_destination_key D) ms)" "set (List.map_filter (mismatch_destination_key D) ms) \<inter> B = {}"
  shows "repeated_mismatch S D ms A B = None"
  using assms
proof (induction ms arbitrary: A B)
  case (Cons m ms)
  then show ?case
    by (cases "mismatch_source_key S m"; cases "mismatch_destination_key D m") (simp_all add: map_filter_simps)
qed simp

lemma owners_source:
  "length (owners_of (source_partition p) k) =
     of_bool (k \<in> vm_matched_source p) + of_bool (k \<in> vm_probable_source p) + of_bool (k \<in> vm_missing_source p) +
     of_bool (k \<in> vm_changed_source p)"
  by (simp add: owners_of_def source_partition_def)

lemma owners_destination:
  "length (owners_of (destination_partition p) k) =
     of_bool (k \<in> vm_matched_destination p) + of_bool (k \<in> vm_probable_destination p) + of_bool (k \<in> vm_extra_destination p) +
     of_bool (k \<in> vm_duplicated_destination p) + of_bool (k \<in> vm_changed_destination p)"
  by (simp add: owners_of_def destination_partition_def)

text \<open>
  What a reconciliation has collected when it comes to its summary: clean pairs \<open>P\<close>, pairs \<open>C\<close> and \<open>W\<close> with
  changed metadata or a wrong folder, probable keys, and the lists of missing, duplicated and extra messages.
\<close>

definition collected :: "verify_input \<Rightarrow> (message_key \<times> message_key) list \<Rightarrow> (message_key \<times> message_key) list \<Rightarrow>
    (message_key \<times> message_key) list \<Rightarrow> nat \<times> message_key set \<times> message_key set \<Rightarrow> message_key list \<Rightarrow> message_key list \<Rightarrow>
    message_key list \<Rightarrow> bool" where
  "collected V P C W p3 mis dup ext \<longleftrightarrow>
     distinct (map fst (P @ C @ W) @ mis) \<and> distinct (map snd (P @ C @ W) @ dup @ ext) \<and>
     set (map fst (P @ C @ W) @ mis) \<inter> fst (snd p3) = {} \<and> set (map snd (P @ C @ W) @ dup @ ext) \<inter> snd (snd p3) = {} \<and>
     set (map fst (P @ C @ W) @ mis) \<union> fst (snd p3) = set (source_keys V) \<and>
     set (map snd (P @ C @ W) @ dup @ ext) \<union> snd (snd p3) = set (dest_keys V) \<and>
     card (fst (snd p3)) = fst p3 \<and> card (snd (snd p3)) = fst p3"

definition collected_mismatches :: "verify_input \<Rightarrow> (message_key \<times> message_key) list \<Rightarrow> (message_key \<times> message_key) list \<Rightarrow>
    message_key list \<Rightarrow> message_key list \<Rightarrow> message_key list \<Rightarrow> message_mismatch list" where
  "collected_mismatches V C W mis dup ext =
     map (pair_mismatch V Mismatch_MessageIdOnly) C @ map (pair_mismatch V Mismatch_PresentWrongFolder) W @
     map (\<lambda>k. make_mismatch V Mismatch_Missing (Some k) None) mis @
     map (\<lambda>k. make_mismatch V Mismatch_Duplicated None (Some k)) dup @
     map (\<lambda>k. make_mismatch V Mismatch_Extra None (Some k)) ext"

lemma of_type_collected:
  "of_type [Mismatch_MessageIdOnly, Mismatch_PresentWrongFolder] (collected_mismatches V C W mis dup ext) =
     map (pair_mismatch V Mismatch_MessageIdOnly) C @ map (pair_mismatch V Mismatch_PresentWrongFolder) W"
  "of_type [Mismatch_Missing] (collected_mismatches V C W mis dup ext) = map (\<lambda>k. make_mismatch V Mismatch_Missing (Some k) None) mis"
  "of_type [Mismatch_Duplicated] (collected_mismatches V C W mis dup ext) = map (\<lambda>k. make_mismatch V Mismatch_Duplicated None (Some k)) dup"
  "of_type [Mismatch_Extra] (collected_mismatches V C W mis dup ext) = map (\<lambda>k. make_mismatch V Mismatch_Extra None (Some k)) ext"
  by (simp_all add: of_type_def collected_mismatches_def filter_map comp_def pair_mismatch_def case_prod_beta)

lemma pair_keys:
  "fst ` set C \<subseteq> set (map fst S) \<Longrightarrow> List.map_filter (mismatch_source_key S) (map (pair_mismatch V ty) C) = map fst C"
  "snd ` set C \<subseteq> set (map fst D) \<Longrightarrow> List.map_filter (mismatch_destination_key D) (map (pair_mismatch V ty) C) = map snd C"
proof -
  show "List.map_filter (mismatch_source_key S) (map (pair_mismatch V ty) C) = map fst C" if h: "fst ` set C \<subseteq> set (map fst S)"
    unfolding map_filter_map
  proof (rule map_filter_all, rule ballI)
    fix c assume "c \<in> set C"
    then have "fst c \<in> set (map fst S)" using h by blast
    then show "mismatch_source_key S (pair_mismatch V ty c) = Some (fst c)"
      unfolding pair_mismatch_def case_prod_beta by (rule make_mismatch_simps)
  qed
  show "List.map_filter (mismatch_destination_key D) (map (pair_mismatch V ty) C) = map snd C" if h: "snd ` set C \<subseteq> set (map fst D)"
    unfolding map_filter_map
  proof (rule map_filter_all, rule ballI)
    fix c assume "c \<in> set C"
    then have "snd c \<in> set (map fst D)" using h by blast
    then show "mismatch_destination_key D (pair_mismatch V ty c) = Some (snd c)"
      unfolding pair_mismatch_def case_prod_beta by (rule make_mismatch_simps)
  qed
qed

lemma single_keys:
  "set ks \<subseteq> set (map fst S) \<Longrightarrow> List.map_filter (mismatch_source_key S) (map (\<lambda>k. make_mismatch V ty (Some k) None) ks) = ks"
  "set ks \<subseteq> set (map fst D) \<Longrightarrow> List.map_filter (mismatch_destination_key D) (map (\<lambda>k. make_mismatch V ty None (Some k)) ks) = ks"
  "List.map_filter (mismatch_source_key S) (map (\<lambda>k. make_mismatch V ty None (Some k)) ks) = []"
  "List.map_filter (mismatch_destination_key D) (map (\<lambda>k. make_mismatch V ty (Some k) None) ks) = []"
proof -
  have m: "List.map_filter f xs = xs" if "\<And>x. x \<in> set xs \<Longrightarrow> f x = Some x" for f and xs :: "message_key list"
    using map_filter_all [of xs f "\<lambda>k. k"] that by simp
  show "List.map_filter (mismatch_source_key S) (map (\<lambda>k. make_mismatch V ty (Some k) None) ks) = ks" if h: "set ks \<subseteq> set (map fst S)"
    unfolding map_filter_map by (rule m, rule make_mismatch_simps(2), rule subsetD [OF h])
  show "List.map_filter (mismatch_destination_key D) (map (\<lambda>k. make_mismatch V ty None (Some k)) ks) = ks" if h: "set ks \<subseteq> set (map fst D)"
    unfolding map_filter_map by (rule m, rule make_mismatch_simps(4), rule subsetD [OF h])
qed (simp_all add: map_filter_map map_filter_none)

lemma keys_of_append: "keys_of f (xs @ ys) = keys_of f xs \<union> keys_of f ys"
  by (simp add: keys_of_def map_filter_append)

lemma keys_of_pairs:
  "fst ` set C \<subseteq> set (map fst S) \<Longrightarrow> keys_of (mismatch_source_key S) (map (pair_mismatch V ty) C) = fst ` set C"
  "snd ` set C \<subseteq> set (map fst D) \<Longrightarrow> keys_of (mismatch_destination_key D) (map (pair_mismatch V ty) C) = snd ` set C"
  "set ks \<subseteq> set (map fst S) \<Longrightarrow> keys_of (mismatch_source_key S) (map (\<lambda>k. make_mismatch V ty (Some k) None) ks) = set ks"
  "set ks \<subseteq> set (map fst D) \<Longrightarrow> keys_of (mismatch_destination_key D) (map (\<lambda>k. make_mismatch V ty None (Some k)) ks) = set ks"
  unfolding keys_of_def by (simp_all only: pair_keys single_keys set_map)

lemma collected_keys:
  assumes "collected V P C W p3 mis dup ext"
  shows "List.map_filter (mismatch_source_key (vi_source V)) (collected_mismatches V C W mis dup ext) = map fst (C @ W) @ mis"
    "List.map_filter (mismatch_destination_key (vi_dest V)) (collected_mismatches V C W mis dup ext) = map snd (C @ W) @ dup @ ext"
    "fst ` set P \<subseteq> set (source_keys V)" "fst ` set C \<subseteq> set (source_keys V)" "fst ` set W \<subseteq> set (source_keys V)" "set mis \<subseteq> set (source_keys V)"
    "snd ` set P \<subseteq> set (dest_keys V)" "snd ` set C \<subseteq> set (dest_keys V)" "snd ` set W \<subseteq> set (dest_keys V)" "set dup \<subseteq> set (dest_keys V)"
    "set ext \<subseteq> set (dest_keys V)"
proof -
  have a: "set (map fst (P @ C @ W) @ mis) \<union> fst (snd p3) = set (source_keys V)"
    "set (map snd (P @ C @ W) @ dup @ ext) \<union> snd (snd p3) = set (dest_keys V)" using assms unfolding collected_def by blast+
  show s: "fst ` set P \<subseteq> set (source_keys V)" "fst ` set C \<subseteq> set (source_keys V)" "fst ` set W \<subseteq> set (source_keys V)" "set mis \<subseteq> set (source_keys V)"
    unfolding a(1) [symmetric] by auto
  show d: "snd ` set P \<subseteq> set (dest_keys V)" "snd ` set C \<subseteq> set (dest_keys V)" "snd ` set W \<subseteq> set (dest_keys V)" "set dup \<subseteq> set (dest_keys V)"
    "set ext \<subseteq> set (dest_keys V)" unfolding a(2) [symmetric] by auto
  show "List.map_filter (mismatch_source_key (vi_source V)) (collected_mismatches V C W mis dup ext) = map fst (C @ W) @ mis"
    unfolding collected_mismatches_def map_filter_append
    by (simp only: pair_keys(1) [OF s(2)] pair_keys(1) [OF s(3)] single_keys(1) [OF s(4)] single_keys(3)) simp
  show "List.map_filter (mismatch_destination_key (vi_dest V)) (collected_mismatches V C W mis dup ext) = map snd (C @ W) @ dup @ ext"
    unfolding collected_mismatches_def map_filter_append
    by (simp only: pair_keys(2) [OF d(2)] pair_keys(2) [OF d(3)] single_keys(2) [OF d(4)] single_keys(2) [OF d(5)] single_keys(4)) simp
qed

definition collected_membership :: "(message_key \<times> message_key) list \<Rightarrow> (message_key \<times> message_key) list \<Rightarrow>
    (message_key \<times> message_key) list \<Rightarrow> nat \<times> message_key set \<times> message_key set \<Rightarrow> message_key list \<Rightarrow> message_key list \<Rightarrow>
    message_key list \<Rightarrow> verification_membership" where
  "collected_membership P C W p3 mis dup ext =
     \<lparr>vm_matched_source = fst ` set P, vm_matched_destination = snd ` set P,
      vm_probable_source = fst (snd p3), vm_probable_destination = snd (snd p3),
      vm_missing_source = set mis, vm_extra_destination = set ext, vm_duplicated_destination = set dup,
      vm_changed_source = fst ` set (C @ W), vm_changed_destination = snd ` set (C @ W)\<rparr>"

definition collected_summary :: "verify_input \<Rightarrow> (message_key \<times> message_key) list \<Rightarrow> (message_key \<times> message_key) list \<Rightarrow>
    (message_key \<times> message_key) list \<Rightarrow> nat \<times> message_key set \<times> message_key set \<Rightarrow> message_key list \<Rightarrow> message_key list \<Rightarrow>
    message_key list \<Rightarrow> verification_summary" where
  "collected_summary V P C W p3 mis dup ext =
     \<lparr>vs_total_source = length (vi_source V), vs_total_destination = length (vi_dest V), vs_metadata_matches = length P,
      vs_rfc_message_id_matches = length P, vs_probable_matches = fst p3,
      vs_synthetic_identity_matches =
        card {k \<in> fst (snd p3). identity_provenance (message_at (vi_source V) k) = Prov_SyntheticHeaderFingerprint},
      vs_missing = length mis, vs_extra = length ext, vs_duplicated = length dup, vs_changed = length (C @ W)\<rparr>"

text \<open>Of some sets that are pairwise disjoint, an element of their union is in exactly one.\<close>

lemma one_of_four:
  assumes "k \<in> A \<union> B \<union> M \<union> P" "A \<inter> B = {}" "(A \<union> B) \<inter> M = {}" "(A \<union> B \<union> M) \<inter> P = {}"
  shows "of_bool (k \<in> A) + of_bool (k \<in> P) + of_bool (k \<in> M) + of_bool (k \<in> B) = (1 :: nat)"
  using assms by (cases "k \<in> A"; cases "k \<in> B"; cases "k \<in> M"; cases "k \<in> P") auto

lemma one_of_five:
  assumes "k \<in> A \<union> B \<union> D \<union> E \<union> P" "A \<inter> B = {}" "(A \<union> B) \<inter> (D \<union> E) = {}" "D \<inter> E = {}" "(A \<union> B \<union> D \<union> E) \<inter> P = {}"
  shows "of_bool (k \<in> A) + of_bool (k \<in> P) + of_bool (k \<in> E) + of_bool (k \<in> D) + of_bool (k \<in> B) = (1 :: nat)"
  using assms by (cases "k \<in> A"; cases "k \<in> B"; cases "k \<in> D"; cases "k \<in> E"; cases "k \<in> P") auto

lemma collected_owners:
  assumes "collected V P C W p3 mis dup ext"
  shows "list_all (\<lambda>k. length (owners_of (source_partition (collected_membership P C W p3 mis dup ext)) k) = 1) (source_keys V)"
    "list_all (\<lambda>k. length (owners_of (destination_partition (collected_membership P C W p3 mis dup ext)) k) = 1) (dest_keys V)"
proof -
  define A B A' B' where sets: "A = fst ` set P" "B = snd ` set P" "A' = fst ` (set C \<union> set W)" "B' = snd ` (set C \<union> set W)"
  have fs: "set (map fst (P @ C @ W)) = A \<union> A'" "set (map snd (P @ C @ W)) = B \<union> B'" by (auto simp: sets)
  have ds: "distinct (map fst P @ map fst (C @ W) @ mis)" and dd: "distinct (map snd P @ map snd (C @ W) @ dup @ ext)"
    and ps: "set (map fst (P @ C @ W) @ mis) \<inter> fst (snd p3) = {}" and pd: "set (map snd (P @ C @ W) @ dup @ ext) \<inter> snd (snd p3) = {}"
    and us: "set (map fst (P @ C @ W) @ mis) \<union> fst (snd p3) = set (source_keys V)"
    and ud: "set (map snd (P @ C @ W) @ dup @ ext) \<union> snd (snd p3) = set (dest_keys V)" using assms unfolding collected_def by simp_all
  have "A \<inter> A' = {}" "(A \<union> A') \<inter> set mis = {}" using ds unfolding distinct_append set_append set_map sets by blast+
  then show "list_all (\<lambda>k. length (owners_of (source_partition (collected_membership P C W p3 mis dup ext)) k) = 1) (source_keys V)"
    unfolding list_all_iff us [symmetric] set_append fs owners_source collected_membership_def verification_membership.simps sets [symmetric]
    using ps unfolding set_append fs by (intro ballI one_of_four) (simp_all only: Un_assoc Un_iff)
  have "B \<inter> B' = {}" "(B \<union> B') \<inter> (set dup \<union> set ext) = {}" "set dup \<inter> set ext = {}"
    using dd unfolding distinct_append set_append set_map sets by blast+
  then show "list_all (\<lambda>k. length (owners_of (destination_partition (collected_membership P C W p3 mis dup ext)) k) = 1) (dest_keys V)"
    unfolding list_all_iff ud [symmetric] set_append fs owners_destination collected_membership_def verification_membership.simps sets [symmetric]
    using pd unfolding set_append fs by (intro ballI one_of_five) (simp_all only: Un_assoc Un_iff)
qed

lemma collected_valid:
  assumes V: "verify_input_ok V" and c: "collected V P C W p3 mis dup ext"
    and m: "distinct (List.map_filter (mismatch_source_key (vi_source V)) ms)"
      "distinct (List.map_filter (mismatch_destination_key (vi_dest V)) ms)"
  shows "validate_verification_summary (vi_source V) (vi_dest V) ms (collected_summary V P C W p3 mis dup ext)
    (collected_membership P C W p3 mis dup ext) = None"
proof -
  let ?p = "collected_membership P C W p3 mis dup ext" and ?v = "collected_summary V P C W p3 mis dup ext"
  have ds: "distinct (map fst (P @ C @ W) @ mis)" and dd: "distinct (map snd (P @ C @ W) @ dup @ ext)"
    and ps: "set (map fst (P @ C @ W) @ mis) \<inter> fst (snd p3) = {}" and pd: "set (map snd (P @ C @ W) @ dup @ ext) \<inter> snd (snd p3) = {}"
    and us: "set (map fst (P @ C @ W) @ mis) \<union> fst (snd p3) = set (source_keys V)"
    and ud: "set (map snd (P @ C @ W) @ dup @ ext) \<union> snd (snd p3) = set (dest_keys V)"
    and n: "card (fst (snd p3)) = fst p3" "card (snd (snd p3)) = fst p3" using c unfolding collected_def by blast+
  have s: "check_partition ''source'' (vi_source V) (source_partition ?p) = None"
  proof (rule check_partition_None)
    show "distinct (source_keys V)" using V by (simp add: verify_input_ok_def)
    show "\<forall>k \<in> set (source_keys V). length (owners_of (source_partition ?p) k) = 1"
      using collected_owners(1) [OF c] by (simp only: list_all_iff)
    show "\<Union> (set (map snd (source_partition ?p))) = set (source_keys V)"
      unfolding us [symmetric] by (auto simp: source_partition_def collected_membership_def)
  qed
  have d: "check_partition ''destination'' (vi_dest V) (destination_partition ?p) = None"
  proof (rule check_partition_None)
    show "distinct (dest_keys V)" using V by (simp add: verify_input_ok_def)
    show "\<forall>k \<in> set (dest_keys V). length (owners_of (destination_partition ?p) k) = 1"
      using collected_owners(2) [OF c] by (simp only: list_all_iff)
    show "\<Union> (set (map snd (destination_partition ?p))) = set (dest_keys V)"
      unfolding ud [symmetric] by (auto simp: destination_partition_def collected_membership_def)
  qed
  have r: "repeated_mismatch (vi_source V) (vi_dest V) ms {} {} = None"
    by (rule repeated_mismatch_None) (simp_all add: m)
  have l: "card (f ` set xs) = length xs" if "distinct (map f xs)" for f and xs :: "(message_key \<times> message_key) list"
    using distinct_card [OF that] by simp
  have "card (fst ` set P) = length P" "card (snd ` set P) = length P" "card (fst ` set (C @ W)) = length (C @ W)"
    "card (snd ` set (C @ W)) = length (C @ W)" by (rule l; use ds dd in auto)+
  moreover have "card (set mis) = length mis" "card (set dup) = length dup" "card (set ext) = length ext"
    by (rule distinct_card; use ds dd in simp)+
  ultimately have "find (\<lambda>(name, reported, derived). reported \<noteq> derived) (counter_table (vi_source V) (vi_dest V) ?v ?p) = None"
    by (simp add: counter_table_def collected_summary_def collected_membership_def n)
  then show ?thesis by (simp add: validate_verification_summary_def s d r)
qed

lemma summarize_collected:
  assumes V: "verify_input_ok V" and c: "collected V P C W p3 mis dup ext"
    and p1: "ps_mismatches p1 = map (pair_mismatch V Mismatch_MessageIdOnly) C" "ps_pairs p1 = P"
      "ps_source p1 = fst ` set (P @ C)" "ps_dest p1 = snd ` set (P @ C)"
  shows "summarize V p1 p3 (collected_mismatches V C W mis dup ext) =
    Inr \<lparr>rc_mismatches = collected_mismatches V C W mis dup ext, rc_summary = collected_summary V P C W p3 mis dup ext,
      rc_membership = collected_membership P C W p3 mis dup ext, rc_clean_pairs = P\<rparr>"
proof -
  note k = collected_keys [OF c]
  have ds: "distinct (map fst (P @ C @ W))" and dd: "distinct (map snd (P @ C @ W))" using c unfolding collected_def by auto
  have m: "fst ` set (P @ C) - fst ` set (C @ W) = fst ` set P" "snd ` set (P @ C) - snd ` set (C @ W) = snd ` set P"
    using ds dd by auto
  have "distinct (map fst (P @ C))" using ds by auto
  from distinct_card [OF this] have "card (fst ` set (P @ C)) = length (P @ C)" by (simp only: set_map length_map)
  then have n: "card (ps_source p1) - length (ps_mismatches p1) = length P" by (simp add: p1)
  have cs: "keys_of (mismatch_source_key (vi_source V)) (map (pair_mismatch V Mismatch_MessageIdOnly) C @ map (pair_mismatch V Mismatch_PresentWrongFolder) W) = fst ` set (C @ W)"
    "keys_of (mismatch_destination_key (vi_dest V)) (map (pair_mismatch V Mismatch_MessageIdOnly) C @ map (pair_mismatch V Mismatch_PresentWrongFolder) W) = snd ` set (C @ W)"
    unfolding keys_of_append by (simp_all only: keys_of_pairs(1) [OF k(4)] keys_of_pairs(1) [OF k(5)] keys_of_pairs(2) [OF k(8)] keys_of_pairs(2) [OF k(9)]) auto
  have "distinct (map fst (C @ W) @ mis)" "distinct (map snd (C @ W) @ dup @ ext)" using c unfolding collected_def by auto
  note v = collected_valid [OF V c this [folded k(1,2)]]
  show ?thesis
    unfolding summarize_def Let_def of_type_collected cs n
    unfolding keys_of_pairs(3) [OF k(6)] keys_of_pairs(4) [OF k(10)] keys_of_pairs(4) [OF k(11)] p1(3,4) m
    using v unfolding collected_summary_def collected_membership_def by (simp add: p1(2))
qed

section \<open>The whole reconciliation\<close>

lemma without_simps [simp]:
  "set (without K ks) = set ks - K" "distinct ks \<Longrightarrow> distinct (without K ks)"
  by (auto simp: without_def)

lemma collectedI:
  assumes pc: "distinct (map fst (P @ C))" "distinct (map snd (P @ C))" "fst ` set (P @ C) \<subseteq> set (source_keys V)" "snd ` set (P @ C) \<subseteq> set (dest_keys V)"
    and w: "distinct (map fst W)" "distinct (map snd W)" "fst ` set W \<subseteq> set (source_keys V) - fst ` set (P @ C)" "snd ` set W \<subseteq> set (dest_keys V) - snd ` set (P @ C)"
    and p: "ps \<subseteq> set (source_keys V) - fst ` set (P @ C) - fst ` set W" "pd \<subseteq> set (dest_keys V) - snd ` set (P @ C) - snd ` set W"
      "card ps = n" "card pd = n"
    and m: "distinct mis" "set mis = set (source_keys V) - fst ` set (P @ C) - fst ` set W - ps"
    and d: "distinct dup" "set dup \<subseteq> set (dest_keys V) - snd ` set (P @ C) - snd ` set W - pd"
    and e: "distinct ext" "set ext = set (dest_keys V) - snd ` set (P @ C) - snd ` set W - pd - set dup"
  shows "collected V P C W (n, ps, pd) mis dup ext"
  unfolding collected_def fst_conv snd_conv
proof (intro conjI)
  define A B A' B' where sets: "A = fst ` set (P @ C)" "B = snd ` set (P @ C)" "A' = fst ` set W" "B' = snd ` set W"
  note pc' = pc [folded sets] and w' = w [folded sets] and p' = p [folded sets] and m' = m [folded sets]
    and d' = d [folded sets] and e' = e [folded sets]
  have fs: "set (map fst (P @ C @ W)) = A \<union> A'" "set (map snd (P @ C @ W)) = B \<union> B'" by (auto simp: sets)
  have s2: "set (map fst (P @ C)) = A" "set (map fst W) = A'" "set (map snd (P @ C)) = B" "set (map snd W) = B'" by (simp_all only: sets set_map)
  have ap: "map fst (P @ C @ W) = map fst (P @ C) @ map fst W" "map snd (P @ C @ W) = map snd (P @ C) @ map snd W" by simp_all
  have 1: "distinct (map fst (P @ C @ W))" unfolding ap distinct_append s2 using pc'(1) w'(1,3) by blast
  have 2: "(A \<union> A') \<inter> set mis = {}" unfolding m'(2) by blast
  show "distinct (map fst (P @ C @ W) @ mis)" using 1 2 m(1) by (simp only: distinct_append fs simp_thms)
  have 3: "distinct (map snd (P @ C @ W))" unfolding ap distinct_append s2 using pc'(2) w'(2,4) by blast
  have 4: "set dup \<inter> set ext = {}" unfolding e'(2) by blast
  have 5: "(B \<union> B') \<inter> (set dup \<union> set ext) = {}" unfolding e'(2) using d'(2) by blast
  show "distinct (map snd (P @ C @ W) @ dup @ ext)" using 3 4 5 d(1) e(1) by (simp only: distinct_append fs set_append simp_thms)
  show "set (map fst (P @ C @ W) @ mis) \<inter> ps = {}" unfolding set_append fs m'(2) using p'(1) by blast
  show "set (map snd (P @ C @ W) @ dup @ ext) \<inter> pd = {}" unfolding set_append fs e'(2) using p'(2) d'(2) by blast
  show "set (map fst (P @ C @ W) @ mis) \<union> ps = set (source_keys V)" unfolding set_append fs m'(2) using p'(1) pc'(3) w'(3) by blast
  show "set (map snd (P @ C @ W) @ dup @ ext) \<union> pd = set (dest_keys V)" unfolding set_append fs e'(2) using p'(2) pc'(4) w'(4) d'(2) by blast
qed (use p in simp_all)

text \<open>The result of a reconciliation: an exhausted budget, or the summary of everything that was collected.\<close>

definition collected_result :: "verify_input \<Rightarrow> (message_key \<times> message_key) list \<Rightarrow> (message_key \<times> message_key) list \<Rightarrow>
    (message_key \<times> message_key) list \<Rightarrow> nat \<times> message_key set \<times> message_key set \<Rightarrow> message_key list \<Rightarrow> message_key list \<Rightarrow>
    message_key list \<Rightarrow> reconciliation" where
  "collected_result V P C W p3 mis dup ext =
     \<lparr>rc_mismatches = collected_mismatches V C W mis dup ext, rc_summary = collected_summary V P C W p3 mis dup ext,
      rc_membership = collected_membership P C W p3 mis dup ext, rc_clean_pairs = P\<rparr>"

lemma reconcile_rest_cases:
  assumes V: "verify_input_ok V" and c: "pass_ok V Mismatch_MessageIdOnly p1 C"
    and sub: "ps_source p1 \<subseteq> set (source_keys V)" "ps_dest p1 \<subseteq> set (dest_keys V)"
  shows "reconcile_rest V p1 b (without (ps_source p1) (source_keys V)) (without (ps_dest p1) (dest_keys V)) = Inl (Budget_Exceeded DETAIL_BUDGET) \<or>
    (\<exists>W p3 mis dup ext. collected V (ps_pairs p1) C W p3 mis dup ext \<and>
       reconcile_rest V p1 b (without (ps_source p1) (source_keys V)) (without (ps_dest p1) (dest_keys V)) =
         Inr (collected_result V (ps_pairs p1) C W p3 mis dup ext))"
proof -
  let ?us1 = "without (ps_source p1) (source_keys V)" and ?ud1 = "without (ps_dest p1) (dest_keys V)"
  have dV: "distinct (source_keys V)" "distinct (dest_keys V)" using V by (simp_all add: verify_input_ok_def)
  show ?thesis
  proof (cases "pass_2_wrong_folder_detection V ?us1 ?ud1")
    case (Inl e)
    then show ?thesis using pass_2_Inl [OF Inl] by (simp add: reconcile_rest_def)
  next
    case p2: (Inr p2)
    obtain W where w: "pass_ok V Mismatch_PresentWrongFolder p2 W" "ps_pairs p2 = []"
      and w2: "ps_source p2 \<subseteq> set ?us1" "ps_dest p2 \<subseteq> set ?ud1" using pass_2_ok [OF V p2] by blast
    define us2 where "us2 = without (ps_source p2) ?us1"
    define ud2 where "ud2 = without (ps_dest p2) ?ud1"
    obtain n ps pd where p3: "pass_3_fingerprint_fallback V us2 ud2 = (n, ps, pd)" by (cases "pass_3_fingerprint_fallback V us2 ud2")
    let ?acc = "(ps_mismatches p1 @ ps_mismatches p2, saturating_add_u64 b (mismatch_bytes (ps_mismatches p2)))"
    let ?rest = "report_rest V (without ps us2) (without pd ud2) ?acc"
    have eq: "reconcile_rest V p1 b ?us1 ?ud1 =
      (if snd ?acc > MAX_ESTIMATED_MISMATCH_DETAIL_BYTES then Inl (Budget_Exceeded DETAIL_BUDGET)
       else case ?rest of Inl e \<Rightarrow> Inl e | Inr (ms, _) \<Rightarrow> summarize V p1 (n, ps, pd) ms)"
      unfolding reconcile_rest_def p2 sum.case Let_def us2_def [symmetric] ud2_def [symmetric] p3 fst_conv snd_conv by (rule refl)
    define mis where "mis = sort (without ps us2)"
    define dup where "dup = duplicate_dest_uids V (without pd ud2)"
    define ext where "ext = sort (filter (\<lambda>k. k \<notin> set dup) (without pd ud2))"
    have p1f: "ps_source p1 = fst ` set (ps_pairs p1 @ C)" "ps_dest p1 = snd ` set (ps_pairs p1 @ C)"
      "ps_mismatches p1 = map (pair_mismatch V Mismatch_MessageIdOnly) C"
      "distinct (map fst (ps_pairs p1 @ C))" "distinct (map snd (ps_pairs p1 @ C))" using c unfolding pass_ok_def by blast+
    have p2f: "ps_source p2 = fst ` set W" "ps_dest p2 = snd ` set W" "distinct (map fst W)" "distinct (map snd W)"
      "ps_mismatches p2 = map (pair_mismatch V Mismatch_PresentWrongFolder) W" using w unfolding pass_ok_def by auto
    have su: "set us2 = set (source_keys V) - fst ` set (ps_pairs p1 @ C) - fst ` set W"
      "set ud2 = set (dest_keys V) - snd ` set (ps_pairs p1 @ C) - snd ` set W"
      by (simp_all only: us2_def ud2_def without_simps(1) p1f(1,2) p2f(1,2))
    have du: "distinct us2" "distinct ud2" using dV by (simp_all add: us2_def ud2_def)
    note q = pass_3_ok [OF p3]
    have col: "collected V (ps_pairs p1) C W (n, ps, pd) mis dup ext"
    proof (rule collectedI [OF p1f(4,5)])
      show "fst ` set (ps_pairs p1 @ C) \<subseteq> set (source_keys V)" "snd ` set (ps_pairs p1 @ C) \<subseteq> set (dest_keys V)"
        using sub unfolding p1f(1,2) by blast+
      show "fst ` set W \<subseteq> set (source_keys V) - fst ` set (ps_pairs p1 @ C)" "snd ` set W \<subseteq> set (dest_keys V) - snd ` set (ps_pairs p1 @ C)"
        using w2 unfolding p2f(1,2) without_simps(1) p1f(1,2) by blast+
      show "ps \<subseteq> set (source_keys V) - fst ` set (ps_pairs p1 @ C) - fst ` set W" "pd \<subseteq> set (dest_keys V) - snd ` set (ps_pairs p1 @ C) - snd ` set W"
        using q(1,2) unfolding su by blast+
      show "set mis = set (source_keys V) - fst ` set (ps_pairs p1 @ C) - fst ` set W - ps" by (simp only: mis_def set_sort without_simps(1) su)
      show "set dup \<subseteq> set (dest_keys V) - snd ` set (ps_pairs p1 @ C) - snd ` set W - pd"
        using duplicate_uids(1) [OF V, of "without pd ud2"] unfolding dup_def without_simps(1) su .
      show "set ext = set (dest_keys V) - snd ` set (ps_pairs p1 @ C) - snd ` set W - pd - set dup"
        unfolding ext_def set_sort set_filter without_simps(1) su by blast
      show "distinct mis" "distinct dup" "distinct ext"
        using du duplicate_uids(2) [OF V] by (simp_all add: mis_def dup_def ext_def)
    qed (use p2f q in simp_all)
    show ?thesis
    proof (cases ?rest)
      case (Inl e)
      then show ?thesis using report_rest_Inl [OF Inl] eq by simp
    next
      case (Inr acc)
      have "fst acc = collected_mismatches V C W mis dup ext"
        using report_rest_ok [OF Inr] by (simp add: collected_mismatches_def mis_def dup_def ext_def p1f(3) p2f(5))
      moreover have "summarize V p1 (n, ps, pd) (collected_mismatches V C W mis dup ext) =
          Inr (collected_result V (ps_pairs p1) C W (n, ps, pd) mis dup ext)"
        unfolding collected_result_def by (rule summarize_collected [OF V col p1f(3) refl p1f(1,2)])
      ultimately have "reconcile_rest V p1 b ?us1 ?ud1 = Inl (Budget_Exceeded DETAIL_BUDGET) \<or>
          reconcile_rest V p1 b ?us1 ?ud1 = Inr (collected_result V (ps_pairs p1) C W (n, ps, pd) mis dup ext)"
        unfolding eq Inr by (simp add: case_prod_beta)
      then show ?thesis using col by blast
    qed
  qed
qed

lemma reconcile_cases:
  assumes V: "verify_input_ok V"
  obtains (budget) e where "reconcile_metadata V = Inl e" "e \<in> {Budget_Exceeded STATE_BUDGET, Budget_Exceeded DETAIL_BUDGET}"
  | (finished) p1 C W p3 mis dup ext where "pass_1_message_id_exact_metadata V = Inr p1"
      "pass_ok V Mismatch_MessageIdOnly p1 C"
      "collected V (ps_pairs p1) C W p3 mis dup ext" "list_all (clean_pair V) (ps_pairs p1)"
      "reconcile_metadata V = Inr (collected_result V (ps_pairs p1) C W p3 mis dup ext)"
proof (cases "estimated_verifier_state_bytes (vi_source V) (vi_dest V) > MAX_ESTIMATED_VERIFIER_STATE_BYTES")
  case True
  then have "reconcile_metadata V = Inl (Budget_Exceeded STATE_BUDGET)" by (simp add: reconcile_metadata_def)
  then show thesis by (rule budget) simp
next
  case room: False
  show thesis
  proof (cases "pass_1_message_id_exact_metadata V")
    case (Inl e)
    then have "reconcile_metadata V = Inl e" using room by (simp add: reconcile_metadata_def)
    then show thesis by (rule budget) (simp add: pass_1_Inl [OF Inl])
  next
    case p1: (Inr p1)
    obtain C where c: "pass_ok V Mismatch_MessageIdOnly p1 C" and cl: "list_all (clean_pair V) (ps_pairs p1)"
      and sub: "ps_source p1 \<subseteq> set (source_keys V)" "ps_dest p1 \<subseteq> set (dest_keys V)" using pass_1_ok [OF V p1] by blast
    show thesis
    proof (cases "mismatch_bytes (ps_mismatches p1) > MAX_ESTIMATED_MISMATCH_DETAIL_BYTES")
      case True
      then have "reconcile_metadata V = Inl (Budget_Exceeded DETAIL_BUDGET)" using room p1 by (simp add: reconcile_metadata_def)
      then show thesis by (rule budget) simp
    next
      case False
      then have eq: "reconcile_metadata V = reconcile_rest V p1 (mismatch_bytes (ps_mismatches p1))
          (without (ps_source p1) (source_keys V)) (without (ps_dest p1) (dest_keys V))"
        using room p1 by (simp add: reconcile_metadata_def)
      from reconcile_rest_cases [OF V c sub, of "mismatch_bytes (ps_mismatches p1)", folded eq] show thesis
      proof (elim disjE exE conjE)
        assume "reconcile_metadata V = Inl (Budget_Exceeded DETAIL_BUDGET)"
        then show thesis by (rule budget) simp
      qed (rule finished [OF p1 c _ cl])
    qed
  qed
qed

end
