(* ===== verification/Reconciliation_Exact.thy ===== *)
theory Reconciliation_Exact
  imports Reconciliation_Accounting "HOL-Library.Multiset"
begin

text \<open>
  What the outcome of a reconciliation means: the accounting theorem, and the equivalence of the exact outcome
  with the equality of the two mailboxes as multisets of identified messages.
\<close>

section \<open>The reference\<close>

text \<open>A message as the reference sees it: its Message-ID, and its folder, date and size on the destination side.\<close>

definition source_label :: "verify_input \<Rightarrow> message_key \<Rightarrow> str option \<times> (str \<times> fingerprint) option" where
  "source_label V k = (source_id V k, source_bucket V k)"

definition dest_label :: "verify_input \<Rightarrow> message_key \<Rightarrow> str option \<times> (str \<times> fingerprint) option" where
  "dest_label V k = (dest_id V k, dest_bucket V k)"

definition identified :: "str option \<times> (str \<times> fingerprint) option \<Rightarrow> bool" where
  "identified l \<longleftrightarrow> fst l \<noteq> None \<and> snd l \<noteq> None"

section \<open>A faithful copy is matched in the first pass\<close>

lemma match_exact_all:
  assumes "mset (map (source_bucket V) ss) \<subseteq># mset (map (dest_bucket V) ds)" "\<forall>s \<in> set ss. source_bucket V s \<noteq> None"
  shows "ps_mismatches (match_exact V ss ds st) = ps_mismatches st \<and> set ss \<union> ps_source st \<subseteq> ps_source (match_exact V ss ds st)"
  using assms
proof (induction ss arbitrary: ds st)
  case (Cons s ss)
  obtain fp where fp: "source_fp V s = Some fp" using Cons.prems(2) by (auto simp: source_bucket_def)
  let ?P = "\<lambda>d. mk_mailbox d = expected_destination_folder V s \<and> dest_fp V d = Some fp"
  have bucket: "dest_bucket V d = source_bucket V s \<longleftrightarrow> ?P d" for d
    using fp by (cases fp) (auto simp: source_bucket_def dest_bucket_def)
  have "source_bucket V s \<in># mset (map (source_bucket V) (s # ss))" by simp
  from mset_subset_eqD [OF Cons.prems(1) this] have "source_bucket V s \<in> dest_bucket V ` set ds" by simp
  then have "\<exists>d \<in> set ds. ?P d" using bucket by (metis (no_types, lifting) image_iff)
  then obtain d where d: "find ?P ds = Some d" using find_None_iff [of ?P ds] by (cases "find ?P ds") auto
  have in_ds: "d \<in> set ds" "dest_bucket V d = source_bucket V s" using find_SomeD [OF d] bucket [of d] by simp_all
  let ?st = "st\<lparr>ps_source := insert s (ps_source st), ps_dest := insert d (ps_dest st), ps_pairs := ps_pairs st @ [(s, d)]\<rparr>"
  have "mset ds = add_mset d (mset (remove1 d ds))" using in_ds(1) by simp
  then have "mset (map (dest_bucket V) ds) = add_mset (source_bucket V s) (mset (map (dest_bucket V) (remove1 d ds)))"
    using in_ds(2) by (metis image_mset_add_mset mset_map)
  then have "mset (map (source_bucket V) ss) \<subseteq># mset (map (dest_bucket V) (remove1 d ds))" using Cons.prems(1) by simp
  then have "ps_mismatches (match_exact V ss (remove1 d ds) ?st) = ps_mismatches ?st \<and>
      set ss \<union> ps_source ?st \<subseteq> ps_source (match_exact V ss (remove1 d ds) ?st)"
    by (rule Cons.IH) (use Cons.prems(2) in simp)
  then show ?case using fp d by simp
qed simp

lemma match_changed_id: "set ss \<subseteq> ps_source st \<Longrightarrow> match_changed V ss ds st = Inr st"
  by (induction ss) auto

lemma over_ids_copy:
  assumes "\<And>i. i \<in> set ids \<Longrightarrow> mset (map (source_bucket V) (source_group V i)) \<subseteq># mset (map (dest_bucket V) (dest_group V i))"
    "\<And>i. i \<in> set ids \<Longrightarrow> \<forall>s \<in> set (source_group V i). source_bucket V s \<noteq> None"
  shows "\<exists>st'. over_ids (\<lambda>i. pass_1_group V (source_group V i) (dest_group V i)) ids st = Inr st' \<and>
    ps_mismatches st' = ps_mismatches st \<and> ps_source st \<union> (\<Union>i \<in> set ids. set (source_group V i)) \<subseteq> ps_source st'"
  using assms
proof (induction ids arbitrary: st)
  case (Cons i ids)
  let ?st = "match_exact V (source_group V i) (dest_group V i) st"
  have m: "ps_mismatches ?st = ps_mismatches st" "set (source_group V i) \<union> ps_source st \<subseteq> ps_source ?st"
    using match_exact_all [of V "source_group V i" "dest_group V i" st] Cons.prems [of i] by simp_all
  then have "pass_1_group V (source_group V i) (dest_group V i) st = Inr ?st"
    by (simp add: pass_1_group_def Let_def match_changed_id)
  moreover obtain st' where "over_ids (\<lambda>i. pass_1_group V (source_group V i) (dest_group V i)) ids ?st = Inr st'"
    "ps_mismatches st' = ps_mismatches ?st" "ps_source ?st \<union> (\<Union>i \<in> set ids. set (source_group V i)) \<subseteq> ps_source st'"
    using Cons.IH [of ?st, OF Cons.prems(1) [OF list.set_intros(2)] Cons.prems(2) [OF list.set_intros(2)]] by blast
  ultimately show ?case using m by (intro exI [of _ st']) auto
qed simp

lemma mset_uids_at:
  assumes "distinct (map fst M)"
  shows "mset (uids_at (index_by_message_id M) i) = filter_mset (\<lambda>k. rfc_message_id (message_at M k) = Some i) (mset (map fst M))"
proof -
  have "filter (\<lambda>k. rfc_message_id (message_at M k) = Some i) (map fst M) = map fst (filter (\<lambda>(k, m). rfc_message_id m = Some i) M)"
    unfolding filter_map using assms by (auto simp: message_at_def intro!: arg_cong [of _ _ "map fst"] filter_cong)
  from arg_cong [OF this, of mset] show ?thesis by (simp add: uids_at_index)
qed

lemma labels_of_id:
  "image_mset g (filter_mset (\<lambda>k. f k = Some i) K) = image_mset snd (filter_mset (\<lambda>l. fst l = Some i) (image_mset (\<lambda>k. (f k, g k)) K))"
  by (induction K) auto

lemma group_labels:
  assumes "verify_input_ok V"
  shows "mset (map (source_bucket V) (source_group V i)) =
      image_mset snd (filter_mset (\<lambda>l. fst l = Some i) (image_mset (source_label V) (mset (source_keys V))))"
    "mset (map (dest_bucket V) (dest_group V i)) =
      image_mset snd (filter_mset (\<lambda>l. fst l = Some i) (image_mset (dest_label V) (mset (dest_keys V))))"
proof -
  have d: "distinct (source_keys V)" "distinct (dest_keys V)" using assms by (simp_all add: verify_input_ok_def)
  have sl: "source_label V = (\<lambda>k. (source_id V k, source_bucket V k))" and dl: "dest_label V = (\<lambda>k. (dest_id V k, dest_bucket V k))"
    by (simp_all add: fun_eq_iff source_label_def dest_label_def)
  show "mset (map (source_bucket V) (source_group V i)) =
      image_mset snd (filter_mset (\<lambda>l. fst l = Some i) (image_mset (source_label V) (mset (source_keys V))))"
    unfolding mset_map [of "source_bucket V"] mset_uids_at [OF d(1)] sl source_id_def by (rule labels_of_id)
  show "mset (map (dest_bucket V) (dest_group V i)) =
      image_mset snd (filter_mset (\<lambda>l. fst l = Some i) (image_mset (dest_label V) (mset (dest_keys V))))"
    unfolding mset_map [of "dest_bucket V"] mset_uids_at [OF d(2)] dl dest_id_def by (rule labels_of_id)
qed

section \<open>Exactness\<close>

lemma collected_lengths:
  assumes V: "verify_input_ok V" and c: "collected V P C W p3 mis dup ext"
  shows "length (vi_source V) = length P + fst p3 + length mis + length (C @ W)"
    "length (vi_dest V) = length P + fst p3 + length ext + length dup + length (C @ W)"
proof -
  have dis: "distinct (map fst (P @ C @ W) @ mis)" "distinct (map snd (P @ C @ W) @ dup @ ext)"
    and i: "set (map fst (P @ C @ W) @ mis) \<inter> fst (snd p3) = {}" "set (map snd (P @ C @ W) @ dup @ ext) \<inter> snd (snd p3) = {}"
    and u: "set (map fst (P @ C @ W) @ mis) \<union> fst (snd p3) = set (source_keys V)"
      "set (map snd (P @ C @ W) @ dup @ ext) \<union> snd (snd p3) = set (dest_keys V)"
    and n: "card (fst (snd p3)) = fst p3" "card (snd (snd p3)) = fst p3" using c unfolding collected_def by blast+
  have d: "length (vi_source V) = card (set (source_keys V))" "length (vi_dest V) = card (set (dest_keys V))"
    using V distinct_card by (fastforce simp: verify_input_ok_def)+
  have f: "finite (fst (snd p3))" "finite (snd (snd p3))" using u by (metis List.finite_set finite_Un)+
  have "card (set (source_keys V)) = length (map fst (P @ C @ W) @ mis) + fst p3"
    unfolding u(1) [symmetric] card_Un_disjoint [OF List.finite_set f(1) i(1)] distinct_card [OF dis(1)] n ..
  then show "length (vi_source V) = length P + fst p3 + length mis + length (C @ W)" using d(1) by simp
  have "card (set (dest_keys V)) = length (map snd (P @ C @ W) @ dup @ ext) + fst p3"
    unfolding u(2) [symmetric] card_Un_disjoint [OF List.finite_set f(2) i(2)] distinct_card [OF dis(2)] n ..
  then show "length (vi_dest V) = length P + fst p3 + length ext + length dup + length (C @ W)" using d(2) by simp
qed

lemma collected_exact:
  assumes V: "verify_input_ok V" and c: "collected V P C W p3 mis dup ext"
  shows "summary_outcome (collected_summary V P C W p3 mis dup ext) = Out_ExactMetadataMatch \<longleftrightarrow>
    length P = length (vi_source V) \<and> length P = length (vi_dest V)"
  using collected_lengths [OF V c] by (auto simp: summary_outcome_def collected_summary_def)

text \<open>Clean pairs that cover both sides show that the sides are equal.\<close>

lemma covered_keys:
  assumes V: "verify_input_ok V" and c: "collected V P C W p3 mis dup ext"
    and l: "length P = length (vi_source V)" "length P = length (vi_dest V)"
  shows "mset (map fst P) = mset (source_keys V)" "mset (map snd P) = mset (dest_keys V)"
proof -
  have dis: "distinct (map fst P)" "distinct (map snd P)" using c unfolding collected_def by auto
  have sub: "set (map fst P) \<subseteq> set (source_keys V)" "set (map snd P) \<subseteq> set (dest_keys V)" using collected_keys(3,7) [OF c] by simp_all
  have dV: "distinct (source_keys V)" "distinct (dest_keys V)" using V by (simp_all add: verify_input_ok_def)
  have "set (map fst P) = set (source_keys V)"
    by (rule card_subset_eq [OF List.finite_set sub(1)]) (simp only: distinct_card [OF dis(1)] distinct_card [OF dV(1)] length_map l(1))
  then show "mset (map fst P) = mset (source_keys V)" using set_eq_iff_mset_eq_distinct [OF dis(1) dV(1)] by blast
  have "set (map snd P) = set (dest_keys V)"
    by (rule card_subset_eq [OF List.finite_set sub(2)]) (simp only: distinct_card [OF dis(2)] distinct_card [OF dV(2)] length_map l(2))
  then show "mset (map snd P) = mset (dest_keys V)" using set_eq_iff_mset_eq_distinct [OF dis(2) dV(2)] by blast
qed

lemma clean_cover:
  assumes V: "verify_input_ok V" and c: "collected V P C W p3 mis dup ext" and cl: "list_all (clean_pair V) P"
    and l: "length P = length (vi_source V)" "length P = length (vi_dest V)"
  shows "image_mset (source_label V) (mset (source_keys V)) = image_mset (dest_label V) (mset (dest_keys V))"
    "list_all (\<lambda>k. identified (source_label V k)) (source_keys V)"
proof -
  note m = covered_keys [OF V c l]
  have "map (source_label V) (map fst P) = map (dest_label V) (map snd P)"
    using cl by (auto simp: list_all_iff clean_pair_def source_label_def dest_label_def)
  from arg_cong [OF this, of mset] show "image_mset (source_label V) (mset (source_keys V)) = image_mset (dest_label V) (mset (dest_keys V))"
    unfolding mset_map [of "source_label V"] mset_map [of "dest_label V"] m .
  have "list_all (\<lambda>k. identified (source_label V k)) (map fst P)"
    using cl by (auto simp: list_all_iff clean_pair_def source_label_def identified_def)
  then show "list_all (\<lambda>k. identified (source_label V k)) (source_keys V)" unfolding list_all_iff mset_eq_setD [OF m(1)] .
qed

text \<open>Equal sides are covered by the clean pairs of the first pass.\<close>

lemma copy_matches:
  assumes V: "verify_input_ok V" and p1: "pass_1_message_id_exact_metadata V = Inr p1"
    and eq: "image_mset (source_label V) (mset (source_keys V)) = image_mset (dest_label V) (mset (dest_keys V))"
    and idf: "list_all (\<lambda>k. identified (source_label V k)) (source_keys V)"
  shows "ps_mismatches p1 = [] \<and> set (source_keys V) \<subseteq> ps_source p1"
proof -
  let ?six = "index_by_message_id (vi_source V)" and ?dix = "index_by_message_id (vi_dest V)"
  have sub: "mset (map (source_bucket V) (source_group V i)) \<subseteq># mset (map (dest_bucket V) (dest_group V i))" for i
    unfolding group_labels [OF V] eq by (rule subset_mset.order_refl)
  have some: "\<forall>s \<in> set (source_group V i). source_bucket V s \<noteq> None" for i
    using idf groups(1) [OF V, of i] by (auto simp: list_all_iff identified_def source_label_def)
  have "over_ids (\<lambda>i. pass_1_group V (source_group V i) (dest_group V i)) (shared_ids ?six ?dix) empty_pass = Inr p1"
    using p1 by (simp add: pass_1_message_id_exact_metadata_def Let_def)
  then have m: "ps_mismatches p1 = []" and c: "(\<Union>i \<in> set (shared_ids ?six ?dix). set (source_group V i)) \<subseteq> ps_source p1"
    using over_ids_copy [of "shared_ids ?six ?dix" V empty_pass, OF sub some] by (auto simp: empty_pass_def)
  have "set (source_keys V) \<subseteq> (\<Union>i \<in> set (shared_ids ?six ?dix). set (source_group V i))"
  proof
    fix k assume k: "k \<in> set (source_keys V)"
    obtain i where i: "source_id V k = Some i" using idf k by (auto simp: list_all_iff identified_def source_label_def)
    have ks: "k \<in> set (source_group V i)" using k i groups(1) [OF V] by simp
    have "source_bucket V k \<in># mset (map (source_bucket V) (source_group V i))" using ks by simp
    from mset_subset_eqD [OF sub this] have "dest_group V i \<noteq> []" by auto
    moreover have "source_group V i \<noteq> []" using ks by auto
    ultimately have "i \<in> set (shared_ids ?six ?dix)"
      by (auto simp: shared_ids_def uids_at_def split: option.splits dest: map_of_SomeD intro: rev_image_eqI)
    then show "k \<in> (\<Union>i \<in> set (shared_ids ?six ?dix). set (source_group V i))" using ks by blast
  qed
  then show ?thesis using m c by blast
qed

lemma copy_is_exact:
  assumes V: "verify_input_ok V" and p1: "pass_1_message_id_exact_metadata V = Inr p1" and ok: "pass_ok V Mismatch_MessageIdOnly p1 C"
    and c: "collected V (ps_pairs p1) C W p3 mis dup ext"
    and eq: "image_mset (source_label V) (mset (source_keys V)) = image_mset (dest_label V) (mset (dest_keys V))"
    and idf: "list_all (\<lambda>k. identified (source_label V k)) (source_keys V)"
  shows "length (ps_pairs p1) = length (vi_source V) \<and> length (ps_pairs p1) = length (vi_dest V)"
proof -
  have m: "ps_mismatches p1 = []" "set (source_keys V) \<subseteq> ps_source p1" using copy_matches [OF V p1 eq idf] by simp_all
  then have "C = []" using ok by (simp add: pass_ok_def)
  then have s: "ps_source p1 = set (map fst (ps_pairs p1))" "distinct (map fst (ps_pairs p1))" using ok by (simp_all add: pass_ok_def)
  have "set (map fst (ps_pairs p1)) = set (source_keys V)" using m(2) s(1) collected_keys(3) [OF c] by auto
  then have "length (map fst (ps_pairs p1)) = card (set (source_keys V))" using distinct_card [OF s(2)] by simp
  moreover have "card (set (source_keys V)) = length (vi_source V)" using distinct_card [of "source_keys V"] V by (simp add: verify_input_ok_def)
  moreover have "length (vi_source V) = length (vi_dest V)" using arg_cong [OF eq, of size] by simp
  ultimately show ?thesis by simp
qed

section \<open>Properties\<close>

text \<open>A mailbox of two messages that is copied under another folder name, for the witnesses.\<close>

definition demo_message :: "str \<Rightarrow> nat \<Rightarrow> extracted_message" where
  "demo_message i n = \<lparr>em_message_id = Some i, em_uid = None, em_size = Some n, em_date = Some ''d'', em_flags = None\<rparr>"

definition demo_mailboxes :: "nat \<Rightarrow> verify_input" where
  "demo_mailboxes n =
     \<lparr>vi_job = ''j'', vi_run = ''r'',
      vi_source = [(Message_Key ''Sent'' (Some 1) ''1'', demo_message ''a'' 5), (Message_Key ''Sent'' (Some 1) ''2'', demo_message ''b'' 7)],
      vi_dest = [(Message_Key ''Out'' (Some 9) ''4'', demo_message ''b'' n), (Message_Key ''Out'' (Some 9) ''3'', demo_message ''a'' 5)],
      vi_mapping = (\<lambda>f. if f = ''Sent'' then Some ''Out'' else None), vi_parse_date = (\<lambda>d. None), vi_uuid = (\<lambda>_ _ _. ''u'')\<rparr>"

text \<open>
  C14: a reconciliation of two mailboxes either stops at one of its two memory budgets or accounts for every
  message: its own accounting check never fails, every source and destination message is in exactly one class,
  and the counters of the classes add up to the sizes of the mailboxes.
\<close>

theorem reconciliation_accounts_for_every_message:
  assumes "distinct (map fst (vi_source V))" "distinct (map fst (vi_dest V))"
  shows "case reconcile_metadata V of
      Inl e \<Rightarrow> e = Budget_Exceeded STATE_BUDGET \<or> e = Budget_Exceeded DETAIL_BUDGET
    | Inr r \<Rightarrow>
        list_all (\<lambda>k. length (owners_of (source_partition (rc_membership r)) k) = 1) (map fst (vi_source V)) \<and>
        list_all (\<lambda>k. length (owners_of (destination_partition (rc_membership r)) k) = 1) (map fst (vi_dest V)) \<and>
        length (vi_source V) = vs_metadata_matches (rc_summary r) + vs_probable_matches (rc_summary r) +
          vs_missing (rc_summary r) + vs_changed (rc_summary r) \<and>
        length (vi_dest V) = vs_metadata_matches (rc_summary r) + vs_probable_matches (rc_summary r) +
          vs_extra (rc_summary r) + vs_duplicated (rc_summary r) + vs_changed (rc_summary r)"
proof -
  have V: "verify_input_ok V" using assms by (simp add: verify_input_ok_def)
  from V show ?thesis
  proof (cases rule: reconcile_cases)
    case (finished p1 C W p3 mis dup ext)
    then show ?thesis
      using collected_lengths [OF V finished(3)] collected_owners [OF finished(3)]
      by (simp add: collected_result_def collected_summary_def)
  qed auto
qed

theorem reconciliation_accounts_for_every_message_witness:
  "case reconcile_metadata (demo_mailboxes 6) of
      Inl e \<Rightarrow> False
    | Inr r \<Rightarrow> vs_metadata_matches (rc_summary r) + vs_probable_matches (rc_summary r) + vs_missing (rc_summary r) +
        vs_changed (rc_summary r) = 2"
proof -
  have k: "distinct (map fst (vi_source (demo_mailboxes 6)))" "distinct (map fst (vi_dest (demo_mailboxes 6)))"
    and n: "length (vi_source (demo_mailboxes 6)) = 2" and r: "\<not> isl (reconcile_metadata (demo_mailboxes 6))" by code_simp+
  show ?thesis using reconciliation_accounts_for_every_message [OF k] n r by (simp split: sum.splits)
qed

text \<open>
  C13: when the reconciliation finishes, its outcome is the exact metadata match if and only if the two mailboxes
  are equal as multisets of messages seen by Message-ID, expected folder, date and size, each of which every
  message has.
\<close>

theorem exact_outcome_iff_equal_mailboxes:
  assumes "distinct (map fst (vi_source V))" "distinct (map fst (vi_dest V))" and r: "reconcile_metadata V = Inr r"
  shows "summary_outcome (rc_summary r) = Out_ExactMetadataMatch \<longleftrightarrow>
    image_mset (source_label V) (mset (map fst (vi_source V))) = image_mset (dest_label V) (mset (map fst (vi_dest V))) \<and>
    list_all (\<lambda>k. identified (source_label V k)) (map fst (vi_source V))"
proof -
  have V: "verify_input_ok V" using assms by (simp add: verify_input_ok_def)
  from V show ?thesis
  proof (cases rule: reconcile_cases)
    case (finished p1 C W p3 mis dup ext)
    have "rc_summary r = collected_summary V (ps_pairs p1) C W p3 mis dup ext" using r finished(5) by (auto simp: collected_result_def)
    then show ?thesis
      using collected_exact [OF V finished(3)] clean_cover(1,2) [OF V finished(3,4)] copy_is_exact [OF V finished(1-3)] by metis
  qed (use r in auto)
qed

theorem exact_outcome_iff_equal_mailboxes_witness:
  "\<exists>r. reconcile_metadata (demo_mailboxes 7) = Inr r \<and> summary_outcome (rc_summary r) = Out_ExactMetadataMatch"
proof -
  have "\<not> isl (reconcile_metadata (demo_mailboxes 7))" by code_simp
  then obtain r where r: "reconcile_metadata (demo_mailboxes 7) = Inr r" by (cases "reconcile_metadata (demo_mailboxes 7)") auto
  have k: "distinct (map fst (vi_source (demo_mailboxes 7)))" "distinct (map fst (vi_dest (demo_mailboxes 7)))"
    and l: "list_all (\<lambda>k. identified (source_label (demo_mailboxes 7) k)) (map fst (vi_source (demo_mailboxes 7)))"
      "mset (map (source_label (demo_mailboxes 7)) (map fst (vi_source (demo_mailboxes 7)))) =
        mset (map (dest_label (demo_mailboxes 7)) (map fst (vi_dest (demo_mailboxes 7))))" by code_simp+
  show ?thesis using exact_outcome_iff_equal_mailboxes [OF k r] l r by (simp only: mset_map) blast
qed

end
