(* ===== verification/Content_Verification.thy ===== *)
theory Content_Verification
  imports Reconciliation_Exact
begin

text \<open>
  The verification of message contents: \<^verbatim>\<open>core/message_verification/fingerprints.rs\<close> on top of the metadata
  reconciliation. A \<^verbatim>\<open>HashMap\<close> of fingerprints is an association list with distinct keys. The chapter ends with
  what an exact outcome shows about the bodies of the messages.
\<close>

section \<open>Operations\<close>

type_synonym fingerprints = "(message_key \<times> str) list"

definition exact_coverage :: "messages \<Rightarrow> fingerprints \<Rightarrow> bool" where
  "exact_coverage M F \<longleftrightarrow> length M = length F \<and> \<not> list_ex (\<lambda>k. map_of F k = None) (map fst M)"

fun unique_fingerprints_of ::
  "fingerprints \<Rightarrow> (str \<times> message_key) list \<Rightarrow> str set \<Rightarrow> (str \<times> message_key) list" where
  "unique_fingerprints_of [] ix dups = ix"
| "unique_fingerprints_of ((k, f) # F) ix dups =
     (if f \<in> dups then unique_fingerprints_of F ix dups
      else if map_of ix f \<noteq> None then unique_fingerprints_of F (filter (\<lambda>e. fst e \<noteq> f) ix) (insert f dups)
      else unique_fingerprints_of F ((f, k) # ix) dups)"

definition unique_fingerprint_index :: "fingerprints \<Rightarrow> (str \<times> message_key) list" where
  "unique_fingerprint_index F = unique_fingerprints_of F [] {}"

definition fingerprint_pair ::
  "verify_input \<Rightarrow> fingerprints \<Rightarrow> verification_membership \<Rightarrow> str \<times> message_key \<Rightarrow> (message_key \<times> message_key) option" where
  "fingerprint_pair V DF p = (\<lambda>(f, s).
     if s \<notin> set (map fst (vi_source V)) then None
     else case map_of (unique_fingerprint_index DF) f of
            None \<Rightarrow> None
          | Some d \<Rightarrow>
              if d \<in> set (map fst (vi_dest V)) \<and> s \<in> vm_missing_source p \<and> d \<in> vm_extra_destination p \<and>
                 expected_destination_folder V s = mk_mailbox d
              then Some (s, d) else None)"

definition fingerprint_pairs ::
  "verify_input \<Rightarrow> fingerprints \<Rightarrow> fingerprints \<Rightarrow> verification_membership \<Rightarrow> (message_key \<times> message_key) list" where
  "fingerprint_pairs V SF DF p = sort (List.map_filter (fingerprint_pair V DF p) (unique_fingerprint_index SF))"

definition retained :: "verify_input \<Rightarrow> (message_key \<times> message_key) list \<Rightarrow> message_mismatch \<Rightarrow> bool" where
  "retained V pairs m =
     (case mm_type m of
        Mismatch_Missing \<Rightarrow>
          (case mismatch_source_key (vi_source V) m of None \<Rightarrow> True | Some k \<Rightarrow> k \<notin> set (map fst pairs))
      | Mismatch_Extra \<Rightarrow>
          (case mismatch_destination_key (vi_dest V) m of None \<Rightarrow> True | Some k \<Rightarrow> k \<notin> set (map snd pairs))
      | _ \<Rightarrow> True)"

fun resolve_pair ::
  "message_key \<times> message_key \<Rightarrow> verification_summary \<times> verification_membership \<Rightarrow>
     verification_summary \<times> verification_membership" where
  "resolve_pair (s, d) (v, p) =
     (v\<lparr>vs_missing := vs_missing v - 1, vs_extra := vs_extra v - 1, vs_metadata_matches := vs_metadata_matches v + 1\<rparr>,
      p\<lparr>vm_missing_source := vm_missing_source p - {s}, vm_extra_destination := vm_extra_destination p - {d},
        vm_matched_source := insert s (vm_matched_source p), vm_matched_destination := insert d (vm_matched_destination p)\<rparr>)"

text \<open>The first step: a missing and an extra message of one unique fingerprint are a match.\<close>

definition resolve_by_fingerprint :: "verify_input \<Rightarrow> fingerprints \<Rightarrow> fingerprints \<Rightarrow> reconciliation \<Rightarrow> reconciliation" where
  "resolve_by_fingerprint V SF DF r =
     (let pairs = fingerprint_pairs V SF DF (rc_membership r) in
      if pairs = [] then r
      else let (v, p) = fold resolve_pair pairs (rc_summary r, rc_membership r) in
           r\<lparr>rc_mismatches := filter (retained V pairs) (rc_mismatches r), rc_summary := v, rc_membership := p\<rparr>)"

text \<open>The second step: the bodies of the pairs that the reconciliation found clean.\<close>

definition body_mismatch :: "verify_input \<Rightarrow> message_key \<Rightarrow> message_key \<Rightarrow> str \<Rightarrow> str \<Rightarrow> message_mismatch" where
  "body_mismatch V s d sf df =
     (make_mismatch V Mismatch_MessageIdOnly (Some s) (Some d))
       \<lparr>mm_source_fingerprint := Some sf, mm_destination_fingerprint := Some df\<rparr>"

definition reclassify_changed :: "message_key \<Rightarrow> message_key \<Rightarrow> reconciliation \<Rightarrow> reconciliation" where
  "reclassify_changed s d r =
     (let v = rc_summary r; p = rc_membership r in
      r\<lparr>rc_summary := v\<lparr>vs_metadata_matches := vs_metadata_matches v - 1, vs_changed := vs_changed v + 1\<rparr>,
        rc_membership := p\<lparr>vm_matched_source := vm_matched_source p - {s},
          vm_matched_destination := vm_matched_destination p - {d},
          vm_changed_source := insert s (vm_changed_source p),
          vm_changed_destination := insert d (vm_changed_destination p)\<rparr>\<rparr>)"

fun compare_contents ::
  "verify_input \<Rightarrow> fingerprints \<Rightarrow> fingerprints \<Rightarrow> (message_key \<times> message_key) list \<Rightarrow> nat \<Rightarrow> reconciliation \<Rightarrow>
     reconcile_error + reconciliation" where
  "compare_contents V SF DF [] bytes r = Inr r"
| "compare_contents V SF DF ((s, d) # ps) bytes r =
     (case (map_of SF s, map_of DF d) of
        (Some sf, Some df) \<Rightarrow>
          if sf = df then compare_contents V SF DF ps bytes r
          else (case append_mismatch_with_budget (body_mismatch V s d sf df) (rc_mismatches r, bytes) of
                  Inl e \<Rightarrow> Inl e
                | Inr (ms, bytes') \<Rightarrow>
                    compare_contents V SF DF ps bytes' (reclassify_changed s d (r\<lparr>rc_mismatches := ms\<rparr>)))
      | _ \<Rightarrow> Inl Fingerprint_Missing)"

definition check_contents ::
  "verify_input \<Rightarrow> fingerprints \<Rightarrow> fingerprints \<Rightarrow> reconciliation \<Rightarrow> reconcile_error + message_mismatch list \<times> verification_summary" where
  "check_contents V SF DF r =
     (let bytes = mismatch_bytes (rc_mismatches r) in
      if bytes > MAX_ESTIMATED_MISMATCH_DETAIL_BYTES then Inl (Budget_Exceeded DETAIL_BUDGET)
      else case compare_contents V SF DF (sort (rc_clean_pairs r)) bytes r of
             Inl e \<Rightarrow> Inl e
           | Inr r' \<Rightarrow>
               (case validate_verification_summary (vi_source V) (vi_dest V) (rc_mismatches r') (rc_summary r') (rc_membership r') of
                  Some e \<Rightarrow> Inl e
                | None \<Rightarrow> Inr (rc_mismatches r', rc_summary r')))"

definition detect_mismatches_with_content_fingerprints ::
  "verify_input \<Rightarrow> fingerprints \<Rightarrow> fingerprints \<Rightarrow> reconcile_error + message_mismatch list \<times> verification_summary" where
  "detect_mismatches_with_content_fingerprints V SF DF =
     (if \<not> exact_coverage (vi_source V) SF then Inl (Coverage_Missing ''source'')
      else if \<not> exact_coverage (vi_dest V) DF then Inl (Coverage_Missing ''destination'')
      else case reconcile_metadata V of
             Inl e \<Rightarrow> Inl e
           | Inr r \<Rightarrow> check_contents V SF DF (resolve_by_fingerprint V SF DF r))"

section \<open>Pairs by fingerprint\<close>

lemma unique_fingerprints_of:
  assumes "distinct (map fst ix)"
  shows "distinct (map fst (unique_fingerprints_of F ix dups)) \<and>
    set (unique_fingerprints_of F ix dups) \<subseteq> set ix \<union> (\<lambda>(k, f). (f, k)) ` set F"
  using assms
proof (induction F ix dups rule: unique_fingerprints_of.induct)
  case (2 k f F ix dups)
  have d: "distinct (map fst (filter (\<lambda>e. fst e \<noteq> f) ix))" using 2(4) by (simp add: distinct_map_filter)
  show ?case
  proof (cases "f \<in> dups \<or> map_of ix f \<noteq> None")
    case True
    then show ?thesis using 2(1) [OF _ 2(4)] 2(2) [OF _ _ d] by auto
  next
    case False
    then have "distinct (map fst ((f, k) # ix))" using 2(4) by (simp add: map_of_eq_None_iff)
    then show ?thesis using 2(3) False by auto
  qed
qed simp

lemma unique_fingerprint_index:
  assumes "distinct (map fst F)"
  shows "distinct (map fst (unique_fingerprint_index F))"
    "(f, k) \<in> set (unique_fingerprint_index F) \<Longrightarrow> map_of F k = Some f"
  using unique_fingerprints_of [of "[]" F "{}"] assms by (auto simp: unique_fingerprint_index_def)

lemma distinct_map_filter_via:
  assumes "distinct (map fst xs)" "\<And>x y. x \<in> set xs \<Longrightarrow> h x = Some y \<Longrightarrow> g (pr y) = Some (fst x)"
  shows "distinct (map pr (List.map_filter h xs))"
  using assms
proof (induction xs)
  case (Cons x xs)
  have IH: "distinct (map pr (List.map_filter h xs))" using Cons by simp
  show ?case
  proof (cases "h x")
    case (Some y)
    have "pr y \<notin> set (map pr (List.map_filter h xs))"
    proof
      assume "pr y \<in> set (map pr (List.map_filter h xs))"
      then obtain x' y' where x': "x' \<in> set xs" "h x' = Some y'" "pr y = pr y'" by (auto simp: map_filter_def)
      then have "fst x = fst x'" using Cons.prems(2) [of x y] Cons.prems(2) [of x' y'] Some by simp
      then show False using Cons.prems(1) x'(1) by (auto simp: image_iff)
    qed
    then show ?thesis using IH Some by (simp add: map_filter_simps)
  qed (use IH in \<open>simp add: map_filter_simps\<close>)
qed (simp add: map_filter_simps)

lemma fingerprint_pairs:
  fixes V p
  assumes "distinct (map fst SF)" "distinct (map fst DF)"
  defines "F \<equiv> fingerprint_pairs V SF DF p"
  shows "distinct (map fst F)" "distinct (map snd F)" "set (map fst F) \<subseteq> vm_missing_source p" "set (map snd F) \<subseteq> vm_extra_destination p"
    "list_all (\<lambda>(s, d). expected_destination_folder V s = mk_mailbox d \<and> map_of SF s = map_of DF d) F"
proof -
  let ?h = "fingerprint_pair V DF p" and ?xs = "unique_fingerprint_index SF"
  have h: "fst y = snd x \<and> fst y \<in> vm_missing_source p \<and> snd y \<in> vm_extra_destination p \<and>
      expected_destination_folder V (fst y) = mk_mailbox (snd y) \<and> map_of DF (snd y) = Some (fst x)" if "?h x = Some y" for x y
    using that unique_fingerprint_index(2) [OF assms(2)]
    by (auto simp: fingerprint_pair_def split: if_splits option.splits prod.splits dest: map_of_SomeD)
  have s: "map_of SF (fst y) = Some (fst x)" if "x \<in> set ?xs" "?h x = Some y" for x y
    using h [OF that(2)] unique_fingerprint_index(2) [OF assms(1), of "fst x" "snd x"] that(1) by simp
  note via = distinct_map_filter_via [OF unique_fingerprint_index(1) [OF assms(1)]]
  have d: "distinct (map fst (List.map_filter ?h ?xs))" "distinct (map snd (List.map_filter ?h ?xs))"
    by (rule via [where g = "map_of SF"], rule s, assumption+) (rule via [where g = "map_of DF"], simp add: h)
  show "distinct (map fst F)" "distinct (map snd F)" using d by (simp_all add: F_def fingerprint_pairs_def distinct_map)
  have m: "\<exists>x \<in> set ?xs. ?h x = Some y" if "y \<in> set F" for y
    using that by (auto simp: F_def fingerprint_pairs_def map_filter_def)
  have y: "fst y \<in> vm_missing_source p \<and> snd y \<in> vm_extra_destination p \<and>
      expected_destination_folder V (fst y) = mk_mailbox (snd y) \<and> map_of SF (fst y) = map_of DF (snd y)" if mem: "y \<in> set F" for y
  proof -
    obtain x where x: "x \<in> set ?xs" "?h x = Some y" using m [OF mem] by blast
    show ?thesis using h [OF x(2)] s [OF x] by metis
  qed
  show "set (map fst F) \<subseteq> vm_missing_source p" "set (map snd F) \<subseteq> vm_extra_destination p"
    unfolding set_map image_subset_iff using y by blast+
  show "list_all (\<lambda>(s, d). expected_destination_folder V s = mk_mailbox d \<and> map_of SF s = map_of DF d) F"
    unfolding list_all_iff case_prod_beta using y by blast
qed

section \<open>The two steps keep the accounting\<close>

lemma collected_cong:
  assumes "mset (map fst (P @ C @ W) @ mis) = mset (map fst (P' @ C' @ W') @ mis')"
    "mset (map snd (P @ C @ W) @ dup @ ext) = mset (map snd (P' @ C' @ W') @ dup' @ ext')"
  shows "collected V P C W p3 mis dup ext \<longleftrightarrow> collected V P' C' W' p3 mis' dup' ext'"
  unfolding collected_def mset_eq_setD [OF assms(1)] mset_eq_setD [OF assms(2)]
    mset_eq_imp_distinct_iff [OF assms(1)] mset_eq_imp_distinct_iff [OF assms(2)] ..

lemma mset_split_off:
  assumes "distinct xs" "distinct ys" "set ys \<subseteq> set xs"
  shows "mset xs = mset ys + mset (filter (\<lambda>x. x \<notin> set ys) xs)"
proof -
  have "mset (filter (\<lambda>x. x \<in> set ys) xs) = mset ys"
    using assms by (subst set_eq_iff_mset_eq_distinct [symmetric]) auto
  then show ?thesis unfolding mset_filter using multiset_partition [of "mset xs" "\<lambda>x. x \<in> set ys"] by (simp only:)
qed

lemma collected_resolve:
  assumes c: "collected V P C W p3 mis dup ext" and F: "distinct (map fst F)" "distinct (map snd F)"
    "set (map fst F) \<subseteq> set mis" "set (map snd F) \<subseteq> set ext"
  shows "collected V (P @ F) C W p3 (filter (\<lambda>k. k \<notin> set (map fst F)) mis) dup (filter (\<lambda>k. k \<notin> set (map snd F)) ext)"
proof -
  have d: "distinct mis" "distinct ext" using c unfolding collected_def by simp_all
  note m = mset_split_off [OF d(1) F(1,3)] mset_split_off [OF d(2) F(2,4)]
  have "mset (map fst (P @ C @ W) @ mis) = mset (map fst ((P @ F) @ C @ W) @ filter (\<lambda>k. k \<notin> set (map fst F)) mis)"
    "mset (map snd (P @ C @ W) @ dup @ ext) = mset (map snd ((P @ F) @ C @ W) @ dup @ filter (\<lambda>k. k \<notin> set (map snd F)) ext)"
    unfolding mset_append m map_append by (simp_all only: ac_simps mset_append)
  from collected_cong [OF this] c show ?thesis by blast
qed

lemma collected_reclassify:
  assumes "collected V (P @ F) C W p3 mis dup ext"
  shows "collected V (filter (\<lambda>c. \<not> Q c) P @ F) (C @ filter Q P) W p3 mis dup ext"
proof -
  have "mset (P @ F @ C @ W) = mset (filter (\<lambda>c. \<not> Q c) P @ F @ C @ filter Q P @ W)"
    unfolding mset_append mset_filter using arg_cong [OF multiset_partition [of "mset P" Q], of "\<lambda>M. M + (mset F + (mset C + mset W))"]
    by (simp only: ac_simps)
  then have m: "mset (map f (P @ F @ C @ W)) = mset (map f (filter (\<lambda>c. \<not> Q c) P @ F @ C @ filter Q P @ W))"
    for f :: "message_key \<times> message_key \<Rightarrow> message_key" by (simp only: mset_map)
  have "mset (map fst ((P @ F) @ C @ W) @ mis) = mset (map fst ((filter (\<lambda>c. \<not> Q c) P @ F) @ (C @ filter Q P) @ W) @ mis)"
    "mset (map snd ((P @ F) @ C @ W) @ dup @ ext) = mset (map snd ((filter (\<lambda>c. \<not> Q c) P @ F) @ (C @ filter Q P) @ W) @ dup @ ext)"
    unfolding append_assoc using m [of fst] m [of snd] by (simp_all only: mset_append)
  from collected_cong [OF this] assms show ?thesis by blast
qed

lemma fold_resolve_pair:
  "fold resolve_pair F (v, p) =
     (v\<lparr>vs_missing := vs_missing v - length F, vs_extra := vs_extra v - length F, vs_metadata_matches := vs_metadata_matches v + length F\<rparr>,
      p\<lparr>vm_missing_source := vm_missing_source p - fst ` set F, vm_extra_destination := vm_extra_destination p - snd ` set F,
        vm_matched_source := vm_matched_source p \<union> fst ` set F, vm_matched_destination := vm_matched_destination p \<union> snd ` set F\<rparr>)"
proof (induction F arbitrary: v p)
  case (Cons c F)
  then show ?case by (cases c) (auto intro!: verification_membership.equality)
qed simp

lemma retained_collected:
  assumes "collected V P C W p3 mis dup ext"
  shows "filter (retained V F) (collected_mismatches V C W mis dup ext) =
    collected_mismatches V C W (filter (\<lambda>k. k \<notin> set (map fst F)) mis) dup (filter (\<lambda>k. k \<notin> set (map snd F)) ext)"
proof -
  have k: "set mis \<subseteq> set (source_keys V)" "set ext \<subseteq> set (dest_keys V)" by (rule collected_keys [OF assms])+
  have "filter (\<lambda>x. retained V F (make_mismatch V Mismatch_Missing (Some x) None)) mis = filter (\<lambda>k. k \<notin> set (map fst F)) mis"
    by (intro filter_cong refl) (simp only: retained_def make_mismatch_simps(1) make_mismatch_simps(2) [OF subsetD [OF k(1)]] mismatch_type.case option.case)
  moreover have "filter (\<lambda>x. retained V F (make_mismatch V Mismatch_Extra None (Some x))) ext = filter (\<lambda>k. k \<notin> set (map snd F)) ext"
    by (intro filter_cong refl) (simp only: retained_def make_mismatch_simps(1) make_mismatch_simps(4) [OF subsetD [OF k(2)]] mismatch_type.case option.case)
  moreover have "filter (\<lambda>c. retained V F (pair_mismatch V Mismatch_MessageIdOnly c)) C = C"
    "filter (\<lambda>c. retained V F (pair_mismatch V Mismatch_PresentWrongFolder c)) W = W"
    "filter (\<lambda>x. retained V F (make_mismatch V Mismatch_Duplicated None (Some x))) dup = dup"
    by (simp_all add: retained_def pair_mismatch_def case_prod_beta)
  ultimately show ?thesis unfolding collected_mismatches_def filter_append filter_map comp_def by (simp only:)
qed

text \<open>A pair of messages in corresponding folders that have the same contents.\<close>

definition same_content :: "verify_input \<Rightarrow> fingerprints \<Rightarrow> fingerprints \<Rightarrow> message_key \<times> message_key \<Rightarrow> bool" where
  "same_content V SF DF = (\<lambda>(s, d). expected_destination_folder V s = mk_mailbox d \<and> map_of SF s = map_of DF d)"

text \<open>What is reported and counted after both steps.\<close>

definition contents_differ :: "fingerprints \<Rightarrow> fingerprints \<Rightarrow> message_key \<times> message_key \<Rightarrow> bool" where
  "contents_differ SF DF = (\<lambda>(s, d). map_of SF s \<noteq> map_of DF d)"

definition body_mismatch_of :: "verify_input \<Rightarrow> fingerprints \<Rightarrow> fingerprints \<Rightarrow> message_key \<times> message_key \<Rightarrow> message_mismatch" where
  "body_mismatch_of V SF DF = (\<lambda>(s, d). body_mismatch V s d (the (map_of SF s)) (the (map_of DF d)))"

lemma resolve_collected:
  assumes d: "distinct (map fst SF)" "distinct (map fst DF)" and c: "collected V P C W p3 mis dup ext"
  obtains F mis' ext' where "collected V (P @ F) C W p3 mis' dup ext'" "list_all (same_content V SF DF) F"
    "resolve_by_fingerprint V SF DF (collected_result V P C W p3 mis dup ext) =
       \<lparr>rc_mismatches = collected_mismatches V C W mis' dup ext',
        rc_summary = (collected_summary V (P @ F) C W p3 mis' dup ext')\<lparr>vs_rfc_message_id_matches := length P\<rparr>,
        rc_membership = collected_membership (P @ F) C W p3 mis' dup ext', rc_clean_pairs = P\<rparr>"
proof -
  let ?p = "collected_membership P C W p3 mis dup ext"
  define F where "F = fingerprint_pairs V SF DF ?p"
  note f = fingerprint_pairs [OF d, of V ?p, folded F_def]
  have sub: "set (map fst F) \<subseteq> set mis" "set (map snd F) \<subseteq> set ext" using f(3,4) by (simp_all add: collected_membership_def)
  let ?mis = "filter (\<lambda>k. k \<notin> set (map fst F)) mis" and ?ext = "filter (\<lambda>k. k \<notin> set (map snd F)) ext"
  have dm: "distinct mis" "distinct ext" using c unfolding collected_def by simp_all
  have l: "length ?mis = length mis - length F" "length ?ext = length ext - length F"
    using arg_cong [OF mset_split_off [OF dm(1) f(1) sub(1)], of size] arg_cong [OF mset_split_off [OF dm(2) f(2) sub(2)], of size]
    unfolding size_union size_mset length_map by simp_all
  have "resolve_by_fingerprint V SF DF (collected_result V P C W p3 mis dup ext) =
       \<lparr>rc_mismatches = collected_mismatches V C W ?mis dup ?ext,
        rc_summary = (collected_summary V (P @ F) C W p3 ?mis dup ?ext)\<lparr>vs_rfc_message_id_matches := length P\<rparr>,
        rc_membership = collected_membership (P @ F) C W p3 ?mis dup ?ext, rc_clean_pairs = P\<rparr>"
  proof (cases "F = []")
    case True
    then show ?thesis
      by (simp add: resolve_by_fingerprint_def collected_result_def F_def [symmetric] collected_summary_def)
  next
    case False
    have "resolve_by_fingerprint V SF DF (collected_result V P C W p3 mis dup ext) =
        \<lparr>rc_mismatches = filter (retained V F) (collected_mismatches V C W mis dup ext),
         rc_summary = fst (fold resolve_pair F (collected_summary V P C W p3 mis dup ext, ?p)),
         rc_membership = snd (fold resolve_pair F (collected_summary V P C W p3 mis dup ext, ?p)), rc_clean_pairs = P\<rparr>"
      using False by (simp add: resolve_by_fingerprint_def collected_result_def F_def [symmetric] Let_def case_prod_beta)
    moreover have "fst (fold resolve_pair F (collected_summary V P C W p3 mis dup ext, ?p)) =
        (collected_summary V (P @ F) C W p3 ?mis dup ?ext)\<lparr>vs_rfc_message_id_matches := length P\<rparr>"
      unfolding fold_resolve_pair fst_conv collected_summary_def l by simp
    moreover have "snd (fold resolve_pair F (collected_summary V P C W p3 mis dup ext, ?p)) =
        collected_membership (P @ F) C W p3 ?mis dup ?ext"
      unfolding fold_resolve_pair snd_conv collected_membership_def by (auto intro!: verification_membership.equality)
    ultimately show ?thesis unfolding retained_collected [OF c] by (simp only:)
  qed
  then show ?thesis using that [OF collected_resolve [OF c f(1,2) sub] f(5) [folded same_content_def]] by blast
qed

lemma compare_contents_Inr:
  "compare_contents V SF DF ps b r = Inr r' \<Longrightarrow>
     rc_mismatches r' = rc_mismatches r @ map (body_mismatch_of V SF DF) (filter (contents_differ SF DF) ps) \<and>
     rc_summary r' = (rc_summary r)\<lparr>vs_metadata_matches := vs_metadata_matches (rc_summary r) - length (filter (contents_differ SF DF) ps),
       vs_changed := vs_changed (rc_summary r) + length (filter (contents_differ SF DF) ps)\<rparr> \<and>
     rc_membership r' = (rc_membership r)\<lparr>
       vm_matched_source := vm_matched_source (rc_membership r) - fst ` set (filter (contents_differ SF DF) ps),
       vm_matched_destination := vm_matched_destination (rc_membership r) - snd ` set (filter (contents_differ SF DF) ps),
       vm_changed_source := vm_changed_source (rc_membership r) \<union> fst ` set (filter (contents_differ SF DF) ps),
       vm_changed_destination := vm_changed_destination (rc_membership r) \<union> snd ` set (filter (contents_differ SF DF) ps)\<rparr>"
proof (induction V SF DF ps b r rule: compare_contents.induct)
  case (2 V SF DF s d ps b r)
  obtain sf df where f: "map_of SF s = Some sf" "map_of DF d = Some df" using 2(3) by (auto split: option.splits)
  show ?case
  proof (cases "sf = df")
    case True
    then show ?thesis using 2(1) [OF refl f True] 2(3) f by (simp add: contents_differ_def)
  next
    case False
    obtain b' where a: "append_mismatch_with_budget (body_mismatch V s d sf df) (rc_mismatches r, b) =
        Inr (rc_mismatches r @ [body_mismatch V s d sf df], b')"
      using 2(3) f False by (auto simp: append_mismatch_with_budget_def Let_def split: if_splits)
    then have "compare_contents V SF DF ps b' (reclassify_changed s d (r\<lparr>rc_mismatches := rc_mismatches r @ [body_mismatch V s d sf df]\<rparr>)) = Inr r'"
      using 2(3) f False by simp
    from 2(2) [OF refl f False a refl this] show ?thesis
      using f False
      by (auto simp: reclassify_changed_def Let_def contents_differ_def body_mismatch_of_def intro!: verification_membership.equality)
  qed
qed simp

lemma compare_contents_Inl:
  assumes "compare_contents V SF DF ps b r = Inl e" "list_all (\<lambda>(s, d). map_of SF s \<noteq> None \<and> map_of DF d \<noteq> None) ps"
  shows "e = Budget_Exceeded DETAIL_BUDGET"
  using assms
proof (induction V SF DF ps b r rule: compare_contents.induct)
  case (2 V SF DF s d ps b r)
  obtain sf df where f: "map_of SF s = Some sf" "map_of DF d = Some df" using 2(4) by auto
  have ps: "list_all (\<lambda>(s, d). map_of SF s \<noteq> None \<and> map_of DF d \<noteq> None) ps" using 2(4) by simp
  show ?case
  proof (cases "sf = df")
    case True
    then show ?thesis using 2(1) [OF refl f True _ ps] 2(3) f by simp
  next
    case False
    then show ?thesis
      using 2(2) [OF refl f False _ refl _ ps] 2(3) f by (fastforce split: sum.splits dest: append_budget(1))
  qed
qed simp

lemma body_mismatch_keys:
  assumes "fst ` set Q \<subseteq> set (map fst S)" "snd ` set Q \<subseteq> set (map fst D)"
  shows "List.map_filter (mismatch_source_key S) (map (body_mismatch_of V SF DF) Q) = map fst Q"
    "List.map_filter (mismatch_destination_key D) (map (body_mismatch_of V SF DF) Q) = map snd Q"
proof -
  have "mismatch_source_key S (body_mismatch_of V SF DF c) = mismatch_source_key S (pair_mismatch V Mismatch_MessageIdOnly c)"
    "mismatch_destination_key D (body_mismatch_of V SF DF c) = mismatch_destination_key D (pair_mismatch V Mismatch_MessageIdOnly c)" for c
    by (simp_all add: body_mismatch_of_def body_mismatch_def pair_mismatch_def make_mismatch_def Let_def case_prod_beta mismatch_source_key_def mismatch_destination_key_def)
  then show "List.map_filter (mismatch_source_key S) (map (body_mismatch_of V SF DF) Q) = map fst Q"
    "List.map_filter (mismatch_destination_key D) (map (body_mismatch_of V SF DF) Q) = map snd Q"
    using pair_keys(1) [OF assms(1), of V Mismatch_MessageIdOnly] pair_keys(2) [OF assms(2), of V Mismatch_MessageIdOnly]
    unfolding map_filter_map by (simp_all only:)
qed

lemma image_filter_split:
  assumes "distinct (map f (P @ F))"
  shows "f ` set (P @ F) - f ` set (filter Q P) = f ` set (filter (\<lambda>x. \<not> Q x) P @ F)"
proof -
  have i: "inj_on f (set (P @ F))" using assms unfolding distinct_map by blast
  have dj: "f ` set P \<inter> f ` set F = {}" using assms by simp
  have "set P \<inter> set F = {}" using dj by blast
  then have "set (P @ F) - set (filter Q P) = set (filter (\<lambda>x. \<not> Q x) P @ F)" by auto
  then show ?thesis using inj_on_image_set_diff [OF i, of "set (P @ F)" "set (filter Q P)"] by auto
qed

lemma outcome_ignores_id_matches: "summary_outcome (v\<lparr>vs_rfc_message_id_matches := n\<rparr>) = summary_outcome v"
  by (simp add: summary_outcome_def)

lemma validate_ignores_id_matches:
  "validate_verification_summary S D ms (v\<lparr>vs_rfc_message_id_matches := n\<rparr>) p = validate_verification_summary S D ms v p"
proof -
  have "counter_table S D (v\<lparr>vs_rfc_message_id_matches := n\<rparr>) p = counter_table S D v p" by (simp add: counter_table_def)
  then show ?thesis by (simp only: validate_verification_summary_def)
qed

lemma compared_valid:
  assumes V: "verify_input_ok V" and c: "collected V (P @ F) C W p3 mis dup ext" and Q: "Q = filter (contents_differ SF DF) (sort P)"
    and r: "r = \<lparr>rc_mismatches = collected_mismatches V C W mis dup ext,
        rc_summary = (collected_summary V (P @ F) C W p3 mis dup ext)\<lparr>vs_rfc_message_id_matches := length P\<rparr>,
        rc_membership = collected_membership (P @ F) C W p3 mis dup ext, rc_clean_pairs = P\<rparr>"
    and i: "compare_contents V SF DF (sort P) b r = Inr r'"
  defines "P' \<equiv> filter (\<lambda>x. \<not> contents_differ SF DF x) P @ F"
  shows "collected V P' (C @ Q) W p3 mis dup ext"
    "rc_summary r' = (collected_summary V P' (C @ Q) W p3 mis dup ext)\<lparr>vs_rfc_message_id_matches := length P\<rparr>"
    "validate_verification_summary (vi_source V) (vi_dest V) (rc_mismatches r') (rc_summary r') (rc_membership r') = None"
proof -
  let ?d = "contents_differ SF DF"
  have q: "mset Q = mset (filter ?d P)" by (simp only: Q mset_filter mset_sort)
  have lq: "length Q = length (filter ?d P)" using arg_cong [OF q, of size] by (simp only: size_mset)
  have sq: "set Q = set (filter ?d P)" using q by (rule mset_eq_setD)
  have m: "mset (map f Q) = mset (map f (filter ?d P))" for f :: "message_key \<times> message_key \<Rightarrow> message_key" by (simp only: mset_map q)
  have "mset (map fst (P' @ (C @ filter ?d P) @ W) @ mis) = mset (map fst (P' @ (C @ Q) @ W) @ mis)"
    "mset (map snd (P' @ (C @ filter ?d P) @ W) @ dup @ ext) = mset (map snd (P' @ (C @ Q) @ W) @ dup @ ext)"
    by (simp_all only: map_append mset_append m)
  from collected_cong [OF this] collected_reclassify [OF c, of ?d]
  show c': "collected V P' (C @ Q) W p3 mis dup ext" unfolding P'_def by blast
  note o = compare_contents_Inr [OF i, folded Q]
  have "length (filter (\<lambda>x. \<not> ?d x) P) = length P - length Q" using sum_length_filter_compl [of ?d P] lq by simp
  moreover have "length Q \<le> length P" using length_filter_le [of ?d P] lq by simp
  ultimately show s: "rc_summary r' = (collected_summary V P' (C @ Q) W p3 mis dup ext)\<lparr>vs_rfc_message_id_matches := length P\<rparr>"
    using o by (simp add: r collected_summary_def P'_def)
  have d: "distinct (map fst (P @ F))" "distinct (map snd (P @ F))" using c unfolding collected_def by auto
  have ds: "fst ` set (P @ F) - fst ` set Q = fst ` set P'" "snd ` set (P @ F) - snd ` set Q = snd ` set P'"
    unfolding sq P'_def by (rule image_filter_split [OF d(1)], rule image_filter_split [OF d(2)])
  have p: "rc_membership r' = collected_membership P' (C @ Q) W p3 mis dup ext"
    using o ds unfolding r collected_membership_def by (auto intro!: verification_membership.equality)
  have k: "fst ` set Q \<subseteq> set (source_keys V)" "snd ` set Q \<subseteq> set (dest_keys V)"
    using collected_keys(4,8) [OF c'] by auto
  have "mset (List.map_filter (mismatch_source_key (vi_source V)) (rc_mismatches r')) = mset (map fst ((C @ Q) @ W) @ mis)"
    "mset (List.map_filter (mismatch_destination_key (vi_dest V)) (rc_mismatches r')) = mset (map snd ((C @ Q) @ W) @ dup @ ext)"
    using o by (simp_all only: r reconciliation.simps map_filter_append body_mismatch_keys [OF k] collected_keys(1,2) [OF c] mset_append map_append ac_simps)
  moreover have "distinct (map fst ((C @ Q) @ W) @ mis)" "distinct (map snd ((C @ Q) @ W) @ dup @ ext)"
    using c' unfolding collected_def by auto
  ultimately have "distinct (List.map_filter (mismatch_source_key (vi_source V)) (rc_mismatches r'))"
    "distinct (List.map_filter (mismatch_destination_key (vi_dest V)) (rc_mismatches r'))" using mset_eq_imp_distinct_iff by blast+
  from collected_valid [OF V c' this]
  show "validate_verification_summary (vi_source V) (vi_dest V) (rc_mismatches r') (rc_summary r') (rc_membership r') = None"
    unfolding s p validate_ignores_id_matches .
qed

section \<open>The whole verification\<close>

lemma clean_pair_folder: "clean_pair V c \<Longrightarrow> expected_destination_folder V (fst c) = mk_mailbox (snd c)"
  by (cases c; cases "source_fp V (fst c)"; cases "dest_fp V (snd c)") (auto simp: clean_pair_def source_bucket_def dest_bucket_def)

lemma check_contents_cases:
  assumes V: "verify_input_ok V" and c: "collected V (P @ F) C W p3 mis dup ext" and cl: "list_all (clean_pair V) P"
    and F: "list_all (same_content V SF DF) F"
    and cov: "exact_coverage (vi_source V) SF" "exact_coverage (vi_dest V) DF"
    and r: "r = \<lparr>rc_mismatches = collected_mismatches V C W mis dup ext,
        rc_summary = (collected_summary V (P @ F) C W p3 mis dup ext)\<lparr>vs_rfc_message_id_matches := length P\<rparr>,
        rc_membership = collected_membership (P @ F) C W p3 mis dup ext, rc_clean_pairs = P\<rparr>"
  obtains (budget) "check_contents V SF DF r = Inl (Budget_Exceeded DETAIL_BUDGET)"
  | (checked) P' C' ms where "collected V P' C' W p3 mis dup ext" "list_all (same_content V SF DF) P'"
      "check_contents V SF DF r = Inr (ms, (collected_summary V P' C' W p3 mis dup ext)\<lparr>vs_rfc_message_id_matches := length P\<rparr>)"
proof (cases "mismatch_bytes (rc_mismatches r) > MAX_ESTIMATED_MISMATCH_DETAIL_BYTES")
  case False
  have rP: "rc_clean_pairs r = P" by (simp add: r)
  show ?thesis
  proof (cases "compare_contents V SF DF (sort P) (mismatch_bytes (rc_mismatches r)) r")
    case (Inl e)
    have "list_all (\<lambda>(s, d). map_of SF s \<noteq> None \<and> map_of DF d \<noteq> None) (sort P)"
      unfolding list_all_iff set_sort
    proof (rule ballI)
      fix c assume "c \<in> set P"
      then have "clean_pair V c" using cl by (simp add: list_all_iff)
      then show "case c of (s, d) \<Rightarrow> map_of SF s \<noteq> None \<and> map_of DF d \<noteq> None"
        using cov unfolding exact_coverage_def clean_pair_def list_ex_iff by (simp add: case_prod_beta del: set_map)
    qed
    then have "check_contents V SF DF r = Inl (Budget_Exceeded DETAIL_BUDGET)"
      using compare_contents_Inl [OF Inl] Inl False by (simp add: check_contents_def Let_def rP)
    then show ?thesis by (rule budget)
  next
    case (Inr r')
    note k = compared_valid [OF V c refl r Inr]
    have "list_all (same_content V SF DF) (filter (\<lambda>x. \<not> contents_differ SF DF x) P @ F)"
      using F cl clean_pair_folder [of V] by (auto simp: list_all_iff same_content_def contents_differ_def)
    moreover have "check_contents V SF DF r = Inr (rc_mismatches r', rc_summary r')"
      using False Inr k(3) by (simp add: check_contents_def Let_def rP)
    ultimately show ?thesis using checked k(1,2) by metis
  qed
qed (simp add: check_contents_def budget)

lemma content_cases:
  assumes V: "verify_input_ok V" and d: "distinct (map fst SF)" "distinct (map fst DF)"
  obtains (coverage) side where "detect_mismatches_with_content_fingerprints V SF DF = Inl (Coverage_Missing side)"
    "\<not> (exact_coverage (vi_source V) SF \<and> exact_coverage (vi_dest V) DF)"
  | (budget) e where "detect_mismatches_with_content_fingerprints V SF DF = Inl e"
      "e \<in> {Budget_Exceeded STATE_BUDGET, Budget_Exceeded DETAIL_BUDGET}"
  | (checked) P C W p3 mis dup ext ms n where "collected V P C W p3 mis dup ext" "list_all (same_content V SF DF) P"
      "detect_mismatches_with_content_fingerprints V SF DF =
        Inr (ms, (collected_summary V P C W p3 mis dup ext)\<lparr>vs_rfc_message_id_matches := n\<rparr>)"
proof (cases "exact_coverage (vi_source V) SF \<and> exact_coverage (vi_dest V) DF")
  case False
  then have "detect_mismatches_with_content_fingerprints V SF DF = Inl (Coverage_Missing ''source'') \<or>
      detect_mismatches_with_content_fingerprints V SF DF = Inl (Coverage_Missing ''destination'')"
    by (simp add: detect_mismatches_with_content_fingerprints_def)
  then show ?thesis using coverage False by blast
next
  case cov: True
  from V show ?thesis
  proof (cases rule: reconcile_cases)
    case (budget e)
    then show ?thesis using cov that(2) [of e] by (simp add: detect_mismatches_with_content_fingerprints_def)
  next
    case (finished p1 C W p3 mis dup ext)
    obtain F mis' ext' where c: "collected V (ps_pairs p1 @ F) C W p3 mis' dup ext'" and F: "list_all (same_content V SF DF) F"
      and r: "resolve_by_fingerprint V SF DF (collected_result V (ps_pairs p1) C W p3 mis dup ext) =
       \<lparr>rc_mismatches = collected_mismatches V C W mis' dup ext',
        rc_summary = (collected_summary V (ps_pairs p1 @ F) C W p3 mis' dup ext')\<lparr>vs_rfc_message_id_matches := length (ps_pairs p1)\<rparr>,
        rc_membership = collected_membership (ps_pairs p1 @ F) C W p3 mis' dup ext', rc_clean_pairs = ps_pairs p1\<rparr>"
      by (rule resolve_collected [OF d finished(3)])
    have eq: "detect_mismatches_with_content_fingerprints V SF DF =
        check_contents V SF DF (resolve_by_fingerprint V SF DF (collected_result V (ps_pairs p1) C W p3 mis dup ext))"
      using cov finished(5) by (simp add: detect_mismatches_with_content_fingerprints_def)
    show ?thesis
    proof (cases rule: check_contents_cases [OF V c finished(4) F conjunct1 [OF cov] conjunct2 [OF cov] r])
      case 1
      then show ?thesis using eq that(2) by simp
    next
      case (2 P' C' ms)
      then show ?thesis using eq that(3) by metis
    qed
  qed
qed

lemma content_totals:
  assumes V: "verify_input_ok V" and df: "distinct (map fst SF)" "distinct (map fst DF)"
    and o: "detect_mismatches_with_content_fingerprints V SF DF = Inr (ms, v)"
  shows "vs_total_source v = length (vi_source V)"
  using V df by (cases rule: content_cases) (use o in \<open>auto simp: collected_summary_def\<close>)

lemma exact_contents:
  assumes V: "verify_input_ok V" and df: "distinct (map fst SF)" "distinct (map fst DF)"
    and o: "detect_mismatches_with_content_fingerprints V SF DF = Inr (ms, v)" "summary_outcome v = Out_ExactMetadataMatch"
  shows "image_mset (\<lambda>k. (expected_destination_folder V k, map_of SF k)) (mset (map fst (vi_source V))) =
    image_mset (\<lambda>k. (mk_mailbox k, map_of DF k)) (mset (map fst (vi_dest V)))"
proof -
  from V df show ?thesis
  proof (cases rule: content_cases)
    case (checked P C W p3 mis dup ext ms' n)
    have "summary_outcome (collected_summary V P C W p3 mis dup ext) = Out_ExactMetadataMatch"
      using o checked(3) by (auto simp: outcome_ignores_id_matches)
    then have l: "length P = length (vi_source V)" "length P = length (vi_dest V)" using collected_exact [OF V checked(1)] by simp_all
    note m = covered_keys [OF V checked(1) l]
    have "map (\<lambda>k. (expected_destination_folder V k, map_of SF k)) (map fst P) = map (\<lambda>k. (mk_mailbox k, map_of DF k)) (map snd P)"
      using checked(2) by (auto simp: list_all_iff same_content_def)
    from arg_cong [OF this, of mset] show ?thesis unfolding mset_map [of _ "map fst P"] mset_map [of _ "map snd P"] m .
  qed (use o in simp_all)
qed

section \<open>Properties\<close>

text \<open>Fingerprints for the messages of the example, for the witnesses.\<close>

definition demo_fingerprints :: "str \<Rightarrow> messages \<Rightarrow> fingerprints" where
  "demo_fingerprints x M = map (\<lambda>(k, m). (k, x @ the (em_message_id m))) M"

text \<open>
  The verification of contents refuses fingerprints that do not cover a mailbox exactly; otherwise it either
  stops at a memory budget or its counters account for every message of both mailboxes.
\<close>

theorem content_verification_accounts:
  assumes "distinct (map fst (vi_source V))" "distinct (map fst (vi_dest V))" "distinct (map fst SF)" "distinct (map fst DF)"
  shows "case detect_mismatches_with_content_fingerprints V SF DF of
      Inl e \<Rightarrow> (\<exists>side. e = Coverage_Missing side) \<and> \<not> (exact_coverage (vi_source V) SF \<and> exact_coverage (vi_dest V) DF) \<or>
        e = Budget_Exceeded STATE_BUDGET \<or> e = Budget_Exceeded DETAIL_BUDGET
    | Inr (ms, v) \<Rightarrow>
        length (vi_source V) = vs_metadata_matches v + vs_probable_matches v + vs_missing v + vs_changed v \<and>
        length (vi_dest V) = vs_metadata_matches v + vs_probable_matches v + vs_extra v + vs_duplicated v + vs_changed v"
proof -
  have V: "verify_input_ok V" using assms(1,2) by (simp add: verify_input_ok_def)
  from V assms(3,4) show ?thesis
  proof (cases rule: content_cases)
    case (checked P C W p3 mis dup ext ms' n)
    then show ?thesis using collected_lengths [OF V checked(1)] by (simp add: collected_summary_def)
  qed auto
qed

theorem content_verification_accounts_witness:
  "case detect_mismatches_with_content_fingerprints (demo_mailboxes 7) (demo_fingerprints ''h'' (vi_source (demo_mailboxes 7)))
      (demo_fingerprints ''x'' (vi_dest (demo_mailboxes 7))) of
     Inl e \<Rightarrow> False
   | Inr (ms, v) \<Rightarrow> vs_metadata_matches v + vs_probable_matches v + vs_missing v + vs_changed v = 2"
proof -
  let ?V = "demo_mailboxes 7"
  let ?SF = "demo_fingerprints ''h'' (vi_source ?V)" and ?DF = "demo_fingerprints ''x'' (vi_dest ?V)"
  have k: "distinct (map fst (vi_source ?V))" "distinct (map fst (vi_dest ?V))" "distinct (map fst ?SF)" "distinct (map fst ?DF)"
    and n: "length (vi_source ?V) = 2" and r: "\<not> isl (detect_mismatches_with_content_fingerprints ?V ?SF ?DF)" by code_simp+
  show ?thesis using content_verification_accounts [OF k] n r by (simp split: sum.splits prod.splits)
qed

end
