(* ===== verification/Imap_Text.thy ===== *)
theory Imap_Text
  imports Command_Line
begin

text \<open>
  The text operations of the Rust library that the IMAP parsers use, on UTF-8 bytes: \<^verbatim>\<open>split_whitespace\<close>,
  \<^verbatim>\<open>lines\<close>, \<^verbatim>\<open>join\<close> and \<^verbatim>\<open>String::from_utf8_lossy\<close>; and the response helpers of \<^verbatim>\<open>imap_protocol.rs\<close>.
\<close>

section \<open>Words and lines\<close>

text \<open>\<^verbatim>\<open>split_whitespace\<close>; the number counts the rest of a white-space character that is longer than a byte.\<close>

fun split_whitespace_from :: "str \<Rightarrow> nat \<Rightarrow> str \<Rightarrow> str list" where
  "split_whitespace_from [] n cur = (if cur = [] then [] else [rev cur])"
| "split_whitespace_from (c # cs) (Suc n) cur = split_whitespace_from cs n cur"
| "split_whitespace_from (c # cs) 0 cur =
     (case ws_width (c # cs) of
        0 \<Rightarrow> split_whitespace_from cs 0 (c # cur)
      | Suc n \<Rightarrow> (if cur = [] then [] else [rev cur]) @ split_whitespace_from cs n [])"

definition split_whitespace :: "str \<Rightarrow> str list" where
  "split_whitespace s = split_whitespace_from s 0 []"

text \<open>\<^verbatim>\<open>str::lines\<close>: a carriage return is removed only in front of a line feed, and a final line feed starts no line.\<close>

definition strip_line_cr :: "str \<Rightarrow> str" where
  "strip_line_cr s = (if s \<noteq> [] \<and> last s = CHR 0x0D then butlast s else s)"

definition text_lines :: "str \<Rightarrow> str list" where
  "text_lines s =
     (let ps = split_char (CHR 0x0A) s in map strip_line_cr (butlast ps) @ (if last ps = [] then [] else [last ps]))"

fun join_with :: "str \<Rightarrow> str list \<Rightarrow> str" where
  "join_with sep [] = []"
| "join_with sep [w] = w"
| "join_with sep (w # ws) = w @ sep @ join_with sep ws"

section \<open>Lossy decoding\<close>

text \<open>
  \<^verbatim>\<open>String::from_utf8_lossy\<close> replaces every maximal prefix of a character that is not completed by U+FFFD. The
  continuation bytes that a lead byte asks for, and which second byte it admits:
\<close>

definition utf8_need :: "nat \<Rightarrow> nat option" where
  "utf8_need a =
     (if a < 128 then Some 0
      else if 194 \<le> a \<and> a \<le> 223 then Some 1
      else if 224 \<le> a \<and> a \<le> 239 then Some 2
      else if 240 \<le> a \<and> a \<le> 244 then Some 3
      else None)"

definition utf8_second_ok :: "nat \<Rightarrow> nat \<Rightarrow> bool" where
  "utf8_second_ok a b \<longleftrightarrow>
     (if a = 224 then 160 \<le> b \<and> b \<le> 191
      else if a = 237 then 128 \<le> b \<and> b \<le> 159
      else if a = 240 then 144 \<le> b \<and> b \<le> 191
      else if a = 244 then 128 \<le> b \<and> b \<le> 143
      else 128 \<le> b \<and> b \<le> 191)"

definition utf8_continuation :: "nat \<Rightarrow> bool" where
  "utf8_continuation b \<longleftrightarrow> 128 \<le> b \<and> b \<le> 191"

text \<open>How many of the needed continuation bytes are there.\<close>

definition utf8_found :: "nat \<Rightarrow> nat \<Rightarrow> str \<Rightarrow> nat" where
  "utf8_found a need r =
     (case map char_code (take need r) of
        [] \<Rightarrow> 0
      | b # bs \<Rightarrow> if utf8_second_ok a b then Suc (length (takeWhile utf8_continuation bs)) else 0)"

function from_utf8_lossy :: "str \<Rightarrow> str" where
  "from_utf8_lossy [] = []"
| "from_utf8_lossy (c # r) =
     (case utf8_need (char_code c) of
        None \<Rightarrow> [CHR 0xEF, CHR 0xBF, CHR 0xBD] @ from_utf8_lossy r
      | Some need \<Rightarrow>
          let found = utf8_found (char_code c) need r in
          (if found = need then c # take need r else [CHR 0xEF, CHR 0xBF, CHR 0xBD]) @ from_utf8_lossy (drop found r))"
  by pat_completeness auto

termination
  by (relation "measure length") auto

declare from_utf8_lossy.simps(2) [simp del]

section \<open>Response atoms\<close>

definition atom_eq :: "str \<Rightarrow> str \<Rightarrow> bool" where
  "atom_eq actual expected \<longleftrightarrow> eq_ignore_ascii_case actual expected"

definition is_untagged_response :: "str \<Rightarrow> str \<Rightarrow> bool" where
  "is_untagged_response line keyword \<longleftrightarrow>
     (case split_whitespace line of star # actual # _ \<Rightarrow> star = ''*'' \<and> atom_eq actual keyword | _ \<Rightarrow> False)"

definition is_tagged_response :: "str \<Rightarrow> str \<Rightarrow> bool" where
  "is_tagged_response line tag \<longleftrightarrow> (case split_whitespace line of t # _ # _ \<Rightarrow> t = tag | _ \<Rightarrow> False)"

definition advertises_capability :: "str \<Rightarrow> str \<Rightarrow> bool" where
  "advertises_capability response capability \<longleftrightarrow>
     list_ex (\<lambda>line. case split_whitespace line of
                       star # keyword # fields \<Rightarrow>
                         star = ''*'' \<and> atom_eq keyword ''CAPABILITY'' \<and> list_ex (\<lambda>f. atom_eq f capability) fields
                     | _ \<Rightarrow> False) (text_lines response)"

text \<open>The limit of body hashing that the scan and the verification share.\<close>

definition MAX_BODY_HASH_MESSAGES_PER_ENDPOINT :: nat where
  "MAX_BODY_HASH_MESSAGES_PER_ENDPOINT = 100000"

section \<open>Lemmas\<close>

lemma ascii_lossy: "list_all (\<lambda>c. char_code c < 128) s \<Longrightarrow> from_utf8_lossy s = s"
  by (induction s) (simp_all add: from_utf8_lossy.simps(2) utf8_need_def utf8_found_def)

end
