(* ===== verification/Flag_Verification.thy ===== *)
theory Flag_Verification
  imports Content_Verification Imap_Text
begin

text \<open>
  The comparison of flags and keywords: \<^verbatim>\<open>core/message_verification/flags.rs\<close>, over the rows that the
  extracted messages give in the stage, and the evidence that \<^verbatim>\<open>runner/verification.rs\<close> builds from the
  reconciliation and the flags. The queries are their result lists; the loop over the rows of the second one
  is kept as it is.
\<close>

section \<open>Flag sets\<close>

datatype flag_comparison = Flags_Match | Flags_Excepted | Flags_Mismatch

definition storable :: "str set \<Rightarrow> str \<Rightarrow> bool" where
  "storable permanent flag \<longleftrightarrow>
     flag \<in> permanent \<or> (\<not> starts_with [CHR 0x5C] flag \<and> [CHR 0x5C, CHR ''*''] \<in> permanent)"

definition compare_flag_sets :: "str \<Rightarrow> str \<Rightarrow> str option \<Rightarrow> flag_comparison" where
  "compare_flag_sets source destination permanent_flags =
     (if source = destination then Flags_Match
      else let s = set (split_whitespace source); d = set (split_whitespace destination) in
           if s = d then Flags_Match
           else if \<not> d \<subseteq> s then Flags_Mismatch
           else case permanent_flags of
                  None \<Rightarrow> Flags_Mismatch
                | Some p \<Rightarrow>
                    if (\<exists>flag \<in> s - d. storable (set (split_whitespace p)) flag) then Flags_Mismatch else Flags_Excepted)"

section \<open>Rows of the stage\<close>

definition int_to_string :: "int \<Rightarrow> str" where
  "int_to_string z = (if z < 0 then ''-'' @ nat_to_string (nat (- z)) else nat_to_string (nat z))"

definition metadata_date_key :: "(str \<Rightarrow> int option) \<Rightarrow> str \<Rightarrow> str" where
  "metadata_date_key parse v = (case parse (trim v) of Some t \<Rightarrow> ''e:'' @ int_to_string t | None \<Rightarrow> ''r:'' @ v)"

text \<open>Message-ID, folder at the destination, date and size of a row, when the comparison reads it.\<close>

type_synonym flag_identity = "str \<times> str \<times> str \<times> nat"

definition staged_identity :: "(str \<Rightarrow> int option) \<Rightarrow> str \<Rightarrow> extracted_message \<Rightarrow> flag_identity option" where
  "staged_identity parse folder m =
     (case (em_message_id m, em_date m, em_size m) of
        (Some i, Some d, Some s) \<Rightarrow>
          if identity_provenance m = Prov_RfcMessageId then Some (i, folder, metadata_date_key parse d, s) else None
      | _ \<Rightarrow> None)"

type_synonym flag_rows = "(flag_identity \<times> str option) list"

definition staged_row :: "(str \<Rightarrow> int option) \<Rightarrow> str \<Rightarrow> extracted_message \<Rightarrow> (flag_identity \<times> str option) option" where
  "staged_row parse folder m = map_option (\<lambda>g. (g, em_flags m)) (staged_identity parse folder m)"

definition source_rows :: "verify_input \<Rightarrow> flag_rows" where
  "source_rows V = List.map_filter (\<lambda>(k, m). staged_row (vi_parse_date V) (expected_destination_folder V k) m) (vi_source V)"

definition dest_rows :: "verify_input \<Rightarrow> flag_rows" where
  "dest_rows V = List.map_filter (\<lambda>(k, m). staged_row (vi_parse_date V) (mk_mailbox k) m) (vi_dest V)"

definition flags_at :: "('g \<times> 'f) list \<Rightarrow> 'g \<Rightarrow> 'f list" where
  "flags_at rows g = map snd (filter (\<lambda>r. fst r = g) rows)"

section \<open>Pairs of unique messages\<close>

definition identity_folder :: "flag_identity \<Rightarrow> str" where
  "identity_folder = (\<lambda>(i, folder, d, s). folder)"

definition flag_pair ::
  "(str \<Rightarrow> str option) \<Rightarrow> flag_rows \<Rightarrow> flag_rows \<Rightarrow> flag_identity \<times> str option \<Rightarrow> (str \<times> str \<times> str option) option" where
  "flag_pair permanent S D = (\<lambda>(g, sf).
     if length (flags_at S g) = 1 \<and> length (flags_at D g) = 1
     then (case (sf, hd (flags_at D g)) of
             (Some a, Some b) \<Rightarrow> Some (a, b, permanent (identity_folder g))
           | _ \<Rightarrow> None)
     else None)"

definition count_flag_pair :: "str \<times> str \<times> str option \<Rightarrow> flag_verification \<Rightarrow> flag_verification" where
  "count_flag_pair = (\<lambda>(a, b, p) r.
     (let r' = r\<lparr>compared_messages := saturating_add_u64 (compared_messages r) 1\<rparr> in
      case compare_flag_sets a b p of
        Flags_Match \<Rightarrow> r'
      | Flags_Excepted \<Rightarrow> r'\<lparr>excepted_messages := saturating_add_u64 (excepted_messages r') 1\<rparr>
      | Flags_Mismatch \<Rightarrow> r'\<lparr>mismatched_messages := saturating_add_u64 (mismatched_messages r') 1\<rparr>))"

definition no_flags :: flag_verification where
  "no_flags = \<lparr>compared_messages = 0, mismatched_messages = 0, excepted_messages = 0\<rparr>"

definition compare_staged_flag_pairs :: "(str \<Rightarrow> str option) \<Rightarrow> flag_rows \<Rightarrow> flag_rows \<Rightarrow> flag_verification" where
  "compare_staged_flag_pairs permanent S D = fold count_flag_pair (List.map_filter (flag_pair permanent S D) S) no_flags"

section \<open>Groups of duplicates\<close>

definition duplicate_groups :: "flag_rows \<Rightarrow> flag_rows \<Rightarrow> flag_identity list" where
  "duplicate_groups S D =
     sort (filter (\<lambda>g. length (flags_at S g) > 1 \<and> length (flags_at D g) > 1 \<and> length (flags_at S g) = length (flags_at D g))
       (remdups (map fst S)))"

type_synonym frequency = "flag_identity \<times> nat \<times> str option \<times> nat \<times> nat"

definition group_frequencies :: "flag_rows \<Rightarrow> flag_rows \<Rightarrow> flag_identity \<Rightarrow> frequency list" where
  "group_frequencies S D g =
     map (\<lambda>f. (g, length (flags_at S g), f, count_list (flags_at S g) f, count_list (flags_at D g) f))
       (sort (remdups (flags_at S g @ flags_at D g)))"

definition flag_frequencies :: "flag_rows \<Rightarrow> flag_rows \<Rightarrow> frequency list" where
  "flag_frequencies S D = concat (map (group_frequencies S D) (duplicate_groups S D))"

record group_state =
  gs_current :: "flag_identity option"
  gs_size :: nat
  gs_mismatched :: bool
  gs_complete :: bool
  gs_result :: flag_verification

definition count_group :: "bool \<Rightarrow> bool \<Rightarrow> nat \<Rightarrow> flag_verification \<Rightarrow> flag_verification" where
  "count_group complete mismatched n r =
     (if \<not> complete then r
      else let r' = r\<lparr>compared_messages := saturating_add_u64 (compared_messages r) n\<rparr> in
           if mismatched then r'\<lparr>mismatched_messages := saturating_add_u64 (mismatched_messages r') n\<rparr> else r')"

definition finish_group :: "group_state \<Rightarrow> group_state" where
  "finish_group st =
     st\<lparr>gs_result := count_group (gs_complete st) (gs_mismatched st) (gs_size st) (gs_result st),
        gs_size := 0, gs_mismatched := False, gs_complete := True\<rparr>"

definition enter_group :: "flag_identity \<Rightarrow> nat \<Rightarrow> group_state \<Rightarrow> group_state" where
  "enter_group g n st =
     (if gs_current st = Some g then st
      else (if gs_current st \<noteq> None then finish_group st else st)\<lparr>gs_current := Some g, gs_size := n\<rparr>)"

definition group_row :: "frequency \<Rightarrow> group_state \<Rightarrow> group_state" where
  "group_row = (\<lambda>(g, n, f, source_count, destination_count) st.
     (let st' = enter_group g n st in
      case f of
        None \<Rightarrow> st'\<lparr>gs_complete := False\<rparr>
      | Some _ \<Rightarrow> if source_count \<noteq> destination_count then st'\<lparr>gs_mismatched := True\<rparr> else st'))"

definition group_start :: group_state where
  "group_start = \<lparr>gs_current = None, gs_size = 0, gs_mismatched = False, gs_complete = True, gs_result = no_flags\<rparr>"

definition compare_staged_duplicate_flag_groups :: "flag_rows \<Rightarrow> flag_rows \<Rightarrow> flag_verification" where
  "compare_staged_duplicate_flag_groups S D =
     (let st = fold group_row (flag_frequencies S D) group_start in
      gs_result (if gs_current st \<noteq> None then finish_group st else st))"

definition verify_staged_flags :: "verify_input \<Rightarrow> (str \<Rightarrow> str option) \<Rightarrow> flag_verification" where
  "verify_staged_flags V permanent =
     (let pairs = compare_staged_flag_pairs permanent (source_rows V) (dest_rows V);
          grps = compare_staged_duplicate_flag_groups (source_rows V) (dest_rows V) in
      \<lparr>compared_messages = saturating_add_u64 (compared_messages pairs) (compared_messages grps),
       mismatched_messages = saturating_add_u64 (mismatched_messages pairs) (mismatched_messages grps),
       excepted_messages = excepted_messages pairs\<rparr>)"

section \<open>The evidence of a verification\<close>

definition method_outcome :: "verification_method \<Rightarrow> flag_verification \<Rightarrow> outcome \<Rightarrow> outcome" where
  "method_outcome method flags out =
     (let out' = (if out = Out_ExactMetadataMatch \<and> method = Method_BodyHash then Out_ExactBodyMatch else out) in
      if exact_outcome out' \<and> mismatched_messages flags > 0 then Out_FlagsChanged else out')"

definition message_evidence ::
  "verification_method \<Rightarrow> verification_summary \<Rightarrow> flag_verification \<Rightarrow> nat \<times> nat \<Rightarrow> nat \<times> nat \<Rightarrow> evidence" where
  "message_evidence method v flags byte_sums folders =
     \<lparr>ev_method = method, ev_outcome = Some (method_outcome method flags (summary_outcome v)),
      source_messages = vs_total_source v, destination_messages = vs_total_destination v,
      source_bytes = fst byte_sums, destination_bytes = snd byte_sums,
      unmatched_messages =
        Some (saturating_add_u64 (saturating_add_u64 (saturating_add_u64 (vs_missing v) (vs_extra v)) (vs_duplicated v)) (vs_changed v)),
      failed_messages = 0, source_folders = fst folders, destination_folders = snd folders, authoritative = False,
      missing_messages = vs_missing v, extra_messages = saturating_add_u64 (vs_extra v) (vs_duplicated v),
      modified_messages = vs_changed v, probable_messages = vs_probable_matches v,
      rfc_message_id_matches = vs_rfc_message_id_matches v, synthetic_identity_matches = vs_synthetic_identity_matches v,
      ev_flags = Some flags\<rparr>"

text \<open>
  The verification with bodies of an ephemeral run: the limit on the messages of each endpoint, the reconciliation
  with content fingerprints, the flags, and their evidence.
\<close>

definition body_count_refusal :: "nat \<Rightarrow> reconcile_error" where
  "body_count_refusal n = Budget_Exceeded (limit_tag Limit_BodyHashMessageCount
     (''body-hash verification refuses to load more than '' @ nat_to_string MAX_BODY_HASH_MESSAGES_PER_ENDPOINT @
      '' messages per endpoint into the ephemeral forensic reconciler (requested '' @ nat_to_string n @ '')''))"

definition body_hash_evidence ::
  "verify_input \<Rightarrow> fingerprints \<Rightarrow> fingerprints \<Rightarrow> (str \<Rightarrow> str option) \<Rightarrow> nat \<times> nat \<Rightarrow> nat \<times> nat \<Rightarrow> reconcile_error + evidence" where
  "body_hash_evidence V SF DF permanent byte_sums folders =
     (case find (\<lambda>n. n > MAX_BODY_HASH_MESSAGES_PER_ENDPOINT) [length (vi_source V), length (vi_dest V)] of
        Some n \<Rightarrow> Inl (body_count_refusal n)
      | None \<Rightarrow>
          (case detect_mismatches_with_content_fingerprints V SF DF of
             Inl e \<Rightarrow> Inl e
           | Inr (ms, v) \<Rightarrow> Inr (message_evidence Method_BodyHash v (verify_staged_flags V permanent) byte_sums folders)))"

section \<open>The loop over the frequencies\<close>

definition group_complete :: "flag_rows \<Rightarrow> flag_rows \<Rightarrow> flag_identity \<Rightarrow> bool" where
  "group_complete S D g \<longleftrightarrow> (\<forall>f \<in> set (flags_at S g @ flags_at D g). f \<noteq> None)"

definition group_differs :: "flag_rows \<Rightarrow> flag_rows \<Rightarrow> flag_identity \<Rightarrow> bool" where
  "group_differs S D g \<longleftrightarrow>
     (\<exists>f \<in> set (flags_at S g @ flags_at D g). f \<noteq> None \<and> count_list (flags_at S g) f \<noteq> count_list (flags_at D g) f)"

definition settled :: "group_state \<Rightarrow> flag_verification" where
  "settled st = gs_result (if gs_current st \<noteq> None then finish_group st else st)"

lemma fold_group_rows:
  assumes "gs_current st = Some g"
  shows "fold group_row (map (\<lambda>f. (g, n, f, a f, b f)) fs) st =
    st\<lparr>gs_complete := gs_complete st \<and> (\<forall>f \<in> set fs. f \<noteq> None), gs_mismatched := gs_mismatched st \<or> (\<exists>f \<in> set fs. f \<noteq> None \<and> a f \<noteq> b f)\<rparr>"
  using assms
proof (induction fs arbitrary: st)
  case (Cons f fs)
  have r: "group_row (g, n, f, a f, b f) st =
      st\<lparr>gs_complete := gs_complete st \<and> f \<noteq> None, gs_mismatched := gs_mismatched st \<or> (f \<noteq> None \<and> a f \<noteq> b f)\<rparr>"
    using Cons.prems by (cases f) (auto simp: group_row_def enter_group_def)
  show ?case using Cons.prems by (intro group_state.equality) (auto simp: r Cons.IH)
qed simp

lemma group_row_enter: "group_row (g, n, q) st = group_row (g, n, q) (enter_group g n st)"
proof -
  have "enter_group g n (enter_group g n st) = enter_group g n st" by (simp add: enter_group_def)
  then show ?thesis by (cases q) (simp only: group_row_def prod.case)
qed

lemma settled_group:
  fixes D
  assumes "flags_at S g \<noteq> []" "gs_current st \<noteq> Some g" "gs_current st = None \<Longrightarrow> \<not> gs_mismatched st \<and> gs_complete st"
  defines "st' \<equiv> fold group_row (group_frequencies S D g) st"
  shows "gs_current st' = Some g"
    "settled st' = count_group (group_complete S D g) (group_differs S D g) (length (flags_at S g)) (settled st)"
proof -
  let ?n = "length (flags_at S g)" and ?fs = "sort (remdups (flags_at S g @ flags_at D g))"
  let ?row = "\<lambda>f. (g, ?n, f, count_list (flags_at S g) f, count_list (flags_at D g) f)"
  have fs: "set ?fs = set (flags_at S g @ flags_at D g)" by simp
  obtain f fs' where c: "?fs = f # fs'" using assms(1) fs by (cases ?fs) auto
  have "st' = fold group_row (map ?row ?fs) (enter_group g ?n st)"
    unfolding st'_def group_frequencies_def c list.map fold_simps group_row_enter [of g ?n _ st] ..
  moreover have e: "enter_group g ?n st =
      \<lparr>gs_current = Some g, gs_size = ?n, gs_mismatched = False, gs_complete = True, gs_result = settled st\<rparr>"
    using assms(2,3) by (cases "gs_current st") (auto simp: enter_group_def settled_def finish_group_def intro!: group_state.equality)
  ultimately have st': "st' = \<lparr>gs_current = Some g, gs_size = ?n, gs_mismatched = group_differs S D g,
      gs_complete = group_complete S D g, gs_result = settled st\<rparr>"
    using fs by (simp only: fold_group_rows [of "enter_group g ?n st" g ?n] group_state.simps) (auto simp: e fold_group_rows group_differs_def group_complete_def)
  show "gs_current st' = Some g" by (simp add: st')
  show "settled st' = count_group (group_complete S D g) (group_differs S D g) ?n (settled st)"
    by (simp add: st' settled_def finish_group_def)
qed

lemma settled_groups:
  assumes "distinct gs" "\<forall>g \<in> set gs. flags_at S g \<noteq> []" "gs_current st \<notin> Some ` set gs"
    "gs_current st = None \<Longrightarrow> \<not> gs_mismatched st \<and> gs_complete st"
  shows "settled (fold group_row (concat (map (group_frequencies S D) gs)) st) =
    fold (\<lambda>g. count_group (group_complete S D g) (group_differs S D g) (length (flags_at S g))) gs (settled st)"
  using assms
proof (induction gs arbitrary: st)
  case (Cons g gs)
  have g: "gs_current (fold group_row (group_frequencies S D g) st) = Some g"
    "settled (fold group_row (group_frequencies S D g) st) =
      count_group (group_complete S D g) (group_differs S D g) (length (flags_at S g)) (settled st)"
    using settled_group [of S g st D] Cons.prems by auto
  show ?case using Cons.IH [of "fold group_row (group_frequencies S D g) st"] Cons.prems g by auto
qed simp

lemma duplicate_groups_fold:
  "compare_staged_duplicate_flag_groups S D =
     fold (\<lambda>g. count_group (group_complete S D g) (group_differs S D g) (length (flags_at S g))) (duplicate_groups S D) no_flags"
proof -
  have "settled (fold group_row (flag_frequencies S D) group_start) =
      fold (\<lambda>g. count_group (group_complete S D g) (group_differs S D g) (length (flags_at S g))) (duplicate_groups S D) (settled group_start)"
    unfolding flag_frequencies_def by (rule settled_groups) (auto simp: duplicate_groups_def group_start_def)
  then show ?thesis
    by (simp add: compare_staged_duplicate_flag_groups_def Let_def settled_def group_start_def)
qed

section \<open>Counting\<close>

lemma saturating_add: "saturating_add_u64 a b \<le> a + b" "saturating_add_u64 a b = 0 \<longleftrightarrow> a = 0 \<and> b = 0"
  by (auto simp: saturating_add_u64_def u64_max_def)

lemma groups_counted:
  fixes c d :: "'g \<Rightarrow> bool"
  defines "counted \<equiv> \<lambda>n gs r. fold (\<lambda>g. count_group (c g) (d g) (n g)) gs r"
  shows "compared_messages (counted n gs r) \<le> compared_messages r + sum_list (map n (filter c gs))"
    "mismatched_messages (counted n gs r) = 0 \<Longrightarrow>
      mismatched_messages r = 0 \<and> (\<forall>g \<in> set gs. c g \<longrightarrow> n g > 0 \<longrightarrow> \<not> d g)"
proof -
  have b: "compared_messages (count_group x y k r) \<le> compared_messages r + (if x then k else 0)" for x y k r
    using saturating_add(1) by (auto simp: count_group_def Let_def)
  show "compared_messages (counted n gs r) \<le> compared_messages r + sum_list (map n (filter c gs))" unfolding counted_def
  proof (induction gs arbitrary: r)
    case (Cons g gs)
    show ?case using Cons [of "count_group (c g) (d g) (n g) r"] b [of "c g" "d g" "n g" r] by (cases "c g") auto
  qed simp
  show "mismatched_messages r = 0 \<and> (\<forall>g \<in> set gs. c g \<longrightarrow> n g > 0 \<longrightarrow> \<not> d g)" if "mismatched_messages (counted n gs r) = 0"
    using that unfolding counted_def
  proof (induction gs arbitrary: r)
    case (Cons g gs)
    have "mismatched_messages (count_group (c g) (d g) (n g) r) = 0 \<and> (\<forall>g \<in> set gs. c g \<longrightarrow> n g > 0 \<longrightarrow> \<not> d g)"
      by (rule Cons.IH [OF Cons.prems [unfolded fold_simps]])
    then show ?case by (cases "c g"; cases "d g") (auto simp: count_group_def Let_def saturating_add(2))
  qed simp
qed

lemma pairs_counted:
  "compared_messages (fold count_flag_pair ps r) \<le> compared_messages r + length ps"
  "mismatched_messages (fold count_flag_pair ps r) = 0 \<Longrightarrow> excepted_messages (fold count_flag_pair ps r) = 0 \<Longrightarrow>
     mismatched_messages r = 0 \<and> excepted_messages r = 0 \<and> (\<forall>(a, b, p) \<in> set ps. compare_flag_sets a b p = Flags_Match)"
proof -
  have c: "compared_messages (count_flag_pair q r) \<le> Suc (compared_messages r)" for q r
    using saturating_add(1) [of "compared_messages r" 1]
    by (cases q) (auto simp: count_flag_pair_def Let_def split: flag_comparison.splits)
  show "compared_messages (fold count_flag_pair ps r) \<le> compared_messages r + length ps"
  proof (induction ps arbitrary: r)
    case (Cons q ps)
    show ?case using Cons [of "count_flag_pair q r"] c [of q r] by simp
  qed simp
  show "mismatched_messages r = 0 \<and> excepted_messages r = 0 \<and> (\<forall>(a, b, p) \<in> set ps. compare_flag_sets a b p = Flags_Match)"
    if "mismatched_messages (fold count_flag_pair ps r) = 0" "excepted_messages (fold count_flag_pair ps r) = 0"
    using that
  proof (induction ps arbitrary: r)
    case (Cons q ps)
    then have z: "mismatched_messages (count_flag_pair q r) = 0 \<and> excepted_messages (count_flag_pair q r) = 0 \<and>
        (\<forall>(a, b, p) \<in> set ps. compare_flag_sets a b p = Flags_Match)" by simp
    obtain a b p where q: "q = (a, b, p)" by (cases q)
    show ?case using z unfolding q
      by (auto simp: count_flag_pair_def Let_def saturating_add(2) split: flag_comparison.splits)
  qed simp
qed

lemma sum_group_sizes:
  "distinct gs \<Longrightarrow> sum_list (map (\<lambda>g. length (flags_at S g)) gs) = length (filter (\<lambda>r. fst r \<in> set gs) S)"
proof (induction gs)
  case (Cons g gs)
  have "length (filter (\<lambda>r. fst r \<in> set (g # gs)) S) = length (filter (\<lambda>r. fst r = g) S) + length (filter (\<lambda>r. fst r \<in> set gs) S)"
    using Cons.prems by (induction S) auto
  then show ?case using Cons by (simp add: flags_at_def)
qed simp

lemma filters_cover:
  assumes "length xs \<le> length (filter p xs) + length (filter q xs)" "\<And>x. p x \<Longrightarrow> \<not> q x"
  shows "\<forall>x \<in> set xs. p x \<or> q x"
proof -
  have "length (filter p xs) + length (filter q xs) = length (filter (\<lambda>x. p x \<or> q x) xs)"
    using assms(2) by (induction xs) auto
  then have l: "length xs \<le> length (filter (\<lambda>x. p x \<or> q x) xs)" using assms(1) by simp
  show ?thesis
  proof (rule ballI, rule ccontr)
    fix x assume "x \<in> set xs" "\<not> (p x \<or> q x)"
    from length_filter_less [of x xs "\<lambda>x. p x \<or> q x", OF this] l show False by simp
  qed
qed

section \<open>Flags that are all compared and all equal\<close>

text \<open>A row by the identity of the message and the set of its flags.\<close>

definition flag_label :: "flag_identity \<times> str option \<Rightarrow> flag_identity \<times> str set option" where
  "flag_label = (\<lambda>(g, f). (g, map_option (\<lambda>s. set (split_whitespace s)) f))"

lemma compare_match: "compare_flag_sets a b p = Flags_Match \<Longrightarrow> set (split_whitespace a) = set (split_whitespace b)"
  by (auto simp: compare_flag_sets_def Let_def split: if_splits option.splits)

lemma count_flags_at: "count (mset rows) (g, f) = count (mset (flags_at rows g)) f"
  by (induction rows) (auto simp: flags_at_def)

lemma flags_at_label: "flags_at (map flag_label rows) g = map (map_option (\<lambda>s. set (split_whitespace s))) (flags_at rows g)"
  by (induction rows) (auto simp: flags_at_def flag_label_def)

lemma rows_subset:
  assumes "\<And>g. g \<in> fst ` set S \<Longrightarrow> mset (flags_at (map flag_label S) g) = mset (flags_at (map flag_label D) g)"
  shows "image_mset flag_label (mset S) \<subseteq># image_mset flag_label (mset D)"
proof (unfold mset_map [symmetric], rule mset_subset_eqI)
  fix x :: "flag_identity \<times> str set option"
  show "count (mset (map flag_label S)) x \<le> count (mset (map flag_label D)) x"
  proof (cases "fst x \<in> fst ` set S")
    case True
    then show ?thesis using assms [OF True] count_flags_at [of _ "fst x" "snd x"] by (metis order_refl prod.collapse)
  next
    case False
    then have "x \<notin> set (map flag_label S)" by (force simp: flag_label_def)
    then have "count (mset (map flag_label S)) x = 0" by (simp only: count_mset_0_iff simp_thms)
    then show ?thesis by (simp only: le0)
  qed
qed

lemma differs_mset:
  assumes "group_complete S D g" "\<not> group_differs S D g"
  shows "mset (flags_at S g) = mset (flags_at D g)"
proof (rule multiset_eqI)
  fix f
  show "count (mset (flags_at S g)) f = count (mset (flags_at D g)) f"
  proof (cases "f \<in> set (flags_at S g @ flags_at D g)")
    case True
    then have "f \<noteq> None" using assms(1) unfolding group_complete_def by blast
    then have "count_list (flags_at S g) f = count_list (flags_at D g) f" using assms(2) True unfolding group_differs_def by blast
    then show ?thesis by (simp only: count_mset)
  qed (simp add: count_eq_zero_iff [THEN iffD2])
qed

definition pair_row :: "flag_rows \<Rightarrow> flag_rows \<Rightarrow> flag_identity \<times> str option \<Rightarrow> bool" where
  "pair_row S D r \<longleftrightarrow> flag_pair (\<lambda>_. None) S D r \<noteq> None"

lemma flag_pair_SomeD:
  assumes "flag_pair permanent S D r = Some q" "r \<in> set S"
  obtains a b where "flags_at S (fst r) = [Some a]" "flags_at D (fst r) = [Some b]" "q = (a, b, permanent (identity_folder (fst r)))"
proof -
  obtain g sf where r: "r = (g, sf)" by (cases r)
  have l: "length (flags_at S g) = 1" "length (flags_at D g) = 1" using assms(1) by (auto simp: r flag_pair_def split: if_splits)
  then obtain x y where xy: "flags_at S g = [x]" "flags_at D g = [y]" by (metis One_nat_def length_0_conv length_Suc_conv)
  have "sf \<in> set (flags_at S g)" using assms(2) by (force simp: r flags_at_def)
  then have "sf = x" using xy by simp
  then show ?thesis using that assms(1) xy by (auto simp: r flag_pair_def split: option.splits)
qed

lemma flag_pair_permanent: "flag_pair permanent S D r = None \<longleftrightarrow> \<not> pair_row S D r"
  by (cases r) (auto simp: pair_row_def flag_pair_def split: option.splits)

lemma length_map_filter: "length (List.map_filter f xs) = length (filter (\<lambda>x. f x \<noteq> None) xs)"
  by (simp add: map_filter_def)

lemma pairs_at_most:
  "compared_messages (compare_staged_flag_pairs permanent S D) \<le> length (filter (pair_row S D) S)"
  using pairs_counted(1) [of "List.map_filter (flag_pair permanent S D) S" no_flags]
  by (simp add: compare_staged_flag_pairs_def length_map_filter flag_pair_permanent no_flags_def)

definition group_compared :: "flag_rows \<Rightarrow> flag_rows \<Rightarrow> flag_identity \<times> str option \<Rightarrow> bool" where
  "group_compared S D r \<longleftrightarrow> fst r \<in> set (filter (group_complete S D) (duplicate_groups S D))"

lemma groups_at_most:
  "compared_messages (compare_staged_duplicate_flag_groups S D) \<le> length (filter (group_compared S D) S)"
proof -
  have "distinct (filter (group_complete S D) (duplicate_groups S D))" by (simp add: duplicate_groups_def)
  from sum_group_sizes [OF this, of S]
    groups_counted(1) [of "group_complete S D" "group_differs S D" "\<lambda>g. length (flags_at S g)" "duplicate_groups S D" no_flags]
  show ?thesis unfolding group_compared_def by (simp add: duplicate_groups_fold no_flags_def)
qed

lemma pair_not_group: "pair_row S D r \<Longrightarrow> \<not> group_compared S D r"
  by (auto simp: pair_row_def group_compared_def flag_pair_def duplicate_groups_def split: if_splits prod.splits)

lemma compared_at_most_rows:
  "compared_messages (compare_staged_flag_pairs permanent S D) + compared_messages (compare_staged_duplicate_flag_groups S D) \<le> length S"
proof -
  have "length (filter p xs) + length (filter q xs) \<le> length xs" if "\<And>x. p x \<Longrightarrow> \<not> q x" for p q :: "flag_identity \<times> str option \<Rightarrow> bool" and xs
    using that by (induction xs) auto
  from this [of "pair_row S D" "group_compared S D" S, OF pair_not_group] pairs_at_most [of permanent S D] groups_at_most [of S D]
  show ?thesis by simp
qed

lemma all_flags_compared:
  fixes permanent :: "str \<Rightarrow> str option" and S D :: flag_rows
  defines "P \<equiv> compare_staged_flag_pairs permanent S D" and "G \<equiv> compare_staged_duplicate_flag_groups S D"
  assumes c: "length S \<le> compared_messages P + compared_messages G"
    and z: "mismatched_messages P = 0" "excepted_messages P = 0" "mismatched_messages G = 0"
  shows "image_mset flag_label (mset S) \<subseteq># image_mset flag_label (mset D)"
proof (rule rows_subset)
  let ?c = "group_complete S D" and ?gs = "duplicate_groups S D"
  have l: "length S \<le> length (filter (pair_row S D) S) + length (filter (group_compared S D) S)"
    using c pairs_at_most [of permanent S D] groups_at_most [of S D] by (simp add: P_def G_def)
  note cover = filters_cover [OF l pair_not_group]
  fix g assume "g \<in> fst ` set S"
  then obtain r where r: "r \<in> set S" "g = fst r" by blast
  from bspec [OF cover r(1)] show "mset (flags_at (map flag_label S) g) = mset (flags_at (map flag_label D) g)"
  proof
    assume "pair_row S D r"
    then obtain q where q: "flag_pair permanent S D r = Some q" using flag_pair_permanent [of permanent S D r] by auto
    then obtain a b where ab: "flags_at S g = [Some a]" "flags_at D g = [Some b]" "q = (a, b, permanent (identity_folder g))"
      unfolding r(2) by (rule flag_pair_SomeD [OF _ r(1)])
    have "q \<in> set (List.map_filter (flag_pair permanent S D) S)" unfolding map_filter_def comp_def using q r(1)
      by (cases q) (auto intro!: rev_image_eqI [of r])
    then have "compare_flag_sets a b (permanent (identity_folder g)) = Flags_Match"
      using pairs_counted(2) [of "List.map_filter (flag_pair permanent S D) S" no_flags] z(1,2)
      by (auto simp: P_def compare_staged_flag_pairs_def ab(3))
    then show ?thesis using ab compare_match by (simp add: flags_at_label)
  next
    assume "group_compared S D r"
    then have q: "g \<in> set ?gs" "?c g" by (simp_all add: group_compared_def r(2))
    have "length (flags_at S g) > 0" using q(1) by (auto simp: duplicate_groups_def)
    then have "\<not> group_differs S D g"
      using groups_counted(2) [of ?c "group_differs S D" "\<lambda>g. length (flags_at S g)" ?gs no_flags] z(3) q
      by (auto simp: G_def duplicate_groups_fold)
    then have "mset (flags_at S g) = mset (flags_at D g)" using q(2) by (intro differs_mset) simp_all
    then show ?thesis by (simp add: flags_at_label)
  qed
qed

lemma verified_flags:
  assumes "compared_messages (verify_staged_flags V permanent) = length (vi_source V)"
    "mismatched_messages (verify_staged_flags V permanent) = 0" "excepted_messages (verify_staged_flags V permanent) = 0"
  shows "image_mset flag_label (mset (source_rows V)) \<subseteq># image_mset flag_label (mset (dest_rows V))"
    "length (source_rows V) = length (vi_source V)"
proof -
  let ?P = "compare_staged_flag_pairs permanent (source_rows V) (dest_rows V)" and ?G = "compare_staged_duplicate_flag_groups (source_rows V) (dest_rows V)"
  have c: "length (vi_source V) \<le> compared_messages ?P + compared_messages ?G"
    using assms(1) saturating_add(1) [of "compared_messages ?P" "compared_messages ?G"] by (simp add: verify_staged_flags_def Let_def)
  have z: "mismatched_messages ?P = 0" "mismatched_messages ?G = 0" "excepted_messages ?P = 0"
    using assms(2,3) by (simp_all add: verify_staged_flags_def Let_def saturating_add(2))
  have le: "length (source_rows V) \<le> length (vi_source V)" by (simp add: source_rows_def length_map_filter)
  show "image_mset flag_label (mset (source_rows V)) \<subseteq># image_mset flag_label (mset (dest_rows V))"
    by (rule all_flags_compared [OF order_trans [OF le c] z(1,3,2)])
  have "compared_messages ?P + compared_messages ?G \<le> length (source_rows V)"
    by (rule compared_at_most_rows)
  then show "length (source_rows V) = length (vi_source V)" using c le by simp
qed

lemma equal_sizes_mset: "M \<subseteq># N \<Longrightarrow> size M = size N \<Longrightarrow> M = (N :: 'a multiset)"
  by (metis mset_subset_size nat_less_le subset_mset.le_neq_trans)

lemma exact_body_evidence:
  assumes V: "verify_input_ok V" and df: "distinct (map fst SF)" "distinct (map fst DF)"
    and e: "body_hash_evidence V SF DF permanent byte_sums folders = Inr e" "is_exact_match e"
  shows "image_mset (\<lambda>k. (expected_destination_folder V k, map_of SF k)) (mset (map fst (vi_source V))) =
      image_mset (\<lambda>k. (mk_mailbox k, map_of DF k)) (mset (map fst (vi_dest V)))"
    and "image_mset flag_label (mset (source_rows V)) = image_mset flag_label (mset (dest_rows V))"
    and "length (source_rows V) = length (vi_source V)"
proof -
  let ?f = "verify_staged_flags V permanent"
  obtain ms v where d: "detect_mismatches_with_content_fingerprints V SF DF = Inr (ms, v)"
    and ev: "e = message_evidence Method_BodyHash v ?f byte_sums folders"
    using e(1) by (auto simp: body_hash_evidence_def simp del: find.simps split: sum.splits option.splits)
  have "exact_outcome (method_outcome Method_BodyHash ?f (summary_outcome v))" and nf: "\<not> has_flag_mismatch e"
    using e(2) by (auto simp: is_exact_match_def has_verification_exception_def verification_outcome_def ev message_evidence_def exact_outcome_def split: if_splits)
  then have o: "summary_outcome v = Out_ExactMetadataMatch"
    by (auto simp: method_outcome_def exact_outcome_def summary_outcome_def Let_def split: if_splits)
  show c: "image_mset (\<lambda>k. (expected_destination_folder V k, map_of SF k)) (mset (map fst (vi_source V))) =
      image_mset (\<lambda>k. (mk_mailbox k, map_of DF k)) (mset (map fst (vi_dest V)))"
    by (rule exact_contents [OF V df d o])
  have t: "vs_total_source v = length (vi_source V)" by (rule content_totals [OF V df d])
  have f: "mismatched_messages ?f = 0" "excepted_messages ?f = 0" "compared_messages ?f = length (vi_source V)"
    using nf by (auto simp: has_flag_mismatch_def flag_difference_is_present_def ev message_evidence_def t)
  show l: "length (source_rows V) = length (vi_source V)" by (rule verified_flags(2) [OF f(3,1,2)])
  have "length (vi_source V) = length (vi_dest V)" using arg_cong [OF c, of size] by simp
  moreover have "length (source_rows V) \<le> length (dest_rows V)" using size_mset_mono [OF verified_flags(1) [OF f(3,1,2)]] by simp
  moreover have "length (dest_rows V) \<le> length (vi_dest V)" by (simp add: dest_rows_def length_map_filter)
  ultimately have "length (source_rows V) = length (dest_rows V)" using l by simp
  then show "image_mset flag_label (mset (source_rows V)) = image_mset flag_label (mset (dest_rows V))"
    using verified_flags(1) [OF f(3,1,2)] by (intro equal_sizes_mset) simp_all
qed

section \<open>Properties\<close>


definition demo_flagged :: verify_input where
  "demo_flagged =
     (let V = demo_mailboxes 7; tag = map (\<lambda>(k, m). (k, m\<lparr>em_flags := Some ''work''\<rparr>)) in
      V\<lparr>vi_source := tag (vi_source V), vi_dest := tag (vi_dest V)\<rparr>)"


end
