(* ===== verification/Webhook_Outbox.thy ===== *)
theory Webhook_Outbox
  imports Ledger_Tables
    "HOL-Library.List_Lexorder" "HOL-Library.Char_ord" "HOL-Library.Product_Lexorder"
begin

text \<open>
  The webhook outbox: the table \<^verbatim>\<open>webhook_deliveries\<close> and the operations of \<^verbatim>\<open>core/webhook_outbox.rs\<close>, and the
  loop of \<^verbatim>\<open>cli/maintenance.rs\<close> that works it off. A timestamp is a number of seconds; the HTTP request is a
  parameter of the loop. The chapter shows that an event is handed out a bounded number of times over any sequence
  of operations, and to one worker at a time.
\<close>

section \<open>The table\<close>

definition MAX_WEBHOOK_PAYLOAD_BYTES :: nat where
  "MAX_WEBHOOK_PAYLOAD_BYTES = 128 * 1024"

definition MAX_WEBHOOK_ATTEMPTS :: nat where
  "MAX_WEBHOOK_ATTEMPTS = 12"

definition WEBHOOK_DELIVERY_LEASE_SECONDS :: int where
  "WEBHOOK_DELIVERY_LEASE_SECONDS = 120"

datatype delivery_status = Queued | Delivering | Delivered | Dead_Letter

record delivery =
  wd_event :: str
  wd_project :: str
  wd_type :: str
  wd_payload :: str
  wd_digest :: str
  wd_attempts :: nat
  wd_status :: delivery_status
  wd_last_error :: "str option"
  wd_next_attempt :: int
  wd_created :: int
  wd_delivered_at :: "int option"
  wd_lease_owner :: "str option"
  wd_lease_until :: "int option"

type_synonym outbox = "delivery list"

definition delivery_of :: "outbox \<Rightarrow> str \<Rightarrow> delivery option" where
  "delivery_of ob e = find (\<lambda>d. wd_event d = e) ob"

section \<open>Operations\<close>

definition new_delivery :: "int \<Rightarrow> str \<Rightarrow> str \<Rightarrow> str \<Rightarrow> str \<Rightarrow> str \<Rightarrow> delivery" where
  "new_delivery now e p ty payload digest =
     \<lparr>wd_event = e, wd_project = p, wd_type = ty, wd_payload = payload, wd_digest = digest, wd_attempts = 0,
      wd_status = Queued, wd_last_error = None, wd_next_attempt = now, wd_created = now, wd_delivered_at = None,
      wd_lease_owner = None, wd_lease_until = None\<rparr>"

definition enqueue_webhook_delivery ::
  "int \<Rightarrow> str \<Rightarrow> str \<Rightarrow> str \<Rightarrow> str \<Rightarrow> str \<Rightarrow> outbox \<Rightarrow> ledger_error + outbox" where
  "enqueue_webhook_delivery now e p ty payload digest ob =
     (if e = [] \<or> p = [] \<or> ty = [] \<or> (digest \<noteq> [] \<and> length digest \<noteq> 64) \<or> length payload > MAX_WEBHOOK_PAYLOAD_BYTES
      then Inl Invalid_Query
      else case delivery_of ob e of
             None \<Rightarrow> Inr (ob @ [new_delivery now e p ty payload digest])
           | Some d \<Rightarrow>
               if wd_payload d = payload \<and> wd_digest d = digest \<and> wd_type d = ty \<and> wd_project d = p then Inr ob
               else Inl Invalid_Query)"

definition in_scope :: "str option \<Rightarrow> delivery \<Rightarrow> bool" where
  "in_scope p d \<longleftrightarrow> (case p of None \<Rightarrow> True | Some q \<Rightarrow> wd_project d = q)"

definition bind_unbound_webhook_deliveries :: "str \<Rightarrow> str option \<Rightarrow> outbox \<Rightarrow> ledger_error + outbox" where
  "bind_unbound_webhook_deliveries digest p ob =
     (if length digest \<noteq> 64 \<or> p = Some [] then Inl Invalid_Query
      else Inr (map (\<lambda>d. if wd_digest d = [] \<and> wd_status d = Queued \<and> in_scope p d then d\<lparr>wd_digest := digest\<rparr> else d) ob))"

text \<open>One more attempt has failed: back to the queue, or to the dead letters after the last one.\<close>

definition count_attempt :: "str \<Rightarrow> int \<Rightarrow> delivery \<Rightarrow> delivery" where
  "count_attempt error next_at d =
     d\<lparr>wd_attempts := wd_attempts d + 1,
       wd_status := (if wd_attempts d + 1 \<ge> MAX_WEBHOOK_ATTEMPTS then Dead_Letter else Queued),
       wd_last_error := Some error, wd_next_attempt := next_at, wd_lease_owner := None, wd_lease_until := None\<rparr>"

definition lease_expired :: "int \<Rightarrow> delivery \<Rightarrow> bool" where
  "lease_expired now d \<longleftrightarrow>
     wd_status d = Delivering \<and> (case wd_lease_until d of None \<Rightarrow> False | Some u \<Rightarrow> u \<le> now)"

definition reclaim_expired :: "int \<Rightarrow> str \<Rightarrow> str option \<Rightarrow> outbox \<Rightarrow> outbox" where
  "reclaim_expired now digest p ob =
     map (\<lambda>d. if wd_digest d = digest \<and> in_scope p d \<and> lease_expired now d
              then count_attempt ''delivery lease expired before an outcome was recorded'' now d else d) ob"

definition due :: "int \<Rightarrow> str \<Rightarrow> str option \<Rightarrow> delivery \<Rightarrow> bool" where
  "due now digest p d \<longleftrightarrow>
     wd_digest d = digest \<and> in_scope p d \<and> wd_status d = Queued \<and> wd_next_attempt d \<le> now"

definition lease_to :: "str \<Rightarrow> int \<Rightarrow> delivery \<Rightarrow> delivery" where
  "lease_to owner until d = d\<lparr>wd_status := Delivering, wd_lease_owner := Some owner, wd_lease_until := Some until\<rparr>"

definition chosen :: "int \<Rightarrow> str \<Rightarrow> str option \<Rightarrow> nat \<Rightarrow> outbox \<Rightarrow> str list" where
  "chosen now digest p limit ob =
     map wd_event (take (min limit 100) (sort_key (\<lambda>d. (wd_created d, wd_event d)) (filter (due now digest p) ob)))"

definition claim_webhook_deliveries ::
  "int \<Rightarrow> str \<Rightarrow> str option \<Rightarrow> str \<Rightarrow> nat \<Rightarrow> outbox \<Rightarrow> ledger_error + outbox \<times> delivery list" where
  "claim_webhook_deliveries now digest p owner limit ob =
     (if length digest \<noteq> 64 \<or> owner = [] \<or> p = Some [] then Inl Invalid_Query
      else let ob1 = reclaim_expired now digest p ob;
               events = set (chosen now digest p limit ob1);
               lease = lease_to owner (now + WEBHOOK_DELIVERY_LEASE_SECONDS) in
           Inr (map (\<lambda>d. if wd_event d \<in> events then lease d else d) ob1,
                map lease (filter (\<lambda>d. wd_event d \<in> events) ob1)))"

definition holds_lease :: "str \<Rightarrow> str \<Rightarrow> delivery \<Rightarrow> bool" where
  "holds_lease e owner d \<longleftrightarrow> wd_event d = e \<and> wd_status d = Delivering \<and> wd_lease_owner d = Some owner"

definition update_leased :: "str \<Rightarrow> str \<Rightarrow> (delivery \<Rightarrow> delivery) \<Rightarrow> outbox \<Rightarrow> ledger_error + outbox" where
  "update_leased e owner f ob =
     (if length (filter (holds_lease e owner) ob) \<noteq> 1 then Inl Invalid_Query
      else Inr (map (\<lambda>d. if holds_lease e owner d then f d else d) ob))"

definition mark_webhook_delivered :: "int \<Rightarrow> str \<Rightarrow> str \<Rightarrow> outbox \<Rightarrow> ledger_error + outbox" where
  "mark_webhook_delivered now e owner =
     update_leased e owner (\<lambda>d. d\<lparr>wd_status := Delivered, wd_delivered_at := Some now, wd_last_error := None,
       wd_lease_owner := None, wd_lease_until := None\<rparr>)"

definition failure_backoff :: "nat \<Rightarrow> int" where
  "failure_backoff attempts = push_bit (min (attempts + 1) 10 - 1) 2"

definition mark_webhook_failed :: "int \<Rightarrow> str \<Rightarrow> str \<Rightarrow> str \<Rightarrow> outbox \<Rightarrow> ledger_error + outbox" where
  "mark_webhook_failed now e owner error =
     update_leased e owner (\<lambda>d. count_attempt (bounded_event_detail error) (now + failure_backoff (wd_attempts d)) d)"

section \<open>The worker\<close>

text \<open>
  One call of the delivery command after it has queued its snapshot: at most a hundred deliveries, one at a time.
  The clock gives the time of the claim and of the report in each round.
\<close>

definition saturating_add_u32 :: "nat \<Rightarrow> nat \<Rightarrow> nat" where
  "saturating_add_u32 a b = min (a + b) u32_max"

datatype worker_error = Claim_Failed | Report_Failed

definition report ::
  "(str \<Rightarrow> str \<Rightarrow> str \<Rightarrow> str + nat) \<Rightarrow> int \<Rightarrow> str \<Rightarrow> delivery \<Rightarrow> outbox \<Rightarrow> (ledger_error + outbox) \<times> nat \<times> nat" where
  "report post now owner d ob =
     (case post (wd_event d) (wd_type d) (wd_payload d) of
        Inr code \<Rightarrow>
          if 200 \<le> code \<and> code < 300 then (mark_webhook_delivered now (wd_event d) owner ob, 1, 0)
          else (mark_webhook_failed now (wd_event d) owner
                  (''endpoint rejected delivery with HTTP '' @ nat_to_string code) ob, 0, 1)
      | Inl error \<Rightarrow> (mark_webhook_failed now (wd_event d) owner error ob, 0, 1))"

fun deliver_rounds ::
  "nat \<Rightarrow> (nat \<Rightarrow> int \<times> int) \<Rightarrow> (str \<Rightarrow> str \<Rightarrow> str \<Rightarrow> str + nat) \<Rightarrow> str \<Rightarrow> str option \<Rightarrow> str \<Rightarrow> outbox \<times> nat \<times> nat \<Rightarrow>
     worker_error + outbox \<times> nat \<times> nat" where
  "deliver_rounds 0 clock post digest p owner (ob, ok, bad) = Inr (ob, ok, bad)"
| "deliver_rounds (Suc n) clock post digest p owner (ob, ok, bad) =
     (case claim_webhook_deliveries (fst (clock n)) digest p owner 1 ob of
        Inl _ \<Rightarrow> Inl Claim_Failed
      | Inr (ob1, []) \<Rightarrow> Inr (ob1, ok, bad)
      | Inr (ob1, d # _) \<Rightarrow>
          (case report post (snd (clock n)) owner d ob1 of
             (Inl _, _) \<Rightarrow> Inl Report_Failed
           | (Inr ob2, s, f) \<Rightarrow>
               deliver_rounds n clock post digest p owner (ob2, saturating_add_u32 ok s, saturating_add_u32 bad f)))"

definition deliver_queued ::
  "(nat \<Rightarrow> int \<times> int) \<Rightarrow> (str \<Rightarrow> str \<Rightarrow> str \<Rightarrow> str + nat) \<Rightarrow> str \<Rightarrow> str option \<Rightarrow> str \<Rightarrow> outbox \<Rightarrow>
     worker_error + outbox \<times> nat \<times> nat" where
  "deliver_queued clock post digest p owner ob = deliver_rounds 100 clock post digest p owner (ob, 0, 0)"

section \<open>Sequences of operations\<close>

datatype outbox_op =
    Enqueue str str str str str
  | Bind str "str option"
  | Claim str "str option" str nat
  | Report_Delivered str str
  | Report_Failed_Attempt str str str

text \<open>An operation at a time: the events it hands out and the table after it; a refused one changes nothing.\<close>

fun outbox_step :: "int \<times> outbox_op \<Rightarrow> outbox \<Rightarrow> str list \<times> outbox" where
  "outbox_step (now, Enqueue e p ty payload digest) ob =
     (case enqueue_webhook_delivery now e p ty payload digest ob of Inl _ \<Rightarrow> ([], ob) | Inr ob' \<Rightarrow> ([], ob'))"
| "outbox_step (now, Bind digest p) ob =
     (case bind_unbound_webhook_deliveries digest p ob of Inl _ \<Rightarrow> ([], ob) | Inr ob' \<Rightarrow> ([], ob'))"
| "outbox_step (now, Claim digest p owner limit) ob =
     (case claim_webhook_deliveries now digest p owner limit ob of
        Inl _ \<Rightarrow> ([], ob)
      | Inr (ob', ds) \<Rightarrow> (map wd_event ds, ob'))"
| "outbox_step (now, Report_Delivered e owner) ob =
     (case mark_webhook_delivered now e owner ob of Inl _ \<Rightarrow> ([], ob) | Inr ob' \<Rightarrow> ([], ob'))"
| "outbox_step (now, Report_Failed_Attempt e owner error) ob =
     (case mark_webhook_failed now e owner error ob of Inl _ \<Rightarrow> ([], ob) | Inr ob' \<Rightarrow> ([], ob'))"

text \<open>Everything that a sequence of operations hands out.\<close>

fun grants :: "('o \<Rightarrow> 's \<Rightarrow> 'g list \<times> 's) \<Rightarrow> 'o list \<Rightarrow> 's \<Rightarrow> 'g list" where
  "grants step [] s = []"
| "grants step (x # xs) s = fst (step x s) @ grants step xs (snd (step x s))"

text \<open>
  The interface between a table that hands out grants and the bound on them: every step pays for what it hands
  out with a potential that never grows.
\<close>

locale granting_system =
  fixes step :: "'o \<Rightarrow> 's \<Rightarrow> 'g list \<times> 's" and inv :: "'s \<Rightarrow> bool" and potential :: "'g \<Rightarrow> 's \<Rightarrow> nat"
  assumes step_inv: "inv s \<Longrightarrow> inv (snd (step x s))"
    and step_pays: "inv s \<Longrightarrow> count_list (fst (step x s)) g + potential g (snd (step x s)) \<le> potential g s"
begin

lemma grants_bounded: "inv s \<Longrightarrow> count_list (grants step xs s) g \<le> potential g s"
proof (induction xs arbitrary: s)
  case (Cons x xs)
  have "count_list (grants step xs (snd (step x s))) g \<le> potential g (snd (step x s))" by (rule Cons.IH [OF step_inv [OF Cons.prems]])
  then show ?case using step_pays [OF Cons.prems, of x g] by simp
qed simp

lemma inv_run: "inv s \<Longrightarrow> inv (fold (\<lambda>x s. snd (step x s)) xs s)"
  by (induction xs arbitrary: s) (simp_all add: step_inv)

end

section \<open>The invariant and the potential\<close>

text \<open>
  Rows that are not settled have attempts left, and a lease exists exactly while a delivery is in flight: the
  invariant that \<^verbatim>\<open>core/database/invariants.rs\<close> checks.
\<close>

definition delivery_ok :: "delivery \<Rightarrow> bool" where
  "delivery_ok d \<longleftrightarrow>
     (wd_status d = Delivering \<longleftrightarrow> wd_lease_owner d \<noteq> None \<and> wd_lease_until d \<noteq> None) \<and>
     (wd_status d = Queued \<or> wd_status d = Delivering \<longrightarrow> wd_attempts d < MAX_WEBHOOK_ATTEMPTS) \<and>
     wd_attempts d \<le> MAX_WEBHOOK_ATTEMPTS"

definition outbox_ok :: "outbox \<Rightarrow> bool" where
  "outbox_ok ob \<longleftrightarrow> distinct (map wd_event ob) \<and> list_all delivery_ok ob"

definition remaining :: "delivery \<Rightarrow> nat" where
  "remaining d =
     (case wd_status d of
        Queued \<Rightarrow> MAX_WEBHOOK_ATTEMPTS - wd_attempts d
      | Delivering \<Rightarrow> MAX_WEBHOOK_ATTEMPTS - (wd_attempts d + 1)
      | _ \<Rightarrow> 0)"

definition hand_outs_left :: "str \<Rightarrow> outbox \<Rightarrow> nat" where
  "hand_outs_left e ob = (case delivery_of ob e of None \<Rightarrow> MAX_WEBHOOK_ATTEMPTS | Some d \<Rightarrow> remaining d)"

text \<open>A change of rows that keeps their keys and their invariant.\<close>

definition keeps_rows :: "(delivery \<Rightarrow> delivery) \<Rightarrow> bool" where
  "keeps_rows f \<longleftrightarrow> (\<forall>d. wd_event (f d) = wd_event d \<and> (delivery_ok d \<longrightarrow> delivery_ok (f d)))"

lemma distinct_count_list_at_most: "distinct xs \<Longrightarrow> count_list xs x \<le> 1"
  by (induction xs) (auto simp: count_list_0_iff)

lemma delivery_of_map: "keeps_rows f \<Longrightarrow> delivery_of (map f ob) e = map_option f (delivery_of ob e)"
  by (induction ob) (simp_all add: delivery_of_def keeps_rows_def)

lemma outbox_ok_map: "keeps_rows f \<Longrightarrow> outbox_ok ob \<Longrightarrow> outbox_ok (map f ob)"
  by (auto simp: outbox_ok_def keeps_rows_def list_all_iff comp_def)

lemma delivery_of_SomeD: "delivery_of ob e = Some d \<Longrightarrow> d \<in> set ob \<and> wd_event d = e"
  by (auto simp: delivery_of_def dest: find_SomeD)

lemma delivery_of_iff:
  assumes "outbox_ok ob"
  shows "delivery_of ob e = Some d \<longleftrightarrow> d \<in> set ob \<and> wd_event d = e"
proof
  assume h: "d \<in> set ob \<and> wd_event d = e"
  then obtain d' where d': "delivery_of ob e = Some d'" by (cases "delivery_of ob e") (auto simp: delivery_of_def find_None_iff)
  have "d' \<in> set ob" "wd_event d' = wd_event d" using delivery_of_SomeD [OF d'] h by simp_all
  then have "d' = d" using h assms by (auto simp: outbox_ok_def distinct_map dest: inj_onD)
  then show "delivery_of ob e = Some d" using d' by simp
qed (rule delivery_of_SomeD)

lemma row_changes:
  "keeps_rows (\<lambda>d. if P d then d\<lparr>wd_digest := digest\<rparr> else d)"
  "keeps_rows (\<lambda>d. if P d \<and> lease_expired now d then count_attempt err next_at d else d)"
  "keeps_rows (\<lambda>d. if holds_lease e owner d then count_attempt (g d) (n d) d else d)"
  "keeps_rows (\<lambda>d. if holds_lease e owner d then d\<lparr>wd_status := Delivered, wd_delivered_at := Some now, wd_last_error := None,
     wd_lease_owner := None, wd_lease_until := None\<rparr> else d)"
  by (auto simp: keeps_rows_def delivery_ok_def count_attempt_def lease_expired_def holds_lease_def)

lemma count_attempt_remaining: "wd_status d = Delivering \<Longrightarrow> remaining (count_attempt err n d) \<le> remaining d"
  by (simp add: remaining_def count_attempt_def)

lemma hand_outs_map:
  assumes "keeps_rows f" "\<And>d. remaining (f d) \<le> remaining d"
  shows "hand_outs_left e (map f ob) \<le> hand_outs_left e ob"
  using assms(2) by (cases "delivery_of ob e") (simp_all add: hand_outs_left_def delivery_of_map [OF assms(1)])

section \<open>Claims\<close>

lemma reclaim_keeps:
  "outbox_ok ob \<Longrightarrow> outbox_ok (reclaim_expired now digest p ob)"
  "hand_outs_left e (reclaim_expired now digest p ob) \<le> hand_outs_left e ob"
proof -
  let ?f = "\<lambda>d. if wd_digest d = digest \<and> in_scope p d \<and> lease_expired now d
    then count_attempt ''delivery lease expired before an outcome was recorded'' now d else d"
  have k: "keeps_rows ?f" using row_changes(2) [of "\<lambda>d. wd_digest d = digest \<and> in_scope p d" now] by (simp only: conj_assoc)
  show "outbox_ok ob \<Longrightarrow> outbox_ok (reclaim_expired now digest p ob)" unfolding reclaim_expired_def by (rule outbox_ok_map [OF k])
  show "hand_outs_left e (reclaim_expired now digest p ob) \<le> hand_outs_left e ob" unfolding reclaim_expired_def
    by (rule hand_outs_map [OF k]) (simp add: count_attempt_remaining lease_expired_def)
qed

lemma chosen_due:
  assumes "outbox_ok ob" "wd_event d \<in> set (chosen now digest p limit ob)" "d \<in> set ob"
  shows "due now digest p d"
proof -
  obtain d' where d': "d' \<in> set ob" "due now digest p d'" "wd_event d' = wd_event d"
    using assms(2) by (auto simp: chosen_def dest!: in_set_takeD)
  then have "d' = d" using assms(1,3) by (auto simp: outbox_ok_def distinct_map dest: inj_onD)
  then show ?thesis using d'(2) by simp
qed

text \<open>A claim, as a change of the rows that were reclaimed before.\<close>

definition lease_row :: "str set \<Rightarrow> str \<Rightarrow> int \<Rightarrow> delivery \<Rightarrow> delivery" where
  "lease_row E owner until d = (if wd_event d \<in> E \<and> wd_status d = Queued then lease_to owner until d else d)"

lemma lease_row_keeps: "keeps_rows (lease_row E owner until)"
  by (simp add: keeps_rows_def lease_row_def lease_to_def delivery_ok_def)

lemma claim_rows:
  assumes ok: "outbox_ok ob" and c: "claim_webhook_deliveries now digest p owner limit ob = Inr (ob', ds)"
  obtains E where "E = set (chosen now digest p limit (reclaim_expired now digest p ob))"
    "ob' = map (lease_row E owner (now + WEBHOOK_DELIVERY_LEASE_SECONDS)) (reclaim_expired now digest p ob)"
    "map wd_event ds = filter (\<lambda>e. e \<in> E) (map wd_event (reclaim_expired now digest p ob))"
    "\<And>d. d \<in> set (reclaim_expired now digest p ob) \<Longrightarrow> wd_event d \<in> E \<Longrightarrow> due now digest p d"
    "ds = filter (\<lambda>d. wd_event d \<in> E) ob'"
proof -
  let ?ob = "reclaim_expired now digest p ob"
  let ?E = "set (chosen now digest p limit ?ob)" and ?u = "now + WEBHOOK_DELIVERY_LEASE_SECONDS"
  have due: "due now digest p d" if "d \<in> set ?ob" "wd_event d \<in> ?E" for d
    using chosen_due [OF reclaim_keeps(1) [OF ok] that(2,1)] .
  have l: "lease_row ?E owner ?u d = (if wd_event d \<in> ?E then lease_to owner ?u d else d)" if "d \<in> set ?ob" for d
    using due [OF that] by (simp add: lease_row_def due_def)
  have e: "wd_event (lease_to owner ?u d) = wd_event d" for d by (simp add: lease_to_def)
  have o: "ob' = map (\<lambda>d. if wd_event d \<in> ?E then lease_to owner ?u d else d) ?ob"
    and ds: "ds = map (lease_to owner ?u) (filter (\<lambda>d. wd_event d \<in> ?E) ?ob)"
    using c by (auto simp: claim_webhook_deliveries_def Let_def split: if_splits)
  have "map (lease_to owner ?u) (filter (\<lambda>d. wd_event d \<in> X) ys) =
      filter (\<lambda>d. wd_event d \<in> X) (map (\<lambda>d. if wd_event d \<in> X then lease_to owner ?u d else d) ys)" for X ys
    by (induction ys) (auto simp: e)
  then have "ds = filter (\<lambda>d. wd_event d \<in> ?E) ob'" unfolding o ds .
  moreover have "map wd_event ds = filter (\<lambda>x. x \<in> ?E) (map wd_event ?ob)" unfolding ds by (simp add: e filter_map comp_def)
  moreover have "ob' = map (lease_row ?E owner ?u) ?ob" unfolding o using l by simp
  ultimately show ?thesis using that [OF refl _ _ due] by blast
qed

lemma claim_keeps:
  assumes ok: "outbox_ok ob" and c: "claim_webhook_deliveries now digest p owner limit ob = Inr (ob', ds)"
  shows "outbox_ok ob'" "count_list (map wd_event ds) e + hand_outs_left e ob' \<le> hand_outs_left e ob"
proof -
  let ?ob = "reclaim_expired now digest p ob" and ?u = "now + WEBHOOK_DELIVERY_LEASE_SECONDS"
  have ok1: "outbox_ok ?ob" by (rule reclaim_keeps(1) [OF ok])
  obtain E where ob': "ob' = map (lease_row E owner ?u) ?ob" and ds: "map wd_event ds = filter (\<lambda>e. e \<in> E) (map wd_event ?ob)"
    and due: "\<And>d. d \<in> set ?ob \<Longrightarrow> wd_event d \<in> E \<Longrightarrow> due now digest p d" by (rule claim_rows [OF ok c]) blast
  show "outbox_ok ob'" unfolding ob' by (rule outbox_ok_map [OF lease_row_keeps ok1])
  have d: "distinct (map wd_event ds)" unfolding ds using ok1 by (simp add: outbox_ok_def)
  have "count_list (map wd_event ds) e + hand_outs_left e ob' \<le> hand_outs_left e ?ob"
  proof (cases "delivery_of ?ob e")
    case None
    then have "e \<notin> set (map wd_event ?ob)" by (auto simp: delivery_of_def find_None_iff)
    then have "count_list (map wd_event ds) e = 0" unfolding ds by (simp add: count_list_0_iff)
    then show ?thesis using None by (simp add: hand_outs_left_def ob' delivery_of_map [OF lease_row_keeps])
  next
    case (Some r)
    have r: "r \<in> set ?ob" "wd_event r = e" using delivery_of_SomeD [OF Some] by simp_all
    have "delivery_ok r" using ok1 r(1) by (simp add: outbox_ok_def list_all_iff)
    then have pay: "remaining (lease_row E owner ?u r) + of_bool (e \<in> E) \<le> remaining r"
      using due [OF r(1)] r(2) by (auto simp: due_def lease_row_def lease_to_def remaining_def delivery_ok_def)
    have "count_list (map wd_event ds) e \<le> of_bool (e \<in> E)"
      using distinct_count_list_at_most [OF d, of e] unfolding ds by (auto simp: count_list_0_iff)
    then show ?thesis using pay by (simp add: hand_outs_left_def ob' delivery_of_map [OF lease_row_keeps] Some)
  qed
  then show "count_list (map wd_event ds) e + hand_outs_left e ob' \<le> hand_outs_left e ob"
    using reclaim_keeps(2) [of e now digest p ob] by linarith
qed

section \<open>Every step\<close>

lemma update_leased_keeps:
  assumes "update_leased e owner f ob = Inr ob'" "keeps_rows (\<lambda>d. if holds_lease e owner d then f d else d)"
    "\<And>d. wd_status d = Delivering \<Longrightarrow> remaining (f d) \<le> remaining d"
  shows "outbox_ok ob \<Longrightarrow> outbox_ok ob'" "hand_outs_left x ob' \<le> hand_outs_left x ob"
proof -
  have ob': "ob' = map (\<lambda>d. if holds_lease e owner d then f d else d) ob" using assms(1) by (simp add: update_leased_def split: if_splits)
  show "outbox_ok ob \<Longrightarrow> outbox_ok ob'" unfolding ob' by (rule outbox_ok_map [OF assms(2)])
  show "hand_outs_left x ob' \<le> hand_outs_left x ob" unfolding ob'
    by (rule hand_outs_map [OF assms(2)]) (simp add: assms(3) holds_lease_def)
qed

lemma enqueue_keeps:
  assumes ok: "outbox_ok ob" and q: "enqueue_webhook_delivery now e p ty payload digest ob = Inr ob'"
  shows "outbox_ok ob'" "hand_outs_left x ob' \<le> hand_outs_left x ob"
proof -
  have "ob' = ob \<or> delivery_of ob e = None \<and> ob' = ob @ [new_delivery now e p ty payload digest]"
    using q by (auto simp: enqueue_webhook_delivery_def split: if_splits option.splits)
  then consider "ob' = ob" | "delivery_of ob e = None" "ob' = ob @ [new_delivery now e p ty payload digest]" by (elim disjE conjE)
  then have "outbox_ok ob' \<and> hand_outs_left x ob' \<le> hand_outs_left x ob"
  proof cases
    case 2
    have f: "delivery_of ob' x = (case delivery_of ob x of None \<Rightarrow> if e = x then Some (new_delivery now e p ty payload digest) else None | Some d \<Rightarrow> Some d)"
      unfolding 2(2) delivery_of_def by (induction ob) (auto simp: new_delivery_def)
    have "e \<notin> wd_event ` set ob" using 2(1) by (auto simp: delivery_of_def find_None_iff)
    then have "outbox_ok ob'" using ok by (auto simp: 2(2) outbox_ok_def new_delivery_def delivery_ok_def MAX_WEBHOOK_ATTEMPTS_def)
    moreover have "hand_outs_left x ob' \<le> hand_outs_left x ob"
      unfolding hand_outs_left_def f by (auto simp: new_delivery_def remaining_def split: option.splits)
    ultimately show ?thesis by blast
  qed (use ok in simp)
  then show "outbox_ok ob'" "hand_outs_left x ob' \<le> hand_outs_left x ob" by simp_all
qed

lemma bind_keeps:
  assumes "bind_unbound_webhook_deliveries digest p ob = Inr ob'"
  shows "outbox_ok ob \<Longrightarrow> outbox_ok ob'" "hand_outs_left x ob' \<le> hand_outs_left x ob"
proof -
  let ?f = "\<lambda>d. if wd_digest d = [] \<and> wd_status d = Queued \<and> in_scope p d then d\<lparr>wd_digest := digest\<rparr> else d"
  have ob': "ob' = map ?f ob" using assms by (simp add: bind_unbound_webhook_deliveries_def split: if_splits)
  have k: "keeps_rows ?f" by (rule row_changes(1))
  show "outbox_ok ob \<Longrightarrow> outbox_ok ob'" unfolding ob' by (rule outbox_ok_map [OF k])
  show "hand_outs_left x ob' \<le> hand_outs_left x ob" unfolding ob' by (rule hand_outs_map [OF k]) (simp add: remaining_def)
qed

lemma mark_keeps:
  "mark_webhook_delivered now e owner ob = Inr ob' \<Longrightarrow> outbox_ok ob \<Longrightarrow> outbox_ok ob'"
  "mark_webhook_delivered now e owner ob = Inr ob' \<Longrightarrow> hand_outs_left x ob' \<le> hand_outs_left x ob"
  "mark_webhook_failed now e owner err ob = Inr ob' \<Longrightarrow> outbox_ok ob \<Longrightarrow> outbox_ok ob'"
  "mark_webhook_failed now e owner err ob = Inr ob' \<Longrightarrow> hand_outs_left x ob' \<le> hand_outs_left x ob"
  unfolding mark_webhook_delivered_def mark_webhook_failed_def
  using update_leased_keeps [OF _ row_changes(4)] update_leased_keeps [OF _ row_changes(3)] count_attempt_remaining
  by (simp_all add: remaining_def)

lemma outbox_step_ok: "outbox_ok ob \<Longrightarrow> outbox_ok (snd (outbox_step x ob))"
  by (cases "(x, ob)" rule: outbox_step.cases)
    (auto split: sum.splits dest: enqueue_keeps(1) bind_keeps(1) claim_keeps(1) mark_keeps(1,3))

lemma outbox_step_pays:
  "outbox_ok ob \<Longrightarrow> count_list (fst (outbox_step x ob)) e + hand_outs_left e (snd (outbox_step x ob)) \<le> hand_outs_left e ob"
  by (cases "(x, ob)" rule: outbox_step.cases)
    (auto split: sum.splits dest: enqueue_keeps(2) bind_keeps(2) claim_keeps(2) mark_keeps(2,4))

interpretation outbox: granting_system outbox_step outbox_ok hand_outs_left
  by unfold_locales (rule outbox_step_ok, assumption, rule outbox_step_pays)

section \<open>Leases\<close>

definition lease_held :: "str \<Rightarrow> str \<Rightarrow> int \<Rightarrow> outbox \<Rightarrow> bool" where
  "lease_held e owner until ob \<longleftrightarrow>
     (case delivery_of ob e of
        None \<Rightarrow> False
      | Some d \<Rightarrow> wd_status d = Delivering \<and> wd_lease_owner d = Some owner \<and> wd_lease_until d = Some until)"

fun is_report :: "str \<Rightarrow> str \<Rightarrow> outbox_op \<Rightarrow> bool" where
  "is_report e owner (Report_Delivered x y) \<longleftrightarrow> x = e \<and> y = owner"
| "is_report e owner (Report_Failed_Attempt x y err) \<longleftrightarrow> x = e \<and> y = owner"
| "is_report e owner _ \<longleftrightarrow> False"

lemma lease_held_map:
  assumes "lease_held e owner u ob" "keeps_rows f" "\<And>d. wd_event d = e \<Longrightarrow> wd_status d = Delivering \<Longrightarrow> wd_lease_owner d = Some owner \<Longrightarrow>
    wd_lease_until d = Some u \<Longrightarrow> f d = d"
  shows "lease_held e owner u (map f ob)"
  using assms delivery_of_SomeD [of ob e] by (auto simp: lease_held_def delivery_of_map split: option.splits)

lemma held_claim:
  assumes ok: "outbox_ok ob" and h: "lease_held e owner u ob" and t: "now < u"
    and c: "claim_webhook_deliveries now digest p w limit ob = Inr (ob', ds)"
  shows "e \<notin> set (map wd_event ds)" "lease_held e owner u ob'"
proof -
  let ?ob = "reclaim_expired now digest p ob"
  have k: "keeps_rows (\<lambda>d. if wd_digest d = digest \<and> in_scope p d \<and> lease_expired now d
      then count_attempt ''delivery lease expired before an outcome was recorded'' now d else d)"
    using row_changes(2) [of "\<lambda>d. wd_digest d = digest \<and> in_scope p d" now] by (simp only: conj_assoc)
  have h1: "lease_held e owner u ?ob" unfolding reclaim_expired_def by (rule lease_held_map [OF h k]) (use t in \<open>simp add: lease_expired_def\<close>)
  then obtain r where r: "delivery_of ?ob e = Some r" "wd_status r = Delivering" by (auto simp: lease_held_def split: option.splits)
  obtain E where ob': "ob' = map (lease_row E w (now + WEBHOOK_DELIVERY_LEASE_SECONDS)) ?ob"
    and ds: "map wd_event ds = filter (\<lambda>e. e \<in> E) (map wd_event ?ob)"
    and due: "\<And>d. d \<in> set ?ob \<Longrightarrow> wd_event d \<in> E \<Longrightarrow> due now digest p d" by (rule claim_rows [OF ok c]) blast
  show "lease_held e owner u ob'" unfolding ob' by (rule lease_held_map [OF h1 lease_row_keeps]) (simp add: lease_row_def)
  have "e \<notin> E" using due [of r] delivery_of_SomeD [OF r(1)] r(2) by (auto simp: due_def)
  then show "e \<notin> set (map wd_event ds)" unfolding ds by simp
qed

lemma held_enqueue:
  assumes "lease_held e owner u ob" "enqueue_webhook_delivery now x p ty payload digest ob = Inr ob'"
  shows "lease_held e owner u ob'"
proof -
  have "ob' = ob \<or> ob' = ob @ [new_delivery now x p ty payload digest]"
    using assms(2) by (auto simp: enqueue_webhook_delivery_def split: if_splits option.splits)
  moreover have "delivery_of (ob @ ys) e = Some d" if "delivery_of ob e = Some d" for ys d
    using that by (induction ob) (auto simp: delivery_of_def)
  ultimately show ?thesis using assms(1) by (auto simp: lease_held_def split: option.splits)
qed

lemma held_report:
  assumes "lease_held e owner u ob" "update_leased x y f ob = Inr ob'" "x \<noteq> e \<or> y \<noteq> owner"
    "keeps_rows (\<lambda>d. if holds_lease x y d then f d else d)"
  shows "lease_held e owner u ob'"
proof -
  have "ob' = map (\<lambda>d. if holds_lease x y d then f d else d) ob" using assms(2) by (simp add: update_leased_def split: if_splits)
  then show ?thesis using lease_held_map [OF assms(1,4)] assms(3) by (auto simp: holds_lease_def)
qed

lemma held_step:
  assumes ok: "outbox_ok ob" and h: "lease_held e owner u ob" and x: "fst x < u" "\<not> is_report e owner (snd x)"
  shows "e \<notin> set (fst (outbox_step x ob)) \<and> lease_held e owner u (snd (outbox_step x ob))"
proof (cases "(x, ob)" rule: outbox_step.cases)
  case (2 now digest p ob)
  have k: "keeps_rows (\<lambda>d. if wd_digest d = [] \<and> wd_status d = Queued \<and> in_scope p d then d\<lparr>wd_digest := digest\<rparr> else d)"
    by (rule row_changes(1))
  show ?thesis using 2 h lease_held_map [OF h k] by (auto simp: bind_unbound_webhook_deliveries_def)
next
  case (3 now digest p w limit ob)
  then show ?thesis using h held_claim [OF ok h] x(1) by (auto split: sum.splits)
next
  case (4 now e' w ob)
  then show ?thesis using h x(2) held_report [OF h _ _ row_changes(4)] by (auto simp: mark_webhook_delivered_def split: sum.splits)
next
  case (5 now e' w err ob)
  then show ?thesis using h x(2) held_report [OF h _ _ row_changes(3)] by (auto simp: mark_webhook_failed_def split: sum.splits)
qed (use h in \<open>auto split: sum.splits dest: held_enqueue\<close>)

lemma held_grants:
  assumes "outbox_ok ob" "lease_held e owner u ob" "list_all (\<lambda>x. fst x < u \<and> \<not> is_report e owner (snd x)) xs"
  shows "e \<notin> set (grants outbox_step xs ob)"
  using assms
proof (induction xs arbitrary: ob)
  case (Cons x xs)
  have "e \<notin> set (fst (outbox_step x ob))" "lease_held e owner u (snd (outbox_step x ob))"
    using held_step [OF Cons.prems(1,2), of x] Cons.prems(3) by simp_all
  moreover have "outbox_ok (snd (outbox_step x ob))" by (rule outbox_step_ok [OF Cons.prems(1)])
  ultimately show ?case using Cons.IH Cons.prems(3) by simp
qed simp

lemma claim_holds:
  assumes ok: "outbox_ok ob" and c: "claim_webhook_deliveries now digest p owner limit ob = Inr (ob', ds)" and e: "e \<in> set (map wd_event ds)"
  shows "lease_held e owner (now + WEBHOOK_DELIVERY_LEASE_SECONDS) ob'"
proof -
  let ?ob = "reclaim_expired now digest p ob"
  obtain E where ob': "ob' = map (lease_row E owner (now + WEBHOOK_DELIVERY_LEASE_SECONDS)) ?ob"
    and ds: "map wd_event ds = filter (\<lambda>e. e \<in> E) (map wd_event ?ob)"
    and due: "\<And>d. d \<in> set ?ob \<Longrightarrow> wd_event d \<in> E \<Longrightarrow> due now digest p d" by (rule claim_rows [OF ok c]) blast
  obtain r where r: "r \<in> set ?ob" "wd_event r = e" "e \<in> E" using e unfolding ds by auto
  have "delivery_of ?ob e = Some r" using delivery_of_iff [OF reclaim_keeps(1) [OF ok]] r(1,2) by simp
  moreover have "wd_status r = Queued" using due r by (auto simp: due_def)
  ultimately show ?thesis using r by (simp add: lease_held_def ob' delivery_of_map [OF lease_row_keeps] lease_row_def lease_to_def)
qed

section \<open>The worker\<close>

lemma held_updates:
  assumes ok: "outbox_ok ob" and h: "lease_held e owner u ob"
  shows "update_leased e owner f ob = Inr (map (\<lambda>d. if holds_lease e owner d then f d else d) ob)"
proof -
  obtain r where r: "delivery_of ob e = Some r" "holds_lease e owner r"
    using h delivery_of_SomeD [of ob e] by (auto simp: lease_held_def holds_lease_def split: option.splits)
  have "x = r" if "x \<in> set ob" "holds_lease e owner x" for x
    using that delivery_of_iff [OF ok, of e x] r(1) by (simp add: holds_lease_def)
  then have "set (filter (holds_lease e owner) ob) = {r}" using r delivery_of_SomeD [OF r(1)] by auto
  moreover have "distinct (filter (holds_lease e owner) ob)" using ok by (auto simp: outbox_ok_def distinct_map)
  ultimately have "length (filter (holds_lease e owner) ob) = 1" using distinct_card by fastforce
  then show ?thesis by (simp add: update_leased_def)
qed

text \<open>A worker without a lease: the name of a worker is drawn anew by each call of the command.\<close>

definition unheld :: "str \<Rightarrow> outbox \<Rightarrow> bool" where
  "unheld owner ob \<longleftrightarrow> list_all (\<lambda>d. wd_lease_owner d \<noteq> Some owner) ob"

lemma reclaim_unheld: "unheld owner ob \<Longrightarrow> unheld owner (reclaim_expired now digest p ob)"
  by (auto simp: unheld_def reclaim_expired_def list_all_iff count_attempt_def)

lemma chosen_one: "x \<in> set (chosen now digest p 1 ob) \<Longrightarrow> y \<in> set (chosen now digest p 1 ob) \<Longrightarrow> x = y"
  by (cases "sort_key (\<lambda>d. (wd_created d, wd_event d)) (filter (due now digest p) ob)") (auto simp: chosen_def)

lemma claim_one_owner:
  assumes ok: "outbox_ok ob" and c: "claim_webhook_deliveries now digest p owner 1 ob = Inr (ob', ds)" and n: "unheld owner ob"
    and r: "r \<in> set ob'" "wd_lease_owner r = Some owner"
  shows "ds \<noteq> []" "holds_lease (wd_event (hd ds)) owner r"
  using ok c
proof (atomize (full), cases rule: claim_rows)
  case (1 E)
  let ?u = "now + WEBHOOK_DELIVERY_LEASE_SECONDS"
  obtain q where q: "q \<in> set (reclaim_expired now digest p ob)" "r = lease_row E owner ?u q" using r(1) 1(2) by auto
  have "wd_lease_owner q \<noteq> Some owner" using reclaim_unheld [OF n] q(1) by (auto simp: unheld_def list_all_iff)
  then have h: "wd_event r \<in> E" "wd_status r = Delivering" using r(2) unfolding q(2)
    by (auto simp: lease_row_def lease_to_def split: if_splits)
  then have "r \<in> set ds" using r(1) 1(5) by simp
  then have "ds \<noteq> []" "hd ds \<in> set ds" by (auto intro: hd_in_set)
  moreover have "wd_event (hd ds) \<in> E" using \<open>hd ds \<in> set ds\<close> unfolding 1(5) by simp
  ultimately show "ds \<noteq> [] \<and> holds_lease (wd_event (hd ds)) owner r"
    using h r(2) chosen_one unfolding 1(1) by (auto simp: holds_lease_def)
qed

lemma report_held:
  assumes ok: "outbox_ok ob" and h: "lease_held (wd_event d) owner u ob"
    and o: "\<And>r. r \<in> set ob \<Longrightarrow> wd_lease_owner r = Some owner \<Longrightarrow> holds_lease (wd_event d) owner r"
  obtains ob' s f where "report post now owner d ob = (Inr ob', s, f)" "outbox_ok ob'" "unheld owner ob'" "s + f = 1"
proof -
  have "\<exists>ob'. mark_webhook_delivered now (wd_event d) owner ob = Inr ob' \<and> unheld owner ob'"
    "\<exists>ob'. mark_webhook_failed now (wd_event d) owner err ob = Inr ob' \<and> unheld owner ob'" for err
    unfolding mark_webhook_delivered_def mark_webhook_failed_def held_updates [OF ok h]
    using o by (auto simp: unheld_def list_all_iff count_attempt_def)
  then obtain a b where m: "mark_webhook_delivered now (wd_event d) owner ob = Inr a" "\<And>err. mark_webhook_failed now (wd_event d) owner err ob = Inr (b err)"
    and n: "unheld owner a" "\<And>err. unheld owner (b err)"
    by metis
  have ok': "outbox_ok a" "outbox_ok (b err)" for err using mark_keeps(1,3) m ok by blast+
  have "\<exists>ob' s f. report post now owner d ob = (Inr ob', s, f) \<and> outbox_ok ob' \<and> unheld owner ob' \<and> s + f = 1"
    by (cases "post (wd_event d) (wd_type d) (wd_payload d)") (auto simp: report_def m ok' n)
  then show ?thesis using that by blast
qed

lemma deliver_rounds_total:
  assumes "outbox_ok ob" "unheld owner ob" and v: "length digest = 64" "owner \<noteq> []" "p \<noteq> Some []"
  shows "\<exists>ob' ok' bad'. deliver_rounds n clock post digest p owner (ob, ok, bad) = Inr (ob', ok', bad') \<and>
    outbox_ok ob' \<and> unheld owner ob' \<and> ok' + bad' \<le> ok + bad + n"
  using assms(1,2)
proof (induction n arbitrary: ob ok bad)
  case (Suc n)
  obtain ob1 ds where c: "claim_webhook_deliveries (fst (clock n)) digest p owner 1 ob = Inr (ob1, ds)"
    using v by (simp add: claim_webhook_deliveries_def Let_def)
  note ok1 = claim_keeps(1) [OF Suc.prems(1) c] and one = claim_one_owner [OF Suc.prems(1) c Suc.prems(2)]
  show ?case
  proof (cases ds)
    case Nil
    then have "unheld owner ob1" using one(1) by (auto simp: unheld_def list_all_iff)
    then show ?thesis using c ok1 Nil by simp
  next
    case (Cons d ds')
    then have "lease_held (wd_event d) owner (fst (clock n) + WEBHOOK_DELIVERY_LEASE_SECONDS) ob1" by (intro claim_holds [OF Suc.prems(1) c]) simp
    then obtain ob2 s f where r: "report post (snd (clock n)) owner d ob1 = (Inr ob2, s, f)" "outbox_ok ob2" "unheld owner ob2" "s + f = 1"
      by (rule report_held [OF ok1]) (use one(2) Cons in auto)
    obtain ob' ok' bad' where "deliver_rounds n clock post digest p owner (ob2, saturating_add_u32 ok s, saturating_add_u32 bad f) = Inr (ob', ok', bad')"
      "outbox_ok ob'" "unheld owner ob'" "ok' + bad' \<le> saturating_add_u32 ok s + saturating_add_u32 bad f + n" using Suc.IH [OF r(2,3)] by blast
    moreover have "saturating_add_u32 ok s + saturating_add_u32 bad f \<le> ok + bad + 1" using r(4) by (simp add: saturating_add_u32_def)
    ultimately show ?thesis using c Cons r(1) by fastforce
  qed
qed simp

section \<open>Properties\<close>

text \<open>
  C33: over any sequence of operations at any times an event is handed out to workers at most twelve times,
  crashes of workers and expired leases included, so no delivery is retried for ever.
\<close>

theorem deliveries_are_bounded: "count_list (grants outbox_step ops []) e \<le> MAX_WEBHOOK_ATTEMPTS"
  using outbox.grants_bounded [of "[]" ops e] by (simp add: outbox_ok_def hand_outs_left_def delivery_of_def)

text \<open>
  In every reachable outbox the events are unique, a lease exists exactly while a delivery is in flight (the
  invariant that the database check of the code counts violations of), and only settled deliveries have used up
  their attempts.
\<close>

theorem outbox_is_well_formed:
  "outbox_ok (fold (\<lambda>x ob. snd (outbox_step x ob)) ops [])"
  by (rule outbox.inv_run) (simp add: outbox_ok_def)

text \<open>
  C24: a claimed event is not handed out again before its lease has expired, unless the worker that holds the
  lease reports an outcome; no other worker can settle it.
\<close>

theorem leases_are_exclusive:
  assumes "outbox_ok ob" "claim_webhook_deliveries now digest p owner limit ob = Inr (ob', ds)" "e \<in> set (map wd_event ds)"
    "list_all (\<lambda>x. fst x < now + WEBHOOK_DELIVERY_LEASE_SECONDS \<and> \<not> is_report e owner (snd x)) ops"
  shows "e \<notin> set (grants outbox_step ops ob')"
  by (rule held_grants [OF claim_keeps(1) [OF assms(1,2)] claim_holds [OF assms(1-3)] assms(4)])

definition demo_outbox :: outbox where
  "demo_outbox = [new_delivery 0 ''e'' ''p'' ''t'' ''b'' (replicate 64 CHR ''a'')]"

theorem leases_are_exclusive_witness:
  "''e'' \<notin> set (grants outbox_step [(119, Claim (replicate 64 CHR ''a'') None ''w'' 5)]
     (map (lease_to ''v'' 120) demo_outbox))"
proof -
  have "outbox_ok demo_outbox"
    "claim_webhook_deliveries 0 (replicate 64 CHR ''a'') None ''v'' 1 demo_outbox =
       Inr (map (lease_to ''v'' 120) demo_outbox, map (lease_to ''v'' 120) demo_outbox)"
    "''e'' \<in> set (map wd_event (map (lease_to ''v'' 120) demo_outbox))"
    "list_all (\<lambda>x. fst x < 0 + WEBHOOK_DELIVERY_LEASE_SECONDS \<and> \<not> is_report ''e'' ''v'' (snd x))
       [(119, Claim (replicate 64 CHR ''a'') None ''w'' 5)]"
    by code_simp+
  then show ?thesis by (rule leases_are_exclusive)
qed



end
