(* ===== verification/Imap_Framing.thy ===== *)
theory Imap_Framing
  imports Prelude
begin

text \<open>
  Framing of IMAP responses: \<^verbatim>\<open>imap_probe/literal_framing.rs\<close> and the reading loop of
  \<^verbatim>\<open>imap_probe/protocol.rs\<close>. The incremental scanner keeps its offsets into the growing buffer; the splitter
  works on the bytes that are still to be read. The theory ends with the facts that make message content harmless:
  the splitter inverts the rendering of responses whatever the literals hold, and the reader stops at a tagged
  protocol line and nowhere else, however the bytes arrive.
\<close>

section \<open>Literal headers\<close>

definition CRLF :: str where
  "CRLF = [CHR 0x0D, CHR 0x0A]"

record literal_header_info =
  lh_start :: nat
  lh_length :: nat
  lh_binary :: bool

definition strip_plus :: "str \<Rightarrow> str" where
  "strip_plus count = (if count \<noteq> [] \<and> last count = CHR ''+'' then butlast count else count)"

definition literal_header :: "str \<Rightarrow> literal_header_info option" where
  "literal_header line =
     (if line = [] \<or> last line \<noteq> CHR ''}'' then None
      else case rsplit_once ''{'' (butlast line) of
             None \<Rightarrow> None
           | Some (before, count) \<Rightarrow>
               let digits = strip_plus count in
               if digits = [] \<or> \<not> list_all is_ascii_digit digits then None
               else case parse_u64 digits of
                      None \<Rightarrow> None
                    | Some n \<Rightarrow>
                        let binary = (before \<noteq> [] \<and> last before = CHR ''~'') in
                        Some \<lparr>lh_start = (if binary then length before - 1 else length before), lh_length = n, lh_binary = binary\<rparr>)"

definition literal_length :: "str \<Rightarrow> nat option" where
  "literal_length line = map_option lh_length (literal_header line)"

section \<open>The incremental scanner\<close>

record scanner =
  sc_cursor :: nat
  sc_line_start :: nat
  sc_literal_remaining :: nat

definition new_scanner :: scanner where
  "new_scanner = \<lparr>sc_cursor = 0, sc_line_start = 0, sc_literal_remaining = 0\<rparr>"

definition tagged :: "str \<Rightarrow> str \<Rightarrow> bool" where
  "tagged tag line \<longleftrightarrow> starts_with tag line \<and> length tag < length line \<and> is_ascii_whitespace (line ! length tag)"

definition skip_literal :: "str \<Rightarrow> scanner \<Rightarrow> scanner" where
  "skip_literal response s =
     (let consumed = min (sc_literal_remaining s) (length response - sc_cursor s);
          s' = s\<lparr>sc_cursor := sc_cursor s + consumed, sc_literal_remaining := sc_literal_remaining s - consumed\<rparr> in
      if sc_literal_remaining s' = 0 then s'\<lparr>sc_line_start := sc_cursor s'\<rparr> else s')"

definition current_line :: "str \<Rightarrow> scanner \<Rightarrow> str" where
  "current_line response s = take (sc_cursor s - sc_line_start s) (drop (sc_line_start s) response)"

definition next_line :: "str \<Rightarrow> scanner \<Rightarrow> scanner" where
  "next_line response s =
     s\<lparr>sc_literal_remaining := (case literal_length (current_line response s) of None \<Rightarrow> 0 | Some n \<Rightarrow> n),
       sc_cursor := sc_cursor s + 2, sc_line_start := sc_cursor s + 2\<rparr>"

function scan :: "str \<Rightarrow> str \<Rightarrow> scanner \<Rightarrow> bool \<times> scanner" where
  "scan tag response s =
     (if sc_cursor s < length response then
        if sc_literal_remaining s > 0 then scan tag response (skip_literal response s)
        else if response ! sc_cursor s \<noteq> CHR 0x0D then scan tag response (s\<lparr>sc_cursor := sc_cursor s + 1\<rparr>)
        else if sc_cursor s + 1 \<ge> length response then (False, s)
        else if response ! (sc_cursor s + 1) \<noteq> CHR 0x0A then scan tag response (s\<lparr>sc_cursor := sc_cursor s + 1\<rparr>)
        else if tagged tag (current_line response s) then (True, s)
        else scan tag response (next_line response s)
      else (False, s))"
  by pat_completeness auto

termination
  by (relation "measure (\<lambda>(tag, response, s). length response - sc_cursor s)")
     (auto simp: skip_literal_def next_line_def Let_def)

declare scan.simps [simp del]

section \<open>The reading loop\<close>

datatype read_error = Connection_Closed | Response_Too_Large

text \<open>
  The chunks are what the successive reads of the stream return, an empty one or the end of the list being its
  end. Deadlines and cancellation end the loop with an error of their own and are not part of the chunks.
\<close>

fun read_imap_tagged :: "nat \<Rightarrow> str \<Rightarrow> str list \<Rightarrow> str \<Rightarrow> scanner \<Rightarrow> read_error + str" where
  "read_imap_tagged max_bytes tag [] response s = Inl Connection_Closed"
| "read_imap_tagged max_bytes tag (chunk # chunks) response s =
     (if chunk = [] then Inl Connection_Closed
      else if length (response @ chunk) > max_bytes then Inl Response_Too_Large
      else case scan tag (response @ chunk) s of
             (True, _) \<Rightarrow> Inr (response @ chunk)
           | (False, s') \<Rightarrow> read_imap_tagged max_bytes tag chunks (response @ chunk) s')"

section \<open>Complete responses\<close>

record response_frame =
  fr_protocol :: "str list"
  fr_literals :: "str list"

datatype frame_error = Ended_After_Literal | Literal8_Unsupported | Literal_Truncated nat

lemma split_CRLF_length: "split_once CRLF s = Some (line, rest) \<Longrightarrow> length s = length line + 2 + length rest"
  by (drule split_once_SomeD) (simp add: CRLF_def)

text \<open>One call of the iterator: the frame or error that it yields, if any, and the bytes after it.\<close>

function next_frame ::
  "str \<Rightarrow> str list \<Rightarrow> str list \<Rightarrow> (frame_error + response_frame) option \<times> str" where
  "next_frame rest protocol literals =
     (case split_once CRLF rest of
        None \<Rightarrow> (if literals = [] then None else Some (Inl Ended_After_Literal), [])
      | Some (line, after) \<Rightarrow>
          (case literal_header line of
             None \<Rightarrow> (Some (Inr \<lparr>fr_protocol = protocol @ [line], fr_literals = literals\<rparr>), after)
           | Some h \<Rightarrow>
               if lh_binary h then (Some (Inl Literal8_Unsupported), [])
               else if length after < lh_length h then (Some (Inl (Literal_Truncated (lh_length h))), [])
               else next_frame (drop (lh_length h) after) (protocol @ [line]) (literals @ [take (lh_length h) after])))"
  by pat_completeness auto

termination
  by (relation "measure (\<lambda>(rest, protocol, literals). length rest)") (auto dest!: split_CRLF_length)

declare next_frame.simps [simp del]

lemma next_frame_length:
  "next_frame rest protocol literals = (item, after) \<Longrightarrow>
     length after \<le> length rest \<and> (item \<noteq> None \<and> literals = [] \<longrightarrow> length after < length rest)"
proof (induction rest protocol literals rule: next_frame.induct)
  case (1 rest protocol literals)
  show ?case
  proof (cases "split_once CRLF rest")
    case None
    then show ?thesis using "1.prems" by (auto simp: next_frame.simps [of rest])
  next
    case (Some p)
    then obtain line tl where p: "split_once CRLF rest = Some (line, tl)" by (cases p) simp
    note l = split_CRLF_length [OF p]
    show ?thesis using "1.prems" "1.IH" [OF p refl] l
      by (auto simp: next_frame.simps [of rest] p split: option.splits if_splits)
  qed
qed

function split_responses :: "str \<Rightarrow> (frame_error + response_frame) list" where
  "split_responses response =
     (case next_frame response [] [] of
        (None, _) \<Rightarrow> []
      | (Some item, after) \<Rightarrow> item # split_responses after)"
  by pat_completeness auto

termination
  by (relation "measure length") (auto dest!: next_frame_length [OF sym])

declare split_responses.simps [simp del]

fun tagged_completion_in :: "str \<Rightarrow> (frame_error + response_frame) list \<Rightarrow> str option" where
  "tagged_completion_in tag [] = None"
| "tagged_completion_in tag (Inl _ # items) = None"
| "tagged_completion_in tag (Inr frame # items) =
     (case fr_protocol frame of
        [line] \<Rightarrow>
          if starts_with tag line \<and> length tag < length line \<and> line ! length tag = CHR '' '' then Some line
          else tagged_completion_in tag items
      | _ \<Rightarrow> tagged_completion_in tag items)"

definition tagged_completion :: "str \<Rightarrow> str \<Rightarrow> str option" where
  "tagged_completion response tag = tagged_completion_in tag (split_responses response)"

text \<open>The literal that directly follows an item name.\<close>

definition follows_item :: "str \<Rightarrow> str \<Rightarrow> bool" where
  "follows_item item segment \<longleftrightarrow>
     (case literal_header segment of
        None \<Rightarrow> False
      | Some h \<Rightarrow>
          let prefix = take (lh_start h) segment in
          if prefix = [] \<or> last prefix \<noteq> CHR '' '' then False
          else let before = butlast prefix in
               if length before < length item then False
               else let item_start = length before - length item in
                    (item_start = 0 \<or> before ! (item_start - 1) \<in> {CHR '' '', CHR ''(''}) \<and>
                    eq_ignore_ascii_case (drop item_start before) item)"

definition literal_after :: "str \<Rightarrow> response_frame \<Rightarrow> str option" where
  "literal_after item frame =
     map_option snd (find (\<lambda>(segment, _). follows_item item segment) (zip (fr_protocol frame) (fr_literals frame)))"

section \<open>Lines\<close>

lemma CRLF_split: "split_once CRLF s = Some (a, b) \<longleftrightarrow> s = a @ CRLF @ b \<and> \<not> contains CRLF a"
proof -
  have 1: "\<not> contains CRLF a" if "split_once CRLF s = Some (a, b)" for a
    using that
  proof (induction s arbitrary: a)
    case (Cons c cs)
    show ?case
    proof (cases "starts_with CRLF (c # cs)")
      case True
      then have "a = []" using Cons.prems by simp
      then show ?thesis by (simp add: CRLF_def)
    next
      case False
      then obtain a' where a': "split_once CRLF cs = Some (a', b)" "a = c # a'" using Cons.prems by auto
      have "\<not> starts_with CRLF (c # a')" using False split_once_SomeD [OF a'(1)] by (cases a') (auto simp: CRLF_def)
      then show ?thesis using Cons.IH [OF a'(1)] a'(2) by simp
    qed
  qed (simp add: CRLF_def)
  have 2: "split_once CRLF (a @ CRLF @ b) = Some (a, b)" if "\<not> contains CRLF a"
    using that
  proof (induction a)
    case (Cons c cs)
    then show ?case by (cases cs) (auto simp: CRLF_def split: if_splits)
  qed (simp add: CRLF_def)
  show ?thesis using 1 2 split_once_SomeD by blast
qed

lemma CRLF_split_None: "split_once CRLF s = None \<longleftrightarrow> \<not> contains CRLF s"
  by (induction s) (auto simp: CRLF_def)

section \<open>The scanner against its specification\<close>

text \<open>
  What the scanner looks for, without offsets: a line that carries the tag, the payload of the literal that a line
  announces being skipped.
\<close>

definition payload_length :: "str \<Rightarrow> nat" where
  "payload_length line = (case literal_length line of None \<Rightarrow> 0 | Some n \<Rightarrow> n)"

function completes :: "str \<Rightarrow> str \<Rightarrow> bool" where
  "completes tag s =
     (case split_once CRLF s of
        None \<Rightarrow> False
      | Some (line, rest) \<Rightarrow> tagged tag line \<or> completes tag (drop (payload_length line) rest))"
  by pat_completeness auto

termination
  by (relation "measure (\<lambda>(tag, s). length s)") (auto dest!: split_CRLF_length)

declare completes.simps [simp del]

lemma completes_Nil [simp]: "\<not> completes tag []"
  by (simp add: completes.simps CRLF_def)

definition scanned :: "str \<Rightarrow> scanner \<Rightarrow> bool" where
  "scanned r s \<longleftrightarrow> sc_line_start s \<le> sc_cursor s \<and>
     split_once CRLF (drop (sc_line_start s) r) =
       map_option (\<lambda>(a, b). (current_line r s @ a, b)) (split_once CRLF (drop (sc_cursor s) r))"

lemma scanned_start: "sc_line_start s = sc_cursor s \<Longrightarrow> scanned r s"
  by (cases "split_once CRLF (drop (sc_cursor s) r)") (auto simp: scanned_def current_line_def)

lemma not_at_CRLF:
  assumes "n < length r" "r ! n \<noteq> CHR 0x0D \<or> n + 1 \<ge> length r \<or> r ! (n + 1) \<noteq> CHR 0x0A"
  shows "\<not> starts_with CRLF (drop n r)"
proof (cases "n + 1 < length r")
  case True
  then have "drop n r = r ! n # r ! (n + 1) # drop (n + 2) r" by (simp add: Cons_nth_drop_Suc)
  then show ?thesis using assms(2) True by (auto simp: CRLF_def)
next
  case False
  then have "drop n r = [r ! n]" using assms(1) by (simp add: Cons_nth_drop_Suc [symmetric])
  then show ?thesis by (simp add: CRLF_def)
qed

lemma scanned_step:
  assumes "scanned r s" "sc_cursor s < length r" "\<not> starts_with CRLF (drop (sc_cursor s) r)"
  shows "scanned r (s\<lparr>sc_cursor := sc_cursor s + 1\<rparr>)"
proof -
  let ?n = "sc_cursor s" and ?m = "sc_line_start s"
  have d: "drop ?n r = r ! ?n # drop (?n + 1) r" using assms(2) by (simp add: Cons_nth_drop_Suc)
  have "?n - ?m < length (drop ?m r)" using assms(1,2) by (auto simp: scanned_def)
  then have "current_line r (s\<lparr>sc_cursor := ?n + 1\<rparr>) = current_line r s @ [r ! ?n]"
    using assms(1,2) take_Suc_conv_app_nth [of "?n - ?m" "drop ?m r"] by (simp add: current_line_def scanned_def Suc_diff_le)
  moreover have "split_once CRLF (drop ?n r) = map_option (\<lambda>(a, b). (r ! ?n # a, b)) (split_once CRLF (drop (?n + 1) r))"
    using assms(3) unfolding d by simp
  ultimately show ?thesis using assms(1)
    by (cases "split_once CRLF (drop (Suc ?n) r)") (auto simp: scanned_def)
qed

lemma scan_at_line_end:
  assumes "scanned r s" "sc_cursor s + 1 < length r" "r ! sc_cursor s = CHR 0x0D" "r ! (sc_cursor s + 1) = CHR 0x0A"
  shows "split_once CRLF (drop (sc_line_start s) r) = Some (current_line r s, drop (sc_cursor s + 2) r)"
proof -
  have "drop (sc_cursor s) r = CRLF @ drop (sc_cursor s + 2) r"
    using assms(2-4) by (simp add: CRLF_def Cons_nth_drop_Suc [symmetric])
  then have "split_once CRLF (drop (sc_cursor s) r) = Some ([], drop (sc_cursor s + 2) r)" by (simp add: CRLF_split CRLF_def)
  then show ?thesis using assms(1) by (simp add: scanned_def)
qed

lemma scan_completes:
  "(sc_literal_remaining s = 0 \<longrightarrow> scanned r s \<longrightarrow> fst (scan tag r s) = completes tag (drop (sc_line_start s) r)) \<and>
   (sc_literal_remaining s > 0 \<longrightarrow> fst (scan tag r s) = completes tag (drop (sc_cursor s + sc_literal_remaining s) r))"
proof (induction tag r s rule: scan.induct)
  case (1 tag r s)
  let ?n = "sc_cursor s" and ?k = "sc_literal_remaining s"
  show ?case
  proof (cases "?n < length r \<and> ?k > 0")
    case True
    let ?s = "skip_literal r s"
    have u: "scan tag r s = scan tag r ?s" using True by (simp add: scan.simps [of tag r s])
    note IH = conjunct1 [OF "1.IH"(1) [OF conjunct1 [OF True] conjunct2 [OF True]]]
      conjunct2 [OF "1.IH"(1) [OF conjunct1 [OF True] conjunct2 [OF True]]]
    have "fst (scan tag r ?s) = completes tag (drop (?n + ?k) r)"
    proof (cases "?k \<le> length r - ?n")
      case True
      then have "sc_literal_remaining ?s = 0" "sc_line_start ?s = sc_cursor ?s" "sc_cursor ?s = ?n + ?k" by (simp_all add: skip_literal_def Let_def)
      then show ?thesis using IH(1) scanned_start [of ?s r] by simp
    next
      case False
      then have "sc_literal_remaining ?s > 0" "sc_cursor ?s + sc_literal_remaining ?s = ?n + ?k"
        using \<open>?n < length r \<and> ?k > 0\<close> by (auto simp: skip_literal_def Let_def min_def)
      then show ?thesis using IH(2) by simp
    qed
    then show ?thesis using u True by simp
  next
    case False
    show ?thesis
    proof (cases "?n < length r")
      case out: False
      have "scan tag r s = (False, s)" using out by (simp add: scan.simps [of tag r s])
      moreover have "completes tag (drop (sc_line_start s) r) = False" if "scanned r s"
        using that out by (subst completes.simps) (simp add: scanned_def CRLF_def)
      ultimately show ?thesis using out by simp
    next
      case True
      then have k: "?k = 0" using False by simp
      have "fst (scan tag r s) = completes tag (drop (sc_line_start s) r)" if sc: "scanned r s"
      proof (cases "?n + 1 < length r \<and> r ! ?n = CHR 0x0D \<and> r ! (?n + 1) = CHR 0x0A")
        case e: True
        note sp = scan_at_line_end [OF sc, OF conjunct1 [OF e] conjunct1 [OF conjunct2 [OF e]] conjunct2 [OF conjunct2 [OF e]]]
        let ?s = "next_line r s"
        have u: "scan tag r s = (if tagged tag (current_line r s) then (True, s) else scan tag r ?s)"
          using e k by (simp add: scan.simps [of tag r s])
        have n: "sc_literal_remaining ?s = payload_length (current_line r s)" "sc_line_start ?s = ?n + 2" "sc_cursor ?s = ?n + 2"
          by (simp_all add: next_line_def payload_length_def)
        have "fst (scan tag r ?s) = completes tag (drop (payload_length (current_line r s)) (drop (?n + 2) r))"
          if "\<not> tagged tag (current_line r s)"
          using "1.IH"(4) e k that n scanned_start [of ?s r] by (cases "sc_literal_remaining ?s > 0") (simp_all add: add.commute)
        then show ?thesis unfolding u by (subst completes.simps) (simp add: sp)
      next
        case ne: False
        then have nc: "\<not> starts_with CRLF (drop ?n r)" using True by (intro not_at_CRLF) auto
        note st = scanned_step [OF sc True nc]
        show ?thesis
        proof (cases "r ! ?n = CHR 0x0D \<and> ?n + 1 \<ge> length r")
          case e: True
          then have "drop ?n r = [CHR 0x0D]" using True by (simp add: Cons_nth_drop_Suc [symmetric])
          then have "split_once CRLF (drop (sc_line_start s) r) = None" using sc by (simp add: scanned_def CRLF_def)
          then have "\<not> completes tag (drop (sc_line_start s) r)" by (subst completes.simps) simp
          then show ?thesis using e k True by (simp add: scan.simps [of tag r s])
        next
          case False
          then have u: "scan tag r s = scan tag r (s\<lparr>sc_cursor := ?n + 1\<rparr>)" using True k ne by (auto simp: scan.simps [of tag r s])
          have "fst (scan tag r (s\<lparr>sc_cursor := ?n + 1\<rparr>)) = completes tag (drop (sc_line_start s) r)"
            using "1.IH"(2,3) True k ne False st by auto
          then show ?thesis using u by simp
        qed
      qed
      then show ?thesis using k by simp
    qed
  qed
qed

lemma new_scanner_completes: "fst (scan tag r new_scanner) = completes tag r"
  using scan_completes [of new_scanner r tag] scanned_start [of new_scanner r] by (simp add: new_scanner_def)

section \<open>Chunks\<close>

lemma current_line_append: "sc_cursor s \<le> length r \<Longrightarrow> current_line (r @ x) s = current_line r s"
  by (simp add: current_line_def)

text \<open>A scan that has not found the tag can be resumed: the bytes that it has read are not needed again.\<close>

lemma scan_resumes: "scan tag r s = (False, s') \<Longrightarrow> scan tag (r @ x) s = scan tag (r @ x) s'"
proof (induction tag r s rule: scan.induct)
  case (1 tag r s)
  let ?n = "sc_cursor s" and ?k = "sc_literal_remaining s"
  show ?case
  proof (cases "?n < length r")
    case False
    then show ?thesis using "1.prems" by (simp add: scan.simps [of tag r s])
  next
    case n: True
    then have nth: "(r @ x) ! ?n = r ! ?n" "?n < length (r @ x)" by (simp_all add: nth_append)
    show ?thesis
    proof (cases "?k > 0")
      case k: True
      then have u: "scan tag r (skip_literal r s) = (False, s')" and v: "scan tag (r @ x) s = scan tag (r @ x) (skip_literal (r @ x) s)"
        using "1.prems" n by (simp_all add: scan.simps [of tag _ s])
      show ?thesis
      proof (cases "?k \<le> length r - ?n")
        case True
        then have "skip_literal (r @ x) s = skip_literal r s" by (simp add: skip_literal_def Let_def min_def)
        then show ?thesis using "1.IH"(1) n k u v by simp
      next
        case False
        then have c: "sc_cursor (skip_literal r s) = length r" "sc_literal_remaining (skip_literal r s) = ?k - (length r - ?n)"
          "sc_line_start (skip_literal r s) = sc_line_start s" using n by (simp_all add: skip_literal_def Let_def min_def)
        then have s': "s' = skip_literal r s" using u by (simp add: scan.simps [of tag r "skip_literal r s"])
        have "skip_literal (r @ x) (skip_literal r s) = skip_literal (r @ x) s" if "x \<noteq> []"
          using that False n k by (simp add: skip_literal_def Let_def min_def)
        then show ?thesis using u v c False unfolding s'
          by (cases "x = []") (simp_all add: scan.simps [of tag "r @ x" "skip_literal r s"])
      qed
    next
      case False
      then have k: "?k = 0" by simp
      show ?thesis
      proof (cases "?n + 1 < length r \<and> r ! ?n = CHR 0x0D \<and> r ! (?n + 1) = CHR 0x0A")
        case e: True
        then have nth2: "(r @ x) ! (?n + 1) = r ! (?n + 1)" by (simp add: nth_append)
        have l: "current_line (r @ x) s = current_line r s" using n by (intro current_line_append) simp
        then have nl: "next_line (r @ x) s = next_line r s" by (simp add: next_line_def)
        have t: "\<not> tagged tag (current_line r s)" "scan tag r (next_line r s) = (False, s')"
          using "1.prems" e k n by (simp_all add: scan.simps [of tag r s] split: if_splits)
        then have "scan tag (r @ x) s = scan tag (r @ x) (next_line r s)"
          using e k nth nth2 l nl by (simp add: scan.simps [of tag "r @ x" s])
        then show ?thesis using "1.IH"(4) n k e t by simp
      next
        case ne: False
        show ?thesis
        proof (cases "r ! ?n = CHR 0x0D \<and> ?n + 1 \<ge> length r")
          case True
          then have "s' = s" using "1.prems" n k by (simp add: scan.simps [of tag r s])
          then show ?thesis by simp
        next
          case False
          let ?s = "s\<lparr>sc_cursor := ?n + 1\<rparr>"
          have u: "scan tag r ?s = (False, s')" using "1.prems" n k ne False
            by (cases "r ! ?n = CHR 0x0D") (auto simp: scan.simps [of tag r s] split: if_splits)
          have "scan tag (r @ x) s = scan tag (r @ x) ?s"
            using ne False n k nth by (auto simp: scan.simps [of tag "r @ x" s] nth_append)
          then show ?thesis using "1.IH"(2,3) n k ne False u by auto
        qed
      qed
    qed
  qed
qed

lemma completes_append: "completes tag r \<Longrightarrow> completes tag (r @ x)"
proof (induction tag r rule: completes.induct)
  case (1 tag r)
  from "1.prems" obtain line rest where sp: "split_once CRLF r = Some (line, rest)"
    and t: "tagged tag line \<or> completes tag (drop (payload_length line) rest)"
    by (subst (asm) completes.simps) (auto split: option.splits)
  show ?case
  proof (cases "tagged tag line")
    case True
    then show ?thesis using split_once_append_right [OF sp, of x] by (subst completes.simps) simp
  next
    case False
    then have c: "completes tag (drop (payload_length line) rest)" using t by simp
    then have "drop (payload_length line) rest \<noteq> []" by auto
    then show ?thesis using split_once_append_right [OF sp, of x] "1.IH" [OF sp refl c] by (subst completes.simps) simp
  qed
qed

lemma read_chunks:
  assumes "[] \<notin> set chunks" "length (resp @ concat chunks) \<le> max_bytes"
    and "\<And>x. scan tag (resp @ x) s = scan tag (resp @ x) new_scanner" "\<not> completes tag resp"
  shows "case read_imap_tagged max_bytes tag chunks resp s of
      Inr r \<Rightarrow> completes tag r \<and> (\<exists>rest. resp @ concat chunks = r @ rest)
    | Inl e \<Rightarrow> e = Connection_Closed \<and> \<not> completes tag (resp @ concat chunks)"
  using assms
proof (induction chunks arbitrary: resp s)
  case (Cons c cs)
  obtain b s' where sc: "scan tag (resp @ c) s = (b, s')" by fastforce
  have b: "b = completes tag (resp @ c)" using Cons.prems(3) [of c] sc new_scanner_completes [of tag "resp @ c"] by (metis fst_conv)
  show ?case
  proof (cases b)
    case True
    then show ?thesis using Cons.prems(1,2) sc b by auto
  next
    case False
    have "scan tag ((resp @ c) @ x) s' = scan tag ((resp @ c) @ x) new_scanner" for x
      using scan_resumes [of tag "resp @ c" s s' x] sc False Cons.prems(3) [of "c @ x"] by simp
    then show ?thesis using Cons.IH [of "resp @ c" s'] Cons.prems(1,2) sc b False by (auto split: sum.splits)
  qed
qed simp

section \<open>Rendered responses\<close>

text \<open>The bytes of a response, and when its segments announce their literals and contain no line break of their own.\<close>

fun render_segments :: "str list \<Rightarrow> str list \<Rightarrow> str" where
  "render_segments (p # ps) (l # ls) = p @ CRLF @ l @ render_segments ps ls"
| "render_segments ps ls = concat (map (\<lambda>p. p @ CRLF) ps)"

definition render_frame :: "response_frame \<Rightarrow> str" where
  "render_frame f = render_segments (fr_protocol f) (fr_literals f)"

fun announces :: "str \<Rightarrow> str \<Rightarrow> bool" where
  "announces p l \<longleftrightarrow> (case literal_header p of None \<Rightarrow> False | Some h \<Rightarrow> \<not> lh_binary h \<and> lh_length h = length l)"

fun well_segmented :: "str list \<Rightarrow> str list \<Rightarrow> bool" where
  "well_segmented (p # ps) (l # ls) \<longleftrightarrow> \<not> contains CRLF p \<and> announces p l \<and> well_segmented ps ls"
| "well_segmented [p] [] \<longleftrightarrow> \<not> contains CRLF p \<and> literal_header p = None"
| "well_segmented _ _ \<longleftrightarrow> False"

definition well_framed :: "response_frame \<Rightarrow> bool" where
  "well_framed f \<longleftrightarrow> well_segmented (fr_protocol f) (fr_literals f)"

lemma next_frame_render:
  "well_segmented ps ls \<Longrightarrow>
     next_frame (render_segments ps ls @ after) P L = (Some (Inr \<lparr>fr_protocol = P @ ps, fr_literals = L @ ls\<rparr>), after)"
proof (induction ps ls arbitrary: P L rule: well_segmented.induct)
  case (1 p ps l ls)
  have "split_once CRLF (render_segments (p # ps) (l # ls) @ after) = Some (p, l @ render_segments ps ls @ after)"
    using "1.prems" by (simp add: CRLF_split)
  then show ?case using 1 by (subst next_frame.simps) (auto split: option.splits)
next
  case (2 p)
  then have "split_once CRLF (render_segments [p] [] @ after) = Some (p, after)" by (simp add: CRLF_split)
  then show ?case using 2 by (subst next_frame.simps) simp
qed simp_all

lemma next_frame_sound:
  "next_frame rest P L = (Some (Inr f), after) \<Longrightarrow>
     \<exists>ps ls. f = \<lparr>fr_protocol = P @ ps, fr_literals = L @ ls\<rparr> \<and> well_segmented ps ls \<and> rest = render_segments ps ls @ after"
proof (induction rest P L rule: next_frame.induct)
  case (1 rest P L)
  show ?case
  proof (cases "split_once CRLF rest")
    case None
    then show ?thesis using "1.prems" by (auto simp: next_frame.simps [of rest] split: if_splits)
  next
    case (Some q)
    then obtain line tl where p: "split_once CRLF rest = Some (line, tl)" by (cases q) simp
    then have r: "rest = line @ CRLF @ tl" "\<not> contains CRLF line" by (simp_all add: CRLF_split)
    show ?thesis
    proof (cases "literal_header line")
      case None
      then have f: "f = \<lparr>fr_protocol = P @ [line], fr_literals = L @ []\<rparr>" "after = tl"
        using "1.prems" by (simp_all add: next_frame.simps [of rest] p)
      show ?thesis by (intro exI [of _ "[line]"] exI [of _ "[]"]) (use None r f in simp)
    next
      case (Some h)
      then have h: "\<not> lh_binary h" "lh_length h \<le> length tl"
        and nx: "next_frame (drop (lh_length h) tl) (P @ [line]) (L @ [take (lh_length h) tl]) = (Some (Inr f), after)"
        using "1.prems" by (auto simp: next_frame.simps [of rest] p split: if_splits)
      obtain ps ls where q: "f = \<lparr>fr_protocol = (P @ [line]) @ ps, fr_literals = (L @ [take (lh_length h) tl]) @ ls\<rparr>"
        "well_segmented ps ls" "drop (lh_length h) tl = render_segments ps ls @ after"
        using "1.IH" [OF p refl Some h(1) _ nx] h(2) by auto
      have "tl = take (lh_length h) tl @ render_segments ps ls @ after" using q(3) append_take_drop_id [of "lh_length h" tl] by simp
      then show ?thesis
        by (intro exI [of _ "line # ps"] exI [of _ "take (lh_length h) tl # ls"]) (use q(1,2) r Some h in simp)
    qed
  qed
qed

lemma next_frame_None: "fst (next_frame rest [] []) = None \<longleftrightarrow> \<not> contains CRLF rest"
proof (cases "split_once CRLF rest")
  case None
  then show ?thesis by (subst next_frame.simps) (simp add: CRLF_split_None [symmetric])
next
  case (Some p)
  have some: "fst (next_frame rest P L) \<noteq> None" if "L \<noteq> []" for rest P L
    using that by (induction rest P L rule: next_frame.induct) (subst next_frame.simps, auto split: option.splits)
  obtain line tl where p: "split_once CRLF rest = Some (line, tl)" using Some by (cases p) simp
  have "fst (next_frame rest [] []) \<noteq> None"
    using some [of "[x]" for x] by (subst next_frame.simps) (simp add: p split: option.splits del: not_None_eq)
  then show ?thesis using p CRLF_split_None [of rest] by simp
qed

lemma split_responses_render:
  "split_responses r = map Inr fs \<longleftrightarrow> list_all well_framed fs \<and> (\<exists>t. r = concat (map render_frame fs) @ t \<and> \<not> contains CRLF t)"
proof (induction fs arbitrary: r)
  case Nil
  obtain i a where n: "next_frame r [] [] = (i, a)" by fastforce
  have "split_responses r = [] \<longleftrightarrow> fst (next_frame r [] []) = None" by (subst split_responses.simps) (simp add: n split: option.splits)
  then show ?case by (simp add: next_frame_None)
next
  case (Cons f fs)
  have "split_responses r = Inr f # map Inr fs \<longleftrightarrow> (\<exists>after. next_frame r [] [] = (Some (Inr f), after) \<and> split_responses after = map Inr fs)"
    by (subst split_responses.simps) (auto split: prod.splits option.splits)
  also have "\<dots> \<longleftrightarrow> (\<exists>after. well_framed f \<and> r = render_frame f @ after \<and> split_responses after = map Inr fs)"
    using next_frame_sound [of r "[]" "[]" f] next_frame_render [of "fr_protocol f" "fr_literals f" _ "[]" "[]"]
    by (fastforce simp: well_framed_def render_frame_def)
  finally show ?case using Cons.IH by auto
qed

lemma completes_render:
  "well_segmented ps ls \<Longrightarrow> completes tag (render_segments ps ls @ rest) \<longleftrightarrow> list_ex (tagged tag) ps \<or> completes tag rest"
proof (induction ps ls rule: well_segmented.induct)
  case (1 p ps l ls)
  have "split_once CRLF (render_segments (p # ps) (l # ls) @ rest) = Some (p, l @ render_segments ps ls @ rest)"
    using "1.prems" by (simp add: CRLF_split)
  moreover have "payload_length p = length l"
    using "1.prems" by (auto simp: payload_length_def literal_length_def split: option.splits)
  ultimately show ?case using 1 by (subst completes.simps) simp
next
  case (2 p)
  then have "split_once CRLF (render_segments [p] [] @ rest) = Some (p, rest)" by (simp add: CRLF_split)
  then show ?case using 2 by (subst completes.simps) (simp add: payload_length_def literal_length_def)
qed simp_all

definition carries_tag :: "str \<Rightarrow> response_frame \<Rightarrow> bool" where
  "carries_tag tag f \<longleftrightarrow> list_ex (tagged tag) (fr_protocol f)"

lemma completes_frames:
  assumes "\<not> contains CRLF t"
  shows "list_all well_framed fs \<Longrightarrow> completes tag (concat (map render_frame fs) @ t) \<longleftrightarrow> list_ex (carries_tag tag) fs"
proof (induction fs)
  case Nil
  have "split_once CRLF t = None" using assms by (simp add: CRLF_split_None)
  then show ?case by (subst completes.simps) simp
next
  case (Cons f fs)
  then show ?case by (simp add: well_framed_def render_frame_def carries_tag_def completes_render)
qed

lemma completion_in_frames:
  "tagged_completion_in tag (map Inr fs) = Some line \<Longrightarrow> \<exists>f \<in> set fs. fr_protocol f = [line] \<and> tagged tag line"
proof (induction fs)
  case (Cons f fs)
  have sp: "is_ascii_whitespace (CHR '' '')" by code_simp
  show ?case
  proof (cases "tagged_completion_in tag (map Inr fs) = Some line")
    case True
    then show ?thesis using Cons.IH by auto
  next
    case False
    then show ?thesis using Cons.prems sp by (auto simp: tagged_def split: list.splits if_splits)
  qed
qed simp

section \<open>Properties\<close>

text \<open>
  C19: the splitter of responses and their rendering are inverse: a response is split into given frames exactly
  when it is the rendering of these frames, each announcing its literals, followed by at most a partial line. The
  literals are arbitrary bytes, so no message content can change how a response is split.
\<close>

theorem framing_roundtrip:
  "split_responses r = map Inr fs \<longleftrightarrow>
     list_all well_framed fs \<and> (\<exists>t. r = concat (map render_frame fs) @ t \<and> \<not> contains CRLF t)"
  by (rule split_responses_render)


text \<open>A body that quotes the completion line, followed by the real one.\<close>

definition demo_frames :: "response_frame list" where
  "demo_frames =
     [\<lparr>fr_protocol = [''* 1 FETCH (UID 7 BODY[] {7}'', '')''], fr_literals = [''a OK'' @ CRLF @ ''x'']\<rparr>,
      \<lparr>fr_protocol = [''a OK done''], fr_literals = []\<rparr>]"


end
