(* ===== verification/Imap_Pages.thy ===== *)
theory Imap_Pages
  imports Imap_Text Reconciliation
begin

text \<open>
  UID pages of an IMAP scan: \<^verbatim>\<open>imap_probe/uid.rs\<close> and \<^verbatim>\<open>imap_probe/fetch_pages.rs\<close>, and the enumeration loop
  \<^verbatim>\<open>enumerate_uid_pages\<close> of \<^verbatim>\<open>imap_probe.rs\<close>. The exchange of a command on the stream and the consumer of a page
  are parameters of the loop, as the consumer is in the code; both act on a state of their own.
\<close>

section \<open>UIDs\<close>

definition valid_uid :: "nat \<Rightarrow> bool" where
  "valid_uid uid \<longleftrightarrow> uid \<noteq> 0 \<and> uid \<le> u32_max"

datatype fetch_error =
    Uid_Outside_Domain nat
  | Sequence_Missing
  | Malformed_Untagged
  | Invalid_Sequence
  | Sequence_Outside nat
  | Duplicate_Sequence nat
  | Malformed_Uid_Item nat
  | Invalid_Range
  | Range_Too_Large
  | Incomplete_Page nat nat
  | Uids_Out_Of_Order

definition validate_imap_uid :: "nat \<Rightarrow> fetch_error + nat" where
  "validate_imap_uid uid = (if uid = 0 \<or> uid > u32_max then Inl (Uid_Outside_Domain uid) else Inr uid)"

section \<open>Page sizes\<close>

definition MESSAGE_FETCH_PAGE_SIZE :: nat where
  "MESSAGE_FETCH_PAGE_SIZE = 128"

definition MAX_MESSAGE_FETCH_RESPONSE_BYTES :: nat where
  "MAX_MESSAGE_FETCH_RESPONSE_BYTES = 64 * 1024 * 1024"

definition MAX_UID_SET_BYTES :: nat where
  "MAX_UID_SET_BYTES = 7000"

definition MESSAGE_UID_ENUMERATION_PAGE_SIZE :: nat where
  "MESSAGE_UID_ENUMERATION_PAGE_SIZE = 512"

record planner =
  pl_size :: nat
  pl_min :: nat
  pl_max :: nat
  pl_target :: nat

definition metadata_planner :: planner where
  "metadata_planner = \<lparr>pl_size = MESSAGE_FETCH_PAGE_SIZE, pl_min = 32, pl_max = 1024, pl_target = 1024 * 1024\<rparr>"

definition body_planner :: planner where
  "body_planner = \<lparr>pl_size = 8, pl_min = 1, pl_max = 64, pl_target = MAX_MESSAGE_FETCH_RESPONSE_BYTES div 4\<rparr>"

definition observe :: "nat \<Rightarrow> nat \<Rightarrow> planner \<Rightarrow> planner" where
  "observe messages response_bytes pl =
     (if messages = 0 then pl
      else let per_message = max (response_bytes div messages) 1;
               ideal = pl_target pl div per_message;
               wanted = min ideal (saturating_mul_u64 (pl_size pl) 2) in
           pl\<lparr>pl_size := (if wanted < pl_min pl then pl_min pl else if wanted > pl_max pl then pl_max pl else wanted)\<rparr>)"

section \<open>UID sets\<close>

function run_end :: "nat list \<Rightarrow> nat \<Rightarrow> nat \<Rightarrow> nat" where
  "run_end uids limit i =
     (if i + 1 < limit \<and> uids ! i + 1 \<le> u64_max \<and> uids ! (i + 1) = uids ! i + 1 then run_end uids limit (i + 1) else i)"
  by pat_completeness auto

termination
  by (relation "measure (\<lambda>(uids, limit, i). limit - i)") auto

declare run_end.simps [simp del]

lemma run_end_ge: "i \<le> run_end uids limit i"
  by (induction uids limit i rule: run_end.induct) (subst run_end.simps, auto)

text \<open>The item of a run prints one number for a run of one element, which is told by the indices.\<close>

definition run_item :: "nat list \<Rightarrow> nat \<Rightarrow> nat \<Rightarrow> str" where
  "run_item uids i j =
     (if j = i then nat_to_string (uids ! i) else nat_to_string (uids ! i) @ '':'' @ nat_to_string (uids ! j))"

function encode_from :: "nat list \<Rightarrow> nat \<Rightarrow> nat \<Rightarrow> str \<Rightarrow> nat \<times> str" where
  "encode_from uids limit n s =
     (if n < limit then
        let j = run_end uids limit n;
            item = run_item uids n j;
            separator = (if s = [] then 0 else 1) in
        if n > 0 \<and> length s + separator + length item > MAX_UID_SET_BYTES then (n, s)
        else encode_from uids limit (j + 1) (s @ (if separator = 1 then '','' else []) @ item)
      else (n, s))"
  by pat_completeness auto

termination
  by (relation "measure (\<lambda>(uids, limit, n, s). limit - n)") (auto simp: less_Suc_eq_le run_end_ge intro!: diff_less_mono2)

declare encode_from.simps [simp del]

definition encode_uid_page :: "nat list \<Rightarrow> nat \<Rightarrow> nat \<times> str" where
  "encode_uid_page uids max_count = encode_from uids (min (length uids) (max max_count 1)) 0 []"

section \<open>Data items of a FETCH response\<close>

datatype fetch_component = Atom_Item str | Quoted_Item | List_Item

fun quoted_rest :: "bool \<Rightarrow> str \<Rightarrow> str option" where
  "quoted_rest escaped [] = None"
| "quoted_rest escaped (c # cs) =
     (if escaped then quoted_rest False cs
      else if c = CHR 0x5C then quoted_rest True cs
      else if c = CHR 0x22 then Some cs
      else quoted_rest False cs)"

fun list_rest :: "nat \<Rightarrow> bool \<Rightarrow> bool \<Rightarrow> str \<Rightarrow> str option" where
  "list_rest depth quoted escaped [] = None"
| "list_rest depth quoted escaped (c # cs) =
     (if quoted then
        (if escaped then list_rest depth True False cs
         else if c = CHR 0x5C then list_rest depth True True cs
         else list_rest depth (c \<noteq> CHR 0x22) False cs)
      else if c = CHR 0x22 then list_rest depth True escaped cs
      else if c = CHR ''('' then list_rest (depth + 1) False escaped cs
      else if c = CHR '')'' then
        (if depth = 0 then None else if depth = 1 then Some cs else list_rest (depth - 1) False escaped cs)
      else list_rest depth False escaped cs)"

definition atom_byte :: "char \<Rightarrow> bool" where
  "atom_byte c \<longleftrightarrow> \<not> is_ascii_whitespace c \<and> c \<noteq> CHR ''('' \<and> c \<noteq> CHR '')'' \<and> c \<noteq> CHR 0x22"

definition parse_fetch_data_component :: "str \<Rightarrow> (fetch_component \<times> str) option" where
  "parse_fetch_data_component s =
     (case s of
        [] \<Rightarrow> None
      | c # cs \<Rightarrow>
          if c = CHR ''('' then map_option (Pair List_Item) (list_rest 0 False False s)
          else if c = CHR 0x22 then map_option (Pair Quoted_Item) (quoted_rest False cs)
          else if c = CHR '')'' then None
          else if takeWhile atom_byte s = [] then None
          else Some (Atom_Item (takeWhile atom_byte s), dropWhile atom_byte s))"

lemma quoted_rest_length: "quoted_rest e s = Some r \<Longrightarrow> length r < length s"
  by (induction e s rule: quoted_rest.induct) (auto split: if_splits)

lemma list_rest_length: "list_rest d q e s = Some r \<Longrightarrow> length r < length s"
  by (induction d q e s rule: list_rest.induct) (auto split: if_splits)

lemma dropWhile_shorter: "takeWhile P s \<noteq> [] \<Longrightarrow> length (dropWhile P s) < length s"
  by (cases s) (auto simp: less_Suc_eq_le length_dropWhile_le split: if_splits)

lemma component_length: "parse_fetch_data_component s = Some (c, r) \<Longrightarrow> length r < length s"
proof (cases s)
  case (Cons a cs)
  assume h: "parse_fetch_data_component s = Some (c, r)"
  show ?thesis
  proof (cases "a = CHR ''(''")
    case True
    then show ?thesis using h Cons list_rest_length [of 0 False False s r] by (auto simp: parse_fetch_data_component_def)
  next
    case ne: False
    show ?thesis
    proof (cases "a = CHR 0x22")
      case True
      then show ?thesis using h Cons quoted_rest_length [of False cs r] by (auto simp: parse_fetch_data_component_def)
    next
      case False
      then have "r = dropWhile atom_byte s" "takeWhile atom_byte s \<noteq> []"
        using h Cons ne unfolding parse_fetch_data_component_def by (simp_all only: list.case split: if_splits) simp_all
      then show ?thesis using dropWhile_shorter by simp
    qed
  qed
qed (simp add: parse_fetch_data_component_def)

definition skip_fetch_whitespace :: "str \<Rightarrow> str" where
  "skip_fetch_whitespace = dropWhile is_ascii_whitespace"

lemma skip_length: "length (skip_fetch_whitespace s) \<le> length s"
  by (simp add: skip_fetch_whitespace_def length_dropWhile_le)

function fetch_uid_loop :: "str \<Rightarrow> str option \<Rightarrow> nat option \<Rightarrow> nat option" where
  "fetch_uid_loop s field uid =
     (if s = [] then None
      else let s' = skip_fetch_whitespace s in
           if s' \<noteq> [] \<and> hd s' = CHR '')'' then
             (if field \<noteq> None \<or> \<not> list_all is_ascii_whitespace (tl s') then None else uid)
           else case parse_fetch_data_component s' of
                  None \<Rightarrow> None
                | Some (component, rest) \<Rightarrow>
                    (case field of
                       Some name \<Rightarrow>
                         if eq_ignore_ascii_case name ''UID'' then
                           (case component of
                              Atom_Item v \<Rightarrow>
                                if uid \<noteq> None \<or> \<not> list_all is_ascii_digit v then None
                                else (case parse_u64 v of None \<Rightarrow> None | Some n \<Rightarrow> fetch_uid_loop rest None (Some n))
                            | _ \<Rightarrow> None)
                         else fetch_uid_loop rest None uid
                     | None \<Rightarrow> (case component of Atom_Item name \<Rightarrow> fetch_uid_loop rest (Some name) uid | _ \<Rightarrow> None)))"
  by pat_completeness auto

termination
  by (relation "measure (\<lambda>(s, field, uid). length s)") (auto dest!: component_length intro: less_le_trans [OF _ skip_length])

declare fetch_uid_loop.simps [simp del]

definition parse_parenthesized_fetch_uid :: "str \<Rightarrow> nat option" where
  "parse_parenthesized_fetch_uid data =
     (case trim data of c # cs \<Rightarrow> if c = CHR ''('' then fetch_uid_loop cs None None else None | [] \<Rightarrow> None)"

section \<open>The UIDs of a sequence page\<close>

text \<open>One line of the response: skipped, refused, or a sequence number with its UID.\<close>

definition sequence_line :: "str \<Rightarrow> nat \<Rightarrow> nat \<Rightarrow> nat set \<Rightarrow> fetch_error + (nat \<times> nat) option" where
  "sequence_line line lo hi seen =
     (case split_whitespace line of
        star # sequence_token # more_tokens \<Rightarrow>
          if star \<noteq> ''*'' then Inr None
          else if eq_ignore_ascii_case sequence_token ''FETCH'' then Inl Sequence_Missing
          else (case more_tokens of
                  [] \<Rightarrow> if parse_u64 sequence_token \<noteq> None then Inl Malformed_Untagged else Inr None
                | response_type # _ \<Rightarrow>
                    if \<not> eq_ignore_ascii_case response_type ''FETCH'' then Inr None
                    else (case parse_u64 sequence_token of
                            None \<Rightarrow> Inl Invalid_Sequence
                          | Some n \<Rightarrow>
                              if \<not> (lo \<le> n \<and> n \<le> hi) then Inl (Sequence_Outside n)
                              else if n \<in> seen then Inl (Duplicate_Sequence n)
                              else (case Option.bind (split_once response_type line)
                                           (\<lambda>(_, data). parse_parenthesized_fetch_uid data) of
                                      None \<Rightarrow> Inl (Malformed_Uid_Item n)
                                    | Some uid \<Rightarrow> map_sum id (\<lambda>u. Some (n, u)) (validate_imap_uid uid))))
      | _ \<Rightarrow> Inr None)"

fun sequence_lines :: "str list \<Rightarrow> nat \<Rightarrow> nat \<Rightarrow> (nat \<times> nat) list \<Rightarrow> fetch_error + (nat \<times> nat) list" where
  "sequence_lines [] lo hi found = Inr found"
| "sequence_lines (line # lines) lo hi found =
     (case sequence_line line lo hi (set (map fst found)) of
        Inl e \<Rightarrow> Inl e
      | Inr None \<Rightarrow> sequence_lines lines lo hi found
      | Inr (Some p) \<Rightarrow> sequence_lines lines lo hi (found @ [p]))"

definition parse_uid_fetch_response :: "str \<Rightarrow> nat \<Rightarrow> nat \<Rightarrow> fetch_error + nat list" where
  "parse_uid_fetch_response response lo hi =
     (case sequence_lines (text_lines response) lo hi [] of
        Inl e \<Rightarrow> Inl e
      | Inr found \<Rightarrow>
          if lo = 0 \<or> hi < lo then Inl Invalid_Range
          else if hi - lo + 1 > u64_max then Inl Range_Too_Large
          else if length found \<noteq> hi - lo + 1 then Inl (Incomplete_Page (length found) (hi - lo + 1))
          else let ordered = sort_key fst found in
               if \<not> successively (\<lambda>p q. snd p < snd q) ordered then Inl Uids_Out_Of_Order
               else Inr (map snd ordered))"

section \<open>Coverage of a page\<close>

datatype coverage_error = Foreign_Mailbox str | Invalid_Key_Uid str | Coverage_Mismatch nat nat

fun parsed_uids :: "messages \<Rightarrow> str \<Rightarrow> coverage_error + nat list" where
  "parsed_uids [] mailbox = Inr []"
| "parsed_uids ((k, _) # M) mailbox =
     (if mk_mailbox k \<noteq> mailbox then Inl (Foreign_Mailbox (mk_mailbox k))
      else case parse_u64 (mk_uid k) of
             None \<Rightarrow> Inl (Invalid_Key_Uid (mk_uid k))
           | Some uid \<Rightarrow> map_sum id ((#) uid) (parsed_uids M mailbox))"

definition validate_fetch_page_coverage :: "messages \<Rightarrow> nat list \<Rightarrow> str \<Rightarrow> coverage_error + unit" where
  "validate_fetch_page_coverage M requested mailbox =
     (case parsed_uids M mailbox of
        Inl e \<Rightarrow> Inl e
      | Inr uids \<Rightarrow>
          if set uids \<noteq> set requested then Inl (Coverage_Mismatch (card (set requested)) (card (set uids))) else Inr ())"

section \<open>What a UID set denotes\<close>

text \<open>The meaning of a sequence set of RFC 3501 with numbers in increasing ranges.\<close>

definition item_members :: "str \<Rightarrow> nat list option" where
  "item_members i =
     (case split_once '':'' i of
        None \<Rightarrow> map_option (\<lambda>a. [a]) (parse_u64 i)
      | Some (a, b) \<Rightarrow> (case (parse_u64 a, parse_u64 b) of (Some x, Some y) \<Rightarrow> Some [x..<Suc y] | _ \<Rightarrow> None))"

definition uid_set_members :: "str \<Rightarrow> nat list option" where
  "uid_set_members s = map_option concat (those (map item_members (split_char (CHR '','') s)))"

lemma those_append: "those (xs @ ys) = (case those xs of None \<Rightarrow> None | Some as \<Rightarrow> map_option ((@) as) (those ys))"
  by (cases "those ys"; induction xs) (auto split: option.splits)

lemma split_char_none: "c \<notin> set s \<Longrightarrow> split_char c s = [s]"
  by (induction s) auto

lemma split_char_snoc: "c \<notin> set b \<Longrightarrow> split_char c (a @ [c] @ b) = split_char c a @ [b]"
  by (induction a) (auto simp: split_char_none split: list.splits)

lemma members_snoc:
  "CHR '','' \<notin> set item \<Longrightarrow> uid_set_members s = Some us \<Longrightarrow> item_members item = Some vs \<Longrightarrow>
     uid_set_members (s @ '','' @ item) = Some (us @ vs)"
  using split_char_snoc [of "CHR '',''" item s] by (auto simp: uid_set_members_def those_append)

lemma members_single: "CHR '','' \<notin> set item \<Longrightarrow> item_members item = Some vs \<Longrightarrow> uid_set_members item = Some vs"
  by (simp add: uid_set_members_def split_char_none)

lemma digits_not: "c \<in> set (nat_to_string n) \<Longrightarrow> c \<noteq> CHR '','' \<and> c \<noteq> CHR '':''"
  by (drule nat_to_string_digits) (auto simp: is_ascii_digit_def char_code_def)

lemma length_nat_to_string: "n < 10 ^ Suc k \<Longrightarrow> length (nat_to_string n) \<le> Suc k"
proof (induction k arbitrary: n)
  case (Suc k)
  show ?case
  proof (cases "n < 10")
    case False
    have "n div 10 < 10 ^ Suc k" using Suc.prems by (simp add: less_mult_imp_div_less)
    then show ?thesis using Suc.IH [of "n div 10"] False by (subst nat_to_string.simps) simp
  qed (subst nat_to_string.simps, simp)
qed (subst nat_to_string.simps, simp)

lemma length_u64: "n \<le> u64_max \<Longrightarrow> length (nat_to_string n) \<le> 20"
  using length_nat_to_string [of n 19] by (simp add: u64_max_def)

lemma run_end_run:
  assumes "i < limit"
  shows "run_end uids limit i < limit" "i \<le> k \<Longrightarrow> k \<le> run_end uids limit i \<Longrightarrow> uids ! k = uids ! i + (k - i)"
proof -
  have "run_end uids limit i < limit \<and> (\<forall>k. i \<le> k \<longrightarrow> k \<le> run_end uids limit i \<longrightarrow> uids ! k = uids ! i + (k - i))"
    using assms
  proof (induction uids limit i rule: run_end.induct)
    case (1 uids limit i)
    show ?case
    proof (cases "i + 1 < limit \<and> uids ! i + 1 \<le> u64_max \<and> uids ! (i + 1) = uids ! i + 1")
      case True
      then have e: "run_end uids limit i = run_end uids limit (i + 1)" by (subst run_end.simps) simp
      note IH = "1.IH" [OF True conjunct1 [OF True]]
      have "uids ! k = uids ! i + (k - i)" if "i \<le> k" "k \<le> run_end uids limit (i + 1)" for k
        using spec [OF conjunct2 [OF IH], of k] that True by (cases "k = i") simp_all
      then show ?thesis unfolding e using conjunct1 [OF IH] by blast
    next
      case False
      then have "run_end uids limit i = i" by (subst run_end.simps) auto
      then show ?thesis using "1.prems" by simp
    qed
  qed
  then show "run_end uids limit i < limit" "i \<le> k \<Longrightarrow> k \<le> run_end uids limit i \<Longrightarrow> uids ! k = uids ! i + (k - i)" by blast+
qed

lemma run_item_members:
  assumes "i < limit" "limit \<le> length uids" "list_all (\<lambda>u. u \<le> u64_max) uids"
  defines "j \<equiv> run_end uids limit i"
  shows "item_members (run_item uids i j) = Some (take (Suc j - i) (drop i uids))"
    "CHR '','' \<notin> set (run_item uids i j)" "length (run_item uids i j) \<le> 41" "run_item uids i j \<noteq> []"
proof -
  have j: "i \<le> j" "j < limit" using run_end_ge [of i uids limit] run_end_run(1) [OF assms(1)] by (simp_all add: j_def)
  have le: "uids ! i \<le> u64_max" "uids ! j \<le> u64_max" using assms(2,3) j by (simp_all add: list_all_length)
  have nc: "CHR '','' \<notin> set (nat_to_string n)" "CHR '':'' \<notin> set (nat_to_string n)" for n using digits_not by blast+
  have p: "parse_u64 (nat_to_string n) = Some n" if "n \<le> u64_max" for n
    using parse_unsigned_nat_to_string [OF that] by (simp add: parse_u64_def)
  have run: "uids ! k = uids ! i + (k - i)" if "i \<le> k" "k \<le> j" for k
    by (rule run_end_run(2) [OF assms(1) that(1) that(2) [unfolded j_def]])
  have "take (Suc j - i) (drop i uids) = [uids ! i..<Suc (uids ! j)]"
  proof (rule nth_equalityI)
    show "length (take (Suc j - i) (drop i uids)) = length [uids ! i..<Suc (uids ! j)]"
      using j assms(2) run [of j] by (simp add: Suc_diff_le)
  next
    fix m assume "m < length (take (Suc j - i) (drop i uids))"
    then have "m \<le> j - i" using j(1) by (simp add: Suc_diff_le)
    then have im: "i + m \<le> j" using j(1) by simp
    then have "uids ! i + m < Suc (uids ! j)" using run [of j] j(1) by linarith
    then have "[uids ! i..<Suc (uids ! j)] ! m = uids ! i + m" by (rule nth_upt)
    then show "take (Suc j - i) (drop i uids) ! m = [uids ! i..<Suc (uids ! j)] ! m"
      using im j assms(2) run [of "i + m"] by simp
  qed
  moreover have "split_once '':'' (nat_to_string (uids ! i)) = None" using nc(2) by (simp add: split_once_char_None)
  moreover have "split_once '':'' (nat_to_string (uids ! i) @ '':'' @ nat_to_string (uids ! j)) = Some (nat_to_string (uids ! i), nat_to_string (uids ! j))"
    using split_once_char [OF nc(2)] by simp
  ultimately show "item_members (run_item uids i j) = Some (take (Suc j - i) (drop i uids))"
    using p [OF le(1)] p [OF le(2)] by (cases "j = i") (simp_all add: item_members_def run_item_def)
  show "CHR '','' \<notin> set (run_item uids i j)" "run_item uids i j \<noteq> []" using nc(1) by (simp_all add: run_item_def)
  show "length (run_item uids i j) \<le> 41" using length_u64 [OF le(1)] length_u64 [OF le(2)] by (simp add: run_item_def)
qed

lemma encode_from_exact:
  assumes "n \<le> limit" "limit \<le> length uids" "list_all (\<lambda>u. u \<le> u64_max) uids"
    and "if n = 0 then s = [] else s \<noteq> [] \<and> uid_set_members s = Some (take n uids)" "length s \<le> MAX_UID_SET_BYTES"
    and "encode_from uids limit n s = (m, t)"
  shows "n \<le> m \<and> m \<le> limit \<and> (0 < limit \<longrightarrow> 0 < m) \<and> (0 < m \<longrightarrow> uid_set_members t = Some (take m uids)) \<and> length t \<le> MAX_UID_SET_BYTES"
  using assms
proof (induction uids limit n s rule: encode_from.induct)
  case (1 uids limit n s)
  let ?j = "run_end uids limit n"
  let ?i = "run_item uids n ?j"
  let ?s = "s @ (if s = [] then [] else '','') @ ?i"
  show ?case
  proof (cases "n < limit \<and> \<not> (n > 0 \<and> length s + (if s = [] then 0 else 1) + length ?i > MAX_UID_SET_BYTES)")
    case False
    then have "(m, t) = (n, s)" using "1.prems"(6) by (subst (asm) encode_from.simps) (auto simp: Let_def split: if_splits)
    then show ?thesis using "1.prems"(1,4,5) False by auto
  next
    case True
    note r = run_item_members [OF conjunct1 [OF True] "1.prems"(2,3)]
    have j: "n \<le> ?j" "?j < limit" using run_end_ge run_end_run(1) True by auto
    have step: "encode_from uids limit (?j + 1) ?s = (m, t)"
      using "1.prems"(6) True by (subst (asm) encode_from.simps) (auto simp: Let_def split: if_splits)
    have tk: "take (?j + 1) uids = take n uids @ take (Suc ?j - n) (drop n uids)"
      using j take_add [of n "Suc ?j - n" uids] by simp
    have mem: "uid_set_members ?s = Some (take (?j + 1) uids)"
    proof (cases "n = 0")
      case True
      then show ?thesis using "1.prems"(4) members_single [OF r(2,1)] tk by simp
    next
      case False
      then have "s \<noteq> []" "uid_set_members s = Some (take n uids)" using "1.prems"(4) by auto
      then show ?thesis using members_snoc [OF r(2) _ r(1)] tk by simp
    qed
    have len: "length ?s \<le> MAX_UID_SET_BYTES"
      using True "1.prems"(4) r(3) by (cases "n = 0") (auto simp: MAX_UID_SET_BYTES_def)
    have "?j + 1 \<le> m \<and> m \<le> limit \<and> (0 < limit \<longrightarrow> 0 < m) \<and> (0 < m \<longrightarrow> uid_set_members t = Some (take m uids)) \<and> length t \<le> MAX_UID_SET_BYTES"
      by (rule "1.IH" [OF _ refl refl refl]) (use True j "1.prems"(2,3) mem len step r(4) in \<open>auto split: if_splits\<close>)
    then show ?thesis using j by auto
  qed
qed

lemma encode_uid_page_exact:
  assumes "uids \<noteq> []" "list_all (\<lambda>u. u \<le> u64_max) uids" "encode_uid_page uids max_count = (n, s)"
  shows "0 < n" "n \<le> length uids" "n \<le> max max_count 1" "uid_set_members s = Some (take n uids)" "length s \<le> MAX_UID_SET_BYTES"
proof -
  let ?l = "min (length uids) (max max_count 1)"
  have l: "0 < ?l" using assms(1) by simp
  have "0 \<le> n \<and> n \<le> ?l \<and> (0 < ?l \<longrightarrow> 0 < n) \<and> (0 < n \<longrightarrow> uid_set_members s = Some (take n uids)) \<and> length s \<le> MAX_UID_SET_BYTES"
    using assms(2,3) by (intro encode_from_exact [of 0 ?l uids "[]" n s]) (simp_all add: encode_uid_page_def)
  then show "0 < n" "n \<le> length uids" "n \<le> max max_count 1" "uid_set_members s = Some (take n uids)" "length s \<le> MAX_UID_SET_BYTES"
    using l by auto
qed

section \<open>Complete sequence pages\<close>

lemma sequence_line_found:
  "sequence_line line lo hi seen = Inr (Some (n, u)) \<Longrightarrow> lo \<le> n \<and> n \<le> hi \<and> n \<notin> seen \<and> valid_uid u"
  by (auto simp: sequence_line_def validate_imap_uid_def valid_uid_def split: list.splits if_splits option.splits)

lemma sequence_lines_found:
  assumes "sequence_lines lines lo hi found = Inr all" "distinct (map fst found)"
    "list_all (\<lambda>(n, u). lo \<le> n \<and> n \<le> hi \<and> valid_uid u) found"
  shows "distinct (map fst all) \<and> list_all (\<lambda>(n, u). lo \<le> n \<and> n \<le> hi \<and> valid_uid u) all"
  using assms
proof (induction lines lo hi found rule: sequence_lines.induct)
  case (2 line lines lo hi found)
  show ?case
  proof (cases "sequence_line line lo hi (set (map fst found))")
    case (Inr o')
    show ?thesis
    proof (cases o')
      case (Some p)
      obtain n u where p: "p = (n, u)" by (cases p)
      note f = sequence_line_found [of line lo hi "set (map fst found)" n u] Inr Some p
      show ?thesis using "2.IH"(2) [OF Inr Some] "2.prems" f by auto
    qed (use 2 Inr in auto)
  qed (use "2.prems" in auto)
qed auto

lemma parse_uid_fetch_page:
  assumes "parse_uid_fetch_response response lo hi = Inr uids"
  shows "lo \<noteq> 0" "lo \<le> hi" "length uids = hi - lo + 1" "sorted_wrt (<) uids" "list_all valid_uid uids"
proof -
  obtain found where f: "sequence_lines (text_lines response) lo hi [] = Inr found"
    and c: "lo \<noteq> 0" "lo \<le> hi" "length found = hi - lo + 1" "successively (\<lambda>p q. snd p < snd q) (sort_key fst found)" "uids = map snd (sort_key fst found)"
    using assms by (auto simp: parse_uid_fetch_response_def Let_def split: sum.splits if_splits)
  show "lo \<noteq> 0" "lo \<le> hi" "length uids = hi - lo + 1" using c by simp_all
  have "list_all (\<lambda>(n, u). lo \<le> n \<and> n \<le> hi \<and> valid_uid u) found" using sequence_lines_found [OF f] by simp
  then show "list_all valid_uid uids" unfolding c(5) by (auto simp: list_all_iff)
  have "sorted_wrt (\<lambda>p q. snd p < snd q) (sort_key fst found)"
    using c(4) by (subst (asm) successively_conv_sorted_wrt) (auto simp: transp_def)
  then show "sorted_wrt (<) uids" unfolding c(5) by (simp add: sorted_wrt_map)
qed

section \<open>The enumeration loop\<close>

datatype scan_error =
    Fetch_Refused fetch_error
  | Order_Changed
  | Invalid_Prefix
  | Count_Overflow

lemma encode_from_ge: "n \<le> fst (encode_from uids limit n s)"
proof (induction uids limit n s rule: encode_from.induct)
  case (1 uids limit n s)
  have "n \<le> fst (encode_from uids limit (run_end uids limit n + 1) t)"
    if "run_end uids limit n + 1 \<le> fst (encode_from uids limit (run_end uids limit n + 1) t)" for t
    using that run_end_ge [of n uids limit] by simp
  then show ?case using 1 by (subst encode_from.simps) (auto simp: Let_def)
qed

lemma encode_progress: "uids \<noteq> [] \<Longrightarrow> 0 < fst (encode_uid_page uids max_count)"
proof -
  assume "uids \<noteq> []"
  then have "encode_uid_page uids max_count =
      encode_from uids (min (length uids) (max max_count 1)) (run_end uids (min (length uids) (max max_count 1)) 0 + 1)
        (run_item uids 0 (run_end uids (min (length uids) (max max_count 1)) 0))"
    unfolding encode_uid_page_def by (subst encode_from.simps) (simp add: Let_def)
  then show ?thesis using encode_from_ge [of "run_end uids (min (length uids) (max max_count 1)) 0 + 1"] by (metis Suc_eq_plus1 Suc_le_eq le_less_trans zero_le)
qed

function consume_pages ::
  "(nat list \<Rightarrow> str \<Rightarrow> 's \<Rightarrow> ('e + nat) \<times> 's) \<Rightarrow> nat list \<Rightarrow> planner \<Rightarrow> 's \<Rightarrow> ('e + planner) \<times> 's" where
  "consume_pages consume uids pl st =
     (if uids = [] then (Inr pl, st)
      else case consume (take (fst (encode_uid_page uids (pl_size pl))) uids) (snd (encode_uid_page uids (pl_size pl))) st of
             (Inl e, st') \<Rightarrow> (Inl e, st')
           | (Inr response_bytes, st') \<Rightarrow>
               consume_pages consume (drop (fst (encode_uid_page uids (pl_size pl))) uids)
                 (observe (fst (encode_uid_page uids (pl_size pl))) response_bytes pl) st')"
  by pat_completeness auto

termination
  by (relation "measure (\<lambda>(consume, uids, pl, st). length uids)") (simp_all add: encode_progress)

declare consume_pages.simps [simp del]

text \<open>
  The loop over sequence pages; an error of the loop itself is turned into the error type of the callbacks. Its end is
  not a matter of the sequence numbers alone, whose increment saturates: every page brings UIDs above the last one,
  and these are bounded.
\<close>

definition last_or_zero :: "nat option \<Rightarrow> nat" where
  "last_or_zero last_uid = (case last_uid of None \<Rightarrow> 0 | Some u \<Rightarrow> u)"

lemma page_grows:
  assumes "parse_uid_fetch_response response lo hi = Inr uids" "\<not> (last_uid \<noteq> None \<and> uids \<noteq> [] \<and> hd uids \<le> the last_uid)"
  shows "uids \<noteq> []" "last_or_zero last_uid < last uids" "last uids \<le> u32_max"
proof -
  note p = parse_uid_fetch_page [OF assms(1)]
  show n: "uids \<noteq> []" using p(3) by auto
  have v: "valid_uid (hd uids)" "valid_uid (last uids)" using p(5) n by (auto simp: list_all_iff)
  show "last uids \<le> u32_max" using v(2) by (simp add: valid_uid_def)
  have "hd uids \<le> last uids" using p(4) n by (cases uids) (auto simp: less_imp_le)
  moreover have "last_or_zero last_uid < hd uids" using assms(2) n v(1) by (cases last_uid) (auto simp: last_or_zero_def valid_uid_def)
  ultimately show "last_or_zero last_uid < last uids" by simp
qed

function enumerate_loop ::
  "(scan_error \<Rightarrow> 'e) \<Rightarrow> (nat \<Rightarrow> nat \<Rightarrow> nat \<Rightarrow> 's \<Rightarrow> ('e + str) \<times> 's) \<Rightarrow> (nat list \<Rightarrow> str \<Rightarrow> 's \<Rightarrow> ('e + nat) \<times> 's) \<Rightarrow> nat \<Rightarrow>
     nat \<Rightarrow> nat \<Rightarrow> nat \<Rightarrow> nat option \<Rightarrow> planner \<Rightarrow> 's \<Rightarrow> ('e + nat) \<times> 's" where
  "enumerate_loop fail exchange consume existing search_number sequence_start enumerated last_uid pl st =
     (if sequence_start \<le> existing then
        let sequence_end = min (saturating_add_u64 sequence_start (MESSAGE_UID_ENUMERATION_PAGE_SIZE - 1)) existing in
        case exchange search_number sequence_start sequence_end st of
          (Inl e, st1) \<Rightarrow> (Inl e, st1)
        | (Inr response, st1) \<Rightarrow>
            (case parse_uid_fetch_response response sequence_start sequence_end of
               Inl e \<Rightarrow> (Inl (fail (Fetch_Refused e)), st1)
             | Inr uids \<Rightarrow>
                 if last_uid \<noteq> None \<and> uids \<noteq> [] \<and> hd uids \<le> the last_uid then (Inl (fail Order_Changed), st1)
                 else if enumerated + length uids > u64_max then (Inl (fail Count_Overflow), st1)
                 else case consume_pages consume uids pl st1 of
                        (Inl e, st2) \<Rightarrow> (Inl e, st2)
                      | (Inr pl', st2) \<Rightarrow>
                          enumerate_loop fail exchange consume existing (saturating_add_u64 search_number 1)
                            (saturating_add_u64 sequence_end 1) (enumerated + length uids)
                            (if uids = [] then last_uid else Some (last uids)) pl' st2)
      else (Inr enumerated, st))"
  by pat_completeness auto

termination
proof (relation "measure (\<lambda>(fail, exchange, consume, existing, search_number, sequence_start, enumerated, last_uid, pl, st). Suc u32_max - last_or_zero last_uid)", goal_cases)
  case 2
  note g = page_grows [OF 2(5,6)]
  then show ?case by (simp add: last_or_zero_def [of "Some _"] diff_less_mono2)
qed simp

declare enumerate_loop.simps [simp del]

definition enumerate_uid_pages ::
  "(scan_error \<Rightarrow> 'e) \<Rightarrow> (nat \<Rightarrow> nat \<Rightarrow> nat \<Rightarrow> 's \<Rightarrow> ('e + str) \<times> 's) \<Rightarrow> (nat list \<Rightarrow> str \<Rightarrow> 's \<Rightarrow> ('e + nat) \<times> 's) \<Rightarrow> nat \<Rightarrow>
     (nat \<times> nat) option \<Rightarrow> planner \<Rightarrow> 's \<Rightarrow> ('e + nat) \<times> 's" where
  "enumerate_uid_pages fail exchange consume existing resume_prefix pl st =
     (case resume_prefix of
        Some (n, last_uid) \<Rightarrow>
          if n > 0 \<and> n \<le> existing then
            if n + 1 > u64_max then (Inl (fail Count_Overflow), st)
            else enumerate_loop fail exchange consume existing 0 (n + 1) n (Some last_uid) pl st
          else (Inl (fail Invalid_Prefix), st)
      | None \<Rightarrow> enumerate_loop fail exchange consume existing 0 1 0 None pl st)"

section \<open>Consumers of pages\<close>

lemma valid_uids_u64: "list_all valid_uid uids \<Longrightarrow> list_all (\<lambda>u. u \<le> u64_max) uids"
  by (auto simp: list_all_iff valid_uid_def u32_max_def u64_max_def)

lemma uids_bounded: "sorted_wrt (<) us \<Longrightarrow> list_all valid_uid us \<Longrightarrow> length us \<le> u32_max"
proof -
  assume s: "sorted_wrt (<) us" and v: "list_all valid_uid us"
  have "set us \<subseteq> {1..u32_max}" using v by (auto simp: list_all_iff valid_uid_def)
  then have "card (set us) \<le> u32_max" using card_mono [of "{1..u32_max}" "set us"] by simp
  then show ?thesis using s by (simp add: strict_sorted_iff distinct_card)
qed

text \<open>
  A page that the loop hands out: some UIDs of the mailbox above all earlier ones, and a set that denotes them.
\<close>

definition page_follows :: "nat list \<Rightarrow> nat list \<Rightarrow> str \<Rightarrow> bool" where
  "page_follows us page uid_set \<longleftrightarrow>
     page \<noteq> [] \<and> sorted_wrt (<) (us @ page) \<and> list_all valid_uid page \<and>
     uid_set_members uid_set = Some page \<and> length uid_set \<le> MAX_UID_SET_BYTES"

text \<open>
  The interface between the loop and its callbacks. First, what the callbacks keep whatever they return, which is what
  a failed enumeration leaves behind.
\<close>

locale page_keeper =
  fixes exchange :: "nat \<Rightarrow> nat \<Rightarrow> nat \<Rightarrow> 's \<Rightarrow> ('e + str) \<times> 's"
    and consume :: "nat list \<Rightarrow> str \<Rightarrow> 's \<Rightarrow> ('e + nat) \<times> 's"
    and keeps :: "'s \<Rightarrow> bool"
  assumes exchange_kept: "keeps st \<Longrightarrow> keeps (snd (exchange k lo hi st))"
    and consume_kept: "keeps st \<Longrightarrow> keeps (snd (consume page uid_set st))"
begin

lemma consume_pages_kept: "keeps st \<Longrightarrow> keeps (snd (consume_pages consume uids pl st))"
proof (induction uids arbitrary: pl st rule: length_induct)
  case (1 uids)
  show ?case
  proof (cases "uids = []")
    case True
    then show ?thesis using "1.prems" by (simp add: consume_pages.simps)
  next
    case False
    obtain n s where e: "encode_uid_page uids (pl_size pl) = (n, s)" by fastforce
    obtain r st1 where c: "consume (take n uids) s st = (r, st1)" by fastforce
    have k: "keeps st1" using consume_kept [OF "1.prems", of "take n uids" s] c by simp
    have "length (drop n uids) < length uids" using encode_progress [OF False, of "pl_size pl"] e False by simp
    then have "keeps (snd (consume_pages consume (drop n uids) pl' st1))" for pl' using "1.IH" k by blast
    then show ?thesis using False k c by (subst consume_pages.simps) (simp add: e split: sum.splits)
  qed
qed

lemma enumerate_loop_kept:
  "keeps st \<Longrightarrow> keeps (snd (enumerate_loop fail exchange consume existing k sequence_start enumerated last_uid pl st))"
proof (induction "Suc u32_max - last_or_zero last_uid" arbitrary: k sequence_start enumerated last_uid pl st rule: less_induct)
  case less
  define e where "e = min (saturating_add_u64 sequence_start (MESSAGE_UID_ENUMERATION_PAGE_SIZE - 1)) existing"
  obtain r st1 where x: "exchange k sequence_start e st = (r, st1)" by fastforce
  have k1: "keeps st1" using exchange_kept [OF less.prems, of k sequence_start e] x by simp
  have "keeps (snd (enumerate_loop fail exchange consume existing (saturating_add_u64 k 1) (saturating_add_u64 e 1)
      (enumerated + length uids) (if uids = [] then last_uid else Some (last uids)) pl' st2))"
    if "r = Inr response" "parse_uid_fetch_response response sequence_start e = Inr uids"
      "\<not> (last_uid \<noteq> None \<and> uids \<noteq> [] \<and> hd uids \<le> the last_uid)" "consume_pages consume uids pl st1 = (Inr pl', st2)"
    for response uids pl' st2
  proof (rule less.hyps)
    note g = page_grows [OF that(2,3)]
    show "Suc u32_max - last_or_zero (if uids = [] then last_uid else Some (last uids)) < Suc u32_max - last_or_zero last_uid"
      using g by (simp add: last_or_zero_def [of "Some _"] diff_less_mono2)
    show "keeps st2" using consume_pages_kept [OF k1, of uids pl] that(4) by simp
  qed
  note step = this
  let ?loop = "enumerate_loop fail exchange consume existing k sequence_start enumerated last_uid pl st"
  note unfolded = enumerate_loop.simps [of fail exchange consume existing k sequence_start enumerated last_uid pl st, unfolded Let_def, folded e_def]
  show ?case
  proof (cases "\<exists>response uids. sequence_start \<le> existing \<and> r = Inr response \<and> parse_uid_fetch_response response sequence_start e = Inr uids \<and>
      \<not> (last_uid \<noteq> None \<and> uids \<noteq> [] \<and> hd uids \<le> the last_uid) \<and> enumerated + length uids \<le> u64_max")
    case True
    then obtain response uids where a: "sequence_start \<le> existing" "r = Inr response" "parse_uid_fetch_response response sequence_start e = Inr uids"
      "\<not> (last_uid \<noteq> None \<and> uids \<noteq> [] \<and> hd uids \<le> the last_uid)" "enumerated + length uids \<le> u64_max" by blast
    obtain q st2 where c: "consume_pages consume uids pl st1 = (q, st2)" by fastforce
    have k2: "keeps st2" using consume_pages_kept [OF k1, of uids pl] c by simp
    show ?thesis
    proof (cases q)
      case (Inl err)
      then show ?thesis using a c x k2 by (simp only: unfolded) auto
    next
      case (Inr pl')
      then show ?thesis using a c x step [OF a(2-4)] by (simp only: unfolded) auto
    qed
  next
    case False
    have "snd ?loop = st \<or> snd ?loop = st1"
    proof (cases "sequence_start \<le> existing")
      case True
      then show ?thesis using False x by (cases r) (auto simp: unfolded not_le split: sum.splits)
    qed (simp add: unfolded)
    then show ?thesis using k1 less.prems by auto
  qed
qed

lemma enumeration_kept: "keeps st \<Longrightarrow> keeps (snd (enumerate_uid_pages fail exchange consume existing resume_prefix pl st))"
  by (simp add: enumerate_uid_pages_def enumerate_loop_kept split: option.splits prod.splits)

end

text \<open>
  Second, a property of the state and of the UIDs consumed so far that an exchange keeps and that the consumption of
  the next page extends.
\<close>

locale page_consumer = page_keeper exchange consume keeps
  for exchange :: "nat \<Rightarrow> nat \<Rightarrow> nat \<Rightarrow> 's \<Rightarrow> ('e + str) \<times> 's" and consume keeps +
  fixes done_with :: "nat list \<Rightarrow> 's \<Rightarrow> bool"
  assumes exchange_keeps: "done_with us st \<Longrightarrow> exchange k lo hi st = (Inr response, st') \<Longrightarrow> done_with us st'"
    and consume_extends: "done_with us st \<Longrightarrow> page_follows us page uid_set \<Longrightarrow> consume page uid_set st = (Inr n, st') \<Longrightarrow>
      done_with (us @ page) st'"
begin

lemma consume_pages_extend:
  "done_with us st \<Longrightarrow> sorted_wrt (<) (us @ uids) \<Longrightarrow> list_all valid_uid uids \<Longrightarrow>
     consume_pages consume uids pl st = (Inr pl', st') \<Longrightarrow> done_with (us @ uids) st'"
proof (induction uids arbitrary: us pl st rule: length_induct)
  case (1 uids)
  show ?case
  proof (cases "uids = []")
    case True
    then show ?thesis using "1.prems" by (subst (asm) consume_pages.simps) simp
  next
    case False
    obtain n s where e: "encode_uid_page uids (pl_size pl) = (n, s)" by fastforce
    note x = encode_uid_page_exact [OF False valid_uids_u64 [OF "1.prems"(3)] e]
    obtain b st1 where c: "consume (take n uids) s st = (Inr b, st1)"
      and r: "consume_pages consume (drop n uids) (observe n b pl) st1 = (Inr pl', st')"
      using "1.prems"(4) False unfolding consume_pages.simps [of consume uids pl st] by (auto simp: e split: sum.splits prod.splits)
    have sp: "us @ uids = (us @ take n uids) @ drop n uids" by simp
    have "sorted_wrt (<) (us @ take n uids)" using "1.prems"(2) unfolding sp sorted_wrt_append [of _ "us @ take n uids"] by blast
    moreover have "list_all valid_uid (take n uids)" "list_all valid_uid (drop n uids)"
      using "1.prems"(3) by (metis append_take_drop_id list_all_append)+
    ultimately have "page_follows us (take n uids) s" using x False by (simp add: page_follows_def)
    then have "done_with (us @ take n uids) st1" by (rule consume_extends [OF "1.prems"(1) _ c])
    moreover have "length (drop n uids) < length uids" using x(1) False by simp
    ultimately show ?thesis
      using "1.IH" r "1.prems"(2) \<open>list_all valid_uid (drop n uids)\<close> unfolding sp by blast
  qed
qed

lemma enumerate_loop_extends:
  assumes "done_with us st" "sorted_wrt (<) us" "list_all valid_uid us" "length us = enumerated" "sequence_start = enumerated + 1"
    and "last_uid = (if us = [] then None else Some (last us))" "enumerated \<le> existing"
    and "enumerate_loop fail exchange consume existing k sequence_start enumerated last_uid pl st = (Inr n, st')"
  shows "n = existing \<and> (\<exists>us'. done_with us' st' \<and> sorted_wrt (<) us' \<and> list_all valid_uid us' \<and> length us' = existing)"
  using assms
proof (induction "Suc u32_max - last_or_zero last_uid" arbitrary: us k sequence_start enumerated last_uid pl st rule: less_induct)
  case less
  show ?case
  proof (cases "sequence_start \<le> existing")
    case False
    then show ?thesis using less.prems by (subst (asm) enumerate_loop.simps) auto
  next
    case True
    define e where "e = min (saturating_add_u64 sequence_start (MESSAGE_UID_ENUMERATION_PAGE_SIZE - 1)) existing"
    obtain response st1 uids pl' st2 where x: "exchange k sequence_start e st = (Inr response, st1)"
      and p: "parse_uid_fetch_response response sequence_start e = Inr uids"
      and o: "\<not> (last_uid \<noteq> None \<and> uids \<noteq> [] \<and> hd uids \<le> the last_uid)"
      and c: "consume_pages consume uids pl st1 = (Inr pl', st2)"
      and r: "enumerate_loop fail exchange consume existing (saturating_add_u64 k 1) (saturating_add_u64 e 1) (enumerated + length uids)
        (if uids = [] then last_uid else Some (last uids)) pl' st2 = (Inr n, st')"
      using less.prems(8) True unfolding enumerate_loop.simps [of fail exchange consume existing k sequence_start enumerated last_uid pl st] Let_def e_def [symmetric]
      by (auto split: sum.splits if_splits prod.splits)
    note g = page_grows [OF p o] and q = parse_uid_fetch_page [OF p]
    have s: "sorted_wrt (<) (us @ uids)"
    proof (cases "us = []")
      case False
      have "x \<le> last us" if "x \<in> set us" for x
        using that less.prems(2) False by (metis append_butlast_last_id in_set_conv_nth le_eq_less_or_eq set_ConsD sorted_wrt_append list.set_intros(1) rotate1.simps(2) set_rotate1)
      moreover have "last us < y" if "y \<in> set uids" for y
      proof -
        have "last us < hd uids" using o less.prems(6) False g(1) by simp
        moreover have "hd uids \<le> y" using that q(4) by (cases uids) auto
        ultimately show ?thesis by simp
      qed
      ultimately show ?thesis using less.prems(2) q(4) by (fastforce simp: sorted_wrt_append)
    qed (use q(4) in simp)
    have v: "list_all valid_uid (us @ uids)" using less.prems(3) q(5) by simp
    have d: "done_with (us @ uids) st2" by (rule consume_pages_extend [OF exchange_keeps [OF less.prems(1) x] s q(5) c])
    have n: "enumerated + length uids = e" using q(2,3) less.prems(5) by simp
    have "e \<le> u32_max" using uids_bounded [OF s v] n less.prems(4) by simp
    then have sa: "saturating_add_u64 e 1 = e + 1" by (simp add: saturating_add_u64_def u32_max_def u64_max_def)
    show ?thesis
    proof (rule less.hyps [OF _ d s v])
      show "Suc u32_max - last_or_zero (Some (last uids)) < Suc u32_max - last_or_zero last_uid"
        using g by (simp add: last_or_zero_def [of "Some _"] diff_less_mono2)
      show "enumerate_loop fail exchange consume existing (saturating_add_u64 k 1) (e + 1) e (Some (last uids)) pl' st2 = (Inr n, st')"
        using r g(1) n sa by simp
    qed (use n less.prems(4) g(1) e_def in simp_all)
  qed
qed

lemma enumeration_covers:
  assumes "enumerate_uid_pages fail exchange consume existing resume_prefix pl st = (Inr n, st')" "done_with us st"
    and "sorted_wrt (<) us" "list_all valid_uid us" "resume_prefix = (if us = [] then None else Some (length us, last us))"
  shows "n = existing \<and> (\<exists>us'. done_with us' st' \<and> sorted_wrt (<) us' \<and> list_all valid_uid us' \<and> length us' = existing)"
proof (cases "us = []")
  case True
  then show ?thesis using assms by (intro enumerate_loop_extends [of us st 0 1 None]) (simp_all add: enumerate_uid_pages_def)
next
  case False
  then show ?thesis using assms
    by (intro enumerate_loop_extends [of us st "length us" "length us + 1" "Some (last us)"]) (simp_all add: enumerate_uid_pages_def split: if_splits)
qed

end

section \<open>Properties\<close>

text \<open>
  C22: the UID set of a fetch page denotes exactly the UIDs of the page, in order, as a mail server reads it: the page is
  a non-empty prefix of the remaining UIDs, no longer than the planner allows, and the set fits in a command line.
\<close>

theorem uid_page_is_exact:
  assumes "uids \<noteq> []" "list_all valid_uid uids" "encode_uid_page uids max_count = (n, uid_set)"
  shows "0 < n \<and> n \<le> length uids \<and> n \<le> max max_count 1 \<and> uid_set_members uid_set = Some (take n uids) \<and> length uid_set \<le> MAX_UID_SET_BYTES"
  using encode_uid_page_exact [OF assms(1) valid_uids_u64 [OF assms(2)] assms(3)] by simp

theorem uid_page_is_exact_witness:
  "0 < (4::nat) \<and> 4 \<le> length [3, 4, 5, 9, 12::nat] \<and> 4 \<le> max 4 (1::nat) \<and>
     uid_set_members ''3:5,9'' = Some (take 4 [3, 4, 5, 9, 12]) \<and> length ''3:5,9'' \<le> MAX_UID_SET_BYTES"
proof -
  have "list_all valid_uid [3, 4, 5, 9, 12]" by code_simp
  moreover have "encode_uid_page [3, 4, 5, 9, 12] 4 = (4, ''3:5,9'')" by code_simp
  ultimately show ?thesis using uid_page_is_exact [of "[3, 4, 5, 9, 12]" 4 4 "''3:5,9''"] by blast
qed

end
