(* ===== verification/Imap_Fetch.thy ===== *)
theory Imap_Fetch
  imports Imap_Framing Imap_Pages
begin

text \<open>
  The parsers of FETCH responses: \<^verbatim>\<open>imap_probe/fetch_parser.rs\<close>. SHA-256 is a parameter. The theory ends with the
  facts that the verifier relies on: the parsed records have distinct, canonical UIDs of the selected mailbox, and
  the identity of a message is a Message-ID or a fingerprint of its headers, never one passed off as the other.
\<close>

section \<open>Records\<close>

datatype parse_error =
    Framing_Error frame_error
  | Malformed_Record
  | Uid_Missing
  | Uid_Refused fetch_error
  | Duplicate_Uid str
  | Body_Missing nat
  | Body_Too_Large nat nat

record fetch_record =
  rec_frame :: response_frame
  rec_text :: str

definition is_fetch_record_candidate :: "str \<Rightarrow> bool" where
  "is_fetch_record_candidate line \<longleftrightarrow>
     (case split_whitespace line of
        star # _ # name # _ \<Rightarrow> star = ''*'' \<and> eq_ignore_ascii_case name ''FETCH''
      | _ \<Rightarrow> False)"

definition is_fetch_record_line :: "str \<Rightarrow> bool" where
  "is_fetch_record_line line \<longleftrightarrow>
     (case split_whitespace line of
        star # number # name # items # _ \<Rightarrow>
          star = ''*'' \<and> parse_u64 number \<noteq> None \<and> eq_ignore_ascii_case name ''FETCH'' \<and> starts_with ''('' items
      | _ \<Rightarrow> False)"

definition protocol_text :: "str list \<Rightarrow> str" where
  "protocol_text segments =
     fold (\<lambda>segment text. text @ (if text \<noteq> [] \<and> segment \<noteq> [] then '' '' else []) @ from_utf8_lossy segment) segments []"

definition fetch_record_of :: "frame_error + response_frame \<Rightarrow> (parse_error + fetch_record) option" where
  "fetch_record_of item =
     (case item of
        Inl e \<Rightarrow> Some (Inl (Framing_Error e))
      | Inr frame \<Rightarrow>
          (case fr_protocol frame of
             [] \<Rightarrow> None
           | segment # _ \<Rightarrow>
               let first = from_utf8_lossy segment in
               if \<not> is_fetch_record_candidate first then None
               else if \<not> is_fetch_record_line first then Some (Inl Malformed_Record)
               else Some (Inr \<lparr>rec_frame = frame, rec_text = protocol_text (fr_protocol frame)\<rparr>)))"

definition fetch_records :: "str \<Rightarrow> (parse_error + fetch_record) list" where
  "fetch_records response = List.map_filter fetch_record_of (split_responses response)"

section \<open>Items\<close>

definition item_at :: "str \<Rightarrow> char option \<Rightarrow> str \<Rightarrow> bool" where
  "item_at field before s \<longleftrightarrow>
     length field < length s \<and> eq_ignore_ascii_case (take (length field) s) field \<and>
     before \<in> {None, Some (CHR '' ''), Some (CHR ''('')} \<and> s ! length field = CHR '' ''"

text \<open>The text after the first item with a name; the character before the position is carried along.\<close>

fun find_item :: "str \<Rightarrow> char option \<Rightarrow> str \<Rightarrow> str option" where
  "find_item field before [] = None"
| "find_item field before (c # cs) =
     (if item_at field before (c # cs) then Some (drop (length field) (c # cs)) else find_item field (Some c) cs)"

definition fetch_number :: "str \<Rightarrow> str \<Rightarrow> nat option" where
  "fetch_number text field =
     (case find_item field None text of
        None \<Rightarrow> None
      | Some rest \<Rightarrow>
          let digits = takeWhile is_ascii_digit (trim_start rest) in if digits = [] then None else parse_u64 digits)"

definition fetch_quoted :: "str \<Rightarrow> str \<Rightarrow> str option" where
  "fetch_quoted text field =
     (case find_item field None text of
        None \<Rightarrow> None
      | Some rest \<Rightarrow>
          (case strip_prefix [CHR 0x22] (trim_start rest) of
             None \<Rightarrow> None
           | Some v \<Rightarrow> map_option fst (split_once [CHR 0x22] v)))"

definition SYSTEM_FLAGS :: "str list" where
  "SYSTEM_FLAGS = map ((#) (CHR 0x5C)) [''Answered'', ''Deleted'', ''Draft'', ''Flagged'', ''Seen'']"

definition canonical_flag :: "str \<Rightarrow> str" where
  "canonical_flag atom =
     (case find (\<lambda>system. eq_ignore_ascii_case system atom) SYSTEM_FLAGS of
        Some system \<Rightarrow> system
      | None \<Rightarrow> to_ascii_lowercase atom)"

definition canonical_flag_set :: "str list \<Rightarrow> str" where
  "canonical_flag_set atoms =
     join_with '' ''
       (remdups_adj (sort (map canonical_flag
          (filter (\<lambda>atom. atom \<noteq> [] \<and> \<not> eq_ignore_ascii_case atom (CHR 0x5C # ''Recent'')) atoms))))"

definition fetch_flags :: "str \<Rightarrow> str option" where
  "fetch_flags text =
     (case find_item ''FLAGS'' None text of
        None \<Rightarrow> None
      | Some rest \<Rightarrow>
          (case strip_prefix ''('' (trim_start rest) of
             None \<Rightarrow> None
           | Some v \<Rightarrow> map_option (\<lambda>(flags, _). canonical_flag_set (split_whitespace flags)) (split_once '')'' v)))"

definition parsed_fetch_uid :: "str \<Rightarrow> parse_error + nat" where
  "parsed_fetch_uid text =
     (case fetch_number text ''UID'' of
        None \<Rightarrow> Inl Uid_Missing
      | Some uid \<Rightarrow> map_sum Uid_Refused id (validate_imap_uid uid))"

section \<open>Identities\<close>

definition is_folded_line :: "str \<Rightarrow> bool" where
  "is_folded_line line \<longleftrightarrow> starts_with '' '' line \<or> starts_with [CHR 0x09] line"

text \<open>The value of the one Message-ID field; a second one ends the search without a value.\<close>

fun message_id_field :: "str list \<Rightarrow> str option \<Rightarrow> str option" where
  "message_id_field [] found = found"
| "message_id_field (line # lines) found =
     (if is_folded_line line then message_id_field lines (map_option (\<lambda>v. v @ '' '' @ trim line) found)
      else case split_once '':'' line of
             None \<Rightarrow> message_id_field lines found
           | Some (name, v) \<Rightarrow>
               if eq_ignore_ascii_case (trim name) ''message-id'' then
                 (if found \<noteq> None then None else message_id_field lines (Some (trim v)))
               else message_id_field lines found)"

fun has_whitespace :: "str \<Rightarrow> bool" where
  "has_whitespace [] = False"
| "has_whitespace (c # cs) = (ws_width (c # cs) > 0 \<or> has_whitespace cs)"

definition strip_suffix_char :: "char \<Rightarrow> str \<Rightarrow> str option" where
  "strip_suffix_char c s = (if s \<noteq> [] \<and> last s = c then Some (butlast s) else None)"

definition parse_message_id_header :: "str \<Rightarrow> str option" where
  "parse_message_id_header body =
     (case message_id_field (text_lines body) None of
        None \<Rightarrow> None
      | Some raw \<Rightarrow>
          let v = join_with '' '' (split_whitespace raw) in
          case Option.bind (strip_prefix ''<'' v) (strip_suffix_char (CHR ''>'')) of
            None \<Rightarrow> None
          | Some inner \<Rightarrow>
              (case split_once ''@'' inner of
                 None \<Rightarrow> None
               | Some (left, right) \<Rightarrow>
                   if left = [] \<or> right = [] \<or> has_control inner \<or> has_whitespace inner \<or>
                      CHR ''<'' \<in> set inner \<or> CHR ''>'' \<in> set inner
                   then None else Some v))"

definition SELECTED :: "str list" where
  "SELECTED = [''from'', ''to'', ''cc'', ''subject'', ''date'', ''message-id'', ''content-type'']"

fun selected_headers :: "str list \<Rightarrow> str option \<Rightarrow> (str \<rightharpoonup> str) \<Rightarrow> (str \<rightharpoonup> str)" where
  "selected_headers [] current values = values"
| "selected_headers (line # lines) current values =
     (if is_folded_line line then
        selected_headers lines current
          (case current of
             None \<Rightarrow> values
           | Some name \<Rightarrow> values(name := map_option (\<lambda>v. v @ '' '' @ trim line) (values name)))
      else case split_once '':'' line of
             None \<Rightarrow> selected_headers lines None values
           | Some (name, v) \<Rightarrow>
               (case find (\<lambda>selected. selected = to_ascii_lowercase (trim name)) SELECTED of
                  None \<Rightarrow> selected_headers lines None values
                | Some name' \<Rightarrow>
                    selected_headers lines (Some name') (values(name' \<mapsto> join_with '' '' (split_whitespace v)))))"

definition hex_digit :: "nat \<Rightarrow> char" where
  "hex_digit n = ''0123456789abcdef'' ! (n mod 16)"

definition hex_encode :: "str \<Rightarrow> str" where
  "hex_encode bs = concat (map (\<lambda>b. [hex_digit (char_code b div 16), hex_digit (char_code b)]) bs)"

definition header_fingerprint :: "(str \<Rightarrow> str) \<Rightarrow> str \<Rightarrow> str option" where
  "header_fingerprint sha256 body =
     (let values = selected_headers (text_lines body) None Map.empty in
      if \<not> list_ex (\<lambda>name. values name \<noteq> None) SELECTED then None
      else Some (''header-fingerprint:'' @ hex_encode (sha256 (join_with [CHR 0x0A]
             (map (\<lambda>name. name @ '':'' @ (case values name of None \<Rightarrow> [] | Some v \<Rightarrow> v)) SELECTED)))))"

section \<open>Messages of a response\<close>

definition HEADER_FIELDS :: str where
  "HEADER_FIELDS = ''BODY[HEADER.FIELDS (MESSAGE-ID FROM TO CC SUBJECT DATE CONTENT-TYPE)]''"

definition first_some :: "'a option \<Rightarrow> 'a option \<Rightarrow> 'a option" where
  "first_some a b = (case a of Some _ \<Rightarrow> a | None \<Rightarrow> b)"

definition header_literal :: "fetch_record \<Rightarrow> str option" where
  "header_literal r =
     first_some (literal_after HEADER_FIELDS (rec_frame r)) (literal_after ''BODY[HEADER.FIELDS (MESSAGE-ID)]'' (rec_frame r))"

definition message_identity :: "(str \<Rightarrow> str) \<Rightarrow> fetch_record \<Rightarrow> str option" where
  "message_identity sha256 r =
     (case header_literal r of
        None \<Rightarrow> None
      | Some header \<Rightarrow>
          let text = from_utf8_lossy header in
          first_some (case parse_message_id_header text of Some v \<Rightarrow> if v = [] then None else Some v | None \<Rightarrow> None)
            (header_fingerprint sha256 text))"

definition fetched_message :: "(str \<Rightarrow> str) \<Rightarrow> fetch_record \<Rightarrow> extracted_message" where
  "fetched_message sha256 r =
     \<lparr>em_message_id = message_identity sha256 r, em_uid = None, em_size = fetch_number (rec_text r) ''RFC822.SIZE'',
      em_date = fetch_quoted (rec_text r) ''INTERNALDATE'', em_flags = fetch_flags (rec_text r)\<rparr>"

fun collect_messages ::
  "(str \<Rightarrow> str) \<Rightarrow> str \<Rightarrow> nat option \<Rightarrow> (parse_error + fetch_record) list \<Rightarrow> messages \<Rightarrow> parse_error + messages" where
  "collect_messages sha256 mailbox uidvalidity [] M = Inr M"
| "collect_messages sha256 mailbox uidvalidity (Inl e # items) M = Inl e"
| "collect_messages sha256 mailbox uidvalidity (Inr r # items) M =
     (case parsed_fetch_uid (rec_text r) of
        Inl e \<Rightarrow> Inl e
      | Inr uid \<Rightarrow>
          let key = Message_Key mailbox uidvalidity (nat_to_string uid) in
          if map_of M key \<noteq> None then Inl (Duplicate_Uid (mk_uid key))
          else collect_messages sha256 mailbox uidvalidity items (M @ [(key, fetched_message sha256 r)]))"

definition parse_message_fetch_metadata :: "(str \<Rightarrow> str) \<Rightarrow> str \<Rightarrow> str \<Rightarrow> nat option \<Rightarrow> parse_error + messages" where
  "parse_message_fetch_metadata sha256 response mailbox uidvalidity =
     collect_messages sha256 mailbox uidvalidity (fetch_records response) []"

fun collect_bodies ::
  "(str \<Rightarrow> str) \<Rightarrow> str \<Rightarrow> nat option \<Rightarrow> nat \<Rightarrow> (parse_error + fetch_record) list \<Rightarrow> (message_key \<times> str) list \<times> nat \<Rightarrow>
     parse_error + (message_key \<times> str) list \<times> nat" where
  "collect_bodies sha256 mailbox uidvalidity max_body_bytes [] acc = Inr acc"
| "collect_bodies sha256 mailbox uidvalidity max_body_bytes (Inl e # items) acc = Inl e"
| "collect_bodies sha256 mailbox uidvalidity max_body_bytes (Inr r # items) acc =
     (case parsed_fetch_uid (rec_text r) of
        Inl e \<Rightarrow> Inl e
      | Inr uid \<Rightarrow>
          (case first_some (literal_after ''BODY[]'' (rec_frame r)) (literal_after ''BODY.PEEK[]'' (rec_frame r)) of
             None \<Rightarrow> Inl (Body_Missing uid)
           | Some body \<Rightarrow>
               if length body > max_body_bytes then Inl (Body_Too_Large uid max_body_bytes)
               else let key = Message_Key mailbox uidvalidity (nat_to_string uid) in
                    if map_of (fst acc) key \<noteq> None then Inl (Duplicate_Uid (mk_uid key))
                    else collect_bodies sha256 mailbox uidvalidity max_body_bytes items
                           (fst acc @ [(key, hex_encode (sha256 body))], saturating_add_u64 (snd acc) (length body))))"

definition parse_message_fetch_body_hashes ::
  "(str \<Rightarrow> str) \<Rightarrow> str \<Rightarrow> str \<Rightarrow> nat option \<Rightarrow> nat \<Rightarrow> parse_error + (message_key \<times> str) list \<times> nat" where
  "parse_message_fetch_body_hashes sha256 response mailbox uidvalidity max_body_bytes =
     collect_bodies sha256 mailbox uidvalidity max_body_bytes (fetch_records response) ([], 0)"

section \<open>Keys of the parsed records\<close>

definition page_key :: "str \<Rightarrow> nat option \<Rightarrow> nat \<Rightarrow> message_key" where
  "page_key mailbox uidvalidity uid = Message_Key mailbox uidvalidity (nat_to_string uid)"

lemma nat_to_string_inject: "nat_to_string a = nat_to_string b \<longleftrightarrow> a = b"
  by (metis option.inject parse_digits_nat_to_string)

lemma page_key_inject: "page_key mailbox v a = page_key mailbox v b \<longleftrightarrow> a = b"
  by (simp add: page_key_def nat_to_string_inject)

lemma parsed_fetch_uid_valid: "parsed_fetch_uid text = Inr uid \<Longrightarrow> valid_uid uid"
  by (auto simp: parsed_fetch_uid_def validate_imap_uid_def valid_uid_def split: option.splits if_splits)

lemma collect_messages_keys:
  "collect_messages sha256 mailbox v items M = Inr M' \<Longrightarrow> map fst M = map (page_key mailbox v) us \<Longrightarrow> distinct us \<Longrightarrow> list_all valid_uid us \<Longrightarrow>
     \<exists>us'. map fst M' = map (page_key mailbox v) us' \<and> distinct us' \<and> list_all valid_uid us'"
proof (induction sha256 mailbox v items M arbitrary: us rule: collect_messages.induct)
  case (3 sha256 mailbox v r items M)
  obtain uid where u: "parsed_fetch_uid (rec_text r) = Inr uid" using "3.prems"(1) by (auto split: sum.splits)
  let ?M = "M @ [(page_key mailbox v uid, fetched_message sha256 r)]"
  have n: "map_of M (page_key mailbox v uid) = None" and c: "collect_messages sha256 mailbox v items ?M = Inr M'"
    using "3.prems"(1) u by (simp_all add: Let_def page_key_def split: if_splits)
  have "page_key mailbox v uid \<notin> set (map fst M)" using n by (simp add: map_of_eq_None_iff)
  then have "uid \<notin> set us" unfolding "3.prems"(2) by auto
  then show ?case using "3.IH" [OF u, of "page_key mailbox v uid" "us @ [uid]"] n c "3.prems"(2-4) parsed_fetch_uid_valid [OF u]
    by (simp add: page_key_def)
qed auto

lemma fetched_keys:
  assumes "parse_message_fetch_metadata sha256 response mailbox v = Inr M"
  obtains us where "map fst M = map (page_key mailbox v) us" "distinct us" "list_all valid_uid us"
  using collect_messages_keys [of sha256 mailbox v "fetch_records response" "[]" M "[]"] assms
  by (auto simp: parse_message_fetch_metadata_def)

lemma parsed_uids_keys:
  "map fst M = map (page_key mailbox v) us \<Longrightarrow> list_all valid_uid us \<Longrightarrow> parsed_uids M mailbox = Inr us"
proof (induction M arbitrary: us)
  case (Cons p M)
  then obtain u us' where us: "us = u # us'" by (cases us) auto
  obtain k m where p: "p = (k, m)" by (cases p)
  have "u \<le> u64_max" using Cons.prems(2) us by (simp add: valid_uid_def u32_max_def u64_max_def)
  then have "parse_u64 (nat_to_string u) = Some u" by (simp add: parse_u64_def parse_unsigned_nat_to_string)
  then show ?case using Cons us p by (simp add: page_key_def)
qed simp

text \<open>A page that passes the coverage check holds exactly the requested UIDs, each once.\<close>

lemma covered_page:
  assumes "parse_message_fetch_metadata sha256 response mailbox v = Inr M" "validate_fetch_page_coverage M page mailbox = Inr ()"
  obtains us where "map fst M = map (page_key mailbox v) us" "distinct us" "set us = set page"
proof (rule fetched_keys [OF assms(1)])
  fix us assume u: "map fst M = map (page_key mailbox v) us" "distinct us" "list_all valid_uid us"
  have "set us = set page" using assms(2) parsed_uids_keys [OF u(1,3)] by (auto simp: validate_fetch_page_coverage_def split: if_splits)
  then show thesis using that u by blast
qed

section \<open>Identities cannot be forged\<close>

lemma char_codes: "char_code (CHR ''<'') = 60" "char_code (CHR ''>'') = 62"
  by (simp_all add: char_code_def)

lemma trim_delimited: "trim (CHR ''<'' # s @ [CHR ''>'']) = CHR ''<'' # s @ [CHR ''>'']"
proof -
  let ?v = "CHR ''<'' # s @ [CHR ''>'']"
  have "ws_width ?v = 0" by (simp add: ws_width_def ws_one_def ws_two_def ws_three_def split: list.splits)
  then have a: "trim_start ?v = ?v" by (simp add: trim_start_def Let_def)
  have "ws_width_end ?v = 0" by (simp add: ws_width_end_def ws_one_def ws_two_def ws_three_def char_codes split: list.splits)
  then have "trim_end ?v = ?v" by (simp add: trim_end_def Let_def)
  then show ?thesis using a by (simp add: trim_def)
qed

lemma message_id_delimited:
  assumes "parse_message_id_header body = Some v"
  obtains s where "v = CHR ''<'' # s @ [CHR ''>'']"
proof -
  obtain raw inner rest where v: "v = join_with '' '' (split_whitespace raw)" "strip_prefix ''<'' v = Some rest" "strip_suffix_char (CHR ''>'') rest = Some inner"
    using assms by (auto simp: parse_message_id_header_def Let_def bind_eq_Some_conv split: option.splits if_splits)
  have "v = ''<'' @ rest" by (rule strip_prefix_SomeD [OF v(2)])
  moreover have "rest \<noteq> []" "last rest = CHR ''>''" "inner = butlast rest" using v(3) by (simp_all add: strip_suffix_char_def split: if_splits)
  then have "rest = inner @ [CHR ''>'']" using append_butlast_last_id [of rest] by simp
  ultimately show thesis using that by simp
qed

lemma message_id_provenance: "parse_message_id_header body = Some v \<Longrightarrow> em_message_id m = Some v \<Longrightarrow> identity_provenance m = Prov_RfcMessageId"
  by (erule message_id_delimited) (simp add: identity_provenance_def trim_delimited)

lemma fingerprint_provenance: "header_fingerprint sha256 body = Some v \<Longrightarrow> em_message_id m = Some v \<Longrightarrow> identity_provenance m = Prov_SyntheticHeaderFingerprint"
  by (auto simp: header_fingerprint_def Let_def identity_provenance_def split: if_splits)

lemma message_id_not_empty: "parse_message_id_header body = Some v \<Longrightarrow> v \<noteq> []"
  by (erule message_id_delimited) simp

lemma identity_cases:
  assumes "header_literal r = Some header"
  shows "message_identity sha256 r =
    (case parse_message_id_header (from_utf8_lossy header) of None \<Rightarrow> header_fingerprint sha256 (from_utf8_lossy header) | Some v \<Rightarrow> Some v)"
  using assms message_id_not_empty by (auto simp: message_identity_def Let_def first_some_def split: option.splits)

section \<open>Properties\<close>

text \<open>
  C21: the provenance of a fetched message is true to the headers the server sent: an identity counts as a Message-ID
  exactly when it was parsed from a single well-formed Message-ID field of the header literal, as a synthetic
  fingerprint exactly when there is no such field but some other selected header, and as missing otherwise. Neither the
  server nor the sender of a message can make one look like the other.
\<close>

theorem provenance_is_not_forged:
  "case header_literal r of
     None \<Rightarrow> identity_provenance (fetched_message sha256 r) = Prov_Missing
   | Some header \<Rightarrow>
       (case parse_message_id_header (from_utf8_lossy header) of
          Some v \<Rightarrow> em_message_id (fetched_message sha256 r) = Some v \<and> identity_provenance (fetched_message sha256 r) = Prov_RfcMessageId
        | None \<Rightarrow>
            (case header_fingerprint sha256 (from_utf8_lossy header) of
               Some f \<Rightarrow> em_message_id (fetched_message sha256 r) = Some f \<and>
                 identity_provenance (fetched_message sha256 r) = Prov_SyntheticHeaderFingerprint
             | None \<Rightarrow> identity_provenance (fetched_message sha256 r) = Prov_Missing))"
proof -
  let ?m = "fetched_message sha256 r"
  have i: "em_message_id ?m = message_identity sha256 r" by (simp add: fetched_message_def)
  have n: "identity_provenance ?m = Prov_Missing" if "message_identity sha256 r = None"
    using that i by (simp add: identity_provenance_def)
  show ?thesis
  proof (cases "header_literal r")
    case None
    then show ?thesis using n by (simp add: message_identity_def)
  next
    case (Some header)
    note c = identity_cases [OF Some, of sha256]
    show ?thesis
    proof (cases "parse_message_id_header (from_utf8_lossy header)")
      case p: None
      show ?thesis
      proof (cases "header_fingerprint sha256 (from_utf8_lossy header)")
        case None
        then show ?thesis using n Some p c by simp
      next
        case (Some f)
        then show ?thesis using \<open>header_literal r = Some header\<close> p c i fingerprint_provenance [OF Some, of ?m] by simp
      qed
    next
      case (Some v)
      then show ?thesis using \<open>header_literal r = Some header\<close> c i message_id_provenance [OF Some, of ?m] by simp
    qed
  qed
qed

end
