(* ===== verification/Message_Stage.thy ===== *)
theory Message_Stage
  imports Imap_Fetch
begin

text \<open>
  The verification stage: the tables and operations of \<^verbatim>\<open>core/message_staging.rs\<close> that a scan uses, and the sink
  \<^verbatim>\<open>StageMessageSink\<close> of \<^verbatim>\<open>imap_probe.rs\<close> on top of them. A table with a primary key is an association list with
  distinct keys; a stage operation is a transaction, which an error leaves without effect. Whether the file system
  has free space and the current time are arguments.
\<close>

section \<open>Tables\<close>

datatype staged_side = Source_Side | Destination_Side

record folder_snapshot =
  sn_uidvalidity :: nat
  sn_uidnext :: nat
  sn_exists :: nat
  sn_highest_modseq :: "nat option"

record folder_cursor =
  cu_snapshot :: folder_snapshot
  cu_last_uid :: nat
  cu_completed :: bool
  cu_scan_started_at :: "str option"
  cu_scan_completed_at :: "str option"
  cu_source_revalidated_at :: "str option"
  cu_destination_revalidated_at :: "str option"

type_synonym staged_key = "staged_side \<times> message_key"
type_synonym folder_key = "staged_side \<times> str"

record stage =
  stg_durable :: bool
  stg_messages :: "(staged_key \<times> extracted_message) list"
  stg_fingerprints :: "(staged_key \<times> str) list"
  stg_cursors :: "(folder_key \<times> folder_cursor) list"
  stg_permanent_flags :: "(folder_key \<times> str option) list"

definition empty_stage :: "bool \<Rightarrow> stage" where
  "empty_stage durable =
     \<lparr>stg_durable = durable, stg_messages = [], stg_fingerprints = [], stg_cursors = [], stg_permanent_flags = []\<rparr>"

datatype stage_error =
    Value_Out_Of_Range
  | No_Free_Space
  | Fingerprint_Without_Message
  | Cursor_Not_Current
  | Rows_Differ nat nat
  | Revalidation_Incomplete
  | Revalidation_Unknown str

definition snapshot_fits :: "folder_snapshot \<Rightarrow> bool" where
  "snapshot_fits s \<longleftrightarrow>
     sqlite_fits (sn_uidvalidity s) \<and> sqlite_fits (sn_uidnext s) \<and> sqlite_fits (sn_exists s) \<and>
     sqlite_optional_fits (sn_highest_modseq s)"

definition key_folder :: "staged_key \<Rightarrow> folder_key" where
  "key_folder k = (fst k, mk_mailbox (snd k))"

definition insert_or_replace :: "'k \<Rightarrow> 'v \<Rightarrow> ('k \<times> 'v) list \<Rightarrow> ('k \<times> 'v) list" where
  "insert_or_replace k v t = filter (\<lambda>e. fst e \<noteq> k) t @ [(k, v)]"

section \<open>Operations of the stage\<close>

definition drop_folders :: "(folder_key \<Rightarrow> bool) \<Rightarrow> stage \<Rightarrow> stage" where
  "drop_folders gone st =
     st\<lparr>stg_messages := filter (\<lambda>e. \<not> gone (key_folder (fst e))) (stg_messages st),
        stg_fingerprints := filter (\<lambda>e. \<not> gone (key_folder (fst e))) (stg_fingerprints st),
        stg_cursors := filter (\<lambda>e. \<not> gone (fst e)) (stg_cursors st),
        stg_permanent_flags := filter (\<lambda>e. \<not> gone (fst e)) (stg_permanent_flags st)\<rparr>"

definition delete_mailbox :: "staged_side \<Rightarrow> str \<Rightarrow> stage \<Rightarrow> stage" where
  "delete_mailbox side mailbox = drop_folders (\<lambda>f. f = (side, mailbox))"

definition retain_mailboxes :: "staged_side \<Rightarrow> str set \<Rightarrow> stage \<Rightarrow> stage" where
  "retain_mailboxes side current = drop_folders (\<lambda>f. fst f = side \<and> snd f \<notin> current)"

definition begin_mailbox_scan :: "str \<Rightarrow> staged_side \<Rightarrow> str \<Rightarrow> folder_snapshot \<Rightarrow> stage \<Rightarrow> stage_error + stage" where
  "begin_mailbox_scan now side mailbox s st =
     (if \<not> snapshot_fits s \<or> sn_highest_modseq s = Some 0 then Inl Value_Out_Of_Range
      else let st1 = delete_mailbox side mailbox st in
           Inr (st1\<lparr>stg_cursors := stg_cursors st1 @
             [((side, mailbox),
               \<lparr>cu_snapshot = s, cu_last_uid = 0, cu_completed = False, cu_scan_started_at = Some now,
                cu_scan_completed_at = None, cu_source_revalidated_at = None, cu_destination_revalidated_at = None\<rparr>)]\<rparr>))"

definition update_cursor ::
  "staged_side \<Rightarrow> str \<Rightarrow> folder_snapshot \<Rightarrow> (folder_cursor \<Rightarrow> folder_cursor) \<Rightarrow> stage \<Rightarrow> stage_error + stage" where
  "update_cursor side mailbox s f st =
     (case map_of (stg_cursors st) (side, mailbox) of
        None \<Rightarrow> Inl Cursor_Not_Current
      | Some c \<Rightarrow>
          if cu_snapshot c \<noteq> s then Inl Cursor_Not_Current
          else Inr (st\<lparr>stg_cursors := map (\<lambda>(k, c). (k, if k = (side, mailbox) then f c else c)) (stg_cursors st)\<rparr>))"

definition key_fits :: "message_key \<Rightarrow> bool" where
  "key_fits k \<longleftrightarrow> sqlite_optional_fits (mk_uidvalidity k)"

definition insert_page_with_fingerprints ::
  "bool \<Rightarrow> staged_side \<Rightarrow> messages \<Rightarrow> (message_key \<times> str) list \<Rightarrow> (str \<times> folder_snapshot \<times> nat) option \<Rightarrow> stage \<Rightarrow> stage_error + stage" where
  "insert_page_with_fingerprints free side M F checkpoint st =
     (if stg_durable st \<and> \<not> free then Inl No_Free_Space
      else if list_ex (\<lambda>(k, _). map_of M k = None) F then Inl Fingerprint_Without_Message
      else if \<not> list_all (\<lambda>(k, m). key_fits k \<and> sqlite_optional_fits (em_size m)) M \<or> \<not> list_all (\<lambda>(k, _). key_fits k) F
      then Inl Value_Out_Of_Range
      else let st1 = st\<lparr>stg_messages := fold (\<lambda>(k, m). insert_or_replace (side, k) m) (sort_key fst M) (stg_messages st),
                        stg_fingerprints := fold (\<lambda>(k, f). insert_or_replace (side, k) f) F (stg_fingerprints st)\<rparr> in
           case checkpoint of
             None \<Rightarrow> Inr st1
           | Some (mailbox, s, last_uid) \<Rightarrow>
               if \<not> snapshot_fits s \<or> \<not> sqlite_fits last_uid then Inl Value_Out_Of_Range
               else update_cursor side mailbox s (\<lambda>c. c\<lparr>cu_last_uid := last_uid, cu_completed := False\<rparr>) st1)"

definition folder_rows :: "staged_side \<Rightarrow> str \<Rightarrow> stage \<Rightarrow> message_key list" where
  "folder_rows side mailbox st = map (snd \<circ> fst) (filter (\<lambda>e. key_folder (fst e) = (side, mailbox)) (stg_messages st))"

definition snapshot_rows :: "staged_side \<Rightarrow> str \<Rightarrow> nat \<Rightarrow> stage \<Rightarrow> message_key list" where
  "snapshot_rows side mailbox v st = filter (\<lambda>k. mk_uidvalidity k = Some v) (folder_rows side mailbox st)"

definition count_mailbox :: "staged_side \<Rightarrow> str \<Rightarrow> nat \<Rightarrow> stage \<Rightarrow> stage_error + nat" where
  "count_mailbox side mailbox v st =
     (if \<not> sqlite_fits v then Inl Value_Out_Of_Range else Inr (length (snapshot_rows side mailbox v st)))"

definition fingerprint_rows :: "staged_side \<Rightarrow> str \<Rightarrow> stage \<Rightarrow> nat" where
  "fingerprint_rows side mailbox st = length (filter (\<lambda>e. key_folder (fst e) = (side, mailbox)) (stg_fingerprints st))"

definition reusable_completed_mailbox :: "staged_side \<Rightarrow> str \<Rightarrow> folder_snapshot \<Rightarrow> stage \<Rightarrow> stage_error + nat option" where
  "reusable_completed_mailbox side mailbox s st =
     (if \<not> stg_durable st \<or> sn_highest_modseq s = None then Inr None
      else if \<not> snapshot_fits s then Inl Value_Out_Of_Range
      else case map_of (stg_cursors st) (side, mailbox) of
             None \<Rightarrow> Inr None
           | Some c \<Rightarrow>
               if cu_snapshot c = s \<and> cu_completed c \<and> cu_scan_completed_at c \<noteq> None \<and>
                  length (folder_rows side mailbox st) = sn_exists s \<and>
                  length (snapshot_rows side mailbox (sn_uidvalidity s) st) = sn_exists s \<and> fingerprint_rows side mailbox st = 0
               then Inr (Some (sn_exists s)) else Inr None)"

text \<open>\<^verbatim>\<open>MAX(CAST(uid AS INTEGER))\<close> over decimal texts, the form in which the parser stages every UID.\<close>

definition cast_integer :: "str \<Rightarrow> nat" where
  "cast_integer uid = (case parse_digits 0 (takeWhile is_ascii_digit uid) of Some n \<Rightarrow> n | None \<Rightarrow> 0)"

definition max_uid :: "message_key list \<Rightarrow> nat option" where
  "max_uid ks = (if ks = [] then None else Some (Max (set (map (cast_integer \<circ> mk_uid) ks))))"

definition resumable_mailbox_prefix :: "staged_side \<Rightarrow> str \<Rightarrow> folder_snapshot \<Rightarrow> stage \<Rightarrow> stage_error + (nat \<times> nat) option" where
  "resumable_mailbox_prefix side mailbox s st =
     (if \<not> stg_durable st \<or> sn_highest_modseq s = None then Inr None
      else if \<not> snapshot_fits s then Inl Value_Out_Of_Range
      else case map_of (stg_cursors st) (side, mailbox) of
             None \<Rightarrow> Inr None
           | Some c \<Rightarrow>
               let total = folder_rows side mailbox st; rows = snapshot_rows side mailbox (sn_uidvalidity s) st in
               if cu_snapshot c = s \<and> \<not> cu_completed c \<and> cu_scan_started_at c \<noteq> None \<and> cu_scan_completed_at c = None \<and>
                  length total = length rows \<and> length rows > 0 \<and> length rows \<le> sn_exists s \<and>
                  cu_last_uid c > 0 \<and> cu_last_uid c \<le> u32_max \<and> cu_last_uid c < sn_uidnext s \<and>
                  max_uid total = Some (cu_last_uid c) \<and> fingerprint_rows side mailbox st = 0
               then Inr (Some (length rows, cu_last_uid c)) else Inr None)"

definition advance_cursor :: "str \<Rightarrow> staged_side \<Rightarrow> str \<Rightarrow> folder_snapshot \<Rightarrow> nat \<Rightarrow> bool \<Rightarrow> stage \<Rightarrow> stage_error + stage" where
  "advance_cursor now side mailbox s last_uid completed st =
     (if \<not> snapshot_fits s \<or> \<not> sqlite_fits last_uid then Inl Value_Out_Of_Range
      else update_cursor side mailbox s
             (\<lambda>c. c\<lparr>cu_last_uid := last_uid, cu_completed := completed,
                    cu_scan_completed_at := (if completed then Some now else cu_scan_completed_at c)\<rparr>) st)"

definition complete_mailbox :: "str \<Rightarrow> staged_side \<Rightarrow> str \<Rightarrow> folder_snapshot \<Rightarrow> nat \<Rightarrow> stage \<Rightarrow> stage_error + stage" where
  "complete_mailbox now side mailbox s last_uid st =
     (case count_mailbox side mailbox (sn_uidvalidity s) st of
        Inl e \<Rightarrow> Inl e
      | Inr staged \<Rightarrow>
          if staged \<noteq> sn_exists s then Inl (Rows_Differ staged (sn_exists s))
          else advance_cursor now side mailbox s last_uid True st)"

definition record_permanent_flags :: "staged_side \<Rightarrow> str \<Rightarrow> str option \<Rightarrow> stage \<Rightarrow> stage" where
  "record_permanent_flags side mailbox flags st =
     st\<lparr>stg_permanent_flags := insert_or_replace (side, mailbox) flags (stg_permanent_flags st)\<rparr>"

definition begin_verification_attempt :: "stage \<Rightarrow> stage" where
  "begin_verification_attempt st =
     st\<lparr>stg_fingerprints := [],
        stg_cursors := map (\<lambda>(k, c). (k, c\<lparr>cu_source_revalidated_at := None, cu_destination_revalidated_at := None\<rparr>)) (stg_cursors st)\<rparr>"

definition set_revalidated :: "staged_side \<Rightarrow> str \<Rightarrow> folder_cursor \<Rightarrow> folder_cursor" where
  "set_revalidated side timestamp c =
     (case side of
        Source_Side \<Rightarrow> c\<lparr>cu_source_revalidated_at := Some timestamp\<rparr>
      | Destination_Side \<Rightarrow> c\<lparr>cu_destination_revalidated_at := Some timestamp\<rparr>)"

fun revalidate_all :: "staged_side \<Rightarrow> (str \<times> str) list \<Rightarrow> stage \<Rightarrow> stage_error + stage" where
  "revalidate_all side [] st = Inr st"
| "revalidate_all side ((mailbox, timestamp) # obs) st =
     (case map_of (stg_cursors st) (side, mailbox) of
        None \<Rightarrow> Inl (Revalidation_Unknown mailbox)
      | Some c \<Rightarrow>
          if \<not> cu_completed c then Inl (Revalidation_Unknown mailbox)
          else revalidate_all side obs
                 (st\<lparr>stg_cursors := map (\<lambda>(k, c). (k, if k = (side, mailbox) then set_revalidated side timestamp c else c)) (stg_cursors st)\<rparr>))"

definition record_revalidation :: "bool \<Rightarrow> staged_side \<Rightarrow> (str \<times> str) list \<Rightarrow> stage \<Rightarrow> stage_error + stage" where
  "record_revalidation free side obs st =
     (if stg_durable st \<and> \<not> free then Inl No_Free_Space
      else let expected = length (filter (\<lambda>(k, c). fst k = side \<and> cu_completed c) (stg_cursors st)) in
           if expected = 0 \<or> expected \<noteq> length obs then Inl Revalidation_Incomplete
           else revalidate_all side obs st)"

definition all_messages :: "staged_side \<Rightarrow> stage \<Rightarrow> messages" where
  "all_messages side st =
     map (\<lambda>(k, m). (snd k, m\<lparr>em_uid := Some (mk_uid (snd k))\<rparr>)) (filter (\<lambda>e. fst (fst e) = side) (stg_messages st))"

definition try_content_fingerprints :: "staged_side \<Rightarrow> stage \<Rightarrow> (message_key \<times> str) list" where
  "try_content_fingerprints side st = map (\<lambda>(k, f). (snd k, f)) (filter (\<lambda>e. fst (fst e) = side) (stg_fingerprints st))"

section \<open>The sink of a scan\<close>

definition MAX_MESSAGE_FETCH_RECORDS :: nat where
  "MAX_MESSAGE_FETCH_RECORDS = 1000000"

definition MAX_DURABLE_MESSAGE_FETCH_RECORDS :: nat where
  "MAX_DURABLE_MESSAGE_FETCH_RECORDS = 3000000"

definition message_fetch_limit_exceeded :: "nat \<Rightarrow> nat \<Rightarrow> nat \<Rightarrow> bool" where
  "message_fetch_limit_exceeded existing incoming limit \<longleftrightarrow> existing + incoming > u64_max \<or> existing + incoming > limit"

definition message_fetch_limit :: "bool \<Rightarrow> nat" where
  "message_fetch_limit durable_stage =
     (if durable_stage then MAX_DURABLE_MESSAGE_FETCH_RECORDS else MAX_MESSAGE_FETCH_RECORDS)"

record sink =
  sk_stage :: stage
  sk_side :: staged_side
  sk_count :: nat
  sk_mailbox_counts :: "str \<rightharpoonup> nat"
  sk_active :: "str option"

definition new_sink :: "stage \<Rightarrow> staged_side \<Rightarrow> sink" where
  "new_sink st side = \<lparr>sk_stage = st, sk_side = side, sk_count = 0, sk_mailbox_counts = Map.empty, sk_active = None\<rparr>"

datatype sink_error =
    Stage_Failed stage_error
  | Page_Before_Scan
  | Message_Count_Overflow
  | Folder_Count_Overflow
  | Reuse_Over_Limit
  | Resume_Over_Limit

text \<open>A sink operation returns its result with the sink, since an operation that fails late leaves its first effects.\<close>

definition add_current_attempt_messages :: "nat \<Rightarrow> sink \<Rightarrow> (sink_error + unit) \<times> sink" where
  "add_current_attempt_messages n k =
     (case sk_active k of
        None \<Rightarrow> (Inl Page_Before_Scan, k)
      | Some mailbox \<Rightarrow>
          let mailbox_count = (case sk_mailbox_counts k mailbox of None \<Rightarrow> 0 | Some c \<Rightarrow> c) in
          if sk_count k + n > u64_max then (Inl Message_Count_Overflow, k)
          else if mailbox_count + n > u64_max then (Inl Folder_Count_Overflow, k)
          else (Inr (), k\<lparr>sk_count := sk_count k + n, sk_mailbox_counts := (sk_mailbox_counts k)(mailbox \<mapsto> mailbox_count + n)\<rparr>))"

definition reset_mailbox_count :: "str \<Rightarrow> sink \<Rightarrow> sink" where
  "reset_mailbox_count mailbox k =
     k\<lparr>sk_count := (case sk_mailbox_counts k mailbox of None \<Rightarrow> sk_count k | Some previous \<Rightarrow> sk_count k - previous),
       sk_mailbox_counts := (sk_mailbox_counts k)(mailbox \<mapsto> 0)\<rparr>"

definition on_stage :: "(stage \<Rightarrow> stage_error + stage) \<Rightarrow> sink \<Rightarrow> (sink_error + unit) \<times> sink" where
  "on_stage f k = (case f (sk_stage k) of Inl e \<Rightarrow> (Inl (Stage_Failed e), k) | Inr st \<Rightarrow> (Inr (), k\<lparr>sk_stage := st\<rparr>))"

definition insert_page_and_checkpoint ::
  "bool \<Rightarrow> str \<Rightarrow> folder_snapshot \<Rightarrow> nat \<Rightarrow> messages \<Rightarrow> (message_key \<times> str) list \<Rightarrow> sink \<Rightarrow> (sink_error + unit) \<times> sink" where
  "insert_page_and_checkpoint free mailbox s last_uid M F k =
     (case on_stage (insert_page_with_fingerprints free (sk_side k) M F (Some (mailbox, s, last_uid))) k of
        (Inl e, k') \<Rightarrow> (Inl e, k')
      | (Inr _, k') \<Rightarrow> add_current_attempt_messages (length M) k')"

definition insert_batch_with_fingerprints ::
  "bool \<Rightarrow> messages \<Rightarrow> (message_key \<times> str) list \<Rightarrow> sink \<Rightarrow> (sink_error + unit) \<times> sink" where
  "insert_batch_with_fingerprints free M F k =
     (case on_stage (insert_page_with_fingerprints free (sk_side k) M F None) k of
        (Inl e, k') \<Rightarrow> (Inl e, k')
      | (Inr _, k') \<Rightarrow> add_current_attempt_messages (length M) k')"

definition rollback_mailbox :: "str \<Rightarrow> sink \<Rightarrow> sink" where
  "rollback_mailbox mailbox k =
     (let k1 = reset_mailbox_count mailbox (k\<lparr>sk_stage := delete_mailbox (sk_side k) mailbox (sk_stage k)\<rparr>) in
      k1\<lparr>sk_active := (if sk_active k1 = Some mailbox then None else sk_active k1)\<rparr>)"

definition sink_retain_mailboxes :: "str set \<Rightarrow> sink \<Rightarrow> sink" where
  "sink_retain_mailboxes mailboxes k =
     k\<lparr>sk_stage := retain_mailboxes (sk_side k) mailboxes (sk_stage k), sk_count := 0, sk_mailbox_counts := Map.empty, sk_active := None\<rparr>"

definition sink_begin_mailbox_scan :: "str \<Rightarrow> str \<Rightarrow> folder_snapshot \<Rightarrow> sink \<Rightarrow> (sink_error + unit) \<times> sink" where
  "sink_begin_mailbox_scan now mailbox s k =
     (case on_stage (begin_mailbox_scan now (sk_side k) mailbox s) k of
        (Inl e, k') \<Rightarrow> (Inl e, k')
      | (Inr _, k') \<Rightarrow> (Inr (), (reset_mailbox_count mailbox k')\<lparr>sk_active := Some mailbox\<rparr>))"

text \<open>Both ways to take over staged rows admit their number as if the rows had just been fetched.\<close>

definition admit_staged :: "sink_error \<Rightarrow> str \<Rightarrow> nat \<Rightarrow> sink \<Rightarrow> (sink_error + unit) \<times> sink" where
  "admit_staged over mailbox n k =
     (if message_fetch_limit_exceeded (sk_count k) n (message_fetch_limit (stg_durable (sk_stage k))) then (Inl over, k)
      else add_current_attempt_messages n ((reset_mailbox_count mailbox k)\<lparr>sk_active := Some mailbox\<rparr>))"

definition reuse_completed_mailbox :: "str \<Rightarrow> folder_snapshot \<Rightarrow> sink \<Rightarrow> (sink_error + bool) \<times> sink" where
  "reuse_completed_mailbox mailbox s k =
     (case reusable_completed_mailbox (sk_side k) mailbox s (sk_stage k) of
        Inl e \<Rightarrow> (Inl (Stage_Failed e), k)
      | Inr None \<Rightarrow> (Inr False, k)
      | Inr (Some n) \<Rightarrow> map_prod (map_sum id (\<lambda>_. True)) id (admit_staged Reuse_Over_Limit mailbox n k))"

definition resume_mailbox_prefix :: "str \<Rightarrow> folder_snapshot \<Rightarrow> sink \<Rightarrow> (sink_error + (nat \<times> nat) option) \<times> sink" where
  "resume_mailbox_prefix mailbox s k =
     (case resumable_mailbox_prefix (sk_side k) mailbox s (sk_stage k) of
        Inl e \<Rightarrow> (Inl (Stage_Failed e), k)
      | Inr None \<Rightarrow> (Inr None, k)
      | Inr (Some (n, last_uid)) \<Rightarrow>
          map_prod (map_sum id (\<lambda>_. Some (n, last_uid))) id (admit_staged Resume_Over_Limit mailbox n k))"

definition sink_complete_mailbox :: "str \<Rightarrow> str \<Rightarrow> folder_snapshot \<Rightarrow> nat \<Rightarrow> sink \<Rightarrow> (sink_error + unit) \<times> sink" where
  "sink_complete_mailbox now mailbox s last_uid k = on_stage (complete_mailbox now (sk_side k) mailbox s last_uid) k"

definition sink_record_permanent_flags :: "str \<Rightarrow> str option \<Rightarrow> sink \<Rightarrow> sink" where
  "sink_record_permanent_flags mailbox flags k = k\<lparr>sk_stage := record_permanent_flags (sk_side k) mailbox flags (sk_stage k)\<rparr>"

definition mailbox_len :: "str \<Rightarrow> nat \<Rightarrow> sink \<Rightarrow> sink_error + nat" where
  "mailbox_len mailbox v k = map_sum Stage_Failed id (count_mailbox (sk_side k) mailbox v (sk_stage k))"

section \<open>A sound stage\<close>

text \<open>
  The rows of a folder are the messages of its cursor's UIDVALIDITY with distinct valid UIDs, and a completed cursor
  has as many of them as its snapshot counted. A folder without a cursor has no rows.
\<close>

definition folder_population :: "staged_side \<Rightarrow> str \<Rightarrow> nat \<Rightarrow> stage \<Rightarrow> nat list \<Rightarrow> bool" where
  "folder_population side mailbox v st us \<longleftrightarrow>
     set (folder_rows side mailbox st) = page_key mailbox (Some v) ` set us \<and> distinct us \<and> list_all valid_uid us"

definition folder_sound :: "folder_key \<Rightarrow> stage \<Rightarrow> bool" where
  "folder_sound f st \<longleftrightarrow>
     (case map_of (stg_cursors st) f of
        None \<Rightarrow> folder_rows (fst f) (snd f) st = []
      | Some c \<Rightarrow>
          (\<exists>us. folder_population (fst f) (snd f) (sn_uidvalidity (cu_snapshot c)) st us \<and>
                (cu_completed c \<longrightarrow> length us = sn_exists (cu_snapshot c))))"

definition rows_distinct :: "stage \<Rightarrow> bool" where
  "rows_distinct st \<longleftrightarrow> distinct (map fst (stg_messages st)) \<and> distinct (map fst (stg_cursors st))"

definition stage_sound :: "stage \<Rightarrow> bool" where
  "stage_sound st \<longleftrightarrow> rows_distinct st \<and> (\<forall>f. folder_sound f st)"

lemma folder_rows_drop: "folder_rows side mailbox (drop_folders gone st) = (if gone (side, mailbox) then [] else folder_rows side mailbox st)"
proof -
  have "filter (\<lambda>e. key_folder (fst e) = (side, mailbox)) (filter (\<lambda>e. \<not> gone (key_folder (fst e))) (stg_messages st)) =
      (if gone (side, mailbox) then [] else filter (\<lambda>e. key_folder (fst e) = (side, mailbox)) (stg_messages st))"
    unfolding filter_filter by (auto simp: filter_empty_conv intro!: filter_cong)
  then show ?thesis by (simp add: folder_rows_def drop_folders_def)
qed

lemma map_of_filter_key: "map_of (filter (\<lambda>e. P (fst e)) t) k = (if P k then map_of t k else None)"
  by (induction t) auto

lemma cursor_drop: "map_of (stg_cursors (drop_folders gone st)) f = (if gone f then None else map_of (stg_cursors st) f)"
  using map_of_filter_key [of "\<lambda>f. \<not> gone f" "stg_cursors st" f] by (simp add: drop_folders_def)

lemma rows_distinct_drop: "rows_distinct st \<Longrightarrow> rows_distinct (drop_folders gone st)"
  by (simp add: rows_distinct_def drop_folders_def distinct_map_filter)

lemma folder_sound_drop: "folder_sound f (drop_folders gone st) \<longleftrightarrow> gone f \<or> folder_sound f st"
  by (cases "gone f") (simp_all add: folder_sound_def cursor_drop folder_population_def folder_rows_drop split: option.splits)

lemma stage_sound_drop: "stage_sound st \<Longrightarrow> stage_sound (drop_folders gone st)"
  by (simp add: stage_sound_def rows_distinct_drop folder_sound_drop)

lemma folder_sound_elsewhere:
  "f \<noteq> (side, mailbox) \<Longrightarrow> folder_sound f (delete_mailbox side mailbox st) \<longleftrightarrow> folder_sound f st"
  by (simp add: delete_mailbox_def folder_sound_drop)

text \<open>A change inside one folder leaves the stage without that folder as it was.\<close>

lemma sound_by_frame:
  assumes "stage_sound st" "delete_mailbox side mailbox st' = delete_mailbox side mailbox st"
    and "rows_distinct st'" "folder_sound (side, mailbox) st'"
  shows "stage_sound st'"
proof -
  have "folder_sound f st'" for f
    using assms folder_sound_elsewhere [of f side mailbox st] folder_sound_elsewhere [of f side mailbox st']
    unfolding stage_sound_def by metis
  then show ?thesis using assms(3) by (simp add: stage_sound_def)
qed

lemma stage_sound_empty: "stage_sound (empty_stage durable)"
  by (simp add: stage_sound_def rows_distinct_def folder_sound_def empty_stage_def folder_rows_def)

lemma rows_length:
  assumes "rows_distinct st" "folder_population side mailbox v st us"
  shows "length (folder_rows side mailbox st) = length us" "snapshot_rows side mailbox v st = folder_rows side mailbox st"
proof -
  let ?t = "filter (\<lambda>e. key_folder (fst e) = (side, mailbox)) (stg_messages st)"
  have d: "distinct (map fst ?t)" using assms(1) by (simp add: rows_distinct_def distinct_map_filter)
  have "inj_on snd (set (map fst ?t))" by (auto simp: inj_on_def key_folder_def)
  then have "distinct (map snd (map fst ?t))" using d by (simp only: distinct_map)
  then have "distinct (folder_rows side mailbox st)" by (simp add: folder_rows_def comp_def)
  then have "length (folder_rows side mailbox st) = card (page_key mailbox (Some v) ` set us)"
    using assms(2) distinct_card by (fastforce simp: folder_population_def)
  also have "\<dots> = length us"
    using assms(2) by (simp add: folder_population_def card_image inj_on_def page_key_inject distinct_card)
  finally show "length (folder_rows side mailbox st) = length us" .
  have "mk_uidvalidity k = Some v" if "k \<in> set (folder_rows side mailbox st)" for k
    using that assms(2) by (auto simp: folder_population_def page_key_def)
  then show "snapshot_rows side mailbox v st = folder_rows side mailbox st" by (simp add: snapshot_rows_def filter_id_conv)
qed

section \<open>What the operations do to a folder\<close>

lemma set_folder_rows: "set (folder_rows side mailbox st) = {k. (side, k) \<in> set (map fst (stg_messages st)) \<and> mk_mailbox k = mailbox}"
  by (force simp: folder_rows_def key_folder_def)

lemma insert_or_replace_keys: "set (map fst (insert_or_replace k v t)) = insert k (set (map fst t))"
  by (auto simp: insert_or_replace_def)

lemma insert_or_replace_distinct: "distinct (map fst t) \<Longrightarrow> distinct (map fst (insert_or_replace k v t))"
  by (auto simp: insert_or_replace_def distinct_map_filter)

lemma insert_or_replace_frame: "\<not> P k \<Longrightarrow> filter (\<lambda>e. P (fst e)) (insert_or_replace k v t) = filter (\<lambda>e. P (fst e)) t"
  by (auto simp: insert_or_replace_def intro!: filter_cong)

lemma insert_all_keys:
  "set (map fst (fold (\<lambda>(k, m). insert_or_replace (side, k) m) M t)) = Pair side ` set (map fst M) \<union> set (map fst t)"
  by (induction M arbitrary: t) (auto simp: insert_or_replace_keys simp del: set_map)

lemma insert_all_distinct: "distinct (map fst t) \<Longrightarrow> distinct (map fst (fold (\<lambda>(k, m). insert_or_replace (side, k) m) M t))"
  by (induction M arbitrary: t) (auto simp: insert_or_replace_distinct)

lemma insert_all_frame:
  "list_all (\<lambda>(k, _). \<not> P (side, k)) M \<Longrightarrow>
     filter (\<lambda>e. P (fst e)) (fold (\<lambda>(k, m). insert_or_replace (side, k) m) M t) = filter (\<lambda>e. P (fst e)) t"
  by (induction M arbitrary: t) (auto simp: insert_or_replace_frame)

lemma map_cursor_frame:
  "\<not> P f \<Longrightarrow> filter (\<lambda>e. P (fst e)) (map (\<lambda>(k, c). (k, if k = f then g c else c)) t) = filter (\<lambda>e. P (fst e)) t"
  by (induction t) auto

lemma map_cursor_at: "map_of (map (\<lambda>(k, c). (k, if k = f then g c else c)) t) f = map_option g (map_of t f)"
  by (induction t) auto

lemma map_cursor_keys: "map fst (map (\<lambda>(k, c). (k, if k = f then g c else c)) t) = map fst t"
  by (induction t) auto

lemma update_cursor_effect:
  assumes "update_cursor side mailbox s g st = Inr st'"
  obtains c where "map_of (stg_cursors st) (side, mailbox) = Some c" "cu_snapshot c = s"
    "map_of (stg_cursors st') (side, mailbox) = Some (g c)" "delete_mailbox side mailbox st' = delete_mailbox side mailbox st"
    "stg_messages st' = stg_messages st" "map fst (stg_cursors st') = map fst (stg_cursors st)" "stg_durable st' = stg_durable st"
proof -
  obtain c where c: "map_of (stg_cursors st) (side, mailbox) = Some c" "cu_snapshot c = s"
    and st': "st' = st\<lparr>stg_cursors := map (\<lambda>(k, c). (k, if k = (side, mailbox) then g c else c)) (stg_cursors st)\<rparr>"
    using assms by (auto simp: update_cursor_def split: option.splits if_splits)
  show thesis
  proof (rule that [OF c])
    show "map_of (stg_cursors st') (side, mailbox) = Some (g c)" using c(1) by (simp add: st' map_cursor_at)
    show "delete_mailbox side mailbox st' = delete_mailbox side mailbox st"
      using map_cursor_frame [of "\<lambda>f. f \<noteq> (side, mailbox)" "(side, mailbox)" g "stg_cursors st"]
      by (simp add: st' delete_mailbox_def drop_folders_def)
    show "map fst (stg_cursors st') = map fst (stg_cursors st)" 
      using map_cursor_keys [of "(side, mailbox)" g "stg_cursors st"] by (simp add: st')
  qed (simp_all add: st')
qed

lemma insert_page_effect:
  assumes "insert_page_with_fingerprints free side M F (Some (mailbox, s, last_uid)) st = Inr st'"
    and m: "list_all (\<lambda>(k, _). mk_mailbox k = mailbox) M" and d: "rows_distinct st"
  obtains c where "map_of (stg_cursors st) (side, mailbox) = Some c" "cu_snapshot c = s"
    "map_of (stg_cursors st') (side, mailbox) = Some (c\<lparr>cu_last_uid := last_uid, cu_completed := False\<rparr>)"
    "delete_mailbox side mailbox st' = delete_mailbox side mailbox st" "rows_distinct st'" "stg_durable st' = stg_durable st"
    "set (folder_rows side mailbox st') = set (folder_rows side mailbox st) \<union> set (map fst M)"
proof -
  define st1 where "st1 = st\<lparr>stg_messages := fold (\<lambda>(k, m). insert_or_replace (side, k) m) (sort_key fst M) (stg_messages st),
    stg_fingerprints := fold (\<lambda>(k, f). insert_or_replace (side, k) f) F (stg_fingerprints st)\<rparr>"
  have u: "update_cursor side mailbox s (\<lambda>c. c\<lparr>cu_last_uid := last_uid, cu_completed := False\<rparr>) st1 = Inr st'"
    and f: "\<not> list_ex (\<lambda>(k, _). map_of M k = None) F"
    using assms(1) by (simp_all add: insert_page_with_fingerprints_def st1_def Let_def split: if_splits)
  have mF: "list_all (\<lambda>(k, _). mk_mailbox k = mailbox) F"
    using f m by (fastforce simp: list_all_iff list_ex_iff dest: map_of_SomeD)
  have "delete_mailbox side mailbox st1 = delete_mailbox side mailbox st"
  proof -
    let ?P = "\<lambda>k. key_folder k \<noteq> (side, mailbox)"
    have "list_all (\<lambda>(k, _). \<not> ?P (side, k)) (sort_key fst M)" and "list_all (\<lambda>(k, _). \<not> ?P (side, k)) F"
      using m mF by (simp_all add: key_folder_def list_all_iff)
    note i = insert_all_frame [OF this(1), of "stg_messages st"] insert_all_frame [OF this(2), of "stg_fingerprints st"]
    show ?thesis unfolding st1_def delete_mailbox_def drop_folders_def using i by simp
  qed
  moreover have "rows_distinct st1" using d by (simp add: st1_def rows_distinct_def insert_all_distinct)
  moreover have "set (folder_rows side mailbox st1) = set (folder_rows side mailbox st) \<union> set (map fst M)"
    unfolding set_folder_rows st1_def using m by (auto simp: insert_all_keys list_all_iff simp del: set_map) (auto)
  moreover have "stg_cursors st1 = stg_cursors st" "stg_durable st1 = stg_durable st" by (simp_all add: st1_def)
  ultimately show thesis using u
    by (elim update_cursor_effect) (rule that, simp_all add: rows_distinct_def set_folder_rows)
qed

lemma begin_mailbox_scan_effect:
  assumes "begin_mailbox_scan now side mailbox s st = Inr st'"
  obtains c where "map_of (stg_cursors st') (side, mailbox) = Some c" "cu_snapshot c = s" "\<not> cu_completed c"
    "delete_mailbox side mailbox st' = delete_mailbox side mailbox st" "rows_distinct st \<Longrightarrow> rows_distinct st'" "stg_durable st' = stg_durable st"
    "folder_rows side mailbox st' = []"
proof -
  let ?d = "delete_mailbox side mailbox st"
  obtain c where st': "st' = ?d\<lparr>stg_cursors := stg_cursors ?d @ [((side, mailbox), c)]\<rparr>" and c: "cu_snapshot c = s" "\<not> cu_completed c"
    using assms by (auto simp: begin_mailbox_scan_def Let_def split: if_splits)
  have n: "map_of (stg_cursors ?d) (side, mailbox) = None" by (simp add: delete_mailbox_def cursor_drop)
  show thesis
  proof (rule that [of c])
    show "map_of (stg_cursors st') (side, mailbox) = Some c" using n by (simp add: st' map_add_def)
    show "delete_mailbox side mailbox st' = delete_mailbox side mailbox st" by (simp add: st' delete_mailbox_def drop_folders_def)
    have "(side, mailbox) \<notin> set (map fst (stg_cursors ?d))" using n by (simp add: map_of_eq_None_iff)
    then show "rows_distinct st \<Longrightarrow> rows_distinct st'"
      using rows_distinct_drop [of st] by (simp add: st' rows_distinct_def delete_mailbox_def)
    have "folder_rows side mailbox st' = folder_rows side mailbox ?d" by (simp add: folder_rows_def st')
    then show "folder_rows side mailbox st' = []" by (simp add: delete_mailbox_def folder_rows_drop)
    show "stg_durable st' = stg_durable st" by (simp add: st' delete_mailbox_def drop_folders_def)
  qed (use c in simp_all)
qed

lemma record_permanent_flags_effect:
  "delete_mailbox side mailbox (record_permanent_flags side mailbox flags st) = delete_mailbox side mailbox st"
  using insert_or_replace_frame [of "\<lambda>f. f \<noteq> (side, mailbox)" "(side, mailbox)" flags "stg_permanent_flags st"]
  by (simp add: record_permanent_flags_def delete_mailbox_def drop_folders_def)

end
