(* ===== verification/Imap_Select.thy ===== *)
theory Imap_Select
  imports Message_Stage Verification_Limit
begin

text \<open>
  The commands of a folder scan and what is read from their responses: the parsers of SELECT responses, quoting and
  completion checks of \<^verbatim>\<open>imap_probe.rs\<close>, and the exchange of one command over the transport. The transport is a
  parameter: the chunks that it delivers after a command, and how it ends when it ends early.
\<close>

section \<open>Quoting, tags and completions\<close>

definition imap_quote :: "str \<Rightarrow> str option" where
  "imap_quote v =
     (if has_control v then None
      else Some ([CHR 0x22] @
        concat (map (\<lambda>c. if c = CHR 0x5C then [CHR 0x5C, CHR 0x5C] else if c = CHR 0x22 then [CHR 0x5C, CHR 0x22] else [c]) v) @
        [CHR 0x22]))"

definition command_tag :: "str \<Rightarrow> nat \<Rightarrow> str" where
  "command_tag prefix n = prefix @ replicate (3 - length (nat_to_string n)) (CHR ''0'') @ nat_to_string n"

definition imap_command_succeeded :: "str \<Rightarrow> str \<Rightarrow> bool" where
  "imap_command_succeeded response tag \<longleftrightarrow>
     (case tagged_completion response tag of
        None \<Rightarrow> False
      | Some line \<Rightarrow> (case split_whitespace (from_utf8_lossy line) of _ # status # _ \<Rightarrow> atom_eq status ''OK'' | _ \<Rightarrow> False))"

section \<open>SELECT responses\<close>

definition trim_brackets :: "str \<Rightarrow> str" where
  "trim_brackets s =
     (let b = (\<lambda>c. c = CHR ''['' \<or> c = CHR '']'') in rev (dropWhile b (rev (dropWhile b s))))"

text \<open>The word after the first word that is a given response code; brackets around both are ignored.\<close>

fun code_value :: "str \<Rightarrow> str list \<Rightarrow> str option" where
  "code_value code [] = None"
| "code_value code (w # ws) =
     (if eq_ignore_ascii_case (trim_brackets w) code then (case ws of [] \<Rightarrow> None | v # _ \<Rightarrow> Some v) else code_value code ws)"

record selected =
  sel_exists :: "nat option"
  sel_uidvalidity :: "nat option"
  sel_uidnext :: "nat option"

definition select_line :: "str \<Rightarrow> selected \<Rightarrow> selected" where
  "select_line line s =
     (let ws = split_whitespace line;
          s1 = (case ws of
                  star # number # name # _ \<Rightarrow>
                    if star = ''*'' \<and> eq_ignore_ascii_case name ''EXISTS'' then s\<lparr>sel_exists := parse_u64 number\<rparr> else s
                | _ \<Rightarrow> s);
          s2 = (case code_value ''UIDVALIDITY'' ws of None \<Rightarrow> s1 | Some v \<Rightarrow> s1\<lparr>sel_uidvalidity := parse_u64 (trim_brackets v)\<rparr>)
      in case code_value ''UIDNEXT'' ws of None \<Rightarrow> s2 | Some v \<Rightarrow> s2\<lparr>sel_uidnext := parse_u64 (trim_brackets v)\<rparr>)"

datatype select_error =
    Exists_Missing
  | Uidvalidity_Missing
  | Uidnext_Missing
  | Modseq_Malformed
  | Data_After_Code
  | Highestmodseq_Invalid
  | Highestmodseq_Malformed
  | Highestmodseq_Duplicate
  | Nomodseq_Malformed
  | Nomodseq_Duplicate
  | Modseq_Not_Unique

definition parse_selected_mailbox :: "str \<Rightarrow> select_error + nat \<times> nat option \<times> nat option" where
  "parse_selected_mailbox response =
     (let s = fold select_line (text_lines response) \<lparr>sel_exists = None, sel_uidvalidity = None, sel_uidnext = None\<rparr> in
      case sel_exists s of None \<Rightarrow> Inl Exists_Missing | Some n \<Rightarrow> Inr (n, sel_uidvalidity s, sel_uidnext s))"

datatype modseq_snapshot = Tracked nat | Unsupported

definition untagged_ok_response_text :: "str \<Rightarrow> str option" where
  "untagged_ok_response_text line =
     (case strip_prefix ''* '' line of
        None \<Rightarrow> None
      | Some response \<Rightarrow>
          (case split_once '' '' response of
             None \<Rightarrow> None
           | Some (status, text) \<Rightarrow> if eq_ignore_ascii_case status ''OK'' then Some text else None))"

text \<open>\<^verbatim>\<open>split_ascii_whitespace().next()\<close>\<close>

definition first_ascii_word :: "str \<Rightarrow> str option" where
  "first_ascii_word s =
     (let r = dropWhile is_ascii_whitespace s in if r = [] then None else Some (takeWhile (\<lambda>c. \<not> is_ascii_whitespace c) r))"

definition modseq_value :: "str list \<Rightarrow> nat option" where
  "modseq_value words =
     (case words of
        [] \<Rightarrow> None
      | v # _ \<Rightarrow>
          if v = [] \<or> \<not> list_all is_ascii_digit v then None
          else (case parse_u64 v of Some n \<Rightarrow> if n > 0 \<and> n \<le> I64_MAX then Some n else None | None \<Rightarrow> None))"

definition modseq_line :: "str \<Rightarrow> nat option \<times> bool \<Rightarrow> select_error + nat option \<times> bool" where
  "modseq_line line acc =
     (case Option.bind (untagged_ok_response_text line) (strip_prefix ''['') of
        None \<Rightarrow> Inr acc
      | Some code_text \<Rightarrow>
          (case split_once '']'' code_text of
             None \<Rightarrow>
               (case first_ascii_word code_text of
                  Some code \<Rightarrow>
                    if eq_ignore_ascii_case code ''HIGHESTMODSEQ'' \<or> eq_ignore_ascii_case code ''NOMODSEQ'' then Inl Modseq_Malformed
                    else Inr acc
                | None \<Rightarrow> Inr acc)
           | Some (code_text, trailing) \<Rightarrow>
               if trailing \<noteq> [] \<and> \<not> starts_with '' '' trailing then Inl Data_After_Code
               else (case split_char (CHR '' '') code_text of
                       [] \<Rightarrow> Inr acc
                     | code # words \<Rightarrow>
                         if eq_ignore_ascii_case code ''HIGHESTMODSEQ'' then
                           (case modseq_value words of
                              None \<Rightarrow> Inl Highestmodseq_Invalid
                            | Some n \<Rightarrow>
                                if length words > 1 then Inl Highestmodseq_Malformed
                                else if fst acc \<noteq> None then Inl Highestmodseq_Duplicate
                                else Inr (Some n, snd acc))
                         else if eq_ignore_ascii_case code ''NOMODSEQ'' then
                           (if words \<noteq> [] then Inl Nomodseq_Malformed
                            else if snd acc then Inl Nomodseq_Duplicate
                            else Inr (fst acc, True))
                         else Inr acc)))"

fun modseq_lines :: "str list \<Rightarrow> nat option \<times> bool \<Rightarrow> select_error + nat option \<times> bool" where
  "modseq_lines [] acc = Inr acc"
| "modseq_lines (line # lines) acc = (case modseq_line line acc of Inl e \<Rightarrow> Inl e | Inr acc' \<Rightarrow> modseq_lines lines acc')"

definition parse_select_modseq :: "str \<Rightarrow> select_error + modseq_snapshot" where
  "parse_select_modseq response =
     (case modseq_lines (text_lines response) (None, False) of
        Inl e \<Rightarrow> Inl e
      | Inr (Some n, False) \<Rightarrow> Inr (Tracked n)
      | Inr (None, True) \<Rightarrow> Inr Unsupported
      | Inr _ \<Rightarrow> Inl Modseq_Not_Unique)"

definition to_ascii_uppercase :: "str \<Rightarrow> str" where
  "to_ascii_uppercase = map (\<lambda>c. if 97 \<le> char_code c \<and> char_code c \<le> 122 then char_of (char_code c - 32) else c)"

definition permanent_flags_line :: "str \<Rightarrow> str option" where
  "permanent_flags_line line =
     (case split_once ''[PERMANENTFLAGS ('' (to_ascii_uppercase line) of
        None \<Rightarrow> None
      | Some (before, _) \<Rightarrow>
          map_option (\<lambda>(flags, _). canonical_flag_set (split_whitespace flags))
            (split_once '')'' (drop (length before + length ''[PERMANENTFLAGS ('') line)))"

fun parse_permanent_flags_lines :: "str list \<Rightarrow> str option" where
  "parse_permanent_flags_lines [] = None"
| "parse_permanent_flags_lines (line # lines) = first_some (permanent_flags_line line) (parse_permanent_flags_lines lines)"

definition parse_permanent_flags :: "str \<Rightarrow> str option" where
  "parse_permanent_flags response = parse_permanent_flags_lines (text_lines response)"

section \<open>Quoted names\<close>

text \<open>A quoted string as a server reads it, with the text after it; a line break is not allowed inside.\<close>

fun quoted_value :: "str \<Rightarrow> (str \<times> str) option" where
  "quoted_value [] = None"
| "quoted_value (c # cs) =
     (if c = CHR 0x22 then Some ([], cs)
      else if c = CHR 0x0D \<or> c = CHR 0x0A then None
      else if c = CHR 0x5C then (case cs of [] \<Rightarrow> None | d # ds \<Rightarrow> map_option (map_prod ((#) d) id) (quoted_value ds))
      else map_option (map_prod ((#) c) id) (quoted_value cs))"

lemma has_control_Cons: "\<not> has_control (c # cs) \<Longrightarrow> \<not> has_control cs \<and> \<not> (char_code c < 32)"
  by (cases cs) auto

lemma line_breaks_control: "char_code (CHR 0x0D) < 32" "char_code (CHR 0x0A) < 32"
  by (simp_all add: char_code_def)

lemma quoted_value_escaped:
  "\<not> has_control v \<Longrightarrow>
     quoted_value (concat (map (\<lambda>c. if c = CHR 0x5C then [CHR 0x5C, CHR 0x5C] else if c = CHR 0x22 then [CHR 0x5C, CHR 0x22] else [c]) v) @
       CHR 0x22 # rest) = Some (v, rest)"
proof (induction v)
  case (Cons c cs)
  have "c \<noteq> CHR 0x0D" "c \<noteq> CHR 0x0A" using has_control_Cons [OF Cons.prems] line_breaks_control by auto
  then show ?case using Cons.IH has_control_Cons [OF Cons.prems] by simp
qed simp

section \<open>Properties\<close>

text \<open>
  C23: a folder name cannot smuggle anything into a command: the server reads the quoted name back as exactly the name,
  and what follows it in the command line is left alone. A name with a control character is refused.
\<close>

theorem quoted_name_is_read_back:
  "case imap_quote v of
     None \<Rightarrow> has_control v
   | Some q \<Rightarrow> \<not> has_control v \<and> hd q = CHR 0x22 \<and> quoted_value (tl q @ rest) = Some (v, rest)"
  using quoted_value_escaped [of v rest] by (simp add: imap_quote_def)

end
