(* ===== verification/Imap_Scan.thy ===== *)
theory Imap_Scan
  imports Imap_Select
begin

text \<open>
  The scan of one folder: \<^verbatim>\<open>fetch_mailbox_with_existing_stream\<close> of \<^verbatim>\<open>imap_probe.rs\<close>, with the admission budgets that it
  draws on. A step returns its result together with the state, because an error leaves the pages staged before it.
\<close>

section \<open>Steps that may fail\<close>

definition and_then :: "('e + 'a) \<times> 's \<Rightarrow> ('a \<Rightarrow> 's \<Rightarrow> ('e + 'b) \<times> 's) \<Rightarrow> ('e + 'b) \<times> 's" where
  "and_then m f = (case m of (Inl e, s) \<Rightarrow> (Inl e, s) | (Inr a, s) \<Rightarrow> f a s)"

lemma and_then_Inr: "and_then m f = (Inr b, s') \<longleftrightarrow> (\<exists>a s. m = (Inr a, s) \<and> f a s = (Inr b, s'))"
  by (auto simp: and_then_def split: prod.splits sum.splits)

lemma and_then_keeps:
  assumes "P (snd m)" "\<And>a s. m = (Inr a, s) \<Longrightarrow> P s \<Longrightarrow> P (snd (f a s))"
  shows "P (snd (and_then m f))"
  using assms by (auto simp: and_then_def split: prod.splits sum.splits)

lemma and_then_pure [simp]: "and_then (Inr a, s) f = f a s" "and_then (Inl e, s) f = (Inl e, s)"
  by (simp_all add: and_then_def)

section \<open>The transport\<close>

datatype transport_error =
    Cancelled
  | Deadline_Passed
  | Stalled
  | Write_Closed
  | Write_Error str
  | Read_Error str

text \<open>
  What the code obtains from outside: whether the budget is used up, the chunks that the stream delivers after a
  command and how it ends when it does not just close, the time, the free space and SHA-256.
\<close>

record 'c endpoint =
  ep_check :: "'c \<Rightarrow> transport_error option"
  ep_send :: "str \<Rightarrow> 'c \<Rightarrow> (str list \<times> transport_error option) \<times> 'c"
  ep_now :: "'c \<Rightarrow> str"
  ep_available :: "'c \<Rightarrow> nat option"
  ep_sha256 :: "str \<Rightarrow> str"

definition STAGE_FREE_SPACE_RESERVE_BYTES :: nat where
  "STAGE_FREE_SPACE_RESERVE_BYTES = 512 * 1024 * 1024"

definition validate_stage_free_space :: "nat \<Rightarrow> bool" where
  "validate_stage_free_space available \<longleftrightarrow> \<not> available < STAGE_FREE_SPACE_RESERVE_BYTES"

definition free_space :: "'c endpoint \<Rightarrow> 'c \<Rightarrow> bool" where
  "free_space ep c = (case ep_available ep c of None \<Rightarrow> False | Some available \<Rightarrow> validate_stage_free_space available)"

datatype operation = Select_Mailbox | Search_Uids | Fetch_Metadata | Reselect_Mailbox

datatype probe_error =
    Transport_Failed operation str transport_error
  | Interrupted transport_error
  | Read_Failed str read_error
  | Command_Failed operation str str
  | Mailbox_Empty
  | Mailbox_Control
  | Select_Failed select_error
  | Scan_Failed scan_error
  | Parse_Failed parse_error
  | Body_Parse_Failed parse_error
  | Coverage_Failed coverage_error
  | Body_Coverage nat nat
  | Message_Limit nat
  | Body_Message_Limit
  | Body_Total_Limit nat
  | State_Limit
  | Sink_Failed sink_error
  | Enumeration_Mismatch nat nat

section \<open>Budgets\<close>

definition MAX_ESTIMATED_FETCHED_STATE_BYTES :: nat where
  "MAX_ESTIMATED_FETCHED_STATE_BYTES = 256 * 1024 * 1024"

definition body_hash_message_limit_exceeded :: "nat \<Rightarrow> nat \<Rightarrow> bool" where
  "body_hash_message_limit_exceeded existing incoming \<longleftrightarrow>
     saturating_add_u64 existing incoming > MAX_BODY_HASH_MESSAGES_PER_ENDPOINT"

record body_hash_options =
  bh_max_body_bytes :: nat
  bh_max_total_bytes :: nat

text \<open>
  The state of a scan: the connection, the sink, the number of pages fetched, the bytes admitted by the shared state
  budget and those of this scan's reservation, and the bytes that body hashing has used up.
\<close>

record 'c scan_state =
  sc_conn :: 'c
  sc_sink :: sink
  sc_page_number :: nat
  sc_estimated_bytes :: nat
  sc_reserved :: nat
  sc_body_consumed :: nat

definition reserve_state :: "nat \<Rightarrow> 'c scan_state \<Rightarrow> (probe_error + unit) \<times> 'c scan_state" where
  "reserve_state bytes st =
     (let next_bytes = sc_estimated_bytes st + bytes in
      if next_bytes > u64_max \<or> next_bytes > MAX_ESTIMATED_FETCHED_STATE_BYTES then (Inl State_Limit, st)
      else (Inr (), st\<lparr>sc_estimated_bytes := next_bytes, sc_reserved := saturating_add_u64 (sc_reserved st) bytes\<rparr>))"

definition release_state :: "nat \<Rightarrow> 'c scan_state \<Rightarrow> 'c scan_state" where
  "release_state bytes st =
     (let released = min bytes (sc_reserved st) in
      st\<lparr>sc_reserved := sc_reserved st - released, sc_estimated_bytes := sc_estimated_bytes st - released\<rparr>)"

definition drop_reservation :: "'c scan_state \<Rightarrow> 'c scan_state" where
  "drop_reservation st = st\<lparr>sc_estimated_bytes := sc_estimated_bytes st - sc_reserved st, sc_reserved := 0\<rparr>"

definition reserve_body :: "body_hash_options \<Rightarrow> nat \<Rightarrow> 'c scan_state \<Rightarrow> (probe_error + unit) \<times> 'c scan_state" where
  "reserve_body options bytes st =
     (let next_bytes = sc_body_consumed st + bytes in
      if next_bytes > u64_max \<or> next_bytes > bh_max_total_bytes options then (Inl (Body_Total_Limit (bh_max_total_bytes options)), st)
      else (Inr (), st\<lparr>sc_body_consumed := next_bytes\<rparr>))"

definition optional_length :: "str option \<Rightarrow> nat" where
  "optional_length v = (case v of None \<Rightarrow> 0 | Some s \<Rightarrow> length s)"

definition estimated_message_record_bytes :: "message_key \<Rightarrow> extracted_message \<Rightarrow> str option \<Rightarrow> nat" where
  "estimated_message_record_bytes key m fingerprint =
     fold (\<lambda>n acc. saturating_add_u64 acc n)
       [length (mk_mailbox key), length (mk_uid key), optional_length (em_message_id m), optional_length (em_date m),
        optional_length fingerprint] 512"

section \<open>Commands\<close>

definition check_budget :: "'c endpoint \<Rightarrow> 'c scan_state \<Rightarrow> (probe_error + unit) \<times> 'c scan_state" where
  "check_budget ep st = (case ep_check ep (sc_conn st) of None \<Rightarrow> (Inr (), st) | Some e \<Rightarrow> (Inl (Interrupted e), st))"

definition received :: "operation \<Rightarrow> str \<Rightarrow> nat \<Rightarrow> str list \<times> transport_error option \<Rightarrow> probe_error + str" where
  "received op tag max_bytes delivered =
     (case read_imap_tagged max_bytes tag (fst delivered) [] new_scanner of
        Inr response \<Rightarrow> Inr response
      | Inl Connection_Closed \<Rightarrow>
          (case snd delivered of
             Some e \<Rightarrow> Inl (if [] \<in> set (fst delivered) then Read_Failed tag Connection_Closed else Transport_Failed op tag e)
           | None \<Rightarrow> Inl (Read_Failed tag Connection_Closed))
      | Inl e \<Rightarrow> Inl (Read_Failed tag e))"

definition send_command :: "'c endpoint \<Rightarrow> operation \<Rightarrow> str \<Rightarrow> str \<Rightarrow> nat \<Rightarrow> 'c scan_state \<Rightarrow> (probe_error + str) \<times> 'c scan_state" where
  "send_command ep op tag command max_bytes st =
     (case ep_send ep (tag @ '' '' @ command @ CRLF) (sc_conn st) of
        (delivered, c) \<Rightarrow> (received op tag max_bytes delivered, st\<lparr>sc_conn := c\<rparr>))"

definition completed :: "operation \<Rightarrow> str \<Rightarrow> str \<Rightarrow> probe_error + str" where
  "completed op tag response = (if imap_command_succeeded response tag then Inr response else Inl (Command_Failed op tag response))"

text \<open>A text response is decoded before its completion is looked for; a page of messages is not.\<close>

definition text_command :: "'c endpoint \<Rightarrow> operation \<Rightarrow> str \<Rightarrow> str \<Rightarrow> 'c scan_state \<Rightarrow> (probe_error + str) \<times> 'c scan_state" where
  "text_command ep op tag command st =
     and_then (send_command ep op tag command 1048576 st) (\<lambda>raw st. (completed op tag (from_utf8_lossy raw), st))"

definition byte_command :: "'c endpoint \<Rightarrow> operation \<Rightarrow> str \<Rightarrow> str \<Rightarrow> 'c scan_state \<Rightarrow> (probe_error + str) \<times> 'c scan_state" where
  "byte_command ep op tag command st =
     and_then (send_command ep op tag command MAX_MESSAGE_FETCH_RESPONSE_BYTES st) (\<lambda>raw st. (completed op tag raw, st))"

definition select_folder ::
  "'c endpoint \<Rightarrow> operation \<Rightarrow> str \<Rightarrow> str \<Rightarrow> bool \<Rightarrow> 'c scan_state \<Rightarrow>
     (probe_error + (nat \<times> nat option \<times> nat option) \<times> modseq_snapshot option \<times> str) \<times> 'c scan_state" where
  "select_folder ep op tag quoted condstore st =
     and_then (text_command ep op tag (''SELECT '' @ quoted @ (if condstore then '' (CONDSTORE)'' else [])) st) (\<lambda>response st.
       case parse_selected_mailbox response of
         Inl e \<Rightarrow> (Inl (Select_Failed e), st)
       | Inr counts \<Rightarrow>
           if condstore then
             (case parse_select_modseq response of
                Inl e \<Rightarrow> (Inl (Select_Failed e), st)
              | Inr m \<Rightarrow> (Inr (counts, Some m, response), st))
           else (Inr (counts, None, response), st))"

text \<open>The exchange of the enumeration loop.\<close>

definition sequence_exchange :: "'c endpoint \<Rightarrow> nat \<Rightarrow> nat \<Rightarrow> nat \<Rightarrow> 'c scan_state \<Rightarrow> (probe_error + str) \<times> 'c scan_state" where
  "sequence_exchange ep search_number sequence_start sequence_end st =
     and_then (check_budget ep st) (\<lambda>_ st.
       text_command ep Search_Uids (command_tag ''s'' (search_number + 2))
         (''FETCH '' @ nat_to_string sequence_start @ '':'' @ nat_to_string sequence_end @ '' (UID)'') st)"

section \<open>A page of messages\<close>

definition modseq_tracked :: "modseq_snapshot option \<Rightarrow> bool" where
  "modseq_tracked m = (case m of Some (Tracked _) \<Rightarrow> True | _ \<Rightarrow> False)"

definition fetch_command :: "str \<Rightarrow> bool \<Rightarrow> bool \<Rightarrow> str" where
  "fetch_command uid_set flags body =
     ''UID FETCH '' @ uid_set @ '' (UID'' @ (if flags then '' FLAGS'' else []) @
     '' RFC822.SIZE INTERNALDATE BODY.PEEK[HEADER.FIELDS (MESSAGE-ID FROM TO CC SUBJECT DATE CONTENT-TYPE)]'' @
     (if body then '' BODY.PEEK[]'' else []) @ '')''"

definition admit_page :: "'c endpoint \<Rightarrow> body_hash_options option \<Rightarrow> nat \<Rightarrow> 'c scan_state \<Rightarrow> (probe_error + unit) \<times> 'c scan_state" where
  "admit_page ep body n st =
     and_then (check_budget ep st) (\<lambda>_ st.
       let k = sc_sink st; durable = stg_durable (sk_stage k); limit = message_fetch_limit durable in
       if message_fetch_limit_exceeded (sk_count k) n limit then (Inl (Message_Limit limit), st)
       else if body \<noteq> None \<and> \<not> durable \<and> body_hash_message_limit_exceeded (sk_count k) n then (Inl Body_Message_Limit, st)
       else (Inr (), st))"

definition parse_page :: "'c endpoint \<Rightarrow> str \<Rightarrow> nat \<Rightarrow> bool \<Rightarrow> nat list \<Rightarrow> str \<Rightarrow> probe_error + messages" where
  "parse_page ep mailbox v flags uid_page raw =
     (case parse_message_fetch_metadata (ep_sha256 ep) raw mailbox (Some v) of
        Inl e \<Rightarrow> Inl (Parse_Failed e)
      | Inr M \<Rightarrow>
          (case validate_fetch_page_coverage M uid_page mailbox of
             Inl e \<Rightarrow> Inl (Coverage_Failed e)
           | Inr _ \<Rightarrow> Inr (if flags then M else map (\<lambda>(k, m). (k, m\<lparr>em_flags := None\<rparr>)) M)))"

definition hash_page ::
  "'c endpoint \<Rightarrow> str \<Rightarrow> nat \<Rightarrow> body_hash_options option \<Rightarrow> messages \<Rightarrow> str \<Rightarrow> 'c scan_state \<Rightarrow>
     (probe_error + (message_key \<times> str) list) \<times> 'c scan_state" where
  "hash_page ep mailbox v body M raw st =
     (case body of
        None \<Rightarrow> (Inr [], st)
      | Some options \<Rightarrow>
          (case parse_message_fetch_body_hashes (ep_sha256 ep) raw mailbox (Some v) (bh_max_body_bytes options) of
             Inl e \<Rightarrow> (Inl (Body_Parse_Failed e), st)
           | Inr (F, total_bytes) \<Rightarrow>
               and_then (reserve_body options total_bytes st) (\<lambda>_ st.
                 if length F \<noteq> length M \<or> set (map fst F) \<noteq> set (map fst M) then (Inl (Body_Coverage (length M) (length F)), st)
                 else (Inr F, st))))"

fun reserve_page :: "messages \<Rightarrow> (message_key \<times> str) list \<Rightarrow> 'c scan_state \<Rightarrow> (probe_error + unit) \<times> 'c scan_state" where
  "reserve_page [] F st = (Inr (), st)"
| "reserve_page ((k, m) # M) F st =
     and_then (reserve_state (estimated_message_record_bytes k m (map_of F k)) st) (\<lambda>_ st. reserve_page M F st)"

definition page_bytes :: "messages \<Rightarrow> (message_key \<times> str) list \<Rightarrow> nat" where
  "page_bytes M F = sum_list (map (\<lambda>(k, m). estimated_message_record_bytes k m (map_of F k)) M)"

definition on_sink :: "(sink \<Rightarrow> (sink_error + 'a) \<times> sink) \<Rightarrow> 'c scan_state \<Rightarrow> (probe_error + 'a) \<times> 'c scan_state" where
  "on_sink f st = (case f (sc_sink st) of (r, k) \<Rightarrow> (map_sum Sink_Failed id r, st\<lparr>sc_sink := k\<rparr>))"

definition store_page ::
  "'c endpoint \<Rightarrow> str \<Rightarrow> folder_snapshot \<Rightarrow> nat list \<Rightarrow> messages \<Rightarrow> (message_key \<times> str) list \<Rightarrow> 'c scan_state \<Rightarrow>
     (probe_error + unit) \<times> 'c scan_state" where
  "store_page ep mailbox s uid_page M F st =
     (if uid_page \<noteq> [] then on_sink (insert_page_and_checkpoint (free_space ep (sc_conn st)) mailbox s (last uid_page) M F) st
      else on_sink (insert_batch_with_fingerprints (free_space ep (sc_conn st)) M F) st)"

definition fetch_page ::
  "'c endpoint \<Rightarrow> str \<Rightarrow> folder_snapshot \<Rightarrow> modseq_snapshot option \<Rightarrow> body_hash_options option \<Rightarrow> nat list \<Rightarrow> str \<Rightarrow> 'c scan_state \<Rightarrow>
     (probe_error + nat) \<times> 'c scan_state" where
  "fetch_page ep mailbox s modseq body uid_page uid_set st0 =
     and_then (admit_page ep body (length uid_page) st0) (\<lambda>_ st1.
       let tag = command_tag ''v'' (sc_page_number st1 + 3);
           st2 = st1\<lparr>sc_page_number := saturating_add_u64 (sc_page_number st1) 1\<rparr> in
       and_then (byte_command ep Fetch_Metadata tag (fetch_command uid_set (modseq_tracked modseq) (body \<noteq> None)) st2) (\<lambda>raw st3.
         and_then (parse_page ep mailbox (sn_uidvalidity s) (modseq_tracked modseq) uid_page raw, st3) (\<lambda>M st4.
           and_then (hash_page ep mailbox (sn_uidvalidity s) body M raw st4) (\<lambda>F st5.
             and_then (reserve_page M F st5) (\<lambda>_ st6.
               and_then (store_page ep mailbox s uid_page M F st6) (\<lambda>_ st7.
                 (Inr (length raw), release_state (page_bytes M F) st7)))))))"

section \<open>A folder\<close>

datatype change =
    Rows_Changed nat nat
  | Snapshot_Changed "nat \<times> nat \<times> nat \<times> modseq_snapshot option" "nat option \<times> nat option \<times> nat \<times> modseq_snapshot option"

datatype fetch_failure = Mailbox_Changed change | Probe_Failed probe_error

definition probe :: "(probe_error + 'a) \<times> 's \<Rightarrow> (fetch_failure + 'a) \<times> 's" where
  "probe m = map_prod (map_sum Probe_Failed id) id m"

definition snapshot_of :: "nat \<Rightarrow> nat \<Rightarrow> nat \<Rightarrow> modseq_snapshot option \<Rightarrow> folder_snapshot" where
  "snapshot_of v uidnext existing modseq =
     \<lparr>sn_uidvalidity = v, sn_uidnext = uidnext, sn_exists = existing,
      sn_highest_modseq = (case modseq of Some (Tracked n) \<Rightarrow> Some n | _ \<Rightarrow> None)\<rparr>"

definition open_folder ::
  "'c endpoint \<Rightarrow> str \<Rightarrow> bool \<Rightarrow> 'c scan_state \<Rightarrow> (probe_error + str \<times> folder_snapshot \<times> modseq_snapshot option \<times> str) \<times> 'c scan_state" where
  "open_folder ep mailbox condstore st =
     and_then (check_budget ep st) (\<lambda>_ st.
       if trim mailbox = [] then (Inl Mailbox_Empty, st)
       else case imap_quote mailbox of
              None \<Rightarrow> (Inl Mailbox_Control, st)
            | Some quoted \<Rightarrow>
                and_then (select_folder ep Select_Mailbox ''v001'' quoted condstore st) (\<lambda>r st.
                  case r of ((existing, uidvalidity, uidnext), modseq, response) \<Rightarrow>
                    (case uidvalidity of
                       None \<Rightarrow> (Inl (Select_Failed Uidvalidity_Missing), st)
                     | Some v \<Rightarrow>
                         (case uidnext of
                            None \<Rightarrow> (Inl (Select_Failed Uidnext_Missing), st)
                          | Some n \<Rightarrow> (Inr (quoted, snapshot_of v n existing modseq, modseq, response), st)))))"

text \<open>Whether the staged rows are complete, are a prefix to be continued, or are given up.\<close>

datatype adopted = Complete_Rows | Row_Prefix nat nat | No_Rows

definition adopt_rows ::
  "'c endpoint \<Rightarrow> str \<Rightarrow> folder_snapshot \<Rightarrow> body_hash_options option \<Rightarrow> 'c scan_state \<Rightarrow> (probe_error + adopted) \<times> 'c scan_state" where
  "adopt_rows ep mailbox s body st0 =
     and_then (if body = None then on_sink (reuse_completed_mailbox mailbox s) st0 else (Inr False, st0)) (\<lambda>reused st1.
       if reused then (Inr Complete_Rows, st1)
       else and_then (if body = None then on_sink (resume_mailbox_prefix mailbox s) st1 else (Inr None, st1)) (\<lambda>prefix st2.
              case prefix of
                Some (n, last_uid) \<Rightarrow> (Inr (Row_Prefix n last_uid), st2)
              | None \<Rightarrow>
                  and_then (on_sink (sink_begin_mailbox_scan (ep_now ep (sc_conn st2)) mailbox s) st2) (\<lambda>_ st3. (Inr No_Rows, st3))))"

definition enumerate_folder ::
  "'c endpoint \<Rightarrow> str \<Rightarrow> folder_snapshot \<Rightarrow> modseq_snapshot option \<Rightarrow> body_hash_options option \<Rightarrow> adopted \<Rightarrow> 'c scan_state \<Rightarrow>
     (probe_error + nat) \<times> 'c scan_state" where
  "enumerate_folder ep mailbox s modseq body adopted st =
     (let planner = (if body \<noteq> None then body_planner else metadata_planner);
          pages = (\<lambda>prefix. enumerate_uid_pages Scan_Failed (sequence_exchange ep) (fetch_page ep mailbox s modseq body) (sn_exists s) prefix planner st) in
      case adopted of
        Complete_Rows \<Rightarrow> (Inr (sn_exists s), st)
      | Row_Prefix n last_uid \<Rightarrow> pages (Some (n, last_uid))
      | No_Rows \<Rightarrow> pages None)"

definition confirm_folder ::
  "'c endpoint \<Rightarrow> str \<Rightarrow> bool \<Rightarrow> folder_snapshot \<Rightarrow> modseq_snapshot option \<Rightarrow> 'c scan_state \<Rightarrow> (fetch_failure + unit) \<times> 'c scan_state" where
  "confirm_folder ep quoted condstore s modseq st =
     and_then (probe (select_folder ep Reselect_Mailbox (command_tag ''v'' (sc_page_number st + 3)) quoted condstore st)) (\<lambda>r st.
       case r of ((existing, uidvalidity, uidnext), end_modseq, _) \<Rightarrow>
         if uidvalidity \<noteq> Some (sn_uidvalidity s) \<or> uidnext \<noteq> Some (sn_uidnext s) \<or> existing \<noteq> sn_exists s \<or>
            (modseq \<noteq> None \<and> end_modseq \<noteq> modseq)
         then (Inl (Mailbox_Changed (Snapshot_Changed (sn_uidvalidity s, sn_uidnext s, sn_exists s, modseq)
                 (uidvalidity, uidnext, existing, end_modseq))), st)
         else (Inr (), st))"

definition check_staged :: "str \<Rightarrow> folder_snapshot \<Rightarrow> 'c scan_state \<Rightarrow> (fetch_failure + unit) \<times> 'c scan_state" where
  "check_staged mailbox s st =
     (case mailbox_len mailbox (sn_uidvalidity s) (sc_sink st) of
        Inl e \<Rightarrow> (Inl (Probe_Failed (Sink_Failed e)), st)
      | Inr staged \<Rightarrow> if staged \<noteq> sn_exists s then (Inl (Mailbox_Changed (Rows_Changed staged (sn_exists s))), st) else (Inr (), st))"

definition scan_folder ::
  "'c endpoint \<Rightarrow> str \<Rightarrow> body_hash_options option \<Rightarrow> bool \<Rightarrow> 'c scan_state \<Rightarrow> (fetch_failure + folder_snapshot) \<times> 'c scan_state" where
  "scan_folder ep mailbox body condstore st0 =
     and_then (probe (open_folder ep mailbox condstore st0)) (\<lambda>r st1.
       case r of (quoted, s, modseq, response) \<Rightarrow>
         and_then (probe (adopt_rows ep mailbox s body st1)) (\<lambda>adopted st2.
           let st3 = st2\<lparr>sc_sink := sink_record_permanent_flags mailbox (parse_permanent_flags response) (sc_sink st2)\<rparr> in
           and_then (probe (enumerate_folder ep mailbox s modseq body adopted st3)) (\<lambda>n st4.
             if n \<noteq> sn_exists s then (Inl (Probe_Failed (Enumeration_Mismatch (sn_exists s) n)), st4)
             else and_then (check_staged mailbox s st4) (\<lambda>_ st5.
               and_then (confirm_folder ep quoted condstore s modseq st5) (\<lambda>_ st6.
                 and_then (if adopted = Complete_Rows then (Inr (), st6)
                           else probe (on_sink (sink_complete_mailbox (ep_now ep (sc_conn st6)) mailbox s (sn_uidnext s - 1)) st6)) (\<lambda>_ st7.
                   (Inr s, st7)))))))"

definition fetch_mailbox_with_existing_stream ::
  "'c endpoint \<Rightarrow> str \<Rightarrow> body_hash_options option \<Rightarrow> bool \<Rightarrow> 'c scan_state \<Rightarrow> (fetch_failure + nat) \<times> 'c scan_state" where
  "fetch_mailbox_with_existing_stream ep mailbox body condstore st =
     (case scan_folder ep mailbox body condstore (st\<lparr>sc_page_number := 0, sc_reserved := 0\<rparr>) of
        (Inl e, st') \<Rightarrow> (Inl e, drop_reservation st')
      | (Inr s, st') \<Rightarrow> (Inr (sn_exists s), st'\<lparr>sc_reserved := 0\<rparr>))"

end
