(* ===== verification/Scan_Safety.thy ===== *)
theory Scan_Safety
  imports Imap_Scan
begin

text \<open>
  What a folder scan guarantees, whatever the server sends: the stage stays sound, nothing outside the folder changes,
  the admission budget is returned, and a scan that succeeds has staged every message of the selected snapshot.
\<close>

section \<open>The stage\<close>

lemma population_cursor:
  assumes "stage_sound st" "map_of (stg_cursors st) (side, mailbox) = Some c"
  obtains us where "folder_population side mailbox (sn_uidvalidity (cu_snapshot c)) st us" "cu_completed c \<Longrightarrow> length us = sn_exists (cu_snapshot c)"
proof -
  have "folder_sound (side, mailbox) st" using assms(1) by (simp add: stage_sound_def)
  then show thesis using that assms(2) by (auto simp: folder_sound_def)
qed

lemma population_extend:
  assumes "folder_population side mailbox v st us" "set (folder_rows side mailbox st') = set (folder_rows side mailbox st) \<union> page_key mailbox (Some v) ` set vs"
    and "distinct ws" "set ws = set us \<union> set vs" "list_all valid_uid vs"
  shows "folder_population side mailbox v st' ws"
  using assms unfolding folder_population_def by (auto simp: list_all_iff image_Un)

lemma insert_page_sound:
  assumes s: "stage_sound st" and i: "insert_page_with_fingerprints free side M F (Some (mailbox, s, last_uid)) st = Inr st'"
    and k: "map fst M = map (page_key mailbox (Some (sn_uidvalidity s))) vs" and v: "list_all valid_uid vs"
  shows "stage_sound st'" "delete_mailbox side mailbox st' = delete_mailbox side mailbox st" "stg_durable st' = stg_durable st"
    and "folder_population side mailbox (sn_uidvalidity s) st us \<Longrightarrow> distinct ws \<Longrightarrow> set ws = set us \<union> set vs \<Longrightarrow>
      folder_population side mailbox (sn_uidvalidity s) st' ws"
    and "map_option cu_snapshot (map_of (stg_cursors st') (side, mailbox)) = Some s"
proof -
  have m: "list_all (\<lambda>(k, _). mk_mailbox k = mailbox) M"
  proof -
    have "list_all (\<lambda>k. mk_mailbox k = mailbox) (map fst M)" unfolding k by (simp add: list_all_iff page_key_def)
    then show ?thesis by (auto simp: list_all_iff)
  qed
  have d: "rows_distinct st" using s by (simp add: stage_sound_def)
  obtain c where c: "map_of (stg_cursors st) (side, mailbox) = Some c" "cu_snapshot c = s"
    "map_of (stg_cursors st') (side, mailbox) = Some (c\<lparr>cu_last_uid := last_uid, cu_completed := False\<rparr>)"
    "delete_mailbox side mailbox st' = delete_mailbox side mailbox st" "rows_distinct st'" "stg_durable st' = stg_durable st"
    "set (folder_rows side mailbox st') = set (folder_rows side mailbox st) \<union> set (map fst M)"
    using insert_page_effect [OF i m d] by metis
  have r: "set (folder_rows side mailbox st') = set (folder_rows side mailbox st) \<union> page_key mailbox (Some (sn_uidvalidity s)) ` set vs"
    unfolding c(7) k by simp
  show p: "folder_population side mailbox (sn_uidvalidity s) st' ws"
    if "folder_population side mailbox (sn_uidvalidity s) st us" "distinct ws" "set ws = set us \<union> set vs" for us ws
    using population_extend [OF that(1) r that(2,3) v] .
  obtain us where us: "folder_population side mailbox (sn_uidvalidity s) st us" using population_cursor [OF s c(1)] c(2) by metis
  have "folder_population side mailbox (sn_uidvalidity s) st' (remdups (us @ vs))" by (rule p [OF us]) simp_all
  then have "folder_sound (side, mailbox) st'" unfolding folder_sound_def c(3) using c(2) by auto
  then show "stage_sound st'" using sound_by_frame [OF s c(4,5)] by simp
  show "delete_mailbox side mailbox st' = delete_mailbox side mailbox st" "stg_durable st' = stg_durable st"
    "map_option cu_snapshot (map_of (stg_cursors st') (side, mailbox)) = Some s" using c by simp_all
qed

lemma begin_scan_sound:
  assumes s: "stage_sound st" and b: "begin_mailbox_scan now side mailbox s st = Inr st'"
  shows "stage_sound st'" "delete_mailbox side mailbox st' = delete_mailbox side mailbox st" "stg_durable st' = stg_durable st"
    and "folder_population side mailbox (sn_uidvalidity s) st' []"
    and "map_option cu_snapshot (map_of (stg_cursors st') (side, mailbox)) = Some s"
proof -
  obtain c where c: "map_of (stg_cursors st') (side, mailbox) = Some c" "cu_snapshot c = s" "\<not> cu_completed c"
    "delete_mailbox side mailbox st' = delete_mailbox side mailbox st" "rows_distinct st \<Longrightarrow> rows_distinct st'" "stg_durable st' = stg_durable st"
    "folder_rows side mailbox st' = []"
    using begin_mailbox_scan_effect [OF b] by metis
  show p: "folder_population side mailbox (sn_uidvalidity s) st' []" by (simp add: folder_population_def c(7))
  then have "folder_sound (side, mailbox) st'" unfolding folder_sound_def c(1) using c(2,3) by auto
  then show "stage_sound st'" using sound_by_frame [OF s c(4)] s c(5) by (simp add: stage_sound_def)
  show "delete_mailbox side mailbox st' = delete_mailbox side mailbox st" "stg_durable st' = stg_durable st"
    "map_option cu_snapshot (map_of (stg_cursors st') (side, mailbox)) = Some s" using c by simp_all
qed

lemma population_length:
  assumes "stage_sound st" "folder_population side mailbox v st us"
  shows "length (folder_rows side mailbox st) = length us" "length (snapshot_rows side mailbox v st) = length us"
  using rows_length [OF _ assms(2)] assms(1) by (simp_all add: stage_sound_def)

lemma complete_mailbox_sound:
  assumes s: "stage_sound st" and b: "complete_mailbox now side mailbox s last_uid st = Inr st'"
  shows "stage_sound st'" "delete_mailbox side mailbox st' = delete_mailbox side mailbox st" "stg_durable st' = stg_durable st"
    and "stg_messages st' = stg_messages st"
    and "\<exists>c. map_of (stg_cursors st') (side, mailbox) = Some c \<and> cu_snapshot c = s \<and> cu_completed c"
proof -
  have n: "length (snapshot_rows side mailbox (sn_uidvalidity s) st) = sn_exists s"
    and a: "advance_cursor now side mailbox s last_uid True st = Inr st'"
    using b by (auto simp: complete_mailbox_def count_mailbox_def split: if_splits sum.splits)
  have u: "update_cursor side mailbox s (\<lambda>c. c\<lparr>cu_last_uid := last_uid, cu_completed := True, cu_scan_completed_at := Some now\<rparr>) st = Inr st'"
    using a by (simp add: advance_cursor_def split: if_splits)
  obtain c where c: "map_of (stg_cursors st) (side, mailbox) = Some c" "cu_snapshot c = s"
    "map_of (stg_cursors st') (side, mailbox) = Some (c\<lparr>cu_last_uid := last_uid, cu_completed := True, cu_scan_completed_at := Some now\<rparr>)"
    "delete_mailbox side mailbox st' = delete_mailbox side mailbox st"
    "stg_messages st' = stg_messages st" "map fst (stg_cursors st') = map fst (stg_cursors st)" "stg_durable st' = stg_durable st"
    using update_cursor_effect [OF u] by metis
  obtain us where us: "folder_population side mailbox (sn_uidvalidity s) st us" using population_cursor [OF s c(1)] c(2) by metis
  have "length us = sn_exists s" using population_length(2) [OF s us] n by simp
  moreover have "folder_population side mailbox (sn_uidvalidity s) st' us" using us by (simp add: folder_population_def folder_rows_def c(5))
  ultimately have "folder_sound (side, mailbox) st'" unfolding folder_sound_def c(3) using c(2) by auto
  moreover have "rows_distinct st'" using s by (simp add: stage_sound_def rows_distinct_def c(5,6))
  ultimately show "stage_sound st'" using sound_by_frame [OF s c(4)] by simp
  show "delete_mailbox side mailbox st' = delete_mailbox side mailbox st" "stg_durable st' = stg_durable st"
    "stg_messages st' = stg_messages st" using c by simp_all
  show "\<exists>c. map_of (stg_cursors st') (side, mailbox) = Some c \<and> cu_snapshot c = s \<and> cu_completed c" using c by simp
qed

lemma stage_sound_tables:
  assumes "stg_messages st' = stg_messages st" "stg_cursors st' = stg_cursors st"
  shows "stage_sound st' \<longleftrightarrow> stage_sound st"
  unfolding stage_sound_def rows_distinct_def folder_sound_def folder_population_def folder_rows_def assms ..

lemma record_flags_sound: "stage_sound (record_permanent_flags side mailbox flags st) \<longleftrightarrow> stage_sound st"
  by (rule stage_sound_tables) (simp_all add: record_permanent_flags_def)

lemma cast_integer_nat: "cast_integer (nat_to_string n) = n"
proof -
  have "takeWhile is_ascii_digit (nat_to_string n) = nat_to_string n"
    using nat_to_string_digits by (simp add: takeWhile_eq_all_conv)
  then show ?thesis unfolding cast_integer_def by (simp only: parse_digits_nat_to_string option.case)
qed

lemma last_is_Max: "sorted_wrt (<) us \<Longrightarrow> us \<noteq> [] \<Longrightarrow> last us = Max (set us)" for us :: "nat list"
  by (cases us rule: rev_cases) (auto simp: sorted_wrt_append less_imp_le intro!: Max_eqI [symmetric])

lemma reusable_rows:
  assumes s: "stage_sound st" and r: "reusable_completed_mailbox side mailbox s st = Inr (Some n)"
  obtains c us where "map_of (stg_cursors st) (side, mailbox) = Some c" "cu_snapshot c = s" "cu_completed c" "n = sn_exists s"
    "folder_population side mailbox (sn_uidvalidity s) st us" "length us = sn_exists s"
proof -
  obtain c where c: "map_of (stg_cursors st) (side, mailbox) = Some c" "cu_snapshot c = s" "cu_completed c" "n = sn_exists s"
    using r by (auto simp: reusable_completed_mailbox_def split: if_splits option.splits)
  obtain us where "folder_population side mailbox (sn_uidvalidity s) st us" "length us = sn_exists s"
    using population_cursor [OF s c(1)] c(2,3) by metis
  then show thesis using that c by blast
qed

lemma resumable_rows:
  assumes s: "stage_sound st" and r: "resumable_mailbox_prefix side mailbox s st = Inr (Some (n, last_uid))"
  obtains c us where "map_of (stg_cursors st) (side, mailbox) = Some c" "cu_snapshot c = s"
    "folder_population side mailbox (sn_uidvalidity s) st us" "sorted_wrt (<) us" "us \<noteq> []" "length us = n" "last us = last_uid"
proof -
  obtain c where c: "map_of (stg_cursors st) (side, mailbox) = Some c" "cu_snapshot c = s"
    and n: "n > 0" "n = length (snapshot_rows side mailbox (sn_uidvalidity s) st)" "max_uid (folder_rows side mailbox st) = Some last_uid"
    using r by (auto simp: resumable_mailbox_prefix_def Let_def split: if_splits option.splits)
  obtain us0 where us0: "folder_population side mailbox (sn_uidvalidity s) st us0" using population_cursor [OF s c(1)] c(2) by metis
  define us where "us = sorted_list_of_set (set us0)"
  have set: "set us = set us0" and sorted: "sorted_wrt (<) us" by (simp_all add: us_def)
  have p: "folder_population side mailbox (sn_uidvalidity s) st us"
    using us0 sorted by (auto simp: folder_population_def set list_all_iff strict_sorted_iff)
  have len: "length us = n" using population_length(2) [OF s p] n(2) by simp
  then have ne: "us \<noteq> []" using n(1) by auto
  have "last_uid = Max (set (map (cast_integer \<circ> mk_uid) (folder_rows side mailbox st)))"
    using n(3) by (auto simp: max_uid_def split: if_splits)
  also have "set (map (cast_integer \<circ> mk_uid) (folder_rows side mailbox st)) = set us"
    using p by (auto simp: folder_population_def page_key_def cast_integer_nat image_image)
  finally have "last us = last_uid" using last_is_Max [OF sorted ne] by simp
  then show thesis using that c p sorted ne len by blast
qed

section \<open>The sink\<close>

definition sink_keeps :: "sink \<Rightarrow> str \<Rightarrow> sink \<Rightarrow> bool" where
  "sink_keeps k0 mailbox k \<longleftrightarrow>
     sk_side k = sk_side k0 \<and> stg_durable (sk_stage k) = stg_durable (sk_stage k0) \<and>
     delete_mailbox (sk_side k0) mailbox (sk_stage k) = delete_mailbox (sk_side k0) mailbox (sk_stage k0) \<and>
     stage_sound (sk_stage k) \<and> sk_count k \<le> message_fetch_limit (stg_durable (sk_stage k0))"

lemma add_messages_keeps:
  "sink_keeps k0 mailbox k \<Longrightarrow> sk_count k + n \<le> message_fetch_limit (stg_durable (sk_stage k0)) \<Longrightarrow>
     sink_keeps k0 mailbox (snd (add_current_attempt_messages n k))"
  by (simp add: sink_keeps_def add_current_attempt_messages_def Let_def split: option.splits)

lemma add_messages_stage [simp]:
  "sk_stage (snd (add_current_attempt_messages n k)) = sk_stage k" "sk_side (snd (add_current_attempt_messages n k)) = sk_side k"
  by (simp_all add: add_current_attempt_messages_def Let_def split: option.splits)

lemma reset_count_keeps: "sink_keeps k0 mailbox k \<Longrightarrow> sink_keeps k0 mailbox ((reset_mailbox_count m k)\<lparr>sk_active := a\<rparr>)"
  by (auto simp: sink_keeps_def reset_mailbox_count_def split: option.splits)

lemma reset_count_fields [simp]:
  "sk_stage (reset_mailbox_count m k) = sk_stage k" "sk_side (reset_mailbox_count m k) = sk_side k" "sk_count (reset_mailbox_count m k) \<le> sk_count k"
  by (simp_all add: reset_mailbox_count_def split: option.splits)

lemma stage_step_keeps:
  assumes "sink_keeps k0 mailbox k" "stage_sound st" "stg_durable st = stg_durable (sk_stage k)"
    and "delete_mailbox (sk_side k) mailbox st = delete_mailbox (sk_side k) mailbox (sk_stage k)"
  shows "sink_keeps k0 mailbox (k\<lparr>sk_stage := st\<rparr>)"
  using assms by (simp add: sink_keeps_def)

lemma insert_page_keeps:
  assumes k: "sink_keeps k0 mailbox k" and m: "map fst M = map (page_key mailbox (Some (sn_uidvalidity s))) vs" "list_all valid_uid vs"
    and n: "sk_count k + length M \<le> message_fetch_limit (stg_durable (sk_stage k0))"
  shows "sink_keeps k0 mailbox (snd (insert_page_and_checkpoint free mailbox s last_uid M F k))"
proof (cases "insert_page_with_fingerprints free (sk_side k) M F (Some (mailbox, s, last_uid)) (sk_stage k)")
  case (Inl e)
  then show ?thesis using k by (simp add: insert_page_and_checkpoint_def on_stage_def)
next
  case (Inr st')
  have sound: "stage_sound (sk_stage k)" using k by (simp add: sink_keeps_def)
  note i = insert_page_sound [OF sound Inr m]
  have "sink_keeps k0 mailbox (k\<lparr>sk_stage := st'\<rparr>)" by (rule stage_step_keeps [OF k i(1,3,2)])
  then show ?thesis using Inr n add_messages_keeps by (simp add: insert_page_and_checkpoint_def on_stage_def)
qed

lemma begin_scan_keeps:
  assumes k: "sink_keeps k0 mailbox k"
  shows "sink_keeps k0 mailbox (snd (sink_begin_mailbox_scan now mailbox s k))"
proof (cases "begin_mailbox_scan now (sk_side k) mailbox s (sk_stage k)")
  case (Inr st')
  have sound: "stage_sound (sk_stage k)" using k by (simp add: sink_keeps_def)
  note i = begin_scan_sound [OF sound Inr]
  have "sink_keeps k0 mailbox (k\<lparr>sk_stage := st'\<rparr>)" by (rule stage_step_keeps [OF k i(1,3,2)])
  then show ?thesis using Inr reset_count_keeps by (simp add: sink_begin_mailbox_scan_def on_stage_def)
qed (use k in \<open>simp add: sink_begin_mailbox_scan_def on_stage_def\<close>)

lemma complete_keeps:
  assumes k: "sink_keeps k0 mailbox k"
  shows "sink_keeps k0 mailbox (snd (sink_complete_mailbox now mailbox s last_uid k))"
proof (cases "complete_mailbox now (sk_side k) mailbox s last_uid (sk_stage k)")
  case (Inr st')
  have sound: "stage_sound (sk_stage k)" using k by (simp add: sink_keeps_def)
  note i = complete_mailbox_sound [OF sound Inr]
  have "sink_keeps k0 mailbox (k\<lparr>sk_stage := st'\<rparr>)" by (rule stage_step_keeps [OF k i(1,3,2)])
  then show ?thesis using Inr by (simp add: sink_complete_mailbox_def on_stage_def)
qed (use k in \<open>simp add: sink_complete_mailbox_def on_stage_def\<close>)

lemma record_flags_keeps: "sink_keeps k0 mailbox k \<Longrightarrow> sink_keeps k0 mailbox (sink_record_permanent_flags mailbox flags k)"
  unfolding sink_record_permanent_flags_def
  by (rule stage_step_keeps) (simp_all add: sink_keeps_def record_flags_sound record_permanent_flags_effect, simp add: record_permanent_flags_def)

lemma admit_staged_keeps: "sink_keeps k0 mailbox k \<Longrightarrow> sink_keeps k0 mailbox (snd (admit_staged over m n k))"
proof (cases "message_fetch_limit_exceeded (sk_count k) n (message_fetch_limit (stg_durable (sk_stage k)))")
  case False
  assume k: "sink_keeps k0 mailbox k"
  let ?k = "(reset_mailbox_count m k)\<lparr>sk_active := Some m\<rparr>"
  have "sk_count ?k + n \<le> sk_count k + n" by simp
  also have "\<dots> \<le> message_fetch_limit (stg_durable (sk_stage k0))" using False k by (simp add: message_fetch_limit_exceeded_def sink_keeps_def)
  finally have "sink_keeps k0 mailbox (snd (add_current_attempt_messages n ?k))" by (rule add_messages_keeps [OF reset_count_keeps [OF k]])
  then show ?thesis using False by (simp add: admit_staged_def)
qed (simp add: admit_staged_def)

lemma admit_staged_stage [simp]: "sk_stage (snd (admit_staged over m n k)) = sk_stage k" "sk_side (snd (admit_staged over m n k)) = sk_side k"
  by (simp_all add: admit_staged_def)

lemma reuse_keeps: "sink_keeps k0 mailbox k \<Longrightarrow> sink_keeps k0 mailbox (snd (reuse_completed_mailbox m s k))"
  by (simp add: reuse_completed_mailbox_def admit_staged_keeps split: sum.splits option.splits)

lemma resume_keeps: "sink_keeps k0 mailbox k \<Longrightarrow> sink_keeps k0 mailbox (snd (resume_mailbox_prefix m s k))"
  by (simp add: resume_mailbox_prefix_def admit_staged_keeps split: sum.splits option.splits prod.splits)

section \<open>The steps of a scan\<close>

definition scan_keeps :: "'c scan_state \<Rightarrow> str \<Rightarrow> 'c scan_state \<Rightarrow> bool" where
  "scan_keeps st0 mailbox st \<longleftrightarrow>
     sink_keeps (sc_sink st0) mailbox (sc_sink st) \<and> sc_estimated_bytes st = sc_estimated_bytes st0 + sc_reserved st"

lemma scan_keeps_update [simp]:
  "scan_keeps st0 mailbox (st\<lparr>sc_conn := c\<rparr>) \<longleftrightarrow> scan_keeps st0 mailbox st"
  "scan_keeps st0 mailbox (st\<lparr>sc_page_number := n\<rparr>) \<longleftrightarrow> scan_keeps st0 mailbox st"
  "scan_keeps st0 mailbox (st\<lparr>sc_body_consumed := n\<rparr>) \<longleftrightarrow> scan_keeps st0 mailbox st"
  by (simp_all add: scan_keeps_def)

lemma check_budget_state [simp]: "snd (check_budget ep st) = st"
  by (simp add: check_budget_def split: option.splits)

lemma check_budget_same: "check_budget ep st = (r, st') \<Longrightarrow> st' = st"
  using check_budget_state [of ep st] by simp

text \<open>A command changes the connection only.\<close>

definition same_but_conn :: "'c scan_state \<Rightarrow> 'c scan_state \<Rightarrow> bool" where
  "same_but_conn st st' \<longleftrightarrow> (\<exists>c. st' = st\<lparr>sc_conn := c\<rparr>)"

lemma same_but_conn_refl [simp]: "same_but_conn st st"
  unfolding same_but_conn_def by (rule exI [of _ "sc_conn st"]) simp

lemma same_but_conn_fields:
  "same_but_conn st st' \<Longrightarrow> sc_sink st' = sc_sink st \<and> sc_reserved st' = sc_reserved st \<and> sc_estimated_bytes st' = sc_estimated_bytes st"
  by (auto simp: same_but_conn_def)

lemma same_but_conn_keeps: "same_but_conn st st' \<Longrightarrow> scan_keeps st0 mailbox st' \<longleftrightarrow> scan_keeps st0 mailbox st"
  by (auto simp: same_but_conn_def)

lemma send_command_conn: "same_but_conn st (snd (send_command ep op tag command n st))"
  by (auto simp: send_command_def same_but_conn_def split: prod.splits)

lemma text_command_conn: "same_but_conn st (snd (text_command ep op tag command st))"
  unfolding text_command_def by (rule and_then_keeps [where P = "same_but_conn st"]) (simp_all add: send_command_conn)

lemma byte_command_conn: "same_but_conn st (snd (byte_command ep op tag command st))"
  unfolding byte_command_def by (rule and_then_keeps [where P = "same_but_conn st"]) (simp_all add: send_command_conn)

lemma select_folder_conn: "same_but_conn st (snd (select_folder ep op tag quoted condstore st))"
  unfolding select_folder_def
  by (rule and_then_keeps [where P = "same_but_conn st"]) (simp_all add: text_command_conn split: sum.splits)

lemma sequence_exchange_conn: "same_but_conn st (snd (sequence_exchange ep k lo hi st))"
  unfolding sequence_exchange_def
  by (rule and_then_keeps [where P = "same_but_conn st"]) (auto simp: text_command_conn dest!: check_budget_same)

lemma admit_page_state: "snd (admit_page ep body n st) = st"
  unfolding admit_page_def
  by (rule and_then_keeps [where P = "\<lambda>s. s = st"]) (auto simp: Let_def dest!: check_budget_same)

lemma admit_page_limit:
  "admit_page ep body n st = (Inr u, st') \<Longrightarrow> sk_count (sc_sink st) + n \<le> message_fetch_limit (stg_durable (sk_stage (sc_sink st)))"
  by (auto simp: admit_page_def and_then_Inr Let_def message_fetch_limit_exceeded_def dest!: check_budget_same split: if_splits)

lemma hash_page_state:
  "\<exists>b. snd (hash_page ep mailbox v body M raw st) = st\<lparr>sc_body_consumed := b\<rparr>"
proof -
  have refl: "\<exists>b. st = st\<lparr>sc_body_consumed := b\<rparr>" by (rule exI [of _ "sc_body_consumed st"]) simp
  have r: "\<exists>b. snd (reserve_body options n st) = st\<lparr>sc_body_consumed := b\<rparr>" for options n
    using refl by (auto simp: reserve_body_def Let_def)
  have "\<exists>b. snd (and_then (reserve_body options n st) (\<lambda>_ st. if c then (Inl e, st) else (Inr F, st))) = st\<lparr>sc_body_consumed := b\<rparr>"
    for options n c and e :: probe_error and F :: "(message_key \<times> str) list"
    by (rule and_then_keeps [where P = "\<lambda>s. \<exists>b. s = st\<lparr>sc_body_consumed := b\<rparr>"]) (use r in auto)
  then show ?thesis using refl by (simp add: hash_page_def split: option.splits sum.splits prod.splits)
qed

lemma reserve_state_sink [simp]: "sc_sink (snd (reserve_state n st)) = sc_sink st"
  by (simp add: reserve_state_def Let_def)

lemma MAX_STATE_u64: "MAX_ESTIMATED_FETCHED_STATE_BYTES \<le> u64_max"
  by (simp add: MAX_ESTIMATED_FETCHED_STATE_BYTES_def u64_max_def)

lemma reserve_state_exact:
  assumes "scan_keeps st0 mailbox st"
  shows "scan_keeps st0 mailbox (snd (reserve_state n st))"
    and "reserve_state n st = (Inr u, st') \<Longrightarrow> sc_reserved st' = sc_reserved st + n"
  using assms MAX_STATE_u64 by (auto simp: reserve_state_def Let_def scan_keeps_def saturating_add_u64_def split: if_splits)

lemma reserve_page_exact:
  "scan_keeps st0 mailbox st \<Longrightarrow> scan_keeps st0 mailbox (snd (reserve_page M F st)) \<and> sc_sink (snd (reserve_page M F st)) = sc_sink st \<and>
     (\<forall>u. fst (reserve_page M F st) = Inr u \<longrightarrow> sc_reserved (snd (reserve_page M F st)) = sc_reserved st + page_bytes M F)"
proof (induction M F st rule: reserve_page.induct)
  case (2 k m M F st)
  let ?n = "estimated_message_record_bytes k m (map_of F k)"
  obtain r st' where r: "reserve_state ?n st = (r, st')" by fastforce
  have k': "scan_keeps st0 mailbox st'" "sc_sink st' = sc_sink st"
    using reserve_state_exact(1) [OF "2.prems", of ?n] reserve_state_sink [of ?n st] r by simp_all
  show ?case
  proof (cases r)
    case (Inl e)
    then show ?thesis using r k' by simp
  next
    case (Inr u)
    have "sc_reserved st' = sc_reserved st + ?n" using reserve_state_exact(2) [OF "2.prems"] r Inr by simp
    then show ?thesis using "2.IH" [OF k'(1)] r Inr k'(2) by (simp add: page_bytes_def)
  qed
qed (simp add: page_bytes_def)

lemma release_page:
  assumes "scan_keeps st0 mailbox st"
  shows "scan_keeps st0 mailbox (release_state n st)" "sc_reserved (release_state n st) = sc_reserved st - n" "sc_sink (release_state n st) = sc_sink st"
  using assms by (auto simp: release_state_def Let_def scan_keeps_def)

lemma parse_page_keys:
  assumes "parse_page ep mailbox v flags uid_page raw = Inr M"
  obtains us where "map fst M = map (page_key mailbox (Some v)) us" "distinct us" "set us = set uid_page" "list_all valid_uid us"
proof -
  obtain M0 where m: "parse_message_fetch_metadata (ep_sha256 ep) raw mailbox (Some v) = Inr M0"
    "validate_fetch_page_coverage M0 uid_page mailbox = Inr ()" "M = (if flags then M0 else map (\<lambda>(k, m). (k, m\<lparr>em_flags := None\<rparr>)) M0)"
    using assms by (auto simp: parse_page_def split: sum.splits)
  have keys: "map fst M = map fst M0" unfolding m(3) by (simp add: split_def)
  obtain us where us: "map fst M0 = map (page_key mailbox (Some v)) us" "distinct us" "set us = set uid_page" by (rule covered_page [OF m(1,2)])
  obtain vs where vs: "map fst M0 = map (page_key mailbox (Some v)) vs" "list_all valid_uid vs" by (rule fetched_keys [OF m(1)])
  have "us = vs" using us(1) vs(1) map_injective [of "page_key mailbox (Some v)" us vs] by (simp add: inj_on_def page_key_inject)
  then show thesis using that us vs(2) keys by simp
qed

lemma insert_nothing_keeps:
  assumes "sink_keeps k0 mailbox k"
  shows "sink_keeps k0 mailbox (snd (insert_batch_with_fingerprints free [] F k))"
proof -
  have "insert_page_with_fingerprints free (sk_side k) [] F None (sk_stage k) = Inr st' \<Longrightarrow> st' = sk_stage k" for st'
    by (cases F) (auto simp: insert_page_with_fingerprints_def Let_def split: if_splits)
  then show ?thesis using assms add_messages_keeps [of k0 mailbox k 0]
    by (auto simp: insert_batch_with_fingerprints_def on_stage_def sink_keeps_def split: sum.splits)
qed

lemma on_sink_keeps:
  "scan_keeps st0 mailbox st \<Longrightarrow> sink_keeps (sc_sink st0) mailbox (snd (f (sc_sink st))) \<Longrightarrow> scan_keeps st0 mailbox (snd (on_sink f st))"
  by (auto simp: on_sink_def scan_keeps_def split: prod.splits)

lemma on_sink_Inr: "on_sink f st = (Inr a, st') \<longleftrightarrow> (\<exists>k. f (sc_sink st) = (Inr a, k) \<and> st' = st\<lparr>sc_sink := k\<rparr>)"
proof -
  obtain r k where "f (sc_sink st) = (r, k)" by fastforce
  then show ?thesis by (cases r) (auto simp: on_sink_def)
qed

section \<open>A page\<close>

text \<open>The steps before a page is stored leave the sink alone and, when they succeed, reserve exactly the bytes of the page.\<close>

lemma before_store:
  assumes "scan_keeps st0 mailbox st"
    and "admit_page ep body n st = (Inr u, st1)" "byte_command ep op tag command (st1\<lparr>sc_page_number := p\<rparr>) = (Inr raw, st3)"
    and "hash_page ep mailbox v body M raw st3 = (Inr F, st5)" "reserve_page M F st5 = (r, st6)"
  shows "scan_keeps st0 mailbox st6" "sc_sink st6 = sc_sink st" "r = Inr w \<Longrightarrow> sc_reserved st6 = sc_reserved st + page_bytes M F"
proof -
  have st1: "st1 = st" using admit_page_state [of ep body n st] assms(2) by simp
  have "same_but_conn (st\<lparr>sc_page_number := p\<rparr>) st3" using byte_command_conn [of "st1\<lparr>sc_page_number := p\<rparr>" ep op tag command] assms(3) st1 by simp
  then have k3: "scan_keeps st0 mailbox st3" "sc_sink st3 = sc_sink st" "sc_reserved st3 = sc_reserved st"
    using assms(1) same_but_conn_keeps same_but_conn_fields by fastforce+
  obtain b where "st5 = st3\<lparr>sc_body_consumed := b\<rparr>" using hash_page_state [of ep mailbox v body M raw st3] assms(4) by auto
  then have k5: "scan_keeps st0 mailbox st5" "sc_sink st5 = sc_sink st" "sc_reserved st5 = sc_reserved st" using k3 by simp_all
  show "scan_keeps st0 mailbox st6" "sc_sink st6 = sc_sink st" "r = Inr w \<Longrightarrow> sc_reserved st6 = sc_reserved st + page_bytes M F"
    using reserve_page_exact [OF k5(1), of M F] assms(5) k5(2,3) by simp_all
qed

lemma store_page_keeps:
  assumes "scan_keeps st0 mailbox st" "sk_count (sc_sink st) + length uid_page \<le> message_fetch_limit (stg_durable (sk_stage (sc_sink st)))"
    and "parse_page ep mailbox (sn_uidvalidity s) flags uid_page raw = Inr M"
  shows "scan_keeps st0 mailbox (snd (store_page ep mailbox s uid_page M F st))"
proof -
  obtain us where us: "map fst M = map (page_key mailbox (Some (sn_uidvalidity s))) us" "distinct us" "set us = set uid_page" "list_all valid_uid us"
    by (rule parse_page_keys [OF assms(3)])
  have k: "sink_keeps (sc_sink st0) mailbox (sc_sink st)" using assms(1) by (simp add: scan_keeps_def)
  have "length M = card (set uid_page)" using us distinct_card [of us] length_map [of fst M] by simp
  then have l: "length M \<le> length uid_page" using card_length [of uid_page] by simp
  show ?thesis
  proof (cases "uid_page = []")
    case True
    then have "M = []" using l by simp
    then show ?thesis using True assms(1) insert_nothing_keeps [OF k] by (simp add: store_page_def on_sink_keeps)
  next
    case False
    have "sk_count (sc_sink st) + length M \<le> message_fetch_limit (stg_durable (sk_stage (sc_sink st0)))" using assms(2) k l by (simp add: sink_keeps_def)
    then show ?thesis using False assms(1) insert_page_keeps [OF k us(1,4)] by (simp add: store_page_def on_sink_keeps)
  qed
qed

lemma fetch_page_keeps:
  assumes "scan_keeps st0 mailbox st"
  shows "scan_keeps st0 mailbox (snd (fetch_page ep mailbox s modseq body uid_page uid_set st))"
  unfolding fetch_page_def Let_def
proof (rule and_then_keeps, goal_cases)
  case 1
  show ?case using assms by (simp add: admit_page_state)
next
  case a: (2 u st1)
  have limit: "sk_count (sc_sink st) + length uid_page \<le> message_fetch_limit (stg_durable (sk_stage (sc_sink st)))"
    by (rule admit_page_limit [OF a(1)])
  show ?case
  proof (rule and_then_keeps, goal_cases)
    case 1
    show ?case using a(2) by (simp add: same_but_conn_keeps [OF byte_command_conn])
  next
    case b: (2 raw st3)
    show ?case
    proof (rule and_then_keeps, goal_cases)
      case 1
      show ?case using b(2) by simp
    next
      case c: (2 M st4)
      then have p: "parse_page ep mailbox (sn_uidvalidity s) (modseq_tracked modseq) uid_page raw = Inr M" and st4: "st4 = st3" by simp_all
      show ?case
      proof (rule and_then_keeps, goal_cases)
        case 1
        show ?case using c(2) hash_page_state [of ep mailbox "sn_uidvalidity s" body M raw st4] by auto
      next
        case d: (2 F st5)
        obtain r st6 where r: "reserve_page M F st5 = (r, st6)" by fastforce
        note bs = before_store [OF assms a(1) b(1) d(1) [unfolded st4] r]
        show ?case
        proof (rule and_then_keeps, goal_cases)
          case 1
          show ?case using bs(1) r by simp
        next
          case e: (2 w st6')
          then have st6': "st6' = st6" using r by simp
          show ?case
          proof (rule and_then_keeps, goal_cases)
            case 1
            show ?case unfolding st6' by (rule store_page_keeps [OF bs(1) _ p]) (simp add: bs(2) limit)
          qed (simp add: release_page(1))
        qed
      qed
    qed
  qed
qed

text \<open>The stored page extends the population of the folder and returns its reservation.\<close>

definition scan_done :: "'c scan_state \<Rightarrow> str \<Rightarrow> folder_snapshot \<Rightarrow> nat list \<Rightarrow> 'c scan_state \<Rightarrow> bool" where
  "scan_done st0 mailbox s us st \<longleftrightarrow>
     scan_keeps st0 mailbox st \<and> sc_reserved st = 0 \<and>
     map_option cu_snapshot (map_of (stg_cursors (sk_stage (sc_sink st))) (sk_side (sc_sink st), mailbox)) = Some s \<and>
     folder_population (sk_side (sc_sink st)) mailbox (sn_uidvalidity s) (sk_stage (sc_sink st)) us"

lemma insert_page_stores:
  assumes "insert_page_and_checkpoint free mailbox s last_uid M F k = (Inr u, k')" "stage_sound (sk_stage k)"
    and "map fst M = map (page_key mailbox (Some (sn_uidvalidity s))) vs" "list_all valid_uid vs"
    and "folder_population (sk_side k) mailbox (sn_uidvalidity s) (sk_stage k) us" "distinct ws" "set ws = set us \<union> set vs"
  shows "folder_population (sk_side k') mailbox (sn_uidvalidity s) (sk_stage k') ws"
    and "map_option cu_snapshot (map_of (stg_cursors (sk_stage k')) (sk_side k', mailbox)) = Some s"
proof -
  obtain st' where i: "insert_page_with_fingerprints free (sk_side k) M F (Some (mailbox, s, last_uid)) (sk_stage k) = Inr st'"
    and a: "add_current_attempt_messages (length M) (k\<lparr>sk_stage := st'\<rparr>) = (Inr u, k')"
    using assms(1) by (auto simp: insert_page_and_checkpoint_def on_stage_def split: sum.splits)
  have f: "sk_stage k' = st'" "sk_side k' = sk_side k" using add_messages_stage [of "length M" "k\<lparr>sk_stage := st'\<rparr>"] a by simp_all
  note n = insert_page_sound [OF assms(2) i assms(3,4)]
  show "folder_population (sk_side k') mailbox (sn_uidvalidity s) (sk_stage k') ws" unfolding f by (rule n(4) [OF assms(5-7)])
  show "map_option cu_snapshot (map_of (stg_cursors (sk_stage k')) (sk_side k', mailbox)) = Some s" unfolding f by (rule n(5))
qed

lemma fetch_page_extends:
  assumes d: "scan_done st0 mailbox s us st" and g: "page_follows us page uid_set"
    and f: "fetch_page ep mailbox s modseq body page uid_set st = (Inr n, st')"
  shows "scan_done st0 mailbox s (us @ page) st'"
proof -
  have k: "scan_keeps st0 mailbox st" "sc_reserved st = 0" using d by (simp_all add: scan_done_def)
  obtain u st1 raw st3 M F st5 w st6 x st7 where
    a: "admit_page ep body (length page) st = (Inr u, st1)" and
    b: "byte_command ep Fetch_Metadata (command_tag ''v'' (sc_page_number st1 + 3)) (fetch_command uid_set (modseq_tracked modseq) (body \<noteq> None))
          (st1\<lparr>sc_page_number := saturating_add_u64 (sc_page_number st1) 1\<rparr>) = (Inr raw, st3)" and
    p: "parse_page ep mailbox (sn_uidvalidity s) (modseq_tracked modseq) page raw = Inr M" and
    h: "hash_page ep mailbox (sn_uidvalidity s) body M raw st3 = (Inr F, st5)" and
    r: "reserve_page M F st5 = (Inr w, st6)" and
    o: "store_page ep mailbox s page M F st6 = (Inr x, st7)" and st': "st' = release_state (page_bytes M F) st7"
    using f unfolding fetch_page_def Let_def and_then_Inr by blast
  note bs = before_store [OF k(1) a b h r]
  obtain vs where vs: "map fst M = map (page_key mailbox (Some (sn_uidvalidity s))) vs" "distinct vs" "set vs = set page" "list_all valid_uid vs"
    by (rule parse_page_keys [OF p])
  have "page \<noteq> []" using g by (simp add: page_follows_def)
  then obtain k' where i: "insert_page_and_checkpoint (free_space ep (sc_conn st6)) mailbox s (last page) M F (sc_sink st) = (Inr x, k')"
    and st7: "st7 = st6\<lparr>sc_sink := k'\<rparr>" using o bs(2) by (auto simp: store_page_def on_sink_Inr)
  have sound: "stage_sound (sk_stage (sc_sink st))" using k(1) by (simp add: scan_keeps_def sink_keeps_def)
  have dist: "distinct (us @ page)" using g by (simp add: page_follows_def strict_sorted_iff)
  have "set (us @ page) = set us \<union> set vs" by (simp add: vs(3))
  note n = insert_page_stores [OF i sound vs(1,4) _ dist this]
  have "scan_keeps st0 mailbox (snd (fetch_page ep mailbox s modseq body page uid_set st))" by (rule fetch_page_keeps [OF k(1)])
  then have "scan_keeps st0 mailbox st'" using f by simp
  moreover have "sc_reserved st' = 0" using bs(3) k(2) by (simp add: st' st7 release_state_def Let_def)
  moreover have "sc_sink st' = k'" by (simp add: st' st7 release_state_def Let_def)
  ultimately show ?thesis using d n by (simp add: scan_done_def)
qed

interpretation folder_pages: page_consumer "sequence_exchange ep" "fetch_page ep mailbox s modseq body" "scan_keeps st0 mailbox" "scan_done st0 mailbox s"
  for ep :: "'c endpoint" and mailbox s modseq body and st0 :: "'c scan_state"
proof
  fix st :: "'c scan_state" and us page uid_set k lo hi response st' n
  show "scan_keeps st0 mailbox st \<Longrightarrow> scan_keeps st0 mailbox (snd (sequence_exchange ep k lo hi st))"
    by (simp add: same_but_conn_keeps [OF sequence_exchange_conn])
  show "scan_keeps st0 mailbox st \<Longrightarrow> scan_keeps st0 mailbox (snd (fetch_page ep mailbox s modseq body page uid_set st))"
    by (rule fetch_page_keeps)
  show "scan_done st0 mailbox s us st'" if "scan_done st0 mailbox s us st" "sequence_exchange ep k lo hi st = (Inr response, st')"
  proof -
    have "same_but_conn st st'" using sequence_exchange_conn [of st ep k lo hi] that(2) by simp
    then show ?thesis using that(1) same_but_conn_fields [of st st'] same_but_conn_keeps [of st st'] by (simp add: scan_done_def)
  qed
  show "scan_done st0 mailbox s us st \<Longrightarrow> page_follows us page uid_set \<Longrightarrow>
      fetch_page ep mailbox s modseq body page uid_set st = (Inr n, st') \<Longrightarrow> scan_done st0 mailbox s (us @ page) st'"
    by (rule fetch_page_extends)
qed

section \<open>A folder\<close>

lemma probe_state [simp]: "snd (probe m) = snd m"
  by (simp add: probe_def)

lemma probe_Inr: "probe m = (Inr a, st) \<longleftrightarrow> m = (Inr a, st)"
proof -
  obtain r st' where "m = (r, st')" by fastforce
  then show ?thesis by (cases r) (auto simp: probe_def)
qed

lemma open_folder_conn: "same_but_conn st (snd (open_folder ep mailbox condstore st))"
  unfolding open_folder_def
proof (rule and_then_keeps [where P = "same_but_conn st"], goal_cases)
  case a: (2 u st1)
  then have st1: "st1 = st" by (simp add: check_budget_same)
  have "same_but_conn st (snd (and_then (select_folder ep Select_Mailbox ''v001'' quoted condstore st) (\<lambda>r st.
      case r of ((existing, uidvalidity, uidnext), modseq, response) \<Rightarrow>
        (case uidvalidity of
           None \<Rightarrow> (Inl (Select_Failed Uidvalidity_Missing), st)
         | Some v \<Rightarrow>
             (case uidnext of
                None \<Rightarrow> (Inl (Select_Failed Uidnext_Missing), st)
              | Some n \<Rightarrow> (Inr (quoted, snapshot_of v n existing modseq, modseq, response), st))))))" for quoted
    by (rule and_then_keeps [where P = "same_but_conn st"]) (simp_all add: select_folder_conn split: prod.splits option.splits)
  then show ?case unfolding st1 by (simp split: option.splits)
qed simp

lemma adopt_rows_keeps:
  assumes "scan_keeps st0 mailbox st"
  shows "scan_keeps st0 mailbox (snd (adopt_rows ep mailbox s body st))"
proof -
  have keep: "sink_keeps (sc_sink st0) mailbox (sc_sink st)" if "scan_keeps st0 mailbox st" for st :: "'a scan_state"
    using that by (simp add: scan_keeps_def)
  show ?thesis unfolding adopt_rows_def
  proof (rule and_then_keeps, goal_cases)
    case 1
    show ?case using assms by (simp add: on_sink_keeps reuse_keeps keep)
  next
    case a: (2 reused st1)
    have "scan_keeps st0 mailbox (snd (and_then (if body = None then on_sink (resume_mailbox_prefix mailbox s) st1 else (Inr None, st1)) (\<lambda>prefix st2.
        case prefix of
          Some (n, last_uid) \<Rightarrow> (Inr (Row_Prefix n last_uid), st2)
        | None \<Rightarrow> and_then (on_sink (sink_begin_mailbox_scan (ep_now ep (sc_conn st2)) mailbox s) st2) (\<lambda>_ st3. (Inr No_Rows, st3)))))"
    proof (rule and_then_keeps, goal_cases)
      case 1
      show ?case using a(2) by (simp add: on_sink_keeps resume_keeps keep)
    next
      case b: (2 prefix st2)
      have "scan_keeps st0 mailbox (snd (and_then (on_sink (sink_begin_mailbox_scan now mailbox s) st2) (\<lambda>_ st3. (Inr No_Rows, st3))))" for now
        by (rule and_then_keeps) (simp_all add: on_sink_keeps begin_scan_keeps keep b(2))
      then show ?case using b(2) by (simp split: option.splits prod.splits)
    qed
    then show ?case using a(2) by simp
  qed
qed

text \<open>What the rows are that a scan starts from.\<close>

fun starts_from :: "adopted \<Rightarrow> folder_snapshot \<Rightarrow> nat list \<Rightarrow> bool" where
  "starts_from Complete_Rows s us \<longleftrightarrow> length us = sn_exists s"
| "starts_from (Row_Prefix n last_uid) s us \<longleftrightarrow> sorted_wrt (<) us \<and> us \<noteq> [] \<and> n = length us \<and> last_uid = last us"
| "starts_from No_Rows s us \<longleftrightarrow> us = []"

definition cursor_completed :: "sink \<Rightarrow> str \<Rightarrow> folder_snapshot \<Rightarrow> bool" where
  "cursor_completed k mailbox s \<longleftrightarrow>
     (case map_of (stg_cursors (sk_stage k)) (sk_side k, mailbox) of None \<Rightarrow> False | Some c \<Rightarrow> cu_snapshot c = s \<and> cu_completed c)"

lemma admit_effect:
  "map_prod (map_sum id f) id (admit_staged over m n k) = (Inr b, k') \<Longrightarrow> b = f () \<and> sk_stage k' = sk_stage k \<and> sk_side k' = sk_side k"
proof -
  assume h: "map_prod (map_sum id f) id (admit_staged over m n k) = (Inr b, k')"
  obtain r kk where r: "admit_staged over m n k = (r, kk)" by fastforce
  then show ?thesis using h admit_staged_stage [of over m n k] by (cases r) auto
qed

lemma reuse_effect:
  assumes "reuse_completed_mailbox mailbox s k = (Inr b, k')"
  shows "if b then sk_stage k' = sk_stage k \<and> sk_side k' = sk_side k \<and> (\<exists>n. reusable_completed_mailbox (sk_side k) mailbox s (sk_stage k) = Inr (Some n))
    else k' = k"
  using assms by (auto simp: reuse_completed_mailbox_def dest!: admit_effect split: sum.splits option.splits)

lemma resume_effect:
  assumes "resume_mailbox_prefix mailbox s k = (Inr p, k')"
  shows "case p of
      Some q \<Rightarrow> sk_stage k' = sk_stage k \<and> sk_side k' = sk_side k \<and> resumable_mailbox_prefix (sk_side k) mailbox s (sk_stage k) = Inr (Some q)
    | None \<Rightarrow> k' = k"
  using assms by (auto simp: resume_mailbox_prefix_def dest!: admit_effect split: sum.splits option.splits prod.splits)

lemma reused_done:
  assumes k: "scan_keeps st0 mailbox st" "sc_reserved st = 0" and u: "reuse_completed_mailbox mailbox s (sc_sink st) = (Inr True, k')"
  obtains us where "scan_done st0 mailbox s us (st\<lparr>sc_sink := k'\<rparr>)" "length us = sn_exists s" "cursor_completed k' mailbox s"
proof -
  have sound: "stage_sound (sk_stage (sc_sink st))" using k(1) by (simp add: scan_keeps_def sink_keeps_def)
  have f: "sk_stage k' = sk_stage (sc_sink st)" "sk_side k' = sk_side (sc_sink st)"
    and r: "\<exists>n. reusable_completed_mailbox (sk_side (sc_sink st)) mailbox s (sk_stage (sc_sink st)) = Inr (Some n)"
    using reuse_effect [OF u] by simp_all
  have kk: "scan_keeps st0 mailbox (st\<lparr>sc_sink := k'\<rparr>)"
    using k(1) reuse_keeps [of "sc_sink st0" mailbox "sc_sink st" mailbox s] u by (simp add: scan_keeps_def)
  obtain c us where c: "map_of (stg_cursors (sk_stage (sc_sink st))) (sk_side (sc_sink st), mailbox) = Some c" "cu_snapshot c = s" "cu_completed c"
    "folder_population (sk_side (sc_sink st)) mailbox (sn_uidvalidity s) (sk_stage (sc_sink st)) us" "length us = sn_exists s"
    using r reusable_rows [OF sound] by metis
  show thesis by (rule that [of us]) (use c f kk k(2) in \<open>simp_all add: scan_done_def cursor_completed_def\<close>)
qed

lemma resumed_done:
  assumes k: "scan_keeps st0 mailbox st" "sc_reserved st = 0" and u: "resume_mailbox_prefix mailbox s (sc_sink st) = (Inr (Some (n, l)), k')"
  obtains us where "scan_done st0 mailbox s us (st\<lparr>sc_sink := k'\<rparr>)" "sorted_wrt (<) us" "us \<noteq> []" "length us = n" "last us = l"
proof -
  have sound: "stage_sound (sk_stage (sc_sink st))" using k(1) by (simp add: scan_keeps_def sink_keeps_def)
  have f: "sk_stage k' = sk_stage (sc_sink st)" "sk_side k' = sk_side (sc_sink st)"
    and r: "resumable_mailbox_prefix (sk_side (sc_sink st)) mailbox s (sk_stage (sc_sink st)) = Inr (Some (n, l))"
    using resume_effect [OF u] by simp_all
  have kk: "scan_keeps st0 mailbox (st\<lparr>sc_sink := k'\<rparr>)"
    using k(1) resume_keeps [of "sc_sink st0" mailbox "sc_sink st" mailbox s] u by (simp add: scan_keeps_def)
  obtain c us where c: "map_of (stg_cursors (sk_stage (sc_sink st))) (sk_side (sc_sink st), mailbox) = Some c" "cu_snapshot c = s"
    "folder_population (sk_side (sc_sink st)) mailbox (sn_uidvalidity s) (sk_stage (sc_sink st)) us" "sorted_wrt (<) us" "us \<noteq> []" "length us = n" "last us = l"
    using resumable_rows [OF sound r] by metis
  show thesis by (rule that [of us]) (use c f kk k(2) in \<open>simp_all add: scan_done_def\<close>)
qed

lemma fresh_done:
  assumes k: "scan_keeps st0 mailbox st" "sc_reserved st = 0" and b: "sink_begin_mailbox_scan now mailbox s (sc_sink st) = (Inr u, k')"
  shows "scan_done st0 mailbox s [] (st\<lparr>sc_sink := k'\<rparr>)"
proof -
  have sound: "stage_sound (sk_stage (sc_sink st))" using k(1) by (simp add: scan_keeps_def sink_keeps_def)
  obtain sg where g: "begin_mailbox_scan now (sk_side (sc_sink st)) mailbox s (sk_stage (sc_sink st)) = Inr sg"
    "sk_stage k' = sg" "sk_side k' = sk_side (sc_sink st)"
    using b by (auto simp: sink_begin_mailbox_scan_def on_stage_def split: sum.splits)
  note e = begin_scan_sound [OF sound g(1)]
  have "scan_keeps st0 mailbox (st\<lparr>sc_sink := k'\<rparr>)"
    using k(1) begin_scan_keeps [of "sc_sink st0" mailbox "sc_sink st" now s] b by (simp add: scan_keeps_def)
  then show ?thesis using e g k(2) by (simp add: scan_done_def)
qed

lemma adopt_rows_done:
  assumes k: "scan_keeps st0 mailbox st" "sc_reserved st = 0" and a: "adopt_rows ep mailbox s body st = (Inr adopted, st')"
  obtains us where "scan_done st0 mailbox s us st'" "starts_from adopted s us" "adopted = Complete_Rows \<Longrightarrow> cursor_completed (sc_sink st') mailbox s"
proof -
  obtain reused st1 where r: "(if body = None then on_sink (reuse_completed_mailbox mailbox s) st else (Inr False, st)) = (Inr reused, st1)"
    and rest: "(if reused then (Inr Complete_Rows, st1)
       else and_then (if body = None then on_sink (resume_mailbox_prefix mailbox s) st1 else (Inr None, st1)) (\<lambda>prefix st2.
              case prefix of
                Some (n, last_uid) \<Rightarrow> (Inr (Row_Prefix n last_uid), st2)
              | None \<Rightarrow> and_then (on_sink (sink_begin_mailbox_scan (ep_now ep (sc_conn st2)) mailbox s) st2) (\<lambda>_ st3. (Inr No_Rows, st3)))) =
       (Inr adopted, st')"
    using a unfolding adopt_rows_def and_then_Inr by blast
  show thesis
  proof (cases reused)
    case True
    then obtain k' where u: "reuse_completed_mailbox mailbox s (sc_sink st) = (Inr True, k')" and st': "st' = st\<lparr>sc_sink := k'\<rparr>" "adopted = Complete_Rows"
      using r rest by (auto simp: on_sink_Inr split: if_splits)
    show thesis by (rule reused_done [OF k u]) (use that st' in simp)
  next
    case False
    have st1: "st1 = st" using r False by (auto simp: on_sink_Inr dest!: reuse_effect split: if_splits)
    obtain prefix st2 where p: "(if body = None then on_sink (resume_mailbox_prefix mailbox s) st else (Inr None, st)) = (Inr prefix, st2)"
      and rest2: "(case prefix of
                Some (n, last_uid) \<Rightarrow> (Inr (Row_Prefix n last_uid), st2)
              | None \<Rightarrow> and_then (on_sink (sink_begin_mailbox_scan (ep_now ep (sc_conn st2)) mailbox s) st2) (\<lambda>_ st3. (Inr No_Rows, st3))) = (Inr adopted, st')"
      using rest False unfolding st1 if_not_P [OF False] and_then_Inr by blast
    show thesis
    proof (cases prefix)
      case None
      then have "st2 = st" using p by (auto simp: on_sink_Inr dest!: resume_effect split: if_splits)
      then obtain k' u where b: "sink_begin_mailbox_scan (ep_now ep (sc_conn st)) mailbox s (sc_sink st) = (Inr u, k')" "st' = st\<lparr>sc_sink := k'\<rparr>" "adopted = No_Rows"
        using rest2 None by (auto simp: and_then_Inr on_sink_Inr)
      show thesis by (rule that [of "[]"]) (use fresh_done [OF k b(1)] b in simp_all)
    next
      case (Some q)
      obtain n l where q: "q = (n, l)" by (cases q)
      obtain k' where u: "resume_mailbox_prefix mailbox s (sc_sink st) = (Inr (Some (n, l)), k')" and st': "st' = st\<lparr>sc_sink := k'\<rparr>" "adopted = Row_Prefix n l"
        using p rest2 Some q by (auto simp: on_sink_Inr split: if_splits)
      show thesis by (rule resumed_done [OF k u]) (use that st' in simp)
    qed
  qed
qed

lemma enumerate_folder_keeps: "scan_keeps st0 mailbox st \<Longrightarrow> scan_keeps st0 mailbox (snd (enumerate_folder ep mailbox s modseq body adopted st))"
  by (simp add: enumerate_folder_def Let_def folder_pages.enumeration_kept split: adopted.splits)

lemma enumerate_folder_done:
  assumes d: "scan_done st0 mailbox s us st" "starts_from adopted s us" and e: "enumerate_folder ep mailbox s modseq body adopted st = (Inr n, st')"
  obtains us' where "scan_done st0 mailbox s us' st'" "length us' = sn_exists s" "n = sn_exists s" "adopted = Complete_Rows \<Longrightarrow> st' = st"
proof -
  have v: "list_all valid_uid us" using d(1) by (simp add: scan_done_def folder_population_def)
  show thesis
  proof (cases "adopted = Complete_Rows")
    case True
    then have e': "n = sn_exists s" "st' = st" using e by (simp_all add: enumerate_folder_def Let_def)
    show thesis by (rule that [of us]) (use d True e' in simp_all)
  next
    case False
    let ?prefix = "if us = [] then None else Some (length us, last us)"
    have "enumerate_uid_pages Scan_Failed (sequence_exchange ep) (fetch_page ep mailbox s modseq body) (sn_exists s) ?prefix
        (if body \<noteq> None then body_planner else metadata_planner) st = (Inr n, st')"
      using e d(2) False by (cases adopted) (auto simp: enumerate_folder_def Let_def)
    moreover have "sorted_wrt (<) us" using d(2) False by (cases adopted) auto
    ultimately show thesis using folder_pages.enumeration_covers [OF _ d(1) _ v refl] that False by blast
  qed
qed

lemma confirm_folder_conn: "same_but_conn st (snd (confirm_folder ep quoted condstore s modseq st))"
  unfolding confirm_folder_def
  by (rule and_then_keeps [where P = "same_but_conn st"]) (simp_all add: select_folder_conn split: prod.splits)

lemma check_staged_state [simp]: "snd (check_staged mailbox s st) = st"
  by (simp add: check_staged_def split: sum.splits)

lemma record_flags_scan:
  "scan_keeps st0 mailbox st \<Longrightarrow> scan_keeps st0 mailbox (st\<lparr>sc_sink := sink_record_permanent_flags mailbox flags (sc_sink st)\<rparr>)"
  by (simp add: scan_keeps_def record_flags_keeps)

lemma record_flags_done:
  "scan_done st0 mailbox s us st \<Longrightarrow> scan_done st0 mailbox s us (st\<lparr>sc_sink := sink_record_permanent_flags mailbox flags (sc_sink st)\<rparr>)"
  unfolding scan_done_def using record_flags_scan [of st0 mailbox st flags]
  by (simp add: sink_record_permanent_flags_def record_permanent_flags_def folder_population_def folder_rows_def)

lemma scan_folder_keeps:
  assumes "scan_keeps st0 mailbox st"
  shows "scan_keeps st0 mailbox (snd (scan_folder ep mailbox body condstore st))"
  unfolding scan_folder_def
proof (rule and_then_keeps, goal_cases)
  case 1
  show ?case using assms by (simp add: same_but_conn_keeps [OF open_folder_conn])
next
  case a: (2 r st1)
  obtain quoted s modseq response where r: "r = (quoted, s, modseq, response)" by (cases r)
  show ?case unfolding r prod.case Let_def
  proof (rule and_then_keeps, goal_cases)
    case 1
    show ?case using a(2) by (simp add: adopt_rows_keeps)
  next
    case b: (2 adopted st2)
    let ?st3 = "st2\<lparr>sc_sink := sink_record_permanent_flags mailbox (parse_permanent_flags response) (sc_sink st2)\<rparr>"
    show ?case
    proof (rule and_then_keeps, goal_cases)
      case 1
      show ?case using enumerate_folder_keeps [OF record_flags_scan [OF b(2)]] by simp
    next
      case c: (2 n st4)
      have "scan_keeps st0 mailbox (snd (and_then (check_staged mailbox s st4) (\<lambda>_ st5.
          and_then (confirm_folder ep quoted condstore s modseq st5) (\<lambda>_ st6.
            and_then (if adopted = Complete_Rows then (Inr (), st6)
                      else probe (on_sink (sink_complete_mailbox (ep_now ep (sc_conn st6)) mailbox s (sn_uidnext s - 1)) st6)) (\<lambda>_ st7.
              (Inr s, st7))))))"
      proof (rule and_then_keeps, goal_cases)
        case 1
        show ?case using c(2) by simp
      next
        case d: (2 u st5)
        show ?case
        proof (rule and_then_keeps, goal_cases)
          case 1
          show ?case using d(2) by (simp add: same_but_conn_keeps [OF confirm_folder_conn])
        next
          case e: (2 w st6)
          then have "sink_keeps (sc_sink st0) mailbox (sc_sink st6)" by (simp add: scan_keeps_def)
          then have "scan_keeps st0 mailbox (snd (if adopted = Complete_Rows then (Inr (), st6)
              else probe (on_sink (sink_complete_mailbox (ep_now ep (sc_conn st6)) mailbox s (sn_uidnext s - 1)) st6)))"
            using e(2) by (simp add: on_sink_keeps complete_keeps)
          then show ?case by (rule and_then_keeps) simp
        qed
      qed
      then show ?case using c(2) by simp
    qed
  qed
qed

lemma complete_done:
  assumes d: "scan_done st0 mailbox s us st" and c: "on_sink (sink_complete_mailbox now mailbox s last_uid) st = (Inr u, st')"
  shows "scan_done st0 mailbox s us st'" "cursor_completed (sc_sink st') mailbox s"
proof -
  have k: "scan_keeps st0 mailbox st" "sc_reserved st = 0" using d by (simp_all add: scan_done_def)
  then have sound: "stage_sound (sk_stage (sc_sink st))" by (simp add: scan_keeps_def sink_keeps_def)
  have ks: "sink_keeps (sc_sink st0) mailbox (sc_sink st)" using k(1) by (simp add: scan_keeps_def)
  have k': "scan_keeps st0 mailbox st'"
    using on_sink_keeps [OF k(1), of "sink_complete_mailbox now mailbox s last_uid"] complete_keeps [OF ks] c by simp
  obtain sg where g: "complete_mailbox now (sk_side (sc_sink st)) mailbox s last_uid (sk_stage (sc_sink st)) = Inr sg"
    and st': "st' = st\<lparr>sc_sink := (sc_sink st)\<lparr>sk_stage := sg\<rparr>\<rparr>"
    using c by (auto simp: on_sink_Inr sink_complete_mailbox_def on_stage_def split: sum.splits)
  note e = complete_mailbox_sound [OF sound g]
  have "folder_rows (sk_side (sc_sink st)) mailbox sg = folder_rows (sk_side (sc_sink st)) mailbox (sk_stage (sc_sink st))"
    by (simp add: folder_rows_def e(4))
  then show "scan_done st0 mailbox s us st'" using d k' e(5) by (auto simp: scan_done_def st' folder_population_def)
  show "cursor_completed (sc_sink st') mailbox s" using e(5) by (auto simp: cursor_completed_def st')
qed

lemma scan_done_conn: "same_but_conn st st' \<Longrightarrow> scan_done st0 mailbox s us st' \<longleftrightarrow> scan_done st0 mailbox s us st"
  using same_but_conn_fields [of st st'] same_but_conn_keeps [of st st'] by (simp add: scan_done_def)

lemma scan_folder_done:
  assumes k: "scan_keeps st0 mailbox st" "sc_reserved st = 0" and f: "scan_folder ep mailbox body condstore st = (Inr s, st')"
  obtains us where "scan_done st0 mailbox s us st'" "length us = sn_exists s" "cursor_completed (sc_sink st') mailbox s"
proof -
  obtain r st1 where o: "open_folder ep mailbox condstore st = (Inr r, st1)"
    and rest: "(case r of (quoted, s, modseq, response) \<Rightarrow>
         and_then (probe (adopt_rows ep mailbox s body st1)) (\<lambda>adopted st2.
           let st3 = st2\<lparr>sc_sink := sink_record_permanent_flags mailbox (parse_permanent_flags response) (sc_sink st2)\<rparr> in
           and_then (probe (enumerate_folder ep mailbox s modseq body adopted st3)) (\<lambda>n st4.
             if n \<noteq> sn_exists s then (Inl (Probe_Failed (Enumeration_Mismatch (sn_exists s) n)), st4)
             else and_then (check_staged mailbox s st4) (\<lambda>_ st5.
               and_then (confirm_folder ep quoted condstore s modseq st5) (\<lambda>_ st6.
                 and_then (if adopted = Complete_Rows then (Inr (), st6)
                           else probe (on_sink (sink_complete_mailbox (ep_now ep (sc_conn st6)) mailbox s (sn_uidnext s - 1)) st6)) (\<lambda>_ st7.
                   (Inr s, st7))))))) = (Inr s, st')"
    using f unfolding scan_folder_def and_then_Inr probe_Inr by blast
  obtain quoted s0 modseq response where r: "r = (quoted, s0, modseq, response)" by (cases r)
  have c1: "same_but_conn st st1" using open_folder_conn [of st ep mailbox condstore] o by simp
  then have k1: "scan_keeps st0 mailbox st1" "sc_reserved st1 = 0" using k same_but_conn_keeps same_but_conn_fields by fastforce+
  obtain adopted st2 n st4 where a: "adopt_rows ep mailbox s0 body st1 = (Inr adopted, st2)"
    and e: "enumerate_folder ep mailbox s0 modseq body adopted
      (st2\<lparr>sc_sink := sink_record_permanent_flags mailbox (parse_permanent_flags response) (sc_sink st2)\<rparr>) = (Inr n, st4)"
    and rest2: "(if n \<noteq> sn_exists s0 then (Inl (Probe_Failed (Enumeration_Mismatch (sn_exists s0) n)), st4)
             else and_then (check_staged mailbox s0 st4) (\<lambda>_ st5.
               and_then (confirm_folder ep quoted condstore s0 modseq st5) (\<lambda>_ st6.
                 and_then (if adopted = Complete_Rows then (Inr (), st6)
                           else probe (on_sink (sink_complete_mailbox (ep_now ep (sc_conn st6)) mailbox s0 (sn_uidnext s0 - 1)) st6)) (\<lambda>_ st7.
                   (Inr s0, st7))))) = (Inr s, st')"
    using rest unfolding r prod.case Let_def and_then_Inr probe_Inr by blast
  obtain us where us: "scan_done st0 mailbox s0 us st2" "starts_from adopted s0 us" "adopted = Complete_Rows \<Longrightarrow> cursor_completed (sc_sink st2) mailbox s0"
    using adopt_rows_done [OF k1 a] by blast
  obtain us' where us': "scan_done st0 mailbox s0 us' st4" "length us' = sn_exists s0" "n = sn_exists s0"
    and same: "adopted = Complete_Rows \<Longrightarrow> st4 = st2\<lparr>sc_sink := sink_record_permanent_flags mailbox (parse_permanent_flags response) (sc_sink st2)\<rparr>"
    using enumerate_folder_done [OF record_flags_done [OF us(1)] us(2) e] by blast
  obtain u5 st5 u6 st6 u7 st7 where c: "check_staged mailbox s0 st4 = (Inr u5, st5)" "confirm_folder ep quoted condstore s0 modseq st5 = (Inr u6, st6)"
    and m: "(if adopted = Complete_Rows then (Inr (), st6)
      else probe (on_sink (sink_complete_mailbox (ep_now ep (sc_conn st6)) mailbox s0 (sn_uidnext s0 - 1)) st6)) = (Inr u7, st7)"
    and fin: "s = s0" "st' = st7"
    using rest2 us'(3) unfolding and_then_Inr by (auto simp: and_then_Inr)
  have st5: "st5 = st4" using check_staged_state [of mailbox s0 st4] c(1) by simp
  have c6: "same_but_conn st4 st6" using confirm_folder_conn [of st5 ep quoted condstore s0 modseq] c(2) st5 by simp
  have d6: "scan_done st0 mailbox s0 us' st6" using us'(1) scan_done_conn [OF c6] by simp
  show thesis
  proof (cases "adopted = Complete_Rows")
    case True
    have "cursor_completed (sc_sink st6) mailbox s0"
      using us(3) [OF True] same_but_conn_fields [OF c6] same [OF True]
      by (simp add: cursor_completed_def sink_record_permanent_flags_def record_permanent_flags_def)
    then show thesis using that d6 us'(2) m True fin by simp
  next
    case False
    then have o7: "on_sink (sink_complete_mailbox (ep_now ep (sc_conn st6)) mailbox s0 (sn_uidnext s0 - 1)) st6 = (Inr u7, st7)" using m by (simp add: probe_Inr)
    show thesis using that complete_done [OF d6 o7] us'(2) fin by simp
  qed
qed

lemma existing_stream_keeps:
  assumes "sink_keeps (sc_sink st) mailbox (sc_sink st)"
  shows "sink_keeps (sc_sink st) mailbox (sc_sink (snd (fetch_mailbox_with_existing_stream ep mailbox body condstore st)))"
    and "sc_estimated_bytes (snd (fetch_mailbox_with_existing_stream ep mailbox body condstore st)) = sc_estimated_bytes st"
proof -
  let ?st = "st\<lparr>sc_page_number := 0, sc_reserved := 0\<rparr>"
  obtain r st1 where f: "scan_folder ep mailbox body condstore ?st = (r, st1)" by fastforce
  have k0: "scan_keeps ?st mailbox ?st" using assms by (simp add: scan_keeps_def)
  then have k: "scan_keeps ?st mailbox st1" using scan_folder_keeps [of ?st mailbox ?st ep body condstore] f by simp
  show "sink_keeps (sc_sink st) mailbox (sc_sink (snd (fetch_mailbox_with_existing_stream ep mailbox body condstore st)))"
    using k f by (cases r) (simp_all add: fetch_mailbox_with_existing_stream_def drop_reservation_def scan_keeps_def)
  show "sc_estimated_bytes (snd (fetch_mailbox_with_existing_stream ep mailbox body condstore st)) = sc_estimated_bytes st"
  proof (cases r)
    case (Inl e)
    then show ?thesis using k f by (simp add: fetch_mailbox_with_existing_stream_def drop_reservation_def scan_keeps_def)
  next
    case (Inr s)
    then have "sc_reserved st1 = 0" using scan_folder_done [OF k0 _ f [unfolded Inr]] by (auto simp: scan_done_def)
    then show ?thesis using k f Inr by (simp add: fetch_mailbox_with_existing_stream_def scan_keeps_def)
  qed
qed

text \<open>The folder holds every message of the snapshot that its cursor has completed.\<close>

definition folder_complete :: "sink \<Rightarrow> str \<Rightarrow> nat \<Rightarrow> bool" where
  "folder_complete k mailbox n \<longleftrightarrow>
     (\<exists>s us. n = sn_exists s \<and> cursor_completed k mailbox s \<and> length us = n \<and>
             folder_population (sk_side k) mailbox (sn_uidvalidity s) (sk_stage k) us \<and>
             length (folder_rows (sk_side k) mailbox (sk_stage k)) = n)"

lemma existing_stream_complete:
  assumes "sink_keeps (sc_sink st) mailbox (sc_sink st)" "fetch_mailbox_with_existing_stream ep mailbox body condstore st = (Inr n, st')"
  shows "folder_complete (sc_sink st') mailbox n"
proof -
  let ?st = "st\<lparr>sc_page_number := 0, sc_reserved := 0\<rparr>"
  obtain s st1 where f: "scan_folder ep mailbox body condstore ?st = (Inr s, st1)" and r: "n = sn_exists s" "st' = st1\<lparr>sc_reserved := 0\<rparr>"
    using assms(2) by (auto simp: fetch_mailbox_with_existing_stream_def split: prod.splits sum.splits)
  have k: "scan_keeps ?st mailbox ?st" using assms(1) by (simp add: scan_keeps_def)
  obtain us where us: "scan_done ?st mailbox s us st1" "length us = sn_exists s" "cursor_completed (sc_sink st1) mailbox s"
    using scan_folder_done [OF k _ f] by auto
  have sound: "stage_sound (sk_stage (sc_sink st1))" and p: "folder_population (sk_side (sc_sink st1)) mailbox (sn_uidvalidity s) (sk_stage (sc_sink st1)) us"
    using us(1) unfolding scan_done_def scan_keeps_def sink_keeps_def by blast+
  show ?thesis using us(2,3) p population_length(1) [OF sound p] r
    unfolding folder_complete_def by (intro exI [of _ s] exI [of _ us]) simp
qed

section \<open>A mailbox with one message\<close>

text \<open>A server that answers with prepared responses, for the witnesses.\<close>

definition demo_select :: "str \<Rightarrow> str" where
  "demo_select tag =
     ''* 1 EXISTS'' @ CRLF @ ''* OK [UIDVALIDITY 7]'' @ CRLF @ ''* OK [UIDNEXT 10]'' @ CRLF @ tag @ '' OK'' @ CRLF"

definition demo_endpoint :: "transport_error option \<Rightarrow> str list endpoint" where
  "demo_endpoint interrupt =
     \<lparr>ep_check = \<lambda>_. interrupt,
      ep_send = \<lambda>_ responses. (case responses of [] \<Rightarrow> (([], None), []) | r # rs \<Rightarrow> (([r], None), rs)),
      ep_now = \<lambda>_. ''now'', ep_available = \<lambda>_. None, ep_sha256 = \<lambda>s. s\<rparr>"

definition demo_responses :: "str list" where
  "demo_responses =
     [demo_select ''v001'', ''* 1 FETCH (UID 9)'' @ CRLF @ ''s002 OK'' @ CRLF,
      ''* 1 FETCH (UID 9 RFC822.SIZE 5)'' @ CRLF @ ''v003 OK'' @ CRLF, demo_select ''v004'']"

definition demo_start :: "str list scan_state" where
  "demo_start =
     \<lparr>sc_conn = demo_responses, sc_sink = new_sink (empty_stage False) Source_Side, sc_page_number = 0, sc_estimated_bytes = 0,
      sc_reserved = 0, sc_body_consumed = 0\<rparr>"

definition demo_end :: "str list scan_state" where
  "demo_end = snd (fetch_mailbox_with_existing_stream (demo_endpoint None) ''INBOX'' None False demo_start)"

lemma demo_scan: "fetch_mailbox_with_existing_stream (demo_endpoint None) ''INBOX'' None False demo_start = (Inr 1, demo_end)"
proof -
  have "fst (fetch_mailbox_with_existing_stream (demo_endpoint None) ''INBOX'' None False demo_start) = Inr 1" by code_simp
  then show ?thesis unfolding demo_end_def by (metis prod.collapse)
qed

lemma demo_start_sound:
  "stage_sound (sk_stage (sc_sink demo_start))" "sk_count (sc_sink demo_start) \<le> message_fetch_limit (stg_durable (sk_stage (sc_sink demo_start)))"
  by (simp_all add: demo_start_def new_sink_def stage_sound_empty)

section \<open>Properties\<close>

text \<open>
  C16: a folder scan that succeeds has staged every message of the selected snapshot, whatever the server sent: it
  returns the snapshot's message count, the folder's cursor is completed with that snapshot, its rows are that many
  messages with distinct valid UIDs of the snapshot's UIDVALIDITY, and all other folders are unchanged. This holds for
  a fresh scan, for one that continues a staged prefix and for one that reuses completed rows.
\<close>

theorem scan_stages_every_message:
  assumes "stage_sound (sk_stage (sc_sink st))" "sk_count (sc_sink st) \<le> message_fetch_limit (stg_durable (sk_stage (sc_sink st)))"
    and "fetch_mailbox_with_existing_stream ep mailbox body condstore st = (Inr n, st')"
  shows "\<exists>s us. n = sn_exists s \<and> cursor_completed (sc_sink st') mailbox s \<and> length us = n \<and>
     folder_population (sk_side (sc_sink st)) mailbox (sn_uidvalidity s) (sk_stage (sc_sink st')) us \<and>
     length (folder_rows (sk_side (sc_sink st)) mailbox (sk_stage (sc_sink st'))) = n \<and>
     delete_mailbox (sk_side (sc_sink st)) mailbox (sk_stage (sc_sink st')) = delete_mailbox (sk_side (sc_sink st)) mailbox (sk_stage (sc_sink st))"
proof -
  have k: "sink_keeps (sc_sink st) mailbox (sc_sink st)" using assms(1,2) by (simp add: sink_keeps_def)
  have k': "sink_keeps (sc_sink st) mailbox (sc_sink st')" using existing_stream_keeps(1) [OF k, of ep body condstore] assms(3) by simp
  show ?thesis using existing_stream_complete [OF k assms(3)] k' by (simp add: folder_complete_def sink_keeps_def)
qed

theorem scan_stages_every_message_witness:
  "\<exists>s us. 1 = sn_exists s \<and> cursor_completed (sc_sink demo_end) ''INBOX'' s \<and> length us = 1 \<and>
     folder_population Source_Side ''INBOX'' (sn_uidvalidity s) (sk_stage (sc_sink demo_end)) us \<and>
     length (folder_rows Source_Side ''INBOX'' (sk_stage (sc_sink demo_end))) = 1 \<and>
     delete_mailbox Source_Side ''INBOX'' (sk_stage (sc_sink demo_end)) = delete_mailbox Source_Side ''INBOX'' (empty_stage False)"
proof -
  have "sk_side (sc_sink demo_start) = Source_Side" "sk_stage (sc_sink demo_start) = empty_stage False"
    by (simp_all add: demo_start_def new_sink_def)
  then show ?thesis using scan_stages_every_message [OF demo_start_sound demo_scan] by simp
qed

text \<open>
  C17: whatever the server sends and wherever a folder scan stops, it leaves a sound stage: every completed cursor has
  exactly as many rows as its snapshot counted. It changes no other folder, returns all bytes it had reserved from the
  shared admission budget, and keeps the number of staged messages within the limit of the stage.
\<close>

theorem scan_never_corrupts:
  assumes "stage_sound (sk_stage (sc_sink st))" "sk_count (sc_sink st) \<le> message_fetch_limit (stg_durable (sk_stage (sc_sink st)))"
    and "snd (fetch_mailbox_with_existing_stream ep mailbox body condstore st) = st'"
  shows "stage_sound (sk_stage (sc_sink st')) \<and> sc_estimated_bytes st' = sc_estimated_bytes st \<and>
     delete_mailbox (sk_side (sc_sink st)) mailbox (sk_stage (sc_sink st')) = delete_mailbox (sk_side (sc_sink st)) mailbox (sk_stage (sc_sink st)) \<and>
     sk_count (sc_sink st') \<le> message_fetch_limit (stg_durable (sk_stage (sc_sink st)))"
  using existing_stream_keeps [of st mailbox ep body condstore] assms by (simp add: sink_keeps_def)

theorem scan_never_corrupts_witness:
  "stage_sound (sk_stage (sc_sink demo_end)) \<and> sc_estimated_bytes demo_end = sc_estimated_bytes demo_start \<and>
     delete_mailbox (sk_side (sc_sink demo_start)) ''INBOX'' (sk_stage (sc_sink demo_end)) =
       delete_mailbox (sk_side (sc_sink demo_start)) ''INBOX'' (sk_stage (sc_sink demo_start)) \<and>
     sk_count (sc_sink demo_end) \<le> message_fetch_limit (stg_durable (sk_stage (sc_sink demo_start)))"
  by (rule scan_never_corrupts [OF demo_start_sound demo_end_def [symmetric]])

end
