(* ===== verification/Account_Scan.thy ===== *)
theory Account_Scan
  imports Scan_Safety
begin

text \<open>
  The scan of an account: the retries and reconnects around a folder and the loop over the folders of
  \<^verbatim>\<open>fetch_tls_account_messages_with_sink\<close> in \<^verbatim>\<open>imap_probe.rs\<close>. Connecting, authenticating and reading the LIST response
  happen before the loop and are parameters, and so is the text that the code formats for an error.
\<close>

section \<open>Classes of errors\<close>

datatype mailbox_fetch_error =
    Changed_Error "change option"
  | Control_Error str
  | SessionFatal_Error str
  | Folder_Error str

definition SESSION_MARKERS :: "str list" where
  "SESSION_MARKERS =
     [''connection closed'', ''connection reset'', ''broken pipe'', ''timed out'', ''timeout'', ''tls'', ''could not read'', ''could not write'']"

definition classify_mailbox_fetch_error :: "str \<Rightarrow> mailbox_fetch_error" where
  "classify_mailbox_fetch_error error =
     (let lower = to_ascii_lowercase error in
      if contains ''cancelled'' lower \<or> contains ''execution deadline'' lower \<or> contains ''deadline exceeded'' lower then Control_Error error
      else if list_ex (\<lambda>marker. contains marker lower) SESSION_MARKERS then SessionFatal_Error error
      else Folder_Error error)"

fun mailbox_error :: "(probe_error \<Rightarrow> str) \<Rightarrow> fetch_failure \<Rightarrow> mailbox_fetch_error" where
  "mailbox_error describe (Mailbox_Changed c) = Changed_Error (Some c)"
| "mailbox_error describe (Probe_Failed e) = classify_mailbox_fetch_error (describe e)"

section \<open>Retries\<close>

definition MAX_MAILBOX_STABILITY_ATTEMPTS :: nat where
  "MAX_MAILBOX_STABILITY_ATTEMPTS = 2"

definition rollback_scan :: "str \<Rightarrow> 'c scan_state \<Rightarrow> 'c scan_state" where
  "rollback_scan mailbox st = st\<lparr>sc_sink := rollback_mailbox mailbox (sc_sink st)\<rparr>"

fun stability_attempts ::
  "(probe_error \<Rightarrow> str) \<Rightarrow> 'c endpoint \<Rightarrow> str \<Rightarrow> body_hash_options option \<Rightarrow> bool \<Rightarrow> nat \<Rightarrow> change option \<Rightarrow> 'c scan_state \<Rightarrow>
     (mailbox_fetch_error + nat) \<times> 'c scan_state" where
  "stability_attempts describe ep mailbox body condstore 0 last_error st = (Inl (Changed_Error last_error), st)"
| "stability_attempts describe ep mailbox body condstore (Suc attempts) last_error st =
     (case fetch_mailbox_with_existing_stream ep mailbox body condstore st of
        (Inr n, st') \<Rightarrow> (Inr n, st')
      | (Inl (Mailbox_Changed c), st') \<Rightarrow>
          stability_attempts describe ep mailbox body condstore attempts (Some c) (rollback_scan mailbox st')
      | (Inl (Probe_Failed e), st') \<Rightarrow> (Inl (mailbox_error describe (Probe_Failed e)), rollback_scan mailbox st'))"

definition fetch_mailbox_with_stability_retry ::
  "(probe_error \<Rightarrow> str) \<Rightarrow> 'c endpoint \<Rightarrow> str \<Rightarrow> body_hash_options option \<Rightarrow> bool \<Rightarrow> 'c scan_state \<Rightarrow>
     (mailbox_fetch_error + nat) \<times> 'c scan_state" where
  "fetch_mailbox_with_stability_retry describe ep mailbox body condstore st =
     stability_attempts describe ep mailbox body condstore MAX_MAILBOX_STABILITY_ATTEMPTS None st"

definition MAX_CONSECUTIVE_SESSION_RECONNECTS :: nat where
  "MAX_CONSECUTIVE_SESSION_RECONNECTS = 3"

text \<open>The result carries whether CONDSTORE is enabled on the connection now in use and the reconnects spent so far.\<close>

function fetch_mailbox_with_session_reconnect ::
  "(probe_error \<Rightarrow> str) \<Rightarrow> 'c endpoint \<Rightarrow> ('c \<Rightarrow> (str + bool) \<times> 'c) \<Rightarrow> str \<Rightarrow> body_hash_options option \<Rightarrow> bool \<Rightarrow> nat \<Rightarrow> 'c scan_state \<Rightarrow>
     (mailbox_fetch_error + nat) \<times> bool \<times> nat \<times> 'c scan_state" where
  "fetch_mailbox_with_session_reconnect describe ep reconnect mailbox body condstore reconnects st =
     (case fetch_mailbox_with_stability_retry describe ep mailbox body condstore st of
        (Inl (SessionFatal_Error e), st') \<Rightarrow>
          if reconnects < MAX_CONSECUTIVE_SESSION_RECONNECTS then
            (case reconnect (sc_conn st') of
               (Inl e', c) \<Rightarrow>
                 (Inl (SessionFatal_Error (e @ ''; reconnect attempt '' @ nat_to_string (reconnects + 1) @ '' failed: '' @ e')),
                  condstore, reconnects + 1, st'\<lparr>sc_conn := c\<rparr>)
             | (Inr condstore', c) \<Rightarrow>
                 fetch_mailbox_with_session_reconnect describe ep reconnect mailbox body condstore' (reconnects + 1) (st'\<lparr>sc_conn := c\<rparr>))
          else (Inl (SessionFatal_Error e), condstore, reconnects, st')
      | (r, st') \<Rightarrow> (r, condstore, reconnects, st'))"
  by pat_completeness auto

termination
  by (relation "measure (\<lambda>(describe, ep, reconnect, mailbox, body, condstore, reconnects, st). MAX_CONSECUTIVE_SESSION_RECONNECTS - reconnects)")
    auto

declare fetch_mailbox_with_session_reconnect.simps [simp del]

section \<open>The folders of an account\<close>

datatype account_error =
    No_Selectable_Folder
  | Unparseable_Folder
  | Every_Folder_Excluded
  | Account_Interrupted transport_error
  | Account_Control str
  | Account_Limit nat
  | Folders_Incomplete "(str \<times> mailbox_fetch_error) list" nat

definition MAX_FOLDER_FAILURE_DETAILS :: nat where
  "MAX_FOLDER_FAILURE_DETAILS = 16"

text \<open>The folders to scan: the LIST response as wire names with their selectability and the counts that its reader kept.\<close>

definition account_mailboxes :: "nat \<Rightarrow> nat \<Rightarrow> (str \<times> bool) list \<Rightarrow> str set \<Rightarrow> account_error + str list" where
  "account_mailboxes mailbox_count selectable_count details excluded =
     (let names = map fst (filter snd details) in
      if mailbox_count = 0 \<or> names = [] then Inl No_Selectable_Folder
      else if selectable_count \<noteq> length names then Inl Unparseable_Folder
      else let kept = filter (\<lambda>m. m \<notin> excluded) names in
           if kept = [] then Inl Every_Folder_Excluded else Inr (remdups_adj (sort kept)))"

definition note_failure :: "str \<Rightarrow> mailbox_fetch_error \<Rightarrow> (str \<times> mailbox_fetch_error) list \<times> nat \<Rightarrow> (str \<times> mailbox_fetch_error) list \<times> nat" where
  "note_failure mailbox e failures =
     (if length (fst failures) < MAX_FOLDER_FAILURE_DETAILS then fst failures @ [(mailbox, e)] else fst failures,
      saturating_add_u64 (snd failures) 1)"

fun scan_mailboxes ::
  "(str \<Rightarrow> probe_error \<Rightarrow> str) \<Rightarrow> 'c endpoint \<Rightarrow> ('c \<Rightarrow> (str + bool) \<times> 'c) \<Rightarrow> body_hash_options option \<Rightarrow> str list \<Rightarrow> bool \<Rightarrow> nat \<Rightarrow>
     nat \<Rightarrow> (str \<times> mailbox_fetch_error) list \<times> nat \<Rightarrow> 'c scan_state \<Rightarrow> (account_error + nat \<times> (str \<times> mailbox_fetch_error) list \<times> nat) \<times> 'c scan_state" where
  "scan_mailboxes describe ep reconnect body [] condstore reconnects total_exists failures st = (Inr (total_exists, failures), st)"
| "scan_mailboxes describe ep reconnect body (mailbox # mailboxes) condstore reconnects total_exists failures st =
     (case ep_check ep (sc_conn st) of
        Some e \<Rightarrow> (Inl (Account_Interrupted e), st)
      | None \<Rightarrow>
          (case fetch_mailbox_with_session_reconnect (describe mailbox) ep reconnect mailbox body condstore reconnects st of
             (Inr n, condstore', _, st') \<Rightarrow>
               let limit = message_fetch_limit (stg_durable (sk_stage (sc_sink st'))) in
               if sk_count (sc_sink st') > limit then (Inl (Account_Limit limit), st')
               else scan_mailboxes describe ep reconnect body mailboxes condstore' 0 (saturating_add_u64 total_exists n) failures st'
           | (Inl (Control_Error e), _, _, st') \<Rightarrow> (Inl (Account_Control e), st')
           | (Inl (SessionFatal_Error e), _, _, st') \<Rightarrow> (Inr (total_exists, note_failure mailbox (SessionFatal_Error e) failures), st')
           | (Inl e, condstore', reconnects', st') \<Rightarrow>
               scan_mailboxes describe ep reconnect body mailboxes condstore' reconnects' total_exists (note_failure mailbox e failures) st'))"

definition fetch_account_messages ::
  "(str \<Rightarrow> probe_error \<Rightarrow> str) \<Rightarrow> 'c endpoint \<Rightarrow> ('c \<Rightarrow> (str + bool) \<times> 'c) \<Rightarrow> body_hash_options option \<Rightarrow> bool \<Rightarrow> nat \<Rightarrow> nat \<Rightarrow>
     (str \<times> bool) list \<Rightarrow> str set \<Rightarrow> 'c scan_state \<Rightarrow> (account_error + str list \<times> nat) \<times> 'c scan_state" where
  "fetch_account_messages describe ep reconnect body condstore mailbox_count selectable_count details excluded st =
     (case account_mailboxes mailbox_count selectable_count details excluded of
        Inl e \<Rightarrow> (Inl e, st)
      | Inr mailboxes \<Rightarrow>
          let st1 = st\<lparr>sc_sink := sink_retain_mailboxes (set mailboxes) (sc_sink st)\<rparr> in
          and_then (scan_mailboxes describe ep reconnect body mailboxes condstore 0 0 ([], 0) st1) (\<lambda>r st2.
            case r of (total_exists, failures, failure_count) \<Rightarrow>
              if failures \<noteq> [] then (Inl (Folders_Incomplete failures failure_count), st2)
              else (Inr (mailboxes, total_exists), st2)))"

section \<open>Folders are independent\<close>

lemma delete_twice: "delete_mailbox side mailbox (delete_mailbox side mailbox st) = delete_mailbox side mailbox st"
  by (simp add: delete_mailbox_def drop_folders_def)

lemma delete_durable: "stg_durable (delete_mailbox side mailbox st) = stg_durable st"
  by (simp add: delete_mailbox_def drop_folders_def)

lemma rollback_fields:
  "sk_stage (rollback_mailbox mailbox k) = delete_mailbox (sk_side k) mailbox (sk_stage k)" "sk_side (rollback_mailbox mailbox k) = sk_side k"
  "sk_count (rollback_mailbox mailbox k) \<le> sk_count k"
  by (simp_all add: rollback_mailbox_def Let_def reset_mailbox_count_def split: option.splits)

lemma rollback_keeps: "sink_keeps k0 mailbox k \<Longrightarrow> sink_keeps k0 mailbox (rollback_mailbox mailbox k)"
  using rollback_fields [of mailbox k] stage_sound_drop [of "sk_stage k" "\<lambda>f. f = (sk_side k, mailbox)"]
  unfolding sink_keeps_def by (auto simp: delete_twice delete_durable simp flip: delete_mailbox_def)

lemma sink_keeps_trans: "sink_keeps k0 mailbox k1 \<Longrightarrow> sink_keeps k1 mailbox k2 \<Longrightarrow> sink_keeps k0 mailbox k2"
  by (simp add: sink_keeps_def)

lemma sink_keeps_self: "sink_keeps k0 mailbox k \<Longrightarrow> sink_keeps k mailbox k"
  by (simp add: sink_keeps_def)

lemma stability_keeps:
  "sink_keeps k0 mailbox (sc_sink st) \<Longrightarrow> sink_keeps k0 mailbox (sc_sink (snd (stability_attempts describe ep mailbox body condstore n c st)))"
proof (induction n arbitrary: c st)
  case (Suc n)
  obtain r st' where f: "fetch_mailbox_with_existing_stream ep mailbox body condstore st = (r, st')" by fastforce
  have k: "sink_keeps k0 mailbox (sc_sink st')"
    using existing_stream_keeps(1) [OF sink_keeps_self [OF Suc.prems], of ep body condstore] f Suc.prems by (auto intro: sink_keeps_trans)
  then have "sink_keeps k0 mailbox (sc_sink (rollback_scan mailbox st'))" by (simp add: rollback_scan_def rollback_keeps)
  then show ?case using Suc.IH k f by (simp split: sum.splits fetch_failure.splits)
qed simp

lemma stability_complete:
  "sink_keeps k0 mailbox (sc_sink st) \<Longrightarrow> stability_attempts describe ep mailbox body condstore n c st = (Inr m, st') \<Longrightarrow>
     folder_complete (sc_sink st') mailbox m"
proof (induction n arbitrary: c st)
  case (Suc n)
  obtain r st1 where f: "fetch_mailbox_with_existing_stream ep mailbox body condstore st = (r, st1)" by fastforce
  have k: "sink_keeps k0 mailbox (sc_sink (rollback_scan mailbox st1))"
    using existing_stream_keeps(1) [OF sink_keeps_self [OF Suc.prems(1)], of ep body condstore] f Suc.prems(1)
    by (auto simp: rollback_scan_def intro!: rollback_keeps intro: sink_keeps_trans)
  show ?case
  proof (cases r)
    case (Inr x)
    then show ?thesis using f Suc.prems existing_stream_complete [OF sink_keeps_self [OF Suc.prems(1)], of ep body condstore] by simp
  next
    case (Inl e)
    then show ?thesis using f Suc.prems(2) Suc.IH [OF k] by (cases e) auto
  qed
qed simp

text \<open>A failed folder has been rolled back.\<close>

lemma stability_failed:
  "sink_keeps k0 mailbox (sc_sink st) \<Longrightarrow> n > 0 \<Longrightarrow> stability_attempts describe ep mailbox body condstore n c st = (Inl e, st') \<Longrightarrow>
     sk_stage (sc_sink st') = delete_mailbox (sk_side k0) mailbox (sk_stage k0)"
proof (induction n arbitrary: c st)
  case (Suc n)
  obtain r st1 where f: "fetch_mailbox_with_existing_stream ep mailbox body condstore st = (r, st1)" by fastforce
  have k1: "sink_keeps k0 mailbox (sc_sink st1)"
    using existing_stream_keeps(1) [OF sink_keeps_self [OF Suc.prems(1)], of ep body condstore] f Suc.prems(1) by (auto intro: sink_keeps_trans)
  have k: "sink_keeps k0 mailbox (sc_sink (rollback_scan mailbox st1))" using k1 by (simp add: rollback_scan_def rollback_keeps)
  have g: "sk_stage (sc_sink (rollback_scan mailbox st1)) = delete_mailbox (sk_side k0) mailbox (sk_stage k0)"
    using k1 by (simp add: rollback_scan_def rollback_fields sink_keeps_def)
  obtain x where x: "r = Inl x" using f Suc.prems(3) by (cases r) auto
  show ?case
  proof (cases x)
    case (Mailbox_Changed d)
    then have "stability_attempts describe ep mailbox body condstore n (Some d) (rollback_scan mailbox st1) = (Inl e, st')" using f x Suc.prems(3) by simp
    then show ?thesis using Suc.IH [OF k] g by (cases n) auto
  next
    case (Probe_Failed p)
    then show ?thesis using f x Suc.prems(3) g by auto
  qed
qed simp

lemma reconnect_effect:
  "sink_keeps k0 mailbox (sc_sink st) \<Longrightarrow>
     fetch_mailbox_with_session_reconnect describe ep reconnect mailbox body condstore reconnects st = (r, condstore', reconnects', st') \<Longrightarrow>
     sink_keeps k0 mailbox (sc_sink st') \<and> (\<forall>n. r = Inr n \<longrightarrow> folder_complete (sc_sink st') mailbox n)"
proof (induction "MAX_CONSECUTIVE_SESSION_RECONNECTS - reconnects" arbitrary: condstore reconnects st rule: less_induct)
  case less
  obtain q st1 where f: "fetch_mailbox_with_stability_retry describe ep mailbox body condstore st = (q, st1)" by fastforce
  have k1: "sink_keeps k0 mailbox (sc_sink st1)" and c1: "\<And>n. q = Inr n \<Longrightarrow> folder_complete (sc_sink st1) mailbox n"
    using stability_keeps [OF less.prems(1), of describe ep body condstore MAX_MAILBOX_STABILITY_ATTEMPTS None]
      stability_complete [OF less.prems(1), of describe ep body condstore MAX_MAILBOX_STABILITY_ATTEMPTS None _ st1] f
    by (simp_all add: fetch_mailbox_with_stability_retry_def)
  note eq = fetch_mailbox_with_session_reconnect.simps [of describe ep reconnect mailbox body condstore reconnects st]
  show ?case
  proof (cases "\<exists>e. q = Inl (SessionFatal_Error e) \<and> reconnects < MAX_CONSECUTIVE_SESSION_RECONNECTS")
    case True
    then obtain e where q: "q = Inl (SessionFatal_Error e)" and lt: "reconnects < MAX_CONSECUTIVE_SESSION_RECONNECTS" by blast
    obtain x c where x: "reconnect (sc_conn st1) = (x, c)" by fastforce
    show ?thesis
    proof (cases x)
      case (Inl e')
      then show ?thesis using less.prems(2) f q lt x k1 unfolding eq by auto
    next
      case (Inr cs)
      have "fetch_mailbox_with_session_reconnect describe ep reconnect mailbox body cs (reconnects + 1) (st1\<lparr>sc_conn := c\<rparr>) = (r, condstore', reconnects', st')"
        using less.prems(2) f q lt x Inr unfolding eq by simp
      then show ?thesis by (rule less.hyps [rotated 2]) (use lt k1 in simp_all)
    qed
  next
    case False
    have "(r, condstore', reconnects', st') = (q, condstore, reconnects, st1)"
      using less.prems(2) f False unfolding eq by (auto split: sum.splits mailbox_fetch_error.splits)
    then show ?thesis using k1 c1 by simp
  qed
qed

section \<open>The loop over the folders\<close>

definition account_keeps :: "(folder_key \<Rightarrow> bool) \<Rightarrow> sink \<Rightarrow> sink \<Rightarrow> bool" where
  "account_keeps changed k0 k \<longleftrightarrow>
     sk_side k = sk_side k0 \<and> stg_durable (sk_stage k) = stg_durable (sk_stage k0) \<and>
     drop_folders changed (sk_stage k) = drop_folders changed (sk_stage k0) \<and>
     stage_sound (sk_stage k) \<and> sk_count k \<le> message_fetch_limit (stg_durable (sk_stage k0))"

lemma drop_drop: "drop_folders p (drop_folders q st) = drop_folders (\<lambda>f. p f \<or> q f) st"
  by (simp add: drop_folders_def conj_commute)

lemma drop_more:
  assumes "drop_folders p st' = drop_folders p st" "\<And>f. p f \<Longrightarrow> q f"
  shows "drop_folders q st' = drop_folders q st"
proof -
  have "(\<lambda>f. q f \<or> p f) = q" using assms(2) by auto
  then show ?thesis using arg_cong [OF assms(1), of "drop_folders q"] by (simp add: drop_drop)
qed

lemma account_keeps_trans:
  assumes "account_keeps p k0 k1" "account_keeps q k1 k2" "\<And>f. p f \<Longrightarrow> r f" "\<And>f. q f \<Longrightarrow> r f"
  shows "account_keeps r k0 k2"
  using assms(1,2) drop_more [of p "sk_stage k1" "sk_stage k0" r, OF _ assms(3)] drop_more [of q "sk_stage k2" "sk_stage k1" r, OF _ assms(4)]
  by (simp add: account_keeps_def)

lemma sink_account: "sink_keeps k0 mailbox k \<longleftrightarrow> account_keeps (\<lambda>f. f = (sk_side k0, mailbox)) k0 k"
  by (simp add: sink_keeps_def account_keeps_def delete_mailbox_def)

lemma account_keeps_self: "account_keeps p k0 k \<Longrightarrow> account_keeps q k k"
  by (simp add: account_keeps_def)

lemma scan_mailboxes_keeps:
  "account_keeps p (sc_sink st) (sc_sink st) \<Longrightarrow>
     account_keeps (\<lambda>f. fst f = sk_side (sc_sink st) \<and> snd f \<in> set mailboxes) (sc_sink st)
       (sc_sink (snd (scan_mailboxes describe ep reconnect body mailboxes condstore reconnects n failures st)))"
proof (induction mailboxes arbitrary: p condstore reconnects n failures st)
  case (Cons mailbox mailboxes)
  let ?P = "\<lambda>f. fst f = sk_side (sc_sink st) \<and> snd f \<in> set (mailbox # mailboxes)"
  obtain r cs rc st1 where f: "fetch_mailbox_with_session_reconnect (describe mailbox) ep reconnect mailbox body condstore reconnects st = (r, cs, rc, st1)"
    by (metis prod_cases4)
  have s: "sink_keeps (sc_sink st) mailbox (sc_sink st)" using account_keeps_self [OF Cons.prems] by (simp add: sink_account)
  have k1: "account_keeps (\<lambda>f. f = (sk_side (sc_sink st), mailbox)) (sc_sink st) (sc_sink st1)"
    using reconnect_effect [OF s f] by (simp add: sink_account)
  have here: "account_keeps ?P (sc_sink st) (sc_sink st)" "account_keeps ?P (sc_sink st) (sc_sink st1)"
    by (rule account_keeps_self [OF Cons.prems]) (rule account_keeps_trans [OF account_keeps_self [OF Cons.prems, of "\<lambda>_. False"] k1], simp_all)
  have "sk_side (sc_sink st1) = sk_side (sc_sink st)" using k1 by (simp add: account_keeps_def)
  then have there: "account_keeps ?P (sc_sink st) (sc_sink (snd (scan_mailboxes describe ep reconnect body mailboxes c' r' n' fl' st1)))" for c' r' n' fl'
    by (intro account_keeps_trans [OF k1 Cons.IH [OF account_keeps_self [OF k1, of "\<lambda>_. False"]]]) simp_all
  show ?case
  proof (cases "ep_check ep (sc_conn st)")
    case None
    show ?thesis
    proof (cases r)
      case (Inl e)
      then show ?thesis using None f here there by (cases e) simp_all
    next
      case (Inr m)
      then show ?thesis using None f here there by (simp add: Let_def)
    qed
  qed (use here in simp)
qed (simp add: account_keeps_def)

lemma complete_frame:
  assumes "account_keeps changed k0 k" "\<not> changed (sk_side k0, mailbox)"
  shows "folder_rows (sk_side k) mailbox (sk_stage k) = folder_rows (sk_side k0) mailbox (sk_stage k0)"
    and "folder_complete k mailbox n \<longleftrightarrow> folder_complete k0 mailbox n"
proof -
  have side: "sk_side k = sk_side k0" and d: "drop_folders changed (sk_stage k) = drop_folders changed (sk_stage k0)"
    using assms(1) by (simp_all add: account_keeps_def)
  show r: "folder_rows (sk_side k) mailbox (sk_stage k) = folder_rows (sk_side k0) mailbox (sk_stage k0)"
    using arg_cong [OF d, of "folder_rows (sk_side k0) mailbox"] assms(2) by (simp add: folder_rows_drop side)
  have c: "map_of (stg_cursors (sk_stage k)) (sk_side k, mailbox) = map_of (stg_cursors (sk_stage k0)) (sk_side k0, mailbox)"
    using arg_cong [OF d, of "\<lambda>st. map_of (stg_cursors st) (sk_side k0, mailbox)"] assms(2) by (simp add: cursor_drop side)
  show "folder_complete k mailbox n \<longleftrightarrow> folder_complete k0 mailbox n"
    unfolding folder_complete_def cursor_completed_def folder_population_def r c ..
qed

definition rows_in :: "sink \<Rightarrow> str list \<Rightarrow> nat" where
  "rows_in k mailboxes = sum_list (map (\<lambda>m. length (folder_rows (sk_side k) m (sk_stage k))) mailboxes)"

lemma note_failure_nonempty: "fst (note_failure mailbox e failures) \<noteq> []"
  by (cases failures) (auto simp: note_failure_def MAX_FOLDER_FAILURE_DETAILS_def)

lemma failures_grow:
  "scan_mailboxes describe ep reconnect body mailboxes condstore reconnects n failures st = (Inr (m, failures'), st') \<Longrightarrow>
     fst failures \<noteq> [] \<Longrightarrow> fst failures' \<noteq> []"
proof (induction mailboxes arbitrary: condstore reconnects n failures st)
  case (Cons mailbox mailboxes)
  obtain r cs rc st1 where f: "fetch_mailbox_with_session_reconnect (describe mailbox) ep reconnect mailbox body condstore reconnects st = (r, cs, rc, st1)"
    by (metis prod_cases4)
  have c: "ep_check ep (sc_conn st) = None" using Cons.prems(1) by (cases "ep_check ep (sc_conn st)") simp_all
  show ?case
  proof (cases r)
    case (Inl e)
    note nn = note_failure_nonempty [of mailbox e failures]
    show ?thesis by (cases e) (use Cons.prems f c Cons.IH [OF _ nn] nn Inl in auto)
  next
    case (Inr m)
    then show ?thesis using Cons.prems f c Cons.IH by (simp add: Let_def split: if_splits)
  qed
qed auto

text \<open>A folder that fails shows up in the failures, so a loop without failures has completed every folder.\<close>

lemma scan_mailboxes_complete:
  assumes "account_keeps p (sc_sink st) (sc_sink st)" "distinct mailboxes" "n \<le> u64_max"
    and "scan_mailboxes describe ep reconnect body mailboxes condstore reconnects n failures st = (Inr (m, [], k), st')"
  shows "list_all (\<lambda>mailbox. \<exists>i. folder_complete (sc_sink st') mailbox i) mailboxes \<and> m = min (n + rows_in (sc_sink st') mailboxes) u64_max"
  using assms
proof (induction mailboxes arbitrary: p condstore reconnects n failures st)
  case Nil
  then show ?case by (simp add: rows_in_def)
next
  case (Cons mailbox mailboxes)
  obtain r cs rc st1 where f: "fetch_mailbox_with_session_reconnect (describe mailbox) ep reconnect mailbox body condstore reconnects st = (r, cs, rc, st1)"
    by (metis prod_cases4)
  have c: "ep_check ep (sc_conn st) = None" using Cons.prems(4) by (cases "ep_check ep (sc_conn st)") simp_all
  have s: "sink_keeps (sc_sink st) mailbox (sc_sink st)" using account_keeps_self [OF Cons.prems(1)] by (simp add: sink_account)
  note e = reconnect_effect [OF s f]
  have "\<exists>i. r = Inr i"
  proof (cases r)
    case (Inl x)
    note nn = note_failure_nonempty [of mailbox x failures]
    show ?thesis by (cases x) (use Cons.prems(4) f c Inl nn failures_grow [where failures = "note_failure mailbox x failures" and failures' = "([], k)", OF _ nn] in auto)
  qed simp
  then obtain i where i: "r = Inr i" ..
  have rest: "scan_mailboxes describe ep reconnect body mailboxes cs 0 (saturating_add_u64 n i) failures st1 = (Inr (m, [], k), st')"
    using Cons.prems(4) f c i by (simp add: Let_def split: if_splits)
  have k1: "account_keeps p (sc_sink st1) (sc_sink st1)" using e by (simp add: sink_account account_keeps_def)
  have ih: "list_all (\<lambda>mailbox. \<exists>i. folder_complete (sc_sink st') mailbox i) mailboxes"
    "m = min (saturating_add_u64 n i + rows_in (sc_sink st') mailboxes) u64_max"
    using Cons.IH [OF k1 _ _ rest] Cons.prems(2) by (simp_all add: saturating_add_u64_def)
  have "account_keeps (\<lambda>f. fst f = sk_side (sc_sink st1) \<and> snd f \<in> set mailboxes) (sc_sink st1) (sc_sink st')"
    using scan_mailboxes_keeps [OF k1, of mailboxes describe ep reconnect body cs 0 "saturating_add_u64 n i" failures] rest by simp
  note fr = complete_frame [OF this, of mailbox]
  have fc: "folder_complete (sc_sink st1) mailbox i" using e i by simp
  then have "length (folder_rows (sk_side (sc_sink st')) mailbox (sk_stage (sc_sink st'))) = i"
    using fr(1) Cons.prems(2) by (auto simp: folder_complete_def)
  then have "m = min (n + rows_in (sc_sink st') (mailbox # mailboxes)) u64_max" using ih(2) by (simp add: rows_in_def saturating_add_u64_def)
  moreover have "folder_complete (sc_sink st') mailbox i" using fr(2) fc Cons.prems(2) by simp
  ultimately show ?case using ih(1) by auto
qed

section \<open>The whole account\<close>

lemma rows_partition:
  "\<forall>e \<in> set t. fst (fst e) = side \<longrightarrow> mk_mailbox (snd (fst e)) \<in> S \<Longrightarrow> finite S \<Longrightarrow>
     length (filter (\<lambda>e. fst (fst e) = side) t) = (\<Sum>m\<in>S. length (filter (\<lambda>e. key_folder (fst e) = (side, m)) t))"
proof (induction t)
  case (Cons e t)
  let ?m = "mk_mailbox (snd (fst e))"
  have ih: "length (filter (\<lambda>e. fst (fst e) = side) t) = (\<Sum>m\<in>S. length (filter (\<lambda>e. key_folder (fst e) = (side, m)) t))"
    using Cons by simp
  have "(\<Sum>m\<in>S. length (filter (\<lambda>e. key_folder (fst e) = (side, m)) (e # t))) =
      (\<Sum>m\<in>S. (if m = ?m then if fst (fst e) = side then 1 else 0 else 0) + length (filter (\<lambda>e. key_folder (fst e) = (side, m)) t))"
    by (rule sum.cong) (auto simp: key_folder_def)
  also have "\<dots> = (if fst (fst e) = side then 1 else 0) + length (filter (\<lambda>e. fst (fst e) = side) t)"
    using Cons.prems by (auto simp: sum.distrib sum.delta ih)
  finally show ?case by simp
qed simp

lemma retain_keeps:
  assumes "stage_sound (sk_stage k)"
  shows "account_keeps (\<lambda>f. fst f = sk_side k) k (sink_retain_mailboxes mailboxes k)"
proof -
  have "(\<lambda>f. fst f = sk_side k \<or> fst f = sk_side k \<and> snd f \<notin> mailboxes) = (\<lambda>f. fst f = sk_side k)" by auto
  moreover have "stg_durable (drop_folders q st) = stg_durable st" for q st by (simp add: drop_folders_def)
  ultimately show ?thesis using assms by (simp add: account_keeps_def sink_retain_mailboxes_def retain_mailboxes_def drop_drop stage_sound_drop)
qed

text \<open>After the loop, the rows of the endpoint all belong to the folders of the inventory.\<close>

lemma endpoint_rows:
  assumes k: "account_keeps (\<lambda>f. fst f = sk_side k0 \<and> snd f \<in> set mailboxes) (sink_retain_mailboxes (set mailboxes) k0) k" and d: "distinct mailboxes"
  shows "length (all_messages (sk_side k) (sk_stage k)) = rows_in k mailboxes"
proof -
  let ?gone = "\<lambda>f. fst f = sk_side k0 \<and> snd f \<in> set mailboxes" and ?t = "stg_messages (sk_stage k)"
  have side: "sk_side k = sk_side k0" using k by (simp add: account_keeps_def sink_retain_mailboxes_def)
  have "drop_folders ?gone (sk_stage k) = drop_folders (\<lambda>f. ?gone f \<or> fst f = sk_side k0 \<and> snd f \<notin> set mailboxes) (sk_stage k0)"
    using k by (simp add: account_keeps_def sink_retain_mailboxes_def retain_mailboxes_def drop_drop)
  then have "folder_rows (sk_side k0) m (sk_stage k) = []" if "m \<notin> set mailboxes" for m
    using that folder_rows_drop [of "sk_side k0" m ?gone "sk_stage k"]
      folder_rows_drop [of "sk_side k0" m "\<lambda>f. ?gone f \<or> fst f = sk_side k0 \<and> snd f \<notin> set mailboxes" "sk_stage k0"] by simp
  then have "\<forall>e \<in> set ?t. fst (fst e) = sk_side k0 \<longrightarrow> mk_mailbox (snd (fst e)) \<in> set mailboxes"
    by (fastforce simp: folder_rows_def filter_empty_conv key_folder_def prod_eq_iff)
  from rows_partition [OF this] have "length (filter (\<lambda>e. fst (fst e) = sk_side k0) ?t) =
      (\<Sum>m\<in>set mailboxes. length (filter (\<lambda>e. key_folder (fst e) = (sk_side k0, m)) ?t))" by simp
  then show ?thesis using d by (simp add: all_messages_def rows_in_def folder_rows_def side sum_list_distinct_conv_sum_set)
qed

lemma account_mailboxes_distinct:
  assumes "account_mailboxes a b details excluded = Inr mailboxes"
  shows "distinct mailboxes" "set mailboxes = {m. (m, True) \<in> set details \<and> m \<notin> excluded}"
proof -
  have m: "mailboxes = remdups_adj (sort (filter (\<lambda>m. m \<notin> excluded) (map fst (filter snd details))))"
    using assms by (simp add: account_mailboxes_def Let_def split: if_splits)
  have "sorted xs \<Longrightarrow> distinct (remdups_adj xs)" for xs :: "str list"
    by (induction xs rule: remdups_adj.induct) auto
  then show "distinct mailboxes" by (simp add: m)
  show "set mailboxes = {m. (m, True) \<in> set details \<and> m \<notin> excluded}" by (force simp: m)
qed

section \<open>An account with one folder\<close>

definition demo_account :: "(account_error + str list \<times> nat) \<times> str list scan_state" where
  "demo_account =
     fetch_account_messages (\<lambda>_ _. []) (demo_endpoint None) (\<lambda>c. (Inl [], c)) None False 1 1 [(''INBOX'', True)] {} demo_start"

lemma demo_account_result: "demo_account = (Inr ([''INBOX''], 1), demo_end)"
proof -
  have start: "demo_start\<lparr>sc_sink := sink_retain_mailboxes mailboxes (sc_sink demo_start)\<rparr> = demo_start" for mailboxes
    by (simp add: demo_start_def new_sink_def sink_retain_mailboxes_def retain_mailboxes_def drop_folders_def empty_stage_def)
  have k: "sink_keeps (sc_sink demo_start) ''INBOX'' (sc_sink demo_start)" using demo_start_sound by (simp add: sink_keeps_def)
  have limit: "sk_count (sc_sink demo_end) \<le> message_fetch_limit (stg_durable (sk_stage (sc_sink demo_end)))"
    using existing_stream_keeps(1) [OF k, of "demo_endpoint None" None False] by (simp add: sink_keeps_def demo_scan)
  have "fetch_mailbox_with_session_reconnect describe (demo_endpoint None) reconnect ''INBOX'' None False 0 demo_start = (Inr 1, False, 0, demo_end)"
    for describe reconnect
    by (simp add: fetch_mailbox_with_session_reconnect.simps fetch_mailbox_with_stability_retry_def MAX_MAILBOX_STABILITY_ATTEMPTS_def numeral_2_eq_2 demo_scan)
  moreover have "ep_check (demo_endpoint None) c = None" for c by (simp add: demo_endpoint_def)
  moreover have "account_mailboxes 1 1 [(''INBOX'', True)] {} = Inr [''INBOX'']" by (simp add: account_mailboxes_def)
  ultimately show ?thesis unfolding demo_account_def fetch_account_messages_def
    using limit by (simp add: start Let_def saturating_add_u64_def u64_max_def)
qed

section \<open>Properties\<close>

text \<open>
  C15: an account scan that succeeds has staged the whole account, whatever the server sent and however often it
  disconnected: every selectable folder of the inventory that is not excluded has a completed cursor with all messages of
  its snapshot, the endpoint's staged rows are exactly the messages counted in the result, and the rows of the other
  endpoint are untouched.
\<close>

theorem account_scan_is_complete:
  assumes "stage_sound (sk_stage (sc_sink st))"
    and "fetch_account_messages describe ep reconnect body condstore mailbox_count selectable_count details excluded st = (Inr (mailboxes, n), st')"
  shows "set mailboxes = {m. (m, True) \<in> set details \<and> m \<notin> excluded} \<and>
    list_all (\<lambda>mailbox. \<exists>i. folder_complete (sc_sink st') mailbox i) mailboxes \<and>
    n = min (length (all_messages (sk_side (sc_sink st)) (sk_stage (sc_sink st')))) u64_max \<and>
    drop_folders (\<lambda>f. fst f = sk_side (sc_sink st)) (sk_stage (sc_sink st')) = drop_folders (\<lambda>f. fst f = sk_side (sc_sink st)) (sk_stage (sc_sink st))"
proof -
  let ?st1 = "st\<lparr>sc_sink := sink_retain_mailboxes (set mailboxes) (sc_sink st)\<rparr>"
  obtain k where m: "account_mailboxes mailbox_count selectable_count details excluded = Inr mailboxes"
    and s: "scan_mailboxes describe ep reconnect body mailboxes condstore 0 0 ([], 0) ?st1 = (Inr (n, [], k), st')"
    using assms(2) by (auto simp: fetch_account_messages_def Let_def and_then_Inr split: sum.splits if_splits)
  note d = account_mailboxes_distinct [OF m]
  have k1: "account_keeps (\<lambda>f. fst f = sk_side (sc_sink st)) (sc_sink st) (sc_sink ?st1)" using retain_keeps [OF assms(1)] by simp
  note self = account_keeps_self [OF k1, of "\<lambda>_. False"]
  have c: "list_all (\<lambda>mailbox. \<exists>i. folder_complete (sc_sink st') mailbox i) mailboxes \<and> n = min (rows_in (sc_sink st') mailboxes) u64_max"
    using scan_mailboxes_complete [OF self d(1) _ s] by simp
  have k2: "account_keeps (\<lambda>f. fst f = sk_side (sc_sink st) \<and> snd f \<in> set mailboxes) (sc_sink ?st1) (sc_sink st')"
    using scan_mailboxes_keeps [OF self, of mailboxes describe ep reconnect body condstore 0 0 "([], 0)"] s by (simp add: sink_retain_mailboxes_def)
  then have r: "length (all_messages (sk_side (sc_sink st')) (sk_stage (sc_sink st'))) = rows_in (sc_sink st') mailboxes"
    using endpoint_rows [of "sc_sink st" mailboxes "sc_sink st'"] d(1) by simp
  have "account_keeps (\<lambda>f. fst f = sk_side (sc_sink st)) (sc_sink st) (sc_sink st')" by (rule account_keeps_trans [OF k1 k2]) simp_all
  then show ?thesis using c r d(2) by (simp add: account_keeps_def)
qed

theorem account_scan_is_complete_witness:
  "set [''INBOX''] = {m. (m, True) \<in> set [(''INBOX'', True)] \<and> m \<notin> {}} \<and>
    list_all (\<lambda>mailbox. \<exists>i. folder_complete (sc_sink demo_end) mailbox i) [''INBOX''] \<and>
    1 = min (length (all_messages (sk_side (sc_sink demo_start)) (sk_stage (sc_sink demo_end)))) u64_max \<and>
    drop_folders (\<lambda>f. fst f = sk_side (sc_sink demo_start)) (sk_stage (sc_sink demo_end)) =
      drop_folders (\<lambda>f. fst f = sk_side (sc_sink demo_start)) (sk_stage (sc_sink demo_start))"
  by (rule account_scan_is_complete [OF demo_start_sound(1) demo_account_result [unfolded demo_account_def]])

text \<open>
  Whatever the server sends and however the account scan ends, the stage stays sound and the rows, cursors and
  flags of the other endpoint are untouched.
\<close>

theorem account_scan_never_corrupts:
  assumes "stage_sound (sk_stage (sc_sink st))" "sk_count (sc_sink st) \<le> message_fetch_limit (stg_durable (sk_stage (sc_sink st)))"
    and "snd (fetch_account_messages describe ep reconnect body condstore mailbox_count selectable_count details excluded st) = st'"
  shows "stage_sound (sk_stage (sc_sink st')) \<and> sk_count (sc_sink st') \<le> message_fetch_limit (stg_durable (sk_stage (sc_sink st))) \<and>
    drop_folders (\<lambda>f. fst f = sk_side (sc_sink st)) (sk_stage (sc_sink st')) = drop_folders (\<lambda>f. fst f = sk_side (sc_sink st)) (sk_stage (sc_sink st))"
proof (cases "account_mailboxes mailbox_count selectable_count details excluded")
  case (Inl e)
  then show ?thesis using assms by (simp add: fetch_account_messages_def)
next
  case (Inr mailboxes)
  let ?st1 = "st\<lparr>sc_sink := sink_retain_mailboxes (set mailboxes) (sc_sink st)\<rparr>"
  have k1: "account_keeps (\<lambda>f. fst f = sk_side (sc_sink st)) (sc_sink st) (sc_sink ?st1)" using retain_keeps [OF assms(1)] by simp
  note k2 = scan_mailboxes_keeps [OF account_keeps_self [OF k1, of "\<lambda>_. False"], of mailboxes describe ep reconnect body condstore 0 0 "([], 0)"]
  have "account_keeps (\<lambda>f. fst f = sk_side (sc_sink st)) (sc_sink st)
      (sc_sink (snd (scan_mailboxes describe ep reconnect body mailboxes condstore 0 0 ([], 0) ?st1)))"
    by (rule account_keeps_trans [OF k1 k2]) (simp_all add: sink_retain_mailboxes_def)
  moreover have "snd (and_then m (\<lambda>r st2. case r of (total_exists, failures, failure_count) \<Rightarrow>
      if failures \<noteq> [] then (Inl (Folders_Incomplete failures failure_count), st2) else (Inr (mailboxes, total_exists), st2))) = snd m"
    for m :: "(account_error + nat \<times> (str \<times> mailbox_fetch_error) list \<times> nat) \<times> 'a scan_state"
    by (rule and_then_keeps [where P = "\<lambda>s. s = snd m"]) (simp_all split: prod.splits)
  ultimately show ?thesis using Inr assms(3) by (simp add: fetch_account_messages_def account_keeps_def Let_def)
qed

theorem account_scan_never_corrupts_witness:
  "stage_sound (sk_stage (sc_sink (snd demo_account))) \<and>
    sk_count (sc_sink (snd demo_account)) \<le> message_fetch_limit (stg_durable (sk_stage (sc_sink demo_start))) \<and>
    drop_folders (\<lambda>f. fst f = sk_side (sc_sink demo_start)) (sk_stage (sc_sink (snd demo_account))) =
      drop_folders (\<lambda>f. fst f = sk_side (sc_sink demo_start)) (sk_stage (sc_sink demo_start))"
  unfolding demo_account_def by (rule account_scan_never_corrupts [OF demo_start_sound refl])



section \<open>Names decide classes\<close>

definition uidvalidity_missing_text :: "str \<Rightarrow> str \<Rightarrow> str" where
  "uidvalidity_missing_text host mailbox =
     host @ '': SELECT '' @ mailbox @ '' did not return UIDVALIDITY; mutation detection is unavailable''"


end
