(* ===== verification/Spec2Isabelle.thy ===== *)
theory Spec2Isabelle
  imports Scheduler_Safety Command_Line Maintenance_Window Evidence Ledger_Holds Ledger_Readiness Ledger_Waves
    Flag_Verification Webhook_Outbox Account_Scan
begin

text \<open>
  A verification development for MailSwiftSync, a program that migrates mailboxes between mail servers.

  The program.  A project holds mailbox jobs.  An operator starts single runs or batches; the batch
  scheduler (\<^verbatim>\<open>src/src/controller/\<close>) hands jobs to workers under the ceilings of a hierarchical rate
  limiter, classifies every failure and retries the transient ones; every start, claim, end, hold, phase change
  and piece of verification evidence is a transaction of the durable ledger (\<^verbatim>\<open>src/src/core/\<close>, SQLite), which
  is also what a restart recovers from and what reports and the managed cutover read.  A verification reads both
  mailboxes over IMAP (\<^verbatim>\<open>src/src/imap_probe/\<close>) into a stage and reconciles them there.

  Conventions.  Text is a list of bytes (type \<open>str\<close>), as Rust strings are UTF-8.  A \<^verbatim>\<open>u64\<close> counter is a \<open>nat\<close>
  with its saturation or its range check written out; durations are integers of the unit the code uses.  An
  error is a value: \<open>option\<close>, or a sum whose left side is the error.  A SQL transaction is a function from the
  ledger to an error or the new ledger, so an error leaves nothing behind, as a dropped transaction does.

  Theories and the code they model.
  \<^item> \<open>Prelude\<close>: bytes, decimal and UTF-8 text, \<^verbatim>\<open>trim\<close>, \<^verbatim>\<open>split_once\<close>, saturating arithmetic, and the locale
    \<open>wire_codec\<close> of label enumerations with a parser, whose lemmas every labelled enumeration uses.
  \<^item> \<open>Lifecycle\<close>: \<^verbatim>\<open>core/state.rs\<close> and the phase ranks and attention reasons of \<^verbatim>\<open>core/policy.rs\<close>.
  \<^item> \<open>Provider_Intelligence\<close>, \<open>Verification_Limit\<close>, \<open>Failure\<close>: \<^verbatim>\<open>core/provider_intelligence.rs\<close>,
    \<^verbatim>\<open>core/verification_limit.rs\<close>, \<^verbatim>\<open>controller/failure.rs\<close>: the classifiers, the retry policy and the durable
    failure detail.
  \<^item> \<open>Rate_Domains\<close>, \<open>Rate_Limiter\<close>: \<^verbatim>\<open>controller/rate_domains.rs\<close>; the first has the operations, the second
    the slot accounting (locale \<open>slot_counter\<close>), the cooldown and the escalation lemmas.
  \<^item> \<open>Scheduler_Queues\<close>, \<open>Batch_Scheduler\<close>, \<open>Scheduler_Safety\<close>: \<^verbatim>\<open>controller/batch_scheduler.rs\<close>; the fair
    queue (locale \<open>tenant_queue\<close>) and the timer queue, the scheduling loop and its workers as an
    interleaved step relation \<open>sched_step\<close>, and the invariants of its reachable states.
  \<^item> \<open>Command_Line\<close>: \<^verbatim>\<open>command.rs\<close> and \<^verbatim>\<open>extra_options.rs\<close>.  \<open>Maintenance_Window\<close>: \<^verbatim>\<open>maintenance_window.rs\<close>.
  \<^item> \<open>Evidence\<close>: \<^verbatim>\<open>core/evidence.rs\<close>, the evidence record, the one exactness rule and what is derived from it.
  \<^item> \<open>Checkpoint\<close>: the Dovecot checkpoints of \<^verbatim>\<open>core/policy.rs\<close>.
  \<^item> \<open>Ledger_Tables\<close>: the tables of \<^verbatim>\<open>core/database.rs\<close> as a record of row lists, the integer limits of
    \<^verbatim>\<open>core.rs\<close>, the audit text and event-detail limits of \<^verbatim>\<open>storage.rs\<close>, and the queries that several
    transactions share.
  \<^item> \<open>Cutover\<close>: \<^verbatim>\<open>core/cutover.rs\<close>.  \<open>Ledger_Runs\<close>: \<^verbatim>\<open>core/runs.rs\<close>.  \<open>Ledger_Ops\<close>: \<^verbatim>\<open>core/projects.rs\<close>,
    \<^verbatim>\<open>core/phases.rs\<close>, \<^verbatim>\<open>core/holds.rs\<close>, \<^verbatim>\<open>core/recovery.rs\<close>, \<^verbatim>\<open>core/evidence_ops.rs\<close> and the retry
    deadlines of \<^verbatim>\<open>core/runs.rs\<close>.  \<open>Ledger_Events\<close>: \<^verbatim>\<open>core/events.rs\<close>.  \<open>Ledger_Queue\<close>: the writers of
    \<^verbatim>\<open>core/queue.rs\<close>.
  \<^item> \<open>Ledger_Ownership\<close>, \<open>Ledger_Admission\<close>, \<open>Ledger_Ending\<close>: the ownership invariant \<open>run_inv\<close> over the job
    and run tables, and that starts, claims and endings keep it.
  \<^item> \<open>Ledger_Safety\<close>: the transactions as one step relation \<open>ledger_step\<close> and the locale \<open>step_invariant\<close> of
    state invariants; the ownership theorem and recovery.
  \<^item> \<open>Ledger_Effects\<close>, \<open>Ledger_Holds\<close>, \<open>Ledger_Completion\<close>, \<open>Ledger_Readiness\<close>: what each transaction leaves
    untouched; holds; verified mailboxes and the completion of a project; readiness and the completion
    gate of a managed cutover.
  \<^item> \<open>Ledger_Waves\<close>: \<^verbatim>\<open>core/waves.rs\<close> and the wave gate of \<^verbatim>\<open>controller/batch_admission.rs\<close>; the step relation
    \<open>wave_step\<close> interleaves the transactions of the waves with those of the ledger.
  \<^item> \<open>Reconciliation\<close>: the in-memory reconciliation of \<^verbatim>\<open>core/message_verification/\<close> (\<^verbatim>\<open>mismatch.rs\<close>,
    \<^verbatim>\<open>reconciliation.rs\<close>, \<^verbatim>\<open>summary.rs\<close>), three passes that pair messages and an accounting check.
    \<open>Reconciliation_Partition\<close>, \<open>Reconciliation_Accounting\<close>, \<open>Reconciliation_Exact\<close>: that the passes pair each
    message at most once, that the check never fails, and what an exact outcome means.
  \<^item> \<open>Content_Verification\<close>: \<^verbatim>\<open>fingerprints.rs\<close>, the comparison of bodies.  \<open>Flag_Verification\<close>: \<^verbatim>\<open>flags.rs\<close>, the
    staged rows that it reads, and the evidence that \<^verbatim>\<open>runner/verification.rs\<close> builds.
  \<^item> \<open>Imap_Text\<close>: the text operations of the IMAP parsers and \<^verbatim>\<open>imap_protocol.rs\<close>.  \<open>Imap_Framing\<close>:
    \<^verbatim>\<open>imap_probe/literal_framing.rs\<close> and the reading loops of \<^verbatim>\<open>protocol.rs\<close>.  \<open>Imap_Pages\<close>: \<^verbatim>\<open>uid.rs\<close>,
    \<^verbatim>\<open>fetch_pages.rs\<close> and \<^verbatim>\<open>enumerate_uid_pages\<close>, with the locales \<open>page_keeper\<close> and \<open>page_consumer\<close> of what the
    enumeration needs of its callbacks.  \<open>Imap_Fetch\<close>: \<^verbatim>\<open>fetch_parser.rs\<close>.
  \<^item> \<open>Message_Stage\<close>: the tables and scan operations of \<^verbatim>\<open>core/message_staging.rs\<close> and the \<^verbatim>\<open>StageMessageSink\<close> of
    \<^verbatim>\<open>imap_probe.rs\<close>, and what a sound stage is.  \<open>Imap_Select\<close>: SELECT responses and quoting.  \<open>Imap_Scan\<close>:
    \<^verbatim>\<open>fetch_mailbox_with_existing_stream\<close> with its budgets.  \<open>Scan_Safety\<close>: that a scan keeps the stage sound, the
    interpretation of the page locales on its callbacks, and what a successful scan has staged.
  \<^item> \<open>Account_Scan\<close>: the retries, reconnects and the loop over an account, \<^verbatim>\<open>fetch_tls_account_messages_with_sink\<close>.
  \<^item> \<open>Webhook_Outbox\<close>: \<^verbatim>\<open>core/webhook_outbox.rs\<close> and the delivery loop of \<^verbatim>\<open>cli/maintenance.rs\<close>; the locale
    \<open>granting_system\<close> bounds what a sequence of operations hands out by a potential.

  What the theorems show.
  \<^item> Scheduler: every job is settled exactly once over every interleaving, no wakeup is lost, no attempt is
    duplicated and the parked work is bounded.  Limiter: ceilings hold, server-requested delays are honoured,
    throttling stays local, and an idle limiter admits.
  \<^item> Ledger: a running mailbox has one owner and destination locks are exclusive outside a batch; a verified
    mailbox is backed by exact evidence; a completed project is accepted mailbox by mailbox; a held project
    starts nothing; recovery leaves nothing running; the cutover completes only through its gate, and a new run
    withdraws readiness; a retry deadline survives the restart.
  \<^item> Evidence: the verified state implements its specification, and no level, status, dimension or percentage
    claims more than the evidence.  Lifecycle: the legal transitions and what they imply for histories.
  \<^item> Message verification: the reconciliation accounts for every message, is exact if and only if the mailboxes are
    equal, and exact evidence with body hashes shows a copy, bodies and flags.
  \<^item> Reading the mailboxes: whatever a server sends, and however often it disconnects or changes under the scan, the
    stage stays sound; a scan that succeeds has staged exactly the messages of the snapshot, a folder that fails leaves
    nothing, and an account that succeeds is complete.  Message bytes never pass for protocol text, UID sets denote the
    requested UIDs, folder names cannot extend a command, and a Message-ID cannot be forged into a fingerprint or back.
  \<^item> Waves: membership is well formed, an admitted wave is approved for good, and its status is what its mailboxes
    say.  Webhooks: leases are exclusive, deliveries are bounded, and the worker leaves nothing behind.
  \<^item> Text: round trips of failure details, checkpoints, option vectors and shell words; the option allowlist; the
    removal of secret placeholders.  Maintenance windows: the close of a window is exact.

  Parameters.  The environment record of the ledger holds the clock, the timestamp formats, the digest, Base64,
  CRC32, and the two destination identities, which read TOML profiles.  Unicode lower-casing, the random draw
  of a retry delay and the time zone are arguments.  Theorems that need something of them say so in a
  hypothesis, and their witnesses use concrete functions.

  A \<^verbatim>\<open>HashMap\<close> that the code iterates is an association list with distinct keys, which the theorems state as a
  hypothesis; the date parser, the HTTP post and the clock of the delivery command are arguments.  An IMAP server is a
  record of functions on a connection state of any type: the chunks it delivers after a command and how the transport
  ends, the budget check, the clock, the free space and SHA-256.  No theorem about a scan assumes anything of it.

  Bounds and fuel.  No definition has fuel: the recursions are structural or have a measure, and the loops that
  may run forever (the scheduler and its workers) are step relations.  The hundred rounds of the delivery command
  are the bound of the code itself.

  Not modelled.  Opening and migrating the databases, SQL triggers (an event that a trigger queues for delivery is
  an enqueue step of the outbox), paged reads, the search index; the writers of transfer passes (the gate reads
  their rows); the SQL form of the reconciliation, whose three passes are query plans over temporary tables (the
  in-memory form is modelled); sockets, TLS and authentication; the LIST exchange and the revalidation of a scanned
  account, whose stage operations are modelled; bulk import, profiles and their validation, which rest on third-party
  readers of CSV, XLSX and TOML; processes, credentials, OAuth, reports, the command line, the control plane and the
  user interface, which are input and output or call third-party code.
\<close>

end
